(* ===== verification/Prelude.thy ===== *)
theory Prelude
  imports Main "HOL-Library.Word" "HOL-Library.Monad_Syntax"
begin

text \<open>
  Shared vocabulary of the development: the C integer types of
  \<^verbatim>\<open>include/x86-64/types.h\<close>, the rounding macros of \<^verbatim>\<open>include/types.h\<close>, the paging
  constants of \<^verbatim>\<open>include/x86-64/paging.h\<close> and \<^verbatim>\<open>include/x86-64/memory.h\<close>, the error
  numbers of \<^verbatim>\<open>include/error.h\<close>, and the generic lemmas on words, powers of two and
  lists that the components share.

  A C function that may fail to return (a \<^verbatim>\<open>panic\<close>, a failed \<^verbatim>\<open>assert\<close>, a wild read, a
  lock that is never released) is a function into \<open>option\<close>; \<open>None\<close> says that control
  does not come back to the caller.
\<close>

unbundle bit_operations_syntax

named_theorems rounding \<open>facts on ROUNDUP, ROUNDDOWN and alignment\<close>
named_theorems footprint \<open>what an operation leaves unchanged\<close>

section \<open>Integer types and rounding\<close>

type_synonym u8 = "8 word"
type_synonym u16 = "16 word"
type_synonym u32 = "32 word"
type_synonym u64 = "64 word"

definition ROUNDDOWN :: "u64 \<Rightarrow> u64 \<Rightarrow> u64" where
  "ROUNDDOWN a n = a - a mod n"

definition ROUNDUP :: "u64 \<Rightarrow> u64 \<Rightarrow> u64" where
  "ROUNDUP a n = ROUNDDOWN (a + n - 1) n"

section \<open>Paging constants\<close>

definition PAGE_SIZE :: u64 where "PAGE_SIZE = 4096"
definition HPAGE_SIZE :: u64 where "HPAGE_SIZE = push_bit 21 1"

definition page_aligned :: "u64 \<Rightarrow> bool" where
  "page_aligned p \<longleftrightarrow> p AND (PAGE_SIZE - 1) = 0"

definition hpage_aligned :: "u64 \<Rightarrow> bool" where
  "hpage_aligned p \<longleftrightarrow> p AND (HPAGE_SIZE - 1) = 0"

lemma unat_ROUNDDOWN [rounding]:
  "unat (ROUNDDOWN a n) = unat a - unat a mod unat n"
proof -
  have "a mod n \<le> a"
    by (simp add: word_le_nat_alt unat_mod)
  then show ?thesis
    by (simp add: ROUNDDOWN_def unat_sub unat_mod)
qed

lemma ROUNDDOWN_le [rounding]: "ROUNDDOWN a n \<le> a"
  by (simp add: word_le_nat_alt unat_ROUNDDOWN)

lemma ROUNDDOWN_dvd [rounding]: "unat n dvd unat (ROUNDDOWN a n)"
  by (simp add: unat_ROUNDDOWN dvd_minus_mod)

lemma ROUNDDOWN_gt: "0 < n \<Longrightarrow> unat a < unat (ROUNDDOWN a n) + unat n"
proof -
  assume "0 < n"
  then have "0 < unat n" by (simp add: unat_gt_0)
  then have "unat a mod unat n < unat n" by simp
  moreover have "unat a mod unat n \<le> unat a" by simp
  ultimately show ?thesis by (simp add: unat_ROUNDDOWN)
qed

lemma unat_ROUNDUP:
  assumes "0 < n" and "unat a + unat n \<le> 2 ^ 64"
  shows "unat (ROUNDUP a n) = (unat a + unat n - 1) - (unat a + unat n - 1) mod unat n"
proof -
  from assms(1) have n: "1 \<le> unat n" by (simp add: unat_gt_0 Suc_leI)
  have nz: "1 \<le> n" using n by (simp add: word_le_nat_alt)
  have n1: "unat (n - 1) = unat n - 1"
    using nz by (simp add: unat_sub)
  have eq: "a + n - 1 = a + (n - 1)" by (rule add_diff_eq [symmetric])
  have "unat (a + n - 1) = unat a + unat n - 1"
    unfolding eq using assms(2) n n1 by (simp add: unat_word_ariths)
  then show ?thesis
    by (simp add: ROUNDUP_def unat_ROUNDDOWN)
qed

lemma ROUNDUP_dvd [rounding]: "unat n dvd unat (ROUNDUP a n)"
  by (simp add: ROUNDUP_def ROUNDDOWN_dvd)

lemma bit_unat: "bit (unat w) n = bit w n"
  by (simp add: bit_unsigned_iff)

lemma unat_exp:
  assumes "n < 64"
  shows "unat (2 ^ n :: u64) = 2 ^ n"
proof -
  have "(2 :: nat) ^ n < 2 ^ 64" using assms by (intro power_strict_increasing) simp_all
  then have "unat (of_nat (2 ^ n) :: u64) = 2 ^ n" by (simp only: unat_of_nat) simp
  then show ?thesis by simp
qed

lemma remove1_map: "inj f \<Longrightarrow> remove1 (f x) (map f xs) = map f (remove1 x xs)"
  by (induction xs) (auto dest: injD)

lemma unat_u64_less: "unat (w :: u64) < 2 ^ 64"
  using unsigned_less [of w] by simp

end
