(* ===== verification/Spinlock.thy ===== *)
theory Spinlock
  imports Prelude
begin

text \<open>
  The ranked spinlocks of \<^verbatim>\<open>include/spinlock.h\<close> and \<^verbatim>\<open>kernel/spinlock.c\<close>, in the configuration
  the header fixes (\<^verbatim>\<open>DEBUG_SPINLOCK\<close> defined).  A CPU is a number; its
  \<^verbatim>\<open>this_cpu->spinlock_rank\<close> is an explicit 64-bit argument.

  Each function is one call made by one CPU; \<open>Spinlock_Conc\<close> lets any number of CPUs interleave.
\<close>

section \<open>The operations of one CPU\<close>

record spinlock =
  locked :: u32
  rank :: u64
  lname :: "string option"
  lcpu :: "nat option"
  lfile :: "string option"
  lline :: nat

definition holding :: "nat \<Rightarrow> spinlock \<Rightarrow> bool" where
  "holding cpu l \<longleftrightarrow> locked l \<noteq> 0 \<and> lcpu l = Some cpu"

definition spin_haslock :: "nat \<Rightarrow> spinlock \<Rightarrow> bool" where
  "spin_haslock cpu l = holding cpu l"

definition spin_init :: "spinlock \<Rightarrow> string option \<Rightarrow> u64 \<Rightarrow> spinlock option" where
  "spin_init l nm rk =
     (if rk AND (rk - 1) \<noteq> 0 then None
      else Some (l\<lparr>locked := 0, rank := rk, lname := nm, lcpu := None\<rparr>))"

text \<open>
  The two checks before the lock word is touched: the CPU does not already hold the lock,
  and a ranked lock is above every rank the CPU holds.  A failed check is a panic.
\<close>

definition lock_permitted :: "nat \<Rightarrow> u64 \<Rightarrow> spinlock \<Rightarrow> bool" where
  "lock_permitted cpu r l \<longleftrightarrow> \<not> holding cpu l \<and> (rank l \<noteq> 0 \<longrightarrow> \<not> rank l \<le> r)"

definition record_owner :: "nat \<Rightarrow> string \<Rightarrow> nat \<Rightarrow> spinlock \<Rightarrow> spinlock" where
  "record_owner cpu file line l = l\<lparr>lcpu := Some cpu, lfile := Some file, lline := line\<rparr>"

text \<open>
  \<^verbatim>\<open>__spin_lock\<close>: the lock and the CPU's rank afterwards.  \<open>None\<close>: the call panics, or (the
  lock word being taken) it spins for as long as nobody else releases the lock.
\<close>

definition spin_lock :: "nat \<Rightarrow> string \<Rightarrow> nat \<Rightarrow> u64 \<Rightarrow> spinlock \<Rightarrow> (spinlock \<times> u64) option" where
  "spin_lock cpu file line r l =
     (if \<not> lock_permitted cpu r l then None
      else if locked l \<noteq> 0 then None
      else Some (record_owner cpu file line (l\<lparr>locked := 1\<rparr>), r OR rank l))"

text \<open>\<^verbatim>\<open>__spin_trylock\<close>: as above, but a taken lock word makes it return 0.\<close>

definition spin_trylock ::
    "nat \<Rightarrow> string \<Rightarrow> nat \<Rightarrow> u64 \<Rightarrow> spinlock \<Rightarrow> (nat \<times> spinlock \<times> u64) option" where
  "spin_trylock cpu file line r l =
     (if \<not> lock_permitted cpu r l then None
      else if locked l \<noteq> 0 then Some (0, l, r)
      else Some (1, record_owner cpu file line (l\<lparr>locked := 1\<rparr>), r OR rank l))"

definition unlock_permitted :: "nat \<Rightarrow> u64 \<Rightarrow> spinlock \<Rightarrow> bool" where
  "unlock_permitted cpu r l \<longleftrightarrow>
     locked l \<noteq> 0 \<and> holding cpu l \<and>
     (rank l \<noteq> 0 \<longrightarrow> \<not> push_bit 1 (rank l) \<le> r \<and> \<not> rank l > r)"

definition forget_owner :: "spinlock \<Rightarrow> spinlock" where
  "forget_owner l = l\<lparr>lcpu := None, lfile := None, lline := 0\<rparr>"

definition spin_unlock :: "nat \<Rightarrow> u64 \<Rightarrow> spinlock \<Rightarrow> (spinlock \<times> u64) option" where
  "spin_unlock cpu r l =
     (if \<not> unlock_permitted cpu r l then None
      else Some ((forget_owner l)\<lparr>locked := 0\<rparr>, r XOR rank l))"

definition lock_free :: "spinlock \<Rightarrow> bool" where
  "lock_free l \<longleftrightarrow> locked l = 0"

lemmas lock_op_defs = spin_lock_def spin_unlock_def spin_haslock_def lock_permitted_def
  unlock_permitted_def holding_def record_owner_def forget_owner_def lock_free_def

section \<open>Rank arithmetic\<close>

text \<open>A rank accepted by \<^verbatim>\<open>spin_init\<close> has at most one bit.\<close>

definition rank_ok :: "u64 \<Rightarrow> bool" where
  "rank_ok rk \<longleftrightarrow> (\<forall>m n. bit rk m \<longrightarrow> bit rk n \<longrightarrow> m = n)"

lemma pred_keeps_high_bit:
  assumes "bit (r :: u64) m" and "m < n"
  shows "bit (r - 1) n = bit r n"
proof -
  let ?r = "unat r"
  have "bit (take_bit n ?r) m" using assms by (simp add: bit_take_bit_iff bit_unsigned_iff)
  then have low: "0 < ?r mod 2 ^ n" by (auto simp: take_bit_eq_mod intro: gr0I)
  obtain q b where e: "?r = 2 ^ n * q + b" "b < 2 ^ n" "?r div 2 ^ n = q" "?r mod 2 ^ n = b"
    using mult_div_mod_eq [of "2 ^ n" ?r] mod_less_divisor [of "2 ^ n" ?r] by (metis zero_less_numeral zero_less_power)
  have "(?r - 1) div 2 ^ n = q" using low e by (intro div_nat_eqI) auto
  then have "(?r - 1) div 2 ^ n = ?r div 2 ^ n" using e(3) by simp
  then have "bit (?r - 1) n = bit ?r n" by (simp add: bit_iff_odd)
  moreover have "r \<noteq> 0" using assms(1) by auto
  then have "unat (r - 1) = ?r - 1" by (rule unat_minus_one)
  ultimately show ?thesis by (metis bit_unat)
qed

lemma spin_init_rank_ok:
  assumes "spin_init l nm rk = Some l'"
  shows "rank_ok (rank l')" and "rank l' = rk"
proof -
  show r: "rank l' = rk" using assms by (auto simp: spin_init_def split: if_splits)
  have z: "rk AND (rk - 1) = 0" using assms by (auto simp: spin_init_def split: if_splits)
  have no: False if "bit rk m" "bit rk n" "m < n" for m n
    using that pred_keeps_high_bit [OF that(1,3)] z by (metis bit_and_iff bit_0_eq bot_apply bot_bool_def)
  show "rank_ok (rank l')" unfolding rank_ok_def r using no by (metis linorder_neqE_nat)
qed

lemma spin_init_unlocked:
  "spin_init l nm rk = Some l' \<Longrightarrow> locked l' = 0 \<and> lcpu l' = None"
  by (auto simp: spin_init_def split: if_splits)

end
