(* ===== verification/Spinlock_Conc.thy ===== *)
theory Spinlock_Conc
  imports Spinlock
begin

text \<open>
  Any number of CPUs using any number of the spinlocks of \<^verbatim>\<open>kernel/spinlock.c\<close>.  Every call is
  cut at its accesses to the shared lock: the checks, each attempt of the compare-and-exchange
  loop, the recording of the owner, the checks and clearing of the owner in the unlock, and
  the store to the lock word.  The invariant of the step relation gives mutual exclusion, the
  soundness of the owner check, and freedom from deadlock through the ranks.
\<close>

section \<open>Steps\<close>

datatype pc =
    Idle
  | Spinning bool nat string nat  \<comment> \<open>before \<^verbatim>\<open>atomic_cmpxchg\<close>; is it a trylock\<close>
  | Locking nat string nat   \<comment> \<open>lock word taken, owner not yet recorded\<close>
  | Unlocking nat            \<comment> \<open>owner cleared, lock word still 1\<close>
  | Halted                   \<comment> \<open>after a panic\<close>

record lock_sys =
  locks :: "nat \<Rightarrow> spinlock"
  ranks :: "nat \<Rightarrow> u64"
  pcs :: "nat \<Rightarrow> pc"

inductive step :: "lock_sys \<Rightarrow> lock_sys \<Rightarrow> bool" where
  lock_enter: "pcs s c = Idle \<Longrightarrow> lock_permitted c (ranks s c) (locks s l) \<Longrightarrow>
    step s (s\<lparr>pcs := (pcs s)(c := Spinning tr l fn ln)\<rparr>)"
| lock_panic: "pcs s c = Idle \<Longrightarrow> \<not> lock_permitted c (ranks s c) (locks s l) \<Longrightarrow>
    step s (s\<lparr>pcs := (pcs s)(c := Halted)\<rparr>)"
| lock_spin: "pcs s c = Spinning False l fn ln \<Longrightarrow> locked (locks s l) \<noteq> 0 \<Longrightarrow> step s s"
| trylock_fail: "pcs s c = Spinning True l fn ln \<Longrightarrow> locked (locks s l) \<noteq> 0 \<Longrightarrow>
    step s (s\<lparr>pcs := (pcs s)(c := Idle)\<rparr>)"
| lock_take: "pcs s c = Spinning tr l fn ln \<Longrightarrow> locked (locks s l) = 0 \<Longrightarrow>
    step s (s\<lparr>locks := (locks s)(l := (locks s l)\<lparr>locked := 1\<rparr>),
              ranks := (ranks s)(c := ranks s c OR rank (locks s l)),
              pcs := (pcs s)(c := Locking l fn ln)\<rparr>)"
| lock_own: "pcs s c = Locking l fn ln \<Longrightarrow>
    step s (s\<lparr>locks := (locks s)(l := record_owner c fn ln (locks s l)), pcs := (pcs s)(c := Idle)\<rparr>)"
| unlock_enter: "pcs s c = Idle \<Longrightarrow> unlock_permitted c (ranks s c) (locks s l) \<Longrightarrow>
    step s (s\<lparr>locks := (locks s)(l := forget_owner (locks s l)), pcs := (pcs s)(c := Unlocking l)\<rparr>)"
| unlock_panic: "pcs s c = Idle \<Longrightarrow> \<not> unlock_permitted c (ranks s c) (locks s l) \<Longrightarrow>
    step s (s\<lparr>pcs := (pcs s)(c := Halted)\<rparr>)"
| unlock_store: "pcs s c = Unlocking l \<Longrightarrow>
    step s (s\<lparr>locks := (locks s)(l := (locks s l)\<lparr>locked := 0\<rparr>),
              ranks := (ranks s)(c := ranks s c XOR rank (locks s l)),
              pcs := (pcs s)(c := Idle)\<rparr>)"

inductive_cases stepE: "step s t"

text \<open>Initially every lock is as \<^verbatim>\<open>spin_init\<close> leaves it and every CPU is outside the lock code.\<close>

definition initial :: "lock_sys \<Rightarrow> bool" where
  "initial s \<longleftrightarrow> (\<forall>c. pcs s c = Idle \<and> ranks s c = 0) \<and>
     (\<forall>l. \<exists>l0 nm rk. spin_init l0 nm rk = Some (locks s l))"

definition reachable :: "lock_sys \<Rightarrow> bool" where
  "reachable s \<longleftrightarrow> (\<exists>s0. initial s0 \<and> step\<^sup>*\<^sup>* s0 s)"

text \<open>A CPU is inside lock \<open>l\<close> from the moment it takes the lock word until it gives it back.\<close>

definition transit :: "lock_sys \<Rightarrow> nat \<Rightarrow> nat \<Rightarrow> bool" where
  "transit s c l \<longleftrightarrow> (case pcs s c of Locking m _ _ \<Rightarrow> m = l | Unlocking m \<Rightarrow> m = l | _ \<Rightarrow> False)"

definition inside :: "lock_sys \<Rightarrow> nat \<Rightarrow> nat \<Rightarrow> bool" where
  "inside s c l \<longleftrightarrow> transit s c l \<or> holding c (locks s l)"

section \<open>The invariant\<close>

definition lock_inv :: "lock_sys \<Rightarrow> bool" where
  "lock_inv s \<longleftrightarrow>
     (\<forall>l c d. inside s c l \<longrightarrow> inside s d l \<longrightarrow> c = d) \<and>
     (\<forall>l c. inside s c l \<longrightarrow> locked (locks s l) \<noteq> 0) \<and>
     (\<forall>l. lcpu (locks s l) \<noteq> None \<longrightarrow> locked (locks s l) \<noteq> 0) \<and>
     (\<forall>l c. transit s c l \<longrightarrow> lcpu (locks s l) = None)"

definition rank_inv :: "lock_sys \<Rightarrow> bool" where
  "rank_inv s \<longleftrightarrow> (\<forall>l. rank_ok (rank (locks s l))) \<and>
     (\<forall>c n. bit (ranks s c) n \<longleftrightarrow> (\<exists>l. inside s c l \<and> bit (rank (locks s l)) n)) \<and>
     (\<forall>c l l' n. inside s c l \<longrightarrow> inside s c l' \<longrightarrow> bit (rank (locks s l)) n \<longrightarrow>
        bit (rank (locks s l')) n \<longrightarrow> l = l') \<and>
     (\<forall>c tr l fn ln. pcs s c = Spinning tr l fn ln \<longrightarrow>
        rank (locks s l) = 0 \<or> ranks s c < rank (locks s l))"

lemma initial_locks: "initial s \<Longrightarrow> locked (locks s l) = 0 \<and> lcpu (locks s l) = None"
  using spin_init_unlocked unfolding initial_def by blast

lemma initial_inside: "initial s \<Longrightarrow> \<not> inside s c l"
  using initial_locks [of s l] by (simp add: inside_def holding_def transit_def initial_def)

lemma initial_lock_inv: "initial s \<Longrightarrow> lock_inv s"
  using initial_inside initial_locks by (simp add: lock_inv_def)

lemma initial_rank_inv:
  assumes "initial s"
  shows "rank_inv s"
proof -
  have "rank_ok (rank (locks s l))" for l using assms spin_init_rank_ok(1) unfolding initial_def by metis
  then show ?thesis
    using assms initial_inside [OF assms] by (auto simp: rank_inv_def initial_def)
qed

text \<open>How each kind of step changes who is inside.\<close>

definition entered :: "lock_sys \<Rightarrow> nat \<Rightarrow> nat \<Rightarrow> lock_sys \<Rightarrow> bool" where
  "entered s c l t \<longleftrightarrow> (\<forall>d m. inside t d m \<longleftrightarrow> inside s d m \<or> (d = c \<and> m = l))"

definition left :: "lock_sys \<Rightarrow> nat \<Rightarrow> nat \<Rightarrow> lock_sys \<Rightarrow> bool" where
  "left s c l t \<longleftrightarrow> inside s c l \<and> (\<forall>d m. inside t d m \<longleftrightarrow> inside s d m \<and> m \<noteq> l)"

lemmas inside_defs = inside_def transit_def holding_def record_owner_def forget_owner_def
  unlock_permitted_def

lemma take_enters:
  assumes "lock_inv s" and "pcs s c = Spinning tr l fn ln" and "locked (locks s l) = 0"
  shows "entered s c l (s\<lparr>locks := (locks s)(l := (locks s l)\<lparr>locked := 1\<rparr>),
    ranks := r, pcs := (pcs s)(c := Locking l fn ln)\<rparr>)"
proof -
  have "lcpu (locks s l) = None" using assms by (auto simp: lock_inv_def)
  then show ?thesis using assms(2) by (auto simp: entered_def inside_defs split: pc.splits)
qed

lemma own_stays:
  assumes "lock_inv s" and "pcs s c = Locking l fn ln"
  shows "inside (s\<lparr>locks := (locks s)(l := record_owner c fn ln (locks s l)), pcs := (pcs s)(c := Idle)\<rparr>) d m
    = inside s d m"
proof -
  have "transit s c l" using assms(2) by (simp add: transit_def)
  then have "lcpu (locks s l) = None" "locked (locks s l) \<noteq> 0"
    using assms(1) by (auto simp: lock_inv_def inside_def)
  then show ?thesis using assms(2) by (auto simp: inside_defs split: pc.splits)
qed

lemma unlock_enter_stays:
  assumes "pcs s c = Idle" and "unlock_permitted c r (locks s l)"
  shows "inside (s\<lparr>locks := (locks s)(l := forget_owner (locks s l)), pcs := (pcs s)(c := Unlocking l)\<rparr>) d m
    = inside s d m"
  using assms by (auto simp: inside_defs split: pc.splits)

lemma store_leaves:
  assumes "lock_inv s" and "pcs s c = Unlocking l"
  shows "left s c l (s\<lparr>locks := (locks s)(l := (locks s l)\<lparr>locked := 0\<rparr>), ranks := r, pcs := (pcs s)(c := Idle)\<rparr>)"
proof -
  have t: "transit s c l" using assms(2) by (simp add: transit_def)
  then have "d = c" if "transit s d l" for d using assms(1) that by (auto simp: lock_inv_def inside_def)
  then show ?thesis using assms(2) t by (auto simp: left_def inside_defs split: pc.splits)
qed

lemma lock_invD:
  assumes "lock_inv s"
  shows inside_unique: "inside s c l \<Longrightarrow> inside s d l \<Longrightarrow> c = d"
    and inside_locked: "inside s c l \<Longrightarrow> locked (locks s l) \<noteq> 0"
    and owner_locked: "lcpu (locks s l) \<noteq> None \<Longrightarrow> locked (locks s l) \<noteq> 0"
    and transit_no_owner: "transit s c l \<Longrightarrow> lcpu (locks s l) = None"
  using assms unfolding lock_inv_def by blast+

lemma lock_inv_change:
  assumes inv: "lock_inv s"
    and ins: "\<And>d m. inside t d m \<Longrightarrow> m \<noteq> l \<Longrightarrow> inside s d m"
    and tra: "\<And>d m. transit t d m \<Longrightarrow> m \<noteq> l \<Longrightarrow> transit s d m"
    and oth: "\<And>m. m \<noteq> l \<Longrightarrow> locks t m = locks s m"
    and one: "\<And>c d. inside t c l \<Longrightarrow> inside t d l \<Longrightarrow> c = d"
    and held: "\<And>c. inside t c l \<Longrightarrow> locked (locks t l) \<noteq> 0"
    and cpu: "lcpu (locks t l) \<noteq> None \<Longrightarrow> locked (locks t l) \<noteq> 0"
    and tr: "\<And>c. transit t c l \<Longrightarrow> lcpu (locks t l) = None"
  shows "lock_inv t"
  unfolding lock_inv_def
proof (intro conjI allI impI)
  fix m c d assume "inside t c m" "inside t d m"
  then show "c = d" using one ins inside_unique [OF inv] by (cases "m = l") blast+
next
  fix m c assume "inside t c m"
  then show "locked (locks t m) \<noteq> 0"
    using held ins [of c m] oth [of m] inside_locked [OF inv, of c m] by (cases "m = l") auto
next
  fix m assume "lcpu (locks t m) \<noteq> None"
  then show "locked (locks t m) \<noteq> 0"
    using cpu oth [of m] owner_locked [OF inv, of m] by (cases "m = l") auto
next
  fix m c assume "transit t c m"
  then show "lcpu (locks t m) = None"
    using tr tra [of c m] oth [of m] transit_no_owner [OF inv, of c m] by (cases "m = l") auto
qed

lemma step_lock_inv:
  assumes st: "step s t" and inv: "lock_inv s"
  shows "lock_inv t"
  using st
proof cases
  case (lock_take c tr l fn ln)
  note e = take_enters [OF inv lock_take(2,3), of "(ranks s)(c := ranks s c OR rank (locks s l))",
      folded lock_take(1), unfolded entered_def, rule_format]
  have n: "\<not> inside s d l" for d using inv lock_take(3) unfolding lock_inv_def by blast
  have "lcpu (locks s l) = None" using inv lock_take(3) unfolding lock_inv_def by blast
  then show ?thesis
    by (intro lock_inv_change [OF inv, where l = l])
      (auto simp: e n, auto simp: lock_take(1) transit_def split: if_splits)
next
  case (lock_own c l fn ln)
  note e = own_stays [OF inv lock_own(2), folded lock_own(1)]
  have c: "transit s c l" "inside s c l" using lock_own(2) by (simp_all add: inside_def transit_def)
  then have u: "d = c" if "inside s d l" for d using inv that unfolding lock_inv_def by blast
  have "\<not> transit t d l" for d
    using u [of d] lock_own(1) by (auto simp: inside_def transit_def)
  moreover have "locked (locks s l) \<noteq> 0" using inv c unfolding lock_inv_def by blast
  ultimately show ?thesis
    by (intro lock_inv_change [OF inv, where l = l])
      (auto simp: e dest: u, auto simp: lock_own(1) transit_def record_owner_def split: if_splits)
next
  case (unlock_enter c l)
  note e = unlock_enter_stays [OF unlock_enter(2,3), folded unlock_enter(1)]
  have "inside s c l" "locked (locks s l) \<noteq> 0"
    using unlock_enter(3) by (auto simp: inside_def unlock_permitted_def)
  then show ?thesis using inv
    by (intro lock_inv_change [OF inv, where l = l])
      (auto simp: e lock_inv_def, auto simp: unlock_enter(1) transit_def forget_owner_def split: if_splits)
next
  case (unlock_store c l)
  note e = store_leaves [OF inv unlock_store(2), of "(ranks s)(c := ranks s c XOR rank (locks s l))",
      folded unlock_store(1), unfolded left_def, THEN conjunct2, rule_format]
  have "transit s c l" using unlock_store(2) by (simp add: transit_def)
  from transit_no_owner [OF inv this] show ?thesis
    by (intro lock_inv_change [OF inv, where l = l])
      (auto simp: e, auto simp: unlock_store(1) transit_def split: if_splits)
qed (use inv in \<open>auto simp: lock_inv_def inside_def transit_def split: if_splits\<close>)

section \<open>Ranks\<close>

lemma bits_le:
  assumes "\<And>n. bit r n \<Longrightarrow> bit (x :: u64) n"
  shows "r \<le> x"
proof -
  have "r AND x = r" using assms by (intro bit_eqI) (auto simp: bit_and_iff)
  then show ?thesis by (metis word_and_le1)
qed

lemma rank_le: "rank_ok r \<Longrightarrow> bit r n \<Longrightarrow> bit x n \<Longrightarrow> r \<le> x"
  unfolding rank_ok_def by (metis bits_le)

lemma rank_invD:
  assumes "rank_inv s"
  shows rank_inv_ok: "rank_ok (rank (locks s l))"
    and rank_inv_bits: "bit (ranks s c) n \<longleftrightarrow> (\<exists>l. inside s c l \<and> bit (rank (locks s l)) n)"
    and rank_inv_unique: "inside s c l \<Longrightarrow> inside s c l' \<Longrightarrow> bit (rank (locks s l)) n \<Longrightarrow>
      bit (rank (locks s l')) n \<Longrightarrow> l = l'"
    and rank_inv_wait: "pcs s c = Spinning tr l fn ln \<Longrightarrow>
      rank (locks s l) = 0 \<or> ranks s c < rank (locks s l)"
  using assms unfolding rank_inv_def by blast+

lemma step_rank: "step s t \<Longrightarrow> rank (locks t m) = rank (locks s m)"
  by (cases rule: step.cases, assumption) (auto simp: record_owner_def forget_owner_def)

lemma rank_inv_same:
  assumes "rank_inv s" and "\<And>m. rank (locks t m) = rank (locks s m)"
    and "\<And>c m. inside t c m = inside s c m" and "ranks t = ranks s"
    and "\<And>c tr l fn ln. pcs t c = Spinning tr l fn ln \<Longrightarrow>
      rank (locks s l) = 0 \<or> ranks s c < rank (locks s l)"
  shows "rank_inv t"
  using assms unfolding rank_inv_def by simp

lemma take_rank_inv:
  assumes inv: "rank_inv s" and pc: "pcs s c = Spinning tr l fn ln" and ent: "entered s c l t"
    and rk: "\<And>m. rank (locks t m) = rank (locks s m)"
    and rs: "ranks t = (ranks s)(c := ranks s c OR rank (locks s l))"
    and ps: "pcs t = (pcs s)(c := Locking l fn ln)"
  shows "rank_inv t"
  unfolding rank_inv_def rk
proof (intro conjI allI impI)
  note e = ent [unfolded entered_def, rule_format]
  show "rank_ok (rank (locks s m))" for m by (rule rank_inv_ok [OF inv])
  show "bit (ranks t d) n \<longleftrightarrow> (\<exists>m. inside t d m \<and> bit (rank (locks s m)) n)" for d n
    using rank_inv_bits [OF inv, of d n] by (auto simp: rs e bit_or_iff)
  have new: "\<not> bit (rank (locks s m)) n" if "inside s c m" "bit (rank (locks s l)) n" for m n
  proof
    assume "bit (rank (locks s m)) n"
    then have "bit (ranks s c) n" using rank_inv_bits [OF inv] that(1) by blast
    then have "rank (locks s l) \<le> ranks s c" using rank_le [OF rank_inv_ok [OF inv]] that(2) by blast
    then show False using rank_inv_wait [OF inv pc] that(2) by auto
  qed
  fix d m m' n
  assume "inside t d m" "inside t d m'" "bit (rank (locks s m)) n" "bit (rank (locks s m')) n"
  then show "m = m'" using new rank_inv_unique [OF inv] unfolding e by blast
next
  fix d tr m fn ln
  assume "pcs t d = Spinning tr m fn ln"
  then show "rank (locks s m) = 0 \<or> ranks t d < rank (locks s m)"
    using rank_inv_wait [OF inv] by (auto simp: ps rs split: if_splits)
qed

lemma store_rank_inv:
  assumes inv: "rank_inv s" and pc: "pcs s c = Unlocking l" and lf: "left s c l t"
    and li: "lock_inv s" and rk: "\<And>m. rank (locks t m) = rank (locks s m)"
    and rs: "ranks t = (ranks s)(c := ranks s c XOR rank (locks s l))"
    and ps: "pcs t = (pcs s)(c := Idle)"
  shows "rank_inv t"
  unfolding rank_inv_def rk
proof (intro conjI allI impI)
  have c: "inside s c l" and e: "inside t d m \<longleftrightarrow> inside s d m \<and> m \<noteq> l" for d m
    using lf by (auto simp: left_def)
  show "rank_ok (rank (locks s m))" for m by (rule rank_inv_ok [OF inv])
  show "bit (ranks t d) n \<longleftrightarrow> (\<exists>m. inside t d m \<and> bit (rank (locks s m)) n)" for d n
  proof (cases "d = c")
    case True
    then show ?thesis
      using rank_inv_bits [OF inv, of c n] rank_inv_unique [OF inv c] c by (auto simp: rs e bit_xor_iff)
  next
    case False
    then have "\<not> inside s d l" using inside_unique [OF li c] by blast
    then show ?thesis using rank_inv_bits [OF inv, of d n] False by (auto simp: rs e)
  qed
  fix d m m' n
  assume "inside t d m" "inside t d m'" "bit (rank (locks s m)) n" "bit (rank (locks s m')) n"
  then show "m = m'" using rank_inv_unique [OF inv] unfolding e by blast
next
  fix d tr m fn ln
  assume "pcs t d = Spinning tr m fn ln"
  then show "rank (locks s m) = 0 \<or> ranks t d < rank (locks s m)"
    using rank_inv_wait [OF inv] by (auto simp: ps rs split: if_splits)
qed

lemma step_rank_inv:
  assumes st: "step s t" and li: "lock_inv s" and inv: "rank_inv s"
  shows "rank_inv t"
  using st
proof cases
  case (lock_enter c l tr fn ln)
  then show ?thesis using rank_inv_wait [OF inv] step_rank [OF st]
    by (intro rank_inv_same [OF inv])
      (auto simp: inside_def transit_def lock_permitted_def split: if_splits)
next
  case (lock_take c tr l fn ln)
  show ?thesis
    by (rule take_rank_inv [OF inv lock_take(2) _ step_rank [OF st], rotated])
      (use lock_take take_enters [OF li lock_take(2,3)] in simp_all)
next
  case (lock_own c l fn ln)
  show ?thesis using rank_inv_wait [OF inv] step_rank [OF st] own_stays [OF li lock_own(2)] lock_own(1)
    by (intro rank_inv_same [OF inv]) (auto split: if_splits)
next
  case (unlock_enter c l)
  show ?thesis using rank_inv_wait [OF inv] step_rank [OF st] unlock_enter_stays [OF unlock_enter(2,3)] unlock_enter(1)
    by (intro rank_inv_same [OF inv]) (auto split: if_splits)
next
  case (unlock_store c l)
  show ?thesis
    by (rule store_rank_inv [OF inv unlock_store(2) _ li step_rank [OF st], rotated])
      (use unlock_store store_leaves [OF li unlock_store(2)] in simp_all)
qed (auto intro!: rank_inv_same [OF inv] dest: rank_inv_wait [OF inv]
    simp: inv inside_def transit_def split: if_splits)

lemma reachable_inv:
  assumes "reachable s"
  shows "lock_inv s" and "rank_inv s"
proof -
  obtain s0 where s0: "initial s0" and st: "step\<^sup>*\<^sup>* s0 s" using assms by (auto simp: reachable_def)
  from st have "lock_inv s \<and> rank_inv s"
  proof induction
    case base
    then show ?case using s0 initial_lock_inv initial_rank_inv by blast
  next
    case (step s t)
    then show ?case using step_lock_inv step_rank_inv by blast
  qed
  then show "lock_inv s" "rank_inv s" by blast+
qed

lemma held_rank_le:
  assumes "rank_inv s" and "inside s c l"
  shows "rank (locks s l) \<le> ranks s c"
  using rank_inv_bits [OF assms(1), of c] assms(2) by (intro bits_le) blast

section \<open>Properties of the spinlocks\<close>

text \<open>
  The calls of one CPU as sequences of steps: an uncontended call of \<^verbatim>\<open>__spin_lock\<close> runs through
  the states \<open>Spinning\<close> and \<open>Locking\<close>, a call of \<^verbatim>\<open>__spin_unlock\<close> through \<open>Unlocking\<close>.
\<close>

lemma spin_lock_steps:
  assumes pc: "pcs s c = Idle" and l: "spin_lock c fn ln (ranks s c) (locks s l) = Some (k, r)"
  shows "step\<^sup>*\<^sup>* s (s\<lparr>locks := (locks s)(l := k), ranks := (ranks s)(c := r)\<rparr>)"
proof -
  let ?s1 = "s\<lparr>pcs := (pcs s)(c := Spinning False l fn ln)\<rparr>"
  let ?s2 = "?s1\<lparr>locks := (locks s)(l := (locks s l)\<lparr>locked := 1\<rparr>), ranks := (ranks s)(c := r),
    pcs := (pcs s)(c := Locking l fn ln)\<rparr>"
  have a: "lock_permitted c (ranks s c) (locks s l)" "locked (locks s l) = 0"
    "k = record_owner c fn ln ((locks s l)\<lparr>locked := 1\<rparr>)" "r = ranks s c OR rank (locks s l)"
    using l by (auto simp: spin_lock_def split: if_splits)
  have 1: "step s ?s1" using lock_enter [OF pc a(1)] .
  have 2: "step ?s1 ?s2" using lock_take [of ?s1 c False l fn ln] a by simp
  have 3: "step ?s2 (s\<lparr>locks := (locks s)(l := k), ranks := (ranks s)(c := r)\<rparr>)"
    using lock_own [of ?s2 c l fn ln] a(3) pc by (cases s) (simp add: fun_upd_idem)
  show ?thesis
    by (rule converse_rtranclp_into_rtranclp [of step, OF 1],
        rule converse_rtranclp_into_rtranclp [of step, OF 2], rule r_into_rtranclp [of step, OF 3])
qed

lemma spin_unlock_steps:
  assumes pc: "pcs s c = Idle" and l: "spin_unlock c (ranks s c) (locks s l) = Some (k, r)"
  shows "step\<^sup>*\<^sup>* s (s\<lparr>locks := (locks s)(l := k), ranks := (ranks s)(c := r)\<rparr>)"
proof -
  let ?s1 = "s\<lparr>locks := (locks s)(l := forget_owner (locks s l)), pcs := (pcs s)(c := Unlocking l)\<rparr>"
  have a: "unlock_permitted c (ranks s c) (locks s l)" "k = (forget_owner (locks s l))\<lparr>locked := 0\<rparr>"
    "r = ranks s c XOR rank (locks s l)"
    using l by (auto simp: spin_unlock_def split: if_splits)
  have "step s ?s1" using unlock_enter [OF pc a(1)] .
  moreover have "step ?s1 (s\<lparr>locks := (locks s)(l := k), ranks := (ranks s)(c := r)\<rparr>)"
    using unlock_store [of ?s1 c l] a(2,3) pc by (cases s) (simp add: fun_upd_idem forget_owner_def)
  ultimately show ?thesis by (rule converse_rtranclp_into_rtranclp [OF _ r_into_rtranclp])
qed

definition waits_for :: "lock_sys \<Rightarrow> (nat \<times> nat) set" where
  "waits_for s = {(c, d). \<exists>tr l fn ln. pcs s c = Spinning tr l fn ln \<and> rank (locks s l) \<noteq> 0 \<and> inside s d l}"

lemma wait_chain_ranks:
  assumes inv: "rank_inv s" and p: "(c, d) \<in> (waits_for s)\<^sup>+"
  shows "\<exists>tr l fn ln. pcs s c = Spinning tr l fn ln \<and> rank (locks s l) \<le> ranks s d"
  using p
proof (induction rule: converse_trancl_induct)
  case (base c)
  then show ?case using held_rank_le [OF inv] by (auto simp: waits_for_def)
next
  case (step c e)
  from step.IH obtain tr l fn ln where e: "pcs s e = Spinning tr l fn ln" "rank (locks s l) \<le> ranks s d" by blast
  from step.hyps(1) obtain tr' m fn' ln' where c: "pcs s c = Spinning tr' m fn' ln'"
    "rank (locks s m) \<noteq> 0" "inside s e m" by (auto simp: waits_for_def)
  have m: "rank (locks s m) \<le> ranks s e" by (rule held_rank_le [OF inv c(3)])
  from rank_inv_wait [OF inv e(1)] show ?case
  proof
    assume "ranks s e < rank (locks s l)"
    then have "rank (locks s m) \<le> ranks s d" using m e(2) by simp
    then show ?thesis using c(1) by blast
  next
    assume z: "rank (locks s l) = 0"
    from step.hyps(2) obtain x where "(e, x) \<in> waits_for s" by (meson tranclD)
    then show ?thesis using e(1) z by (auto simp: waits_for_def)
  qed
qed

text \<open>Two CPUs and locks of rank \<open>2 ^ l\<close>: CPU 0 holds lock 0, CPU 1 is waiting for it.\<close>

definition fresh_lock :: "nat \<Rightarrow> spinlock" where
  "fresh_lock l = \<lparr>locked = 0, rank = (if l < 63 then push_bit l 1 else 0), lname = None, lcpu = None,
     lfile = None, lline = 0\<rparr>"

definition quiet_sys :: lock_sys where
  "quiet_sys = \<lparr>locks = fresh_lock, ranks = (\<lambda>_. 0), pcs = (\<lambda>_. Idle)\<rparr>"

definition contended_sys :: lock_sys where
  "contended_sys = \<lparr>locks = fresh_lock(0 := record_owner 0 ''a.c'' 1 ((fresh_lock 0)\<lparr>locked := 1\<rparr>)),
     ranks = (\<lambda>_. 0)(0 := 1), pcs = (\<lambda>_. Idle)(1 := Spinning False 0 ''b.c'' 2)\<rparr>"

lemma single_bit_and_pred: "push_bit l (1 :: u64) AND (push_bit l 1 - 1) = 0"
proof -
  have "push_bit l (1 :: u64) - 1 = mask l" by (simp add: mask_eq_exp_minus_1)
  then show ?thesis by (intro bit_eqI) (auto simp: bit_and_iff bit_mask_iff bit_push_bit_iff bit_1_iff bit_exp_iff)
qed

lemma quiet_initial: "initial quiet_sys"
proof -
  have "spin_init (fresh_lock l) None (rank (fresh_lock l)) = Some (fresh_lock l)" for l
    using single_bit_and_pred [of l] by (simp add: spin_init_def fresh_lock_def)
  then show ?thesis by (auto simp: initial_def quiet_sys_def)
qed

lemma contended_reachable: "reachable contended_sys"
proof -
  let ?k = "record_owner 0 ''a.c'' 1 ((fresh_lock 0)\<lparr>locked := 1\<rparr>)"
  let ?s = "\<lparr>locks = fresh_lock(0 := ?k), ranks = (\<lambda>_. 0)(0 := 1), pcs = (\<lambda>_. Idle)\<rparr>"
  have "spin_lock 0 ''a.c'' 1 (ranks quiet_sys 0) (locks quiet_sys 0) = Some (?k, 1)"
    by (simp add: quiet_sys_def lock_op_defs fresh_lock_def)
  from spin_lock_steps [OF _ this] have "step\<^sup>*\<^sup>* quiet_sys ?s" by (simp add: quiet_sys_def)
  moreover have "step ?s contended_sys"
    using lock_enter [of ?s 1 0 False "''b.c''" 2]
    by (simp add: contended_sys_def lock_op_defs fresh_lock_def)
  ultimately show ?thesis using quiet_initial unfolding reachable_def by (meson rtranclp.rtrancl_into_rtrancl)
qed

text \<open>
  C6: mutual exclusion and soundness of the owner check.  In every state that any interleaving
  of any number of CPUs can reach, at most one CPU is between taking a lock word and giving it
  back; if \<^verbatim>\<open>spin_haslock\<close> is true for a CPU then that CPU is inside, and the lock word is 1.
\<close>

theorem mutual_exclusion:
  assumes "reachable s"
  shows "(inside s c l \<and> inside s d l \<longrightarrow> c = d) \<and> (inside s c l \<longrightarrow> locked (locks s l) \<noteq> 0) \<and>
    (spin_haslock c (locks s l) \<longrightarrow> inside s c l)"
  using lock_invD [OF reachable_inv(1) [OF assms]] by (auto simp: spin_haslock_def inside_def)

theorem mutual_exclusion_witness:
  "reachable contended_sys \<and> inside contended_sys 0 0 \<and> \<not> inside contended_sys 1 0"
proof -
  have "inside contended_sys 0 0"
    by (simp add: contended_sys_def inside_def holding_def record_owner_def)
  then show ?thesis
    using mutual_exclusion [OF contended_reachable, of 0 0 1] contended_reachable by (metis zero_neq_one)
qed

text \<open>
  C7: ranked locks cannot deadlock.  In every reachable state the relation "waits for a ranked
  lock held by" between CPUs has no cycle.
\<close>

theorem no_ranked_deadlock:
  assumes "reachable s"
  shows "acyclic (waits_for s)"
proof (rule acyclicI, intro allI notI)
  note inv = reachable_inv(2) [OF assms]
  fix c assume p: "(c, c) \<in> (waits_for s)\<^sup>+"
  then obtain tr l fn ln where c: "pcs s c = Spinning tr l fn ln" "rank (locks s l) \<le> ranks s c"
    using wait_chain_ranks [OF inv] by blast
  from p obtain d where "(c, d) \<in> waits_for s" by (meson tranclD)
  then have "rank (locks s l) \<noteq> 0" using c(1) by (auto simp: waits_for_def)
  then show False using rank_inv_wait [OF inv c(1)] c(2) by simp
qed

theorem no_ranked_deadlock_witness:
  "(1, 0) \<in> waits_for contended_sys \<and> acyclic (waits_for contended_sys)"
proof -
  have "(1, 0) \<in> waits_for contended_sys"
    by (auto simp: waits_for_def contended_sys_def inside_def holding_def record_owner_def fresh_lock_def)
  then show ?thesis using no_ranked_deadlock [OF contended_reachable] by blast
qed

text \<open>The release order: with its owner check passed, what the rank check of the unlock means.\<close>

lemma below_top_bit:
  assumes "\<And>m. bit (x :: u64) m \<Longrightarrow> m \<le> n" and "n < 63"
  shows "x < push_bit 1 (push_bit n 1)"
proof -
  have "take_bit (Suc n) x = x" using assms(1) by (intro bit_eqI) (auto simp: bit_take_bit_iff dest: assms(1))
  then have "unat x < 2 ^ Suc n" by (metis take_bit_nat_less_exp unsigned_take_bit_eq)
  moreover have "unat (push_bit 1 (push_bit n 1 :: u64)) = 2 ^ Suc n"
    using assms(2) unat_exp [of "Suc n"] by (simp add: push_bit_eq_mult mult.commute)
  ultimately show ?thesis by (simp add: word_less_nat_alt)
qed

lemma rank_single:
  assumes "rank_ok r" and "r \<noteq> 0"
  obtains n where "n < 64" and "r = push_bit n 1"
proof -
  obtain n where n: "bit r n" using assms(2) by (metis bit_eqI bit_0_eq bot_apply bot_bool_def)
  then have "n < 64" using bit_imp_le_length [of r n] by simp
  moreover have "r = push_bit n 1"
    using n assms(1) by (intro bit_eqI) (auto simp: rank_ok_def bit_push_bit_iff bit_1_iff bit_exp_iff)
  ultimately show ?thesis using that by blast
qed

lemma top_rank_wraps: "push_bit 1 (push_bit 63 (1 :: u64)) = 0"
  by (rule bit_eqI, unfold bit_push_bit_iff) auto

lemma rank_le_iff:
  assumes "m < 64" and "n < 64"
  shows "push_bit m 1 \<le> (push_bit n 1 :: u64) \<longleftrightarrow> m \<le> n"
  using unat_exp [OF assms(1)] unat_exp [OF assms(2)] by (simp add: word_le_nat_alt)

text \<open>
  The order of releases.  A CPU that holds a ranked lock may release it exactly when no lock
  it holds has a higher rank and the rank is not \<open>2 ^ 63\<close>.  For the highest rank the doubled
  rank in the check wraps to 0, so such a lock can be taken but never released.
\<close>

theorem unlock_order:
  assumes "reachable s" and "holding c (locks s l)" and "rank (locks s l) \<noteq> 0"
  shows "unlock_permitted c (ranks s c) (locks s l) \<longleftrightarrow>
    rank (locks s l) \<noteq> push_bit 63 1 \<and> (\<forall>m. inside s c m \<longrightarrow> rank (locks s m) \<le> rank (locks s l))"
proof -
  note inv = reachable_inv(2) [OF assms(1)]
  note single = rank_single [OF rank_inv_ok [OF inv]]
  obtain n where n: "n < 64" "rank (locks s l) = push_bit n 1" using single [of l] assms(3) by blast
  have "inside s c l" using assms(2) by (simp add: inside_def)
  from held_rank_le [OF inv this] have le: "push_bit n 1 \<le> ranks s c" using n(2) by simp
  have u: "unlock_permitted c (ranks s c) (locks s l) \<longleftrightarrow> ranks s c < push_bit 1 (push_bit n 1)"
    using assms(2,3) n(2) le by (auto simp: unlock_permitted_def holding_def)
  have bits: "m \<le> n" if all: "\<forall>m. inside s c m \<longrightarrow> rank (locks s m) \<le> rank (locks s l)" and b: "bit (ranks s c) m" for m
  proof -
    obtain k where k: "inside s c k" "bit (rank (locks s k)) m" using rank_inv_bits [OF inv] b by blast
    then have "rank (locks s k) \<noteq> 0" by auto
    then obtain j where j: "j < 64" "rank (locks s k) = push_bit j 1" using single by blast
    then have "m = j" using k(2) by (auto simp: bit_push_bit_iff bit_1_iff bit_exp_iff)
    then show ?thesis using all k(1) j n rank_le_iff by metis
  qed
  show ?thesis
  proof (cases "n = 63")
    case True
    then have "\<not> ranks s c < push_bit 1 (push_bit n 1)" using top_rank_wraps by (simp only: word_not_simps) simp
    then show ?thesis using u n(2) True by blast
  next
    case False
    then have n63: "n < 63" using n(1) by simp
    have "rank (locks s m) \<le> rank (locks s l)" if lt: "ranks s c < push_bit 1 (push_bit n 1)" and m: "inside s c m" for m
    proof (cases "rank (locks s m) = 0")
      case False
      then obtain j where j: "j < 64" "rank (locks s m) = push_bit j 1" using single by blast
      have "push_bit j 1 < (push_bit (Suc n) 1 :: u64)"
        using held_rank_le [OF inv m] lt j(2) by (simp add: push_bit_eq_mult mult.commute)
      then have "\<not> Suc n \<le> j" using rank_le_iff [of "Suc n" j] j(1) n63 by (auto simp: not_le)
      then show ?thesis using rank_le_iff [OF j(1) n(1)] j(2) n(2) by simp
    qed simp
    moreover have "push_bit n 1 \<noteq> (push_bit 63 1 :: u64)"
      using rank_le_iff [of 63 n] n63 by auto
    ultimately show ?thesis using u n(2) below_top_bit [OF bits n63] by auto
  qed
qed

theorem unlock_order_witness:
  "unlock_permitted 0 (ranks contended_sys 0) (locks contended_sys 0)"
proof -
  have h: "holding 0 (locks contended_sys 0)" and r: "rank (locks contended_sys 0) = 1"
    by (simp_all add: contended_sys_def holding_def record_owner_def fresh_lock_def)
  have "m = 0" if "inside contended_sys 0 m" for m
    using that by (auto simp: contended_sys_def inside_def transit_def holding_def fresh_lock_def split: if_splits)
  then have "\<forall>m. inside contended_sys 0 m \<longrightarrow> rank (locks contended_sys m) \<le> rank (locks contended_sys 0)"
    by (metis order_refl)
  then show ?thesis using unlock_order [OF contended_reachable h] r by simp
qed

end
