(* ===== verification/Linked_List.thy ===== *)
theory Linked_List
  imports Prelude
begin

text \<open>
  The intrusive circular doubly linked lists of \<^verbatim>\<open>include/list.h\<close> and \<^verbatim>\<open>lib/list.c\<close>.
  A \<^verbatim>\<open>struct list\<close> is a node of some type \<open>'n\<close>; the heap of all nodes is the record
  \<open>lheap\<close> of the two link fields, and every function of the library is the sequence of
  assignments of its C body.  \<open>dlist h head xs\<close> says that the nodes \<open>xs\<close>, in this order,
  hang off the anchor \<open>head\<close>; each operation is proved to act on that sequence, and to
  leave every node outside its footprint alone.
\<close>

section \<open>The heap of nodes and the operations\<close>

record 'n lheap =
  lnext :: "'n \<Rightarrow> 'n"
  lprev :: "'n \<Rightarrow> 'n"

definition set_next :: "'n \<Rightarrow> 'n \<Rightarrow> 'n lheap \<Rightarrow> 'n lheap" where
  "set_next n v h = h\<lparr>lnext := (lnext h)(n := v)\<rparr>"

definition set_prev :: "'n \<Rightarrow> 'n \<Rightarrow> 'n lheap \<Rightarrow> 'n lheap" where
  "set_prev n v h = h\<lparr>lprev := (lprev h)(n := v)\<rparr>"

definition list_is_empty :: "'n lheap \<Rightarrow> 'n \<Rightarrow> bool" where
  "list_is_empty h head \<longleftrightarrow> lnext h head = head"

definition list_head :: "'n lheap \<Rightarrow> 'n \<Rightarrow> 'n option" where
  "list_head h head = (if lnext h head = head then None else Some (lnext h head))"

definition list_tail :: "'n lheap \<Rightarrow> 'n \<Rightarrow> 'n option" where
  "list_tail h head = (if lprev h head = head then None else Some (lprev h head))"

definition list_next :: "'n lheap \<Rightarrow> 'n \<Rightarrow> 'n \<Rightarrow> 'n option" where
  "list_next h head node = (if lnext h node = head then None else Some (lnext h node))"

definition list_prev :: "'n lheap \<Rightarrow> 'n \<Rightarrow> 'n \<Rightarrow> 'n option" where
  "list_prev h head node = (if lprev h node = head then None else Some (lprev h node))"

definition list_init :: "'n \<Rightarrow> 'n lheap \<Rightarrow> 'n lheap" where
  "list_init head h = set_prev head head (set_next head head h)"

definition list_insert_after :: "'n \<Rightarrow> 'n \<Rightarrow> 'n lheap \<Rightarrow> 'n lheap" where
  "list_insert_after after new h =
     (let h = set_prev new after h;
          h = set_next new (lnext h after) h;
          h = set_prev (lnext h after) new h
      in set_next after new h)"

definition list_insert_before :: "'n \<Rightarrow> 'n \<Rightarrow> 'n lheap \<Rightarrow> 'n lheap" where
  "list_insert_before before new h =
     (let h = set_next new before h;
          h = set_prev new (lprev h before) h;
          h = set_next (lprev h before) new h
      in set_prev before new h)"

definition list_del :: "'n \<Rightarrow> 'n lheap \<Rightarrow> 'n lheap" where
  "list_del node h =
     (let h = set_next (lprev h node) (lnext h node) h;
          h = set_prev (lnext h node) (lprev h node) h;
          h = set_next node node h
      in set_prev node node h)"

definition list_add :: "'n \<Rightarrow> 'n \<Rightarrow> 'n lheap \<Rightarrow> 'n lheap" where
  "list_add head new h = list_insert_after head new h"

definition list_add_tail :: "'n \<Rightarrow> 'n \<Rightarrow> 'n lheap \<Rightarrow> 'n lheap" where
  "list_add_tail head new h = list_insert_before head new h"

definition list_pop_tail :: "'n \<Rightarrow> 'n lheap \<Rightarrow> 'n option \<times> 'n lheap" where
  "list_pop_tail head h =
     (if lprev h head = head then (None, h)
      else let node = lprev h head in (Some node, list_del node h))"

definition list_pop :: "'n \<Rightarrow> 'n lheap \<Rightarrow> 'n option \<times> 'n lheap" where
  "list_pop head h =
     (if lnext h head = head then (None, h)
      else let node = lnext h head in (Some node, list_del node h))"

text \<open>
  The \<^verbatim>\<open>list_foreach\<close> macro: the nodes its loop body runs on, in order.  A heap whose links
  never come back to the anchor makes the loop run for ever, which is \<open>None\<close>.
\<close>

partial_function (option) list_foreach_from :: "'n lheap \<Rightarrow> 'n \<Rightarrow> 'n \<Rightarrow> 'n list option" where
  "list_foreach_from h head node =
     (if node = head then Some []
      else do { ns \<leftarrow> list_foreach_from h head (lnext h node); Some (node # ns) })"

definition list_foreach :: "'n lheap \<Rightarrow> 'n \<Rightarrow> 'n list option" where
  "list_foreach h head = list_foreach_from h head (lnext h head)"

section \<open>The sequence a list holds\<close>

primrec lseg :: "'n lheap \<Rightarrow> 'n \<Rightarrow> 'n list \<Rightarrow> 'n \<Rightarrow> bool" where
  "lseg h a [] b \<longleftrightarrow> lnext h a = b \<and> lprev h b = a"
| "lseg h a (x # xs) b \<longleftrightarrow> lnext h a = x \<and> lprev h x = a \<and> lseg h x xs b"

definition dlist :: "'n lheap \<Rightarrow> 'n \<Rightarrow> 'n list \<Rightarrow> bool" where
  "dlist h head xs \<longleftrightarrow> lseg h head xs head \<and> distinct (head # xs)"

lemmas link_defs = set_next_def set_prev_def Let_def fun_upd_apply

lemma lseg_append:
  "lseg h a (xs @ y # ys) b \<longleftrightarrow> lseg h a xs y \<and> lseg h y ys b"
  by (induction xs arbitrary: a) auto

lemma lseg_cong:
  assumes "\<And>n. n \<in> insert a (set xs) \<Longrightarrow> lnext h' n = lnext h n"
    and "\<And>n. n \<in> insert b (set xs) \<Longrightarrow> lprev h' n = lprev h n"
  shows "lseg h' a xs b = lseg h a xs b"
  using assms by (induction xs arbitrary: a) auto

lemma dlist_frame:
  assumes "\<And>n. n \<in> set (head # xs) \<Longrightarrow> lnext h' n = lnext h n \<and> lprev h' n = lprev h n"
  shows "dlist h' head xs = dlist h head xs"
  using assms unfolding dlist_def by (subst lseg_cong [of head xs h' h head]) auto

lemma dlist_distinct: "dlist h head xs \<Longrightarrow> distinct (head # xs)"
  by (simp add: dlist_def)

lemma dlist_Nil_iff: "dlist h head [] \<longleftrightarrow> lnext h head = head \<and> lprev h head = head"
  by (simp add: dlist_def)

lemma dlist_next_head: "dlist h head xs \<Longrightarrow> lnext h head = hd (xs @ [head])"
  by (cases xs) (auto simp: dlist_def)

lemma dlist_prev_head: "dlist h head xs \<Longrightarrow> lprev h head = last (head # xs)"
  by (cases xs rule: rev_cases) (auto simp: dlist_def lseg_append)

lemma dlist_next_mid:
  "dlist h head (xs @ x # ys) \<Longrightarrow> lnext h x = hd (ys @ [head])"
  by (cases ys) (auto simp: dlist_def lseg_append)

lemma dlist_prev_mid:
  "dlist h head (xs @ x # ys) \<Longrightarrow> lprev h x = last (head # xs)"
  by (cases xs rule: rev_cases) (auto simp: dlist_def lseg_append)

lemma dlist_empty_iff: "dlist h head xs \<Longrightarrow> list_is_empty h head \<longleftrightarrow> xs = []"
  by (cases xs) (auto simp: dlist_def list_is_empty_def)

lemma dlist_prev_empty_iff: "dlist h head xs \<Longrightarrow> lprev h head = head \<longleftrightarrow> xs = []"
  by (cases xs rule: rev_cases) (auto simp: dlist_def lseg_append)

text \<open>A node on some list is never self-linked, and an anchor determines its sequence.\<close>

lemma dlist_linked: "dlist h head xs \<Longrightarrow> x \<in> set xs \<Longrightarrow> lnext h x \<noteq> x"
proof -
  assume d: "dlist h head xs" and x: "x \<in> set xs"
  then obtain ys zs where xs: "xs = ys @ x # zs" by (meson split_list)
  have "lnext h x = hd (zs @ [head])" using d unfolding xs by (rule dlist_next_mid)
  moreover have "x \<notin> set (zs @ [head])"
    using dlist_distinct [OF d] xs by auto
  ultimately show ?thesis by (cases zs) auto
qed

lemma lseg_unique:
  "lseg h a xs head \<Longrightarrow> lseg h a ys head \<Longrightarrow> head \<notin> set xs \<Longrightarrow> head \<notin> set ys \<Longrightarrow> xs = ys"
proof (induction xs arbitrary: a ys)
  case Nil
  then show ?case by (cases ys) auto
next
  case (Cons x xs)
  then show ?case by (cases ys) auto
qed

lemma dlist_unique: "dlist h head xs \<Longrightarrow> dlist h head ys \<Longrightarrow> xs = ys"
  unfolding dlist_def by (auto intro: lseg_unique)

section \<open>Each operation on the sequence\<close>

lemma dlist_init: "dlist (list_init n h) n []"
  by (simp add: dlist_def list_init_def link_defs)

lemma dlist_insert_after:
  assumes d: "dlist h head (xs @ ys)" and new: "new \<notin> set (head # xs @ ys)"
    and p: "p = last (head # xs)"
  shows "dlist (list_insert_after p new h) head (xs @ new # ys)"
proof -
  define h' where "h' = list_insert_after p new h"
  define q where "q = hd (ys @ [head])"
  have dist: "distinct (head # xs @ ys)" using dlist_distinct [OF d] .
  have pq: "lnext h p = q \<and> lprev h q = p"
  proof (cases xs rule: rev_cases)
    case Nil
    then show ?thesis using d p by (cases ys) (auto simp: dlist_def q_def)
  next
    case (snoc us u)
    then show ?thesis using d p
      by (cases ys) (auto simp: dlist_def q_def lseg_append)
  qed
  have pin: "p \<in> set (head # xs)" unfolding p by (rule last_in_set) simp
  have np: "new \<noteq> p" using new pin by auto
  have nq: "new \<noteq> q" using new by (cases ys) (auto simp: q_def)
  have nx: "lnext h' = (lnext h)(new := q, p := new)"
    using pq np by (auto simp: h'_def list_insert_after_def link_defs)
  have pv: "lprev h' = (lprev h)(new := p, q := new)"
    using pq np nq by (auto simp: h'_def list_insert_after_def link_defs)
  have "lseg h' head xs new"
  proof (cases xs rule: rev_cases)
    case Nil
    then show ?thesis using p np nq nx pv by simp
  next
    case (snoc us u)
    have pu: "p = u" using p snoc by simp
    have "lseg h head us u" using d snoc by (simp add: dlist_def lseg_append)
    moreover have "lseg h' head us u = lseg h head us u"
    proof (rule lseg_cong)
      fix n assume "n \<in> insert head (set us)"
      then show "lnext h' n = lnext h n" using dist new snoc pu by (auto simp: nx)
    next
      fix n assume n: "n \<in> insert u (set us)"
      have "n \<noteq> q" using n dist snoc by (cases ys) (auto simp: q_def)
      then show "lprev h' n = lprev h n" using n new snoc by (auto simp: pv)
    qed
    ultimately show ?thesis using snoc pu np nq by (simp add: lseg_append nx pv)
  qed
  moreover have "lseg h' new ys head"
  proof (cases ys)
    case Nil
    then show ?thesis using np nq by (simp add: nx pv q_def)
  next
    case (Cons v vs)
    have qv: "q = v" using Cons by (simp add: q_def)
    have "lseg h v vs head"
      using d Cons by (auto simp: dlist_def lseg_append)
    moreover have "lseg h' v vs head = lseg h v vs head"
    proof (rule lseg_cong)
      fix n assume n: "n \<in> insert v (set vs)"
      have "n \<noteq> p" using n dist Cons pin by auto
      then show "lnext h' n = lnext h n" using n new Cons by (auto simp: nx)
    next
      fix n assume "n \<in> insert head (set vs)"
      then show "lprev h' n = lprev h n" using dist new Cons qv by (auto simp: pv)
    qed
    ultimately show ?thesis using Cons qv np nq by (simp add: nx pv)
  qed
  ultimately show ?thesis
    using dist new by (auto simp: h'_def [symmetric] dlist_def lseg_append)
qed

lemma insert_before_after:
  "lnext h (lprev h q) = q \<Longrightarrow> new \<noteq> q \<Longrightarrow> new \<noteq> lprev h q \<Longrightarrow>
   list_insert_before q new h = list_insert_after (lprev h q) new h"
  by (simp add: list_insert_before_def list_insert_after_def link_defs fun_upd_twist)

lemma dlist_insert_before:
  assumes d: "dlist h head (xs @ ys)" and new: "new \<notin> set (head # xs @ ys)"
    and q: "q = hd (ys @ [head])"
  shows "dlist (list_insert_before q new h) head (xs @ new # ys)"
proof -
  have pq: "lprev h q = last (head # xs) \<and> lnext h (last (head # xs)) = q"
  proof (cases xs rule: rev_cases)
    case Nil
    then show ?thesis using d q by (cases ys) (auto simp: dlist_def)
  next
    case (snoc us u)
    then show ?thesis using d q by (cases ys) (auto simp: dlist_def lseg_append)
  qed
  have "new \<noteq> q" using new q by (cases ys) auto
  moreover have "new \<noteq> last (head # xs)" using new by (auto split: if_splits)
  ultimately have "list_insert_before q new h = list_insert_after (last (head # xs)) new h"
    using pq by (metis insert_before_after)
  then show ?thesis using dlist_insert_after [OF d new refl] by simp
qed

lemma dlist_add:
  "dlist h head xs \<Longrightarrow> new \<notin> set (head # xs) \<Longrightarrow> dlist (list_add head new h) head (new # xs)"
  using dlist_insert_after [of h head "[]" xs new head] by (simp add: list_add_def)

lemma dlist_add_tail:
  "dlist h head xs \<Longrightarrow> new \<notin> set (head # xs) \<Longrightarrow>
   dlist (list_add_tail head new h) head (xs @ [new])"
  using dlist_insert_before [of h head xs "[]" new head] by (simp add: list_add_tail_def)

lemma dlist_del:
  assumes d: "dlist h head (xs @ x # ys)"
  shows "dlist (list_del x h) head (xs @ ys)"
proof -
  define h' where "h' = list_del x h"
  define p where "p = last (head # xs)"
  define q where "q = hd (ys @ [head])"
  have dist: "distinct (head # xs @ x # ys)" using dlist_distinct [OF d] .
  have px: "lprev h x = p" using dlist_prev_mid [OF d] by (simp add: p_def)
  have xq: "lnext h x = q" using dlist_next_mid [OF d] by (simp add: q_def)
  have pin: "p \<in> set (head # xs)" unfolding p_def by (rule last_in_set) simp
  have xp: "x \<noteq> p" using dist pin by auto
  have xq': "x \<noteq> q" using dist by (cases ys) (auto simp: q_def)
  have nx: "lnext h' = (lnext h)(p := q, x := x)"
    using px xq xp xq' by (auto simp: h'_def list_del_def link_defs)
  have pv: "lprev h' = (lprev h)(q := p, x := x)"
    using px xq xp xq' by (auto simp: h'_def list_del_def link_defs)
  have left: "lseg h' head xs q" if "ys \<noteq> []"
  proof (cases xs rule: rev_cases)
    case Nil
    then show ?thesis using xp xq' dist by (simp add: nx pv p_def)
  next
    case (snoc us u)
    have pu: "p = u" by (simp add: p_def snoc)
    have "lseg h head us u" using d snoc by (simp add: dlist_def lseg_append)
    moreover have "lseg h' head us u = lseg h head us u"
      using dist snoc pu that
      by (intro lseg_cong) (auto simp: nx pv q_def neq_Nil_conv)
    ultimately show ?thesis using snoc pu xp xq' by (simp add: lseg_append nx pv)
  qed
  show ?thesis
  proof (cases ys)
    case Nil
    have qh: "q = head" by (simp add: q_def Nil)
    have "lseg h' head xs head"
    proof (cases xs rule: rev_cases)
      case Nil
      then show ?thesis using xp xq' qh by (simp add: nx pv p_def)
    next
      case (snoc us u)
      have pu: "p = u" by (simp add: p_def snoc)
      have "lseg h head us u" using d snoc by (simp add: dlist_def lseg_append)
      moreover have "lseg h' head us u = lseg h head us u"
        using dist snoc pu qh by (intro lseg_cong) (auto simp: nx pv)
      ultimately show ?thesis using snoc pu qh xp xq' by (simp add: lseg_append nx pv)
    qed
    then show ?thesis using dist Nil by (simp add: dlist_def h'_def)
  next
    case (Cons v vs)
    have qv: "q = v" by (simp add: q_def Cons)
    have "lseg h v vs head" using d Cons by (auto simp: dlist_def lseg_append)
    moreover have "lseg h' v vs head = lseg h v vs head"
      using dist Cons qv pin by (intro lseg_cong) (auto simp: nx pv)
    ultimately have "lseg h' head (xs @ v # vs) head"
      using left Cons qv by (simp add: lseg_append)
    then show ?thesis using dist Cons by (simp add: dlist_def h'_def)
  qed
qed

lemma dlist_del_self:
  "dlist h head (xs @ x # ys) \<Longrightarrow> dlist (list_del x h) x []"
  by (simp add: dlist_def list_del_def link_defs)

lemma dlist_del_remove1:
  assumes d: "dlist h head xs" and x: "x \<in> set xs"
  shows "dlist (list_del x h) head (remove1 x xs)"
proof -
  obtain ys zs where xs: "xs = ys @ x # zs" using x by (meson split_list)
  moreover have "x \<notin> set ys" using dlist_distinct [OF d] xs by auto
  ultimately show ?thesis using dlist_del [of h head ys x zs] d by (simp add: remove1_append)
qed

lemma list_pop_dlist:
  assumes "dlist h head xs"
  shows "list_pop head h =
    (case xs of [] \<Rightarrow> (None, h) | x # _ \<Rightarrow> (Some x, list_del x h))"
  using assms by (cases xs) (auto simp: dlist_def list_pop_def Let_def)

lemma list_pop_tail_dlist:
  assumes "dlist h head xs"
  shows "list_pop_tail head h =
    (if xs = [] then (None, h) else (Some (last xs), list_del (last xs) h))"
  using assms
  by (cases xs rule: rev_cases) (auto simp: dlist_def list_pop_tail_def lseg_append Let_def)

lemma foreach_from_lseg:
  "lseg h a xs head \<Longrightarrow> head \<notin> set xs \<Longrightarrow>
   list_foreach_from h head (lnext h a) = Some xs"
proof (induction xs arbitrary: a)
  case Nil
  then show ?case by (subst list_foreach_from.simps) simp
next
  case (Cons x xs)
  then show ?case by (subst list_foreach_from.simps) auto
qed

lemma list_foreach_dlist: "dlist h head xs \<Longrightarrow> list_foreach h head = Some xs"
  unfolding list_foreach_def dlist_def by (auto intro: foreach_from_lseg)

section \<open>Footprints\<close>

lemma list_init_footprint [footprint]:
  "n \<noteq> head \<Longrightarrow> lnext (list_init head h) n = lnext h n \<and> lprev (list_init head h) n = lprev h n"
  by (simp add: list_init_def link_defs)

lemma list_insert_after_footprint [footprint]:
  assumes "n \<notin> {p, new, lnext h p}" and "p \<noteq> new"
  shows "lnext (list_insert_after p new h) n = lnext h n \<and>
         lprev (list_insert_after p new h) n = lprev h n"
  using assms by (simp add: list_insert_after_def link_defs)

lemma list_insert_before_footprint [footprint]:
  assumes "n \<notin> {q, new, lprev h q}" and "q \<noteq> new"
  shows "lnext (list_insert_before q new h) n = lnext h n \<and>
         lprev (list_insert_before q new h) n = lprev h n"
  using assms by (simp add: list_insert_before_def link_defs)

lemma list_del_footprint [footprint]:
  assumes "n \<notin> {x, lnext h x, lprev h x}" and "lprev h x \<noteq> x"
  shows "lnext (list_del x h) n = lnext h n \<and> lprev (list_del x h) n = lprev h n"
  using assms by (simp add: list_del_def link_defs)

text \<open>
  The form the clients use: an operation on one list leaves every node outside that list, and
  so every list with other nodes, as it was.
\<close>

definition same_links :: "'n lheap \<Rightarrow> 'n lheap \<Rightarrow> 'n \<Rightarrow> bool" where
  "same_links h h' n \<longleftrightarrow> lnext h' n = lnext h n \<and> lprev h' n = lprev h n"

lemma list_del_outside:
  assumes d: "dlist h head xs" and x: "x \<in> set xs" and n: "n \<notin> set (head # xs)"
  shows "same_links h (list_del x h) n"
proof -
  obtain us vs where xs: "xs = us @ x # vs" using x by (meson split_list)
  have p: "lprev h x = last (head # us)" and q: "lnext h x = hd (vs @ [head])"
    using d xs dlist_prev_mid dlist_next_mid by fast+
  have pin: "lprev h x \<in> set (head # us)" unfolding p by (rule last_in_set) simp
  moreover have "lprev h x \<noteq> x" using pin dlist_distinct [OF d] xs by auto
  moreover have "lnext h x \<in> set (head # xs)" using q xs by (cases vs) auto
  ultimately show ?thesis
    unfolding same_links_def using n x xs by (intro list_del_footprint) auto
qed

lemma list_add_tail_outside:
  assumes d: "dlist h head xs" and new: "new \<notin> set (head # xs)"
    and n: "n \<notin> set (new # head # xs)"
  shows "same_links h (list_add_tail head new h) n"
proof -
  have "lprev h head \<in> set (head # xs)"
    unfolding dlist_prev_head [OF d] by (rule last_in_set) simp
  then show ?thesis
    unfolding list_add_tail_def same_links_def using n new
    by (intro list_insert_before_footprint) auto
qed

lemma list_add_outside:
  assumes d: "dlist h head xs" and new: "new \<notin> set (head # xs)"
    and n: "n \<notin> set (new # head # xs)"
  shows "same_links h (list_add head new h) n"
proof -
  have "lnext h head \<in> set (head # xs)" using dlist_next_head [OF d] by (cases xs) auto
  then show ?thesis
    unfolding list_add_def same_links_def using n new
    by (intro list_insert_after_footprint) auto
qed

lemma dlist_same_links:
  "(\<And>n. n \<in> set (head # xs) \<Longrightarrow> same_links h h' n) \<Longrightarrow> dlist h' head xs = dlist h head xs"
  by (rule dlist_frame) (auto simp: same_links_def)

lemma dlist_del_other:
  assumes "dlist h head xs" and "x \<in> set xs"
    and "dlist h other zs" and "set (other # zs) \<inter> set (head # xs) = {}"
  shows "dlist (list_del x h) other zs"
  using assms by (subst dlist_same_links [of other zs h]) (auto intro!: list_del_outside)

lemma dlist_add_tail_other:
  assumes "dlist h head xs" and "new \<notin> set (head # xs)"
    and "dlist h other zs" and "set (other # zs) \<inter> set (new # head # xs) = {}"
  shows "dlist (list_add_tail head new h) other zs"
  using assms by (subst dlist_same_links [of other zs h]) (auto intro!: list_add_tail_outside)

lemma dlist_add_other:
  assumes "dlist h head xs" and "new \<notin> set (head # xs)"
    and "dlist h other zs" and "set (other # zs) \<inter> set (new # head # xs) = {}"
  shows "dlist (list_add head new h) other zs"
  using assms by (subst dlist_same_links [of other zs h]) (auto intro!: list_add_outside)

section \<open>Families of lists\<close>

text \<open>
  Many lists in one heap: \<open>L\<close> gives the contents of the list at each anchor.  A node is on at most
  one list and is not itself an anchor.
\<close>

definition dlists :: "'n lheap \<Rightarrow> ('n \<rightharpoonup> 'n list) \<Rightarrow> bool" where
  "dlists h L \<longleftrightarrow> (\<forall>a xs. L a = Some xs \<longrightarrow> dlist h a xs) \<and>
     (\<forall>a xs x. L a = Some xs \<longrightarrow> x \<in> set xs \<longrightarrow> L x = None) \<and>
     (\<forall>a b xs ys. L a = Some xs \<longrightarrow> L b = Some ys \<longrightarrow> a \<noteq> b \<longrightarrow> set xs \<inter> set ys = {})"

definition on_no_list :: "('n \<rightharpoonup> 'n list) \<Rightarrow> 'n \<Rightarrow> bool" where
  "on_no_list L x \<longleftrightarrow> L x = None \<and> (\<forall>a xs. L a = Some xs \<longrightarrow> x \<notin> set xs)"

lemma dlistsD:
  assumes "dlists h L"
  shows dlists_dlist: "L a = Some xs \<Longrightarrow> dlist h a xs"
    and dlists_member: "L a = Some xs \<Longrightarrow> x \<in> set xs \<Longrightarrow> L x = None"
    and dlists_disjoint: "L a = Some xs \<Longrightarrow> L b = Some ys \<Longrightarrow> a \<noteq> b \<Longrightarrow> set xs \<inter> set ys = {}"
  using assms unfolding dlists_def by blast+

lemma dlists_update:
  assumes d: "dlists h L" and n: "dlist h' a ys"
    and o: "\<And>b xs. L b = Some xs \<Longrightarrow> b \<noteq> a \<Longrightarrow> dlist h' b xs"
    and m: "\<And>y. y \<in> set ys \<Longrightarrow> L y = None"
    and a: "\<And>b xs. L b = Some xs \<Longrightarrow> b \<noteq> a \<Longrightarrow> a \<notin> set xs \<and> set xs \<inter> set ys = {}"
  shows "dlists h' (L(a \<mapsto> ys))"
  unfolding dlists_def
proof (intro conjI allI impI)
  have an: "a \<notin> set ys" using dlist_distinct [OF n] by simp
  fix b xs assume "(L(a \<mapsto> ys)) b = Some xs"
  then show "dlist h' b xs" using n o by (auto split: if_splits)
  fix x assume "x \<in> set xs"
  then show "(L(a \<mapsto> ys)) x = None"
    using \<open>(L(a \<mapsto> ys)) b = Some xs\<close> m an a dlists_member [OF d] by (cases "b = a") auto
next
  fix b c xs zs assume "(L(a \<mapsto> ys)) b = Some xs" "(L(a \<mapsto> ys)) c = Some zs" "b \<noteq> c"
  then show "set xs \<inter> set zs = {}" using dlists_disjoint [OF d] a by (fastforce split: if_splits)
qed

lemma dlists_del:
  assumes d: "dlists h L" and a: "L a = Some xs" and x: "x \<in> set xs"
  shows "dlists (list_del x h) (L(a \<mapsto> remove1 x xs))"
proof (rule dlists_update [OF d])
  note da = dlists_dlist [OF d a]
  show "dlist (list_del x h) a (remove1 x xs)" by (rule dlist_del_remove1 [OF da x])
  show "L y = None" if "y \<in> set (remove1 x xs)" for y
    using that dlists_member [OF d a] by (meson notin_set_remove1)
  fix b ys assume b: "L b = Some ys" "b \<noteq> a"
  have "b \<notin> set xs" "a \<notin> set ys" using dlists_member [OF d] a b(1) by fastforce+
  moreover have i: "set ys \<inter> set xs = {}" by (rule dlists_disjoint [OF d b(1) a b(2)])
  ultimately show "dlist (list_del x h) b ys"
    using dlists_dlist [OF d b(1)] b(2) by (intro dlist_del_other [OF da x]) auto
  show "a \<notin> set ys \<and> set ys \<inter> set (remove1 x xs) = {}"
    using i \<open>a \<notin> set ys\<close> set_remove1_subset [of x xs] by blast
qed

lemma dlists_new:
  assumes d: "dlists h L" and a: "L a = Some xs" and new: "on_no_list L x" and xa: "x \<noteq> a"
    and n: "dlist h' a ys" and s: "set ys = insert x (set xs)"
    and out: "\<And>n. n \<notin> set (x # a # xs) \<Longrightarrow> same_links h h' n"
  shows "dlists h' (L(a \<mapsto> ys))"
proof (rule dlists_update [OF d n])
  show "L y = None" if "y \<in> set ys" for y
    using that s new dlists_member [OF d a] by (auto simp: on_no_list_def)
  fix b zs assume b: "L b = Some zs" "b \<noteq> a"
  have "b \<notin> set xs" "a \<notin> set zs" using dlists_member [OF d] a b(1) by fastforce+
  moreover have i: "set zs \<inter> set xs = {}" by (rule dlists_disjoint [OF d b(1) a b(2)])
  moreover have "x \<notin> set zs" "x \<noteq> b" using new b(1) by (auto simp: on_no_list_def)
  ultimately show "a \<notin> set zs \<and> set zs \<inter> set ys = {}" using s by auto
  have "dlist h' b zs = dlist h b zs"
    using \<open>b \<notin> set xs\<close> \<open>a \<notin> set zs\<close> i \<open>x \<notin> set zs\<close> \<open>x \<noteq> b\<close> b(2)
    by (intro dlist_same_links out) auto
  then show "dlist h' b zs" using dlists_dlist [OF d b(1)] by simp
qed

lemma on_no_list_neq: "on_no_list L x \<Longrightarrow> L a = Some xs \<Longrightarrow> x \<notin> set (a # xs)"
  by (auto simp: on_no_list_def)

lemma dlists_add:
  assumes "dlists h L" and "L a = Some xs" and "on_no_list L x"
  shows "dlists (list_add a x h) (L(a \<mapsto> x # xs))"
proof -
  note n = on_no_list_neq [OF assms(3,2)] and da = dlists_dlist [OF assms(1,2)]
  show ?thesis
    by (rule dlists_new [OF assms]) (use n dlist_add [OF da n] list_add_outside [OF da n] in auto)
qed

lemma dlists_add_tail:
  assumes "dlists h L" and "L a = Some xs" and "on_no_list L x"
  shows "dlists (list_add_tail a x h) (L(a \<mapsto> xs @ [x]))"
proof -
  note n = on_no_list_neq [OF assms(3,2)] and da = dlists_dlist [OF assms(1,2)]
  show ?thesis
    by (rule dlists_new [OF assms]) (use n dlist_add_tail [OF da n] list_add_tail_outside [OF da n] in auto)
qed

lemma dlists_init:
  assumes d: "dlists h L" and new: "\<And>b xs. L b = Some xs \<Longrightarrow> a \<notin> set (b # xs)"
  shows "dlists (list_init a h) (L(a \<mapsto> []))" and "dlists (list_init a h) L"
proof -
  have o: "dlist (list_init a h) b xs" if "L b = Some xs" for b xs
  proof -
    have "dlist (list_init a h) b xs = dlist h b xs"
      using new [OF that] by (intro dlist_frame) (auto simp: list_init_def link_defs)
    then show ?thesis using dlists_dlist [OF d that] by simp
  qed
  then show "dlists (list_init a h) L" using d unfolding dlists_def by blast
  show "dlists (list_init a h) (L(a \<mapsto> []))"
    using new o by (intro dlists_update [OF d]) (auto simp: dlist_init)
qed

lemma on_no_list_upd:
  assumes "on_no_list L y" and "y \<noteq> a" and "y \<notin> set ys"
  shows "on_no_list (L(a \<mapsto> ys)) y"
  using assms by (auto simp: on_no_list_def)

lemma on_no_list_removed:
  assumes d: "dlists h L" and a: "L a = Some xs" and x: "x \<in> set xs"
  shows "on_no_list (L(a \<mapsto> remove1 x xs)) x"
proof -
  have "distinct xs" "x \<noteq> a" using dlist_distinct [OF dlists_dlist [OF d a]] x by auto
  moreover have "x \<notin> set ys" if "L b = Some ys" "b \<noteq> a" for b ys
    using dlists_disjoint [OF d that(1) a that(2)] x by blast
  ultimately show ?thesis using dlists_member [OF d a x] by (auto simp: on_no_list_def)
qed

lemma dlists_restrict: "dlists h L \<Longrightarrow> dlists h (L |` A)"
  unfolding dlists_def restrict_map_def by (auto split: if_splits)

end
