(* ===== verification/Buddy.thy ===== *)
theory Buddy
  imports Linked_List Spinlock
begin

text \<open>
  The physical page allocator of \<^verbatim>\<open>kernel/mem/buddy.c\<close> over the page descriptors of
  \<^verbatim>\<open>include/paging.h\<close>.  A \<^verbatim>\<open>struct page_info *\<close> is its index in \<^verbatim>\<open>pages[]\<close>; an access outside the
  array has no defined result (\<open>None\<close>).  The links of \<^verbatim>\<open>pp_node\<close> and \<^verbatim>\<open>active_node\<close>, with the
  list anchors, are a heap of \<open>pnode\<close>s (see \<open>Linked_List\<close>); the contents of a physical page
  are 512 quadwords.

  The 6-bit field \<^verbatim>\<open>pp_order\<close> is a natural number: it is only decremented while it is larger
  than the requested order and only incremented while it is smaller than the maximum order.
  \<^verbatim>\<open>pp_ref\<close> keeps its 16 bits.
\<close>

section \<open>State\<close>

record page_info =
  pp_ref :: u16
  pp_order :: nat
  pp_free :: bool
  pp_avail :: bool
  pp_zero :: u64
  virt_addr :: u64
  powner :: "nat option"

datatype pnode =
    FreeList nat  \<comment> \<open>the anchor \<^verbatim>\<open>buddy_free_list[order]\<close>\<close>
  | PPNode nat    \<comment> \<open>\<^verbatim>\<open>&pages[i].pp_node\<close>\<close>
  | ActiveNode nat  \<comment> \<open>\<^verbatim>\<open>&pages[i].active_node\<close>\<close>
  | ActivePages
  | InactivePages
  | ZeroQ

record mem =
  npages :: nat
  pages :: "nat \<Rightarrow> page_info"
  plinks :: "pnode lheap"
  frames :: "nat \<Rightarrow> nat \<Rightarrow> u64"
  buddy_lock :: spinlock
  active_pages_lock :: spinlock
  cpu :: nat
  cpu_rank :: u64

definition BUDDY_4K_PAGE :: nat where "BUDDY_4K_PAGE = 0"
definition BUDDY_2M_PAGE :: nat where "BUDDY_2M_PAGE = 9"
definition BUDDY_MAX_ORDER :: nat where "BUDDY_MAX_ORDER = BUDDY_2M_PAGE + 1"

definition ALLOC_ZERO :: u32 where "ALLOC_ZERO = push_bit 0 1"
definition ALLOC_HUGE :: u32 where "ALLOC_HUGE = push_bit 1 1"
definition ALLOC_PREMAPPED :: u32 where "ALLOC_PREMAPPED = push_bit 2 1"

definition upd_page :: "nat \<Rightarrow> (page_info \<Rightarrow> page_info) \<Rightarrow> mem \<Rightarrow> mem" where
  "upd_page i f s = s\<lparr>pages := (pages s)(i := f (pages s i))\<rparr>"

definition upd_links :: "(pnode lheap \<Rightarrow> pnode lheap) \<Rightarrow> mem \<Rightarrow> mem" where
  "upd_links f s = s\<lparr>plinks := f (plinks s)\<rparr>"

section \<open>Counting free chunks\<close>

definition count_free_pages :: "mem \<Rightarrow> nat \<Rightarrow> nat option" where
  "count_free_pages s order =
     (if order \<ge> BUDDY_MAX_ORDER then Some 0
      else map_option length (list_foreach (plinks s) (FreeList order)))"

fun count_total_from :: "mem \<Rightarrow> nat list \<Rightarrow> nat \<Rightarrow> nat option" where
  "count_total_from s [] nfree = Some nfree"
| "count_total_from s (order # orders) nfree =
     do { n \<leftarrow> count_free_pages s order;
          count_total_from s orders (nfree + n * 2 ^ order) }"

definition count_total_free_pages :: "mem \<Rightarrow> nat option" where
  "count_total_free_pages s = count_total_from s [0..<BUDDY_MAX_ORDER] 0"

section \<open>Splitting and merging\<close>

lemma xor_exp_neq: "i XOR 2 ^ k \<noteq> (i :: nat)"
proof
  assume "i XOR 2 ^ k = i"
  then have "bit (i XOR 2 ^ k) k = bit i k" by simp
  then show False by (simp add: bit_xor_iff bit_exp_iff)
qed

function buddy_split :: "mem \<Rightarrow> nat \<Rightarrow> nat \<Rightarrow> (nat \<times> mem) option" where
  "buddy_split s lhs req_order =
     (if pp_order (pages s lhs) > req_order then
        (let buddy = lhs XOR 2 ^ (pp_order (pages s lhs) - 1);
             s1 = upd_page lhs (\<lambda>p. p\<lparr>pp_order := pp_order p - 1\<rparr>) s
         in if buddy \<ge> npages s then None
            else let s2 = upd_page buddy
                            (\<lambda>p. p\<lparr>pp_order := pp_order (pages s1 lhs), pp_free := True\<rparr>) s1;
                     s3 = upd_links
                            (list_add_tail (FreeList (pp_order (pages s2 buddy))) (PPNode buddy)) s2
                 in buddy_split s3 lhs req_order)
      else Some (lhs, upd_page lhs (\<lambda>p. p\<lparr>pp_free := False\<rparr>) s))"
  by pat_completeness auto
termination
  by (relation "measure (\<lambda>(s, lhs, req_order). pp_order (pages s lhs))")
    (auto simp: upd_page_def upd_links_def Let_def xor_exp_neq [symmetric])

function buddy_merge :: "mem \<Rightarrow> nat \<Rightarrow> (nat \<times> mem) option" where
  "buddy_merge s page =
     (if pp_order (pages s page) < BUDDY_MAX_ORDER - 1 then
        (let buddy = page XOR 2 ^ pp_order (pages s page)
         in if buddy \<ge> npages s then None
            else if \<not> pp_avail (pages s buddy) \<or> pp_ref (pages s buddy) > 0 then Some (page, s)
            else if \<not> pp_free (pages s buddy)
                    \<or> pp_order (pages s buddy) \<noteq> pp_order (pages s page) then Some (page, s)
            else let s1 = upd_links (list_del (PPNode buddy)) s;
                     lo = (if page > buddy then buddy else page);
                     hi = (if page > buddy then page else buddy);
                     s2 = upd_page hi (\<lambda>p. p\<lparr>pp_free := False\<rparr>) s1;
                     s3 = upd_page lo (\<lambda>p. p\<lparr>pp_order := pp_order p + 1\<rparr>) s2
                 in buddy_merge s3 lo)
      else Some (page, s))"
  by pat_completeness auto
termination
  by (relation "measure (\<lambda>(s, page). BUDDY_MAX_ORDER - pp_order (pages s page))")
    (auto simp: upd_page_def upd_links_def Let_def)

declare buddy_split.simps [simp del] buddy_merge.simps [simp del]

text \<open>The loop of \<^verbatim>\<open>buddy_find\<close> over the orders still to be tried.\<close>

fun buddy_find_in :: "nat list \<Rightarrow> mem \<Rightarrow> nat \<Rightarrow> (nat option \<times> mem) option" where
  "buddy_find_in [] s req_order = Some (None, s)"
| "buddy_find_in (order # orders) s req_order =
     (if \<not> list_is_empty (plinks s) (FreeList order) then
        (case list_pop (FreeList order) (plinks s) of
           (Some (PPNode page), h) \<Rightarrow>
             do { (lhs, s) \<leftarrow> buddy_split (s\<lparr>plinks := h\<rparr>) page req_order; Some (Some lhs, s) }
         | _ \<Rightarrow> None)
      else buddy_find_in orders s req_order)"

definition buddy_find :: "mem \<Rightarrow> nat \<Rightarrow> (nat option \<times> mem) option" where
  "buddy_find s req_order = buddy_find_in [req_order..<BUDDY_MAX_ORDER] s req_order"

section \<open>Allocating and freeing pages\<close>

definition lock_buddy :: "nat \<Rightarrow> mem \<Rightarrow> mem option" where
  "lock_buddy line s =
     do { (l, r) \<leftarrow> spin_lock (cpu s) ''buddy.c'' line (cpu_rank s) (buddy_lock s);
          Some (s\<lparr>buddy_lock := l, cpu_rank := r\<rparr>) }"

definition unlock_buddy :: "mem \<Rightarrow> mem option" where
  "unlock_buddy s =
     do { (l, r) \<leftarrow> spin_unlock (cpu s) (cpu_rank s) (buddy_lock s);
          Some (s\<lparr>buddy_lock := l, cpu_rank := r\<rparr>) }"

definition lock_active :: "nat \<Rightarrow> mem \<Rightarrow> mem option" where
  "lock_active line s =
     do { (l, r) \<leftarrow> spin_lock (cpu s) ''buddy.c'' line (cpu_rank s) (active_pages_lock s);
          Some (s\<lparr>active_pages_lock := l, cpu_rank := r\<rparr>) }"

definition unlock_active :: "mem \<Rightarrow> mem option" where
  "unlock_active s =
     do { (l, r) \<leftarrow> spin_unlock (cpu s) (cpu_rank s) (active_pages_lock s);
          Some (s\<lparr>active_pages_lock := l, cpu_rank := r\<rparr>) }"

text \<open>
  \<^verbatim>\<open>memset(page2kva(page), 0, 1 << (12 + order))\<close>: the pages of the chunk become zero.
  \<^verbatim>\<open>page2kva\<close> panics for a page outside the array.
\<close>

definition zero_chunk :: "nat \<Rightarrow> nat \<Rightarrow> mem \<Rightarrow> mem option" where
  "zero_chunk page order s =
     (if page \<ge> npages s then None
      else Some (s\<lparr>frames := (\<lambda>f. if page \<le> f \<and> f < page + 2 ^ order then (\<lambda>_. 0) else frames s f)\<rparr>))"

definition page_alloc :: "u32 \<Rightarrow> mem \<Rightarrow> (nat option \<times> mem) option" where
  "page_alloc alloc_flags s =
     do { s \<leftarrow> (if \<not> spin_haslock (cpu s) (buddy_lock s) then lock_buddy 248 s else Some s);
          let req_order = (if alloc_flags AND ALLOC_HUGE \<noteq> 0 then BUDDY_2M_PAGE else 0);
          if req_order \<ge> BUDDY_MAX_ORDER then Some (None, s)
          else do {
            (page, s) \<leftarrow> buddy_find s req_order;
            case page of
              None \<Rightarrow> do { s \<leftarrow> (if spin_haslock (cpu s) (buddy_lock s) then unlock_buddy s else Some s);
                         Some (None, s) }
            | Some page \<Rightarrow> do {
                s \<leftarrow> (if alloc_flags AND ALLOC_ZERO \<noteq> 0 then zero_chunk page req_order s else Some s);
                let s = upd_page page (\<lambda>p. p\<lparr>virt_addr := 0, powner := None\<rparr>) s;
                s \<leftarrow> (if spin_haslock (cpu s) (buddy_lock s) then unlock_buddy s else Some s);
                Some (Some page, s) } } }"

definition page_free :: "nat \<Rightarrow> mem \<Rightarrow> mem option" where
  "page_free pp s =
     do { s \<leftarrow> lock_buddy 301 s;
          s \<leftarrow> lock_active 324 s;
          let s = (if lnext (plinks s) (ActiveNode pp) \<noteq> ActiveNode pp
                   then upd_links (list_del (ActiveNode pp)) s else s);
          s \<leftarrow> unlock_active s;
          (pp, s) \<leftarrow> buddy_merge s pp;
          let s = upd_page pp (\<lambda>p. p\<lparr>pp_free := True\<rparr>) s;
          let s = upd_links (list_add_tail (FreeList (pp_order (pages s pp))) (PPNode pp)) s;
          unlock_buddy s }"

definition page_decref :: "nat \<Rightarrow> mem \<Rightarrow> mem option" where
  "page_decref pp s =
     (if \<not> pp_ref (pages s pp) > 0 then None
      else let s = upd_page pp (\<lambda>p. p\<lparr>pp_ref := pp_ref p - 1\<rparr>) s
           in if pp_ref (pages s pp) = 0 then page_free pp s else Some s)"

end
