(* ===== verification/Buddy_Inv.thy ===== *)
theory Buddy_Inv
  imports Buddy
begin

text \<open>
  The invariant of the buddy allocator and its proof for every operation of \<open>Buddy\<close>.  The
  state of the allocator is described by the sequences \<open>fl k\<close> of the chunks on each free
  list; a chunk is an aligned block of \<open>2 ^ k\<close> frames named by its first frame.
\<close>

section \<open>Aligned blocks\<close>

definition chunk :: "nat \<Rightarrow> nat \<Rightarrow> nat set" where
  "chunk i k = {i..<i + 2 ^ k}"

lemma bit_exp_le:
  assumes "bit (i :: nat) k"
  shows "2 ^ k \<le> i"
proof (rule ccontr)
  assume "\<not> 2 ^ k \<le> i"
  then have "i div 2 ^ k = 0" by simp
  then show False using assms by (simp add: bit_iff_odd)
qed

lemma xor_exp_nat: "(i :: nat) XOR 2 ^ k = (if bit i k then i - 2 ^ k else i + 2 ^ k)"
proof (cases "bit i k")
  case True
  then have "i XOR 2 ^ k = unset_bit k i"
    using flip_bit_eq_xor [of k i] flip_bit_eq_if [of k i] by simp
  moreover have "i = set_bit k (unset_bit k i)"
    using True by (intro bit_eqI) (auto simp: bit_set_bit_iff bit_unset_bit_iff)
  then have "i = unset_bit k i + 2 ^ k"
    using set_bit_eq [of k "unset_bit k i"] by (simp add: bit_unset_bit_iff)
  ultimately show ?thesis using True by simp
next
  case False
  then show ?thesis
    using flip_bit_eq_xor [of k i] flip_bit_eq_if [of k i] by (simp add: set_bit_eq)
qed

lemma dvd_exp_Suc_iff: "2 ^ k dvd (i :: nat) \<Longrightarrow> 2 ^ Suc k dvd i \<longleftrightarrow> \<not> bit i k"
  by (simp add: bit_iff_odd dvd_div_iff_mult mult.commute)

lemma dvd_exp_SucD:
  assumes "2 ^ Suc k dvd (i :: nat)"
  shows "2 ^ k dvd i" and "\<not> bit i k"
proof -
  show "2 ^ k dvd i" using assms unfolding power_Suc by (rule dvd_mult_right)
  then show "\<not> bit i k" using assms dvd_exp_Suc_iff by blast
qed

lemma xor_exp_involutive: "(i XOR 2 ^ k) XOR 2 ^ k = (i :: nat)"
  by (simp add: xor.assoc)

lemma buddy_chunks:
  assumes "2 ^ k dvd (i :: nat)"
  defines "b \<equiv> i XOR 2 ^ k"
  shows buddy_dvd: "2 ^ k dvd b"
    and min_buddy_dvd: "2 ^ Suc k dvd min i b"
    and buddy_union: "chunk (min i b) (Suc k) = chunk i k \<union> chunk b k"
    and buddy_disjoint: "chunk i k \<inter> chunk b k = {}"
proof -
  show d: "2 ^ k dvd b" using assms bit_exp_le [of i k]
    by (auto simp: xor_exp_nat dvd_diff_nat)
  have b: "b = (if bit i k then i - 2 ^ k else i + 2 ^ k)"
    by (simp add: b_def xor_exp_nat)
  have nb: "bit b k = (\<not> bit i k)"
    by (simp add: b_def bit_xor_iff bit_exp_iff)
  show "2 ^ Suc k dvd min i b"
  proof (cases "bit i k")
    case True
    then have "min i b = b" by (simp add: b)
    then show ?thesis using d nb True dvd_exp_Suc_iff by metis
  next
    case False
    then have "min i b = i" by (simp add: b)
    then show ?thesis using assms(1) False dvd_exp_Suc_iff by metis
  qed
  show "chunk (min i b) (Suc k) = chunk i k \<union> chunk b k"
    using bit_exp_le [of i k] by (auto simp: b chunk_def)
  show "chunk i k \<inter> chunk b k = {}"
    using bit_exp_le [of i k] by (auto simp: b chunk_def)
qed

lemma aligned_le:
  assumes "d dvd (i :: nat)" and "d dvd n" and "i < n"
  shows "i + d \<le> n"
proof -
  obtain a c where i: "i = d * a" and n: "n = d * c" using assms by (auto elim!: dvdE)
  have "a < c" using assms(3) i n by simp
  then have "d * Suc a \<le> d * c" by (simp only: mult_le_mono2 Suc_leI)
  then show ?thesis using i n by simp
qed

lemma buddy_in_bounds:
  assumes "2 ^ k dvd (i :: nat)" and "k < 9" and "512 dvd n" and "i < n"
  shows "i XOR 2 ^ k < n"
proof (cases "bit i k")
  case True
  then show ?thesis using assms(4) by (simp add: xor_exp_nat)
next
  case False
  have "2 ^ Suc k dvd i" using False assms(1) dvd_exp_Suc_iff by blast
  moreover have "(2 :: nat) ^ Suc k dvd 2 ^ 9" using assms(2) by (intro le_imp_power_dvd) simp
  then have "(2 :: nat) ^ Suc k dvd 512" by (simp only: power_numeral) simp
  then have "2 ^ Suc k dvd n" using assms(3) by (rule dvd_trans)
  ultimately have "i + 2 ^ Suc k \<le> n" using assms(4) aligned_le by blast
  moreover have "(0 :: nat) < 2 ^ k" by simp
  ultimately have "i + 2 ^ k < n" unfolding power_Suc by linarith
  then show ?thesis using False by (simp add: xor_exp_nat)
qed

lemma chunk_nested:
  assumes k: "k \<le> l" and i: "2 ^ k dvd (i :: nat)" and j: "2 ^ l dvd (j :: nat)"
    and ne: "chunk i k \<inter> chunk j l \<noteq> {}"
  shows "chunk i k \<subseteq> chunk j l"
proof -
  from ne obtain x where x: "i \<le> x" "x < i + 2 ^ k" "j \<le> x" "x < j + 2 ^ l"
    unfolding chunk_def by (metis Int_emptyI atLeastLessThan_iff)
  have dj: "2 ^ k dvd j" using j k by (meson dvd_trans le_imp_power_dvd)
  have "j \<le> i"
  proof (rule ccontr)
    assume "\<not> j \<le> i"
    then have "i + 2 ^ k \<le> j" using aligned_le [OF i dj] by simp
    then show False using x by simp
  qed
  moreover have "i + 2 ^ k \<le> j + 2 ^ l"
  proof (rule aligned_le [OF i])
    show "2 ^ k dvd j + 2 ^ l" using dj k by (simp add: le_imp_power_dvd)
    show "i < j + 2 ^ l" using x by simp
  qed
  ultimately show ?thesis by (auto simp: chunk_def)
qed

section \<open>The invariant\<close>

text \<open>
  \<open>free_heads s\<close> are the descriptors marked free; each stands for the block of its order.
  \<open>wf_blocks\<close> speaks of the descriptors only: blocks are aligned, inside the array, available
  and unreferenced, pairwise disjoint, and no two of them are buddies of the same order.
  \<open>on_lists\<close> ties them to the free lists.  Both take the set of heads, because during a split
  or a merge one block is in hand: marked or not, it is on no list.
\<close>

definition free_heads :: "mem \<Rightarrow> nat set" where
  "free_heads s = {i. i < npages s \<and> pp_free (pages s i)}"

abbreviation order_of :: "mem \<Rightarrow> nat \<Rightarrow> nat" where
  "order_of s i \<equiv> pp_order (pages s i)"

abbreviation block :: "mem \<Rightarrow> nat \<Rightarrow> nat set" where
  "block s i \<equiv> chunk i (order_of s i)"

definition block_ok :: "mem \<Rightarrow> nat \<Rightarrow> bool" where
  "block_ok s i \<longleftrightarrow> order_of s i < 10 \<and> 2 ^ order_of s i dvd i \<and> i + 2 ^ order_of s i \<le> npages s \<and>
     (\<forall>j\<in>block s i. pp_avail (pages s j) \<and> pp_ref (pages s j) = 0)"

definition wf_blocks :: "mem \<Rightarrow> nat set \<Rightarrow> bool" where
  "wf_blocks s H \<longleftrightarrow> 512 dvd npages s \<and> (\<forall>i\<in>H. block_ok s i) \<and>
     (\<forall>i\<in>H. \<forall>j\<in>H. i \<noteq> j \<longrightarrow> block s i \<inter> block s j = {}) \<and>
     (\<forall>i\<in>H. order_of s i < 9 \<longrightarrow> i XOR 2 ^ order_of s i \<in> H \<longrightarrow>
        order_of s (i XOR 2 ^ order_of s i) \<noteq> order_of s i)"

definition list_of_order :: "mem \<Rightarrow> nat set \<Rightarrow> nat \<Rightarrow> nat list \<Rightarrow> bool" where
  "list_of_order s H k xs \<longleftrightarrow>
     dlist (plinks s) (FreeList k) (map PPNode xs) \<and> set xs = {i \<in> H. order_of s i = k}"

definition on_lists :: "mem \<Rightarrow> nat set \<Rightarrow> bool" where
  "on_lists s H \<longleftrightarrow> (\<forall>k<10. \<exists>xs. list_of_order s H k xs)"

definition buddy_inv :: "mem \<Rightarrow> bool" where
  "buddy_inv s \<longleftrightarrow> wf_blocks s (free_heads s) \<and> on_lists s (free_heads s)"

definition in_hand :: "mem \<Rightarrow> nat \<Rightarrow> bool" where
  "in_hand s p \<longleftrightarrow> wf_blocks s (free_heads s - {p}) \<and> on_lists s (free_heads s - {p}) \<and>
     block_ok s p \<and> (\<forall>i\<in>free_heads s - {p}. block s p \<inter> block s i = {})"

definition free_frames :: "mem \<Rightarrow> nat set" where
  "free_frames s = (\<Union>i\<in>free_heads s. block s i)"

text \<open>
  What the allocator leaves alone: everything but the orders and free marks of the descriptors
  in \<open>F\<close> and the links of the free lists.
\<close>

definition buddy_node :: "pnode \<Rightarrow> bool" where
  "buddy_node n \<longleftrightarrow> (case n of FreeList _ \<Rightarrow> True | PPNode _ \<Rightarrow> True | _ \<Rightarrow> False)"

definition unmarked :: "page_info \<Rightarrow> page_info" where
  "unmarked p = p\<lparr>pp_order := 0, pp_free := False\<rparr>"

definition buddy_frame :: "nat set \<Rightarrow> mem \<Rightarrow> mem \<Rightarrow> bool" where
  "buddy_frame F s s' \<longleftrightarrow>
     npages s' = npages s \<and> frames s' = frames s \<and> buddy_lock s' = buddy_lock s \<and>
     active_pages_lock s' = active_pages_lock s \<and> cpu s' = cpu s \<and> cpu_rank s' = cpu_rank s \<and>
     (\<forall>i. i \<notin> F \<longrightarrow> pages s' i = pages s i) \<and> (\<forall>i. unmarked (pages s' i) = unmarked (pages s i)) \<and>
     (\<forall>n. \<not> buddy_node n \<longrightarrow> same_links (plinks s) (plinks s') n)"

lemma buddy_frame_refl [simp]: "buddy_frame F s s"
  by (simp add: buddy_frame_def same_links_def)

lemma buddy_frame_trans:
  assumes "buddy_frame F s t" and "buddy_frame G t u" and "F \<subseteq> K" and "G \<subseteq> K"
  shows "buddy_frame K s u"
proof -
  have "pages u i = pages s i" if "i \<notin> K" for i
    using assms that unfolding buddy_frame_def by (metis subsetD)
  then show ?thesis using assms by (simp add: buddy_frame_def same_links_def)
qed

section \<open>How one step changes the invariant\<close>

lemma list_of_order_unlink:
  assumes l: "list_of_order s H k xs" and lk: "list_of_order s H (order_of s i) ys" and i: "i \<in> H"
  defines "s' \<equiv> upd_links (list_del (PPNode i)) s"
  shows "\<exists>zs. list_of_order s' (H - {i}) k zs"
proof (cases "k = order_of s i")
  case True
  have "dlist (list_del (PPNode i) (plinks s)) (FreeList k) (remove1 (PPNode i) (map PPNode xs))"
    using l i True by (intro dlist_del_remove1) (auto simp: list_of_order_def)
  also have "remove1 (PPNode i) (map PPNode xs) = map PPNode (remove1 i xs)"
    by (rule remove1_map) (simp add: inj_def)
  finally show ?thesis
    using l dlist_distinct [of "plinks s" "FreeList k" "map PPNode xs"]
    by (intro exI [of _ "remove1 i xs"])
      (auto simp: list_of_order_def s'_def upd_links_def distinct_map)
next
  case False
  have "dlist (list_del (PPNode i) (plinks s)) (FreeList k) (map PPNode xs)"
    using l lk i False
    by (intro dlist_del_other [of "plinks s" "FreeList (order_of s i)" "map PPNode ys"])
      (auto simp: list_of_order_def)
  then show ?thesis
    using l False by (intro exI [of _ xs]) (auto simp: list_of_order_def s'_def upd_links_def)
qed

lemma on_lists_unlink:
  assumes "on_lists s H" and "i \<in> H" and "order_of s i < 10"
  shows "on_lists (upd_links (list_del (PPNode i)) s) (H - {i})"
  using assms list_of_order_unlink unfolding on_lists_def by metis

lemma list_of_order_link:
  assumes l: "list_of_order s H k xs" and lk: "list_of_order s H (order_of s i) ys" and i: "i \<notin> H"
  defines "s' \<equiv> upd_links (list_add_tail (FreeList (order_of s i)) (PPNode i)) s"
  shows "\<exists>zs. list_of_order s' (insert i H) k zs"
proof (cases "k = order_of s i")
  case True
  have "dlist (list_add_tail (FreeList k) (PPNode i) (plinks s)) (FreeList k)
          (map PPNode xs @ [PPNode i])"
    using l i by (intro dlist_add_tail) (auto simp: list_of_order_def)
  then show ?thesis using l True
    by (intro exI [of _ "xs @ [i]"]) (auto simp: list_of_order_def s'_def upd_links_def)
next
  case False
  have "dlist (list_add_tail (FreeList (order_of s i)) (PPNode i) (plinks s)) (FreeList k)
          (map PPNode xs)"
    using l lk i False
    by (intro dlist_add_tail_other [of "plinks s" "FreeList (order_of s i)" "map PPNode ys"])
      (auto simp: list_of_order_def)
  then show ?thesis using l False
    by (intro exI [of _ xs]) (auto simp: list_of_order_def s'_def upd_links_def)
qed

lemma on_lists_link:
  assumes "on_lists s H" and "i \<notin> H" and "order_of s i < 10"
  shows "on_lists (upd_links (list_add_tail (FreeList (order_of s i)) (PPNode i)) s) (insert i H)"
  using assms list_of_order_link unfolding on_lists_def by metis

lemma on_lists_cong:
  assumes "plinks s' = plinks s" and "\<And>i. i \<in> H \<Longrightarrow> order_of s' i = order_of s i"
  shows "on_lists s' H = on_lists s H"
proof -
  have "{i \<in> H. order_of s' i = k} = {i \<in> H. order_of s i = k}" for k using assms(2) by auto
  then show ?thesis by (simp add: on_lists_def list_of_order_def assms(1))
qed

lemma unmarked_attrs:
  assumes "unmarked p = unmarked q"
  shows "pp_avail p = pp_avail q" and "pp_ref p = pp_ref q" and "virt_addr p = virt_addr q"
    and "powner p = powner q"
  using assms by (cases p; cases q; simp add: unmarked_def)+

lemma block_ok_cong:
  assumes "order_of s' i = order_of s i" and "npages s' = npages s"
    and um: "\<And>j. unmarked (pages s' j) = unmarked (pages s j)"
  shows "block_ok s' i = block_ok s i"
  by (simp add: block_ok_def assms unmarked_attrs(1,2) [OF um])

lemma wf_blocks_cong:
  assumes "\<And>i. i \<in> H \<Longrightarrow> order_of s' i = order_of s i" and "npages s' = npages s"
    and "\<And>j. unmarked (pages s' j) = unmarked (pages s j)"
  shows "wf_blocks s' H = wf_blocks s H"
proof -
  have "\<forall>i\<in>H. block_ok s' i = block_ok s i" using assms block_ok_cong by blast
  then show ?thesis using assms(1,2) by (simp add: wf_blocks_def)
qed

lemma wf_blocks_mono: "wf_blocks s H \<Longrightarrow> K \<subseteq> H \<Longrightarrow> wf_blocks s K"
  unfolding wf_blocks_def by (meson subsetD)

lemmas upd_defs = upd_page_def upd_links_def

lemma buddy_frame_upd_page:
  assumes "i \<in> F" and "unmarked (f (pages s i)) = unmarked (pages s i)"
  shows "buddy_frame F s (upd_page i f s)"
  using assms by (auto simp: buddy_frame_def upd_page_def same_links_def)

lemma buddy_frame_upd:
  assumes "buddy_frame F s t" and "i \<in> F" and "unmarked (f (pages t i)) = unmarked (pages t i)"
  shows "buddy_frame F s (upd_page i f t)"
  using assms(1) buddy_frame_upd_page [of i F f t, OF assms(2,3)] by (rule buddy_frame_trans) simp_all

lemma buddy_frame_unlink:
  assumes "on_lists s H" and "i \<in> H" and "order_of s i < 10"
  shows "buddy_frame F s (upd_links (list_del (PPNode i)) s)"
proof -
  from assms obtain xs where "list_of_order s H (order_of s i) xs" unfolding on_lists_def by blast
  then have d: "dlist (plinks s) (FreeList (order_of s i)) (map PPNode xs)"
    and x: "PPNode i \<in> set (map PPNode xs)" using assms(2) by (auto simp: list_of_order_def)
  have "same_links (plinks s) (list_del (PPNode i) (plinks s)) n" if "\<not> buddy_node n" for n
    using that by (intro list_del_outside [OF d x]) (auto simp: buddy_node_def)
  then show ?thesis by (simp add: buddy_frame_def upd_links_def)
qed

lemma buddy_frame_link:
  assumes "on_lists s H" and "i \<notin> H" and "order_of s i < 10"
  shows "buddy_frame F s (upd_links (list_add_tail (FreeList (order_of s i)) (PPNode i)) s)"
proof -
  from assms obtain xs where "list_of_order s H (order_of s i) xs" unfolding on_lists_def by blast
  then have d: "dlist (plinks s) (FreeList (order_of s i)) (map PPNode xs)"
    and x: "PPNode i \<notin> set (FreeList (order_of s i) # map PPNode xs)"
    using assms(2) by (auto simp: list_of_order_def)
  have "same_links (plinks s) (list_add_tail (FreeList (order_of s i)) (PPNode i) (plinks s)) n"
    if "\<not> buddy_node n" for n
    using that by (intro list_add_tail_outside [OF d x]) (auto simp: buddy_node_def)
  then show ?thesis by (simp add: buddy_frame_def upd_links_def)
qed

subsection \<open>Merging a block with its buddy\<close>

definition merge_step :: "mem \<Rightarrow> nat \<Rightarrow> nat \<Rightarrow> mem" where
  "merge_step s p b = upd_page (min p b) (\<lambda>p. p\<lparr>pp_order := pp_order p + 1\<rparr>)
     (upd_page (max p b) (\<lambda>p. p\<lparr>pp_free := False\<rparr>) (upd_links (list_del (PPNode b)) s))"

lemma in_handD:
  assumes "in_hand s p"
  shows in_hand_order: "order_of s p < 10" and in_hand_dvd: "2 ^ order_of s p dvd p"
    and in_hand_bound: "p + 2 ^ order_of s p \<le> npages s" and in_hand_512: "512 dvd npages s"
    and in_hand_lt: "p < npages s"
proof -
  show b: "p + 2 ^ order_of s p \<le> npages s" using assms by (simp add: in_hand_def block_ok_def)
  have "(0 :: nat) < 2 ^ order_of s p" by simp
  then show "p < npages s" using b by linarith
qed (use assms in \<open>simp_all add: in_hand_def block_ok_def wf_blocks_def\<close>)

lemma merge_step_hand:
  assumes h: "in_hand s p" and k: "order_of s p < 9"
    and b: "b = p XOR 2 ^ order_of s p" and bf: "b \<in> free_heads s" and bo: "order_of s b = order_of s p"
  defines "s' \<equiv> merge_step s p b"
  shows merge_step_in_hand: "in_hand s' (min p b)"
    and merge_step_block: "block s' (min p b) = block s p \<union> block s b"
    and merge_step_heads: "free_heads s' - {min p b} = free_heads s - {p} - {b}"
    and merge_step_frame: "buddy_frame (block s' (min p b)) s s'"
    and merge_step_order: "order_of s' (min p b) = Suc (order_of s p)"
proof -
  let ?k = "order_of s p" and ?lo = "min p b" and ?H = "free_heads s - {p} - {b}"
  note kd = in_hand_dvd [OF h]
  have pb: "b \<noteq> p" using b xor_exp_neq by simp
  have bH: "b \<in> free_heads s - {p}" using bf pb by simp
  have bok: "block_ok s b" using h bH by (simp add: in_hand_def wf_blocks_def)
  have pok: "block_ok s p" using h by (simp add: in_hand_def)
  show o: "order_of s' ?lo = Suc ?k" using pb bo
    by (auto simp: s'_def merge_step_def upd_defs min_def max_def)
  show blk: "block s' ?lo = block s p \<union> block s b"
    using buddy_union [OF kd] o b bo by simp
  show heads: "free_heads s' - {?lo} = ?H"
    using pb by (auto simp: s'_def merge_step_def upd_defs free_heads_def min_def max_def)
  have oth: "order_of s' i = order_of s i" if "i \<in> ?H" for i
    using that by (auto simp: s'_def merge_step_def upd_defs min_def max_def)
  have np: "npages s' = npages s" by (simp add: s'_def merge_step_def upd_defs)
  have um: "unmarked (pages s' j) = unmarked (pages s j)" for j
    by (simp add: s'_def merge_step_def upd_defs unmarked_def)
  have wf: "wf_blocks s' ?H"
    using h wf_blocks_mono [of s "free_heads s - {p}" ?H] wf_blocks_cong [of ?H s' s] oth np um
    by (auto simp: in_hand_def)
  have ls: "on_lists s' ?H"
  proof -
    have "on_lists (upd_links (list_del (PPNode b)) s) ?H"
      using h bH bok by (intro on_lists_unlink) (simp_all add: in_hand_def block_ok_def)
    moreover have "plinks s' = plinks (upd_links (list_del (PPNode b)) s)"
      by (simp add: s'_def merge_step_def upd_page_def)
    ultimately show ?thesis using oth on_lists_cong [of s' "upd_links (list_del (PPNode b)) s" ?H]
      by (simp add: upd_links_def)
  qed
  have "?lo + 2 ^ Suc ?k \<le> npages s"
    using pok bok bo bit_exp_le [of p ?k] by (auto simp: b xor_exp_nat block_ok_def min_def split: if_splits)
  then have lok: "block_ok s' ?lo"
    using pok bok k o np min_buddy_dvd [OF kd] blk unmarked_attrs(1,2) [OF um]
    by (auto simp: block_ok_def b)
  have "block s' ?lo \<inter> block s' i = {}" if "i \<in> ?H" for i
    using that h bH unfolding blk oth [OF that] by (auto simp: in_hand_def wf_blocks_def)
  then show "in_hand s' ?lo" using wf ls lok heads by (simp add: in_hand_def)
  have "p \<in> block s' ?lo" "b \<in> block s' ?lo" unfolding blk by (auto simp: chunk_def)
  then have mn: "?lo \<in> block s' ?lo" and mx: "max p b \<in> block s' ?lo" by (metis min_def max_def)+
  define F where "F = block s' ?lo"
  have "buddy_frame F s (upd_links (list_del (PPNode b)) s)"
    using h bH bok by (intro buddy_frame_unlink [of _ "free_heads s - {p}"])
      (simp_all add: in_hand_def block_ok_def)
  then have "buddy_frame F s s'"
    unfolding s'_def merge_step_def using mn mx
    by (intro buddy_frame_upd) (simp_all add: unmarked_def F_def)
  then show "buddy_frame (block s' ?lo) s s'" by (simp add: F_def)
qed

definition frames_besides :: "mem \<Rightarrow> nat \<Rightarrow> nat set" where
  "frames_besides s p = (\<Union>i\<in>free_heads s - {p}. block s i)"

lemma merge_step_frames:
  assumes h: "in_hand s p" and k: "order_of s p < 9"
    and b: "b = p XOR 2 ^ order_of s p" and bf: "b \<in> free_heads s" and bo: "order_of s b = order_of s p"
  defines "s' \<equiv> merge_step s p b"
  shows "block s' (min p b) \<union> frames_besides s' (min p b) = block s p \<union> frames_besides s p"
proof -
  note ms = merge_step_hand [OF h k b bf bo, folded s'_def]
  have pb: "b \<noteq> p" using b xor_exp_neq by simp
  have oth: "order_of s' i = order_of s i" if "i \<in> free_heads s - {p} - {b}" for i
    using that by (auto simp: s'_def merge_step_def upd_defs min_def max_def)
  have "frames_besides s' (min p b) = (\<Union>i\<in>free_heads s - {p} - {b}. block s i)"
    unfolding frames_besides_def ms(3) using oth by simp
  moreover have "frames_besides s p = block s b \<union> (\<Union>i\<in>free_heads s - {p} - {b}. block s i)"
    using bf pb unfolding frames_besides_def by blast
  ultimately show ?thesis unfolding ms(2) by blast
qed

definition no_free_buddy :: "mem \<Rightarrow> nat \<Rightarrow> bool" where
  "no_free_buddy s p \<longleftrightarrow> (order_of s p < 9 \<longrightarrow> p XOR 2 ^ order_of s p \<in> free_heads s \<longrightarrow>
     order_of s (p XOR 2 ^ order_of s p) \<noteq> order_of s p)"

lemma buddy_merge_in_hand:
  assumes "in_hand s p"
  shows "\<exists>q s'. buddy_merge s p = Some (q, s') \<and> in_hand s' q \<and> no_free_buddy s' q \<and>
    block s p \<subseteq> block s' q \<and> buddy_frame (block s' q) s s' \<and>
    block s' q \<union> frames_besides s' q = block s p \<union> frames_besides s p"
  using assms
proof (induction "9 - order_of s p" arbitrary: s p rule: less_induct)
  case (less s p)
  let ?b = "p XOR 2 ^ order_of s p"
  consider (top) "\<not> order_of s p < 9"
    | (stop) "order_of s p < 9" and "\<not> (?b \<in> free_heads s \<and> order_of s ?b = order_of s p)"
    | (go) "order_of s p < 9" and "?b \<in> free_heads s" and "order_of s ?b = order_of s p" by blast
  then show ?case
  proof cases
    case top
    then show ?thesis using less.prems
      by (subst buddy_merge.simps) (simp add: BUDDY_MAX_ORDER_def BUDDY_2M_PAGE_def no_free_buddy_def)
  next
    case stop
    have "?b < npages s" using buddy_in_bounds in_handD [OF less.prems] stop(1) by blast
    then have "buddy_merge s p = Some (p, s)"
      using stop by (subst buddy_merge.simps) (auto simp: Let_def free_heads_def)
    then show ?thesis using less.prems stop by (simp add: no_free_buddy_def)
  next
    case go
    let ?s' = "merge_step s p ?b" and ?q = "min p ?b"
    note ms = merge_step_hand [OF less.prems go(1) refl go(2,3)]
    have pb: "?b \<noteq> p" using xor_exp_neq by simp
    have "block_ok s ?b" using less.prems go(2) pb by (simp add: in_hand_def wf_blocks_def)
    then have attr: "pp_avail (pages s ?b)" "pp_ref (pages s ?b) = 0" "?b < npages s" "pp_free (pages s ?b)"
      using go by (auto simp: block_ok_def chunk_def free_heads_def)
    have step: "buddy_merge s p = buddy_merge ?s' ?q"
      using go attr pb by (subst buddy_merge.simps)
        (simp add: Let_def BUDDY_MAX_ORDER_def BUDDY_2M_PAGE_def merge_step_def min_def max_def not_le)
    have "9 - order_of ?s' ?q < 9 - order_of s p" using go(1) ms(5) by simp
    from less.hyps [OF this ms(1)] obtain q s' where r: "buddy_merge ?s' ?q = Some (q, s')"
      "in_hand s' q" "no_free_buddy s' q" "block ?s' ?q \<subseteq> block s' q" "buddy_frame (block s' q) ?s' s'"
      "block s' q \<union> frames_besides s' q = block ?s' ?q \<union> frames_besides ?s' ?q" by blast
    moreover have "buddy_frame (block s' q) s s'"
      using buddy_frame_trans [OF ms(4) r(5,4)] by simp
    ultimately show ?thesis
      using step ms(2) merge_step_frames [OF less.prems go(1) refl go(2,3)]
      by (intro exI [of _ q] exI [of _ s']) auto
  qed
qed

subsection \<open>Taking a block off its list and putting it back\<close>

lemma own_block [simp]: "i \<in> chunk i k"
  by (simp add: chunk_def)

lemma chunk_nonempty [simp]: "chunk i k \<noteq> {}"
  by (simp add: chunk_def)

definition put_back :: "mem \<Rightarrow> nat \<Rightarrow> mem" where
  "put_back s p = (let s1 = upd_page p (\<lambda>p. p\<lparr>pp_free := True\<rparr>) s
     in upd_links (list_add_tail (FreeList (order_of s1 p)) (PPNode p)) s1)"

lemma put_back_pages:
  "pages (put_back s p) = (pages s)(p := (pages s p)\<lparr>pp_free := True\<rparr>)"
  "npages (put_back s p) = npages s"
  by (simp_all add: put_back_def Let_def upd_defs)

lemma put_back_heads:
  "p < npages s \<Longrightarrow> free_heads (put_back s p) = insert p (free_heads s - {p})"
  by (auto simp: free_heads_def put_back_pages)

lemma put_back_lists:
  assumes h: "in_hand s p"
  shows put_back_on_lists: "on_lists (put_back s p) (insert p (free_heads s - {p}))"
    and put_back_frame: "p \<in> F \<Longrightarrow> buddy_frame F s (put_back s p)"
proof -
  let ?s1 = "upd_page p (\<lambda>p. p\<lparr>pp_free := True\<rparr>) s" and ?H = "free_heads s - {p}"
  have l: "on_lists ?s1 ?H"
    using h on_lists_cong [of ?s1 s ?H] by (simp add: in_hand_def upd_page_def)
  have o: "order_of ?s1 p < 10" using in_hand_order [OF h] by (simp add: upd_page_def)
  have pH: "p \<notin> ?H" by simp
  show "on_lists (put_back s p) (insert p ?H)"
    using on_lists_link [OF l pH o] by (simp add: put_back_def Let_def)
  show "buddy_frame F s (put_back s p)" if "p \<in> F"
  proof -
    have "buddy_frame F s ?s1" using that by (intro buddy_frame_upd_page) (simp_all add: unmarked_def)
    from buddy_frame_trans [OF this buddy_frame_link [OF l pH o, of F]]
    show ?thesis by (simp add: put_back_def Let_def)
  qed
qed

lemma wf_blocks_insert:
  assumes "wf_blocks s H" and "block_ok s p" and "\<forall>i\<in>H. block s p \<inter> block s i = {}"
    and n: "order_of s p < 9 \<longrightarrow> p XOR 2 ^ order_of s p \<in> H \<longrightarrow>
      order_of s (p XOR 2 ^ order_of s p) \<noteq> order_of s p"
  shows "wf_blocks s (insert p H)"
proof -
  have "order_of s (i XOR 2 ^ order_of s i) \<noteq> order_of s i"
    if "i \<in> insert p H" "order_of s i < 9" "i XOR 2 ^ order_of s i \<in> insert p H" for i
    using that assms xor_exp_neq xor_exp_involutive unfolding wf_blocks_def by (metis insertE)
  moreover have "block s i \<inter> block s j = {}" if "i \<in> insert p H" "j \<in> insert p H" "i \<noteq> j" for i j
    using that assms unfolding wf_blocks_def by (metis inf_commute insertE)
  ultimately show ?thesis using assms(1,2) by (auto simp: wf_blocks_def)
qed

lemma put_back_inv:
  assumes h: "in_hand s p" and n: "no_free_buddy s p"
  shows put_back_buddy_inv: "buddy_inv (put_back s p)"
    and put_back_free: "free_frames (put_back s p) = block s p \<union> frames_besides s p"
proof -
  let ?H = "free_heads s - {p}"
  note heads = put_back_heads [OF in_hand_lt [OF h]]
  have o: "order_of (put_back s p) i = order_of s i" for i by (simp add: put_back_pages)
  have "wf_blocks s (insert p ?H)"
    using h n by (intro wf_blocks_insert) (simp_all add: in_hand_def no_free_buddy_def)
  then have "wf_blocks (put_back s p) (insert p ?H)"
    by (subst wf_blocks_cong [of _ _ s]) (simp_all add: put_back_pages unmarked_def)
  then show "buddy_inv (put_back s p)"
    using heads put_back_on_lists [OF h] by (simp add: buddy_inv_def)
  show "free_frames (put_back s p) = block s p \<union> frames_besides s p"
    unfolding free_frames_def frames_besides_def heads o by blast
qed

lemma take_off_inv:
  assumes inv: "buddy_inv s" and i: "i \<in> free_heads s"
  defines "s' \<equiv> upd_links (list_del (PPNode i)) s"
  shows take_off_in_hand: "in_hand s' i"
    and take_off_frames: "block s' i \<union> frames_besides s' i = free_frames s"
    and take_off_frame: "buddy_frame F s s'"
proof -
  have w: "wf_blocks s (free_heads s)" and l: "on_lists s (free_heads s)"
    using inv by (simp_all add: buddy_inv_def)
  have pg: "pages s' = pages s" "npages s' = npages s" by (simp_all add: s'_def upd_links_def)
  then have heads: "free_heads s' = free_heads s" by (simp add: free_heads_def)
  have o: "order_of s i < 10" using w i by (simp add: wf_blocks_def block_ok_def)
  have "wf_blocks s' (free_heads s - {i})"
    using wf_blocks_mono [OF w, of "free_heads s - {i}"] wf_blocks_cong [of _ s' s] pg by auto
  moreover have "block_ok s' i" using w i block_ok_cong [of s' i s] pg by (simp add: wf_blocks_def)
  ultimately show "in_hand s' i"
    using on_lists_unlink [OF l i o] w i unfolding in_hand_def heads
    by (auto simp: wf_blocks_def pg s'_def [symmetric])
  show "block s' i \<union> frames_besides s' i = free_frames s"
    using i by (auto simp: free_frames_def frames_besides_def heads pg)
  show "buddy_frame F s s'" unfolding s'_def by (rule buddy_frame_unlink [OF l i o])
qed

subsection \<open>Splitting a block\<close>

definition halve :: "mem \<Rightarrow> nat \<Rightarrow> nat \<Rightarrow> mem" where
  "halve s p b = (let s1 = upd_page p (\<lambda>p. p\<lparr>pp_order := pp_order p - 1\<rparr>) s
     in upd_page b (\<lambda>g. g\<lparr>pp_order := order_of s1 p, pp_free := True\<rparr>) s1)"

definition split_step :: "mem \<Rightarrow> nat \<Rightarrow> nat \<Rightarrow> mem" where
  "split_step s p b = (let s2 = halve s p b
     in upd_links (list_add_tail (FreeList (order_of s2 b)) (PPNode b)) s2)"

lemma split_step_hand:
  assumes h: "in_hand s p" and k: "order_of s p = Suc k" and b: "b = p XOR 2 ^ k"
  defines "s' \<equiv> split_step s p b"
  shows split_step_in_hand: "in_hand s' p" and split_step_order: "order_of s' p = k"
    and split_step_block: "block s p = block s' p \<union> block s' b"
    and split_step_heads: "free_heads s' - {p} = insert b (free_heads s - {p})"
    and split_step_others: "i \<in> free_heads s - {p} \<Longrightarrow> order_of s' i = order_of s i"
    and split_step_frame: "buddy_frame (block s p) s s'" and split_step_bound: "b < npages s"
proof -
  let ?H = "free_heads s - {p}" and ?s2 = "halve s p b"
  have pb: "b \<noteq> p" using b xor_exp_neq by simp
  have pd: "2 ^ Suc k dvd p" using in_hand_dvd [OF h] k by simp
  note kd = dvd_exp_SucD(1) [OF pd]
  have "\<not> bit p k" by (rule dvd_exp_SucD(2) [OF pd])
  then have bp: "b = p + 2 ^ k" using b by (simp add: xor_exp_nat)
  have uni: "chunk p (Suc k) = chunk p k \<union> chunk b k" and dis: "chunk p k \<inter> chunk b k = {}"
    by (auto simp: chunk_def bp)
  have bB: "b \<in> block s p" unfolding k uni by simp
  show bn: "b < npages s" using bB in_hand_bound [OF h] by (simp add: chunk_def)
  have bH: "b \<notin> ?H" using h bB own_block [of b] unfolding in_hand_def by blast
  show o: "order_of s' p = k" using pb k by (simp add: s'_def split_step_def halve_def Let_def upd_defs)
  have ob: "order_of s' b = k" using pb k by (simp add: s'_def split_step_def halve_def Let_def upd_defs)
  show blk: "block s p = block s' p \<union> block s' b" unfolding o ob k uni ..
  have oth: "order_of s' i = order_of s i" if "i \<in> ?H" for i
    using that bH by (auto simp: s'_def split_step_def halve_def Let_def upd_defs)
  then show "i \<in> ?H \<Longrightarrow> order_of s' i = order_of s i" .
  show heads: "free_heads s' - {p} = insert b ?H"
    using pb bn by (auto simp: free_heads_def s'_def split_step_def halve_def Let_def upd_defs)
  have np: "npages s' = npages s" and um: "unmarked (pages s' j) = unmarked (pages s j)" for j
    by (simp_all add: s'_def split_step_def halve_def Let_def upd_defs unmarked_def)
  note attrs = unmarked_attrs(1,2) [OF um]
  have av: "\<forall>j\<in>chunk p k \<union> chunk b k. pp_avail (pages s j) \<and> pp_ref (pages s j) = 0"
    using h unfolding in_hand_def block_ok_def k uni by simp
  have "b + 2 ^ k \<le> npages s" and "p + 2 ^ k \<le> npages s" and "2 ^ k dvd b" and "k < 10"
    using in_hand_bound [OF h] in_hand_order [OF h] k kd by (simp_all add: bp)
  then have pok: "block_ok s' p" and bok: "block_ok s' b"
    using kd av by (simp_all add: block_ok_def o ob np attrs)
  have dH: "block s' p \<inter> block s' i = {}" "block s' b \<inter> block s' i = {}" if "i \<in> ?H" for i
    using h blk that unfolding in_hand_def oth [OF that] by blast+
  have "b XOR 2 ^ k = p" using xor_exp_involutive [of p k] b by simp
  then have "wf_blocks s' (insert b ?H)"
    using h bok dH wf_blocks_cong [of ?H s' s, OF oth np um]
    by (intro wf_blocks_insert) (simp_all add: in_hand_def ob)
  moreover have o2: "order_of ?s2 b < 10"
    using in_hand_order [OF h] k pb by (simp add: halve_def Let_def upd_defs)
  have "on_lists ?s2 ?H = on_lists s ?H"
    using bH by (intro on_lists_cong) (auto simp: halve_def Let_def upd_defs)
  then have l2: "on_lists ?s2 ?H" using h by (simp add: in_hand_def)
  have "on_lists s' (insert b ?H)"
    using on_lists_link [OF l2 bH o2] by (simp add: s'_def split_step_def Let_def)
  ultimately show "in_hand s' p"
    using heads pok dH dis o ob by (auto simp: in_hand_def)
  define F where "F = block s p"
  have "buddy_frame F s ?s2"
    unfolding halve_def Let_def using bB
    by (intro buddy_frame_upd buddy_frame_refl) (simp_all add: F_def unmarked_def)
  from buddy_frame_trans [OF this buddy_frame_link [OF l2 bH o2, of F]]
  show "buddy_frame (block s p) s s'" by (simp add: F_def s'_def split_step_def Let_def)
qed

lemma buddy_split_step:
  assumes h: "in_hand s p" and k: "order_of s p = Suc k" and r: "req \<le> k"
  shows "buddy_split s p req = buddy_split (split_step s p (p XOR 2 ^ k)) p req"
  using split_step_bound [OF h k refl] k r
  by (subst buddy_split.simps) (simp add: split_step_def halve_def Let_def)

lemma buddy_split_in_hand:
  assumes "in_hand s p" and "req \<le> order_of s p"
  shows "\<exists>t. buddy_split s p req = Some (p, upd_page p (\<lambda>p. p\<lparr>pp_free := False\<rparr>) t) \<and> in_hand t p \<and>
    order_of t p = req \<and> buddy_frame (block s p) s t \<and>
    block t p \<union> frames_besides t p = block s p \<union> frames_besides s p"
  using assms
proof (induction "order_of s p" arbitrary: s)
  case 0
  then show ?case by (subst buddy_split.simps) auto
next
  case (Suc k)
  show ?case
  proof (cases "req = Suc k")
    case True
    then show ?thesis using Suc.prems Suc.hyps(2) by (subst buddy_split.simps) auto
  next
    case False
    let ?b = "p XOR 2 ^ k"
    let ?s' = "split_step s p ?b"
    note ss = split_step_hand [OF Suc.prems(1) Suc.hyps(2) [symmetric] refl]
    have r: "req \<le> k" using False Suc.prems Suc.hyps(2) by simp
    from Suc.hyps(1) [OF ss(2) [symmetric] ss(1)] r ss(2) obtain t where t:
      "buddy_split ?s' p req = Some (p, upd_page p (\<lambda>p. p\<lparr>pp_free := False\<rparr>) t)" "in_hand t p"
      "order_of t p = req" "buddy_frame (block ?s' p) ?s' t"
      "block t p \<union> frames_besides t p = block ?s' p \<union> frames_besides ?s' p" by auto
    have "frames_besides ?s' p = block ?s' ?b \<union> frames_besides s p"
      using ss(5) unfolding frames_besides_def ss(4) by auto
    moreover have "buddy_frame (block s p) s t"
      using buddy_frame_trans [OF ss(6) t(4)] ss(3) by blast
    ultimately show ?thesis
      using t buddy_split_step [OF Suc.prems(1) Suc.hyps(2) [symmetric] r] ss(3)
      by (intro exI [of _ t]) auto
  qed
qed

section \<open>Finding a block\<close>

lemma hand_over:
  assumes h: "in_hand t p"
  defines "s' \<equiv> upd_page p (\<lambda>p. p\<lparr>pp_free := False\<rparr>) t"
  shows hand_over_inv: "buddy_inv s'" and hand_over_free: "free_frames s' = frames_besides t p"
    and hand_over_disjoint: "block t p \<inter> frames_besides t p = {}"
    and hand_over_order: "order_of s' i = order_of t i"
proof -
  show o: "order_of s' i = order_of t i" for i by (simp add: s'_def upd_page_def)
  have heads: "free_heads s' = free_heads t - {p}"
    by (auto simp: s'_def upd_page_def free_heads_def)
  have "wf_blocks s' (free_heads t - {p})"
    using h by (subst wf_blocks_cong [of _ _ t]) (simp_all add: in_hand_def s'_def upd_page_def unmarked_def)
  moreover have "on_lists s' (free_heads t - {p})"
    using h by (subst on_lists_cong [of _ t]) (simp_all add: in_hand_def s'_def upd_page_def)
  ultimately show "buddy_inv s'" by (simp add: buddy_inv_def heads)
  show "free_frames s' = frames_besides t p" by (simp add: free_frames_def frames_besides_def heads o)
  show "block t p \<inter> frames_besides t p = {}" using h by (auto simp: in_hand_def frames_besides_def)
qed

definition found :: "mem \<Rightarrow> nat \<Rightarrow> nat \<Rightarrow> mem \<Rightarrow> bool" where
  "found s k p s' \<longleftrightarrow> buddy_inv s' \<and> order_of s' p = k \<and> \<not> pp_free (pages s' p) \<and> block_ok s' p \<and>
     chunk p k \<subseteq> free_frames s \<and> free_frames s' = free_frames s - chunk p k \<and>
     buddy_frame (free_frames s) s s'"

lemma find_at:
  assumes inv: "buddy_inv s" and i: "i \<in> free_heads s" and r: "req \<le> order_of s i"
  shows "\<exists>s'. buddy_split (upd_links (list_del (PPNode i)) s) i req = Some (i, s') \<and> found s req i s'"
proof -
  let ?s = "upd_links (list_del (PPNode i)) s"
  have "req \<le> order_of ?s i" using r by (simp add: upd_links_def)
  from buddy_split_in_hand [OF take_off_in_hand [OF inv i] this] obtain t where t:
    "buddy_split ?s i req = Some (i, upd_page i (\<lambda>p. p\<lparr>pp_free := False\<rparr>) t)" "in_hand t i"
    "order_of t i = req" "buddy_frame (block ?s i) ?s t"
    "block t i \<union> frames_besides t i = block ?s i \<union> frames_besides ?s i" by blast
  let ?t = "upd_page i (\<lambda>p. p\<lparr>pp_free := False\<rparr>) t"
  note all = t(5) [unfolded take_off_frames [OF inv i]]
  have "block ?s i \<subseteq> free_frames s" using take_off_frames [OF inv i] by blast
  then have "buddy_frame (free_frames s) s t"
    using buddy_frame_trans [OF take_off_frame [OF inv i] t(4)] by blast
  moreover have "i \<in> free_frames s" using i own_block unfolding free_frames_def by blast
  ultimately have "buddy_frame (free_frames s) s ?t"
    by (rule buddy_frame_upd) (simp add: unmarked_def)
  moreover have "free_frames ?t = free_frames s - chunk i req"
    using all hand_over_free [OF t(2)] hand_over_disjoint [OF t(2)] t(3) by blast
  moreover have "block_ok ?t i"
    using t(2) by (subst block_ok_cong [of _ _ t]) (simp_all add: in_hand_def upd_page_def unmarked_def)
  ultimately have "found s req i ?t"
    using hand_over_inv [OF t(2)] hand_over_order [OF t(2)] t(3) all
    by (auto simp: found_def upd_page_def)
  then show ?thesis using t(1) by blast
qed

lemma buddy_find_in_cases:
  assumes inv: "buddy_inv s" and os: "\<forall>k\<in>set ks. req \<le> k \<and> k < 10"
  shows "(buddy_find_in ks s req = Some (None, s) \<and> (\<forall>i\<in>free_heads s. order_of s i \<notin> set ks)) \<or>
    (\<exists>p s'. buddy_find_in ks s req = Some (Some p, s') \<and> found s req p s')"
  using os
proof (induction ks)
  case (Cons k ks)
  obtain xs where d: "dlist (plinks s) (FreeList k) (map PPNode xs)"
    and xs: "set xs = {i \<in> free_heads s. order_of s i = k}"
    using inv Cons.prems by (auto simp: buddy_inv_def on_lists_def list_of_order_def)
  show ?case
  proof (cases xs)
    case Nil
    then show ?thesis using Cons d xs by (auto simp: dlist_empty_iff [OF d])
  next
    case (Cons i ys)
    then have i: "i \<in> free_heads s" "order_of s i = k" using xs by auto
    then obtain s' where "buddy_split (upd_links (list_del (PPNode i)) s) i req = Some (i, s')"
      "found s req i s'" using find_at [OF inv i(1)] Cons.prems by auto
    then show ?thesis
      using dlist_empty_iff [OF d] list_pop_dlist [OF d] Cons by (simp add: upd_links_def)
  qed
qed simp

lemma buddy_find_cases:
  assumes "buddy_inv s" and "req < 10"
  obtains (none) "buddy_find s req = Some (None, s)" and "\<And>i. i \<in> free_heads s \<Longrightarrow> order_of s i < req"
    | (some) p s' where "buddy_find s req = Some (Some p, s')" and "found s req p s'"
proof -
  have lt: "order_of s i < 10" if "i \<in> free_heads s" for i
    using assms(1) that by (simp add: buddy_inv_def wf_blocks_def block_ok_def)
  have "\<forall>k\<in>set [req..<10]. req \<le> k \<and> k < 10" by simp
  from buddy_find_in_cases [OF assms(1) this] show ?thesis
    using lt none some unfolding buddy_find_def BUDDY_MAX_ORDER_def BUDDY_2M_PAGE_def
    by (auto simp: not_le)
qed

end
