(* ===== verification/Page_Alloc.thy ===== *)
theory Page_Alloc
  imports Buddy_Inv "HOL-Library.Multiset"
begin

text \<open>
  What the callers of \<^verbatim>\<open>kernel/mem/buddy.c\<close> may rely on: \<^verbatim>\<open>page_alloc\<close>, \<^verbatim>\<open>page_free\<close> and
  \<^verbatim>\<open>page_decref\<close> against the set of free frames, that allocation fails only when no aligned
  block of the requested size is free, and the counters of free pages.
\<close>

section \<open>What the invariant depends on\<close>

definition buddy_view :: "mem \<Rightarrow> mem \<Rightarrow> bool" where
  "buddy_view s s' \<longleftrightarrow> npages s' = npages s \<and>
     (\<forall>j. order_of s' j = order_of s j \<and> pp_free (pages s' j) = pp_free (pages s j) \<and>
          pp_avail (pages s' j) = pp_avail (pages s j) \<and> pp_ref (pages s' j) = pp_ref (pages s j)) \<and>
     (\<forall>n. buddy_node n \<longrightarrow> same_links (plinks s) (plinks s') n)"

lemma buddy_view_blocks:
  assumes "buddy_view s s'"
  shows buddy_view_heads: "free_heads s' = free_heads s"
    and buddy_view_wf: "wf_blocks s' H = wf_blocks s H"
    and buddy_view_ok: "block_ok s' i = block_ok s i"
    and buddy_view_lists: "on_lists s' H = on_lists s H"
proof -
  note v = assms [unfolded buddy_view_def]
  show "free_heads s' = free_heads s" using v by (simp add: free_heads_def)
  show ok: "block_ok s' i = block_ok s i" for i using v by (simp add: block_ok_def)
  show "wf_blocks s' H = wf_blocks s H" using v ok by (simp add: wf_blocks_def)
  have "dlist (plinks s') (FreeList k) (map PPNode xs) = dlist (plinks s) (FreeList k) (map PPNode xs)"
    for k xs using v by (intro dlist_same_links) (auto simp: buddy_node_def)
  then show "on_lists s' H = on_lists s H" using v by (simp add: on_lists_def list_of_order_def)
qed

lemma buddy_view_inv:
  assumes v: "buddy_view s s'"
  shows "buddy_inv s' = buddy_inv s" and "free_frames s' = free_frames s"
    and "in_hand s' p = in_hand s p" and "block s' i = block s i"
    and "frames_besides s' p = frames_besides s p"
proof -
  have o: "order_of s' i = order_of s i" for i using v by (simp add: buddy_view_def)
  show "buddy_inv s' = buddy_inv s" by (simp add: buddy_inv_def buddy_view_blocks [OF v])
  show "free_frames s' = free_frames s" by (simp add: free_frames_def buddy_view_blocks [OF v] o)
  show "in_hand s' p = in_hand s p" by (simp add: in_hand_def buddy_view_blocks [OF v] o)
  show "frames_besides s' p = frames_besides s p"
    by (simp add: frames_besides_def buddy_view_blocks [OF v] o)
  show "block s' i = block s i" by (simp add: o)
qed

lemma buddy_view_trans: "buddy_view s t \<Longrightarrow> buddy_view t u \<Longrightarrow> buddy_view s u"
  by (simp add: buddy_view_def same_links_def)

lemma buddy_view_same:
  "npages s' = npages s \<Longrightarrow> pages s' = pages s \<Longrightarrow> plinks s' = plinks s \<Longrightarrow> buddy_view s s'"
  by (simp add: buddy_view_def same_links_def)

section \<open>The two locks\<close>

definition idle_lock :: "spinlock \<Rightarrow> bool" where
  "idle_lock l \<longleftrightarrow> locked l = 0 \<and> rank l = 0"

definition released :: "spinlock \<Rightarrow> spinlock" where
  "released l = (forget_owner l)\<lparr>locked := 0\<rparr>"

definition locks_idle :: "mem \<Rightarrow> bool" where
  "locks_idle s \<longleftrightarrow> idle_lock (buddy_lock s) \<and> idle_lock (active_pages_lock s)"

lemma released_idle [simp]: "idle_lock l \<Longrightarrow> idle_lock (released l)"
  by (simp add: idle_lock_def released_def forget_owner_def)

lemma released_record [simp]: "released (record_owner c f n (l\<lparr>locked := v\<rparr>)) = released l"
  by (simp add: released_def record_owner_def forget_owner_def)

lemma idle_not_held [simp]: "idle_lock l \<Longrightarrow> \<not> spin_haslock c l"
  by (simp add: idle_lock_def spin_haslock_def holding_def)

lemma spin_lock_idle:
  "idle_lock l \<Longrightarrow> spin_lock c f n r l = Some (record_owner c f n (l\<lparr>locked := 1\<rparr>), r)"
  by (simp add: idle_lock_def lock_op_defs)

lemma spin_unlock_held:
  "idle_lock l \<Longrightarrow>
   spin_unlock c r (record_owner c f n (l\<lparr>locked := 1\<rparr>)) = Some (released l, r)"
  by (simp add: idle_lock_def released_def lock_op_defs)

lemma haslock_record [simp]: "spin_haslock c (record_owner c f n (l\<lparr>locked := 1\<rparr>))"
  by (simp add: lock_op_defs)

section \<open>Allocation\<close>

definition alloc_order :: "u32 \<Rightarrow> nat" where
  "alloc_order fl = (if fl AND ALLOC_HUGE \<noteq> 0 then 9 else 0)"

definition zeroed :: "nat \<Rightarrow> nat \<Rightarrow> (nat \<Rightarrow> nat \<Rightarrow> u64) \<Rightarrow> nat \<Rightarrow> nat \<Rightarrow> u64" where
  "zeroed p k fr = (\<lambda>f. if p \<le> f \<and> f < p + 2 ^ k then (\<lambda>_. 0) else fr f)"

definition handed_out :: "u32 \<Rightarrow> nat \<Rightarrow> mem \<Rightarrow> spinlock \<Rightarrow> mem" where
  "handed_out fl p s l =
     (upd_page p (\<lambda>p. p\<lparr>virt_addr := 0, powner := None\<rparr>) s)
       \<lparr>frames := (if fl AND ALLOC_ZERO \<noteq> 0 then zeroed p (alloc_order fl) (frames s) else frames s),
        buddy_lock := l\<rparr>"

lemma buddy_view_upd_attrs:
  "buddy_view s (upd_page p (\<lambda>p. p\<lparr>virt_addr := v, powner := w\<rparr>) s)"
  by (simp add: buddy_view_def upd_page_def same_links_def)

lemma buddy_view_handed_out: "buddy_view s (handed_out fl p s l)"
  unfolding handed_out_def
  by (rule buddy_view_trans [OF buddy_view_upd_attrs [where v = 0 and w = None]])
    (rule buddy_view_same; simp)

lemma buddy_view_lock [simp]: "buddy_view s (s\<lparr>buddy_lock := l, cpu_rank := r\<rparr>)"
  by (simp add: buddy_view_same)

lemma found_bound: "found s k p s' \<Longrightarrow> p < npages s'"
proof -
  assume "found s k p s'"
  then have "p + 2 ^ k \<le> npages s'" by (auto simp: found_def block_ok_def)
  moreover have "(0 :: nat) < 2 ^ k" by simp
  ultimately show ?thesis by linarith
qed

lemma page_alloc_cases:
  fixes fl :: u32
  assumes inv: "buddy_inv s" and idle: "idle_lock (buddy_lock s)"
  defines "k \<equiv> alloc_order fl" and "l \<equiv> released (buddy_lock s)"
  obtains (none) "page_alloc fl s = Some (None, s\<lparr>buddy_lock := l\<rparr>)"
      and "\<And>i. i \<in> free_heads s \<Longrightarrow> order_of s i < k"
    | (some) p s1 where "page_alloc fl s = Some (Some p, handed_out fl p s1 l)"
      and "found (s\<lparr>buddy_lock := record_owner (cpu s) ''buddy.c'' 248 (buddy_lock s\<lparr>locked := 1\<rparr>)\<rparr>) k p s1"
proof -
  let ?s = "s\<lparr>buddy_lock := record_owner (cpu s) ''buddy.c'' 248 (buddy_lock s\<lparr>locked := 1\<rparr>)\<rparr>"
  have v: "buddy_view s ?s" by (simp add: buddy_view_same)
  have k10: "k < 10" by (simp add: k_def alloc_order_def)
  have lk: "lock_buddy 248 s = Some ?s" using idle by (simp add: lock_buddy_def spin_lock_idle)
  have ko: "(if fl AND ALLOC_HUGE \<noteq> 0 then BUDDY_2M_PAGE else 0) = k"
    by (simp add: k_def alloc_order_def BUDDY_2M_PAGE_def)
  have go: "page_alloc fl s = do {
      (page, t) \<leftarrow> buddy_find ?s k;
      case page of
        None \<Rightarrow> do { t \<leftarrow> (if spin_haslock (cpu t) (buddy_lock t) then unlock_buddy t else Some t);
                   Some (None, t) }
      | Some page \<Rightarrow> do {
          t \<leftarrow> (if fl AND ALLOC_ZERO \<noteq> 0 then zero_chunk page k t else Some t);
          let t = upd_page page (\<lambda>p. p\<lparr>virt_addr := 0, powner := None\<rparr>) t;
          t \<leftarrow> (if spin_haslock (cpu t) (buddy_lock t) then unlock_buddy t else Some t);
          Some (Some page, t) } }"
    using idle k10 unfolding page_alloc_def Let_def ko
    by (simp add: lk BUDDY_MAX_ORDER_def BUDDY_2M_PAGE_def)
  have "buddy_inv ?s" using inv buddy_view_inv(1) [OF v] by simp
  from this k10 show ?thesis
  proof (cases rule: buddy_find_cases)
    case none
    then have "page_alloc fl s = Some (None, s\<lparr>buddy_lock := l\<rparr>)"
      using idle unfolding go by (simp add: unlock_buddy_def spin_unlock_held l_def)
    moreover have "order_of s i < k" if "i \<in> free_heads s" for i
      using none(2) [of i] that buddy_view_heads [OF v] by simp
    ultimately show ?thesis by (rule that(1))
  next
    case (some p s1)
    have "buddy_lock s1 = buddy_lock ?s" "cpu s1 = cpu s" "cpu_rank s1 = cpu_rank s"
      using some(2) by (simp_all add: found_def buddy_frame_def)
    then have "page_alloc fl s = Some (Some p, handed_out fl p s1 l)"
      using idle some(1) found_bound [OF some(2)] unfolding go
      by (auto simp: unlock_buddy_def spin_unlock_held l_def zero_chunk_def handed_out_def
          zeroed_def upd_page_def k_def)
    then show ?thesis using some(2) that(2) by simp
  qed
qed

subsection \<open>Free memory is coalesced\<close>

lemma free_block_cover:
  assumes inv: "buddy_inv s" and "k \<le> 9" and "2 ^ k dvd i" and "chunk i k \<subseteq> free_frames s"
  shows "\<exists>h\<in>free_heads s. chunk i k \<subseteq> block s h"
  using assms(2-)
proof (induction k arbitrary: i)
  case 0
  then show ?case by (auto simp: free_frames_def chunk_def)
next
  case (Suc k)
  let ?j = "i + 2 ^ k"
  have ih: "\<exists>h\<in>free_heads s. chunk a k \<subseteq> block s h \<and> k \<le> order_of s h" if "a = i \<or> a = ?j" for a
  proof -
    have "2 ^ k dvd a" using that dvd_exp_SucD(1) [OF Suc.prems(2)] by auto
    moreover have "chunk a k \<subseteq> chunk i (Suc k)" using that by (auto simp: chunk_def)
    then have "chunk a k \<subseteq> free_frames s" using Suc.prems(3) by blast
    ultimately obtain h where h: "h \<in> free_heads s" "chunk a k \<subseteq> block s h"
      using Suc.IH [of a] Suc.prems(1) by auto
    have "card (chunk a k) \<le> card (block s h)" using h(2) by (intro card_mono) (simp add: chunk_def)
    then show ?thesis using h by (auto simp: chunk_def)
  qed
  obtain h1 h2 where h: "h1 \<in> free_heads s" "chunk i k \<subseteq> block s h1" "k \<le> order_of s h1"
    "h2 \<in> free_heads s" "chunk ?j k \<subseteq> block s h2" "k \<le> order_of s h2" using ih [of i] ih [of ?j] by auto
  have wf: "wf_blocks s (free_heads s)" using inv by (simp add: buddy_inv_def)
  have nested: "chunk i (Suc k) \<subseteq> block s h" if "h \<in> free_heads s" "Suc k \<le> order_of s h"
      "chunk a k \<subseteq> block s h" "a = i \<or> a = ?j" for h a
  proof (rule chunk_nested [OF that(2) Suc.prems(2)])
    show "2 ^ order_of s h dvd h" using wf that(1) by (simp add: wf_blocks_def block_ok_def)
    have "a \<in> chunk i (Suc k)" using that(4) by (auto simp: chunk_def)
    then show "chunk i (Suc k) \<inter> block s h \<noteq> {}" using that(3) own_block by blast
  qed
  show ?case
  proof (rule ccontr)
    assume no: "\<not> ?case"
    have "\<not> Suc k \<le> order_of s h1" using no h(1,2) nested [of h1 i] by blast
    moreover have "\<not> Suc k \<le> order_of s h2" using no h(4,5) nested [of h2 ?j] by blast
    ultimately have o: "order_of s h1 = k" "order_of s h2 = k" using h(3,6) by simp_all
    then have "h1 = i" "h2 = ?j" using h(2,5) by (simp_all add: chunk_def)
    moreover have "i XOR 2 ^ k = ?j" using dvd_exp_SucD(2) [OF Suc.prems(2)] by (simp add: xor_exp_nat)
    moreover have "k < 9" using Suc.prems(1) by simp
    ultimately show False using wf h(1,4) o unfolding wf_blocks_def by metis
  qed
qed

lemma no_block_iff:
  assumes inv: "buddy_inv s" and k: "k \<le> 9"
  shows "(\<forall>h\<in>free_heads s. order_of s h < k) \<longleftrightarrow> \<not> (\<exists>i. 2 ^ k dvd i \<and> chunk i k \<subseteq> free_frames s)"
proof
  assume small: "\<forall>h\<in>free_heads s. order_of s h < k"
  show "\<not> (\<exists>i. 2 ^ k dvd i \<and> chunk i k \<subseteq> free_frames s)"
  proof
    assume "\<exists>i. 2 ^ k dvd i \<and> chunk i k \<subseteq> free_frames s"
    then obtain i h where h: "h \<in> free_heads s" "chunk i k \<subseteq> block s h"
      using free_block_cover [OF inv k] by blast
    have "card (chunk i k) \<le> card (block s h)" using h(2) by (intro card_mono) (simp add: chunk_def)
    then show False using small h(1) by (force simp: chunk_def)
  qed
next
  assume none: "\<not> (\<exists>i. 2 ^ k dvd i \<and> chunk i k \<subseteq> free_frames s)"
  show "\<forall>h\<in>free_heads s. order_of s h < k"
  proof (rule ballI, rule ccontr)
    fix h
    assume h: "h \<in> free_heads s" "\<not> order_of s h < k"
    have "2 ^ order_of s h dvd h" using inv h(1) by (simp add: buddy_inv_def wf_blocks_def block_ok_def)
    then have "2 ^ k dvd h" using h(2) by (meson dvd_trans le_imp_power_dvd not_less)
    moreover have "chunk h k \<subseteq> block s h" using h(2) power_increasing [of k "order_of s h" "2 :: nat"]
      by (auto simp: chunk_def)
    then have "chunk h k \<subseteq> free_frames s" using h(1) unfolding free_frames_def by blast
    ultimately show False using none by blast
  qed
qed

section \<open>Freeing\<close>

text \<open>
  A block a caller owns: well formed, not marked free, outside the free memory.  The tracking
  list: \<open>active_node\<close> of every page is on \<open>active_pages\<close> or linked to itself, which is how
  \<^verbatim>\<open>page_free\<close> recognises an untracked page.
\<close>

definition owned :: "mem \<Rightarrow> nat \<Rightarrow> bool" where
  "owned s p \<longleftrightarrow> block_ok s p \<and> \<not> pp_free (pages s p) \<and> block s p \<inter> free_frames s = {}"

definition tracked :: "mem \<Rightarrow> nat list \<Rightarrow> bool" where
  "tracked s as \<longleftrightarrow> dlist (plinks s) ActivePages (map ActiveNode as) \<and>
     (\<forall>i. i \<notin> set as \<longrightarrow> lnext (plinks s) (ActiveNode i) = ActiveNode i)"

lemma tracked_cong:
  assumes "\<And>n. \<not> buddy_node n \<Longrightarrow> same_links (plinks s) (plinks s') n"
  shows "tracked s' as = tracked s as"
proof -
  have "dlist (plinks s') ActivePages (map ActiveNode as) = dlist (plinks s) ActivePages (map ActiveNode as)"
    using assms by (intro dlist_same_links) (auto simp: buddy_node_def)
  moreover have "lnext (plinks s') (ActiveNode i) = lnext (plinks s) (ActiveNode i)" for i
    using assms [of "ActiveNode i"] by (simp add: same_links_def buddy_node_def)
  ultimately show ?thesis by (simp add: tracked_def)
qed

lemma tracked_frame: "buddy_frame F s s' \<Longrightarrow> tracked s' as = tracked s as"
  by (rule tracked_cong) (simp add: buddy_frame_def)

definition untrack :: "nat \<Rightarrow> mem \<Rightarrow> mem" where
  "untrack p s = (if lnext (plinks s) (ActiveNode p) \<noteq> ActiveNode p
                  then upd_links (list_del (ActiveNode p)) s else s)"

lemma untrack_tracked:
  assumes t: "tracked s as"
  shows untrack_view: "buddy_view s (untrack p s)"
    and untrack_removes: "tracked (untrack p s) (remove1 p as)"
proof -
  have d: "dlist (plinks s) ActivePages (map ActiveNode as)" using t by (simp add: tracked_def)
  have dis: "distinct as" using dlist_distinct [OF d] by (simp add: distinct_map)
  have on: "lnext (plinks s) (ActiveNode p) \<noteq> ActiveNode p \<longleftrightarrow> p \<in> set as"
    using t dlist_linked [OF d] by (auto simp: tracked_def)
  have "buddy_view s (untrack p s) \<and> tracked (untrack p s) (remove1 p as)"
  proof (cases "p \<in> set as")
    case False
    then show ?thesis using t on by (simp add: untrack_def remove1_idem buddy_view_same)
  next
    case True
    then have x: "ActiveNode p \<in> set (map ActiveNode as)" by simp
    have out: "same_links (plinks s) (list_del (ActiveNode p) (plinks s)) n"
      if "n \<notin> set (ActivePages # map ActiveNode as)" for n
      using list_del_outside [OF d x that] .
    have "remove1 (ActiveNode p) (map ActiveNode as) = map ActiveNode (remove1 p as)"
      by (rule remove1_map) (simp add: inj_def)
    then have d': "dlist (list_del (ActiveNode p) (plinks s)) ActivePages (map ActiveNode (remove1 p as))"
      using dlist_del_remove1 [OF d x] by simp
    obtain us vs where "map ActiveNode as = us @ ActiveNode p # vs" using x by (meson split_list)
    then have self: "lnext (list_del (ActiveNode p) (plinks s)) (ActiveNode p) = ActiveNode p"
      using dlist_del_self d dlist_Nil_iff by metis
    have "lnext (list_del (ActiveNode p) (plinks s)) (ActiveNode i) = ActiveNode i"
      if "i \<notin> set (remove1 p as)" for i
      using that self t out [of "ActiveNode i"] dis
      by (cases "i = p") (auto simp: tracked_def same_links_def)
    then have "tracked (untrack p s) (remove1 p as)"
      using True on d' by (simp add: tracked_def untrack_def upd_links_def)
    moreover have "same_links (plinks s) (list_del (ActiveNode p) (plinks s)) n" if "buddy_node n" for n
      using that by (intro out) (auto simp: buddy_node_def)
    ultimately show ?thesis using True on by (simp add: buddy_view_def untrack_def upd_links_def)
  qed
  then show "buddy_view s (untrack p s)" "tracked (untrack p s) (remove1 p as)" by blast+
qed

definition freed :: "mem \<Rightarrow> nat \<Rightarrow> nat list \<Rightarrow> mem \<Rightarrow> bool" where
  "freed s p as s' \<longleftrightarrow> buddy_inv s' \<and> free_frames s' = free_frames s \<union> block s p \<and>
     locks_idle s' \<and> tracked s' (remove1 p as) \<and>
     npages s' = npages s \<and> frames s' = frames s \<and> cpu s' = cpu s \<and> cpu_rank s' = cpu_rank s \<and>
     (\<forall>i. i \<notin> free_frames s' \<longrightarrow> pages s' i = pages s i) \<and>
     (\<forall>i. unmarked (pages s' i) = unmarked (pages s i))"

lemma untrack_fields [simp]:
  "pages (untrack p s) = pages s" "npages (untrack p s) = npages s" "frames (untrack p s) = frames s"
  "buddy_lock (untrack p s) = buddy_lock s" "active_pages_lock (untrack p s) = active_pages_lock s"
  "cpu (untrack p s) = cpu s" "cpu_rank (untrack p s) = cpu_rank s"
  by (simp_all add: untrack_def upd_links_def)

lemma owned_in_hand:
  assumes "buddy_inv s" and "owned s p"
  shows "in_hand s p" and "frames_besides s p = free_frames s"
proof -
  have "p \<notin> free_heads s" using assms(2) by (simp add: owned_def free_heads_def)
  then have H: "free_heads s - {p} = free_heads s" by simp
  show "in_hand s p" unfolding in_hand_def H using assms
    by (auto simp: buddy_inv_def owned_def free_frames_def)
  show "frames_besides s p = free_frames s" unfolding frames_besides_def free_frames_def H ..
qed

lemma merge_and_put_back:
  assumes "buddy_inv s" and "owned s p"
  shows "\<exists>q s'. buddy_merge s p = Some (q, s') \<and> buddy_inv (put_back s' q) \<and>
    free_frames (put_back s' q) = free_frames s \<union> block s p \<and>
    buddy_frame (free_frames s \<union> block s p) s (put_back s' q)"
proof -
  note h = owned_in_hand [OF assms]
  from buddy_merge_in_hand [OF h(1)] obtain q s' where m: "buddy_merge s p = Some (q, s')"
    "in_hand s' q" "no_free_buddy s' q" "block s p \<subseteq> block s' q" "buddy_frame (block s' q) s s'"
    "block s' q \<union> frames_besides s' q = block s p \<union> frames_besides s p" by blast
  have sub: "block s' q \<subseteq> free_frames s \<union> block s p" using m(6) h(2) by blast
  then have "q \<in> free_frames s \<union> block s p" using own_block by blast
  from buddy_frame_trans [OF m(5) put_back_frame [OF m(2) this] sub]
  have "buddy_frame (free_frames s \<union> block s p) s (put_back s' q)" by simp
  then show ?thesis using m(1,6) h(2) put_back_inv [OF m(2,3)] by auto
qed

lemma page_free_freed:
  assumes inv: "buddy_inv s" and own: "owned s p" and idle: "locks_idle s" and tr: "tracked s as"
  shows "\<exists>s'. page_free p s = Some s' \<and> freed s p as s'"
proof -
  let ?b = "record_owner (cpu s) ''buddy.c'' 301 (buddy_lock s\<lparr>locked := 1\<rparr>)"
  let ?a = "record_owner (cpu s) ''buddy.c'' 324 (active_pages_lock s\<lparr>locked := 1\<rparr>)"
  define s0 where "s0 = s\<lparr>buddy_lock := ?b, active_pages_lock := ?a\<rparr>"
  define s2 where "s2 = (untrack p s0)\<lparr>active_pages_lock := released (active_pages_lock s)\<rparr>"
  have t0: "tracked s0 as" using tr by (simp add: s0_def tracked_def)
  have v: "buddy_view s s2"
    unfolding s2_def
    by (rule buddy_view_trans [OF buddy_view_trans [OF _ untrack_view [OF t0, of p]]])
      (simp_all add: buddy_view_same s0_def)
  have t2: "tracked s2 (remove1 p as)"
    using untrack_removes [OF t0, of p] by (simp add: s2_def tracked_def)
  have "buddy_inv s2" and own2: "owned s2 p" and ff: "free_frames s2 = free_frames s" and bl: "block s2 p = block s p"
    using inv own buddy_view_inv [OF v] buddy_view_ok [OF v] v by (auto simp: owned_def buddy_view_def)
  from merge_and_put_back [OF this(1,2)] obtain q s3 where m: "buddy_merge s2 p = Some (q, s3)"
    and pb: "buddy_inv (put_back s3 q)" "free_frames (put_back s3 q) = free_frames s \<union> block s p"
    "buddy_frame (free_frames s \<union> block s p) s2 (put_back s3 q)"
    unfolding ff bl by blast
  let ?s' = "(put_back s3 q)\<lparr>buddy_lock := released (buddy_lock s)\<rparr>"
  have "lock_buddy 301 s = Some (s\<lparr>buddy_lock := ?b\<rparr>)"
    and "lock_active 324 (s\<lparr>buddy_lock := ?b\<rparr>) = Some s0"
    and "unlock_active (untrack p s0) = Some s2"
    using idle by (simp_all add: locks_idle_def lock_buddy_def lock_active_def unlock_active_def
        spin_lock_idle spin_unlock_held s0_def s2_def)
  moreover have "unlock_buddy (put_back s3 q) = Some ?s'"
    using idle pb(3) by (simp add: unlock_buddy_def buddy_frame_def s2_def s0_def locks_idle_def spin_unlock_held)
  ultimately have "page_free p s = Some ?s'"
    using m by (simp add: page_free_def untrack_def [symmetric] put_back_def Let_def)
  moreover have "buddy_view (put_back s3 q) ?s'" by (simp add: buddy_view_same)
  note v' = buddy_view_inv [OF this]
  have "tracked ?s' (remove1 p as)"
    using tracked_frame [OF pb(3)] t2 by (simp add: tracked_def)
  then have "freed s p as ?s'"
    using pb v' idle by (auto simp: freed_def buddy_frame_def s2_def s0_def locks_idle_def)
  ultimately show ?thesis by blast
qed

section \<open>The allocator as its callers see it\<close>

definition allocator_ok :: "mem \<Rightarrow> bool" where
  "allocator_ok s \<longleftrightarrow> buddy_inv s \<and> locks_idle s \<and> (\<exists>as. tracked s as)"

definition owns :: "mem \<Rightarrow> nat \<Rightarrow> nat set \<Rightarrow> bool" where
  "owns s p B \<longleftrightarrow> owned s p \<and> B = block s p"

lemma owned_elsewhere:
  assumes own: "owned s q" and np: "npages s' = npages s"
    and pg: "\<And>i. i \<in> block s q \<Longrightarrow> pages s' i = pages s i"
    and dis: "block s q \<inter> free_frames s' = {}"
  shows "owned s' q" and "block s' q = block s q"
proof -
  have q: "pages s' q = pages s q" by (rule pg) simp
  then show b: "block s' q = block s q" by simp
  show "owned s' q" using own dis pg unfolding owned_def block_ok_def b q np by auto
qed

lemma page_alloc_outcome:
  fixes fl :: u32
  assumes ok: "allocator_ok s"
  defines "k \<equiv> alloc_order fl" and "l \<equiv> released (buddy_lock s)"
    and "t \<equiv> s\<lparr>buddy_lock := record_owner (cpu s) ''buddy.c'' 248 (buddy_lock s\<lparr>locked := 1\<rparr>)\<rparr>"
  shows "(\<exists>r s'. page_alloc fl s = Some (r, s') \<and> allocator_ok s') \<and>
    (\<forall>s'. page_alloc fl s = Some (None, s') \<longrightarrow> s' = s\<lparr>buddy_lock := l\<rparr> \<and>
       (\<forall>h\<in>free_heads s. order_of s h < k)) \<and>
    (\<forall>p s'. page_alloc fl s = Some (Some p, s') \<longrightarrow> (\<exists>s1. s' = handed_out fl p s1 l \<and> found t k p s1))"
proof -
  have inv: "buddy_inv s" and idle: "idle_lock (buddy_lock s)" and aidle: "idle_lock (active_pages_lock s)"
    and tr: "\<exists>as. tracked s as" using ok by (auto simp: allocator_ok_def locks_idle_def)
  have v: "buddy_view s t" by (simp add: buddy_view_same t_def)
  from inv idle show ?thesis
  proof (cases rule: page_alloc_cases [where fl = fl])
    case none
    have "buddy_view s (s\<lparr>buddy_lock := l\<rparr>)" by (simp add: buddy_view_same)
    then have "allocator_ok (s\<lparr>buddy_lock := l\<rparr>)"
      using inv idle aidle tr buddy_view_inv(1)
      by (auto simp: allocator_ok_def locks_idle_def tracked_def l_def)
    then show ?thesis using none by (simp add: k_def l_def)
  next
    case (some p s1)
    let ?t = "handed_out fl p s1 l"
    have fr: "buddy_frame (free_frames s) t s1" and "buddy_inv s1"
      using some(2) buddy_view_inv(2) [OF v] by (auto simp: found_def t_def)
    then have "buddy_inv ?t" "active_pages_lock ?t = active_pages_lock s" "buddy_lock ?t = l"
      using buddy_view_inv(1) [OF buddy_view_handed_out]
      by (auto simp: handed_out_def buddy_frame_def upd_page_def t_def)
    moreover have "\<exists>as. tracked ?t as"
      using tr tracked_frame [OF fr] by (auto simp: tracked_def handed_out_def upd_page_def t_def)
    ultimately have "allocator_ok ?t" using idle aidle by (simp add: allocator_ok_def locks_idle_def l_def)
    then show ?thesis using some by (auto simp: k_def l_def t_def)
  qed
qed

lemma page_alloc_returns:
  "allocator_ok s \<Longrightarrow> \<exists>r s'. page_alloc fl s = Some (r, s') \<and> allocator_ok s'"
  using page_alloc_outcome by blast

lemma page_alloc_keeps_ok:
  "allocator_ok s \<Longrightarrow> page_alloc fl s = Some (r, s') \<Longrightarrow> allocator_ok s'"
  using page_alloc_returns [of s fl] by auto

lemma page_alloc_none:
  assumes "allocator_ok s" and "page_alloc fl s = Some (None, s')"
  shows "s' = s\<lparr>buddy_lock := released (buddy_lock s)\<rparr>"
    and "\<forall>h\<in>free_heads s. order_of s h < alloc_order fl"
  using page_alloc_outcome [OF assms(1), of fl] assms(2) by blast+

definition fresh_block :: "u32 \<Rightarrow> mem \<Rightarrow> nat \<Rightarrow> mem \<Rightarrow> bool" where
  "fresh_block fl s p s' \<longleftrightarrow>
     owned s' p \<and> order_of s' p = alloc_order fl \<and> virt_addr (pages s' p) = 0 \<and> powner (pages s' p) = None \<and>
     frames s' = (if fl AND ALLOC_ZERO \<noteq> 0 then zeroed p (alloc_order fl) (frames s) else frames s) \<and>
     npages s' = npages s \<and> cpu s' = cpu s \<and> (\<forall>i. i \<notin> free_frames s \<longrightarrow> pages s' i = pages s i)"

lemma page_alloc_some:
  assumes ok: "allocator_ok s" and r: "page_alloc fl s = Some (Some p, s')"
  shows "chunk p (alloc_order fl) \<subseteq> free_frames s"
    and "free_frames s' = free_frames s - chunk p (alloc_order fl)"
    and "fresh_block fl s p s'"
proof -
  let ?k = "alloc_order fl" and ?l = "released (buddy_lock s)"
  let ?s = "s\<lparr>buddy_lock := record_owner (cpu s) ''buddy.c'' 248 (buddy_lock s\<lparr>locked := 1\<rparr>)\<rparr>"
  have "buddy_view s ?s" by (simp add: buddy_view_same)
  note ff = buddy_view_inv(2) [OF this]
  from page_alloc_outcome [OF ok, of fl] r obtain s1 where
    s': "s' = handed_out fl p s1 ?l" and f: "found ?s ?k p s1" by blast
  have v1: "buddy_view s1 s'" unfolding s' by (rule buddy_view_handed_out)
  have pin: "p \<in> free_frames s" using f own_block [of p ?k] unfolding found_def ff by blast
  show "chunk p ?k \<subseteq> free_frames s" and "free_frames s' = free_frames s - chunk p ?k"
    using f buddy_view_inv(2) [OF v1] by (auto simp: found_def ff)
  moreover have "owned s' p"
    using f buddy_view_inv [OF v1] buddy_view_ok [OF v1] v1 unfolding owned_def found_def
    by (auto simp: buddy_view_def)
  moreover have "order_of s' p = ?k" using f v1 by (auto simp: found_def buddy_view_def)
  moreover have "\<forall>i. i \<notin> free_frames s \<longrightarrow> pages s' i = pages s i" "npages s' = npages s" "frames s1 = frames s"
      "cpu s1 = cpu s"
    using f pin by (auto simp: found_def buddy_frame_def s' handed_out_def upd_page_def ff)
  ultimately show "fresh_block fl s p s'"
    by (simp add: fresh_block_def s' handed_out_def upd_page_def)
qed

lemma page_alloc_keeps_owned:
  assumes ok: "allocator_ok s" and own: "owned s q" and r: "page_alloc fl s = Some (x, s')"
  shows "owned s' q" and "block s' q = block s q"
proof -
  have "npages s' = npages s \<and> (\<forall>i. i \<notin> free_frames s \<longrightarrow> pages s' i = pages s i) \<and> free_frames s' \<subseteq> free_frames s"
  proof (cases x)
    case None
    then have "s' = s\<lparr>buddy_lock := released (buddy_lock s)\<rparr>" using page_alloc_none [OF ok] r by blast
    moreover have "buddy_view s (s\<lparr>buddy_lock := released (buddy_lock s)\<rparr>)" by (simp add: buddy_view_same)
    ultimately show ?thesis using buddy_view_inv(2) by simp
  next
    case (Some p)
    then show ?thesis using page_alloc_some [OF ok] r by (auto simp: fresh_block_def)
  qed
  then have n: "npages s' = npages s" and "i \<in> block s q \<Longrightarrow> pages s' i = pages s i"
    and "block s q \<inter> free_frames s' = {}" for i
    using own unfolding owned_def by blast+
  from owned_elsewhere [OF own this] show "owned s' q" "block s' q = block s q" by simp_all
qed

lemma page_free_ok:
  assumes "allocator_ok s" and "owned s p"
  shows "\<exists>s' as. page_free p s = Some s' \<and> freed s p as s' \<and> allocator_ok s'"
proof -
  obtain as where a: "tracked s as" using assms(1) by (auto simp: allocator_ok_def)
  have "buddy_inv s" "locks_idle s" using assms(1) by (auto simp: allocator_ok_def)
  from page_free_freed [OF this(1) assms(2) this(2) a] obtain s' where
    "page_free p s = Some s'" "freed s p as s'" by blast
  moreover from this have "allocator_ok s'" by (auto simp: allocator_ok_def freed_def)
  ultimately show ?thesis by blast
qed

lemma page_free_keeps_owned:
  assumes r: "freed s p as s'" and own: "owned s q" and d: "block s q \<inter> block s p = {}"
  shows "owned s' q" and "block s' q = block s q"
proof -
  have "npages s' = npages s" and "i \<in> block s q \<Longrightarrow> pages s' i = pages s i"
    and "block s q \<inter> free_frames s' = {}" for i
    using r own d unfolding owned_def freed_def by blast+
  from owned_elsewhere [OF own this] show "owned s' q" "block s' q = block s q" by simp_all
qed

text \<open>
  The contract of a block allocator, over an abstract state: what is free, who owns which
  frames, and that neither operation disturbs the blocks of other owners.
\<close>

locale block_allocator =
  fixes inv :: "'s \<Rightarrow> bool" and free :: "'s \<Rightarrow> nat set" and has :: "'s \<Rightarrow> nat \<Rightarrow> nat set \<Rightarrow> bool"
    and alloc :: "'s \<Rightarrow> (nat option \<times> 's) option" and release :: "nat \<Rightarrow> 's \<Rightarrow> 's option"
  assumes alloc_returns: "inv s \<Longrightarrow> \<exists>r s'. alloc s = Some (r, s') \<and> inv s'"
    and alloc_some: "inv s \<Longrightarrow> alloc s = Some (Some p, s') \<Longrightarrow>
      \<exists>B. has s' p B \<and> B \<noteq> {} \<and> B \<subseteq> free s \<and> free s' = free s - B"
    and alloc_none: "inv s \<Longrightarrow> alloc s = Some (None, s') \<Longrightarrow> free s' = free s"
    and alloc_keeps: "inv s \<Longrightarrow> has s q C \<Longrightarrow> alloc s = Some (r, s') \<Longrightarrow> has s' q C"
    and has_disjoint: "has s p B \<Longrightarrow> B \<inter> free s = {}"
    and has_unique: "has s p B \<Longrightarrow> has s p C \<Longrightarrow> B = C"
    and release_frees: "inv s \<Longrightarrow> has s p B \<Longrightarrow>
      \<exists>s'. release p s = Some s' \<and> inv s' \<and> free s' = free s \<union> B"
    and release_keeps: "inv s \<Longrightarrow> has s p B \<Longrightarrow> release p s = Some s' \<Longrightarrow> has s q C \<Longrightarrow>
      C \<inter> B = {} \<Longrightarrow> has s' q C"

text \<open>A run of allocations that stops at the first failure, and a run of releases.\<close>

primrec alloc_run :: "('s \<Rightarrow> (nat option \<times> 's) option) \<Rightarrow> nat \<Rightarrow> 's \<Rightarrow> (nat list \<times> 's) option" where
  "alloc_run alloc 0 s = Some ([], s)"
| "alloc_run alloc (Suc n) s =
     do { (r, s) \<leftarrow> alloc s;
          case r of None \<Rightarrow> Some ([], s)
          | Some p \<Rightarrow> do { (ps, s) \<leftarrow> alloc_run alloc n s; Some (p # ps, s) } }"

primrec release_run :: "(nat \<Rightarrow> 's \<Rightarrow> 's option) \<Rightarrow> nat list \<Rightarrow> 's \<Rightarrow> 's option" where
  "release_run release [] s = Some s"
| "release_run release (p # ps) s = do { s \<leftarrow> release p s; release_run release ps s }"

context block_allocator
begin

definition has_all :: "'s \<Rightarrow> (nat \<times> nat set) list \<Rightarrow> bool" where
  "has_all s bs \<longleftrightarrow> distinct (map fst bs) \<and> (\<forall>(p, B) \<in> set bs. has s p B) \<and>
     (\<forall>(p, B) \<in> set bs. \<forall>(q, C) \<in> set bs. p \<noteq> q \<longrightarrow> B \<inter> C = {})"

lemma has_all_Cons:
  "has_all s ((p, B) # bs) \<longleftrightarrow>
     p \<notin> fst ` set bs \<and> has s p B \<and> (\<forall>(q, C) \<in> set bs. C \<inter> B = {}) \<and> has_all s bs"
proof -
  have "fst q \<noteq> p" if "p \<notin> fst ` set bs" "q \<in> set bs" for q using that by force
  then show ?thesis unfolding has_all_def by (simp add: split_beta Int_commute) blast
qed

lemma alloc_keeps_inv: "inv s \<Longrightarrow> alloc s = Some (r, s') \<Longrightarrow> inv s'"
  using alloc_returns [of s] by auto

lemma alloc_run_blocks:
  "inv s \<Longrightarrow> \<exists>ps s' bs. alloc_run alloc n s = Some (ps, s') \<and> inv s' \<and> map fst bs = ps \<and> has_all s' bs \<and>
     (\<Union>(p, B) \<in> set bs. B) = free s - free s' \<and> free s' \<subseteq> free s \<and> (\<forall>q C. has s q C \<longrightarrow> has s' q C)"
proof (induction n arbitrary: s)
  case 0
  then show ?case by (simp add: has_all_def)
next
  case (Suc n)
  obtain r s1 where a: "alloc s = Some (r, s1)" "inv s1" using alloc_returns Suc.prems by blast
  have keep: "has s q C \<Longrightarrow> has s1 q C" for q C using alloc_keeps Suc.prems a(1) by blast
  show ?case
  proof (cases r)
    case None
    then show ?thesis using a alloc_none [OF Suc.prems] keep by (auto simp: has_all_def)
  next
    case (Some p)
    obtain B where B: "has s1 p B" "B \<noteq> {}" "B \<subseteq> free s" "free s1 = free s - B"
      using alloc_some Suc.prems a(1) Some by blast
    obtain ps s' bs where r: "alloc_run alloc n s1 = Some (ps, s')" "inv s'" "map fst bs = ps" "has_all s' bs"
      "(\<Union>(p, B) \<in> set bs. B) = free s1 - free s'" "free s' \<subseteq> free s1" "\<forall>q C. has s1 q C \<longrightarrow> has s' q C"
      using Suc.IH [OF a(2)] by blast
    have pB: "has s' p B" using r(7) B(1) by blast
    have dis: "C \<inter> B = {}" if "(q, C) \<in> set bs" for q C using that r(5) B(4) by fastforce
    have "p \<notin> fst ` set bs"
    proof
      assume "p \<in> fst ` set bs"
      then obtain C where C: "(p, C) \<in> set bs" by force
      then have "has s' p C" using r(4) by (auto simp: has_all_def)
      then show False using has_unique [OF pB] dis [OF C] B(2) by blast
    qed
    then have "has_all s' ((p, B) # bs)" using pB dis r(4) by (auto simp: has_all_Cons)
    moreover have "(\<Union>(p, B) \<in> set ((p, B) # bs). B) = free s - free s'" using r(5,6) B(3,4) by auto
    ultimately show ?thesis
      using a(1) Some r B(4) keep by (intro exI [of _ "p # ps"] exI [of _ s'] exI [of _ "(p, B) # bs"]) auto
  qed
qed

lemma release_run_blocks:
  "inv s \<Longrightarrow> has_all s bs \<Longrightarrow> \<exists>s'. release_run release (map fst bs) s = Some s' \<and> inv s' \<and>
     free s' = free s \<union> (\<Union>(p, B) \<in> set bs. B)"
proof (induction bs arbitrary: s)
  case (Cons b bs)
  obtain p B where b: "b = (p, B)" by fastforce
  then have h: "has s p B" "has_all s bs" "\<forall>(q, C) \<in> set bs. C \<inter> B = {}"
    using Cons.prems(2) by (auto simp: has_all_Cons)
  obtain s1 where s1: "release p s = Some s1" "inv s1" "free s1 = free s \<union> B"
    using release_frees [OF Cons.prems(1) h(1)] by blast
  have "has_all s1 bs"
    using h(2,3) release_keeps [OF Cons.prems(1) h(1) s1(1)] unfolding has_all_def by fast
  from Cons.IH [OF s1(2) this] show ?case using s1 b by auto
qed simp

lemma alloc_release_any_order:
  assumes "inv s" and "alloc_run alloc n s = Some (ps, s')" and "mset qs = mset ps"
  shows "distinct ps \<and> (\<exists>t. release_run release qs s' = Some t \<and> inv t \<and> free t = free s)"
proof -
  obtain bs where bs: "inv s'" "map fst bs = ps" "has_all s' bs"
      "(\<Union>(p, B) \<in> set bs. B) = free s - free s'" "free s' \<subseteq> free s"
    using alloc_run_blocks [OF assms(1), of n] assms(2) by auto
  define cs where "cs = map (\<lambda>q. (q, the (map_of bs q))) qs"
  have d: "distinct (map fst bs)" using bs(3) by (simp add: has_all_def)
  have "set qs = fst ` set bs" using mset_eq_setD [OF assms(3)] bs(2) by (metis set_map)
  then have cs: "set cs = set bs" using d by (force simp: cs_def image_image map_of_eq_Some_iff)
  have f: "map fst cs = qs" by (simp add: cs_def comp_def)
  moreover have "distinct qs" using mset_eq_imp_distinct_iff [OF assms(3)] d bs(2) by simp
  ultimately have "has_all s' cs" using bs(3) cs by (simp add: has_all_def)
  from release_run_blocks [OF bs(1) this] show ?thesis using bs cs f d by auto
qed

end

interpretation pa: block_allocator allocator_ok free_frames owns "page_alloc fl" page_free for fl
proof unfold_locales
  fix s assume "allocator_ok s"
  then show "\<exists>r s'. page_alloc fl s = Some (r, s') \<and> allocator_ok s'" by (rule page_alloc_returns)
next
  fix s p s' assume "allocator_ok s" "page_alloc fl s = Some (Some p, s')"
  from page_alloc_some [OF this]
  show "\<exists>B. owns s' p B \<and> B \<noteq> {} \<and> B \<subseteq> free_frames s \<and> free_frames s' = free_frames s - B"
    by (intro exI [of _ "chunk p (alloc_order fl)"]) (simp add: owns_def fresh_block_def)
next
  fix s s' assume "allocator_ok s" "page_alloc fl s = Some (None, s')"
  note n = page_alloc_none(1) [OF this]
  show "free_frames s' = free_frames s"
    unfolding n by (rule buddy_view_inv(2)) (simp add: buddy_view_same)
next
  fix s q C r s' assume "allocator_ok s" "owns s q C" "page_alloc fl s = Some (r, s')"
  then show "owns s' q C" using page_alloc_keeps_owned [of s q fl r s'] unfolding owns_def by simp
next
  fix s p B assume "owns s p B"
  then show "B \<inter> free_frames s = {}" by (simp add: owns_def owned_def)
next
  fix s p B C assume "owns s p B" "owns s p C"
  then show "B = C" by (simp add: owns_def)
next
  fix s p B assume "allocator_ok s" "owns s p B"
  then obtain s' as where "page_free p s = Some s'" "freed s p as s'" "allocator_ok s'" "B = block s p"
    using page_free_ok [of s p] unfolding owns_def by blast
  then show "\<exists>s'. page_free p s = Some s' \<and> allocator_ok s' \<and> free_frames s' = free_frames s \<union> B"
    by (simp add: freed_def)
next
  fix s p B s' q C
  assume a: "allocator_ok s" "owns s p B" "page_free p s = Some s'" "owns s q C" "C \<inter> B = {}"
  then obtain as where "freed s p as s'" using page_free_ok [of s p] unfolding owns_def by auto
  from page_free_keeps_owned [OF this, of q] show "owns s' q C" using a unfolding owns_def by simp
qed

section \<open>Counting free pages\<close>

lemma count_free_pages_card:
  assumes inv: "buddy_inv s" and k: "k < 10"
  shows "count_free_pages s k = Some (card {i \<in> free_heads s. order_of s i = k})"
proof -
  obtain xs where d: "dlist (plinks s) (FreeList k) (map PPNode xs)"
    and xs: "set xs = {i \<in> free_heads s. order_of s i = k}"
    using inv k by (auto simp: buddy_inv_def on_lists_def list_of_order_def)
  have "distinct xs" using dlist_distinct [OF d] by (simp add: distinct_map)
  then show ?thesis using list_foreach_dlist [OF d] k xs [symmetric]
    by (simp add: count_free_pages_def BUDDY_MAX_ORDER_def BUDDY_2M_PAGE_def distinct_card)
qed

lemma count_total_from_sum:
  assumes inv: "buddy_inv s" and "\<forall>k\<in>set ks. k < 10"
  shows "count_total_from s ks n = Some (n + (\<Sum>k\<leftarrow>ks. card {i \<in> free_heads s. order_of s i = k} * 2 ^ k))"
  using assms(2)
proof (induction ks arbitrary: n)
  case (Cons k ks)
  then show ?case using count_free_pages_card [OF inv, of k] by simp
qed simp

lemma free_frames_card:
  assumes inv: "buddy_inv s"
  shows "card (free_frames s) = (\<Sum>k\<leftarrow>[0..<10]. card {i \<in> free_heads s. order_of s i = k} * 2 ^ k)"
proof -
  let ?H = "free_heads s"
  have fin: "finite ?H" by (simp add: free_heads_def)
  have wf: "wf_blocks s ?H" using inv by (simp add: buddy_inv_def)
  have "card (free_frames s) = (\<Sum>i\<in>?H. card (block s i))"
    unfolding free_frames_def using fin wf by (intro card_UN_disjoint) (auto simp: wf_blocks_def chunk_def)
  also have "\<dots> = (\<Sum>i\<in>?H. 2 ^ order_of s i)" by (simp add: chunk_def)
  also have "\<dots> = (\<Sum>k\<in>{0..<10}. \<Sum>i\<in>{i \<in> ?H. order_of s i = k}. 2 ^ order_of s i)"
    using fin wf by (intro sum.group [symmetric]) (auto simp: wf_blocks_def block_ok_def)
  also have "\<dots> = (\<Sum>k\<in>{0..<10}. card {i \<in> ?H. order_of s i = k} * 2 ^ k)" by simp
  also have "\<dots> = (\<Sum>k\<leftarrow>[0..<10]. card {i \<in> ?H. order_of s i = k} * 2 ^ k)"
    by (simp only: sum_list_distinct_conv_sum_set distinct_upt set_upt)
  finally show ?thesis .
qed

section \<open>Referenced pages\<close>

text \<open>
  A caller that keeps a page sets its reference count; the block is otherwise as \<^verbatim>\<open>page_alloc\<close>
  returned it.
\<close>

definition set_ref :: "nat \<Rightarrow> u16 \<Rightarrow> mem \<Rightarrow> mem" where
  "set_ref p r m = upd_page p (\<lambda>g. g\<lparr>pp_ref := r\<rparr>) m"

definition in_use :: "mem \<Rightarrow> nat \<Rightarrow> bool" where
  "in_use m p \<longleftrightarrow> owned (set_ref p 0 m) p"

lemma set_ref_fields [simp]:
  "npages (set_ref p r m) = npages m" "plinks (set_ref p r m) = plinks m" "frames (set_ref p r m) = frames m"
  "buddy_lock (set_ref p r m) = buddy_lock m" "active_pages_lock (set_ref p r m) = active_pages_lock m"
  "cpu (set_ref p r m) = cpu m" "cpu_rank (set_ref p r m) = cpu_rank m"
  "order_of (set_ref p r m) i = order_of m i" "pp_free (pages (set_ref p r m) i) = pp_free (pages m i)"
  "pp_avail (pages (set_ref p r m) i) = pp_avail (pages m i)"
  "pp_ref (pages (set_ref p r m) i) = (if i = p then r else pp_ref (pages m i))"
  "free_heads (set_ref p r m) = free_heads m"
  by (auto simp: set_ref_def upd_page_def free_heads_def)

lemma set_ref_page: "i \<noteq> p \<Longrightarrow> pages (set_ref p r m) i = pages m i"
  by (simp add: set_ref_def upd_page_def)

lemma set_ref_free [simp]: "free_frames (set_ref p r m) = free_frames m"
  by (simp add: free_frames_def)

lemma set_ref_set_ref [simp]: "set_ref p r (set_ref p r' m) = set_ref p r m"
  by (simp add: set_ref_def upd_page_def)

lemma set_ref_same: "pp_ref (pages m p) = r \<Longrightarrow> set_ref p r m = m"
  by (auto simp: set_ref_def upd_page_def fun_upd_idem_iff)

lemma block_ok_set_ref: "p \<notin> block m i \<Longrightarrow> block_ok (set_ref p r m) i = block_ok m i"
  by (auto simp: block_ok_def)

lemma set_ref_ok:
  assumes ok: "allocator_ok m" and p: "p \<notin> free_frames m"
  shows "allocator_ok (set_ref p r m)"
proof -
  have b: "block_ok (set_ref p r m) i = block_ok m i" if "i \<in> free_heads m" for i
    using p that by (intro block_ok_set_ref) (auto simp: free_frames_def)
  have "wf_blocks (set_ref p r m) (free_heads m) = wf_blocks m (free_heads m)"
    using b by (simp add: wf_blocks_def)
  moreover have "on_lists (set_ref p r m) (free_heads m) = on_lists m (free_heads m)"
    by (rule on_lists_cong) simp_all
  ultimately show ?thesis
    using ok by (simp add: allocator_ok_def buddy_inv_def locks_idle_def tracked_def)
qed

lemma in_useD:
  assumes "in_use m p"
  shows "p \<notin> free_frames m" and "block m p \<inter> free_frames m = {}" and "\<not> pp_free (pages m p)"
    and "p < npages m"
proof -
  show "block m p \<inter> free_frames m = {}" "\<not> pp_free (pages m p)"
    using assms by (simp_all add: in_use_def owned_def)
  then show "p \<notin> free_frames m" using own_block by blast
  have "p + 2 ^ order_of m p \<le> npages m" using assms by (simp add: in_use_def owned_def block_ok_def)
  moreover have "(0 :: nat) < 2 ^ order_of m p" by simp
  ultimately show "p < npages m" by linarith
qed

lemma in_use_set_ref [simp]: "in_use (set_ref p r m) p = in_use m p"
  by (simp add: in_use_def)

lemma in_use_set_ref_other:
  assumes "q \<noteq> p" and "p \<notin> block m q"
  shows "in_use (set_ref p r m) q = in_use m q"
proof -
  have "block_ok (set_ref q 0 (set_ref p r m)) q = block_ok (set_ref q 0 m) q"
    using assms by (auto simp: block_ok_def)
  then show ?thesis by (simp add: in_use_def owned_def)
qed

lemma owned_in_use: "owned m p \<Longrightarrow> in_use m p"
proof -
  assume o: "owned m p"
  then have "pp_ref (pages m p) = 0" by (simp add: owned_def block_ok_def)
  then show ?thesis using o by (simp add: in_use_def set_ref_same)
qed

lemma in_use_elsewhere:
  assumes use: "in_use m q" and np: "npages m' = npages m"
    and pg: "\<And>i. i \<in> block m q \<Longrightarrow> pages m' i = pages m i" and dis: "block m q \<inter> free_frames m' = {}"
  shows "in_use m' q" and "block m' q = block m q"
proof -
  have "pages (set_ref q 0 m') i = pages (set_ref q 0 m) i" if "i \<in> block (set_ref q 0 m) q" for i
    using pg that own_block by (simp add: set_ref_def upd_page_def)
  from owned_elsewhere [OF use [unfolded in_use_def] _ this]
  show "in_use m' q" using np dis by (simp add: in_use_def)
  show "block m' q = block m q" using pg [of q] by simp
qed

lemma page_alloc_keeps_in_use:
  assumes ok: "allocator_ok m" and r: "page_alloc fl m = Some (x, m')"
  shows "in_use m q \<Longrightarrow> in_use m' q" and "pages m' i = pages m i \<or> i \<in> free_frames m"
    and "npages m' = npages m" and "free_frames m' \<subseteq> free_frames m" and "cpu m' = cpu m"
proof -
  have all: "npages m' = npages m \<and> (\<forall>i. i \<notin> free_frames m \<longrightarrow> pages m' i = pages m i) \<and>
    free_frames m' \<subseteq> free_frames m \<and> cpu m' = cpu m"
  proof (cases x)
    case None
    note n = page_alloc_none(1) [OF ok r [unfolded None]]
    have "free_frames m' = free_frames m" unfolding n by (rule buddy_view_inv(2)) (simp add: buddy_view_same)
    then show ?thesis using n by simp
  next
    case (Some p)
    then show ?thesis using page_alloc_some [OF ok] r by (auto simp: fresh_block_def)
  qed
  then show "pages m' i = pages m i \<or> i \<in> free_frames m" "npages m' = npages m" "free_frames m' \<subseteq> free_frames m"
      "cpu m' = cpu m"
    by blast+
  assume use: "in_use m q"
  show "in_use m' q"
    using all in_useD(2) [OF use] by (intro in_use_elsewhere(1) [OF use]) blast+
qed

lemma page_decref_last:
  assumes ok: "allocator_ok m" and use: "in_use m p" and r: "pp_ref (pages m p) = 1"
  shows "\<exists>m'. page_decref p m = Some m' \<and> allocator_ok m' \<and> free_frames m' = free_frames m \<union> block m p \<and>
    npages m' = npages m \<and> frames m' = frames m \<and> cpu m' = cpu m \<and>
    (\<forall>q. in_use m q \<and> block m q \<inter> block m p = {} \<longrightarrow> in_use m' q \<and> pages m' q = pages m q)"
proof -
  have d: "page_decref p m = page_free p (set_ref p 0 m)"
    using r by (simp add: page_decref_def set_ref_def upd_page_def word_gt_0)
  have "allocator_ok (set_ref p 0 m)" by (rule set_ref_ok [OF ok in_useD(1) [OF use]])
  from page_free_ok [OF this use [unfolded in_use_def]] obtain m' as where
    m': "page_free p (set_ref p 0 m) = Some m'" "freed (set_ref p 0 m) p as m'" "allocator_ok m'" by blast
  have "in_use m' q \<and> pages m' q = pages m q" if "in_use m q" "block m q \<inter> block m p = {}" for q
  proof -
    have out: "i \<notin> free_frames m \<union> block m p" if "i \<in> block m q" for i
      using that in_useD(2) [OF \<open>in_use m q\<close>] \<open>block m q \<inter> block m p = {}\<close> by blast
    have "pages m' i = pages m i" if "i \<in> block m q" for i
    proof -
      have "i \<noteq> p" using out [OF that] own_block by blast
      then show ?thesis using m'(2) out [OF that] by (simp add: freed_def set_ref_page)
    qed
    then show ?thesis using m'(2) out in_use_elsewhere(1) [OF that(1), of m'] own_block
      by (auto simp: freed_def)
  qed
  then show ?thesis using m' d by (auto simp: freed_def)
qed

section \<open>Properties of the page allocator\<close>

text \<open>
  The abstract allocator: its state is the set of free frames.  An allocation of order \<open>k\<close> may
  return any aligned block of free frames and fails only if there is none.
\<close>

definition spec_alloc :: "nat \<Rightarrow> nat set \<Rightarrow> nat option \<Rightarrow> nat set \<Rightarrow> bool" where
  "spec_alloc k F r F' \<longleftrightarrow>
     (case r of None \<Rightarrow> F' = F \<and> (\<forall>i. 2 ^ k dvd i \<longrightarrow> \<not> chunk i k \<subseteq> F)
      | Some p \<Rightarrow> 2 ^ k dvd p \<and> chunk p k \<subseteq> F \<and> F' = F - chunk p k)"

text \<open>A memory of one free 2 MiB block, every quadword of which is 7.\<close>

definition one_block_links :: "pnode \<Rightarrow> pnode" where
  "one_block_links n = (case n of FreeList k \<Rightarrow> if k = 9 then PPNode 0 else n
     | PPNode i \<Rightarrow> if i = 0 then FreeList 9 else n | _ \<Rightarrow> n)"

definition one_block :: mem where
  "one_block = \<lparr>npages = 512,
     pages = (\<lambda>i. \<lparr>pp_ref = 0, pp_order = (if i = 0 then 9 else 0), pp_free = (i = 0), pp_avail = True,
                  pp_zero = 0, virt_addr = 3, powner = None\<rparr>),
     plinks = \<lparr>lnext = one_block_links, lprev = one_block_links\<rparr>, frames = (\<lambda>_ _. 7),
     buddy_lock = \<lparr>locked = 0, rank = 0, lname = Some ''buddy_lock'', lcpu = None, lfile = None, lline = 0\<rparr>,
     active_pages_lock =
       \<lparr>locked = 0, rank = 0, lname = Some ''active_pages_lock'', lcpu = None, lfile = None, lline = 0\<rparr>,
     cpu = 0, cpu_rank = 0\<rparr>"

lemma one_block_heads: "free_heads one_block = {0}" and one_block_free: "free_frames one_block = {0..<512}"
  by (auto simp: free_heads_def free_frames_def one_block_def chunk_def)

lemma one_block_ok: "allocator_ok one_block"
proof -
  have "wf_blocks one_block {0}" by (simp add: wf_blocks_def block_ok_def one_block_def)
  moreover have "list_of_order one_block {0} k (if k = 9 then [0] else [])" for k
    by (auto simp: list_of_order_def one_block_def dlist_def one_block_links_def)
  moreover have "tracked one_block []"
    by (simp add: tracked_def one_block_def dlist_def one_block_links_def)
  ultimately show ?thesis
    by (auto simp: allocator_ok_def buddy_inv_def one_block_heads on_lists_def locks_idle_def
        idle_lock_def) (simp_all add: one_block_def)
qed

lemma alloc_order_flags:
  "alloc_order ALLOC_HUGE = 9" "alloc_order ALLOC_ZERO = 0" "alloc_order (ALLOC_ZERO OR ALLOC_HUGE) = 9"
  by (simp_all add: alloc_order_def ALLOC_HUGE_def ALLOC_ZERO_def)

text \<open>
  C1: \<^verbatim>\<open>page_alloc\<close> implements the abstract allocator.  From a state that satisfies the allocator
  invariant it always returns, keeps the invariant with the locks released, and its result is
  the abstract one on the set of free frames: an aligned block taken from the free frames, or
  \<^verbatim>\<open>NULL\<close> exactly when no aligned run of free frames of the requested size exists (free memory
  is never fragmented below what its frames allow).
\<close>

theorem page_alloc_refines:
  assumes "allocator_ok s"
  shows "\<exists>r s'. page_alloc fl s = Some (r, s') \<and> allocator_ok s' \<and>
    spec_alloc (alloc_order fl) (free_frames s) r (free_frames s')"
proof -
  obtain r s' where a: "page_alloc fl s = Some (r, s')" "allocator_ok s'"
    using page_alloc_returns [OF assms] by blast
  have inv: "buddy_inv s" using assms by (simp add: allocator_ok_def)
  have k: "alloc_order fl \<le> 9" by (simp add: alloc_order_def)
  have "spec_alloc (alloc_order fl) (free_frames s) r (free_frames s')"
  proof (cases r)
    case None
    note n = page_alloc_none [OF assms a(1) [unfolded None]]
    have "free_frames s' = free_frames s" unfolding n(1) by (rule buddy_view_inv(2)) (simp add: buddy_view_same)
    then show ?thesis using None n(2) no_block_iff [OF inv k] by (simp add: spec_alloc_def)
  next
    case (Some p)
    note n = page_alloc_some [OF assms a(1) [unfolded Some]]
    have "2 ^ alloc_order fl dvd p" using n(3) by (auto simp: fresh_block_def owned_def block_ok_def)
    then show ?thesis using Some n(1,2) by (simp add: spec_alloc_def)
  qed
  then show ?thesis using a by blast
qed

theorem page_alloc_refines_witness:
  "\<exists>r s'. page_alloc ALLOC_HUGE one_block = Some (r, s') \<and> allocator_ok s' \<and>
    spec_alloc 9 {0..<512} r (free_frames s')"
  using page_alloc_refines [OF one_block_ok, of ALLOC_HUGE] unfolding alloc_order_flags one_block_free .

text \<open>
  C2: the block \<^verbatim>\<open>page_alloc\<close> returns belongs to the caller: every frame of it is available,
  unreferenced and outside the free memory, its order is the requested one, its tracking fields
  are reset, with \<^verbatim>\<open>ALLOC_ZERO\<close> all its quadwords are 0, and no descriptor or content of
  memory that was not free has changed.
\<close>

theorem page_alloc_block:
  assumes "allocator_ok s" and "page_alloc fl s = Some (Some p, s')"
  shows "owned s' p \<and> order_of s' p = alloc_order fl \<and> virt_addr (pages s' p) = 0 \<and>
    powner (pages s' p) = None \<and>
    (\<forall>f\<in>block s' p. \<forall>q. frames s' f q = (if fl AND ALLOC_ZERO \<noteq> 0 then 0 else frames s f q)) \<and>
    (\<forall>f. f \<notin> free_frames s \<longrightarrow> pages s' f = pages s f \<and> frames s' f = frames s f)"
proof -
  note a = page_alloc_some [OF assms]
  have "zeroed p (alloc_order fl) (frames s) f = frames s f" if "f \<notin> free_frames s" for f
    using a(1) that by (auto simp: zeroed_def chunk_def)
  moreover have "zeroed p (alloc_order fl) (frames s) f q = 0" if "f \<in> chunk p (alloc_order fl)" for f q
    using that by (auto simp: zeroed_def chunk_def)
  ultimately show ?thesis using a(3) by (simp add: fresh_block_def)
qed

text \<open>
  C3: \<^verbatim>\<open>page_free\<close> of a block its caller owns returns (no access outside the descriptor array, no
  lock error), adds exactly the frames of the block to the free memory, keeps the invariant, so
  that buddies are merged, releases both locks, and takes the page off the tracking list.
\<close>

theorem page_free_spec:
  assumes "buddy_inv s" and "locks_idle s" and "tracked s as" and "owned s p"
  shows "\<exists>s'. page_free p s = Some s' \<and> buddy_inv s' \<and> free_frames s' = free_frames s \<union> block s p \<and>
    locks_idle s' \<and> tracked s' (remove1 p as) \<and> frames s' = frames s \<and>
    (\<forall>i. i \<notin> free_frames s' \<longrightarrow> pages s' i = pages s i)"
  using page_free_freed [OF assms(1,4,2,3)] unfolding freed_def by blast

lemma alloc_one_block:
  "\<exists>p s. page_alloc ALLOC_ZERO one_block = Some (Some p, s) \<and> allocator_ok s \<and> owned s p"
proof -
  obtain r s where a: "page_alloc ALLOC_ZERO one_block = Some (r, s)" "allocator_ok s"
    using page_alloc_returns [OF one_block_ok] by blast
  have "r \<noteq> None"
  proof
    assume "r = None"
    then have "order_of one_block 0 < alloc_order ALLOC_ZERO"
      using page_alloc_none(2) [OF one_block_ok] a(1) one_block_heads by blast
    then show False by (simp add: alloc_order_flags)
  qed
  then show ?thesis using a page_alloc_some(3) [OF one_block_ok] unfolding fresh_block_def by blast
qed

theorem page_alloc_block_witness:
  "\<exists>p s. page_alloc ALLOC_ZERO one_block = Some (Some p, s) \<and> order_of s p = 0 \<and> frames s p 0 = 0"
proof -
  obtain p s where a: "page_alloc ALLOC_ZERO one_block = Some (Some p, s)" using alloc_one_block by blast
  have z: "ALLOC_ZERO AND ALLOC_ZERO \<noteq> 0" by (simp add: ALLOC_ZERO_def)
  have "p \<in> block s p" by simp
  then show ?thesis using page_alloc_block [OF one_block_ok a] a z alloc_order_flags(2) by auto
qed

theorem page_free_spec_witness:
  "\<exists>p s s'. page_alloc ALLOC_ZERO one_block = Some (Some p, s) \<and> page_free p s = Some s' \<and> buddy_inv s' \<and>
     free_frames s' = free_frames s \<union> block s p"
proof -
  obtain p s where a: "page_alloc ALLOC_ZERO one_block = Some (Some p, s)" "allocator_ok s" "owned s p"
    using alloc_one_block by blast
  then obtain as where "buddy_inv s" "locks_idle s" "tracked s as" by (auto simp: allocator_ok_def)
  from page_free_spec [OF this a(3)] a(1) show ?thesis by blast
qed

text \<open>
  C4: a run of allocations returns pairwise different pages, and giving them back in any order
  restores exactly the free memory there was before, with the invariant.
\<close>

theorem alloc_free_any_order:
  assumes "allocator_ok s" and "alloc_run (page_alloc fl) n s = Some (ps, s')" and "mset qs = mset ps"
  shows "distinct ps \<and> (\<exists>t. release_run page_free qs s' = Some t \<and> allocator_ok t \<and>
    free_frames t = free_frames s)"
  using assms by (rule pa.alloc_release_any_order)

theorem alloc_free_any_order_witness:
  "\<exists>ps s' t. alloc_run (page_alloc ALLOC_ZERO) 3 one_block = Some (ps, s') \<and>
     release_run page_free (rev ps) s' = Some t \<and> free_frames t = {0..<512}"
proof -
  obtain ps s' where r: "alloc_run (page_alloc ALLOC_ZERO) 3 one_block = Some (ps, s')"
    using pa.alloc_run_blocks [OF one_block_ok] by blast
  have "mset (rev ps) = mset ps" by simp
  from alloc_free_any_order [OF one_block_ok r this] r one_block_free show ?thesis by auto
qed

text \<open>
  C5: \<^verbatim>\<open>page_decref\<close> on a referenced page only lowers the count while other references remain, and
  frees the page's block when the last reference goes; on an unreferenced page its assertion
  fails.
\<close>

theorem page_decref_spec:
  defines "dec \<equiv> \<lambda>p s. upd_page p (\<lambda>g. g\<lparr>pp_ref := pp_ref g - 1\<rparr>) s"
  shows "(pp_ref (pages s p) = 0 \<longrightarrow> page_decref p s = None) \<and>
    (pp_ref (pages s p) > 1 \<longrightarrow> page_decref p s = Some (dec p s)) \<and>
    (pp_ref (pages s p) = 1 \<and> allocator_ok (dec p s) \<and> owned (dec p s) p \<longrightarrow>
       (\<exists>s'. page_decref p s = Some s' \<and> allocator_ok s' \<and> free_frames s' = free_frames (dec p s) \<union> block s p))"
proof -
  have "page_decref p s = Some (dec p s)" if "pp_ref (pages s p) > 1"
  proof -
    have "pp_ref (pages s p) - 1 \<noteq> 0" using that by (metis eq_iff_diff_eq_0 less_irrefl)
    then show ?thesis using that
      by (auto simp: page_decref_def dec_def upd_page_def word_gt_0)
  qed
  moreover have "\<exists>s'. page_decref p s = Some s' \<and> allocator_ok s' \<and> free_frames s' = free_frames (dec p s) \<union> block s p"
    if "pp_ref (pages s p) = 1" "allocator_ok (dec p s)" "owned (dec p s) p"
  proof -
    have "page_decref p s = page_free p (dec p s)"
      using that(1) by (simp add: page_decref_def dec_def upd_page_def word_gt_0)
    moreover have "block (dec p s) p = block s p" by (simp add: dec_def upd_page_def)
    ultimately show ?thesis using page_free_ok [OF that(2,3)] unfolding freed_def by auto
  qed
  ultimately show ?thesis by (auto simp: page_decref_def)
qed

theorem page_decref_spec_witness:
  "\<exists>p s s'. pp_ref (pages s p) = 1 \<and> page_decref p s = Some s' \<and> allocator_ok s'"
proof -
  obtain p s where a: "allocator_ok s" "owned s p" using alloc_one_block by blast
  let ?t = "upd_page p (\<lambda>g. g\<lparr>pp_ref := 1\<rparr>) s"
  have z: "pp_ref (pages s p) = 0" using a(2) by (simp add: owned_def block_ok_def)
  have "(pages s)(p := (pages s p)\<lparr>pp_ref := 0\<rparr>) = pages s" using z by (simp add: fun_upd_idem_iff)
  then have d: "upd_page p (\<lambda>g. g\<lparr>pp_ref := pp_ref g - 1\<rparr>) ?t = s" by (simp add: upd_page_def)
  have one: "pp_ref (pages ?t p) = 1" by (simp add: upd_page_def)
  from page_decref_spec [of ?t p] show ?thesis unfolding d using a one by blast
qed

text \<open>\<^verbatim>\<open>count_total_free_pages\<close> returns the number of free frames.\<close>

theorem count_total_free_pages_spec:
  assumes "buddy_inv s"
  shows "count_total_free_pages s = Some (card (free_frames s))"
proof -
  have "\<forall>k\<in>set [0..<10]. k < (10 :: nat)" by simp
  from count_total_from_sum [OF assms this, of 0] free_frames_card [OF assms] show ?thesis
    unfolding count_total_free_pages_def BUDDY_MAX_ORDER_def BUDDY_2M_PAGE_def by simp
qed

theorem count_total_free_pages_spec_witness: "count_total_free_pages one_block = Some 512"
proof -
  have "buddy_inv one_block" using one_block_ok by (simp add: allocator_ok_def)
  from count_total_free_pages_spec [OF this] show ?thesis by (simp add: one_block_free)
qed

end
