(* ===== verification/Page_Ref.thy ===== *)
theory Page_Ref
  imports Page_Alloc
begin

text \<open>
  Single pages under reference counting, as the page tables and the slabs use them: a fresh page
  with one reference, the release of the last reference, and what both leave unchanged.
\<close>

lemma small_block: "order_of m q = 0 \<Longrightarrow> block m q = {q}"
  by (auto simp: chunk_def)

text \<open>What an allocation or a release of a page leaves to the other pages in use.\<close>

definition phys_keeps :: "nat set \<Rightarrow> mem \<Rightarrow> mem \<Rightarrow> bool" where
  "phys_keeps Q m m' \<longleftrightarrow> cpu m' = cpu m \<and> (\<forall>q\<in>Q. in_use m q \<and> order_of m q = 0 \<longrightarrow> in_use m' q \<and> pages m' q = pages m q)"

lemma phys_keeps_refl [simp]: "phys_keeps Q m m"
  by (simp add: phys_keeps_def)

lemma new_page:
  assumes ok: "allocator_ok m" and a: "page_alloc ALLOC_ZERO m = Some (Some pg, m1)"
  defines "m' \<equiv> upd_page pg (\<lambda>p. p\<lparr>pp_ref := pp_ref p + 1\<rparr>) m1"
  shows "m' = set_ref pg 1 m1" and "allocator_ok m'" and "in_use m' pg" and "pp_ref (pages m' pg) = 1"
    and "order_of m' pg = 0" and "pg \<in> free_frames m" and "free_frames m' = free_frames m - {pg}"
    and "npages m' = npages m" and "pg < npages m'" and "phys_keeps UNIV m m'"
    and "frames m' = (frames m)(pg := (\<lambda>_. 0))"
proof -
  note s = page_alloc_some [OF ok a, unfolded alloc_order_flags]
  note ok1 = page_alloc_keeps_ok [OF ok a]
  have own: "owned m1 pg" and o: "order_of m1 pg = 0" and np: "npages m1 = npages m"
    using s(3) by (simp_all add: fresh_block_def alloc_order_flags)
  have "pp_ref (pages m1 pg) = 0" using own by (simp add: owned_def block_ok_def)
  then show m': "m' = set_ref pg 1 m1" by (simp add: m'_def set_ref_def upd_page_def)
  have u: "in_use m1 pg" by (rule owned_in_use [OF own])
  show "allocator_ok m'" unfolding m' by (rule set_ref_ok [OF ok1 in_useD(1) [OF u]])
  show "in_use m' pg" "pp_ref (pages m' pg) = 1" "order_of m' pg = 0" using u o by (simp_all add: m')
  show "pg < npages m'" "npages m' = npages m" using in_useD(4) [OF u] np by (simp_all add: m')
  have "frames m1 = zeroed pg 0 (frames m)"
    using s(3) alloc_order_flags by (simp add: fresh_block_def ALLOC_ZERO_def)
  then show "frames m' = (frames m)(pg := (\<lambda>_. 0))" by (auto simp: m' zeroed_def chunk_def fun_eq_iff)
  show "pg \<in> free_frames m" using s(1) by (simp add: chunk_def)
  show "free_frames m' = free_frames m - {pg}" using s(2) by (simp add: m' chunk_def)
  have "in_use m' q \<and> pages m' q = pages m q" if q: "in_use m q" "order_of m q = 0" for q
  proof -
    have "q \<noteq> pg" using in_useD(1) [OF q(1)] \<open>pg \<in> free_frames m\<close> by auto
    note k = page_alloc_keeps_in_use [OF ok a]
    have p: "pages m1 q = pages m q" using k(2) [of q] in_useD(1) [OF q(1)] by blast
    then have "pg \<notin> block m1 q" using q(2) \<open>q \<noteq> pg\<close> by (simp add: chunk_def)
    then show ?thesis using k(1) [OF q(1)] p \<open>q \<noteq> pg\<close> by (simp add: m' in_use_set_ref_other set_ref_page)
  qed
  then show "phys_keeps UNIV m m'" using page_alloc_keeps_in_use(5) [OF ok a] by (simp add: phys_keeps_def m')
qed

lemma page_decref_small:
  assumes "allocator_ok m" and "in_use m p" and "pp_ref (pages m p) = 1" and "order_of m p = 0"
  shows "\<exists>m'. page_decref p m = Some m' \<and> allocator_ok m' \<and> free_frames m' = insert p (free_frames m) \<and>
    phys_keeps (- {p}) m m'"
proof -
  obtain m' where m': "page_decref p m = Some m'" "allocator_ok m'" "free_frames m' = free_frames m \<union> block m p" "cpu m' = cpu m"
    "\<forall>q. in_use m q \<and> block m q \<inter> block m p = {} \<longrightarrow> in_use m' q \<and> pages m' q = pages m q"
    using page_decref_last [OF assms(1-3)] by blast
  have "phys_keeps (- {p}) m m'" using m'(4,5) assms(4) by (auto simp: phys_keeps_def small_block chunk_def)
  then show ?thesis using m' assms(4) by (auto simp: chunk_def)
qed

end
