(* ===== verification/Page_Walk.thy ===== *)
theory Page_Walk
  imports Page_Ref
begin

text \<open>
  The page table walker of \<^verbatim>\<open>kernel/mem/walk.c\<close> with the page table layout of
  \<^verbatim>\<open>include/x86-64/paging.h\<close>, the address conversions of \<^verbatim>\<open>include/kernel/mem/buddy.h\<close> and
  \<^verbatim>\<open>kernel/mem/tlb.c\<close>.

  A page table is the frame that holds it, and a \<^verbatim>\<open>physaddr_t *entry\<close> is a frame and an index.
  A walker callback maps the user data and the machine state to the \<^verbatim>\<open>int\<close> it returns and the
  new data and state; a callback that is \<^verbatim>\<open>NULL\<close> is \<open>None\<close>.  The four \<^verbatim>\<open>*_walk_range\<close> functions share
  the loop \<open>walk_loop\<close>, which ends because the next address is larger than the current one
  or wraps to 0.
\<close>

section \<open>Constants\<close>

definition PAGE_PRESENT :: u64 where "PAGE_PRESENT = push_bit 0 1"
definition PAGE_WRITE :: u64 where "PAGE_WRITE = push_bit 1 1"
definition PAGE_USER :: u64 where "PAGE_USER = push_bit 2 1"
definition PAGE_WRITE_THROUGH :: u64 where "PAGE_WRITE_THROUGH = push_bit 3 1"
definition PAGE_NO_CACHE :: u64 where "PAGE_NO_CACHE = push_bit 4 1"
definition PAGE_ACCESSED :: u64 where "PAGE_ACCESSED = push_bit 5 1"
definition PAGE_DIRTY :: u64 where "PAGE_DIRTY = push_bit 6 1"
definition PAGE_HUGE :: u64 where "PAGE_HUGE = push_bit 7 1"
definition PAGE_NO_EXEC :: u64 where "PAGE_NO_EXEC = push_bit 63 1"

definition PAGE_TABLE_SHIFT :: nat where "PAGE_TABLE_SHIFT = 12"
definition PAGE_DIR_SHIFT :: nat where "PAGE_DIR_SHIFT = PAGE_TABLE_SHIFT + 9"
definition PDPT_SHIFT :: nat where "PDPT_SHIFT = PAGE_DIR_SHIFT + 9"
definition PML4_SHIFT :: nat where "PML4_SHIFT = PDPT_SHIFT + 9"

definition PAGE_TABLE_SPAN :: u64 where "PAGE_TABLE_SPAN = push_bit PAGE_DIR_SHIFT 1"
definition PAGE_DIR_SPAN :: u64 where "PAGE_DIR_SPAN = push_bit PDPT_SHIFT 1"
definition PDPT_SPAN :: u64 where "PDPT_SPAN = push_bit PML4_SHIFT 1"

definition PAGE_INDEX :: "u64 \<Rightarrow> u64" where
  "PAGE_INDEX x = drop_bit PAGE_TABLE_SHIFT x"
definition PAGE_TABLE_INDEX :: "u64 \<Rightarrow> nat" where
  "PAGE_TABLE_INDEX x = unat (drop_bit PAGE_TABLE_SHIFT x AND (push_bit 9 1 - 1))"
definition PAGE_DIR_INDEX :: "u64 \<Rightarrow> nat" where
  "PAGE_DIR_INDEX x = unat (drop_bit PAGE_DIR_SHIFT x AND (push_bit 9 1 - 1))"
definition PDPT_INDEX :: "u64 \<Rightarrow> nat" where
  "PDPT_INDEX x = unat (drop_bit PDPT_SHIFT x AND (push_bit 9 1 - 1))"
definition PML4_INDEX :: "u64 \<Rightarrow> nat" where
  "PML4_INDEX x = unat (drop_bit PML4_SHIFT x AND (push_bit 9 1 - 1))"

definition PAGE_MASK :: u64 where "PAGE_MASK = 0xFFFF000000000FFF"
definition PAGE_UMASK :: u64 where
  "PAGE_UMASK = PAGE_PRESENT OR PAGE_WRITE OR PAGE_NO_EXEC OR PAGE_USER"
definition PAGE_ADDR :: "u64 \<Rightarrow> u64" where "PAGE_ADDR x = x AND NOT PAGE_MASK"

definition USER_LIM :: u64 where "USER_LIM = 0x800000000000"
definition KERNEL_LIM :: u64 where "KERNEL_LIM = 0xffffffffffffffff"
definition KERNEL_VMA :: u64 where "KERNEL_VMA = 0xFFFF800000000000"

section \<open>State and address conversions\<close>

text \<open>
  \<open>flushed\<close> is the history of the addresses passed to the instruction \<^verbatim>\<open>invlpg\<close> of
  \<^verbatim>\<open>flush_page\<close>, the last one first.
\<close>

record vm =
  vmem :: mem
  cr3 :: u64
  flushed :: "u64 list"
  cur_task :: "nat option"
  task_rss :: "nat \<Rightarrow> u64"
  task_pml4 :: "nat \<Rightarrow> nat"

datatype entry_ptr = Entry (etable: nat) (eindex: nat)

definition get_entry :: "entry_ptr \<Rightarrow> vm \<Rightarrow> u64" where
  "get_entry e s = frames (vmem s) (etable e) (eindex e)"

definition set_entry :: "entry_ptr \<Rightarrow> u64 \<Rightarrow> vm \<Rightarrow> vm" where
  "set_entry e v s =
     s\<lparr>vmem := (vmem s)\<lparr>frames := (frames (vmem s))(etable e := (frames (vmem s) (etable e))(eindex e := v))\<rparr>\<rparr>"

definition pa2page :: "u64 \<Rightarrow> vm \<Rightarrow> nat option" where
  "pa2page pa s = (if unat (PAGE_INDEX pa) \<ge> npages (vmem s) then None else Some (unat (PAGE_INDEX pa)))"

definition page2pa :: "nat \<Rightarrow> u64" where
  "page2pa pp = push_bit PAGE_TABLE_SHIFT (of_nat pp)"

definition KADDR :: "u64 \<Rightarrow> vm \<Rightarrow> u64 option" where
  "KADDR pa s = (if unat (PAGE_INDEX pa) \<ge> npages (vmem s) then None else Some (pa + KERNEL_VMA))"

text \<open>The page table at \<^verbatim>\<open>KADDR(pa)\<close>, as its frame; the address of the table in a frame.\<close>

definition KADDR_table :: "u64 \<Rightarrow> vm \<Rightarrow> nat option" where
  "KADDR_table pa s = (if unat (PAGE_INDEX pa) \<ge> npages (vmem s) then None else Some (unat (PAGE_INDEX pa)))"

definition table_kva :: "nat \<Rightarrow> u64" where
  "table_kva f = page2pa f + KERNEL_VMA"

definition tlb_invalidate :: "u64 \<Rightarrow> u64 \<Rightarrow> vm \<Rightarrow> vm option" where
  "tlb_invalidate pml4 va s =
     do { current \<leftarrow> KADDR (cr3 s) s;
          Some (if pml4 = current then s\<lparr>flushed := va # flushed s\<rparr> else s) }"

section \<open>The walker\<close>

type_synonym 'u entry_cb = "entry_ptr \<Rightarrow> u64 \<Rightarrow> u64 \<Rightarrow> 'u \<times> vm \<Rightarrow> (int \<times> 'u \<times> vm) option"
type_synonym 'u hole_cb = "u64 \<Rightarrow> u64 \<Rightarrow> 'u \<times> vm \<Rightarrow> (int \<times> 'u \<times> vm) option"

record 'u page_walker =
  pte_callback :: "'u entry_cb option"
  pde_callback :: "'u entry_cb option"
  pdpte_callback :: "'u entry_cb option"
  pml4e_callback :: "'u entry_cb option"
  pte_unmap :: "'u entry_cb option"
  pde_unmap :: "'u entry_cb option"
  pdpte_unmap :: "'u entry_cb option"
  pml4e_unmap :: "'u entry_cb option"
  pt_hole_callback :: "'u hole_cb option"

definition no_walker :: "'u page_walker" where
  "no_walker = \<lparr>pte_callback = None, pde_callback = None, pdpte_callback = None, pml4e_callback = None,
     pte_unmap = None, pde_unmap = None, pdpte_unmap = None, pml4e_unmap = None, pt_hole_callback = None\<rparr>"

text \<open>
  \<open>call_entry\<close> and \<open>call_hole\<close> are the pattern \<^verbatim>\<open>if (callback) r = callback(...)\<close>, and \<open>and_then\<close>
  is \<^verbatim>\<open>if (r < 0) return r;\<close>.
\<close>

fun call_entry :: "'u entry_cb option \<Rightarrow> 'u entry_cb" where
  "call_entry None e base en us = Some (0, us)"
| "call_entry (Some f) e base en us = f e base en us"

fun call_hole :: "'u hole_cb option \<Rightarrow> 'u hole_cb" where
  "call_hole None base en us = Some (0, us)"
| "call_hole (Some f) base en us = f base en us"

definition and_then :: "(int \<times> 's) option \<Rightarrow> ('s \<Rightarrow> (int \<times> 's) option) \<Rightarrow> (int \<times> 's) option" where
  "and_then m k = do { (r, s) \<leftarrow> m; if r < 0 then Some (r, s) else k s }"

lemma call_entry_None: "call_entry None e base en = (\<lambda>us. Some (0, us))"
  by (rule ext) simp

lemma and_then_Some [simp]:
  "0 \<le> r \<Longrightarrow> and_then (Some (r, us)) k = k us" "r < 0 \<Longrightarrow> and_then (Some (r, us)) k = Some (r, us)"
  "and_then None k = None"
  by (simp_all add: and_then_def)

definition sign_extend :: "u64 \<Rightarrow> u64" where
  "sign_extend addr = (if addr < USER_LIM then addr else 0xffff000000000000 OR addr)"

definition ptbl_end :: "u64 \<Rightarrow> u64" where "ptbl_end addr = addr OR (PAGE_SIZE - 1)"
definition ptbl_start :: "u64 \<Rightarrow> u64" where "ptbl_start addr = addr AND NOT (PAGE_SIZE - 1)"
definition pdir_end :: "u64 \<Rightarrow> u64" where "pdir_end addr = addr OR (PAGE_TABLE_SPAN - 1)"
definition pdir_start :: "u64 \<Rightarrow> u64" where "pdir_start addr = addr AND NOT (PAGE_TABLE_SPAN - 1)"
definition pdpt_end :: "u64 \<Rightarrow> u64" where "pdpt_end addr = addr OR (PAGE_DIR_SPAN - 1)"
definition pdpt_start :: "u64 \<Rightarrow> u64" where "pdpt_start addr = addr AND NOT (PAGE_DIR_SPAN - 1)"
definition pml4_end :: "u64 \<Rightarrow> u64" where "pml4_end addr = addr OR (PDPT_SPAN - 1)"
definition pml4_start :: "u64 \<Rightarrow> u64" where "pml4_start addr = addr AND NOT (PDPT_SPAN - 1)"

lemma le_or: "x \<le> x OR (y :: u64)"
proof -
  have "uint x \<le> uint x OR uint y" by (rule or_greater_eq) simp
  then show ?thesis by (simp add: word_le_def unsigned_or_eq)
qed

lemma le_sign_extend: "x \<le> sign_extend x"
  unfolding sign_extend_def using le_or [of x "0xffff000000000000"] by (simp add: or.commute)

lemma next_gt: "(x OR m) + 1 \<noteq> 0 \<Longrightarrow> x < (x OR m) + (1 :: u64)"
proof -
  assume "(x OR m) + 1 \<noteq> 0"
  then have "unat ((x OR m) + 1) = Suc (unat (x OR m))"
    using unatSuc [of "x OR m"] by (simp add: add.commute)
  then show ?thesis using le_or [of x m] by (simp add: word_le_nat_alt word_less_nat_alt)
qed

function walk_loop ::
  "u64 \<Rightarrow> (u64 \<Rightarrow> 's \<Rightarrow> (int \<times> 's) option) \<Rightarrow> u64 \<Rightarrow> u64 \<Rightarrow> 's \<Rightarrow> (int \<times> 's) option" where
  "walk_loop span body base en s =
     (if base \<le> en then
        (let base = sign_extend base;
             next = (base OR (span - 1)) + 1
         in and_then (body base s)
              (\<lambda>s. if next = 0 then Some (0, s) else walk_loop span body next en s))
      else Some (0, s))"
  by pat_completeness auto
termination
proof (relation "measure (\<lambda>(span, body, base, en, s). 2 ^ 64 - unat base)", goal_cases)
  case (2 span body base en s base' nx s')
  then have "base < nx"
    using le_sign_extend [of base] next_gt [of base' "span - 1"] by simp
  then show ?case using unat_u64_less [of nx] by (simp add: word_less_nat_alt)
qed simp

declare walk_loop.simps [simp del]

definition present :: "u64 \<Rightarrow> bool" where "present e \<longleftrightarrow> e AND PAGE_PRESENT \<noteq> 0"
definition huge :: "u64 \<Rightarrow> bool" where "huge e \<longleftrightarrow> e AND PAGE_HUGE \<noteq> 0"

definition ptbl_step :: "'u page_walker \<Rightarrow> nat \<Rightarrow> u64 \<Rightarrow> 'u \<times> vm \<Rightarrow> (int \<times> 'u \<times> vm) option" where
  "ptbl_step walker ptbl base us =
     (let entry = Entry ptbl (PAGE_TABLE_INDEX base)
      in and_then (call_entry (pte_callback walker) entry (ptbl_start base) (ptbl_end base) us)
           (\<lambda>us. if \<not> present (get_entry entry (snd us))
                 then call_hole (pt_hole_callback walker) (ptbl_start base) (ptbl_end base) us
                 else Some (0, us)))"

definition ptbl_walk_range ::
  "'u page_walker \<Rightarrow> nat \<Rightarrow> u64 \<Rightarrow> u64 \<Rightarrow> 'u \<times> vm \<Rightarrow> (int \<times> 'u \<times> vm) option" where
  "ptbl_walk_range walker ptbl base en =
     walk_loop PAGE_SIZE (ptbl_step walker ptbl) (sign_extend base) (sign_extend en)"

definition pdir_step ::
  "'u page_walker \<Rightarrow> nat \<Rightarrow> u64 \<Rightarrow> u64 \<Rightarrow> 'u \<times> vm \<Rightarrow> (int \<times> 'u \<times> vm) option" where
  "pdir_step walker pdir en base us =
     (let entry = Entry pdir (PAGE_DIR_INDEX base)
      in and_then (call_entry (pde_callback walker) entry (pdir_start base) (pdir_end base) us)
           (\<lambda>us. let e = get_entry entry (snd us)
                 in if present e then
                      if huge e
                      then call_entry (pde_unmap walker) entry (pdir_start base) (pdir_end base) us
                      else do { ptbl \<leftarrow> KADDR_table (PAGE_ADDR e) (snd us);
                                and_then (ptbl_walk_range walker ptbl base (min (pdir_end base) en) us)
                                  (call_entry (pde_unmap walker) entry (pdir_start base) (pdir_end base)) }
                    else call_hole (pt_hole_callback walker) (pdir_start base) (pdir_end base) us))"

definition pdir_walk_range ::
  "'u page_walker \<Rightarrow> nat \<Rightarrow> u64 \<Rightarrow> u64 \<Rightarrow> 'u \<times> vm \<Rightarrow> (int \<times> 'u \<times> vm) option" where
  "pdir_walk_range walker pdir base en =
     walk_loop PAGE_TABLE_SPAN (pdir_step walker pdir (sign_extend en)) (sign_extend base) (sign_extend en)"

definition pdpt_step ::
  "'u page_walker \<Rightarrow> nat \<Rightarrow> u64 \<Rightarrow> u64 \<Rightarrow> 'u \<times> vm \<Rightarrow> (int \<times> 'u \<times> vm) option" where
  "pdpt_step walker pdpt en base us =
     (let entry = Entry pdpt (PDPT_INDEX base)
      in and_then (call_entry (pdpte_callback walker) entry (pdpt_start base) (pdpt_end base) us)
           (\<lambda>us. let e = get_entry entry (snd us)
                 in if present e then
                      do { pdir \<leftarrow> KADDR_table (PAGE_ADDR e) (snd us);
                           and_then (pdir_walk_range walker pdir base (min (pdpt_end base) en) us)
                             (call_entry (pdpte_unmap walker) entry (pdpt_start base)
                                (min (pdpt_end base) en)) }
                    else call_hole (pt_hole_callback walker) (pdpt_start base) (pdpt_end base) us))"

definition pdpt_walk_range ::
  "'u page_walker \<Rightarrow> nat \<Rightarrow> u64 \<Rightarrow> u64 \<Rightarrow> 'u \<times> vm \<Rightarrow> (int \<times> 'u \<times> vm) option" where
  "pdpt_walk_range walker pdpt base en =
     walk_loop PAGE_DIR_SPAN (pdpt_step walker pdpt (sign_extend en)) (sign_extend base) (sign_extend en)"

definition pml4_step ::
  "'u page_walker \<Rightarrow> nat \<Rightarrow> u64 \<Rightarrow> u64 \<Rightarrow> 'u \<times> vm \<Rightarrow> (int \<times> 'u \<times> vm) option" where
  "pml4_step walker pml4 en base us =
     (let entry = Entry pml4 (PML4_INDEX base)
      in and_then (call_entry (pml4e_callback walker) entry (pml4_start base) (pml4_end base) us)
           (\<lambda>us. let e = get_entry entry (snd us)
                 in if present e then
                      do { pdpt \<leftarrow> KADDR_table (PAGE_ADDR e) (snd us);
                           and_then (pdpt_walk_range walker pdpt base (min (pml4_end base) en) us)
                             (call_entry (pml4e_unmap walker) entry (pml4_start base) (pml4_end base)) }
                    else call_hole (pt_hole_callback walker) (pml4_start base) (pml4_end base) us))"

definition pml4_walk_range ::
  "'u page_walker \<Rightarrow> nat \<Rightarrow> u64 \<Rightarrow> u64 \<Rightarrow> 'u \<times> vm \<Rightarrow> (int \<times> 'u \<times> vm) option" where
  "pml4_walk_range walker pml4 base en =
     walk_loop PDPT_SPAN (pml4_step walker pml4 (sign_extend en)) (sign_extend base) (sign_extend en)"

definition walk_page_range ::
  "nat \<Rightarrow> u64 \<Rightarrow> u64 \<Rightarrow> 'u page_walker \<Rightarrow> 'u \<times> vm \<Rightarrow> (int \<times> 'u \<times> vm) option" where
  "walk_page_range pml4 base en walker =
     pml4_walk_range walker pml4 (ROUNDDOWN base PAGE_SIZE) (ROUNDUP en PAGE_SIZE - 1)"

definition walk_all_pages :: "nat \<Rightarrow> 'u page_walker \<Rightarrow> 'u \<times> vm \<Rightarrow> (int \<times> 'u \<times> vm) option" where
  "walk_all_pages pml4 walker = pml4_walk_range walker pml4 0 KERNEL_LIM"

definition walk_user_pages :: "nat \<Rightarrow> 'u page_walker \<Rightarrow> 'u \<times> vm \<Rightarrow> (int \<times> 'u \<times> vm) option" where
  "walk_user_pages pml4 walker = pml4_walk_range walker pml4 0 USER_LIM"

definition walk_kernel_pages :: "nat \<Rightarrow> 'u page_walker \<Rightarrow> 'u \<times> vm \<Rightarrow> (int \<times> 'u \<times> vm) option" where
  "walk_kernel_pages pml4 walker = pml4_walk_range walker pml4 KERNEL_VMA KERNEL_LIM"

section \<open>The addresses a walk visits\<close>

named_theorems spans \<open>the spans of the four levels as powers of two\<close>

lemma span_exp [spans]:
  "PAGE_SIZE = 2 ^ 12" "PAGE_TABLE_SPAN = 2 ^ 21" "PAGE_DIR_SPAN = 2 ^ 30" "PDPT_SPAN = 2 ^ 39"
  by (simp_all add: PAGE_SIZE_def PAGE_TABLE_SPAN_def PAGE_DIR_SPAN_def PDPT_SPAN_def
      PAGE_TABLE_SHIFT_def PAGE_DIR_SHIFT_def PDPT_SHIFT_def PML4_SHIFT_def push_bit_eq_mult)

lemma unat_drop_bit: "unat (drop_bit k (x :: u64)) = unat x div 2 ^ k"
  unfolding drop_bit_eq_div [of k "unat x", symmetric]
  by (rule bit_eqI) (simp add: bit_unat bit_drop_bit_eq)

lemma unat_and_not_mask: "unat (x AND NOT (2 ^ k - 1) :: u64) = unat x div 2 ^ k * 2 ^ k"
proof -
  have "x AND NOT (2 ^ k - 1) = push_bit k (drop_bit k x)"
    by (simp only: mask_eq_exp_minus_1 [symmetric])
      (rule bit_eqI, auto simp: bit_and_iff bit_not_iff bit_mask_iff bit_push_bit_iff bit_drop_bit_eq)
  moreover have "unat (push_bit k (drop_bit k x)) = unat x div 2 ^ k * 2 ^ k"
  proof (rule bit_eqI)
    fix n
    show "bit (unat (push_bit k (drop_bit k x))) n = bit (unat x div 2 ^ k * 2 ^ k) n"
      using bit_imp_le_length [of x n]
      by (auto simp: bit_unat bit_push_bit_iff bit_drop_bit_eq simp flip: drop_bit_eq_div push_bit_eq_mult)
  qed
  ultimately show ?thesis by simp
qed

lemma start_or_mask: "(c AND NOT (2 ^ k - 1)) OR (2 ^ k - 1) = c OR (2 ^ k - 1 :: u64)"
  by (simp only: mask_eq_exp_minus_1 [symmetric])
    (rule bit_eqI, auto simp: bit_and_iff bit_or_iff bit_not_iff bit_mask_iff)

lemma unat_or_mask:
  assumes "k < 64"
  shows "unat (x OR (2 ^ k - 1) :: u64) = unat x div 2 ^ k * 2 ^ k + (2 ^ k - 1)"
proof -
  have disj: "(x AND NOT (2 ^ k - 1)) AND (2 ^ k - 1) = 0"
    by (simp add: and.assoc)
  have "unat (x OR (2 ^ k - 1)) = unat (x AND NOT (2 ^ k - 1)) OR unat (2 ^ k - 1 :: u64)"
    by (simp only: unsigned_or_eq [symmetric] start_or_mask)
  also have "\<dots> = unat (x AND NOT (2 ^ k - 1)) + unat (2 ^ k - 1 :: u64)"
    using arg_cong [OF disj, of unat]
    by (simp only: unsigned_and_eq unsigned_0 disjunctive_add_eq_or)
  also have "unat (2 ^ k - 1 :: u64) = 2 ^ k - 1"
    using assms by (simp add: unat_sub unat_exp word_le_nat_alt)
  finally show ?thesis by (simp add: unat_and_not_mask)
qed

lemma sign_extend_user: "x < USER_LIM \<Longrightarrow> sign_extend x = x"
  by (simp add: sign_extend_def)

lemma sign_extend_kernel:
  assumes "KERNEL_VMA \<le> x"
  shows "sign_extend x = x"
proof -
  have "2 ^ 17 - 1 \<le> unat x div 2 ^ 47"
    using assms div_le_mono [of "unat KERNEL_VMA" "unat x" "2 ^ 47"]
    by (simp add: KERNEL_VMA_def word_le_nat_alt)
  moreover have "unat x div 2 ^ 47 < 2 ^ 17"
    using unat_u64_less [of x] by (simp add: less_mult_imp_div_less)
  ultimately have "unat (drop_bit 47 x) = unat (mask 17 :: u64)"
    by (simp add: unat_drop_bit mask_eq_exp_minus_1)
  then have top: "drop_bit 47 x = mask 17" by (simp only: word_unat_eq_iff)
  have "bit x n" if "48 \<le> n" "n < 64" for n
    using arg_cong [OF top, of "\<lambda>w. bit w (n - 47)"] that
    by (simp add: bit_drop_bit_eq bit_mask_iff) arith
  then have "push_bit 48 (mask 16) OR x = x"
    by (intro bit_eqI) (auto simp: bit_or_iff bit_push_bit_iff bit_mask_iff)
  moreover have "(0xffff000000000000 :: u64) = push_bit 48 (mask 16)"
    by (simp add: mask_eq_exp_minus_1 push_bit_eq_mult)
  ultimately show ?thesis by (simp add: sign_extend_def)
qed

definition same_half :: "u64 \<Rightarrow> u64 \<Rightarrow> bool" where
  "same_half a b \<longleftrightarrow> b < USER_LIM \<or> KERNEL_VMA \<le> a"

lemma same_half_sign_extend:
  assumes "same_half a b" and "a \<le> x" and "x \<le> b"
  shows "sign_extend x = x"
  using assms sign_extend_user sign_extend_kernel unfolding same_half_def
  by (meson order_le_less_trans order_trans)

lemma same_half_sub:
  assumes "same_half a b" and "a \<le> a'" and "b' \<le> b"
  shows "same_half a' b'"
  using assms unfolding same_half_def by (meson order_le_less_trans order_trans)

definition slots :: "nat \<Rightarrow> u64 \<Rightarrow> u64 \<Rightarrow> u64 list" where
  "slots k a b = a # map (\<lambda>i. of_nat (i * 2 ^ k)) [Suc (unat a div 2 ^ k) ..< Suc (unat b div 2 ^ k)]"

fun run_slots :: "(u64 \<Rightarrow> 's \<Rightarrow> (int \<times> 's) option) \<Rightarrow> u64 list \<Rightarrow> 's \<Rightarrow> (int \<times> 's) option" where
  "run_slots body [] s = Some (0, s)"
| "run_slots body (b # bs) s = and_then (body b s) (run_slots body bs)"

lemma walk_next:
  fixes a :: u64
  assumes "k < 64"
  defines "n \<equiv> Suc (unat a div 2 ^ k) * 2 ^ k"
  shows "(a OR (2 ^ k - 1)) + 1 = (of_nat n :: u64)"
    and "n \<le> 2 ^ 64"
    and "n < 2 ^ 64 \<Longrightarrow> unat ((a OR (2 ^ k - 1)) + 1) = n"
    and "n = 2 ^ 64 \<Longrightarrow> (a OR (2 ^ k - 1)) + 1 = 0"
proof -
  have n: "unat (a OR (2 ^ k - 1)) + 1 = n"
    using assms by (simp add: unat_or_mask)
  have "of_nat (unat (a OR (2 ^ k - 1)) + 1) = (a OR (2 ^ k - 1)) + (1 :: u64)"
    by simp
  then show eq: "(a OR (2 ^ k - 1)) + 1 = (of_nat n :: u64)" by (simp only: n)
  show "n \<le> 2 ^ 64" using n unat_u64_less [of "a OR (2 ^ k - 1)"] by simp
  show "unat ((a OR (2 ^ k - 1)) + 1) = n" if "n < 2 ^ 64"
    using that by (simp add: eq unat_of_nat)
  show "(a OR (2 ^ k - 1)) + 1 = 0" if "n = 2 ^ 64"
    unfolding eq that by simp
qed

lemma slots_one: "unat a div 2 ^ k = unat b div 2 ^ k \<Longrightarrow> slots k a b = [a]"
  by (simp add: slots_def)

lemma slots_more:
  assumes "k < 64" and "unat a div 2 ^ k < unat b div 2 ^ k"
  defines "nx \<equiv> (a OR (2 ^ k - 1)) + 1"
  shows "slots k a b = a # slots k nx b" and "unat nx = Suc (unat a div 2 ^ k) * 2 ^ k"
    and "unat nx div 2 ^ k = Suc (unat a div 2 ^ k)" and "a \<le> nx" and "nx \<le> b" and "nx \<noteq> 0"
proof -
  let ?n = "Suc (unat a div 2 ^ k) * 2 ^ k"
  have "?n \<le> unat b div 2 ^ k * 2 ^ k" using assms(2) by (intro mult_le_mono1) simp
  also have nb: "\<dots> \<le> unat b" by (simp add: div_times_less_eq_dividend)
  finally have nle: "?n \<le> unat b" .
  then have "?n < 2 ^ 64" using unat_u64_less [of b] by simp
  then show nx: "unat nx = ?n" unfolding nx_def using walk_next(3) [OF assms(1)] by blast
  then show dv: "unat nx div 2 ^ k = Suc (unat a div 2 ^ k)" by simp
  show "nx \<le> b" using nle nx by (simp add: word_le_nat_alt)
  have "unat a < ?n" using dividend_less_div_times [of "2 ^ k" "unat a"] by simp
  then show "a \<le> nx" using nx by (simp add: word_le_nat_alt)
  show "nx \<noteq> 0" using nx by auto
  have "nx = of_nat ?n" unfolding nx_def using walk_next(1) [OF assms(1)] by blast
  then show "slots k a b = a # slots k nx b"
    using assms(2) dv by (simp add: slots_def upt_conv_Cons algebra_simps del: upt_Suc)
qed

lemma walk_loop_slots:
  assumes "k < 64" and "a \<le> b" and "same_half a b"
  shows "walk_loop (2 ^ k) body a b s = run_slots body (slots k a b) s"
  using assms(2,3)
proof (induction "unat b div 2 ^ k - unat a div 2 ^ k" arbitrary: a s)
  case 0
  let ?nx = "(a OR (2 ^ k - 1)) + 1"
  have ab: "unat a div 2 ^ k = unat b div 2 ^ k"
    using 0 div_le_mono [of "unat a" "unat b" "2 ^ k"] by (simp add: word_le_nat_alt)
  have sx: "sign_extend a = a" using 0 same_half_sign_extend by blast
  have "?nx = 0 \<or> \<not> ?nx \<le> b"
  proof (cases "Suc (unat a div 2 ^ k) * 2 ^ k < 2 ^ 64")
    case True
    have "unat b < Suc (unat a div 2 ^ k) * 2 ^ k"
      using ab dividend_less_div_times [of "2 ^ k" "unat b"] by simp
    then show ?thesis using walk_next(3) [OF assms(1) True] by (simp add: word_le_nat_alt)
  next
    case False
    then show ?thesis using walk_next(2,4) [OF assms(1), of a] by (metis le_neq_implies_less)
  qed
  then have "(if ?nx = 0 then Some (0, s') else walk_loop (2 ^ k) body ?nx b s') = Some (0, s')" for s'
    by (auto simp: walk_loop.simps [of _ _ ?nx])
  moreover have "run_slots body [] = (\<lambda>s. Some (0, s))" by (rule ext) simp
  ultimately show ?case using 0 sx
    by (subst walk_loop.simps) (simp add: slots_one [OF ab] Let_def)
next
  case (Suc n)
  let ?nx = "(a OR (2 ^ k - 1)) + 1"
  have lt: "unat a div 2 ^ k < unat b div 2 ^ k" using Suc.hyps(2) by simp
  note more = slots_more [OF assms(1) lt]
  have sx: "sign_extend a = a" using Suc.prems same_half_sign_extend by blast
  have half: "same_half ?nx b" using Suc.prems(2) more(4) same_half_sub by blast
  have "walk_loop (2 ^ k) body ?nx b s = run_slots body (slots k ?nx b) s" for s
    using Suc.hyps(1) [of ?nx s] Suc.hyps(2) more(3,5) half by simp
  then have "(\<lambda>s. walk_loop (2 ^ k) body ?nx b s) = run_slots body (slots k ?nx b)" by (rule ext)
  then show ?case using Suc.prems sx more(1,6)
    by (subst walk_loop.simps) (simp add: Let_def)
qed

lemma slots_bounds:
  assumes "k < 64" and "a \<le> b" and "c \<in> set (slots k a b)"
  shows "a \<le> c" and "c \<le> b"
  using assms(2,3)
proof (atomize (full), induction "unat b div 2 ^ k - unat a div 2 ^ k" arbitrary: a)
  case 0
  then show ?case
    using slots_one [of a k b] div_le_mono [of "unat a" "unat b" "2 ^ k"] by (simp add: word_le_nat_alt)
next
  case (Suc n)
  have lt: "unat a div 2 ^ k < unat b div 2 ^ k" using Suc.hyps(2) by simp
  note more = slots_more [OF assms(1) lt]
  show ?case
  proof (cases "c = a")
    case False
    then have "c \<in> set (slots k ((a OR (2 ^ k - 1)) + 1) b)" using Suc.prems more(1) by simp
    then show ?thesis
      using Suc.hyps(1) [of "(a OR (2 ^ k - 1)) + 1"] Suc.hyps(2) more(3,4,5) order_trans by fastforce
  qed (use Suc.prems in simp)
qed

lemma le_last: "0 < p \<Longrightarrow> v \<le> m * p + (p - 1) \<longleftrightarrow> \<not> Suc m * p \<le> (v :: nat)"
  by (simp add: not_le less_Suc_eq_le [symmetric] add.commute) linarith

lemma slot_last:
  fixes a b :: u64
  assumes "k < 64" and "unat a div 2 ^ k = unat b div 2 ^ k"
  shows "min (a OR (2 ^ k - 1)) b = (b :: u64)"
proof -
  have "unat b \<le> unat a div 2 ^ k * 2 ^ k + (2 ^ k - 1)"
    using assms(2) dividend_less_div_times [of "2 ^ k" "unat b"] by simp
  then show ?thesis
    by (simp add: min_def word_le_nat_alt unat_or_mask [OF assms(1)] word_unat_eq_iff)
qed

lemma slots_split:
  fixes a b :: u64
  assumes "k < 64" and "unat a div 2 ^ k < unat b div 2 ^ k"
  shows "x \<le> a OR (2 ^ k - 1) \<longleftrightarrow> \<not> (a OR (2 ^ k - 1)) + 1 \<le> (x :: u64)"
  unfolding word_le_nat_alt slots_more(2) [OF assms] unat_or_mask [OF assms(1)]
  by (rule le_last) simp

lemma slots_cover:
  assumes "k < 64" and "a \<le> b"
  shows "a \<le> x \<and> x \<le> b \<longleftrightarrow> (\<exists>c\<in>set (slots k a b). c \<le> x \<and> x \<le> min (c OR (2 ^ k - 1)) b)"
  using assms(2)
proof (induction "unat b div 2 ^ k - unat a div 2 ^ k" arbitrary: a)
  case 0
  then have ab: "unat a div 2 ^ k = unat b div 2 ^ k"
    using div_le_mono [of "unat a" "unat b" "2 ^ k"] by (simp add: word_le_nat_alt)
  then show ?case using slots_one [OF ab] slot_last [OF assms(1) ab] by simp
next
  case (Suc n)
  let ?nx = "(a OR (2 ^ k - 1)) + 1"
  have lt: "unat a div 2 ^ k < unat b div 2 ^ k" using Suc.hyps(2) by simp
  note more = slots_more [OF assms(1) lt]
  have split: "x \<le> a OR (2 ^ k - 1) \<longleftrightarrow> \<not> ?nx \<le> x"
    by (rule slots_split [OF assms(1) lt])
  have IH: "?nx \<le> x \<and> x \<le> b \<longleftrightarrow> (\<exists>c\<in>set (slots k ?nx b). c \<le> x \<and> x \<le> min (c OR (2 ^ k - 1)) b)"
    using Suc.hyps(1) [of ?nx] Suc.hyps(2) more(3,5) by simp
  show ?case unfolding more(1) using IH split more(4)
    by (auto intro: order_trans)
qed

lemma in_slot:
  assumes "k < 64" and "c \<le> x" and "x \<le> c OR (2 ^ k - 1)"
  shows "drop_bit k x = drop_bit k (c :: u64)"
proof -
  have "unat x \<le> unat c div 2 ^ k * 2 ^ k + (2 ^ k - 1)"
    using assms(3) by (simp add: word_le_nat_alt unat_or_mask [OF assms(1)])
  then have "unat x < Suc (unat c div 2 ^ k) * 2 ^ k" by (subst (asm) le_last) simp_all
  then have "unat x div 2 ^ k < Suc (unat c div 2 ^ k)" by (subst div_less_iff_less_mult) simp_all
  moreover have "unat c div 2 ^ k \<le> unat x div 2 ^ k"
    using assms(2) by (intro div_le_mono) (simp add: word_le_nat_alt)
  ultimately have "unat (drop_bit k x) = unat (drop_bit k c)" by (simp add: unat_drop_bit)
  then show ?thesis by (simp only: word_unat_eq_iff)
qed

lemma drop_start: "drop_bit k (c AND NOT (2 ^ k - 1)) = drop_bit k (c :: u64)"
  by (simp only: mask_eq_exp_minus_1 [symmetric])
    (rule bit_eqI, auto simp: bit_and_iff bit_not_iff bit_mask_iff bit_drop_bit_eq
      dest: bit_imp_le_length)

lemma drop_bit_above: "drop_bit k x = drop_bit k y \<Longrightarrow> k \<le> m \<Longrightarrow> drop_bit m x = drop_bit m (y :: u64)"
  by (metis drop_bit_drop_bit le_add_diff_inverse2)

lemma start_le: "c AND NOT (2 ^ k - 1) \<le> (c :: u64)"
  by (simp add: word_le_nat_alt unat_and_not_mask div_times_less_eq_dividend)

lemma start_mono:
  assumes "k \<le> m"
  shows "c AND NOT (2 ^ m - 1) \<le> c AND NOT (2 ^ k - 1 :: u64)"
proof -
  have "unat c div 2 ^ m * 2 ^ m = unat c div 2 ^ k div 2 ^ (m - k) * 2 ^ (m - k) * 2 ^ k"
    using assms by (simp add: div_mult2_eq [symmetric] mult.assoc power_add [symmetric])
  also have "\<dots> \<le> unat c div 2 ^ k * 2 ^ k" by (intro mult_le_mono1) simp
  finally show ?thesis by (simp add: word_le_nat_alt unat_and_not_mask)
qed

section \<open>The translation of an address\<close>

text \<open>
  The entry that maps an address, as the walker and the processor find it: \<open>Some None\<close> when a
  level is not present, \<open>None\<close> when a table lies outside the page array, so that \<^verbatim>\<open>KADDR\<close> panics.
\<close>

definition translate1 :: "vm \<Rightarrow> nat \<Rightarrow> u64 \<Rightarrow> entry_ptr option option" where
  "translate1 s ptbl x =
     (let e = Entry ptbl (PAGE_TABLE_INDEX x) in Some (if present (get_entry e s) then Some e else None))"

definition translate2 :: "vm \<Rightarrow> nat \<Rightarrow> u64 \<Rightarrow> entry_ptr option option" where
  "translate2 s pdir x =
     (let e = Entry pdir (PAGE_DIR_INDEX x)
      in if \<not> present (get_entry e s) then Some None
         else if huge (get_entry e s) then Some (Some e)
         else do { ptbl \<leftarrow> KADDR_table (PAGE_ADDR (get_entry e s)) s; translate1 s ptbl x })"

definition translate3 :: "vm \<Rightarrow> nat \<Rightarrow> u64 \<Rightarrow> entry_ptr option option" where
  "translate3 s pdpt x =
     (let e = Entry pdpt (PDPT_INDEX x)
      in if \<not> present (get_entry e s) then Some None
         else do { pdir \<leftarrow> KADDR_table (PAGE_ADDR (get_entry e s)) s; translate2 s pdir x })"

definition translate :: "vm \<Rightarrow> nat \<Rightarrow> u64 \<Rightarrow> entry_ptr option option" where
  "translate s pml4 x =
     (let e = Entry pml4 (PML4_INDEX x)
      in if \<not> present (get_entry e s) then Some None
         else do { pdpt \<leftarrow> KADDR_table (PAGE_ADDR (get_entry e s)) s; translate3 s pdpt x })"

lemmas index_defs = PAGE_TABLE_INDEX_def PAGE_DIR_INDEX_def PDPT_INDEX_def PML4_INDEX_def
  PAGE_TABLE_SHIFT_def PAGE_DIR_SHIFT_def PDPT_SHIFT_def PML4_SHIFT_def

lemma index_cong:
  assumes "drop_bit k x = drop_bit k (y :: u64)"
  shows "k \<le> 12 \<Longrightarrow> PAGE_TABLE_INDEX x = PAGE_TABLE_INDEX y"
    and "k \<le> 21 \<Longrightarrow> PAGE_DIR_INDEX x = PAGE_DIR_INDEX y"
    and "k \<le> 30 \<Longrightarrow> PDPT_INDEX x = PDPT_INDEX y"
    and "k \<le> 39 \<Longrightarrow> PML4_INDEX x = PML4_INDEX y"
  using drop_bit_above [OF assms, of 12] drop_bit_above [OF assms, of 21]
    drop_bit_above [OF assms, of 30] drop_bit_above [OF assms, of 39]
  by (simp_all add: index_defs)

lemma translate_cong:
  assumes "drop_bit 12 x = drop_bit 12 (y :: u64)"
  shows "translate1 s t x = translate1 s t y" "translate2 s t x = translate2 s t y"
    "translate3 s t x = translate3 s t y" "translate s t x = translate s t y"
proof -
  show *: "translate1 s t x = translate1 s t y" for t
    using index_cong(1) [OF assms] by (simp add: translate1_def)
  then show *: "translate2 s t x = translate2 s t y" for t
    using index_cong(2) [OF assms] by (simp add: translate2_def Let_def)
  then show *: "translate3 s t x = translate3 s t y" for t
    using index_cong(3) [OF assms] by (simp add: translate3_def Let_def)
  then show "translate s t x = translate s t y"
    using index_cong(4) [OF assms] by (simp add: translate_def Let_def)
qed

section \<open>The pages of a byte range\<close>

lemma ROUNDDOWN_page: "ROUNDDOWN a PAGE_SIZE = a AND NOT (2 ^ 12 - 1)"
  unfolding word_unat_eq_iff unat_ROUNDDOWN unat_and_not_mask
  by (simp add: PAGE_SIZE_def minus_mod_eq_div_mult)

lemma ROUNDUP_page:
  assumes "0 < w" and "unat w + 4096 \<le> 2 ^ 64"
  shows "ROUNDUP w PAGE_SIZE - 1 = (w - 1) OR (2 ^ 12 - 1)"
proof -
  have w: "0 < unat w" "unat (w - 1) = unat w - 1"
    using assms(1) by (simp_all add: unat_gt_0 unat_minus_one word_neq_0_conv)
  have P: "unat PAGE_SIZE = 4096" "0 < PAGE_SIZE" by (simp_all add: PAGE_SIZE_def)
  have "unat (ROUNDUP w PAGE_SIZE) = (unat w - 1 + 4096) div 4096 * 4096"
    using unat_ROUNDUP [OF P(2), of w] assms(2) w(1) by (simp add: P minus_mod_eq_div_mult)
  also have "\<dots> = (unat w - 1) div 4096 * 4096 + 4096"
    using div_add_self2 [of 4096 "unat w - 1"] by simp
  finally have up: "unat (ROUNDUP w PAGE_SIZE) = (unat w - 1) div 4096 * 4096 + 4096" .
  then have "ROUNDUP w PAGE_SIZE \<noteq> 0" by auto
  then have "unat (ROUNDUP w PAGE_SIZE - 1) = (unat w - 1) div 4096 * 4096 + 4095"
    using up by (simp add: unat_minus_one)
  also have "\<dots> = unat ((w - 1) OR (2 ^ 12 - 1))"
    using unat_or_mask [of 12 "w - 1"] w(2) by simp
  finally show ?thesis by (simp only: word_unat_eq_iff)
qed

lemma same_page_start:
  assumes "va AND NOT (2 ^ 12 - 1) \<le> x" and "x \<le> va"
  shows "drop_bit 12 x = drop_bit 12 (va :: u64)"
proof -
  have "x \<le> (va AND NOT (2 ^ 12 - 1)) OR (2 ^ 12 - 1)"
    using order_trans [OF assms(2) le_or, of "2 ^ 12 - 1"] unfolding start_or_mask .
  then have "drop_bit 12 x = drop_bit 12 (va AND NOT (2 ^ 12 - 1))"
    using in_slot [OF _ assms(1)] by simp
  then show ?thesis by (simp only: drop_start)
qed

text \<open>A non-empty byte range of the user half, its first and last page, and its last byte.\<close>

lemma byte_range:
  assumes "0 < sz" and fits: "unat va + unat sz \<le> unat USER_LIM"
  defines "l \<equiv> va + sz - 1"
  shows "ROUNDUP (va + sz) PAGE_SIZE - 1 = l OR (2 ^ 12 - 1)"
    and "same_half (va AND NOT (2 ^ 12 - 1)) (l OR (2 ^ 12 - 1))"
    and "x \<le> l \<longleftrightarrow> x < va + sz" and "va \<le> l"
proof -
  have nsum: "unat (va + sz) = unat va + unat sz" and sz: "0 < unat sz"
    using fits assms(1) by (simp_all add: USER_LIM_def unat_word_ariths unat_gt_0)
  then have pos: "0 < va + sz" by (simp add: word_less_nat_alt)
  then have nl: "unat l = unat va + unat sz - 1"
    unfolding l_def using nsum by (simp add: unat_minus_one word_neq_0_conv)
  show "x \<le> l \<longleftrightarrow> x < va + sz"
    using nl nsum sz by (auto simp: word_le_nat_alt word_less_nat_alt)
  show "va \<le> l" using nl sz by (simp add: word_le_nat_alt)
  show "ROUNDUP (va + sz) PAGE_SIZE - 1 = l OR (2 ^ 12 - 1)" unfolding l_def
    by (rule ROUNDUP_page [OF pos]) (use fits nsum in \<open>simp add: USER_LIM_def\<close>)
  have "unat l div 2 ^ 12 < 2 ^ 35" using fits nl sz by (simp add: USER_LIM_def)
  then have "unat l div 2 ^ 12 * 2 ^ 12 + (2 ^ 12 - 1) < 2 ^ 47" by simp
  then show "same_half (va AND NOT (2 ^ 12 - 1)) (l OR (2 ^ 12 - 1))"
    using unat_or_mask [of 12 l] by (simp add: same_half_def word_less_nat_alt USER_LIM_def)
qed

lemma near_range:
  assumes "va \<le> l" and "va AND NOT (2 ^ 12 - 1) \<le> x" and "x \<le> l OR (2 ^ 12 - 1 :: u64)"
  obtains y where "va \<le> y" and "y \<le> l" and "drop_bit 12 y = drop_bit 12 x"
proof -
  consider "x \<le> va" | "va \<le> x" "x \<le> l" | "l \<le> x" by (metis linear)
  then show ?thesis
  proof cases
    case 1
    then show ?thesis using that [of va] same_page_start [OF assms(2)] assms(1) by simp
  next
    case 2
    then show ?thesis using that [of x] by simp
  next
    case 3
    then show ?thesis using that [of l] in_slot [of 12 l x] assms(1,3) by simp
  qed
qed

section \<open>An example address space\<close>

text \<open>The tables in frames 1 to 4 map the page at address 0 to frame 5, writable for the user.\<close>

definition demo_frames :: "nat \<Rightarrow> nat \<Rightarrow> u64" where
  "demo_frames f i = (if i = 0 \<and> 1 \<le> f \<and> f \<le> 4 then page2pa (f + 1) OR 7 else 0)"

definition demo_vm :: vm where
  "demo_vm = \<lparr>vmem = one_block\<lparr>npages := 16, frames := demo_frames\<rparr>, cr3 = page2pa 1, flushed = [],
     cur_task = None, task_rss = \<lambda>_. 0, task_pml4 = \<lambda>_. 1\<rparr>"

lemma demo_entry: "get_entry (Entry 4 0) demo_vm = 0x5007"
  by (simp add: demo_vm_def get_entry_def demo_frames_def page2pa_def PAGE_TABLE_SHIFT_def)

lemma demo_translate: "translate demo_vm 1 0 = Some (Some (Entry 4 0))"
  by (simp add: translate_def translate3_def translate2_def translate1_def index_defs demo_vm_def
      get_entry_def demo_frames_def page2pa_def present_def huge_def PAGE_PRESENT_def PAGE_HUGE_def
      KADDR_table_def PAGE_INDEX_def PAGE_ADDR_def PAGE_MASK_def)

end
