(* ===== verification/User_Mem.thy ===== *)
theory User_Mem
  imports Page_Walk
begin

text \<open>
  \<^verbatim>\<open>kernel/mem/user.c\<close>: the check that user memory may be accessed, by a walk with callbacks that
  only read the page tables.  The main result says that the check succeeds exactly when
  every address of the range is mapped with the wanted permissions, and otherwise reports the
  first address that is not.
\<close>

section \<open>Operations\<close>

record user_info =
  uva :: u64
  uflags :: u64

definition check_user_hole :: "user_info hole_cb" where
  "check_user_hole base en us = (case us of (info, s) \<Rightarrow> Some (-1, (info\<lparr>uva := base\<rparr>, s)))"

definition check_user_pte :: "user_info entry_cb" where
  "check_user_pte entry base en us = (case us of (info, s) \<Rightarrow>
     (let flags = uflags info; e = get_entry entry s
      in if \<not> present e \<or> e AND PAGE_USER = 0 then Some (-1, (info\<lparr>uva := base\<rparr>, s))
         else if flags AND PAGE_WRITE \<noteq> 0 \<and> e AND PAGE_WRITE = 0 then Some (-1, (info\<lparr>uva := base\<rparr>, s))
         else if flags AND PAGE_NO_EXEC = 0 \<and> e AND PAGE_NO_EXEC \<noteq> 0
              then Some (-1, (info\<lparr>uva := base\<rparr>, s))
         else Some (0, (info, s))))"

definition check_user_pde :: "user_info entry_cb" where
  "check_user_pde entry base en us = (case us of (info, s) \<Rightarrow>
     (let flags = uflags info; e = get_entry entry s
      in if huge e then
           if \<not> present e \<or> e AND PAGE_USER = 0 then Some (-1, (info\<lparr>uva := base\<rparr>, s))
           else if flags AND PAGE_WRITE \<noteq> 0 \<and> e AND PAGE_WRITE = 0 then Some (-1, (info\<lparr>uva := base\<rparr>, s))
           else if flags AND PAGE_NO_EXEC = 0 \<and> e AND PAGE_NO_EXEC \<noteq> 0
                then Some (-1, (info\<lparr>uva := base\<rparr>, s))
           else Some (0, (info, s))
         else Some (0, (info, s))))"

definition user_walker :: "user_info page_walker" where
  "user_walker = no_walker\<lparr>pt_hole_callback := Some check_user_hole,
     pte_callback := Some check_user_pte, pde_callback := Some check_user_pde\<rparr>"

text \<open>The result is the return value and the address stored in \<^verbatim>\<open>*fault_va\<close>.\<close>

definition check_user_mem :: "nat \<Rightarrow> u64 \<Rightarrow> u64 \<Rightarrow> u64 \<Rightarrow> vm \<Rightarrow> (int \<times> u64 \<times> vm) option" where
  "check_user_mem pml4 va sz flags s =
     do { (ret, (info, s)) \<leftarrow> walk_page_range pml4 va (va + sz) user_walker
            (\<lparr>uva = 0, uflags = flags OR PAGE_PRESENT OR PAGE_USER\<rparr>, s);
          Some (ret, uva info, s) }"

section \<open>What the check decides\<close>

definition access_ok :: "u64 \<Rightarrow> u64 \<Rightarrow> bool" where
  "access_ok flags e \<longleftrightarrow> present e \<and> e AND PAGE_USER \<noteq> 0
     \<and> (flags AND PAGE_WRITE \<noteq> 0 \<longrightarrow> e AND PAGE_WRITE \<noteq> 0)
     \<and> (flags AND PAGE_NO_EXEC = 0 \<longrightarrow> e AND PAGE_NO_EXEC = 0)"

definition grants :: "u64 \<Rightarrow> vm \<Rightarrow> entry_ptr option option \<Rightarrow> bool" where
  "grants flags s t \<longleftrightarrow> (case t of Some (Some e) \<Rightarrow> access_ok flags (get_entry e s) | _ \<Rightarrow> False)"

definition user_ok :: "u64 \<Rightarrow> vm \<Rightarrow> nat \<Rightarrow> u64 \<Rightarrow> bool" where
  "user_ok flags s pml4 x = grants flags s (translate s pml4 x)"

text \<open>
  \<open>outcome k Q a b\<close>: the check of the addresses \<open>a\<close> to \<open>b\<close> against \<open>Q\<close>, with what is known
  of the address that is reported.
\<close>

definition outcome ::
  "nat \<Rightarrow> (u64 \<Rightarrow> bool) \<Rightarrow> u64 \<Rightarrow> u64 \<Rightarrow> user_info \<Rightarrow> vm \<Rightarrow> (int \<times> user_info \<times> vm) option \<Rightarrow> bool" where
  "outcome k Q a b u s res \<longleftrightarrow>
     res = Some (0, (u, s)) \<and> (\<forall>x. a \<le> x \<and> x \<le> b \<longrightarrow> Q x) \<or>
     (\<exists>f. res = Some (-1, (u\<lparr>uva := f\<rparr>, s)) \<and> \<not> Q f \<and> \<not> Q (max a f) \<and> f \<le> b
        \<and> a AND NOT (2 ^ k - 1) \<le> f \<and> (\<forall>x. a \<le> x \<and> x < f \<longrightarrow> Q x))"

lemma outcome_ok:
  "outcome k Q a b u s (Some (0, (u, s)))" if "\<And>x. a \<le> x \<Longrightarrow> x \<le> b \<Longrightarrow> Q x"
  using that by (auto simp: outcome_def)

lemma outcome_fail:
  assumes "\<And>x. drop_bit k x = drop_bit k a \<Longrightarrow> \<not> Q x" and "a \<le> b" and "k \<le> m"
  shows "outcome m Q a b u s (Some (-1, (u\<lparr>uva := a AND NOT (2 ^ k - 1)\<rparr>, s)))"
proof -
  let ?f = "a AND NOT (2 ^ k - 1)"
  have "?f \<le> a" by (rule start_le)
  then have "max a ?f = a" by (simp add: max_def)
  moreover have "?f \<le> b" using \<open>?f \<le> a\<close> assms(2) by (rule order_trans)
  moreover have "\<not> Q ?f" using assms(1) drop_start by blast
  moreover have "\<not> Q a" using assms(1) by blast
  ultimately show ?thesis using \<open>?f \<le> a\<close> start_mono [OF assms(3), of a] by (auto simp: outcome_def)
qed

lemma outcome_lift:
  assumes out: "outcome k Q a b u s res" and "k \<le> m" and "m < 64" and "a \<le> b" and "b \<le> a OR (2 ^ m - 1)"
    and same: "\<And>x. drop_bit m x = drop_bit m a \<Longrightarrow> Q x = R x"
  shows "outcome m R a b u s res"
proof -
  let ?c = "a AND NOT (2 ^ m - 1)"
  have eq: "Q x = R x" if "?c \<le> x" "x \<le> b" for x
    using same in_slot [OF assms(3) that(1)] order_trans [OF that(2) assms(5)] start_or_mask drop_start by metis
  have c: "?c \<le> a" by (rule start_le)
  from out consider "res = Some (0, (u, s))" "\<forall>x. a \<le> x \<and> x \<le> b \<longrightarrow> Q x"
    | f where "res = Some (-1, (u\<lparr>uva := f\<rparr>, s))" "\<not> Q f" "\<not> Q (max a f)" "f \<le> b"
        "?c \<le> f" "\<forall>x. a \<le> x \<and> x < f \<longrightarrow> Q x"
    unfolding outcome_def using start_mono [OF assms(2), of a] by (blast intro: order_trans)
  then show ?thesis
  proof cases
    case 1
    then show ?thesis unfolding outcome_def using eq c by (blast intro: order_trans)
  next
    case 2
    have "?c \<le> max a f" "max a f \<le> b" using c 2(4) assms(4) by (simp_all add: le_max_iff_disj)
    then have "\<not> R f" "\<not> R (max a f)" using eq 2(2-5) by blast+
    moreover have "R x" if "a \<le> x" "x < f" for x
      using 2(6) eq [of x] that c 2(4) by (meson less_imp_le order_trans)
    ultimately show ?thesis unfolding outcome_def using 2(1,4,5) by blast
  qed
qed

lemma outcome_then:
  assumes "outcome k Q a c u s res" and "outcome k Q n b u s (rest (u, s))"
    and "n AND NOT (2 ^ k - 1) = n" and "a \<le> n" and "c \<le> b" and "\<And>x. x \<le> c \<longleftrightarrow> \<not> n \<le> x"
  shows "outcome k Q a b u s (and_then res rest)"
proof (cases "res = Some (0, (u, s)) \<and> (\<forall>x. a \<le> x \<and> x \<le> c \<longrightarrow> Q x)")
  case True
  have below: "Q x" if "a \<le> x" "\<not> n \<le> x" for x using True that assms(6) by blast
  from assms(2) consider "rest (u, s) = Some (0, (u, s))" "\<forall>x. n \<le> x \<and> x \<le> b \<longrightarrow> Q x"
    | f where "rest (u, s) = Some (-1, (u\<lparr>uva := f\<rparr>, s))" "\<not> Q f" "f \<le> b" "n \<le> f"
        "\<forall>x. n \<le> x \<and> x < f \<longrightarrow> Q x"
    unfolding outcome_def assms(3) by blast
  then show ?thesis
  proof cases
    case 1
    then show ?thesis using True below by (auto simp: outcome_def and_then_def)
  next
    case 2
    have "max a f = f" using assms(4) 2(4) by (simp add: max_def order_trans)
    moreover have "a AND NOT (2 ^ k - 1) \<le> f"
      using start_le [of a k] assms(4) 2(4) by (blast intro: order_trans)
    moreover have "Q x" if "a \<le> x" "x < f" for x using below 2(5) that by blast
    ultimately show ?thesis unfolding outcome_def using True 2(1-3)
      by (intro disjI2 exI [of _ f]) (simp add: and_then_def)
  qed
next
  case False
  then show ?thesis using assms(1,5) unfolding outcome_def
    by (auto simp: and_then_def intro: order_trans)
qed

lemma walk_outcome:
  assumes "k < 64" and "a \<le> b" and "same_half a b"
    and body: "\<And>c. a \<le> c \<Longrightarrow> c \<le> b \<Longrightarrow> outcome k Q c (min (c OR (2 ^ k - 1)) b) u s (body c (u, s))"
  shows "outcome k Q a b u s (walk_loop (2 ^ k) body a b (u, s))"
proof -
  have "outcome k Q a b u s (run_slots body (slots k a b) (u, s))"
    using assms(2) body
  proof (induction "unat b div 2 ^ k - unat a div 2 ^ k" arbitrary: a)
    case 0
    then have ab: "unat a div 2 ^ k = unat b div 2 ^ k"
      using div_le_mono [of "unat a" "unat b" "2 ^ k"] by (simp add: word_le_nat_alt)
    then have "min (a OR (2 ^ k - 1)) b = b" by (rule slot_last [OF assms(1)])
    then have "outcome k Q a b u s (body a (u, s))" using 0(3) [OF order_refl 0(2)] by simp
    then show ?case unfolding slots_one [OF ab] by (auto simp: outcome_def and_then_def)
  next
    case (Suc n)
    let ?c = "a OR (2 ^ k - 1)" and ?nx = "(a OR (2 ^ k - 1)) + 1"
    have lt: "unat a div 2 ^ k < unat b div 2 ^ k" using Suc.hyps(2) by simp
    note more = slots_more [OF assms(1) lt]
    have split: "x \<le> ?c \<longleftrightarrow> \<not> ?nx \<le> x" for x
      by (rule slots_split [OF assms(1) lt])
    have cb: "?c \<le> b" using split [of ?c] more(5) by (simp add: not_le less_le_trans less_imp_le)
    have "outcome k Q ?nx b u s (run_slots body (slots k ?nx b) (u, s))"
    proof (rule Suc.hyps(1))
      show "n = unat b div 2 ^ k - unat ?nx div 2 ^ k" using Suc.hyps(2) more(3) by simp
      show "outcome k Q c (min (c OR 2 ^ k - 1) b) u s (body c (u, s))" if "?nx \<le> c" "c \<le> b" for c
        using Suc.prems(2) [of c] that more(4) by (blast intro: order_trans)
    qed (rule more(5))
    moreover have "outcome k Q a ?c u s (body a (u, s))"
      using Suc.prems(2) [OF order_refl Suc.prems(1)] cb by (simp add: min.absorb1)
    moreover have "?nx AND NOT (2 ^ k - 1) = ?nx"
      by (simp add: word_unat_eq_iff unat_and_not_mask more(2,3))
    ultimately show ?case unfolding more(1) run_slots.simps
      by (intro outcome_then [where n = ?nx and c = ?c] more(4) cb split)
  qed
  then show ?thesis by (simp only: walk_loop_slots [OF assms(1-3)])
qed

section \<open>The check at each level\<close>

lemma access_ok_present: "access_ok flags e \<Longrightarrow> present e"
  by (simp add: access_ok_def)

lemma user_walker_simps [simp]:
  "pte_callback user_walker = Some check_user_pte" "pde_callback user_walker = Some check_user_pde"
  "pdpte_callback user_walker = None" "pml4e_callback user_walker = None"
  "pde_unmap user_walker = None" "pdpte_unmap user_walker = None" "pml4e_unmap user_walker = None"
  "pt_hole_callback user_walker = Some check_user_hole"
  by (simp_all add: user_walker_def no_walker_def)

lemma check_user_pte_eq:
  "check_user_pte entry base en (u, s) =
     (if access_ok (uflags u) (get_entry entry s) then Some (0, (u, s)) else Some (-1, (u\<lparr>uva := base\<rparr>, s)))"
  by (simp add: check_user_pte_def access_ok_def Let_def)

lemma check_user_pde_eq:
  "check_user_pde entry base en (u, s) =
     (if huge (get_entry entry s) \<and> \<not> access_ok (uflags u) (get_entry entry s)
      then Some (-1, (u\<lparr>uva := base\<rparr>, s)) else Some (0, (u, s)))"
  by (simp add: check_user_pde_def access_ok_def Let_def)

lemma outcome_done:
  "outcome k Q a b u s res \<Longrightarrow> outcome k Q a b u s (and_then res (\<lambda>us. Some (0, us)))"
  by (auto simp: outcome_def)

lemma ptbl_check:
  assumes "a \<le> b" and "same_half a b"
  shows "outcome 12 (\<lambda>x. grants (uflags u) s (translate1 s t x)) a b u s
    (ptbl_walk_range user_walker t a b (u, s))"
proof -
  have "outcome 12 (\<lambda>x. grants (uflags u) s (translate1 s t x)) c (min (c OR 2 ^ 12 - 1) b) u s
      (ptbl_step user_walker t c (u, s))" if "a \<le> c" "c \<le> b" for c
  proof -
    let ?Q = "\<lambda>x. grants (uflags u) s (translate1 s t x)" and ?e = "get_entry (Entry t (PAGE_TABLE_INDEX c)) s"
    have Q: "?Q x = access_ok (uflags u) ?e" if "drop_bit 12 x = drop_bit 12 c" for x
      unfolding translate_cong(1) [OF that]
      by (auto simp: translate1_def grants_def Let_def access_ok_def)
    show ?thesis
    proof (cases "access_ok (uflags u) ?e")
      case True
      then have "ptbl_step user_walker t c (u, s) = Some (0, (u, s))"
        by (simp add: ptbl_step_def check_user_pte_eq Let_def) (simp add: access_ok_def)
      moreover have "?Q x" if "c \<le> x" "x \<le> min (c OR 2 ^ 12 - 1) b" for x
        using Q [OF in_slot [of 12]] True that by simp
      ultimately show ?thesis using outcome_ok by metis
    next
      case False
      then have "ptbl_step user_walker t c (u, s) = Some (-1, (u\<lparr>uva := c AND NOT (2 ^ 12 - 1)\<rparr>, s))"
        by (simp add: ptbl_step_def check_user_pte_eq Let_def ptbl_start_def PAGE_SIZE_def)
      then show ?thesis using outcome_fail [of 12 c ?Q _ 12] Q False that
        by (simp only:) (rule outcome_fail, auto simp: le_or)
    qed
  qed
  then show ?thesis
    using walk_outcome [of 12 a b _ u s] assms same_half_sign_extend [OF assms(2)]
    by (simp add: ptbl_walk_range_def spans)
qed

lemma grants_simps [simp]:
  "\<not> grants flags s None" "\<not> grants flags s (Some None)"
  "grants flags s (Some (Some e)) = access_ok flags (get_entry e s)"
  by (simp_all add: grants_def)

text \<open>An upper level refers the part of the range below an entry to the next level.\<close>

lemma outcome_refer:
  assumes "k \<le> m" and "m < 64" and "c \<le> b"
    and "outcome k Q c (min (c OR 2 ^ m - 1) b) u s res"
    and "\<And>x. drop_bit m x = drop_bit m c \<Longrightarrow> Q x = R x"
  shows "outcome m R c (min (c OR 2 ^ m - 1) b) u s (and_then res (\<lambda>us. Some (0, us)))"
  by (rule outcome_done, rule outcome_lift [OF assms(4,1,2)]) (use assms(3,5) le_or in auto)

lemma pdir_check:
  assumes "a \<le> b" and "same_half a b" and tabs: "\<And>x. a \<le> x \<Longrightarrow> x \<le> b \<Longrightarrow> translate2 s t x \<noteq> None"
  shows "outcome 21 (\<lambda>x. grants (uflags u) s (translate2 s t x)) a b u s
    (pdir_walk_range user_walker t a b (u, s))"
proof -
  let ?Q = "\<lambda>x. grants (uflags u) s (translate2 s t x)"
  have "outcome 21 ?Q c (min (c OR 2 ^ 21 - 1) b) u s (pdir_step user_walker t b c (u, s))"
    if c: "a \<le> c" "c \<le> b" for c
  proof -
    let ?i = "PAGE_DIR_INDEX c"
    let ?e = "get_entry (Entry t ?i) s"
    have step: "pdir_step user_walker t b c (u, s) =
       (if huge ?e \<and> \<not> access_ok (uflags u) ?e \<or> \<not> present ?e
        then Some (-1, (u\<lparr>uva := c AND NOT (2 ^ 21 - 1)\<rparr>, s))
        else if huge ?e then Some (0, (u, s))
        else do { ptbl \<leftarrow> KADDR_table (PAGE_ADDR ?e) s;
                  and_then (ptbl_walk_range user_walker ptbl c (min (c OR 2 ^ 21 - 1) b) (u, s))
                    (\<lambda>us. Some (0, us)) })"
      by (simp add: pdir_step_def check_user_pde_eq check_user_hole_def Let_def pdir_start_def pdir_end_def
          span_exp(2) call_entry_None)
    have idx: "PAGE_DIR_INDEX x = ?i" if "drop_bit 21 x = drop_bit 21 c" for x
      using index_cong(2) [OF that] by simp
    consider "huge ?e \<and> \<not> access_ok (uflags u) ?e \<or> \<not> present ?e"
      | "huge ?e" "access_ok (uflags u) ?e" | "\<not> huge ?e" "present ?e" by blast
    then show ?thesis
    proof cases
      case 1
      then have "\<not> ?Q x" if "drop_bit 21 x = drop_bit 21 c" for x
        using idx [OF that] by (auto simp: translate2_def Let_def)
      then show ?thesis using step 1 c by (simp only: if_True) (rule outcome_fail, auto simp: le_or)
    next
      case 2
      then have "?Q x" if "c \<le> x" "x \<le> min (c OR 2 ^ 21 - 1) b" for x
        using idx [OF in_slot [of 21]] that by (simp add: translate2_def access_ok_def)
      moreover have "pdir_step user_walker t b c (u, s) = Some (0, (u, s))"
        using step 2 access_ok_present [OF 2(2)] by simp
      ultimately show ?thesis using outcome_ok by metis
    next
      case 3
      then obtain pt where pt: "KADDR_table (PAGE_ADDR ?e) s = Some pt"
        using tabs [OF c] by (auto simp: translate2_def Let_def bind_eq_Some_conv)
      have "grants (uflags u) s (translate1 s pt x) = ?Q x" if "drop_bit 21 x = drop_bit 21 c" for x
        using idx [OF that] 3 pt by (simp add: translate2_def)
      moreover have "same_half c (min (c OR 2 ^ 21 - 1) b)"
        using assms(2) c same_half_sub by (metis min.cobounded2)
      moreover have "pdir_step user_walker t b c (u, s) = and_then
          (ptbl_walk_range user_walker pt c (min (c OR 2 ^ 21 - 1) b) (u, s)) (\<lambda>us. Some (0, us))"
        using step 3 pt by simp
      ultimately show ?thesis using c(2)
        by (simp only:) (rule outcome_refer [OF _ _ c(2) ptbl_check], simp_all add: le_or)
    qed
  qed
  then show ?thesis
    using walk_outcome [of 21 a b _ u s] assms same_half_sign_extend [OF assms(2)]
    by (simp add: pdir_walk_range_def spans)
qed

lemma pdpt_check:
  assumes "a \<le> b" and "same_half a b" and tabs: "\<And>x. a \<le> x \<Longrightarrow> x \<le> b \<Longrightarrow> translate3 s t x \<noteq> None"
  shows "outcome 30 (\<lambda>x. grants (uflags u) s (translate3 s t x)) a b u s
    (pdpt_walk_range user_walker t a b (u, s))"
proof -
  let ?Q = "\<lambda>x. grants (uflags u) s (translate3 s t x)"
  have "outcome 30 ?Q c (min (c OR 2 ^ 30 - 1) b) u s (pdpt_step user_walker t b c (u, s))"
    if c: "a \<le> c" "c \<le> b" for c
  proof -
    let ?i = "PDPT_INDEX c" and ?m = "min (c OR 2 ^ 30 - 1) b"
    let ?e = "get_entry (Entry t ?i) s"
    have step: "pdpt_step user_walker t b c (u, s) =
       (if \<not> present ?e then Some (-1, (u\<lparr>uva := c AND NOT (2 ^ 30 - 1)\<rparr>, s))
        else do { table \<leftarrow> KADDR_table (PAGE_ADDR ?e) s;
                  and_then (pdir_walk_range user_walker table c ?m (u, s)) (\<lambda>us. Some (0, us)) })"
      by (simp add: pdpt_step_def check_user_hole_def Let_def pdpt_start_def pdpt_end_def spans call_entry_None)
    have idx: "PDPT_INDEX x = ?i" if "drop_bit 30 x = drop_bit 30 c" for x
      using index_cong(3) [OF that] by simp
    show ?thesis
    proof (cases "present ?e")
      case False
      then have "\<not> ?Q x" if "drop_bit 30 x = drop_bit 30 c" for x
        using idx [OF that] by (auto simp: translate3_def)
      then show ?thesis using step False c by (simp only: if_True simp_thms) (rule outcome_fail, auto simp: le_or)
    next
      case True
      then obtain pt where pt: "KADDR_table (PAGE_ADDR ?e) s = Some pt"
        using tabs [OF c] by (auto simp: translate3_def Let_def bind_eq_Some_conv)
      have tr: "translate3 s t x = translate2 s pt x" if "drop_bit 30 x = drop_bit 30 c" for x
        using idx [OF that] True pt by (simp add: translate3_def)
      have "same_half c ?m"
        using assms(2) c same_half_sub by (metis min.cobounded2)
      moreover have "translate2 s pt x \<noteq> None" if "c \<le> x" "x \<le> ?m" for x
        using tabs [OF order_trans [OF c(1) that(1)]] tr [OF in_slot [of 30]] that by simp
      moreover have "pdpt_step user_walker t b c (u, s) =
          and_then (pdir_walk_range user_walker pt c ?m (u, s)) (\<lambda>us. Some (0, us))"
        using step True pt by simp
      ultimately show ?thesis using c(2) tr
        by (simp only:) (rule outcome_refer [OF _ _ c(2) pdir_check], simp_all add: le_or)
    qed
  qed
  then show ?thesis
    using walk_outcome [of 30 a b _ u s] assms same_half_sign_extend [OF assms(2)]
    by (simp add: pdpt_walk_range_def spans)
qed

lemma pml4_check:
  assumes "a \<le> b" and "same_half a b" and tabs: "\<And>x. a \<le> x \<Longrightarrow> x \<le> b \<Longrightarrow> translate s t x \<noteq> None"
  shows "outcome 39 (\<lambda>x. grants (uflags u) s (translate s t x)) a b u s
    (pml4_walk_range user_walker t a b (u, s))"
proof -
  let ?Q = "\<lambda>x. grants (uflags u) s (translate s t x)"
  have "outcome 39 ?Q c (min (c OR 2 ^ 39 - 1) b) u s (pml4_step user_walker t b c (u, s))"
    if c: "a \<le> c" "c \<le> b" for c
  proof -
    let ?i = "PML4_INDEX c" and ?m = "min (c OR 2 ^ 39 - 1) b"
    let ?e = "get_entry (Entry t ?i) s"
    have step: "pml4_step user_walker t b c (u, s) =
       (if \<not> present ?e then Some (-1, (u\<lparr>uva := c AND NOT (2 ^ 39 - 1)\<rparr>, s))
        else do { table \<leftarrow> KADDR_table (PAGE_ADDR ?e) s;
                  and_then (pdpt_walk_range user_walker table c ?m (u, s)) (\<lambda>us. Some (0, us)) })"
      by (simp add: pml4_step_def check_user_hole_def Let_def pml4_start_def pml4_end_def spans call_entry_None)
    have idx: "PML4_INDEX x = ?i" if "drop_bit 39 x = drop_bit 39 c" for x
      using index_cong(4) [OF that] by simp
    show ?thesis
    proof (cases "present ?e")
      case False
      then have "\<not> ?Q x" if "drop_bit 39 x = drop_bit 39 c" for x
        using idx [OF that] by (auto simp: translate_def)
      then show ?thesis using step False c by (simp only: if_True simp_thms) (rule outcome_fail, auto simp: le_or)
    next
      case True
      then obtain pt where pt: "KADDR_table (PAGE_ADDR ?e) s = Some pt"
        using tabs [OF c] by (auto simp: translate_def Let_def bind_eq_Some_conv)
      have tr: "translate s t x = translate3 s pt x" if "drop_bit 39 x = drop_bit 39 c" for x
        using idx [OF that] True pt by (simp add: translate_def)
      have "same_half c ?m"
        using assms(2) c same_half_sub by (metis min.cobounded2)
      moreover have "translate3 s pt x \<noteq> None" if "c \<le> x" "x \<le> ?m" for x
        using tabs [OF order_trans [OF c(1) that(1)]] tr [OF in_slot [of 39]] that by simp
      moreover have "pml4_step user_walker t b c (u, s) =
          and_then (pdpt_walk_range user_walker pt c ?m (u, s)) (\<lambda>us. Some (0, us))"
        using step True pt by simp
      ultimately show ?thesis using c(2) tr
        by (simp only:) (rule outcome_refer [OF _ _ c(2) pdpt_check], simp_all add: le_or)
    qed
  qed
  then show ?thesis
    using walk_outcome [of 39 a b _ u s] assms same_half_sign_extend [OF assms(2)]
    by (simp add: pml4_walk_range_def spans)
qed

section \<open>The check of a byte range\<close>

lemma access_ok_flags: "access_ok (flags OR PAGE_PRESENT OR PAGE_USER) = access_ok flags"
proof -
  have "(flags OR PAGE_PRESENT OR PAGE_USER) AND PAGE_WRITE = flags AND PAGE_WRITE"
    "(flags OR PAGE_PRESENT OR PAGE_USER) AND PAGE_NO_EXEC = flags AND PAGE_NO_EXEC"
    by (simp_all only: bit.conj_disj_distrib2)
      (simp_all add: PAGE_PRESENT_def PAGE_USER_def PAGE_WRITE_def PAGE_NO_EXEC_def)
  then show ?thesis by (intro ext) (simp add: access_ok_def)
qed

lemma user_ok_cong:
  "drop_bit 12 x = drop_bit 12 y \<Longrightarrow> user_ok flags s pml4 x = user_ok flags s pml4 y"
  using translate_cong(4) [of x y s pml4] by (simp add: user_ok_def)

text \<open>From the pages of the range to its bytes.\<close>

lemma outcome_bytes:
  assumes out: "outcome k Q (va AND NOT (2 ^ 12 - 1)) (l OR (2 ^ 12 - 1)) u s res" and "va \<le> l"
    and cong: "\<And>x y. drop_bit 12 x = drop_bit 12 y \<Longrightarrow> Q x = Q y"
  shows "res = Some (0, (u, s)) \<and> (\<forall>x. va \<le> x \<and> x \<le> l \<longrightarrow> Q x) \<or>
     (\<exists>f. res = Some (-1, (u\<lparr>uva := f\<rparr>, s)) \<and> f \<le> l \<and> \<not> Q f \<and> \<not> Q (max va f)
        \<and> (\<forall>x. va \<le> x \<and> x < f \<longrightarrow> Q x))"
proof -
  let ?a = "va AND NOT (2 ^ 12 - 1)" and ?b = "l OR (2 ^ 12 - 1)"
  have a: "?a \<le> va" and b: "l \<le> ?b" by (rule start_le, rule le_or)
  from out consider "res = Some (0, (u, s))" "\<forall>x. ?a \<le> x \<and> x \<le> ?b \<longrightarrow> Q x"
    | f where "res = Some (-1, (u\<lparr>uva := f\<rparr>, s))" "\<not> Q f" "\<not> Q (max ?a f)" "f \<le> ?b"
        "\<forall>x. ?a \<le> x \<and> x < f \<longrightarrow> Q x"
    unfolding outcome_def by blast
  then show ?thesis
  proof cases
    case 1
    then show ?thesis using a b by (blast intro: order_trans)
  next
    case 2
    have "f \<le> l"
    proof (rule ccontr)
      assume "\<not> f \<le> l"
      then have "l < f" by simp
      then have "Q l" using 2(5) a assms(2) by (blast intro: order_trans)
      moreover have "drop_bit 12 f = drop_bit 12 l" using in_slot [of 12 l f] \<open>l < f\<close> 2(4) by simp
      ultimately show False using 2(2) cong by blast
    qed
    moreover have "\<not> Q (max va f)"
    proof (cases "va \<le> f")
      case False
      then have "drop_bit 12 (max ?a f) = drop_bit 12 va" using same_page_start [of va "max ?a f"] a by simp
      then show ?thesis using 2(3) cong False by (metis max_absorb1 linear)
    next
      case True
      then show ?thesis using 2(2) by (simp add: max_absorb2)
    qed
    ultimately show ?thesis using 2 a by (blast intro: order_trans)
  qed
qed

lemma check_user_mem_range:
  assumes "0 < sz" and fits: "unat va + unat sz \<le> unat USER_LIM"
    and tabs: "\<And>x. va \<le> x \<Longrightarrow> x < va + sz \<Longrightarrow> translate s pml4 x \<noteq> None"
  shows "\<exists>r f. check_user_mem pml4 va sz flags s = Some (r, f, s) \<and>
     (r = 0 \<and> (\<forall>x. va \<le> x \<and> x < va + sz \<longrightarrow> user_ok flags s pml4 x) \<or>
      r = -1 \<and> f < va + sz \<and> \<not> user_ok flags s pml4 f \<and> \<not> user_ok flags s pml4 (max va f)
        \<and> (\<forall>x. va \<le> x \<and> x < f \<longrightarrow> user_ok flags s pml4 x))"
proof -
  let ?l = "va + sz - 1" and ?Q = "user_ok flags s pml4"
  let ?a = "va AND NOT (2 ^ 12 - 1)" and ?b = "?l OR (2 ^ 12 - 1)"
  let ?u = "\<lparr>uva = 0, uflags = flags OR PAGE_PRESENT OR PAGE_USER\<rparr>"
  note range = byte_range [OF assms(1,2)]
  have ab: "?a \<le> ?b" using start_le range(4) le_or by (blast intro: order_trans)
  have "translate s pml4 x \<noteq> None" if "?a \<le> x" "x \<le> ?b" for x
    using near_range [OF range(4) that] tabs range(3) translate_cong(4) by metis
  then have "outcome 39 (\<lambda>x. grants (uflags ?u) s (translate s pml4 x)) ?a ?b ?u s
      (pml4_walk_range user_walker pml4 ?a ?b (?u, s))"
    using pml4_check [OF ab range(2)] by blast
  moreover have "(\<lambda>x. grants (uflags ?u) s (translate s pml4 x)) = ?Q"
    by (rule ext) (simp add: user_ok_def grants_def access_ok_flags split: option.split)
  moreover have "walk_page_range pml4 va (va + sz) user_walker = pml4_walk_range user_walker pml4 ?a ?b"
    by (rule ext) (simp only: walk_page_range_def ROUNDDOWN_page range(1))
  ultimately have "outcome 39 ?Q ?a ?b ?u s (walk_page_range pml4 va (va + sz) user_walker (?u, s))"
    by (simp only:)
  from outcome_bytes [OF this range(4) user_ok_cong] show ?thesis
    unfolding range(3) by (auto simp: check_user_mem_def)
qed

text \<open>
  C12: for a non-empty range of user addresses whose page tables lie in physical memory,
  \<^verbatim>\<open>check_user_mem\<close> returns without changing anything; it returns 0 exactly when every byte of the
  range is mapped present, for user mode, and with the write and execute rights asked for,
  and otherwise it returns -1 and reports an address that fails the test such that every
  byte of the range before it passes, and the range fails at that address or at its first byte.
\<close>

theorem check_user_mem_spec:
  assumes "0 < sz" and "unat va + unat sz \<le> unat USER_LIM"
    and "\<And>x. va \<le> x \<Longrightarrow> x < va + sz \<Longrightarrow> translate s pml4 x \<noteq> None"
  shows "\<exists>r f. check_user_mem pml4 va sz flags s = Some (r, f, s) \<and>
     (r = 0 \<and> (\<forall>x. va \<le> x \<and> x < va + sz \<longrightarrow> user_ok flags s pml4 x) \<or>
      r = -1 \<and> f < va + sz \<and> \<not> user_ok flags s pml4 f \<and> \<not> user_ok flags s pml4 (max va f)
        \<and> (\<forall>x. va \<le> x \<and> x < f \<longrightarrow> user_ok flags s pml4 x))"
  using assms by (rule check_user_mem_range)

lemma demo_first_page:
  assumes "x < 4096"
  shows "translate demo_vm 1 x = Some (Some (Entry 4 0))"
proof -
  have "drop_bit 12 x = drop_bit 12 0"
    using in_slot [of 12 0 x] assms by (simp add: word_less_nat_alt word_le_nat_alt)
  then show ?thesis using translate_cong(4) [of x 0] demo_translate by simp
qed

theorem check_user_mem_spec_witness:
  "\<exists>f. check_user_mem 1 0 16 PAGE_WRITE demo_vm = Some (0, f, demo_vm)"
proof -
  have ok: "user_ok PAGE_WRITE demo_vm 1 x" if "x < 4096" for x
    using demo_first_page [OF that] demo_entry
    by (simp add: user_ok_def access_ok_def present_def PAGE_PRESENT_def PAGE_USER_def PAGE_WRITE_def
        PAGE_NO_EXEC_def)
  have "x < 4096" if "x < 16" for x :: u64 using that by (simp add: word_less_nat_alt)
  then show ?thesis
    using check_user_mem_spec [of 16 0 demo_vm 1 PAGE_WRITE] demo_first_page ok
    by (auto simp: USER_LIM_def max_def)
qed

end
