(* ===== verification/Page_Table.thy ===== *)
theory Page_Table
  imports Page_Walk
begin

text \<open>
  The page table operations built on the walker: \<^verbatim>\<open>kernel/mem/ptbl.c\<close>, \<^verbatim>\<open>lookup.c\<close>, \<^verbatim>\<open>insert.c\<close>,
  \<^verbatim>\<open>remove.c\<close>, \<^verbatim>\<open>protect.c\<close>, \<^verbatim>\<open>populate.c\<close> and \<^verbatim>\<open>map.c\<close>.

  When a page allocation fails these functions call \<^verbatim>\<open>oom_kill_task\<close>, which destroys a task and
  so unmaps its pages with the functions of this theory.  The recursion is left open here:
  every operation that may allocate takes the action \<open>oom\<close> of \<^verbatim>\<open>oom_kill_task\<close> on the state as
  its first argument.
\<close>

section \<open>Access to the page allocator\<close>

definition vm_page_alloc :: "u32 \<Rightarrow> vm \<Rightarrow> (nat option \<times> vm) option" where
  "vm_page_alloc flags s = do { (p, m) \<leftarrow> page_alloc flags (vmem s); Some (p, s\<lparr>vmem := m\<rparr>) }"

definition vm_page_decref :: "nat \<Rightarrow> vm \<Rightarrow> vm option" where
  "vm_page_decref p s = do { m \<leftarrow> page_decref p (vmem s); Some (s\<lparr>vmem := m\<rparr>) }"

definition vm_upd_page :: "nat \<Rightarrow> (page_info \<Rightarrow> page_info) \<Rightarrow> vm \<Rightarrow> vm" where
  "vm_upd_page p f s = s\<lparr>vmem := upd_page p f (vmem s)\<rparr>"

definition incref :: "nat \<Rightarrow> vm \<Rightarrow> vm" where
  "incref p = vm_upd_page p (\<lambda>i. i\<lparr>pp_ref := pp_ref i + 1\<rparr>)"

text \<open>\<^verbatim>\<open>if (cur_task) cur_task->task_rss += n\<close>\<close>

definition rss_add :: "u64 \<Rightarrow> vm \<Rightarrow> vm" where
  "rss_add n s = (case cur_task s of None \<Rightarrow> s
     | Some t \<Rightarrow> s\<lparr>task_rss := (task_rss s)(t := task_rss s t + n)\<rparr>)"

text \<open>The allocation with one retry after \<^verbatim>\<open>oom_kill_task\<close> that every caller spells out.\<close>

definition alloc_retry :: "(vm \<Rightarrow> vm option) \<Rightarrow> u32 \<Rightarrow> vm \<Rightarrow> (nat option \<times> vm) option" where
  "alloc_retry oom flags s =
     do { (page, s) \<leftarrow> vm_page_alloc flags s;
          case page of
            None \<Rightarrow> do { s \<leftarrow> oom s; vm_page_alloc flags s }
          | Some p \<Rightarrow> Some (Some p, s) }"

text \<open>
  \<^verbatim>\<open>memcpy(page2kva(dst) + d * PAGE_SIZE, page2kva(src) + o * PAGE_SIZE, n * PAGE_SIZE)\<close> for whole
  pages; both conversions panic outside the page array.
\<close>

definition copy_pages :: "nat \<Rightarrow> nat \<Rightarrow> nat \<Rightarrow> nat \<Rightarrow> nat \<Rightarrow> vm \<Rightarrow> vm option" where
  "copy_pages dst d src off n s =
     do { t \<leftarrow> KADDR_table (page2pa dst) s;
          f \<leftarrow> KADDR_table (page2pa src) s;
          Some (s\<lparr>vmem := (vmem s)\<lparr>frames := (\<lambda>g. if t + d \<le> g \<and> g < t + d + n
                    then frames (vmem s) (f + off + (g - (t + d))) else frames (vmem s) g)\<rparr>\<rparr>) }"

section \<open>Allocating, splitting, merging and freeing page tables\<close>

definition PAGE_TABLE_ENTRIES :: nat where "PAGE_TABLE_ENTRIES = 512"

definition ptbl_alloc :: "(vm \<Rightarrow> vm option) \<Rightarrow> 'u entry_cb" where
  "ptbl_alloc oom entry base en us = (case us of (u, s) \<Rightarrow>
     if present (get_entry entry s) then Some (0, (u, s))
     else do { (page, s) \<leftarrow> alloc_retry oom ALLOC_ZERO s;
               case page of
                 None \<Rightarrow> Some (-1, (u, s))
               | Some p \<Rightarrow>
                   (let s = incref p (rss_add 1 s);
                        s = set_entry entry (page2pa p) s;
                        s = set_entry entry (get_entry entry s OR PAGE_PRESENT OR PAGE_WRITE OR PAGE_USER) s
                    in Some (0, (u, s))) })"

text \<open>The loop of \<^verbatim>\<open>ptbl_split\<close> over the entries still to be filled; \<open>False\<close> says that it returned -1.\<close>

fun split_fill :: "(vm \<Rightarrow> vm option) \<Rightarrow> bool \<Rightarrow> nat \<Rightarrow> nat \<Rightarrow> u64 \<Rightarrow> nat list \<Rightarrow> vm \<Rightarrow> (bool \<times> vm) option" where
  "split_fill oom statically_mapped huge_page ptbl flags [] s = Some (True, s)"
| "split_fill oom statically_mapped huge_page ptbl flags (i # is) s =
     (if statically_mapped then
        split_fill oom statically_mapped huge_page ptbl flags is
          (set_entry (Entry ptbl i) (page2pa (huge_page + i) OR PAGE_PRESENT OR flags) s)
      else do { (page, s) \<leftarrow> alloc_retry oom ALLOC_ZERO s;
                case page of
                  None \<Rightarrow> Some (False, s)
                | Some p \<Rightarrow>
                    do { s \<leftarrow> copy_pages p 0 huge_page i 1 (rss_add 1 s);
                         let s = vm_upd_page p (\<lambda>q. q\<lparr>pp_ref := 1\<rparr>) s;
                         split_fill oom statically_mapped huge_page ptbl flags is
                           (set_entry (Entry ptbl i) (page2pa p OR PAGE_PRESENT OR flags) s) } })"

definition ptbl_split :: "(vm \<Rightarrow> vm option) \<Rightarrow> 'u entry_cb" where
  "ptbl_split oom entry base en us = (case us of (u, s) \<Rightarrow>
     if \<not> present (get_entry entry s) then ptbl_alloc oom entry base en us
     else if \<not> huge (get_entry entry s) then ptbl_alloc oom entry base en us
     else do { huge_page \<leftarrow> pa2page (PAGE_ADDR (get_entry entry s)) s;
               (new_page, s) \<leftarrow> alloc_retry oom ALLOC_ZERO s;
               case new_page of
                 None \<Rightarrow> Some (-1, (u, s))
               | Some p \<Rightarrow>
                   do { let s = incref p (rss_add 1 s);
                        let flags = get_entry entry s AND PAGE_UMASK;
                        let s = set_entry entry (page2pa p) s;
                        let s = set_entry entry (get_entry entry s OR PAGE_PRESENT OR PAGE_WRITE OR PAGE_USER) s;
                        ptbl \<leftarrow> KADDR_table (page2pa p) s;
                        let st = (\<not> pp_free (pages (vmem s) huge_page) \<and> pp_ref (pages (vmem s) huge_page) = 0);
                        (done, s) \<leftarrow> split_fill oom st huge_page ptbl flags [0..<PAGE_TABLE_ENTRIES] s;
                        if \<not> done then Some (-1, (u, s))
                        else if \<not> st then do { s \<leftarrow> vm_page_decref huge_page s; Some (0, (u, rss_add (- 512) s)) }
                        else Some (0, (u, s)) } })"

text \<open>
  The loops of \<^verbatim>\<open>ptbl_merge\<close>: the test of all entries, the copies, the invalidations (which pass
  the physical address in \<^verbatim>\<open>cr3\<close> as the page table), the release of the pages.
\<close>

definition mergeable :: "nat \<Rightarrow> vm \<Rightarrow> bool" where
  "mergeable ptbl s = list_all (\<lambda>i. present (get_entry (Entry ptbl i) s)
     \<and> get_entry (Entry ptbl i) s AND PAGE_UMASK = get_entry (Entry ptbl 0) s AND PAGE_UMASK) [0..<PAGE_TABLE_ENTRIES]"

fun merge_copy :: "nat \<Rightarrow> nat \<Rightarrow> nat list \<Rightarrow> vm \<Rightarrow> vm option" where
  "merge_copy ptbl huge_page [] s = Some s"
| "merge_copy ptbl huge_page (i # is) s =
     do { page \<leftarrow> pa2page (PAGE_ADDR (get_entry (Entry ptbl i) s)) s;
          s \<leftarrow> copy_pages huge_page i page 0 1 s;
          merge_copy ptbl huge_page is s }"

fun merge_flush :: "u64 \<Rightarrow> nat list \<Rightarrow> vm \<Rightarrow> vm option" where
  "merge_flush base [] s = Some s"
| "merge_flush base (i # is) s =
     do { s \<leftarrow> tlb_invalidate (cr3 s) (base + of_nat i * PAGE_SIZE) s; merge_flush base is s }"

fun merge_release :: "nat \<Rightarrow> nat list \<Rightarrow> vm \<Rightarrow> vm option" where
  "merge_release ptbl [] s = Some s"
| "merge_release ptbl (i # is) s =
     do { page \<leftarrow> pa2page (PAGE_ADDR (get_entry (Entry ptbl i) s)) s;
          s \<leftarrow> vm_page_decref page s;
          merge_release ptbl is (rss_add (- 1) s) }"

definition ptbl_merge :: "(vm \<Rightarrow> vm option) \<Rightarrow> 'u entry_cb" where
  "ptbl_merge oom entry base en us = (case us of (u, s) \<Rightarrow>
     if \<not> present (get_entry entry s) \<or> huge (get_entry entry s) then Some (0, (u, s))
     else do { ptbl \<leftarrow> KADDR_table (PAGE_ADDR (get_entry entry s)) s;
               pt \<leftarrow> pa2page (PAGE_ADDR (get_entry entry s)) s;
               if \<not> mergeable ptbl s then Some (0, (u, s))
               else do { (huge_page, s) \<leftarrow> alloc_retry oom (ALLOC_HUGE OR ALLOC_ZERO) s;
                         case huge_page of
                           None \<Rightarrow> Some (-1, (u, s))
                         | Some h \<Rightarrow>
                             do { let s = incref h (rss_add 512 s);
                                  let flags = get_entry (Entry ptbl 0) s AND PAGE_UMASK;
                                  s \<leftarrow> merge_copy ptbl h [0..<PAGE_TABLE_ENTRIES] s;
                                  let s = set_entry entry (page2pa h OR flags OR PAGE_HUGE OR PAGE_PRESENT) s;
                                  s \<leftarrow> merge_flush base [0..<PAGE_TABLE_ENTRIES] s;
                                  s \<leftarrow> merge_release ptbl [0..<PAGE_TABLE_ENTRIES] s;
                                  s \<leftarrow> vm_page_decref pt s;
                                  Some (0, (u, s)) } } })"

definition ptbl_free :: "'u entry_cb" where
  "ptbl_free entry base en us = (case us of (u, s) \<Rightarrow>
     if huge (get_entry entry s) \<and> \<not> present (get_entry entry s) then Some (0, (u, s))
     else do { page \<leftarrow> pa2page (PAGE_ADDR (get_entry entry s)) s;
               page_table \<leftarrow> KADDR_table (page2pa page) s;
               if list_ex (\<lambda>i. present (get_entry (Entry page_table i) s)) [0..<PAGE_TABLE_ENTRIES]
               then Some (0, (u, s))
               else do { let s = rss_add (- 1) s;
                         page \<leftarrow> pa2page (PAGE_ADDR (get_entry entry s)) s;
                         s \<leftarrow> vm_page_decref page s;
                         Some (0, (u, set_entry entry 0 s)) } })"

section \<open>Looking up, inserting and removing mappings\<close>

definition lookup_pte :: "entry_ptr option entry_cb" where
  "lookup_pte entry base en us = (case us of (info, s) \<Rightarrow>
     Some (0, (if present (get_entry entry s) then Some entry else info, s)))"

definition lookup_pde :: "entry_ptr option entry_cb" where
  "lookup_pde entry base en us = (case us of (info, s) \<Rightarrow>
     Some (0, (if present (get_entry entry s) \<and> huge (get_entry entry s) then Some entry else info, s)))"

text \<open>The result is the page and the value stored in \<^verbatim>\<open>*entry_store\<close> (nothing when the walk fails).\<close>

definition page_lookup :: "nat \<Rightarrow> u64 \<Rightarrow> vm \<Rightarrow> (nat option \<times> entry_ptr option \<times> vm) option" where
  "page_lookup pml4 va s =
     do { (r, (info, s)) \<leftarrow> walk_page_range pml4 va (va + PAGE_SIZE)
            (no_walker\<lparr>pte_callback := Some lookup_pte, pde_callback := Some lookup_pde\<rparr>) (None, s);
          if r < 0 then Some (None, None, s)
          else case info of
                 Some entry \<Rightarrow> do { page \<leftarrow> pa2page (PAGE_ADDR (get_entry entry s)) s; Some (Some page, info, s) }
               | None \<Rightarrow> Some (None, info, s) }"

record insert_info =
  ins_pml4 :: nat
  ins_page :: nat
  ins_flags :: u64

definition insert_pte :: "insert_info entry_cb" where
  "insert_pte entry base en us = (case us of (info, s) \<Rightarrow>
     if pp_order (pages (vmem s) (ins_page info)) \<noteq> 0 then Some (-1, us)
     else do { let s = incref (ins_page info) s;
               s \<leftarrow> (if present (get_entry entry s) then
                       do { old \<leftarrow> pa2page (PAGE_ADDR (get_entry entry s)) s;
                            s \<leftarrow> vm_page_decref old s;
                            tlb_invalidate (cr3 s) base (set_entry entry 0 s) }
                     else Some s);
               let page = ins_page info;
               let s = vm_upd_page page (\<lambda>q. q\<lparr>pp_free := False\<rparr>) s;
               Some (0, (info, set_entry entry (page2pa page OR (ins_flags info OR PAGE_PRESENT)) s)) })"

definition insert_pde :: "(vm \<Rightarrow> vm option) \<Rightarrow> insert_info entry_cb" where
  "insert_pde oom entry base en us = (case us of (info, s) \<Rightarrow>
     if present (get_entry entry s) \<and> huge (get_entry entry s) then
       if huge (ins_flags info) then
         do { let s = incref (ins_page info) s;
              old \<leftarrow> pa2page (PAGE_ADDR (get_entry entry s)) s;
              s \<leftarrow> vm_page_decref old s;
              s \<leftarrow> tlb_invalidate (cr3 s) base (set_entry entry 0 s);
              let page = ins_page info;
              let s = vm_upd_page page (\<lambda>q. q\<lparr>pp_free := False\<rparr>) s;
              Some (0, (info, set_entry entry (page2pa page OR ins_flags info) s)) }
       else ptbl_alloc oom entry base en us
     else if huge (ins_flags info) then
       (let page = ins_page info;
            s = incref page s;
            s = vm_upd_page page (\<lambda>q. q\<lparr>pp_free := False\<rparr>) s
        in Some (0, (info, set_entry entry (page2pa page OR ins_flags info) s)))
     else ptbl_alloc oom entry base en us)"

definition page_insert :: "(vm \<Rightarrow> vm option) \<Rightarrow> nat \<Rightarrow> nat \<Rightarrow> u64 \<Rightarrow> u64 \<Rightarrow> vm \<Rightarrow> (int \<times> vm) option" where
  "page_insert oom pml4 page va flags s =
     (if \<not> page_aligned va then Some (-1, s)
      else let flags = (if pp_order (pages (vmem s) page) = BUDDY_2M_PAGE then flags OR PAGE_HUGE else flags)
           in if huge flags \<and> \<not> hpage_aligned va then Some (-1, s)
              else do { (r, (info, s)) \<leftarrow>
                          walk_page_range pml4 va (va + (if huge flags then HPAGE_SIZE else PAGE_SIZE))
                            (no_walker\<lparr>pte_callback := Some insert_pte, pde_callback := Some (insert_pde oom),
                               pdpte_callback := Some (ptbl_alloc oom), pml4e_callback := Some (ptbl_alloc oom),
                               pde_unmap := Some (ptbl_merge oom)\<rparr>)
                            (\<lparr>ins_pml4 = pml4, ins_page = page, ins_flags = flags OR PAGE_PRESENT\<rparr>, s);
                        Some (if r < 0 then -1 else 0, s) })"

record remove_info =
  rem_pml4 :: nat
  base_remove :: u64
  end_remove :: u64

definition remove_pte :: "remove_info entry_cb" where
  "remove_pte entry base en us = (case us of (info, s) \<Rightarrow>
     if present (get_entry entry s) then
       do { page \<leftarrow> pa2page (PAGE_ADDR (get_entry entry s)) s;
            s \<leftarrow> vm_page_decref page s;
            s \<leftarrow> tlb_invalidate (table_kva (rem_pml4 info)) base (set_entry entry 0 s);
            Some (0, (info, s)) }
     else Some (0, us))"

definition remove_pde :: "(vm \<Rightarrow> vm option) \<Rightarrow> remove_info entry_cb" where
  "remove_pde oom entry base en us = (case us of (info, s) \<Rightarrow>
     if present (get_entry entry s) \<and> huge (get_entry entry s) then
       do { old_page \<leftarrow> pa2page (PAGE_ADDR (get_entry entry s)) s;
            s \<leftarrow> (if base_remove info > base \<or> end_remove info < en
                  then map_option (\<lambda>(r, (u, s)). s)
                         (ptbl_split oom entry (base AND NOT (PAGE_TABLE_SPAN - 1)) (en OR (PAGE_TABLE_SPAN - 1)) us)
                  else vm_page_decref old_page (set_entry entry 0 s));
            s \<leftarrow> tlb_invalidate (table_kva (rem_pml4 info)) (base AND NOT (PAGE_TABLE_SPAN - 1)) s;
            Some (0, (info, s)) }
     else Some (0, us))"

definition unmap_page_range :: "(vm \<Rightarrow> vm option) \<Rightarrow> nat \<Rightarrow> u64 \<Rightarrow> u64 \<Rightarrow> vm \<Rightarrow> vm option" where
  "unmap_page_range oom pml4 va sz s =
     map_option (\<lambda>(r, (info, s)). s)
       (walk_page_range pml4 va (va + sz)
          (no_walker\<lparr>pte_callback := Some remove_pte, pde_callback := Some (remove_pde oom),
             pde_unmap := Some ptbl_free, pdpte_unmap := Some ptbl_free, pml4e_unmap := Some ptbl_free\<rparr>)
          (\<lparr>rem_pml4 = pml4, base_remove = va, end_remove = va + sz\<rparr>, s))"

definition unmap_user_pages :: "(vm \<Rightarrow> vm option) \<Rightarrow> nat \<Rightarrow> vm \<Rightarrow> vm option" where
  "unmap_user_pages oom pml4 = unmap_page_range oom pml4 0 USER_LIM"

definition page_remove :: "(vm \<Rightarrow> vm option) \<Rightarrow> nat \<Rightarrow> u64 \<Rightarrow> vm \<Rightarrow> vm option" where
  "page_remove oom pml4 va s =
     do { (page, entry, s) \<leftarrow> page_lookup pml4 va s;
          case page of
            None \<Rightarrow> Some s
          | Some p \<Rightarrow> if pp_order (pages (vmem s) p) = BUDDY_2M_PAGE
                      then unmap_page_range oom pml4 va HPAGE_SIZE s
                      else unmap_page_range oom pml4 va PAGE_SIZE s }"

section \<open>Changing the protection of a region\<close>

record protect_info =
  pro_pml4 :: nat
  pro_flags :: u64
  pro_base :: u64
  pro_end :: u64

definition protect_pte :: "protect_info entry_cb" where
  "protect_pte entry base en us = (case us of (info, s) \<Rightarrow>
     if present (get_entry entry s) then
       if get_entry entry s AND PAGE_UMASK = pro_flags info then Some (0, us)
       else do { let s = set_entry entry (get_entry entry s AND NOT PAGE_UMASK) s;
                 let s = set_entry entry (get_entry entry s OR pro_flags info) s;
                 s \<leftarrow> tlb_invalidate (table_kva (pro_pml4 info)) base s;
                 Some (0, (info, s)) }
     else Some (0, us))"

definition protect_pde :: "(vm \<Rightarrow> vm option) \<Rightarrow> protect_info entry_cb" where
  "protect_pde oom entry base en us = (case us of (info, s) \<Rightarrow>
     if huge (get_entry entry s) \<and> present (get_entry entry s) then
       if base = pro_base info \<and> en = pro_end info then
         if get_entry entry s AND PAGE_UMASK = pro_flags info then Some (0, us)
         else do { let s = set_entry entry (get_entry entry s AND NOT PAGE_UMASK) s;
                   let s = set_entry entry (get_entry entry s OR pro_flags info) s;
                   s \<leftarrow> tlb_invalidate (table_kva (pro_pml4 info)) base s;
                   Some (0, (info, s)) }
       else do { (r, (info, s)) \<leftarrow>
                   ptbl_split oom entry (base AND NOT (PAGE_TABLE_SPAN - 1)) (en OR (PAGE_TABLE_SPAN - 1)) us;
                 s \<leftarrow> tlb_invalidate (table_kva (pro_pml4 info)) base s;
                 Some (0, (info, s)) }
     else Some (0, us))"

definition protect_region :: "(vm \<Rightarrow> vm option) \<Rightarrow> nat \<Rightarrow> u64 \<Rightarrow> u64 \<Rightarrow> u64 \<Rightarrow> vm \<Rightarrow> vm option" where
  "protect_region oom pml4 va sz flags s =
     map_option (\<lambda>(r, (info, s)). s)
       (walk_page_range pml4 va (va + sz)
          (no_walker\<lparr>pte_callback := Some protect_pte, pde_callback := Some (protect_pde oom)\<rparr>)
          (\<lparr>pro_pml4 = pml4, pro_flags = flags, pro_base = ROUNDDOWN va PAGE_SIZE,
             pro_end = ROUNDUP (va + sz) PAGE_SIZE - 1\<rparr>, s))"

section \<open>Populating a region with fresh pages\<close>

record populate_info =
  pop_flags :: u64
  pop_base :: u64
  pop_end :: u64

text \<open>
  The new owner and address of a page, and its enqueueing on \<^verbatim>\<open>active_pages\<close> under
  \<^verbatim>\<open>active_pages_lock\<close>; \<open>line\<close> is the line of the \<^verbatim>\<open>spin_lock\<close>.
\<close>

definition activate :: "nat \<Rightarrow> nat \<Rightarrow> u64 \<Rightarrow> vm \<Rightarrow> vm option" where
  "activate line page base s =
     do { let m = upd_page page (\<lambda>q. q\<lparr>virt_addr := ROUNDDOWN base PAGE_SIZE, powner := cur_task s\<rparr>) (vmem s);
          (l, r) \<leftarrow> spin_lock (cpu m) ''populate.c'' line (cpu_rank m) (active_pages_lock m);
          let m = m\<lparr>active_pages_lock := l, cpu_rank := r\<rparr>;
          let m = upd_links (list_init (ActiveNode page)) m;
          let m = upd_links (list_add_tail ActivePages (ActiveNode page)) m;
          (l, r) \<leftarrow> spin_unlock (cpu m) (cpu_rank m) (active_pages_lock m);
          Some (s\<lparr>vmem := m\<lparr>active_pages_lock := l, cpu_rank := r\<rparr>\<rparr>) }"

definition populate_pte :: "(vm \<Rightarrow> vm option) \<Rightarrow> populate_info entry_cb" where
  "populate_pte oom entry base en us = (case us of (info, s) \<Rightarrow>
     do { page \<leftarrow> pa2page (PAGE_ADDR (get_entry entry s)) s;
          if present (get_entry entry s) \<and> pp_ref (pages (vmem s) page) > 1 then
            do { (new_page, s) \<leftarrow> alloc_retry oom ALLOC_ZERO s;
                 case new_page of
                   None \<Rightarrow> Some (-1, (info, s))
                 | Some p \<Rightarrow>
                     do { s \<leftarrow> vm_page_decref page (rss_add 1 s);
                          let s = incref p s;
                          let s = set_entry entry (page2pa p OR PAGE_PRESENT OR pop_flags info) s;
                          s \<leftarrow> copy_pages p 0 page 0 1 s;
                          s \<leftarrow> activate 49 p base s;
                          t \<leftarrow> cur_task s;
                          s \<leftarrow> tlb_invalidate (table_kva (task_pml4 s t)) base s;
                          Some (0, (info, s)) } }
          else if present (get_entry entry s) \<and> pp_ref (pages (vmem s) page) = 1 then Some (0, us)
          else
            do { (new_page, s) \<leftarrow> alloc_retry oom ALLOC_ZERO s;
                 case new_page of
                   None \<Rightarrow> Some (-1, (info, s))
                 | Some p \<Rightarrow>
                     do { let s = incref p (rss_add 1 s);
                          let s = set_entry entry (page2pa p OR pop_flags info OR PAGE_PRESENT) s;
                          s \<leftarrow> activate 73 p base s;
                          Some (0, (info, s)) } } })"

definition populate_pde :: "(vm \<Rightarrow> vm option) \<Rightarrow> populate_info entry_cb" where
  "populate_pde oom entry base en us = (case us of (info, s) \<Rightarrow>
     do { page \<leftarrow> pa2page (PAGE_ADDR (get_entry entry s)) s;
          if present (get_entry entry s) \<and> huge (get_entry entry s) \<and> pp_ref (pages (vmem s) page) > 1 then
            do { (new_page, s) \<leftarrow> alloc_retry oom (ALLOC_ZERO OR ALLOC_HUGE) s;
                 case new_page of
                   None \<Rightarrow> Some (-1, (info, s))
                 | Some p \<Rightarrow>
                     do { let s = rss_add 512 s;
                          let s = set_entry entry (page2pa p OR PAGE_PRESENT OR PAGE_HUGE OR pop_flags info) s;
                          s \<leftarrow> vm_page_decref page s;
                          let s = incref p s;
                          s \<leftarrow> copy_pages p 0 page 0 512 s;
                          t \<leftarrow> cur_task s;
                          s \<leftarrow> tlb_invalidate (table_kva (task_pml4 s t)) base s;
                          Some (0, (info, s)) } }
          else if present (get_entry entry s) \<and> pp_ref (pages (vmem s) page) = 1 then Some (0, us)
          else if pop_base info \<le> base \<and> pop_end info \<ge> en then
            do { (new_page, s) \<leftarrow> alloc_retry oom (ALLOC_ZERO OR ALLOC_HUGE) s;
                 case new_page of
                   None \<Rightarrow> Some (-1, (info, s))
                 | Some p \<Rightarrow>
                     (let s = incref p (rss_add 512 s)
                      in Some (0, (info, set_entry entry
                                   (page2pa p OR pop_flags info OR PAGE_PRESENT OR PAGE_HUGE) s))) }
          else ptbl_split oom entry base en us })"

definition populate_region :: "(vm \<Rightarrow> vm option) \<Rightarrow> nat \<Rightarrow> u64 \<Rightarrow> u64 \<Rightarrow> u64 \<Rightarrow> vm \<Rightarrow> vm option" where
  "populate_region oom pml4 va sz flags s =
     (if huge flags \<and> \<not> hpage_aligned va then Some s
      else map_option (\<lambda>(r, (info, s)). s)
             (walk_page_range pml4 va (va + sz)
                (no_walker\<lparr>pte_callback := Some (populate_pte oom), pde_callback := Some (populate_pde oom),
                   pdpte_callback := Some (ptbl_alloc oom), pml4e_callback := Some (ptbl_alloc oom),
                   pde_unmap := Some (ptbl_merge oom)\<rparr>)
                (\<lparr>pop_flags = flags, pop_base = ROUNDDOWN va PAGE_SIZE,
                   pop_end = ROUNDUP (va + sz) PAGE_SIZE - 1\<rparr>, s)))"

section \<open>Static mappings\<close>

record boot_map_info =
  bm_flags :: u64
  bm_pa :: u64
  bm_base :: u64
  bm_end :: u64

definition boot_map_pte :: "boot_map_info entry_cb" where
  "boot_map_pte entry base en us = (case us of (info, s) \<Rightarrow>
     (let s = set_entry entry (PAGE_ADDR (bm_pa info) OR bm_flags info OR PAGE_PRESENT) s
      in Some (0, (info\<lparr>bm_pa := bm_pa info + PAGE_SIZE\<rparr>, s))))"

definition boot_map_pde :: "(vm \<Rightarrow> vm option) \<Rightarrow> boot_map_info entry_cb" where
  "boot_map_pde oom entry base en us = (case us of (info, s) \<Rightarrow>
     if base \<ge> bm_base info \<and> en \<le> bm_end info \<and> hpage_aligned (bm_pa info) then
       (let s = set_entry entry (bm_pa info OR bm_flags info OR PAGE_HUGE OR PAGE_PRESENT) s
        in Some (0, (info\<lparr>bm_pa := bm_pa info + HPAGE_SIZE\<rparr>, s)))
     else ptbl_split oom entry (base AND NOT (HPAGE_SIZE - 1)) (base OR (HPAGE_SIZE - 1)) us)"

definition boot_map_region :: "(vm \<Rightarrow> vm option) \<Rightarrow> nat \<Rightarrow> u64 \<Rightarrow> u64 \<Rightarrow> u64 \<Rightarrow> u64 \<Rightarrow> vm \<Rightarrow> vm option" where
  "boot_map_region oom pml4 va sz pa flags s =
     (let info = \<lparr>bm_flags = flags, bm_pa = ROUNDDOWN pa PAGE_SIZE, bm_base = ROUNDDOWN va PAGE_SIZE,
                    bm_end = ROUNDUP (va + sz) PAGE_SIZE - 1\<rparr>
      in map_option (\<lambda>(r, (info, s)). s)
           (walk_page_range pml4 (bm_base info) (bm_end info)
              (no_walker\<lparr>pte_callback := Some boot_map_pte, pde_callback := Some (boot_map_pde oom),
                 pml4e_callback := Some (ptbl_alloc oom), pdpte_callback := Some (ptbl_alloc oom)\<rparr>)
              (info, s)))"

definition KPAGES :: u64 where "KPAGES = 0xFFFFFF8000000000"
definition MMIO_LIM :: u64 where "MMIO_LIM = KPAGES"
definition MMIO_BASE :: u64 where "MMIO_BASE = MMIO_LIM - PDPT_SPAN"

text \<open>The static variable \<^verbatim>\<open>base\<close> of \<^verbatim>\<open>mmio_map_region\<close>, initially \<open>MMIO_BASE\<close>, is passed and returned.\<close>

definition mmio_map_region ::
  "(vm \<Rightarrow> vm option) \<Rightarrow> nat \<Rightarrow> u64 \<Rightarrow> u64 \<Rightarrow> u64 \<times> vm \<Rightarrow> (u64 \<times> u64 \<times> vm) option" where
  "mmio_map_region oom kernel_pml4 pa sz bs = (case bs of (base, s) \<Rightarrow>
     (let sz = ROUNDUP sz PAGE_SIZE
      in if \<not> base + sz < MMIO_LIM then None
         else do { s \<leftarrow> boot_map_region oom kernel_pml4 base sz pa
                     (PAGE_PRESENT OR PAGE_WRITE OR PAGE_NO_EXEC OR PAGE_WRITE_THROUGH OR PAGE_NO_CACHE) s;
                   Some (base, base + sz, s) }))"

definition MMAP_FREE :: u32 where "MMAP_FREE = 1"
definition MMAP_BAD :: u32 where "MMAP_BAD = 5"

record mmap_entry =
  mm_addr :: u64
  mm_len :: u64
  mm_type :: u32
  mm_flags :: u32

fun boot_map_mmap :: "(vm \<Rightarrow> vm option) \<Rightarrow> nat \<Rightarrow> mmap_entry list \<Rightarrow> vm \<Rightarrow> vm option" where
  "boot_map_mmap oom pml4 [] s = Some s"
| "boot_map_mmap oom pml4 (entry # entries) s =
     (if mm_type entry = MMAP_BAD then boot_map_mmap oom pml4 entries s
      else let flags = (if mm_type entry = MMAP_FREE then PAGE_PRESENT OR PAGE_WRITE OR PAGE_NO_EXEC
                        else PAGE_PRESENT OR PAGE_NO_EXEC)
           in do { s \<leftarrow> boot_map_region oom pml4 (KERNEL_VMA + mm_addr entry) (mm_len entry) (mm_addr entry) flags s;
                   boot_map_mmap oom pml4 entries s })"

record elf_proghdr =
  p_type :: u32
  p_flags :: u32
  p_offset :: u64
  p_va :: u64
  p_pa :: u64
  p_filesz :: u64
  p_memsz :: u64
  p_align :: u64

definition PADDR :: "u64 \<Rightarrow> u64 option" where
  "PADDR kva = (if kva < KERNEL_VMA then None else Some (kva - KERNEL_VMA))"

definition ELF_PROG_FLAG_EXEC :: u32 where "ELF_PROG_FLAG_EXEC = 1"
definition ELF_PROG_FLAG_WRITE :: u32 where "ELF_PROG_FLAG_WRITE = 2"

fun boot_map_elf :: "(vm \<Rightarrow> vm option) \<Rightarrow> nat \<Rightarrow> elf_proghdr list \<Rightarrow> vm \<Rightarrow> vm option" where
  "boot_map_elf oom pml4 [] s = Some s"
| "boot_map_elf oom pml4 (ph # phs) s =
     (if p_va ph < KERNEL_VMA then boot_map_elf oom pml4 phs s
      else let perm = PAGE_PRESENT;
               perm = (if p_flags ph AND ELF_PROG_FLAG_EXEC = 0 then perm OR PAGE_NO_EXEC else perm);
               perm = (if p_flags ph AND ELF_PROG_FLAG_WRITE \<noteq> 0 then perm OR PAGE_WRITE else perm)
           in do { pa \<leftarrow> PADDR (p_va ph);
                   s \<leftarrow> boot_map_region oom pml4 (p_va ph) (p_memsz ph) pa perm s;
                   boot_map_elf oom pml4 phs s })"

section \<open>Fields of the updates\<close>

lemma rss_add_fields [simp]:
  "vmem (rss_add n s) = vmem s" "cr3 (rss_add n s) = cr3 s" "flushed (rss_add n s) = flushed s"
  "cur_task (rss_add n s) = cur_task s" "task_pml4 (rss_add n s) = task_pml4 s"
  by (simp_all add: rss_add_def split: option.split)

lemma set_entry_fields [simp]:
  "npages (vmem (set_entry e v s)) = npages (vmem s)" "pages (vmem (set_entry e v s)) = pages (vmem s)"
  "plinks (vmem (set_entry e v s)) = plinks (vmem s)" "cpu (vmem (set_entry e v s)) = cpu (vmem s)"
  "cr3 (set_entry e v s) = cr3 s" "flushed (set_entry e v s) = flushed s"
  "frames (vmem (set_entry e v s)) =
     (frames (vmem s))(etable e := (frames (vmem s) (etable e))(eindex e := v))"
  by (simp_all add: set_entry_def)

lemma get_set_entry [simp]: "get_entry e (set_entry e v s) = v"
  by (simp add: get_entry_def)

lemma set_entry_set_entry [simp]: "set_entry e w (set_entry e v s) = set_entry e w s"
  by (simp add: set_entry_def)

section \<open>A walk over one page\<close>

definition finish :: "(int \<times> 's) option \<Rightarrow> (int \<times> 's) option" where
  "finish m = and_then m (\<lambda>s. Some (0, s))"

lemma walk_loop_one:
  assumes "k < 64" and "a \<le> b" and "same_half a b" and "b \<le> a OR (2 ^ k - 1)"
  shows "walk_loop (2 ^ k) body a b s = finish (body a s)"
proof -
  have "drop_bit k b = drop_bit k a" by (rule in_slot [OF assms(1,2,4)])
  then have "unat a div 2 ^ k = unat b div 2 ^ k" by (simp flip: unat_drop_bit)
  moreover have "run_slots body [] = (\<lambda>s. Some (0, s))" by (rule ext) simp
  ultimately show ?thesis
    by (simp add: walk_loop_slots [OF assms(1-3)] slots_one finish_def)
qed

lemma slot_widths: "(12 :: nat) < 64" "(21 :: nat) < 64" "(30 :: nat) < 64" "(39 :: nat) < 64"
    "(12 :: nat) \<le> 12" "(12 :: nat) \<le> 21" "(12 :: nat) \<le> 30" "(12 :: nat) \<le> 39"
  by simp_all

text \<open>The bounds of a page: \<open>b\<close> is the last address of the page that begins at \<open>a\<close>.\<close>

definition page_at :: "u64 \<Rightarrow> u64 \<Rightarrow> bool" where
  "page_at a b \<longleftrightarrow> page_aligned a \<and> b = a OR (PAGE_SIZE - 1) \<and> (a < USER_LIM \<or> KERNEL_VMA \<le> a)"

lemma mask_mono: "k \<le> m \<Longrightarrow> m < 64 \<Longrightarrow> a OR (2 ^ k - 1) \<le> a OR (2 ^ m - 1 :: u64)"
proof -
  assume "k \<le> m" "m < 64"
  then have "(a OR (2 ^ k - 1)) OR (2 ^ m - 1) = a OR (2 ^ m - 1)"
    by (simp only: mask_eq_exp_minus_1 [symmetric]) (rule bit_eqI, auto simp: bit_or_iff bit_mask_iff)
  then show ?thesis using le_or [of "a OR (2 ^ k - 1)" "2 ^ m - 1"] by simp
qed

lemma page_aligned_take: "page_aligned a \<longleftrightarrow> take_bit 12 a = 0"
  by (simp add: page_aligned_def PAGE_SIZE_def take_bit_eq_mask mask_eq_exp_minus_1)

lemma page_aligned_dvd: "page_aligned a \<longleftrightarrow> 4096 dvd unat a"
proof -
  have "unat (take_bit 12 a) = unat a mod 4096"
    by (simp add: take_bit_eq_mod unat_mod)
  then show ?thesis
    by (simp add: page_aligned_take dvd_eq_mod_eq_0 flip: unat_eq_zero)
qed

lemma aligned_or: "page_aligned a \<Longrightarrow> a OR (2 ^ 12 - 1) = a + (2 ^ 12 - 1)"
  by (simp add: page_aligned_def PAGE_SIZE_def disjunctive_add_eq_or)

lemma page_aligned_next: "page_aligned a \<Longrightarrow> page_aligned (a + PAGE_SIZE)"
  unfolding page_aligned_dvd by (simp add: PAGE_SIZE_def unat_word_ariths dvd_mod)

lemma ROUNDUP_aligned:
  assumes "page_aligned w"
  shows "ROUNDUP w PAGE_SIZE = w"
proof -
  have "w + PAGE_SIZE - 1 = w OR (2 ^ 12 - 1)" using aligned_or [OF assms] by (simp add: PAGE_SIZE_def)
  moreover have "(w OR (2 ^ 12 - 1)) AND NOT (2 ^ 12 - 1) = w AND NOT (2 ^ 12 - 1)"
    by (simp only: mask_eq_exp_minus_1 [symmetric])
      (rule bit_eqI, auto simp: bit_and_iff bit_or_iff bit_not_iff bit_mask_iff)
  moreover have "w AND NOT (2 ^ 12 - 1) = w"
  proof (rule bit_eqI)
    fix n
    have "\<not> bit w n" if "n < 12"
      using assms that by (metis bit_take_bit_iff bit_0_eq bot_apply bot_bool_def page_aligned_take)
    then show "bit (w AND NOT (2 ^ 12 - 1)) n = bit w n"
      unfolding mask_eq_exp_minus_1 [symmetric]
      by (auto simp: bit_and_iff bit_not_iff bit_mask_iff dest: bit_imp_le_length)
  qed
  ultimately show ?thesis by (simp add: ROUNDUP_def ROUNDDOWN_page)
qed

lemma page_atD:
  assumes "page_at a b"
  shows "a \<le> b" and "same_half a b" and "12 \<le> k \<Longrightarrow> k < 64 \<Longrightarrow> b \<le> a OR (2 ^ k - 1)"
    and "sign_extend a = a" and "sign_extend b = b"
    and "ROUNDDOWN a PAGE_SIZE = a" and "ROUNDUP (a + PAGE_SIZE) PAGE_SIZE - 1 = b"
proof -
  have b: "b = a OR (2 ^ 12 - 1)" and al: "page_aligned a" and half: "a < USER_LIM \<or> KERNEL_VMA \<le> a"
    using assms by (simp_all add: page_at_def PAGE_SIZE_def)
  show ab: "a \<le> b" unfolding b by (rule le_or)
  show "b \<le> a OR (2 ^ k - 1)" if "12 \<le> k" "k < 64" unfolding b by (rule mask_mono [OF that])
  have div: "unat a div 2 ^ 12 * 2 ^ 12 = unat a" using al by (simp add: page_aligned_dvd)
  have ub: "unat b = unat a + 4095" unfolding b using unat_or_mask [of 12 a] div by simp
  have "b < USER_LIM" if "a < USER_LIM"
  proof -
    have "unat a div 2 ^ 12 < 2 ^ 35" using that by (simp add: USER_LIM_def word_less_nat_alt)
    then have "unat a div 2 ^ 12 * 2 ^ 12 + 4095 < 2 ^ 47" by simp
    then show ?thesis using ub div by (simp add: USER_LIM_def word_less_nat_alt)
  qed
  then show sh: "same_half a b" using half by (auto simp: same_half_def)
  show "sign_extend a = a" "sign_extend b = b" using same_half_sign_extend [OF sh] ab by auto
  show "ROUNDDOWN a PAGE_SIZE = a"
    unfolding ROUNDDOWN_page word_unat_eq_iff unat_and_not_mask by (rule div)
  have "a + PAGE_SIZE - 1 = b" unfolding b using aligned_or [OF al] by (simp add: PAGE_SIZE_def)
  then show "ROUNDUP (a + PAGE_SIZE) PAGE_SIZE - 1 = b"
    by (simp add: ROUNDUP_aligned [OF page_aligned_next [OF al]])
qed

lemmas one_page_defs = walk_page_range_def pml4_walk_range_def pdpt_walk_range_def pdir_walk_range_def
  ptbl_walk_range_def

text \<open>At each level a walk over one page makes one step, and refers to the next level for the same page.\<close>

lemma walk_one_page:
  assumes "page_at a b"
  shows "walk_page_range pml4 a (a + PAGE_SIZE) w us = finish (pml4_step w pml4 b a us)"
    and "pdpt_walk_range w t a (min (pml4_end a) b) us = finish (pdpt_step w t b a us)"
    and "pdir_walk_range w t a (min (pdpt_end a) b) us = finish (pdir_step w t b a us)"
    and "ptbl_walk_range w t a (min (pdir_end a) b) us = finish (ptbl_step w t a us)"
proof -
  note pd = page_atD [OF assms]
  have "min (pml4_end a) b = b" "min (pdpt_end a) b = b" "min (pdir_end a) b = b"
    unfolding pml4_end_def pdpt_end_def pdir_end_def spans by (simp_all only: min.absorb2 pd(3) slot_widths)
  then show "walk_page_range pml4 a (a + PAGE_SIZE) w us = finish (pml4_step w pml4 b a us)"
    and "pdpt_walk_range w t a (min (pml4_end a) b) us = finish (pdpt_step w t b a us)"
    and "pdir_walk_range w t a (min (pdpt_end a) b) us = finish (pdir_step w t b a us)"
    and "ptbl_walk_range w t a (min (pdir_end a) b) us = finish (ptbl_step w t a us)"
    unfolding one_page_defs pd(6,7) unfolding spans
    by (simp_all only: pd(4,5) walk_loop_one [OF _ pd(1,2) pd(3)] slot_widths)
qed

section \<open>Lookup\<close>

lemma no_walker_simps [simp]:
  "pte_callback no_walker = None" "pde_callback no_walker = None" "pdpte_callback no_walker = None"
  "pml4e_callback no_walker = None" "pte_unmap no_walker = None" "pde_unmap no_walker = None"
  "pdpte_unmap no_walker = None" "pml4e_unmap no_walker = None" "pt_hole_callback no_walker = None"
  by (simp_all add: no_walker_def)

lemma finish_simps [simp]:
  "finish None = None" "finish (Some (0, us)) = Some (0, us)" "r < 0 \<Longrightarrow> finish (Some (r, us)) = Some (r, us)"
  by (simp_all add: finish_def)

abbreviation lookup_walker :: "entry_ptr option page_walker" where
  "lookup_walker \<equiv> no_walker\<lparr>pte_callback := Some lookup_pte, pde_callback := Some lookup_pde\<rparr>"

lemma lookup_steps:
  assumes "page_at a b"
  shows "ptbl_step lookup_walker t a (None, s) = do { e \<leftarrow> translate1 s t a; Some (0, (e, s)) }"
    and "pdir_step lookup_walker t b a (None, s) = do { e \<leftarrow> translate2 s t a; Some (0, (e, s)) }"
    and "pdpt_step lookup_walker t b a (None, s) = do { e \<leftarrow> translate3 s t a; Some (0, (e, s)) }"
    and "pml4_step lookup_walker t b a (None, s) = do { e \<leftarrow> translate s t a; Some (0, (e, s)) }"
proof -
  show 1: "ptbl_step lookup_walker t a (None, s) = do { e \<leftarrow> translate1 s t a; Some (0, (e, s)) }" for t
    by (simp add: ptbl_step_def lookup_pte_def translate1_def Let_def)
  show 2: "pdir_step lookup_walker t b a (None, s) = do { e \<leftarrow> translate2 s t a; Some (0, (e, s)) }" for t
    by (simp add: pdir_step_def lookup_pde_def translate2_def Let_def walk_one_page [OF assms] 1 call_entry_None)
      (auto split: Option.bind_split)
  show 3: "pdpt_step lookup_walker t b a (None, s) = do { e \<leftarrow> translate3 s t a; Some (0, (e, s)) }" for t
    by (simp add: pdpt_step_def translate3_def Let_def walk_one_page [OF assms] 2 call_entry_None)
      (auto split: Option.bind_split)
  show "pml4_step lookup_walker t b a (None, s) = do { e \<leftarrow> translate s t a; Some (0, (e, s)) }"
    by (simp add: pml4_step_def translate_def Let_def walk_one_page [OF assms] 3 call_entry_None)
      (auto split: Option.bind_split)
qed

lemma page_lookup_page:
  assumes "page_at va b"
  shows "page_lookup pml4 va s =
    do { t \<leftarrow> translate s pml4 va;
         case t of None \<Rightarrow> Some (None, None, s)
         | Some e \<Rightarrow> do { p \<leftarrow> pa2page (PAGE_ADDR (get_entry e s)) s; Some (Some p, Some e, s) } }"
  unfolding page_lookup_def walk_one_page(1) [OF assms] lookup_steps(4) [OF assms]
  by (cases "translate s pml4 va") (simp_all split: option.split)

text \<open>
  C13: for a page-aligned canonical address \<^verbatim>\<open>page_lookup\<close> is the translation: it finds the entry
  the processor would use, of a 4 KiB or a 2 MiB page, returns the page it points to and stores
  the entry; an address that is not mapped gives no page and no entry.
\<close>

theorem page_lookup_translate:
  assumes "page_aligned va" and "va < USER_LIM \<or> KERNEL_VMA \<le> va"
  shows "page_lookup pml4 va s =
    do { t \<leftarrow> translate s pml4 va;
         case t of None \<Rightarrow> Some (None, None, s)
         | Some e \<Rightarrow> do { p \<leftarrow> pa2page (PAGE_ADDR (get_entry e s)) s; Some (Some p, Some e, s) } }"
  using assms by (intro page_lookup_page [of va "va OR (PAGE_SIZE - 1)"]) (simp add: page_at_def)

theorem page_lookup_translate_witness:
  "page_lookup 1 0 demo_vm = Some (Some 5, Some (Entry 4 0), demo_vm)"
  unfolding page_lookup_translate [of 0, simplified page_aligned_def USER_LIM_def, simplified] demo_translate
  using demo_entry by (simp add: pa2page_def PAGE_INDEX_def PAGE_ADDR_def PAGE_MASK_def PAGE_TABLE_SHIFT_def demo_vm_def)

end
