(* ===== verification/Page_Table_Inv.thy ===== *)
theory Page_Table_Inv
  imports Page_Table
begin

text \<open>
  The invariant of the page tables and the correctness of inserting a page.  A typing \<open>rg\<close>
  assigns to every page table its level and the region of the address space it covers; tables
  may be shared between address spaces (as the kernel half is) but not within one.  The tables
  are pages in use of the allocator, and the present entries of a table lead to tables of the
  next level for the corresponding part of its region.
\<close>

section \<open>Translation, level by level\<close>

definition idx :: "nat \<Rightarrow> u64 \<Rightarrow> nat" where
  "idx j x = unat x div 2 ^ (3 + 9 * j) mod 512"

definition prefix :: "nat \<Rightarrow> u64 \<Rightarrow> nat" where
  "prefix j x = unat x mod 2 ^ 48 div 2 ^ (12 + 9 * j)"

definition target :: "u64 \<Rightarrow> nat" where
  "target e = unat (PAGE_INDEX (PAGE_ADDR e))"

definition is_leaf :: "nat \<Rightarrow> u64 \<Rightarrow> bool" where
  "is_leaf j e \<longleftrightarrow> j = 1 \<or> j = 2 \<and> huge e"

fun mmu :: "nat \<Rightarrow> vm \<Rightarrow> nat \<Rightarrow> u64 \<Rightarrow> entry_ptr option option" where
  "mmu 0 s t x = None"
| "mmu (Suc j) s t x =
     (let e = get_entry (Entry t (idx (Suc j) x)) s
      in if \<not> present e then Some None
         else if is_leaf (Suc j) e then Some (Some (Entry t (idx (Suc j) x)))
         else if target e \<ge> npages (vmem s) then None else mmu j s (target e) x)"

lemma idx_less [simp]: "idx j x < 512"
  by (simp add: idx_def)

lemma unat_and_511: "unat (w AND 511 :: u64) = unat w mod 512"
proof -
  have "unat (w AND 511) = unat w AND 511" by (simp add: unsigned_and_eq)
  also have "\<dots> = take_bit 9 (unat w)" by (simp add: take_bit_eq_mask mask_eq_exp_minus_1)
  finally show ?thesis by (simp add: take_bit_eq_mod)
qed

lemma index_idx:
  "PAGE_TABLE_INDEX x = idx 1 x" "PAGE_DIR_INDEX x = idx 2 x" "PDPT_INDEX x = idx 3 x" "PML4_INDEX x = idx 4 x"
  by (simp_all add: index_defs idx_def unat_and_511 unat_drop_bit)

lemma prefix_step: "1 \<le> j \<Longrightarrow> j \<le> 4 \<Longrightarrow> prefix (j - 1) x = prefix j x * 512 + idx j x"
proof -
  assume j: "1 \<le> j" "j \<le> 4"
  let ?m = "unat x mod 2 ^ 48" and ?k = "12 + 9 * (j - 1)"
  have "(2 :: nat) ^ (12 + 9 * j) = 2 ^ ?k * 512"
    using j(1) by (cases j) (simp_all add: power_add)
  then have "prefix j x = ?m div 2 ^ ?k div 512" by (simp add: prefix_def div_mult2_eq)
  moreover have "idx j x = ?m div 2 ^ ?k mod 512"
  proof -
    have "idx j x = unat x div 2 ^ ?k mod 512"
      using j(1) by (cases j) (simp_all add: idx_def)
    also have "\<dots> = take_bit 9 (drop_bit ?k (unat x))" by (simp add: take_bit_eq_mod drop_bit_eq_div)
    also have "\<dots> = take_bit 9 (drop_bit ?k (take_bit 48 (unat x)))"
      using j(2) by (intro bit_eqI) (auto simp: bit_take_bit_iff bit_drop_bit_eq)
    finally show ?thesis by (simp add: take_bit_eq_mod drop_bit_eq_div)
  qed
  moreover have "prefix (j - 1) x = ?m div 2 ^ ?k" by (simp add: prefix_def)
  ultimately show ?thesis by (simp add: div_mult_mod_eq)
qed

lemma prefix_up:
  assumes "prefix j x = prefix j y" and "j < 4"
  shows "idx (Suc j) x = idx (Suc j) y" and "prefix (Suc j) x = prefix (Suc j) y"
proof -
  have eq: "prefix (Suc j) x * 512 + idx (Suc j) x = prefix (Suc j) y * 512 + idx (Suc j) y"
    using assms prefix_step [of "Suc j" x] prefix_step [of "Suc j" y] by simp
  from arg_cong [OF eq, of "\<lambda>n. n mod 512"] show "idx (Suc j) x = idx (Suc j) y" by (simp add: idx_def)
  with eq show "prefix (Suc j) x = prefix (Suc j) y" by simp
qed

lemma prefix_1_idx:
  assumes "prefix 1 x = prefix 1 y" and "2 \<le> j" and "j \<le> 4"
  shows "idx j x = idx j y"
proof -
  note p2 = prefix_up [OF assms(1)]
  note p3 = prefix_up [OF p2(2)]
  note p4 = prefix_up [OF p3(2)]
  have "j = 2 \<or> j = 3 \<or> j = 4" using assms(2,3) by auto
  then show ?thesis using p2(1) p3(1) p4(1) by (auto simp: numeral_eq_Suc)
qed

lemma prefix_1_up:
  assumes "prefix 1 x = prefix 1 y" and "2 \<le> j" and "j \<le> 4"
  shows "prefix j x = prefix j y"
proof -
  note p2 = prefix_up [OF assms(1)]
  note p3 = prefix_up [OF p2(2)]
  note p4 = prefix_up [OF p3(2)]
  have "j = 2 \<or> j = 3 \<or> j = 4" using assms(2,3) by auto
  then show ?thesis using p2(2) p3(2) p4(2) by (auto simp: numeral_eq_Suc)
qed

lemma prefix_4 [simp]: "prefix 4 x = 0"
  by (simp add: prefix_def)

lemma translate_trans:
  "translate1 s t x = mmu 1 s t x" "translate2 s t x = mmu 2 s t x"
  "translate3 s t x = mmu 3 s t x" "translate s t x = mmu 4 s t x"
proof -
  show 1: "translate1 s t x = mmu 1 s t x" for t
    using mmu.simps(2) [of 0 s t x] by (simp add: translate1_def index_idx is_leaf_def Let_def)
  show 2: "translate2 s t x = mmu 2 s t x" for t
    using mmu.simps(2) [of 1 s t x]
    by (simp add: translate2_def index_idx is_leaf_def Let_def 1 KADDR_table_def target_def Suc_1 del: mmu.simps One_nat_def)
  show 3: "translate3 s t x = mmu 3 s t x" for t
    using mmu.simps(2) [of 2 s t x]
    by (simp add: translate3_def index_idx is_leaf_def Let_def 2 KADDR_table_def target_def del: mmu.simps)
  show "translate s t x = mmu 4 s t x"
    using mmu.simps(2) [of 3 s t x]
    by (simp add: translate_def index_idx is_leaf_def Let_def 3 KADDR_table_def target_def del: mmu.simps)
qed

section \<open>The invariant\<close>

type_synonym typing = "nat \<Rightarrow> (nat \<times> nat) option"

definition tables_ok :: "typing \<Rightarrow> vm \<Rightarrow> bool" where
  "tables_ok rg s \<longleftrightarrow> npages (vmem s) \<le> 2 ^ 36 \<and> allocator_ok (vmem s) \<and>
     (\<forall>f j pre. rg f = Some (j, pre) \<longrightarrow>
        1 \<le> j \<and> j \<le> 4 \<and> in_use (vmem s) f \<and> order_of (vmem s) f = 0 \<and> 0 < pp_ref (pages (vmem s) f)) \<and>
     (\<forall>f j pre i. rg f = Some (j, pre) \<longrightarrow> i < 512 \<longrightarrow>
        present (frames (vmem s) f i) \<longrightarrow> \<not> is_leaf j (frames (vmem s) f i) \<longrightarrow>
        rg (target (frames (vmem s) f i)) = Some (j - 1, pre * 512 + i))"

lemma tables_okD:
  assumes "tables_ok rg s"
  shows "npages (vmem s) \<le> 2 ^ 36" "allocator_ok (vmem s)"
    "rg f = Some (j, pre) \<Longrightarrow> 1 \<le> j" "rg f = Some (j, pre) \<Longrightarrow> j \<le> 4"
    "rg f = Some (j, pre) \<Longrightarrow> in_use (vmem s) f" "rg f = Some (j, pre) \<Longrightarrow> order_of (vmem s) f = 0"
    "rg f = Some (j, pre) \<Longrightarrow> 0 < pp_ref (pages (vmem s) f)"
    "rg f = Some (j, pre) \<Longrightarrow> i < 512 \<Longrightarrow> present (frames (vmem s) f i) \<Longrightarrow> \<not> is_leaf j (frames (vmem s) f i) \<Longrightarrow>
       rg (target (frames (vmem s) f i)) = Some (j - 1, pre * 512 + i)"
  using assms unfolding tables_ok_def by blast+

lemma child_table:
  assumes ok: "tables_ok rg s" and t: "rg t = Some (Suc j, prefix (Suc j) x)"
    and e: "present (get_entry (Entry t (idx (Suc j) x)) s)" "\<not> is_leaf (Suc j) (get_entry (Entry t (idx (Suc j) x)) s)"
  shows "rg (target (get_entry (Entry t (idx (Suc j) x)) s)) = Some (j, prefix j x)"
    and "target (get_entry (Entry t (idx (Suc j) x)) s) < npages (vmem s)"
proof -
  let ?e = "get_entry (Entry t (idx (Suc j) x)) s"
  have "rg (target ?e) = Some (j, prefix (Suc j) x * 512 + idx (Suc j) x)"
    using tables_okD(8) [OF ok t idx_less] e by (simp add: get_entry_def)
  moreover have "prefix (Suc j) x * 512 + idx (Suc j) x = prefix j x"
    using prefix_step [of "Suc j" x] tables_okD(4) [OF ok t] by simp
  ultimately show c: "rg (target ?e) = Some (j, prefix j x)" by simp
  show "target ?e < npages (vmem s)" using in_useD(4) [OF tables_okD(5) [OF ok c]] .
qed

text \<open>The translation of an address depends on the entries of its region only.\<close>

lemma trans_agree:
  assumes ok: "tables_ok rg s" and np: "npages (vmem s') = npages (vmem s)"
    and same: "\<And>f k. rg f = Some (k, prefix k x) \<Longrightarrow> frames (vmem s') f (idx k x) = frames (vmem s) f (idx k x)"
    and t: "rg t = Some (j, prefix j x)"
  shows "mmu j s' t x = mmu j s t x"
  using t
proof (induction j arbitrary: t)
  case (Suc j)
  have e: "get_entry (Entry t (idx (Suc j) x)) s' = get_entry (Entry t (idx (Suc j) x)) s"
    using same [OF Suc.prems] by (simp add: get_entry_def)
  show ?case using child_table [OF ok Suc.prems] Suc.IH e np by (simp add: Let_def)
qed simp

section \<open>Entries\<close>

lemma and_exp_bit: "w AND 2 ^ n \<noteq> 0 \<longleftrightarrow> bit w n" if "n < 64" for w :: u64
  using that by (simp add: bit_iff_and_push_bit_not_eq_0 push_bit_eq_mult)

lemma present_bit: "present e \<longleftrightarrow> bit e 0" and huge_bit: "huge e \<longleftrightarrow> bit e 7"
  using and_exp_bit [of 0 e] and_exp_bit [of 7 e]
  by (simp_all add: present_def huge_def PAGE_PRESENT_def PAGE_HUGE_def)

lemma page_mask: "NOT PAGE_MASK = push_bit 12 (mask 36)"
  by (simp add: PAGE_MASK_def mask_eq_exp_minus_1 push_bit_eq_mult)

lemma bit_PAGE_ADDR: "bit (PAGE_ADDR e) n \<longleftrightarrow> 12 \<le> n \<and> n < 48 \<and> bit e n"
  unfolding PAGE_ADDR_def page_mask by (auto simp: bit_and_iff bit_push_bit_iff bit_mask_iff)

lemma bit_page2pa: "bit (page2pa p) n \<longleftrightarrow> 12 \<le> n \<and> n < 64 \<and> bit p (n - 12)"
  by (auto simp: page2pa_def PAGE_TABLE_SHIFT_def bit_push_bit_iff bit_of_nat_iff dest: bit_imp_le_length)

lemma target_page2pa:
  assumes p: "p < 2 ^ 36" and w: "PAGE_ADDR w = 0"
  shows "target (page2pa p OR w) = p"
proof (rule bit_eqI)
  fix n
  have hi: "\<not> bit p n" if "36 \<le> n"
    using p that by (metis bit_take_bit_iff less_le_trans not_le power_increasing take_bit_nat_eq_self_iff one_le_numeral)
  have lo: "\<not> bit w (n + 12)" if "n < 36"
    using arg_cong [OF w, of "\<lambda>v. bit v (n + 12)"] that by (simp add: bit_PAGE_ADDR)
  show "bit (target (page2pa p OR w)) n = bit p n"
    using hi lo by (cases "n < 36")
      (auto simp: target_def PAGE_INDEX_def PAGE_TABLE_SHIFT_def bit_unat bit_drop_bit_eq bit_PAGE_ADDR
        bit_or_iff bit_page2pa add.commute)
qed

lemma table_flags: "PAGE_PRESENT OR PAGE_WRITE OR PAGE_USER = 7"
  by (simp add: PAGE_PRESENT_def PAGE_WRITE_def PAGE_USER_def)

lemma new_table_entry:
  assumes "p < 2 ^ 36"
  shows "present (page2pa p OR 7)" "\<not> huge (page2pa p OR 7)" "target (page2pa p OR 7) = p"
proof -
  have "bit (7 :: u64) 0" "\<not> bit (7 :: u64) 7" by simp_all
  then show "present (page2pa p OR 7)" "\<not> huge (page2pa p OR 7)"
    by (simp_all add: present_bit huge_bit bit_or_iff bit_page2pa)
  show "target (page2pa p OR 7) = p"
    by (rule target_page2pa [OF assms]) (simp add: PAGE_ADDR_def PAGE_MASK_def)
qed

lemma not_present_0: "\<not> present 0"
  by (simp add: present_bit)

section \<open>Allocating a table\<close>

text \<open>The relation between a state and a later one in which tables have been added.\<close>

definition grown :: "typing \<Rightarrow> vm \<Rightarrow> typing \<Rightarrow> vm \<Rightarrow> bool" where
  "grown rg s rg' s' \<longleftrightarrow> tables_ok rg' s' \<and> (\<forall>q. in_use (vmem s) q \<and> order_of (vmem s) q = 0 \<longrightarrow> rg' q = rg q) \<and>
     phys_keeps UNIV (vmem s) (vmem s') \<and>
     npages (vmem s') = npages (vmem s) \<and> cr3 s' = cr3 s \<and> flushed s' = flushed s \<and>
     (\<forall>t i. rg t \<noteq> None \<and> present (frames (vmem s) t i) \<longrightarrow> frames (vmem s') t i = frames (vmem s) t i) \<and>
     (\<forall>j t x. rg t = Some (j, prefix j x) \<longrightarrow> mmu j s' t x = mmu j s t x)"

lemma grownD:
  assumes "grown rg s rg' s'" and "tables_ok rg s"
  shows "tables_ok rg' s'" and "rg t = Some (a, c) \<Longrightarrow> rg' t = Some (a, c)"
    and "in_use (vmem s) q \<Longrightarrow> order_of (vmem s) q = 0 \<Longrightarrow> rg' q = rg q"
    and "in_use (vmem s) q \<Longrightarrow> order_of (vmem s) q = 0 \<Longrightarrow> in_use (vmem s') q"
    and "in_use (vmem s) q \<Longrightarrow> order_of (vmem s) q = 0 \<Longrightarrow> pages (vmem s') q = pages (vmem s) q"
    and "npages (vmem s') = npages (vmem s)"
    and "rg t = Some (a, c) \<Longrightarrow> present (get_entry (Entry t i) s) \<Longrightarrow> get_entry (Entry t i) s' = get_entry (Entry t i) s"
    and "rg t = Some (j, prefix j x) \<Longrightarrow> mmu j s' t x = mmu j s t x"
    and "cr3 s' = cr3 s" and "flushed s' = flushed s"
  using assms tables_okD(5,6) [OF assms(2)] by (auto simp: grown_def phys_keeps_def get_entry_def)

lemma grown_refl: "tables_ok rg s \<Longrightarrow> grown rg s rg s"
  by (simp add: grown_def)

lemma grown_trans:
  assumes a: "grown rg s rg1 s1" and b: "grown rg1 s1 rg2 s2" and ok: "tables_ok rg s"
  shows "grown rg s rg2 s2"
proof -
  note a' = grownD [OF a ok] and b' = grownD [OF b grownD(1) [OF a ok]]
  have "mmu j s2 t x = mmu j s t x" if "rg t = Some (j, prefix j x)" for j t x
    using a'(8) [OF that] b'(8) [OF a'(2) [OF that]] by simp
  moreover have "frames (vmem s2) t i = frames (vmem s) t i" if "rg t \<noteq> None" "present (frames (vmem s) t i)" for t i
    using that a'(2,7) b'(7) by (auto simp: get_entry_def)
  moreover have "rg2 q = rg q" if "in_use (vmem s) q" "order_of (vmem s) q = 0" for q
    using a'(3-5) b'(3) that by simp
  moreover have "phys_keeps UNIV (vmem s) (vmem s2)" using a b by (auto simp: grown_def phys_keeps_def)
  ultimately show ?thesis using a'(6,9,10) b'(1,6,9,10) by (simp add: grown_def)
qed

lemma trans_new_table:
  assumes ok: "tables_ok rg s" and f: "rg f = Some (Suc l, pre)" "1 \<le> l" and old: "\<not> present (frames (vmem s) f i)"
    and np: "npages (vmem s') = npages (vmem s)" and p: "rg p = None" "p < 2 ^ 36"
    and fr: "frames (vmem s') = (frames (vmem s))(p := (\<lambda>_. 0), f := (frames (vmem s) f)(i := page2pa p OR 7))"
    and pn: "p < npages (vmem s)" and t: "rg t = Some (j, prefix j x)"
  shows "mmu j s' t x = mmu j s t x"
  using t
proof (induction j arbitrary: t)
  case (Suc j)
  have tp: "t \<noteq> p" "f \<noteq> p" using p(1) f(1) Suc.prems by auto
  show ?case
  proof (cases "t = f \<and> idx (Suc j) x = i")
    case False
    then have e: "get_entry (Entry t (idx (Suc j) x)) s' = get_entry (Entry t (idx (Suc j) x)) s"
      using tp by (auto simp: get_entry_def fr)
    then show ?thesis using child_table [OF ok Suc.prems] Suc.IH np by (simp add: Let_def)
  next
    case True
    then have j: "j = l" "1 \<le> j" using f Suc.prems by simp_all
    have "mmu j s' p x = Some None"
      using j(2) tp not_present_0 by (cases j) (simp_all add: get_entry_def fr Let_def)
    moreover have "\<not> is_leaf (Suc j) (page2pa p OR 7)" using j(2) new_table_entry [OF p(2)] by (simp add: is_leaf_def)
    ultimately show ?thesis
      using True old tp pn np new_table_entry [OF p(2)] by (simp add: get_entry_def fr Let_def)
  qed
qed simp

lemma vm_page_alloc_zero:
  assumes ok: "allocator_ok (vmem s)" and free: "free_frames (vmem s) \<noteq> {}"
  obtains p m where "vm_page_alloc ALLOC_ZERO s = Some (Some p, s\<lparr>vmem := m\<rparr>)"
    and "page_alloc ALLOC_ZERO (vmem s) = Some (Some p, m)"
proof -
  obtain r m where m: "page_alloc ALLOC_ZERO (vmem s) = Some (r, m)" using page_alloc_outcome [OF ok] by blast
  have "r \<noteq> None"
  proof
    assume "r = None"
    then have "\<forall>h\<in>free_heads (vmem s). order_of (vmem s) h < 0"
      using page_alloc_none(2) [OF ok] m by (metis alloc_order_flags(2))
    then show False using free by (auto simp: free_frames_def)
  qed
  then show thesis using that m by (auto simp: vm_page_alloc_def)
qed

lemma alloc_retry_zero:
  assumes "allocator_ok (vmem s)" and "free_frames (vmem s) \<noteq> {}"
  obtains p m where "alloc_retry oom ALLOC_ZERO s = Some (Some p, s\<lparr>vmem := m\<rparr>)"
    and "page_alloc ALLOC_ZERO (vmem s) = Some (Some p, m)"
proof -
  obtain p m where "vm_page_alloc ALLOC_ZERO s = Some (Some p, s\<lparr>vmem := m\<rparr>)"
    and a: "page_alloc ALLOC_ZERO (vmem s) = Some (Some p, m)" by (rule vm_page_alloc_zero [OF assms])
  then show thesis by (intro that [OF _ a]) (simp add: alloc_retry_def)
qed

text \<open>Nothing in the allocator's invariant depends on the contents of the pages.\<close>

lemma buddy_view_frames: "buddy_view m (m\<lparr>frames := g\<rparr>)"
  by (simp add: buddy_view_same)

lemma frames_update:
  "allocator_ok (m\<lparr>frames := g\<rparr>) = allocator_ok m" "in_use (m\<lparr>frames := g\<rparr>) p = in_use m p"
  "free_frames (m\<lparr>frames := g\<rparr>) = free_frames m"
proof -
  show f: "free_frames (m\<lparr>frames := g\<rparr>) = free_frames m" for m
    by (rule buddy_view_inv(2)) (rule buddy_view_frames)
  have "buddy_inv (m\<lparr>frames := g\<rparr>) = buddy_inv m"
    by (rule buddy_view_inv(1)) (rule buddy_view_frames)
  then show "allocator_ok (m\<lparr>frames := g\<rparr>) = allocator_ok m"
    by (simp add: allocator_ok_def locks_idle_def tracked_def)
  have "set_ref p 0 (m\<lparr>frames := g\<rparr>) = (set_ref p 0 m)\<lparr>frames := g\<rparr>"
    by (simp add: set_ref_def upd_page_def)
  then show "in_use (m\<lparr>frames := g\<rparr>) p = in_use m p"
    by (simp add: in_use_def owned_def f block_ok_def)
qed

lemma tables_ok_new_table:
  assumes ok: "tables_ok rg s" and f: "rg f = Some (Suc l, pre)" "1 \<le> l"
    and p: "rg p = None" "p < 2 ^ 36" and np: "npages (vmem s') = npages (vmem s)"
    and fr: "frames (vmem s') = (frames (vmem s))(p := (\<lambda>_. 0), f := (frames (vmem s) f)(i := page2pa p OR 7))"
    and use: "\<And>q. in_use (vmem s) q \<Longrightarrow> order_of (vmem s) q = 0 \<Longrightarrow>
      in_use (vmem s') q \<and> pages (vmem s') q = pages (vmem s) q"
    and new: "allocator_ok (vmem s')" "in_use (vmem s') p" "order_of (vmem s') p = 0" "0 < pp_ref (pages (vmem s') p)"
  shows "tables_ok (rg(p \<mapsto> (l, pre * 512 + i))) s'"
proof -
  let ?rg = "rg(p \<mapsto> (l, pre * 512 + i))"
  have fp: "f \<noteq> p" and l4: "l \<le> 4" using p f tables_okD(4) [OF ok f(1)] by auto
  have "1 \<le> j \<and> j \<le> 4 \<and> in_use (vmem s') g \<and> order_of (vmem s') g = 0 \<and> 0 < pp_ref (pages (vmem s') g)"
    if "?rg g = Some (j, q)" for g j q
    using that new(2-4) f(2) l4 tables_okD(3-7) [OF ok, of g j q] use [of g]
    by (cases "g = p") auto
  moreover have "?rg (target (frames (vmem s') g k)) = Some (j - 1, q * 512 + k)"
    if g: "?rg g = Some (j, q)" "k < 512" "present (frames (vmem s') g k)" "\<not> is_leaf j (frames (vmem s') g k)" for g j q k
  proof (cases "g = f \<and> k = i")
    case True
    then show ?thesis using g(1) f fp new_table_entry(3) [OF p(2)] by (auto simp: fr)
  next
    case False
    have gp: "g \<noteq> p" using g(3) not_present_0 fp by (auto simp: fr)
    then have e: "frames (vmem s') g k = frames (vmem s) g k" using False by (auto simp: fr)
    then have "rg (target (frames (vmem s) g k)) = Some (j - 1, q * 512 + k)"
      using tables_okD(8) [OF ok] g gp by simp
    then show ?thesis using e p(1) by auto
  qed
  ultimately show ?thesis
    unfolding tables_ok_def using new(1) np tables_okD(1) [OF ok] by simp
qed

lemma ptbl_alloc_grown:
  assumes ok: "tables_ok rg s" and f: "rg f = Some (Suc l, pre)" "1 \<le> l" and i: "i < 512"
    and old: "\<not> present (get_entry (Entry f i) s)" and free: "free_frames (vmem s) \<noteq> {}"
  obtains p s' where "ptbl_alloc oom (Entry f i) b en (u, s) = Some (0, (u, s'))"
    and "grown rg s (rg(p \<mapsto> (l, pre * 512 + i))) s'" and "get_entry (Entry f i) s' = page2pa p OR 7"
    and "p \<in> free_frames (vmem s)" and "free_frames (vmem s') = free_frames (vmem s) - {p}"
proof -
  obtain p m where r: "alloc_retry oom ALLOC_ZERO s = Some (Some p, s\<lparr>vmem := m\<rparr>)"
    and a: "page_alloc ALLOC_ZERO (vmem s) = Some (Some p, m)"
    by (rule alloc_retry_zero [OF tables_okD(2) [OF ok] free])
  note new = new_page [OF tables_okD(2) [OF ok] a]
  define s1 where "s1 = incref p (rss_add 1 (s\<lparr>vmem := m\<rparr>))"
  have s1: "vmem s1 = upd_page p (\<lambda>q. q\<lparr>pp_ref := pp_ref q + 1\<rparr>) m" "cr3 s1 = cr3 s" "flushed s1 = flushed s"
    by (simp_all add: s1_def incref_def vm_upd_page_def)
  define s' where "s' = set_entry (Entry f i) (page2pa p OR 7) s1"
  let ?m = "upd_page p (\<lambda>q. q\<lparr>pp_ref := pp_ref q + 1\<rparr>) m" and ?rg = "rg(p \<mapsto> (l, pre * 512 + i))"
  have rgp: "rg p = None"
    using in_useD(1) [OF tables_okD(5) [OF ok]] new(6) by (metis not_Some_eq surj_pair)
  have pn: "p < npages (vmem s)" using new(8,9) by simp
  then have p36: "p < 2 ^ 36" using tables_okD(1) [OF ok] by simp
  have fp: "f \<noteq> p" using rgp f by auto
  have vm: "vmem s' = ?m\<lparr>frames := (frames ?m)(f := (frames ?m f)(i := page2pa p OR 7))\<rparr>"
    by (simp add: s'_def set_entry_def s1)
  have fr: "frames (vmem s') = (frames (vmem s))(p := (\<lambda>_. 0), f := (frames (vmem s) f)(i := page2pa p OR 7))"
    using fp by (simp add: vm new(11))
  have use: "in_use (vmem s') q" "pages (vmem s') q = pages (vmem s) q"
    if "in_use (vmem s) q" "order_of (vmem s) q = 0" for q
    using new(10) that by (simp_all add: vm frames_update phys_keeps_def)
  have keeps: "phys_keeps UNIV (vmem s) (vmem s')" using new(10) by (simp add: phys_keeps_def vm frames_update)
  have np: "npages (vmem s') = npages (vmem s)" using new(8) by (simp add: vm)
  have "tables_ok ?rg s'"
    by (rule tables_ok_new_table [OF ok f rgp p36 np fr])
      (use use new(2-5) in \<open>simp_all add: vm frames_update\<close>)
  moreover have "mmu j s' t x = mmu j s t x" if "rg t = Some (j, prefix j x)" for j t x
    using trans_new_table [OF ok f _ np rgp p36 fr pn that] old by (simp add: get_entry_def)
  moreover have "?rg q = rg q" if "in_use (vmem s) q" "order_of (vmem s) q = 0" for q
    using in_useD(1) [OF that(1)] new(6) by auto
  moreover have "frames (vmem s') t k = frames (vmem s) t k" if "rg t \<noteq> None" "present (frames (vmem s) t k)" for t k
    using that rgp old by (auto simp: fr get_entry_def)
  ultimately have "grown rg s ?rg s'" using keeps np by (simp add: grown_def s'_def s1)
  moreover have "ptbl_alloc oom (Entry f i) b en (u, s) = Some (0, (u, s'))"
    using old r by (simp add: ptbl_alloc_def s'_def s1_def Let_def table_flags or.assoc)
  moreover have "free_frames (vmem s') = free_frames (vmem s) - {p}" by (simp add: vm frames_update new(7))
  ultimately show thesis using that new(6) by (simp add: s'_def)
qed

text \<open>One level of the walk: the entry for \<open>va\<close> is present afterwards and leads to the next table.\<close>

lemma alloc_level:
  assumes ok: "tables_ok rg s" and t: "rg t = Some (Suc l, prefix (Suc l) va)" "1 \<le> l"
    and hole: "mmu (Suc l) s t va = Some None" and free: "n < card (free_frames (vmem s))"
  defines "e \<equiv> Entry t (idx (Suc l) va)"
  obtains rg' s' t' where "ptbl_alloc oom e b en (u, s) = Some (0, (u, s'))" and "grown rg s rg' s'"
    and "present (get_entry e s')" and "\<not> is_leaf (Suc l) (get_entry e s')" and "target (get_entry e s') = t'"
    and "rg' t' = Some (l, prefix l va)" and "KADDR_table (PAGE_ADDR (get_entry e s')) s' = Some t'"
    and "mmu l s' t' va = Some None" and "n \<le> card (free_frames (vmem s'))"
proof -
  have "\<exists>rg' s'. ptbl_alloc oom e b en (u, s) = Some (0, (u, s')) \<and> grown rg s rg' s' \<and>
      present (get_entry e s') \<and> \<not> is_leaf (Suc l) (get_entry e s') \<and> n \<le> card (free_frames (vmem s'))"
  proof (cases "present (get_entry e s)")
    case True
    then have "\<not> is_leaf (Suc l) (get_entry e s)" using hole by (auto simp: e_def Let_def split: if_splits)
    then show ?thesis using True free grown_refl [OF ok] by (auto simp: ptbl_alloc_def)
  next
    case False
    have "0 < card (free_frames (vmem s))" using free by simp
    then have fin: "finite (free_frames (vmem s))" "free_frames (vmem s) \<noteq> {}" by (simp_all add: card_gt_0_iff)
    obtain p s' where p: "ptbl_alloc oom e b en (u, s) = Some (0, (u, s'))"
      "grown rg s (rg(p \<mapsto> (l, prefix (Suc l) va * 512 + idx (Suc l) va))) s'"
      "get_entry e s' = page2pa p OR 7" "p \<in> free_frames (vmem s)"
      "free_frames (vmem s') = free_frames (vmem s) - {p}"
      unfolding e_def by (rule ptbl_alloc_grown [OF ok t idx_less False [unfolded e_def] fin(2)])
    note gd = grownD [OF p(2) ok]
    have "p < npages (vmem s')" by (rule in_useD(4), rule tables_okD(5) [OF gd(1)]) simp
    then have "p < 2 ^ 36" using tables_okD(1) [OF gd(1)] by simp
    then have "present (get_entry e s')" "\<not> is_leaf (Suc l) (get_entry e s')"
      using new_table_entry [of p] p(3) t(2) by (simp_all add: is_leaf_def)
    moreover have "n \<le> card (free_frames (vmem s'))" using p(4,5) free by (simp add: card_Diff_singleton)
    ultimately show ?thesis using p(1,2) by blast
  qed
  then obtain rg' s' where g: "ptbl_alloc oom e b en (u, s) = Some (0, (u, s'))" "grown rg s rg' s'"
      "present (get_entry e s')" "\<not> is_leaf (Suc l) (get_entry e s')" "n \<le> card (free_frames (vmem s'))" by blast
  note gd = grownD [OF g(2) ok]
  note c = child_table [OF gd(1) gd(2) [OF t(1)] g(3,4) [unfolded e_def], folded e_def]
  have "KADDR_table (PAGE_ADDR (get_entry e s')) s' = Some (target (get_entry e s'))"
    using c(2) by (simp add: KADDR_table_def target_def)
  moreover have "mmu l s' (target (get_entry e s')) va = Some None"
    using gd(8) [OF t(1)] hole g(3,4) c(2) by (simp add: Let_def e_def)
  ultimately show thesis using that g c(1) by blast
qed

section \<open>Inserting a page\<close>

definition mapped_leaf :: "nat \<Rightarrow> u64 \<Rightarrow> entry_ptr \<Rightarrow> vm \<Rightarrow> vm" where
  "mapped_leaf page flags e s =
     set_entry e (page2pa page OR (flags OR PAGE_PRESENT)) (vm_upd_page page (\<lambda>q. q\<lparr>pp_free := False\<rparr>) (incref page s))"

lemma insert_pte_hole:
  assumes "\<not> present (get_entry e s)" and "order_of (vmem s) (ins_page info) = 0"
  shows "insert_pte e b en (info, s) = Some (0, (info, mapped_leaf (ins_page info) (ins_flags info) e s))"
proof -
  have "get_entry e (incref p s) = get_entry e s" for p
    by (simp add: get_entry_def incref_def vm_upd_page_def upd_page_def)
  then show ?thesis using assms by (simp add: insert_pte_def mapped_leaf_def Let_def)
qed

lemma mapped_leaf_fields:
  assumes "in_use (vmem s) page"
  shows "vmem (mapped_leaf page flags e s) = (set_ref page (pp_ref (pages (vmem s) page) + 1) (vmem s))
       \<lparr>frames := (frames (vmem s))(etable e := (frames (vmem s) (etable e))
          (eindex e := page2pa page OR (flags OR PAGE_PRESENT)))\<rparr>"
    and "cr3 (mapped_leaf page flags e s) = cr3 s" and "flushed (mapped_leaf page flags e s) = flushed s"
proof -
  have unfree: "q\<lparr>pp_ref := r, pp_free := False\<rparr> = q\<lparr>pp_ref := r\<rparr>" if "\<not> pp_free q" for q :: page_info and r
    using that by (cases q) simp
  show "vmem (mapped_leaf page flags e s) = (set_ref page (pp_ref (pages (vmem s) page) + 1) (vmem s))
       \<lparr>frames := (frames (vmem s))(etable e := (frames (vmem s) (etable e))
          (eindex e := page2pa page OR (flags OR PAGE_PRESENT)))\<rparr>"
    by (simp add: mapped_leaf_def set_entry_def vm_upd_page_def incref_def upd_page_def set_ref_def
        unfree [OF in_useD(3) [OF assms]])
qed (simp_all add: mapped_leaf_def vm_upd_page_def incref_def)

lemma mapped_leaf_ok:
  fixes flags :: u64
  assumes ok: "tables_ok rg s" and t: "rg t = Some (1, prefix 1 va)" and i: "i = idx 1 va"
    and page: "in_use (vmem s) page" "rg page = None"
  defines "s' \<equiv> mapped_leaf page flags (Entry t i) s"
  shows "tables_ok rg s'"
    and "\<And>j r x. rg r = Some (j, prefix j x) \<Longrightarrow> prefix 0 x \<noteq> prefix 0 va \<Longrightarrow> mmu j s' r x = mmu j s r x"
proof -
  note mf = mapped_leaf_fields [OF page(1), of flags "Entry t i"]
  have np: "npages (vmem s') = npages (vmem s)" by (simp add: s'_def mf)
  have fr: "frames (vmem s') = (frames (vmem s))(t := (frames (vmem s) t)(i := page2pa page OR (flags OR PAGE_PRESENT)))"
    by (simp add: s'_def mf)
  have use: "in_use (vmem s') f \<and> pages (vmem s') f = pages (vmem s) f" if "rg f = Some (j, pre)" for f j pre
  proof -
    have "f \<noteq> page" using that page(2) by auto
    moreover have "page \<notin> block (vmem s) f"
      using tables_okD(6) [OF ok that] \<open>f \<noteq> page\<close> by (simp add: chunk_def)
    ultimately show ?thesis using tables_okD(5) [OF ok that]
      by (simp add: s'_def mf frames_update in_use_set_ref_other set_ref_page)
  qed
  have "allocator_ok (vmem s')"
    using set_ref_ok [OF tables_okD(2) [OF ok] in_useD(1) [OF page(1)]] by (simp add: s'_def mf frames_update)
  moreover have "rg (target (frames (vmem s') f k)) = Some (j - 1, pre * 512 + k)"
    if f: "rg f = Some (j, pre)" "k < 512" "present (frames (vmem s') f k)" "\<not> is_leaf j (frames (vmem s') f k)" for f j pre k
  proof -
    have "f \<noteq> t" using f(1,4) t by (auto simp: is_leaf_def)
    then show ?thesis using tables_okD(8) [OF ok f(1,2)] f(3,4) by (simp add: fr)
  qed
  ultimately show "tables_ok rg s'"
    unfolding tables_ok_def np using tables_okD(1,3,4,6,7) [OF ok] use by simp
  show "mmu j s' r x = mmu j s r x" if "rg r = Some (j, prefix j x)" "prefix 0 x \<noteq> prefix 0 va" for j r x
  proof (rule trans_agree [OF ok np _ that(1)])
    fix f k
    assume f: "rg f = Some (k, prefix k x)"
    show "frames (vmem s') f (idx k x) = frames (vmem s) f (idx k x)"
    proof (cases "f = t")
      case True
      then have "k = 1" "prefix 1 x = prefix 1 va" using f t by auto
      then have "idx 1 x \<noteq> idx 1 va" using that(2) prefix_step [of 1 x] prefix_step [of 1 va] by auto
      then show ?thesis using \<open>k = 1\<close> i by (simp add: fr)
    qed (simp add: fr)
  qed
qed

abbreviation insert_walker :: "(vm \<Rightarrow> vm option) \<Rightarrow> insert_info page_walker" where
  "insert_walker oom \<equiv> no_walker\<lparr>pte_callback := Some insert_pte, pde_callback := Some (insert_pde oom),
     pdpte_callback := Some (ptbl_alloc oom), pml4e_callback := Some (ptbl_alloc oom),
     pde_unmap := Some (ptbl_merge oom)\<rparr>"

lemma insert_pde_small:
  assumes "\<not> huge (ins_flags info)" and "\<not> (present (get_entry e s) \<and> huge (get_entry e s))"
  shows "insert_pde oom e b en (info, s) = ptbl_alloc oom e b en (info, s)"
  using assms by (auto simp: insert_pde_def)

lemma ptbl_merge_sparse:
  assumes "present (get_entry e s)" and "\<not> huge (get_entry e s)"
    and "KADDR_table (PAGE_ADDR (get_entry e s)) s = Some t"
    and "i < 512" and "\<not> present (get_entry (Entry t i) s)"
  shows "ptbl_merge oom e b en (u, s) = Some (0, (u, s))"
proof -
  have "\<not> mergeable t s" using assms(4,5) by (auto simp: mergeable_def list_all_iff PAGE_TABLE_ENTRIES_def)
  moreover have "pa2page (PAGE_ADDR (get_entry e s)) s = Some t"
    using assms(3) by (simp add: pa2page_def KADDR_table_def)
  ultimately show ?thesis using assms(1-3) by (simp add: ptbl_merge_def)
qed

text \<open>
  The walk of \<^verbatim>\<open>page_insert\<close> for an address that is not mapped, bottom up: below a table of the
  given level it ends with the page mapped.
\<close>

definition inserts :: "(vm \<Rightarrow> vm option) \<Rightarrow> nat \<Rightarrow> typing \<Rightarrow> vm \<Rightarrow> nat \<Rightarrow> u64 \<Rightarrow> insert_info \<Rightarrow> (int \<times> insert_info \<times> vm) option \<Rightarrow> bool" where
  "inserts oom j rg s t va info res \<longleftrightarrow> (\<exists>rg' s1 t1 s'. res = Some (0, (info, s')) \<and> grown rg s rg' s1 \<and>
     rg' t1 = Some (1, prefix 1 va) \<and> mmu 1 s1 t1 va = Some None \<and>
     s' = mapped_leaf (ins_page info) (ins_flags info) (Entry t1 (idx 1 va)) s1 \<and>
     (\<forall>x. prefix 1 x = prefix 1 va \<longrightarrow> mmu j s1 t x = mmu 1 s1 t1 x \<and> mmu j s' t x = mmu 1 s' t1 x))"

lemma inserts_up:
  assumes ok: "tables_ok rg s" and t: "rg t = Some (Suc l, prefix (Suc l) va)" "1 \<le> l"
    and g: "grown rg s rg1 s1" and e: "present (get_entry (Entry t (idx (Suc l) va)) s1)"
      "\<not> is_leaf (Suc l) (get_entry (Entry t (idx (Suc l) va)) s1)" "target (get_entry (Entry t (idx (Suc l) va)) s1) = t1"
    and page: "in_use (vmem s) (ins_page info)" "order_of (vmem s) (ins_page info) = 0"
    and low: "inserts oom l rg1 s1 t1 va info res"
  shows "inserts oom (Suc l) rg s t va info res"
proof -
  note gd = grownD [OF g ok]
  from low obtain rg2 s2 t2 s' where r: "res = Some (0, (info, s'))" and g2: "grown rg1 s1 rg2 s2"
    and t2: "rg2 t2 = Some (1, prefix 1 va)" "mmu 1 s2 t2 va = Some None"
    and s': "s' = mapped_leaf (ins_page info) (ins_flags info) (Entry t2 (idx 1 va)) s2"
    and m: "\<And>x. prefix 1 x = prefix 1 va \<Longrightarrow> mmu l s2 t1 x = mmu 1 s2 t2 x \<and> mmu l s' t1 x = mmu 1 s' t2 x"
    unfolding inserts_def by blast
  note gd2 = grownD [OF g2 gd(1)]
  have l4: "Suc l \<le> 4" using tables_okD(4) [OF ok t(1)] .
  have rgt: "rg1 t = Some (Suc l, prefix (Suc l) va)" using gd(2) [OF t(1)] .
  have "t \<noteq> t2" using gd2(2) [OF rgt] t2(1) t(2) by auto
  have pg: "in_use (vmem s2) (ins_page info)" using gd(4,5) gd2(4) page by simp
  have e2: "get_entry (Entry t (idx (Suc l) va)) s2 = get_entry (Entry t (idx (Suc l) va)) s1"
    using gd2(7) [OF rgt e(1)] .
  have e': "get_entry (Entry t (idx (Suc l) va)) s' = get_entry (Entry t (idx (Suc l) va)) s1"
    using e2 \<open>t \<noteq> t2\<close> mapped_leaf_fields(1) [OF pg] by (simp add: s' get_entry_def)
  have np: "npages (vmem s2) = npages (vmem s1)" "npages (vmem s') = npages (vmem s1)"
    using gd2(6) mapped_leaf_fields(1) [OF pg] by (simp_all add: s')
  have t1n: "t1 < npages (vmem s1)" using child_table(2) [OF gd(1) rgt e(1,2)] e(3) by simp
  have "mmu (Suc l) s2 t x = mmu 1 s2 t2 x \<and> mmu (Suc l) s' t x = mmu 1 s' t2 x" if x: "prefix 1 x = prefix 1 va" for x
  proof -
    have "idx (Suc l) x = idx (Suc l) va" by (rule prefix_1_idx [OF x]) (use t(2) l4 in simp_all)
    then show ?thesis using e e2 e' np t1n m [OF x] by (simp add: Let_def)
  qed
  then show ?thesis unfolding inserts_def using r grown_trans [OF g g2 ok] t2 s' by blast
qed

lemma ptbl_step_insert:
  assumes hole: "mmu 1 s t va = Some None" and page: "order_of (vmem s) (ins_page info) = 0"
  shows "ptbl_step (insert_walker oom) t va (info, s) =
    Some (0, (info, mapped_leaf (ins_page info) (ins_flags info) (Entry t (idx 1 va)) s))"
proof -
  let ?e = "Entry t (idx 1 va)"
  have h: "\<not> present (get_entry ?e s)" using hole by (auto simp: Let_def is_leaf_def split: if_splits)
  have "present (get_entry ?e (mapped_leaf p fl ?e s))" for p fl
    by (simp add: mapped_leaf_def present_bit bit_or_iff PAGE_PRESENT_def)
  then show ?thesis using insert_pte_hole [OF h page] by (simp add: ptbl_step_def index_idx Let_def)
qed

lemma insert_at_ptbl:
  assumes ok: "tables_ok rg s" and t: "rg t = Some (1, prefix 1 va)" and hole: "mmu 1 s t va = Some None"
    and page: "order_of (vmem s) (ins_page info) = 0"
  shows "inserts oom 1 rg s t va info (ptbl_step (insert_walker oom) t va (info, s))"
  unfolding inserts_def ptbl_step_insert [OF hole page] using grown_refl [OF ok] t hole by blast

text \<open>Some page of the 2 MiB region other than that of \<open>va\<close> is not mapped.\<close>

definition sparse :: "nat \<Rightarrow> vm \<Rightarrow> nat \<Rightarrow> u64 \<Rightarrow> bool" where
  "sparse j s t va \<longleftrightarrow> (\<exists>x. prefix 1 x = prefix 1 va \<and> idx 1 x \<noteq> idx 1 va \<and> mmu j s t x = Some None)"

lemma insert_at_pdir:
  assumes ok: "tables_ok rg s" and t: "rg t = Some (2, prefix 2 va)" and hole: "mmu 2 s t va = Some None"
    and page: "in_use (vmem s) (ins_page info)" "order_of (vmem s) (ins_page info) = 0"
    and flags: "\<not> huge (ins_flags info)" and free: "n < card (free_frames (vmem s))"
    and at: "page_at va b" and sp: "sparse 2 s t va"
  shows "inserts oom 2 rg s t va info (pdir_step (insert_walker oom) t b va (info, s))"
proof -
  let ?e = "Entry t (idx 2 va)"
  have t': "rg t = Some (Suc 1, prefix (Suc 1) va)" and hole': "mmu (Suc 1) s t va = Some None"
    using t hole by (simp_all add: numeral_2_eq_2)
  obtain rg1 s1 t1 where a: "ptbl_alloc oom ?e (pdir_start va) (pdir_end va) (info, s) = Some (0, (info, s1))"
    and g: "grown rg s rg1 s1" and e: "present (get_entry ?e s1)" "\<not> is_leaf 2 (get_entry ?e s1)" "target (get_entry ?e s1) = t1"
    and t1: "rg1 t1 = Some (1, prefix 1 va)" "KADDR_table (PAGE_ADDR (get_entry ?e s1)) s1 = Some t1" "mmu 1 s1 t1 va = Some None"
    by (rule alloc_level [OF ok t' order_refl hole' free, unfolded Suc_1])
  note gd = grownD [OF g ok]
  have order1: "order_of (vmem s1) (ins_page info) = 0" and use1: "in_use (vmem s1) (ins_page info)"
    using gd(4,5) page by simp_all
  have tt: "t \<noteq> t1" using gd(2) [OF t] t1(1) by auto
  have notleaf: "\<not> huge (get_entry ?e s1)" using e(2) by (simp add: is_leaf_def)
  have "\<not> (present (get_entry ?e s) \<and> huge (get_entry ?e s))"
    using hole by (auto simp: numeral_2_eq_2 Let_def is_leaf_def split: if_splits)
  note pde = insert_pde_small [OF flags this, of oom "pdir_start va" "pdir_end va"]
  define s' where "s' = mapped_leaf (ins_page info) (ins_flags info) (Entry t1 (idx 1 va)) s1"
  have frs: "get_entry (Entry f k) s' = get_entry (Entry f k) s1" if "f \<noteq> t1 \<or> k \<noteq> idx 1 va" for f k
    using that mapped_leaf_fields(1) [OF use1] by (auto simp: s'_def get_entry_def)
  have np: "npages (vmem s') = npages (vmem s1)" using mapped_leaf_fields(1) [OF use1] by (simp add: s'_def)
  obtain x where x: "prefix 1 x = prefix 1 va" "idx 1 x \<noteq> idx 1 va" "mmu 2 s t x = Some None" using sp by (auto simp: sparse_def)
  have ix: "idx 2 x = idx 2 va" and px: "prefix 2 x = prefix 2 va" using prefix_up [OF x(1)] by (simp_all add: numeral_2_eq_2)
  have "mmu 2 s1 t x = Some None" using gd(8) [of t 2 x] t px x(3) by simp
  then have "\<not> present (get_entry (Entry t1 (idx 1 x)) s1)"
    using e ix child_table(2) [OF gd(1) gd(2) [OF t'], of ] notleaf
    by (auto simp: numeral_2_eq_2 Let_def is_leaf_def split: if_splits)
  then have "ptbl_merge oom ?e (pdir_start va) (pdir_end va) (info, s') = Some (0, (info, s'))"
    using e(1) notleaf t1(2) x(2) tt frs np
    by (intro ptbl_merge_sparse [of _ _ t1 "idx 1 x"]) (simp_all add: KADDR_table_def)
  moreover have "ptbl_step (insert_walker oom) t1 va (info, s1) = Some (0, (info, s'))"
    using ptbl_step_insert [OF t1(3) order1] by (simp add: s'_def)
  ultimately have "pdir_step (insert_walker oom) t b va (info, s) = ptbl_step (insert_walker oom) t1 va (info, s1)"
    using a e(1) notleaf t1(2) pde by (simp add: pdir_step_def index_idx Let_def walk_one_page [OF at])
  then show ?thesis
    using inserts_up [OF ok t' _ g _ _ _ page insert_at_ptbl [OF gd(1) t1(1,3) order1]] e by (simp add: numeral_2_eq_2)
qed

lemma sparse_down:
  assumes ok: "tables_ok rg s" and t: "rg t = Some (Suc l, prefix (Suc l) va)" "1 \<le> l" and g: "grown rg s rg1 s1"
    and e: "present (get_entry (Entry t (idx (Suc l) va)) s1)" "\<not> is_leaf (Suc l) (get_entry (Entry t (idx (Suc l) va)) s1)"
    and sp: "sparse (Suc l) s t va"
  shows "sparse l s1 (target (get_entry (Entry t (idx (Suc l) va)) s1)) va"
proof -
  note gd = grownD [OF g ok]
  obtain x where x: "prefix 1 x = prefix 1 va" "idx 1 x \<noteq> idx 1 va" "mmu (Suc l) s t x = Some None"
    using sp by (auto simp: sparse_def)
  have l4: "Suc l \<le> 4" using tables_okD(4) [OF ok t(1)] .
  have ix: "idx (Suc l) x = idx (Suc l) va" by (rule prefix_1_idx [OF x(1)]) (use t(2) l4 in simp_all)
  have px: "prefix (Suc l) x = prefix (Suc l) va" by (rule prefix_1_up [OF x(1)]) (use t(2) l4 in simp_all)
  have "mmu (Suc l) s1 t x = Some None" using gd(8) [of t "Suc l" x] t(1) px x(3) by simp
  moreover have "target (get_entry (Entry t (idx (Suc l) va)) s1) < npages (vmem s1)"
    by (rule child_table(2) [OF gd(1) gd(2) [OF t(1)] e])
  ultimately have "mmu l s1 (target (get_entry (Entry t (idx (Suc l) va)) s1)) x = Some None"
    using e ix by (simp add: Let_def)
  then show ?thesis using x(1,2) by (auto simp: sparse_def)
qed

lemma inserts_result: "inserts oom j rg s t va info res \<Longrightarrow> \<exists>s'. res = Some (0, (info, s'))"
  by (auto simp: inserts_def)

lemma insert_at_pdpt:
  assumes ok: "tables_ok rg s" and t: "rg t = Some (3, prefix 3 va)" and hole: "mmu 3 s t va = Some None"
    and page: "in_use (vmem s) (ins_page info)" "order_of (vmem s) (ins_page info) = 0"
    and flags: "\<not> huge (ins_flags info)" and free: "Suc n < card (free_frames (vmem s))"
    and at: "page_at va b" and sp: "sparse 3 s t va"
  shows "inserts oom 3 rg s t va info (pdpt_step (insert_walker oom) t b va (info, s))"
proof -
  let ?e = "Entry t (idx 3 va)"
  have t': "rg t = Some (Suc 2, prefix (Suc 2) va)" and hole': "mmu (Suc 2) s t va = Some None"
    and sp': "sparse (Suc 2) s t va" and two: "(1 :: nat) \<le> 2" and s2: "Suc 2 = 3"
    using t hole sp by simp_all
  obtain rg1 s1 t1 where a: "ptbl_alloc oom ?e (pdpt_start va) (pdpt_end va) (info, s) = Some (0, (info, s1))"
    and g: "grown rg s rg1 s1" and e: "present (get_entry ?e s1)" "\<not> is_leaf 3 (get_entry ?e s1)" "target (get_entry ?e s1) = t1"
    and t1: "rg1 t1 = Some (2, prefix 2 va)" "KADDR_table (PAGE_ADDR (get_entry ?e s1)) s1 = Some t1" "mmu 2 s1 t1 va = Some None"
    and free1: "Suc n \<le> card (free_frames (vmem s1))"
    by (rule alloc_level [OF ok t' two hole' free, unfolded s2])
  note gd = grownD [OF g ok]
  have "inserts oom 2 rg1 s1 t1 va info (pdir_step (insert_walker oom) t1 b va (info, s1))"
    using sparse_down [OF ok t' two g, unfolded s2, OF e(1,2) sp] e(3) gd(4,5) page free1 t1
    by (intro insert_at_pdir [OF gd(1) _ _ _ _ flags _ at, of _ n]) auto
  moreover from inserts_result [OF this]
  have "pdpt_step (insert_walker oom) t b va (info, s) = pdir_step (insert_walker oom) t1 b va (info, s1)"
    using a e(1) t1(2) by (auto simp: pdpt_step_def index_idx Let_def walk_one_page [OF at])
  ultimately show ?thesis
    using inserts_up [OF ok t' two g, unfolded s2, OF e page] by simp
qed

lemma insert_at_pml4:
  assumes ok: "tables_ok rg s" and t: "rg t = Some (4, prefix 4 va)" and hole: "mmu 4 s t va = Some None"
    and page: "in_use (vmem s) (ins_page info)" "order_of (vmem s) (ins_page info) = 0"
    and flags: "\<not> huge (ins_flags info)" and free: "Suc (Suc n) < card (free_frames (vmem s))"
    and at: "page_at va b" and sp: "sparse 4 s t va"
  shows "inserts oom 4 rg s t va info (pml4_step (insert_walker oom) t b va (info, s))"
proof -
  let ?e = "Entry t (idx 4 va)"
  have t': "rg t = Some (Suc 3, prefix (Suc 3) va)" and hole': "mmu (Suc 3) s t va = Some None"
    and sp': "sparse (Suc 3) s t va" and three: "(1 :: nat) \<le> 3" and s3: "Suc 3 = 4"
    using t hole sp by simp_all
  obtain rg1 s1 t1 where a: "ptbl_alloc oom ?e (pml4_start va) (pml4_end va) (info, s) = Some (0, (info, s1))"
    and g: "grown rg s rg1 s1" and e: "present (get_entry ?e s1)" "\<not> is_leaf 4 (get_entry ?e s1)" "target (get_entry ?e s1) = t1"
    and t1: "rg1 t1 = Some (3, prefix 3 va)" "KADDR_table (PAGE_ADDR (get_entry ?e s1)) s1 = Some t1" "mmu 3 s1 t1 va = Some None"
    and free1: "Suc (Suc n) \<le> card (free_frames (vmem s1))"
    by (rule alloc_level [OF ok t' three hole' free, unfolded s3])
  note gd = grownD [OF g ok]
  have "inserts oom 3 rg1 s1 t1 va info (pdpt_step (insert_walker oom) t1 b va (info, s1))"
    using sparse_down [OF ok t' three g, unfolded s3, OF e(1,2) sp] e(3) gd(4,5) page free1 t1
    by (intro insert_at_pdpt [OF gd(1) _ _ _ _ flags _ at, of _ n]) auto
  moreover from inserts_result [OF this]
  have "pml4_step (insert_walker oom) t b va (info, s) = pdpt_step (insert_walker oom) t1 b va (info, s1)"
    using a e(1) t1(2) by (auto simp: pml4_step_def index_idx Let_def walk_one_page [OF at])
  ultimately show ?thesis
    using inserts_up [OF ok t' three g, unfolded s3, OF e page] by simp
qed

lemma mmu_entry:
  assumes ok: "tables_ok rg s" and t: "rg t = Some (j, prefix j x)" and m: "mmu j s t x = Some (Some e)"
  shows "rg (etable e) \<noteq> None \<and> present (get_entry e s)"
  using t m
proof (induction j arbitrary: t)
  case (Suc j)
  let ?e = "get_entry (Entry t (idx (Suc j) x)) s"
  have p: "present ?e" using Suc.prems(2) by (auto simp: Let_def split: if_splits)
  show ?case
  proof (cases "is_leaf (Suc j) ?e")
    case True
    then show ?thesis using p Suc.prems by (auto simp: Let_def)
  next
    case False
    then show ?thesis using p Suc.prems child_table(1) [OF ok Suc.prems(1) p False] Suc.IH
      by (auto simp: Let_def split: if_splits)
  qed
qed simp

text \<open>What inserting an unmapped page at \<open>va\<close> achieves.\<close>

definition maps_page :: "typing \<Rightarrow> nat \<Rightarrow> nat \<Rightarrow> u64 \<Rightarrow> u64 \<Rightarrow> vm \<Rightarrow> vm \<Rightarrow> bool" where
  "maps_page rg pml4 page va flags s s' \<longleftrightarrow>
     (\<exists>e. translate s' pml4 va = Some (Some e) \<and> get_entry e s' = page2pa page OR (flags OR PAGE_PRESENT)
        \<and> pa2page (PAGE_ADDR (get_entry e s')) s' = Some page) \<and>
     pages (vmem s') page = (pages (vmem s) page)\<lparr>pp_ref := pp_ref (pages (vmem s) page) + 1\<rparr> \<and>
     (\<forall>r x. rg r = Some (4, 0) \<and> prefix 0 x \<noteq> prefix 0 va \<longrightarrow> translate s' r x = translate s r x \<and>
        (\<forall>e. translate s r x = Some (Some e) \<longrightarrow> get_entry e s' = get_entry e s))"

lemma inserts_maps:
  assumes ok: "tables_ok rg s" and t: "rg pml4 = Some (4, 0)" and i: "inserts oom 4 rg s pml4 va info res"
    and page: "in_use (vmem s) (ins_page info)" "order_of (vmem s) (ins_page info) = 0" "rg (ins_page info) = None"
    and fl: "PAGE_ADDR (ins_flags info) = 0"
  obtains rg' s' where "res = Some (0, (info, s'))" and "tables_ok rg' s'" and "rg' pml4 = Some (4, 0)"
    and "maps_page rg pml4 (ins_page info) va (ins_flags info) s s'" and "flushed s' = flushed s"
proof -
  let ?p = "ins_page info" and ?f = "ins_flags info"
  from i obtain rg' s1 t1 s' where r: "res = Some (0, (info, s'))" and g: "grown rg s rg' s1"
    and t1: "rg' t1 = Some (1, prefix 1 va)" "mmu 1 s1 t1 va = Some None"
    and s': "s' = mapped_leaf ?p ?f (Entry t1 (idx 1 va)) s1"
    and m: "\<And>x. prefix 1 x = prefix 1 va \<Longrightarrow> mmu 4 s1 pml4 x = mmu 1 s1 t1 x \<and> mmu 4 s' pml4 x = mmu 1 s' t1 x"
    unfolding inserts_def by blast
  note gd = grownD [OF g ok]
  have use: "in_use (vmem s1) ?p" "rg' ?p = None" "pages (vmem s1) ?p = pages (vmem s) ?p"
    using gd(3-5) page by simp_all
  note mf = mapped_leaf_fields [OF use(1), of ?f "Entry t1 (idx 1 va)", folded s']
  note mo = mapped_leaf_ok [OF gd(1) t1(1) refl use(1,2), where flags = ?f, folded s']
  let ?e = "Entry t1 (idx 1 va)" and ?v = "page2pa ?p OR (?f OR PAGE_PRESENT)"
  have e: "get_entry ?e s' = ?v" by (simp add: get_entry_def mf(1))
  have pv: "present ?v" by (simp add: present_bit bit_or_iff PAGE_PRESENT_def)
  have p36: "?p < npages (vmem s')" "?p < 2 ^ 36"
    using in_useD(4) [OF use(1)] tables_okD(1) [OF gd(1)] by (simp_all add: mf(1))
  have "PAGE_ADDR (?f OR PAGE_PRESENT) = 0"
    using fl by (simp add: PAGE_ADDR_def PAGE_MASK_def PAGE_PRESENT_def bit.conj_disj_distrib2)
  then have tg: "target ?v = ?p" by (rule target_page2pa [OF p36(2)])
  have old: "\<not> present (get_entry ?e s1)" using t1(2) by (auto simp: Let_def is_leaf_def split: if_splits)
  have "translate s' pml4 va = Some (Some ?e)"
    using m [of va] e pv by (simp add: translate_trans Let_def is_leaf_def)
  moreover have "pa2page (PAGE_ADDR ?v) s' = Some ?p" using tg p36(1) by (simp add: pa2page_def target_def)
  moreover have "pages (vmem s') ?p = (pages (vmem s) ?p)\<lparr>pp_ref := pp_ref (pages (vmem s) ?p) + 1\<rparr>"
    using use(3) by (simp add: mf(1) set_ref_def upd_page_def)
  moreover have "translate s' w x = translate s w x \<and> (\<forall>e. translate s w x = Some (Some e) \<longrightarrow> get_entry e s' = get_entry e s)"
    if w: "rg w = Some (4, 0)" "prefix 0 x \<noteq> prefix 0 va" for w x
  proof (intro conjI allI impI)
    have w4: "rg w = Some (4, prefix 4 x)" using w by simp
    show "translate s' w x = translate s w x"
      using mo(2) [OF gd(2) [OF w4] w(2)] gd(8) [OF w4] by (simp add: translate_trans)
    fix e
    assume "translate s w x = Some (Some e)"
    note me = mmu_entry [OF ok w4 this [unfolded translate_trans]]
    obtain f k where ef: "e = Entry f k" by (cases e)
    have k: "get_entry e s1 = get_entry e s" using gd(7) [of f] me by (auto simp: ef)
    then have "e \<noteq> ?e" using old me by auto
    then show "get_entry e s' = get_entry e s" using k by (auto simp: ef get_entry_def mf(1))
  qed
  ultimately have "maps_page rg pml4 ?p va ?f s s'" unfolding maps_page_def using e by auto
  then show thesis using that r mo(1) gd(2) [OF t] mf(3) gd(10) by metis
qed

lemma page_insert_unmapped:
  assumes ok: "tables_ok rg s" and t: "rg pml4 = Some (4, 0)"
    and va: "page_aligned va" "va < USER_LIM \<or> KERNEL_VMA \<le> va"
    and hole: "translate s pml4 va = Some None" and sp: "sparse 4 s pml4 va"
    and page: "in_use (vmem s) page" "order_of (vmem s) page = 0" "rg page = None"
    and fl: "\<not> huge flags" "PAGE_ADDR flags = 0" and free: "3 \<le> card (free_frames (vmem s))"
  obtains rg' s' where "page_insert oom pml4 page va flags s = Some (0, s')" and "tables_ok rg' s'"
    and "rg' pml4 = Some (4, 0)" and "maps_page rg pml4 page va flags s s'" and "flushed s' = flushed s"
proof -
  let ?i = "\<lparr>ins_pml4 = pml4, ins_page = page, ins_flags = flags OR PAGE_PRESENT\<rparr>"
  have at: "page_at va (va OR (PAGE_SIZE - 1))" using va by (simp add: page_at_def)
  have nh: "\<not> huge (flags OR PAGE_PRESENT)" and pa: "PAGE_ADDR (flags OR PAGE_PRESENT) = 0"
    using fl by (simp_all add: huge_bit bit_or_iff PAGE_PRESENT_def PAGE_ADDR_def PAGE_MASK_def bit.conj_disj_distrib2)
  have free': "Suc (Suc 0) < card (free_frames (vmem s))" using free by simp
  have t4: "rg pml4 = Some (4, prefix 4 va)" using t by simp
  have "inserts oom 4 rg s pml4 va ?i (pml4_step (insert_walker oom) pml4 (va OR (PAGE_SIZE - 1)) va (?i, s))"
    by (rule insert_at_pml4 [OF ok t4 hole [unfolded translate_trans] _ _ _ free' at sp]) (use page nh in simp_all)
  then obtain rg' s' where r: "pml4_step (insert_walker oom) pml4 (va OR (PAGE_SIZE - 1)) va (?i, s) = Some (0, (?i, s'))"
    "tables_ok rg' s'" "rg' pml4 = Some (4, 0)" "maps_page rg pml4 page va (flags OR PAGE_PRESENT) s s'" "flushed s' = flushed s"
    using inserts_maps [OF ok t] page pa by (metis insert_info.select_convs(2,3))
  have "page_insert oom pml4 page va flags s = Some (0, s')"
    using va(1) fl(1) page(2) walk_one_page(1) [OF at, of pml4 "insert_walker oom"] r(1)
    by (simp add: page_insert_def BUDDY_2M_PAGE_def)
  moreover have "maps_page rg pml4 page va flags s s'" using r(4) by (simp add: maps_page_def or.assoc)
  ultimately show thesis using that r by blast
qed

text \<open>
  C14: \<^verbatim>\<open>page_insert\<close> maps a 4 KiB page at an unmapped, page-aligned, canonical address.  When the
  page tables are well formed, three free pages are left for new tables and the 2 MiB region
  does not become full, it returns 0, keeps the page tables well formed, the address now
  translates to an entry with the page and the given flags, the reference count of the page
  is one more, and every address of another page translates as before.
\<close>

theorem page_insert_maps:
  assumes "tables_ok rg s" and "rg pml4 = Some (4, 0)"
    and "page_aligned va" and "va < USER_LIM \<or> KERNEL_VMA \<le> va"
    and "translate s pml4 va = Some None" and "sparse 4 s pml4 va"
    and "in_use (vmem s) page" and "order_of (vmem s) page = 0" and "rg page = None"
    and "\<not> huge flags" and "PAGE_ADDR flags = 0" and "3 \<le> card (free_frames (vmem s))"
  shows "\<exists>rg' s'. page_insert oom pml4 page va flags s = Some (0, s') \<and> tables_ok rg' s' \<and>
    rg' pml4 = Some (4, 0) \<and> maps_page rg pml4 page va flags s s'"
  using page_insert_unmapped [OF assms] by metis

text \<open>A memory whose upper half is one free block and whose lower half is in use.\<close>

definition half_links :: "pnode \<Rightarrow> pnode" where
  "half_links n = (case n of FreeList k \<Rightarrow> if k = 8 then PPNode 256 else n
     | PPNode i \<Rightarrow> if i = 256 then FreeList 8 else n | _ \<Rightarrow> n)"

definition half_mem :: mem where
  "half_mem = one_block\<lparr>
     pages := (\<lambda>i. \<lparr>pp_ref = (if i < 256 then 1 else 0), pp_order = (if i = 256 then 8 else 0), pp_free = (i = 256),
                   pp_avail = True, pp_zero = 0, virt_addr = 0, powner = None\<rparr>),
     plinks := \<lparr>lnext = half_links, lprev = half_links\<rparr>, frames := (\<lambda>_ _. 0)\<rparr>"

definition half_vm :: vm where
  "half_vm = \<lparr>vmem = half_mem, cr3 = page2pa 1, flushed = [], cur_task = None, task_rss = \<lambda>_. 0, task_pml4 = \<lambda>_. 1\<rparr>"

lemma half_heads: "free_heads half_mem = {256}" and half_free: "free_frames half_mem = {256..<512}"
  by (auto simp: free_heads_def free_frames_def half_mem_def one_block_def chunk_def)

lemma half_ok: "allocator_ok half_mem"
proof -
  have "wf_blocks half_mem {256}" by (auto simp: wf_blocks_def block_ok_def half_mem_def one_block_def chunk_def)
  moreover have "list_of_order half_mem {256} k (if k = 8 then [256] else [])" for k
    by (auto simp: list_of_order_def half_mem_def dlist_def half_links_def)
  moreover have "tracked half_mem []"
    by (simp add: tracked_def half_mem_def dlist_def half_links_def)
  ultimately show ?thesis
    by (auto simp: allocator_ok_def buddy_inv_def half_heads on_lists_def locks_idle_def idle_lock_def)
      (simp_all add: half_mem_def one_block_def)
qed

lemma half_in_use: "i < 256 \<Longrightarrow> in_use half_mem i"
  by (auto simp: in_use_def owned_def block_ok_def set_ref_def upd_page_def free_frames_def free_heads_def
      half_mem_def one_block_def chunk_def split: if_splits)

lemma half_tables: "tables_ok [1 \<mapsto> (4, 0)] half_vm"
  using half_ok half_in_use [of 1]
  by (simp add: tables_ok_def half_vm_def not_present_0) (simp add: half_mem_def one_block_def not_present_0)

lemma half_hole: "translate half_vm 1 x = Some None"
  by (simp add: translate_def Let_def get_entry_def half_vm_def half_mem_def not_present_0)

lemma half_sparse: "sparse 4 half_vm 1 0x1000"
  unfolding sparse_def translate_trans(4) [symmetric] half_hole
  by (intro exI [of _ "0x2000"]) (simp add: prefix_def idx_def)

lemma half_order: "order_of (vmem half_vm) 2 = 0" "card (free_frames (vmem half_vm)) = 256"
  by (simp_all add: half_vm_def half_free) (simp add: half_mem_def)

lemma flags_7: "\<not> huge 7" "PAGE_ADDR 7 = 0"
  by (simp_all add: huge_def PAGE_HUGE_def PAGE_ADDR_def PAGE_MASK_def)

lemma addr_1000: "page_aligned 0x1000" "(0x1000 :: u64) < USER_LIM \<or> KERNEL_VMA \<le> 0x1000"
  by (simp_all add: page_aligned_def PAGE_SIZE_def USER_LIM_def)

theorem page_insert_maps_witness:
  "\<exists>rg' s'. page_insert (\<lambda>_. None) 1 2 0x1000 7 half_vm = Some (0, s') \<and> tables_ok rg' s' \<and>
    rg' 1 = Some (4, 0) \<and> maps_page [1 \<mapsto> (4, 0)] 1 2 0x1000 7 half_vm s'"
  by (rule page_insert_maps [OF half_tables _ addr_1000 half_hole half_sparse _ half_order(1) _ flags_7])
    (use half_order(2) half_in_use [of 2] in \<open>simp_all add: half_vm_def\<close>)

text \<open>
  C15: a lookup after such an insertion finds the page: \<^verbatim>\<open>page_lookup\<close> returns it and stores an
  entry with the flags of the insertion.
\<close>

theorem insert_lookup:
  assumes "tables_ok rg s" and "rg pml4 = Some (4, 0)"
    and "page_aligned va" and "va < USER_LIM \<or> KERNEL_VMA \<le> va"
    and "translate s pml4 va = Some None" and "sparse 4 s pml4 va"
    and "in_use (vmem s) page" and "order_of (vmem s) page = 0" and "rg page = None"
    and "\<not> huge flags" and "PAGE_ADDR flags = 0" and "3 \<le> card (free_frames (vmem s))"
  shows "\<exists>s' e. page_insert oom pml4 page va flags s = Some (0, s') \<and>
    page_lookup pml4 va s' = Some (Some page, Some e, s') \<and>
    get_entry e s' = page2pa page OR (flags OR PAGE_PRESENT)"
proof -
  obtain rg' s' where i: "page_insert oom pml4 page va flags s = Some (0, s')"
    "maps_page rg pml4 page va flags s s'" using page_insert_unmapped [OF assms] by metis
  then obtain e where "translate s' pml4 va = Some (Some e)" "get_entry e s' = page2pa page OR (flags OR PAGE_PRESENT)"
    "pa2page (PAGE_ADDR (get_entry e s')) s' = Some page" unfolding maps_page_def by blast
  moreover have "page_at va (va OR (PAGE_SIZE - 1))" using assms(3,4) by (simp add: page_at_def)
  ultimately show ?thesis using i(1) page_lookup_page by force
qed

theorem insert_lookup_witness:
  "\<exists>s' e. page_insert (\<lambda>_. None) 1 2 0x1000 7 half_vm = Some (0, s') \<and>
    page_lookup 1 0x1000 s' = Some (Some 2, Some e, s') \<and> get_entry e s' = page2pa 2 OR (7 OR PAGE_PRESENT)"
  by (rule insert_lookup [OF half_tables _ addr_1000 half_hole half_sparse _ half_order(1) _ flags_7])
    (use half_order(2) half_in_use [of 2] in \<open>simp_all add: half_vm_def\<close>)

end
