(* ===== verification/Walk_Inv.thy ===== *)
theory Walk_Inv
  imports Page_Table_Inv
begin

text \<open>
  Properties that every callback of a walker keeps are kept by the whole walk.  Applied to
  \<^verbatim>\<open>page_insert\<close>: its callbacks pass the physical address in \<^verbatim>\<open>cr3\<close> to \<^verbatim>\<open>tlb_invalidate\<close>, which compares
  it with a kernel virtual address, so that no insertion ever invalidates a TLB entry.
\<close>

section \<open>Invariants of a walk\<close>

definition keeps :: "('s \<Rightarrow> bool) \<Rightarrow> ('s \<Rightarrow> (int \<times> 's) option) \<Rightarrow> bool" where
  "keeps I f \<longleftrightarrow> (\<forall>us r us'. I us \<longrightarrow> f us = Some (r, us') \<longrightarrow> I us')"

lemma keepsI: "(\<And>us r us'. I us \<Longrightarrow> f us = Some (r, us') \<Longrightarrow> I us') \<Longrightarrow> keeps I f"
  unfolding keeps_def by blast

lemma keepsD: "keeps I f \<Longrightarrow> f us = Some (r, us') \<Longrightarrow> I us \<Longrightarrow> I us'"
  unfolding keeps_def by blast

lemma keeps_return [intro]: "keeps I (\<lambda>us. Some (r, us))"
  unfolding keeps_def by blast

lemma keeps_and_then [intro]:
  assumes "keeps I f" and "keeps I k"
  shows "keeps I (\<lambda>us. and_then (f us) k)"
proof (rule keepsI)
  fix us r us'
  assume us: "I us" and r: "and_then (f us) k = Some (r, us')"
  then obtain q vs where f: "f us = Some (q, vs)" by (cases "f us") (auto simp: and_then_def)
  then have vs: "I vs" using keepsD [OF assms(1)] us by blast
  show "I us'"
  proof (cases "q < 0")
    case True
    then show ?thesis using r f vs by simp
  next
    case False
    then have "k vs = Some (r, us')" using r f by simp
    then show ?thesis using keepsD [OF assms(2)] vs by blast
  qed
qed

definition keeps_cb :: "('u \<times> vm \<Rightarrow> bool) \<Rightarrow> 'u entry_cb option \<Rightarrow> bool" where
  "keeps_cb I cb \<longleftrightarrow> (\<forall>e base en. keeps I (call_entry cb e base en))"

definition walker_keeps :: "('u \<times> vm \<Rightarrow> bool) \<Rightarrow> 'u page_walker \<Rightarrow> bool" where
  "walker_keeps I w \<longleftrightarrow> keeps_cb I (pte_callback w) \<and> keeps_cb I (pde_callback w) \<and> keeps_cb I (pdpte_callback w) \<and>
     keeps_cb I (pml4e_callback w) \<and> keeps_cb I (pde_unmap w) \<and> keeps_cb I (pdpte_unmap w) \<and>
     keeps_cb I (pml4e_unmap w) \<and> (\<forall>base en. keeps I (call_hole (pt_hole_callback w) base en))"

lemma keeps_cb_None [simp]: "keeps_cb I None"
  unfolding keeps_cb_def call_entry_None using keeps_return by blast

lemma walker_keepsD:
  assumes "walker_keeps I w"
  shows "keeps I (call_entry (pte_callback w) e base en)" "keeps I (call_entry (pde_callback w) e base en)"
    "keeps I (call_entry (pdpte_callback w) e base en)" "keeps I (call_entry (pml4e_callback w) e base en)"
    "keeps I (call_entry (pde_unmap w) e base en)" "keeps I (call_entry (pdpte_unmap w) e base en)"
    "keeps I (call_entry (pml4e_unmap w) e base en)" "keeps I (call_hole (pt_hole_callback w) base en)"
  using assms by (simp_all add: walker_keeps_def keeps_cb_def)

lemma walk_loop_keeps:
  assumes "\<And>c. keeps I (body c)"
  shows "keeps I (walk_loop span body base en)"
proof (rule keepsI)
  fix us r us'
  assume "I us" "walk_loop span body base en us = Some (r, us')"
  then show "I us'"
    using assms
  proof (induction span body base en us rule: walk_loop.induct)
    case (1 span body base en us)
    let ?b = "sign_extend base"
    let ?n = "(?b OR (span - 1)) + 1"
    show ?case
    proof (cases "base \<le> en")
      case True
      with "1.prems"(2) have eq: "and_then (body ?b us) (\<lambda>s. if ?n = 0 then Some (0, s) else walk_loop span body ?n en s) = Some (r, us')"
        by (subst (asm) walk_loop.simps) (simp add: Let_def)
      then obtain q vs where f: "body ?b us = Some (q, vs)" by (cases "body ?b us") (auto simp: and_then_def)
      then have vs: "I vs" using "1.prems"(1,3) by (meson keepsD)
      show ?thesis
      proof (cases "q < 0 \<or> ?n = 0")
        case True
        then show ?thesis using eq f vs by (auto simp: and_then_def split: if_splits)
      next
        case False
        then have "walk_loop span body ?n en vs = Some (r, us')" using eq f by (auto simp: and_then_def)
        then show ?thesis using "1.IH" [OF True refl refl _ vs] False "1.prems"(3) by blast
      qed
    next
      case False
      then show ?thesis using "1.prems"(1,2) by (subst (asm) walk_loop.simps) simp
    qed
  qed
qed

lemma keeps_if [intro]:
  assumes "keeps I f" and "keeps I g"
  shows "keeps I (\<lambda>us. if P us then f us else g us)"
proof (rule keepsI)
  fix us r us'
  assume "I us" "(if P us then f us else g us) = Some (r, us')"
  then show "I us'" using keepsD [OF assms(1), of us r us'] keepsD [OF assms(2), of us r us'] by (cases "P us") auto
qed

lemma keeps_bind [intro]:
  assumes "\<And>x. keeps I (f x)"
  shows "keeps I (\<lambda>us. do { x \<leftarrow> m us; f x us })"
proof (rule keepsI)
  fix us r us'
  assume us: "I us" "do { x \<leftarrow> m us; f x us } = Some (r, us')"
  then obtain x where "f x us = Some (r, us')" by (auto simp: bind_eq_Some_conv)
  then show "I us'" using keepsD [OF assms, of x us r us'] us(1) by blast
qed

lemma steps_keep:
  assumes w: "walker_keeps I w"
  shows "keeps I (ptbl_step w t c)" and "keeps I (pdir_step w t en c)" and "keeps I (pdpt_step w t en c)"
    and "keeps I (pml4_step w t en c)"
proof -
  note wd = walker_keepsD [OF w]
  show 1: "keeps I (ptbl_step w t c)" for t c
    unfolding ptbl_step_def Let_def by (intro keeps_and_then keeps_if keeps_return wd)
  have 1: "keeps I (ptbl_walk_range w t a b)" for t a b
    unfolding ptbl_walk_range_def using 1 by (rule walk_loop_keeps)
  show 2: "keeps I (pdir_step w t en c)" for t en c
    unfolding pdir_step_def Let_def by (intro keeps_and_then keeps_if keeps_bind wd 1)
  have 2: "keeps I (pdir_walk_range w t a b)" for t a b
    unfolding pdir_walk_range_def using 2 by (rule walk_loop_keeps)
  show 3: "keeps I (pdpt_step w t en c)" for t en c
    unfolding pdpt_step_def Let_def by (intro keeps_and_then keeps_if keeps_bind wd 2)
  have 3: "keeps I (pdpt_walk_range w t a b)" for t a b
    unfolding pdpt_walk_range_def using 3 by (rule walk_loop_keeps)
  show "keeps I (pml4_step w t en c)"
    unfolding pml4_step_def Let_def by (intro keeps_and_then keeps_if keeps_bind wd 3)
qed

lemma walk_keeps:
  assumes "walker_keeps I w"
  shows "keeps I (walk_page_range pml4 a b w)"
  unfolding walk_page_range_def pml4_walk_range_def
  by (rule walk_loop_keeps) (rule steps_keep(4) [OF assms])

section \<open>Insertions and the TLB\<close>

lemma tlb_invalidate_cr3: "tlb_invalidate (cr3 s) va s' = Some s'' \<Longrightarrow> cr3 s' = cr3 s \<Longrightarrow> s'' = s'"
proof -
  have "x + KERNEL_VMA \<noteq> x" for x :: u64 by (simp add: KERNEL_VMA_def)
  then show "tlb_invalidate (cr3 s) va s' = Some s'' \<Longrightarrow> cr3 s' = cr3 s \<Longrightarrow> s'' = s'"
    by (auto simp: tlb_invalidate_def KADDR_def bind_eq_Some_conv split: if_splits)
qed

named_theorems quiet \<open>operations that do not flush a TLB entry\<close>

lemma vm_ops_quiet [quiet]:
  "vm_page_alloc fl s = Some (q, s') \<Longrightarrow> flushed s' = flushed s"
  "vm_page_decref p s = Some s' \<Longrightarrow> flushed s' = flushed s"
  "flushed (vm_upd_page p f s) = flushed s" "flushed (incref p s) = flushed s" "flushed (rss_add n s) = flushed s"
  "flushed (set_entry e v s) = flushed s"
  "copy_pages d i r j m s = Some s' \<Longrightarrow> flushed s' = flushed s"
  by (auto simp: vm_page_alloc_def vm_page_decref_def vm_upd_page_def incref_def rss_add_def set_entry_def
      copy_pages_def bind_eq_Some_conv split: option.splits)

lemma alloc_retry_quiet [quiet]:
  "alloc_retry (\<lambda>_. None) fl s = Some (p, s') \<Longrightarrow> flushed s' = flushed s"
  by (auto simp: alloc_retry_def bind_eq_Some_conv quiet split: option.splits)

lemma merge_copy_quiet [quiet]: "merge_copy t h is s = Some s' \<Longrightarrow> flushed s' = flushed s"
  by (induction "is" arbitrary: s) (auto simp: bind_eq_Some_conv dest!: vm_ops_quiet(7))

lemma merge_flush_quiet [quiet]: "merge_flush base is s = Some s' \<Longrightarrow> flushed s' = flushed s"
  by (induction "is" arbitrary: s) (auto simp: bind_eq_Some_conv dest!: tlb_invalidate_cr3)

lemma merge_release_quiet [quiet]: "merge_release t is s = Some s' \<Longrightarrow> flushed s' = flushed s"
  by (induction "is" arbitrary: s) (auto simp: bind_eq_Some_conv quiet dest!: vm_ops_quiet(2))

abbreviation no_oom :: "vm \<Rightarrow> vm option" where "no_oom \<equiv> (\<lambda>_. None)"

lemma ptbl_alloc_quiet [quiet]:
  "ptbl_alloc no_oom e base en (u, s) = Some (r, (u', s')) \<Longrightarrow> flushed s' = flushed s"
  by (auto simp: ptbl_alloc_def bind_eq_Some_conv Let_def quiet split: if_splits option.splits)

lemma ptbl_merge_quiet [quiet]:
  "ptbl_merge no_oom e base en (u, s) = Some (r, (u', s')) \<Longrightarrow> flushed s' = flushed s"
  by (auto simp: ptbl_merge_def bind_eq_Some_conv Let_def quiet split: if_splits option.splits
      dest!: vm_ops_quiet(2) merge_copy_quiet merge_flush_quiet merge_release_quiet alloc_retry_quiet)

lemma insert_pte_quiet [quiet]:
  "insert_pte e base en (u, s) = Some (r, (u', s')) \<Longrightarrow> flushed s' = flushed s"
  by (auto simp: insert_pte_def bind_eq_Some_conv Let_def quiet split: if_splits
      dest!: tlb_invalidate_cr3 vm_ops_quiet(2))

lemma insert_pde_quiet [quiet]:
  "insert_pde no_oom e base en (u, s) = Some (r, (u', s')) \<Longrightarrow> flushed s' = flushed s"
  by (auto simp: insert_pde_def bind_eq_Some_conv Let_def quiet split: if_splits
      dest!: tlb_invalidate_cr3 vm_ops_quiet(2) ptbl_alloc_quiet)

lemma page_insert_quiet:
  assumes "page_insert no_oom pml4 page va flags s = Some (r, s')"
  shows "flushed s' = flushed s"
proof -
  let ?I = "\<lambda>us :: insert_info \<times> vm. flushed (snd us) = flushed s"
  let ?w = "no_walker\<lparr>pte_callback := Some insert_pte, pde_callback := Some (insert_pde no_oom),
     pdpte_callback := Some (ptbl_alloc no_oom), pml4e_callback := Some (ptbl_alloc no_oom),
     pde_unmap := Some (ptbl_merge no_oom)\<rparr>"
  have "walker_keeps ?I ?w"
    by (simp add: walker_keeps_def)
      (auto simp: keeps_cb_def keeps_def dest!: insert_pte_quiet insert_pde_quiet ptbl_alloc_quiet ptbl_merge_quiet)
  then have "keeps ?I (walk_page_range pml4 a b ?w)" for a b by (rule walk_keeps)
  note k = keepsD [OF this]
  show ?thesis using assms
    by (auto simp: page_insert_def bind_eq_Some_conv Let_def split: if_splits dest!: k)
qed

text \<open>
  C16: \<^verbatim>\<open>page_insert\<close> never invalidates a TLB entry, also when it replaces a mapping of the address
  space in use: every run without an out-of-memory kill leaves the list of flushed addresses
  as it was.  The comment of the function requires the invalidation when a page was present.
\<close>

theorem page_insert_never_flushes:
  assumes "page_insert no_oom pml4 page va flags s = Some (r, s')"
  shows "flushed s' = flushed s"
  using assms by (rule page_insert_quiet)

text \<open>The example address space with two references to every page, loaded in \<^verbatim>\<open>cr3\<close>.\<close>

definition live_vm :: vm where
  "live_vm = demo_vm\<lparr>vmem := (vmem demo_vm)\<lparr>pages := (\<lambda>_. \<lparr>pp_ref = 2, pp_order = 0, pp_free = False, pp_avail = True,
     pp_zero = 0, virt_addr = 0, powner = None\<rparr>)\<rparr>\<rparr>"

lemma live_entry: "get_entry (Entry f i) live_vm = demo_frames f i"
  by (simp add: live_vm_def demo_vm_def get_entry_def)

lemma page_decref_shared:
  assumes "pp_ref (pages m p) > 1"
  shows "page_decref p m = Some (upd_page p (\<lambda>g. g\<lparr>pp_ref := pp_ref g - 1\<rparr>) m)"
proof -
  have "pp_ref (pages m p) - 1 \<noteq> 0" using assms by (metis eq_iff_diff_eq_0 less_irrefl)
  then show ?thesis using assms by (auto simp: page_decref_def upd_page_def word_gt_0)
qed

lemma insert_pte_replace:
  assumes "present (get_entry e s)" and "pa2page (PAGE_ADDR (get_entry e s)) s = Some old" and "old \<noteq> ins_page info"
    and "pp_ref (pages (vmem s) old) > 1" and "order_of (vmem s) (ins_page info) = 0" and "KADDR (cr3 s) s \<noteq> None"
  shows "\<exists>s'. insert_pte e base en (info, s) = Some (0, (info, s')) \<and> npages (vmem s') = npages (vmem s) \<and>
    frames (vmem s') = (frames (vmem s))(etable e := (frames (vmem s) (etable e))
       (eindex e := page2pa (ins_page info) OR (ins_flags info OR PAGE_PRESENT)))"
proof -
  define s1 where "s1 = incref (ins_page info) s"
  have s1: "vmem s1 = upd_page (ins_page info) (\<lambda>i. i\<lparr>pp_ref := pp_ref i + 1\<rparr>) (vmem s)" "cr3 s1 = cr3 s"
    by (simp_all add: s1_def incref_def vm_upd_page_def)
  then have g1: "get_entry e s1 = get_entry e s" "pa2page a s1 = pa2page a s" "KADDR a s1 = KADDR a s" for a
    by (simp_all add: get_entry_def upd_page_def pa2page_def KADDR_def)
  have "pp_ref (pages (vmem s1) old) > 1" using assms(3,4) by (simp add: s1 upd_page_def)
  then obtain s2 where s2: "vm_page_decref old s1 = Some s2" "npages (vmem s2) = npages (vmem s)"
      "frames (vmem s2) = frames (vmem s)" "cr3 s2 = cr3 s"
    using s1 by (auto simp: vm_page_decref_def page_decref_shared upd_page_def)
  obtain s3 where s3: "tlb_invalidate (cr3 s2) base (set_entry e 0 s2) = Some s3" "vmem s3 = vmem (set_entry e 0 s2)"
    using assms(6) s2(2,4) by (auto simp: tlb_invalidate_def KADDR_def split: if_splits)
  show ?thesis using assms(1,2,5) s2 s3 g1
    by (simp add: insert_pte_def s1_def [symmetric] Let_def vm_upd_page_def upd_page_def)
qed

lemma demo_values:
  "demo_frames (Suc 0) 0 = 0x2007" "demo_frames 2 0 = 0x3007" "demo_frames 3 0 = 0x4007" "demo_frames 4 0 = 0x5007"
  "demo_frames 4 (Suc 0) = 0"
  by (simp_all add: demo_frames_def page2pa_def PAGE_TABLE_SHIFT_def)

lemma live_insert:
  "\<exists>s'. page_insert no_oom 1 6 0 7 live_vm = Some (0, s') \<and> get_entry (Entry 4 0) live_vm = page2pa 5 OR 7 \<and>
    get_entry (Entry 4 0) s' = page2pa 6 OR 7"
proof -
  let ?i = "\<lparr>ins_pml4 = 1, ins_page = 6, ins_flags = 7 OR PAGE_PRESENT\<rparr>" and ?w = "insert_walker no_oom"
  have at: "page_at 0 4095" by (simp add: page_at_def page_aligned_def PAGE_SIZE_def USER_LIM_def)
  have n: "npages (vmem live_vm) = 16" by (simp add: live_vm_def demo_vm_def)
  have e: "get_entry (Entry 1 0) live_vm = 0x2007" "get_entry (Entry 2 0) live_vm = 0x3007"
    "get_entry (Entry 3 0) live_vm = 0x4007" "get_entry (Entry 4 0) live_vm = 0x5007" "get_entry (Entry 4 (Suc 0)) live_vm = 0"
    by (simp_all add: live_entry demo_values)
  have kd: "KADDR_table (PAGE_ADDR 0x2007) s = Some 2" "KADDR_table (PAGE_ADDR 0x3007) s = Some 3"
    "KADDR_table (PAGE_ADDR 0x4007) s = Some 4" if "npages (vmem s) = 16" for s
    using that by (simp_all add: KADDR_table_def PAGE_INDEX_def PAGE_ADDR_def PAGE_MASK_def PAGE_TABLE_SHIFT_def)
  have pr: "present 0x2007" "present 0x3007" "present 0x4007" "present 0x5007" "\<not> present 0" "\<not> huge 0x4007"
    by (simp_all add: present_def huge_def PAGE_PRESENT_def PAGE_HUGE_def)
  have "\<exists>s'. insert_pte (Entry 4 0) (ptbl_start 0) (ptbl_end 0) (?i, live_vm) = Some (0, (?i, s')) \<and> npages (vmem s') = 16 \<and>
      frames (vmem s') = demo_frames(4 := (demo_frames 4)(0 := page2pa 6 OR 7))"
    using insert_pte_replace [of "Entry 4 0" live_vm 5 ?i] e(4) pr(4)
    by (simp add: pa2page_def PAGE_INDEX_def PAGE_ADDR_def PAGE_MASK_def PAGE_TABLE_SHIFT_def live_vm_def demo_vm_def
        KADDR_def page2pa_def PAGE_PRESENT_def)
  then obtain s' where s': "insert_pte (Entry 4 0) (ptbl_start 0) (ptbl_end 0) (?i, live_vm) = Some (0, (?i, s'))"
      "npages (vmem s') = 16" "frames (vmem s') = demo_frames(4 := (demo_frames 4)(0 := page2pa 6 OR 7))" by blast
  have e': "get_entry (Entry 3 0) s' = 0x4007" "get_entry (Entry 4 0) s' = page2pa 6 OR 7" "get_entry (Entry 4 (Suc 0)) s' = 0"
    using s'(3) demo_values by (simp_all add: get_entry_def)
  have i0: "PAGE_TABLE_INDEX 0 = 0" "PAGE_DIR_INDEX 0 = 0" "PDPT_INDEX 0 = 0" "PML4_INDEX 0 = 0"
    by (simp_all add: index_defs)
  have "ptbl_step ?w 4 0 (?i, live_vm) = Some (0, (?i, s'))"
    using s'(1) e' new_table_entry(1) [of 6] by (simp add: ptbl_step_def i0 Let_def)
  moreover have "ptbl_merge no_oom (Entry 3 0) (pdir_start 0) (pdir_end 0) (?i, s') = Some (0, (?i, s'))"
    using e' pr kd [OF s'(2)] by (intro ptbl_merge_sparse [of _ _ 4 1]) simp_all
  moreover have "insert_pde no_oom (Entry 3 0) (pdir_start 0) (pdir_end 0) (?i, live_vm) = Some (0, (?i, live_vm))"
    using e pr by (subst insert_pde_small) (simp_all add: ptbl_alloc_def huge_def PAGE_HUGE_def PAGE_PRESENT_def)
  ultimately have "pdir_step ?w 3 4095 0 (?i, live_vm) = Some (0, (?i, s'))"
    using e pr kd [OF n] by (simp add: pdir_step_def i0 Let_def walk_one_page [OF at])
  then have "pdpt_step ?w 2 4095 0 (?i, live_vm) = Some (0, (?i, s'))"
    using e pr kd [OF n] by (simp add: pdpt_step_def i0 Let_def walk_one_page [OF at] ptbl_alloc_def)
  then have "pml4_step ?w 1 4095 0 (?i, live_vm) = Some (0, (?i, s'))"
    using e pr kd [OF n] by (simp add: pml4_step_def i0 Let_def walk_one_page [OF at] ptbl_alloc_def)
  then have "page_insert no_oom 1 6 0 7 live_vm = Some (0, s')"
    using walk_one_page(1) [OF at, of 1 ?w "(?i, live_vm)"]
    by (simp add: page_insert_def page_aligned_def huge_def PAGE_HUGE_def live_vm_def BUDDY_2M_PAGE_def)
  then show ?thesis using e e' by (simp add: page2pa_def PAGE_TABLE_SHIFT_def)
qed

theorem page_insert_never_flushes_witness:
  "\<exists>s'. page_insert no_oom 1 6 0 7 live_vm = Some (0, s') \<and> get_entry (Entry 4 0) live_vm = page2pa 5 OR 7 \<and>
    get_entry (Entry 4 0) s' = page2pa 6 OR 7 \<and> cr3 live_vm = page2pa 1 \<and> flushed s' = flushed live_vm"
proof -
  have "cr3 live_vm = page2pa 1" by (simp add: live_vm_def demo_vm_def)
  then show ?thesis using live_insert page_insert_never_flushes by metis
qed

end
