(* ===== verification/Slab.thy ===== *)
theory Slab
  imports Page_Ref
begin

text \<open>
  The kernel heap: the slab allocators of \<^verbatim>\<open>kernel/mem/slab.c\<close> and the front end \<^verbatim>\<open>kmalloc\<close>,
  \<^verbatim>\<open>kfree\<close> of \<^verbatim>\<open>kernel/mem/kmem.c\<close>.  A \<^verbatim>\<open>struct slab *\<close> is the number of its CPU and its index in
  that CPU's array; a \<^verbatim>\<open>struct slab_info *\<close> is the page it lies in; a \<^verbatim>\<open>struct slab_obj *\<close> is its
  page and its index in the page, and also stands for the data pointer \<^verbatim>\<open>obj + 1\<close> handed to the
  caller.  What a slab page holds (headers, footer, object data) is kept in separate fields of
  the state; that these do not overlap in the page is proved from the offsets \<^verbatim>\<open>slab_setup\<close>
  computes.
\<close>

section \<open>State\<close>

definition SLAB_ALIGN :: u64 where "SLAB_ALIGN = 32"

datatype slab_id = SlabId nat nat

record slab =
  info_off :: u64
  obj_size :: u64
  slab_count :: u64

record slab_info =
  info_slab :: slab_id
  free_count :: u64

datatype snode =
    Partial slab_id
  | Full slab_id
  | InfoNode nat        \<comment> \<open>\<^verbatim>\<open>&info->node\<close>\<close>
  | InfoFree nat        \<comment> \<open>\<^verbatim>\<open>&info->free_list\<close>\<close>
  | ObjNode nat nat     \<comment> \<open>\<^verbatim>\<open>&obj->node\<close>\<close>

record kmem =
  phys :: mem
  slabs :: "slab_id \<Rightarrow> slab"
  nslabs :: "nat \<Rightarrow> u64"
  slinks :: "snode lheap"
  infos :: "nat \<Rightarrow> slab_info"
  obj_info :: "nat \<Rightarrow> nat \<Rightarrow> nat"
  obj_data :: "nat \<Rightarrow> nat \<Rightarrow> nat \<Rightarrow> u8"

text \<open>\<^verbatim>\<open>sizeof\<close> of the two structures: three pointers; five pointers and a \<^verbatim>\<open>size_t\<close>.\<close>

definition SIZEOF_SLAB_OBJ :: u64 where "SIZEOF_SLAB_OBJ = 24"
definition SIZEOF_SLAB_INFO :: u64 where "SIZEOF_SLAB_INFO = 48"

definition upd_slinks :: "(snode lheap \<Rightarrow> snode lheap) \<Rightarrow> kmem \<Rightarrow> kmem" where
  "upd_slinks f k = k\<lparr>slinks := f (slinks k)\<rparr>"

section \<open>Slabs\<close>

definition init_obj :: "nat \<Rightarrow> nat \<Rightarrow> kmem \<Rightarrow> kmem" where
  "init_obj page i k =
     upd_slinks (list_add (InfoFree page) (ObjNode page i))
       (k\<lparr>obj_info := (obj_info k)(page := (obj_info k page)(i := page))\<rparr>)"

definition slab_alloc_chunk :: "slab_id \<Rightarrow> kmem \<Rightarrow> (int \<times> kmem) option" where
  "slab_alloc_chunk slab k =
     do { (page, m) \<leftarrow> page_alloc ALLOC_ZERO (phys k);
          let k = k\<lparr>phys := m\<rparr>;
          case page of
            None \<Rightarrow> Some (-1, k)
          | Some page \<Rightarrow>
              let k = k\<lparr>phys := upd_page page (\<lambda>p. p\<lparr>pp_ref := pp_ref p + 1\<rparr>) (phys k)\<rparr>
              in if page \<ge> npages (phys k) then None
                 else let count = slab_count (slabs k slab);
                          k = k\<lparr>infos := (infos k)(page := \<lparr>info_slab = slab, free_count = count\<rparr>),
                                obj_data := (obj_data k)(page := \<lambda>_ _. 0)\<rparr>;
                          k = upd_slinks (list_init (InfoNode page)) k;
                          k = upd_slinks (list_init (InfoFree page)) k;
                          k = fold (init_obj page) [0..<unat count] k
                      in Some (0, upd_slinks (list_add (Partial slab) (InfoNode page)) k) }"

definition slab_free_chunk :: "slab_id \<Rightarrow> nat \<Rightarrow> kmem \<Rightarrow> kmem option" where
  "slab_free_chunk slab info k =
     (if info \<ge> npages (phys k) then None
      else let k = upd_slinks (list_del (InfoNode info)) k
           in do { m \<leftarrow> page_decref info (phys k); Some (k\<lparr>phys := m\<rparr>) })"

definition slab_setup :: "slab_id \<Rightarrow> u64 \<Rightarrow> kmem \<Rightarrow> kmem" where
  "slab_setup slab osize k =
     (let osize = osize + SIZEOF_SLAB_OBJ;
          osize = ROUNDUP osize SLAB_ALIGN;
          count = (PAGE_SIZE - SIZEOF_SLAB_INFO) div osize;
          k = k\<lparr>slabs := (slabs k)(slab := \<lparr>info_off = osize * count, obj_size = osize, slab_count = count\<rparr>)\<rparr>
      in upd_slinks (list_init (Partial slab)) (upd_slinks (list_init (Full slab)) k))"

definition slab_take :: "slab_id \<Rightarrow> kmem \<Rightarrow> ((nat \<times> nat) option \<times> kmem) option" where
  "slab_take slab k =
     (case lnext (slinks k) (Partial slab) of
        InfoNode info \<Rightarrow>
          (case lnext (slinks k) (InfoFree info) of
             ObjNode page i \<Rightarrow>
               let k = upd_slinks (list_del (ObjNode page i)) k;
                   k = k\<lparr>infos := (infos k)(info := (infos k info)\<lparr>free_count := free_count (infos k info) - 1\<rparr>)\<rparr>;
                   k = (if list_is_empty (slinks k) (InfoFree info)
                        then upd_slinks (list_add (Full slab) (InfoNode info))
                               (upd_slinks (list_del (InfoNode info)) k)
                        else k)
               in Some (Some (page, i), k)
           | _ \<Rightarrow> None)
      | _ \<Rightarrow> None)"

definition slab_alloc :: "slab_id \<Rightarrow> kmem \<Rightarrow> ((nat \<times> nat) option \<times> kmem) option" where
  "slab_alloc slab k =
     (if list_is_empty (slinks k) (Partial slab)
      then do { (r, k) \<leftarrow> slab_alloc_chunk slab k;
                if r < 0 then Some (None, k) else slab_take slab k }
      else slab_take slab k)"

definition slab_free :: "nat \<times> nat \<Rightarrow> kmem \<Rightarrow> kmem option" where
  "slab_free p k =
     (let (page, i) = p;
          info = obj_info k page i;
          slab = info_slab (infos k info);
          n = unat (obj_size (slabs k slab) - SIZEOF_SLAB_OBJ);
          k = k\<lparr>obj_data := (obj_data k)(page := (obj_data k page)
                 (i := (\<lambda>b. if b < n then 0 else obj_data k page i b)))\<rparr>;
          k = (if list_is_empty (slinks k) (InfoFree info)
               then upd_slinks (list_add (Partial slab) (InfoNode info))
                      (upd_slinks (list_del (InfoNode info)) k)
               else k);
          k = upd_slinks (list_add (InfoFree info) (ObjNode page i)) k;
          k = k\<lparr>infos := (infos k)(info := (infos k info)\<lparr>free_count := free_count (infos k info) + 1\<rparr>)\<rparr>
      in if free_count (infos k info) \<ge> slab_count (slabs k slab)
         then slab_free_chunk slab info k else Some k)"

section \<open>kmalloc and kfree\<close>

definition kmem_init :: "nat \<Rightarrow> kmem \<Rightarrow> int \<times> kmem" where
  "kmem_init c k =
     (let k = k\<lparr>nslabs := (nslabs k)(c := 32)\<rparr>
      in (0, fold (\<lambda>i. slab_setup (SlabId c i) (of_nat (i + 1) * SLAB_ALIGN)) [0..<32] k))"

definition kmem_init_mp :: "nat \<Rightarrow> kmem \<Rightarrow> int \<times> kmem" where
  "kmem_init_mp c k = (0, snd (kmem_init c k))"

definition kmalloc :: "u64 \<Rightarrow> kmem \<Rightarrow> ((nat \<times> nat) option \<times> kmem) option" where
  "kmalloc sz k =
     (if sz = 0 then Some (None, k)
      else let sz = ROUNDUP sz SLAB_ALIGN;
               index = sz div SLAB_ALIGN - 1
           in if index \<ge> nslabs k (cpu (phys k)) then Some (None, k)
              else slab_alloc (SlabId (cpu (phys k)) (unat index)) k)"

text \<open>\<^verbatim>\<open>kfree(NULL)\<close> reads a header below address 0: it has no defined result.\<close>

definition kfree :: "(nat \<times> nat) option \<Rightarrow> kmem \<Rightarrow> kmem option" where
  "kfree p k = (case p of None \<Rightarrow> None | Some p \<Rightarrow> slab_free p k)"

section \<open>Layout of a slab page\<close>

text \<open>The sizes \<^verbatim>\<open>slab_setup\<close> computes for the object sizes \<^verbatim>\<open>kmem_init\<close> asks for.\<close>

lemma setup_size:
  fixes i :: nat and s :: slab_id and k :: kmem
  assumes "i < 32"
  defines "sl \<equiv> slabs (slab_setup s (of_nat (i + 1) * SLAB_ALIGN) k) s"
  shows "unat (obj_size sl) = 32 * (i + 2)" and "unat (slab_count sl) = 4048 div (32 * (i + 2))"
    and "unat (info_off sl) = 32 * (i + 2) * (4048 div (32 * (i + 2)))"
proof -
  have "unat (of_nat (i + 1) * SLAB_ALIGN + SIZEOF_SLAB_OBJ) = 32 * (i + 1) + 24"
    using assms(1) by (simp add: SLAB_ALIGN_def SIZEOF_SLAB_OBJ_def unat_word_ariths unat_of_nat)
  then have "unat (ROUNDUP (of_nat (i + 1) * SLAB_ALIGN + SIZEOF_SLAB_OBJ) SLAB_ALIGN) = 32 * (i + 2)"
    using assms(1) by (subst unat_ROUNDUP) (simp_all add: SLAB_ALIGN_def)
  then show o: "unat (obj_size sl) = 32 * (i + 2)"
    by (simp add: sl_def slab_setup_def upd_slinks_def Let_def)
  have os: "obj_size sl = ROUNDUP (of_nat (i + 1) * SLAB_ALIGN + SIZEOF_SLAB_OBJ) SLAB_ALIGN"
    by (simp add: sl_def slab_setup_def upd_slinks_def Let_def)
  have "slab_count sl = (PAGE_SIZE - SIZEOF_SLAB_INFO) div obj_size sl" unfolding os
    by (simp add: sl_def slab_setup_def upd_slinks_def Let_def)
  then show c: "unat (slab_count sl) = 4048 div (32 * (i + 2))"
    using o by (simp add: unat_div PAGE_SIZE_def SIZEOF_SLAB_INFO_def)
  have "info_off sl = obj_size sl * slab_count sl"
    by (simp add: sl_def slab_setup_def upd_slinks_def Let_def)
  moreover have "32 * (i + 2) * (4048 div (32 * (i + 2))) \<le> 4048" by (rule times_div_less_eq_dividend)
  then have "unat (obj_size sl) * unat (slab_count sl) < 2 ^ 64"
    unfolding o c by (rule le_less_trans) simp
  then have "unat (obj_size sl * slab_count sl) = unat (obj_size sl) * unat (slab_count sl)"
    by (subst unat_mult_lem [symmetric]) simp
  ultimately show "unat (info_off sl) = 32 * (i + 2) * (4048 div (32 * (i + 2)))"
    unfolding o c by simp
qed

section \<open>Representation\<close>

text \<open>
  The contents of the lists: the partial and full pages of each slab and the free objects of each
  page.  \<open>family\<close> lays them out as a family of linked lists.
\<close>

record contents =
  part :: "slab_id \<Rightarrow> nat list"
  full :: "slab_id \<Rightarrow> nat list"
  free_objs :: "nat \<Rightarrow> nat list"

definition pages_of :: "contents \<Rightarrow> slab_id \<Rightarrow> nat set" where
  "pages_of g s = set (part g s) \<union> set (full g s)"

definition slab_pages :: "slab_id set \<Rightarrow> contents \<Rightarrow> nat set" where
  "slab_pages S g = (\<Union>s\<in>S. pages_of g s)"

definition family :: "slab_id set \<Rightarrow> contents \<Rightarrow> snode \<rightharpoonup> snode list" where
  "family S g n = (case n of
       Partial s \<Rightarrow> if s \<in> S then Some (map InfoNode (part g s)) else None
     | Full s \<Rightarrow> if s \<in> S then Some (map InfoNode (full g s)) else None
     | InfoFree pg \<Rightarrow> if pg \<in> slab_pages S g then Some (map (ObjNode pg) (free_objs g pg)) else None
     | _ \<Rightarrow> None)"

abbreviation per_page :: "kmem \<Rightarrow> slab_id \<Rightarrow> nat" where
  "per_page k s \<equiv> unat (slab_count (slabs k s))"

definition page_ok :: "kmem \<Rightarrow> slab_id \<Rightarrow> nat \<Rightarrow> nat list \<Rightarrow> bool" where
  "page_ok k s pg os \<longleftrightarrow> info_slab (infos k pg) = s \<and> free_count (infos k pg) = of_nat (length os) \<and>
     distinct os \<and> set os \<subseteq> {..<per_page k s} \<and> (\<forall>i<per_page k s. obj_info k pg i = pg) \<and>
     in_use (phys k) pg \<and> pp_ref (pages (phys k) pg) = 1 \<and> order_of (phys k) pg = 0"

text \<open>\<open>x\<close> is a page whose objects may all be free: a chunk just added or about to be given back.\<close>

definition slab_rep :: "nat option \<Rightarrow> slab_id set \<Rightarrow> contents \<Rightarrow> kmem \<Rightarrow> bool" where
  "slab_rep x S g k \<longleftrightarrow> dlists (slinks k) (family S g) \<and> allocator_ok (phys k) \<and>
     (\<forall>s\<in>S. 0 < per_page k s \<and>
        (\<forall>pg\<in>pages_of g s. page_ok k s pg (free_objs g pg)) \<and>
        (\<forall>pg\<in>set (part g s). free_objs g pg \<noteq> [] \<and> (x = Some pg \<or> length (free_objs g pg) < per_page k s)) \<and>
        (\<forall>pg\<in>set (full g s). free_objs g pg = []))"

definition live_objs :: "slab_id set \<Rightarrow> contents \<Rightarrow> kmem \<Rightarrow> (nat \<times> nat) set" where
  "live_objs S g k = {(pg, i). \<exists>s\<in>S. pg \<in> pages_of g s \<and> i < per_page k s \<and> i \<notin> set (free_objs g pg)}"

lemma slab_repD:
  assumes "slab_rep x S g k"
  shows rep_dlists: "dlists (slinks k) (family S g)" and rep_alloc: "allocator_ok (phys k)"
    and rep_count: "s \<in> S \<Longrightarrow> 0 < per_page k s"
    and rep_page: "s \<in> S \<Longrightarrow> pg \<in> pages_of g s \<Longrightarrow> page_ok k s pg (free_objs g pg)"
    and rep_part: "s \<in> S \<Longrightarrow> pg \<in> set (part g s) \<Longrightarrow> free_objs g pg \<noteq> []"
    and rep_part_lt: "s \<in> S \<Longrightarrow> pg \<in> set (part g s) \<Longrightarrow> x \<noteq> Some pg \<Longrightarrow> length (free_objs g pg) < per_page k s"
    and rep_full: "s \<in> S \<Longrightarrow> pg \<in> set (full g s) \<Longrightarrow> free_objs g pg = []"
  using assms unfolding slab_rep_def by blast+

lemma page_in_slab:
  assumes "slab_rep x S g k" and "s \<in> S" and "pg \<in> pages_of g s"
  shows "info_slab (infos k pg) = s" and "pg \<in> slab_pages S g"
  using rep_page [OF assms] assms(2,3) by (auto simp: page_ok_def slab_pages_def)

lemma part_full_disjoint:
  assumes "slab_rep x S g k" and "s \<in> S"
  shows "set (part g s) \<inter> set (full g s) = {}"
  using rep_part [OF assms] rep_full [OF assms] by blast

lemma family_simps [simp]:
  "family S g (Partial s) = (if s \<in> S then Some (map InfoNode (part g s)) else None)"
  "family S g (Full s) = (if s \<in> S then Some (map InfoNode (full g s)) else None)"
  "family S g (InfoFree pg) = (if pg \<in> slab_pages S g then Some (map (ObjNode pg) (free_objs g pg)) else None)"
  "family S g (InfoNode pg) = None" "family S g (ObjNode pg i) = None"
  by (simp_all add: family_def)

lemma family_move:
  assumes "s \<in> S" and "set ps \<union> set fs = pages_of g s"
  shows "family S (g\<lparr>part := (part g)(s := ps), full := (full g)(s := fs)\<rparr>) =
    (family S g)(Partial s \<mapsto> map InfoNode ps, Full s \<mapsto> map InfoNode fs)"
proof -
  have "pages_of (g\<lparr>part := (part g)(s := ps), full := (full g)(s := fs)\<rparr>) t = pages_of g t" for t
    using assms(2) by (simp add: pages_of_def)
  then have "slab_pages S (g\<lparr>part := (part g)(s := ps), full := (full g)(s := fs)\<rparr>) = slab_pages S g"
    by (simp add: slab_pages_def)
  then show ?thesis using assms(1) by (intro ext) (auto simp: family_def split: snode.splits)
qed

lemma family_free: "pg \<in> slab_pages S g \<Longrightarrow>
  family S (g\<lparr>free_objs := (free_objs g)(pg := os)\<rparr>) = (family S g)(InfoFree pg \<mapsto> map (ObjNode pg) os)"
  by (rule ext) (auto simp: family_def slab_pages_def pages_of_def split: snode.splits)

section \<open>Allocating an object\<close>

lemma page_ok_cong:
  assumes "infos k' pg = infos k pg" and "slabs k' = slabs k" and "obj_info k' pg = obj_info k pg"
    and "phys k' = phys k"
  shows "page_ok k' s pg os = page_ok k s pg os"
  using assms by (simp add: page_ok_def)

lemma slab_pages_unique:
  assumes "slab_rep x S g k" and "s \<in> S" "s' \<in> S" and "pg \<in> pages_of g s" "pg \<in> pages_of g s'"
  shows "s = s'"
  using page_in_slab(1) [OF assms(1)] assms(2-) by metis

text \<open>The contents after taking the first free object of the first partial page.\<close>

definition take_first :: "slab_id \<Rightarrow> contents \<Rightarrow> contents" where
  "take_first s g = (let pg = hd (part g s); os = tl (free_objs g pg);
       g1 = g\<lparr>free_objs := (free_objs g)(pg := os)\<rparr>
     in if os = [] then g1\<lparr>part := (part g)(s := tl (part g s)), full := (full g)(s := pg # full g s)\<rparr> else g1)"

definition dec_count :: "nat \<Rightarrow> kmem \<Rightarrow> kmem" where
  "dec_count pg k = k\<lparr>infos := (infos k)(pg := (infos k pg)\<lparr>free_count := free_count (infos k pg) - 1\<rparr>)\<rparr>"

lemma take_first_lists:
  assumes r: "slab_rep x S g k" and s: "s \<in> S" and p: "part g s = pg # ps" and f: "free_objs g pg = i # os"
  defines "h1 \<equiv> list_del (ObjNode pg i) (slinks k)"
  shows "list_is_empty h1 (InfoFree pg) \<longleftrightarrow> os = []"
    and "dlists (if os = [] then list_add (Full s) (InfoNode pg) (list_del (InfoNode pg) h1) else h1)
           (family S (take_first s g))"
proof -
  have pin: "pg \<in> pages_of g s" using p by (simp add: pages_of_def)
  note psp = page_in_slab(2) [OF r s pin]
  let ?L1 = "(family S g)(InfoFree pg \<mapsto> map (ObjNode pg) os)"
  have "family S g (InfoFree pg) = Some (ObjNode pg i # map (ObjNode pg) os)" using psp f by simp
  from dlists_del [OF rep_dlists [OF r] this, of "ObjNode pg i"]
  have d1: "dlists h1 ?L1" by (simp add: h1_def)
  from dlists_dlist [OF d1, of "InfoFree pg"] show e: "list_is_empty h1 (InfoFree pg) \<longleftrightarrow> os = []"
    using dlist_empty_iff by fastforce
  show "dlists (if os = [] then list_add (Full s) (InfoNode pg) (list_del (InfoNode pg) h1) else h1)
      (family S (take_first s g))"
  proof (cases "os = []")
    case False
    then show ?thesis using d1 family_free [OF psp] p f by (simp add: take_first_def Let_def)
  next
    case True
    let ?g1 = "g\<lparr>free_objs := (free_objs g)(pg := os)\<rparr>"
    have "?L1 = family S ?g1" using family_free [OF psp] by simp
    with d1 have d1: "dlists h1 (family S ?g1)" by (simp only:)
    let ?L2 = "(family S ?g1)(Partial s \<mapsto> map InfoNode ps)"
    have P: "family S ?g1 (Partial s) = Some (InfoNode pg # map InfoNode ps)" using s p by simp
    have rm: "remove1 (InfoNode pg) (InfoNode pg # map InfoNode ps) = map InfoNode ps" by simp
    have d2: "dlists (list_del (InfoNode pg) h1) ?L2"
      using dlists_del [OF d1 P list.set_intros(1)] unfolding rm .
    have n: "on_no_list ?L2 (InfoNode pg)" using on_no_list_removed [OF d1 P list.set_intros(1)] unfolding rm .
    have "?L2 (Full s) = Some (map InfoNode (full g s))" using s by simp
    from dlists_add [OF d2 this n] have "dlists (list_add (Full s) (InfoNode pg) (list_del (InfoNode pg) h1))
        (?L2(Full s \<mapsto> map InfoNode (pg # full g s)))" by simp
    moreover have "?L2(Full s \<mapsto> map InfoNode (pg # full g s)) =
        family S (?g1\<lparr>part := (part ?g1)(s := ps), full := (full ?g1)(s := pg # full g s)\<rparr>)"
      using family_move [OF s, of ps "pg # full g s" ?g1] p by (auto simp: pages_of_def)
    ultimately show ?thesis using True p f by (simp add: take_first_def Let_def)
  qed
qed

lemma take_first_sel:
  assumes "part g s = pg # ps" and "free_objs g pg = i # os"
  shows "pages_of (take_first s g) t = pages_of g t"
    and "free_objs (take_first s g) = (free_objs g)(pg := os)"
    and "part (take_first s g) t = (if t = s \<and> os = [] then ps else part g t)"
    and "full (take_first s g) t = (if t = s \<and> os = [] then pg # full g s else full g t)"
  using assms by (auto simp: take_first_def Let_def pages_of_def)

lemma take_first_rep:
  assumes r: "slab_rep x S g k" and s: "s \<in> S" and p: "part g s = pg # ps" and f: "free_objs g pg = i # os"
    and x: "x = None \<or> x = Some pg"
    and h: "dlists h (family S (take_first s g))"
  shows "slab_rep None S (take_first s g) ((dec_count pg k)\<lparr>slinks := h\<rparr>)"
proof -
  let ?k = "(dec_count pg k)\<lparr>slinks := h\<rparr>"
  note sel = take_first_sel [OF p f]
  have pin: "pg \<in> pages_of g s" using p by (simp add: pages_of_def)
  have "pg \<notin> set ps" using dlist_distinct [OF dlists_dlist [OF rep_dlists [OF r], of "Partial s"]] s p
    by (auto simp: distinct_map)
  have cnt: "per_page ?k t = per_page k t" for t by (simp add: dec_count_def)
  have ok: "page_ok ?k t q (free_objs (take_first s g) q)" if t: "t \<in> S" "q \<in> pages_of g t" for t q
  proof (cases "q = pg")
    case True
    have "t = s" using slab_pages_unique [OF r t(1) s t(2)] True pin by blast
    then show ?thesis using rep_page [OF r s pin] f True by (auto simp: page_ok_def dec_count_def sel)
  next
    case False
    then show ?thesis using rep_page [OF r t] by (simp add: page_ok_def dec_count_def sel)
  qed
  have lt: "length os < per_page k s"
  proof -
    have "card (set (i # os)) \<le> card {..<per_page k s}"
      using rep_page [OF r s pin] f by (intro card_mono) (auto simp: page_ok_def)
    then show ?thesis using rep_page [OF r s pin] f by (simp add: page_ok_def distinct_card)
  qed
  have notx: "x \<noteq> Some q" if "q \<noteq> pg" for q using x that by auto
  have "free_objs (take_first s g) q \<noteq> [] \<and> length (free_objs (take_first s g) q) < per_page k t"
    if t: "t \<in> S" "q \<in> set (part (take_first s g) t)" for t q
  proof (cases "q = pg")
    case True
    then have "os \<noteq> []" "t = s"
      using t \<open>pg \<notin> set ps\<close> slab_pages_unique [OF r t(1) s _ pin] by (auto simp: sel pages_of_def split: if_splits)
    then show ?thesis using True lt by (simp add: sel)
  next
    case False
    then have "q \<in> set (part g t)" using t p by (auto simp: sel split: if_splits)
    then show ?thesis using rep_part [OF r t(1)] rep_part_lt [OF r t(1) _ notx] False by (simp add: sel)
  qed
  moreover have "free_objs (take_first s g) q = []" if t: "t \<in> S" "q \<in> set (full (take_first s g) t)" for t q
  proof (cases "q = pg")
    case True
    have "pg \<notin> set (full g t)"
      using rep_full [OF r t(1), of pg] f by auto
    then show ?thesis using True t by (auto simp: sel split: if_splits)
  next
    case False
    then show ?thesis using t rep_full [OF r] s by (auto simp: sel split: if_splits)
  qed
  ultimately show ?thesis
    unfolding slab_rep_def cnt using ok h rep_alloc [OF r] rep_count [OF r] sel(1)
    by (auto simp: dec_count_def)
qed

lemma slab_take_rep:
  assumes r: "slab_rep x S g k" and s: "s \<in> S" and p: "part g s = pg # ps" and f: "free_objs g pg = i # os"
    and x: "x = None \<or> x = Some pg"
  shows "\<exists>k'. slab_take s k = Some (Some (pg, i), k') \<and> slab_rep None S (take_first s g) k' \<and>
    phys k' = phys k \<and> slabs k' = slabs k \<and> nslabs k' = nslabs k \<and> obj_data k' = obj_data k"
proof -
  note tl = take_first_lists [OF r s p f]
  let ?h1 = "list_del (ObjNode pg i) (slinks k)"
  let ?h = "if os = [] then list_add (Full s) (InfoNode pg) (list_del (InfoNode pg) ?h1) else ?h1"
  have "pg \<in> slab_pages S g" using page_in_slab(2) [OF r s] p by (simp add: pages_of_def)
  then have n: "lnext (slinks k) (Partial s) = InfoNode pg" "lnext (slinks k) (InfoFree pg) = ObjNode pg i"
    using dlist_next_head [OF dlists_dlist [OF rep_dlists [OF r]], of "Partial s"]
      dlist_next_head [OF dlists_dlist [OF rep_dlists [OF r]], of "InfoFree pg"] s p f by auto
  have "slab_take s k = Some (Some (pg, i), (dec_count pg k)\<lparr>slinks := ?h\<rparr>)"
    using n tl(1) by (auto simp: slab_take_def Let_def upd_slinks_def dec_count_def)
  then show ?thesis
    using take_first_rep [OF r s p f x tl(2)] by (auto simp: dec_count_def)
qed

lemma take_first_live:
  assumes r: "slab_rep x S g k" and s: "s \<in> S" and p: "part g s = pg # ps" and f: "free_objs g pg = i # os"
    and k': "slabs k' = slabs k"
  shows "live_objs S (take_first s g) k' = insert (pg, i) (live_objs S g k)" and "(pg, i) \<notin> live_objs S g k"
proof -
  note sel = take_first_sel [OF p f]
  have pin: "pg \<in> pages_of g s" using p by (simp add: pages_of_def)
  have i: "i < per_page k s" "i \<notin> set os" using rep_page [OF r s pin] f by (auto simp: page_ok_def)
  show "live_objs S (take_first s g) k' = insert (pg, i) (live_objs S g k)"
    using i s pin f by (auto simp: live_objs_def sel k' split: if_splits)
  show "(pg, i) \<notin> live_objs S g k" using f by (auto simp: live_objs_def)
qed

subsection \<open>Adding a chunk\<close>

definition chunk_links :: "nat \<Rightarrow> nat \<Rightarrow> snode lheap \<Rightarrow> snode lheap" where
  "chunk_links pg n h = fold (\<lambda>i. list_add (InfoFree pg) (ObjNode pg i)) [0..<n]
     (list_init (InfoFree pg) (list_init (InfoNode pg) h))"

lemma fold_init_obj:
  "fold (init_obj pg) [0..<n] k =
     k\<lparr>slinks := fold (\<lambda>i. list_add (InfoFree pg) (ObjNode pg i)) [0..<n] (slinks k),
       obj_info := (obj_info k)(pg := (\<lambda>i. if i < n then pg else obj_info k pg i))\<rparr>"
proof (induction n)
  case (Suc n)
  have e: "(\<lambda>i. if i < Suc n then pg else obj_info k pg i) = (\<lambda>i. if i < n then pg else obj_info k pg i)(n := pg)"
    by (auto simp: less_Suc_eq)
  have a: "fold f [0..<Suc n] k = f n (fold f [0..<n] k)" for f :: "nat \<Rightarrow> 'a \<Rightarrow> 'a" and k by simp
  show ?case unfolding a Suc.IH e by (cases k) (auto simp: init_obj_def upd_slinks_def fun_eq_iff)
qed simp

definition add_chunk :: "slab_id \<Rightarrow> nat \<Rightarrow> nat \<Rightarrow> contents \<Rightarrow> contents" where
  "add_chunk s pg n g = g\<lparr>part := (part g)(s := pg # part g s),
     free_objs := (free_objs g)(pg := rev [0..<n])\<rparr>"

lemma add_chunk_sel:
  "pages_of (add_chunk s pg n g) t = (if t = s then insert pg (pages_of g s) else pages_of g t)"
  "part (add_chunk s pg n g) t = (if t = s then pg # part g s else part g t)"
  "full (add_chunk s pg n g) t = full g t"
  "free_objs (add_chunk s pg n g) q = (if q = pg then rev [0..<n] else free_objs g q)"
  "s \<in> S \<Longrightarrow> slab_pages S (add_chunk s pg n g) = insert pg (slab_pages S g)"
  by (auto simp: add_chunk_def pages_of_def slab_pages_def split: if_splits)

lemma family_add_chunk:
  assumes s: "s \<in> S" and n: "pg \<notin> slab_pages S g"
  shows "family S (add_chunk s pg n g) = (family S g)(InfoFree pg \<mapsto> map (ObjNode pg) (rev [0..<n]),
    Partial s \<mapsto> map InfoNode (pg # part g s))"
  using assms by (intro ext) (auto simp: family_def add_chunk_sel split: snode.splits)

lemma chunk_links_lists:
  assumes d: "dlists h (family S g)" and n: "pg \<notin> slab_pages S g"
  shows "dlists (chunk_links pg n h) ((family S g)(InfoFree pg \<mapsto> map (ObjNode pg) (rev [0..<n])))"
proof -
  have mem: "InfoNode pg \<notin> set xs \<and> InfoFree pg \<notin> set xs \<and> (\<forall>i. ObjNode pg i \<notin> set xs)"
    if "family S g b = Some xs" for b xs
    using that n by (auto simp: family_def slab_pages_def pages_of_def split: snode.splits if_splits)
  have no: "family S g (InfoFree pg) = None" using n by simp
  have "dlists (list_init (InfoNode pg) h) (family S g)"
    using mem by (intro dlists_init(2) [OF d]) (auto dest: mem)
  then have "dlists (list_init (InfoFree pg) (list_init (InfoNode pg) h)) ((family S g)(InfoFree pg \<mapsto> []))"
    using no by (intro dlists_init(1)) (auto dest: mem)
  then show ?thesis
  proof (induction n)
    case (Suc n)
    let ?L = "(family S g)(InfoFree pg \<mapsto> map (ObjNode pg) (rev [0..<n]))"
    have new: "on_no_list ?L (ObjNode pg n)" using mem by (auto simp: on_no_list_def)
    have at: "?L (InfoFree pg) = Some (map (ObjNode pg) (rev [0..<n]))" by simp
    have l: "map (ObjNode pg) (rev [0..<Suc n]) = ObjNode pg n # map (ObjNode pg) (rev [0..<n])" by simp
    have h: "chunk_links pg (Suc n) h = list_add (InfoFree pg) (ObjNode pg n) (chunk_links pg n h)"
      by (simp add: chunk_links_def)
    from dlists_add [OF Suc.IH [OF Suc.prems] at new] show ?case unfolding l h fun_upd_upd .
  qed (simp add: chunk_links_def)
qed

lemma add_chunk_lists:
  assumes d: "dlists h (family S g)" and s: "s \<in> S" and n: "pg \<notin> slab_pages S g"
  shows "dlists (list_add (Partial s) (InfoNode pg) (chunk_links pg n h)) (family S (add_chunk s pg n g))"
proof -
  let ?L = "(family S g)(InfoFree pg \<mapsto> map (ObjNode pg) (rev [0..<n]))"
  have "on_no_list ?L (InfoNode pg)"
    using n s by (auto simp: on_no_list_def family_def slab_pages_def pages_of_def split: snode.splits if_splits)
  moreover have "?L (Partial s) = Some (map InfoNode (part g s))" using s by simp
  ultimately show ?thesis
    using dlists_add [OF chunk_links_lists [OF d n, of n]] family_add_chunk [OF s n] by simp
qed

lemma page_ok_phys:
  assumes "page_ok k s pg os" and "phys_keeps Q (phys k) (phys k')" and "pg \<in> Q"
    and "infos k' pg = infos k pg" and "slabs k' = slabs k" and "obj_info k' pg = obj_info k pg"
  shows "page_ok k' s pg os"
  using assms by (auto simp: page_ok_def phys_keeps_def)

lemma slab_rep_phys:
  assumes r: "slab_rep x S g k" and ok: "allocator_ok m" and ke: "phys_keeps UNIV (phys k) m"
  shows "slab_rep x S g (k\<lparr>phys := m\<rparr>)"
proof -
  have "page_ok (k\<lparr>phys := m\<rparr>) s pg (free_objs g pg)" if "s \<in> S" "pg \<in> pages_of g s" for s pg
    using ke by (intro page_ok_phys [OF rep_page [OF r that], where Q = UNIV]) simp_all
  then show ?thesis using r ok by (simp add: slab_rep_def)
qed

lemma add_chunk_rep:
  assumes r: "slab_rep None S g k" and s: "s \<in> S" and new: "pg \<notin> slab_pages S g"
    and ok: "allocator_ok (phys k')" and ke: "phys_keeps UNIV (phys k) (phys k')"
    and pg: "in_use (phys k') pg" "pp_ref (pages (phys k') pg) = 1" "order_of (phys k') pg = 0"
    and k': "slabs k' = slabs k"
      "slinks k' = list_add (Partial s) (InfoNode pg) (chunk_links pg (per_page k s) (slinks k))"
      "infos k' = (infos k)(pg := \<lparr>info_slab = s, free_count = slab_count (slabs k s)\<rparr>)"
      "obj_info k' = (obj_info k)(pg := (\<lambda>i. if i < per_page k s then pg else obj_info k pg i))"
  shows "slab_rep (Some pg) S (add_chunk s pg (per_page k s) g) k'"
proof -
  let ?n = "per_page k s"
  let ?g = "add_chunk s pg ?n g"
  have old: "q \<noteq> pg" if "t \<in> S" "q \<in> pages_of g t" for t q using that new by (auto simp: slab_pages_def)
  have "page_ok k' s pg (rev [0..<?n])" using pg by (auto simp: page_ok_def k')
  moreover have "page_ok k' t q (free_objs g q)" if "t \<in> S" "q \<in> pages_of g t" for t q
    using ke old [OF that] by (intro page_ok_phys [OF rep_page [OF r that], where Q = UNIV]) (simp_all add: k')
  ultimately have "page_ok k' t q (free_objs ?g q)" if "t \<in> S" "q \<in> pages_of ?g t" for t q
    using that old by (auto simp: add_chunk_sel split: if_splits)
  moreover have "free_objs ?g q \<noteq> [] \<and> (Some pg = Some q \<or> length (free_objs ?g q) < per_page k t)"
    if "t \<in> S" "q \<in> set (part ?g t)" for t q
    using that rep_count [OF r s] rep_part [OF r] rep_part_lt [OF r]
    by (auto simp: add_chunk_sel split: if_splits)
  moreover have "free_objs ?g q = []" if "t \<in> S" "q \<in> set (full ?g t)" for t q
    using that rep_full [OF r] old [of t q] by (auto simp: add_chunk_sel pages_of_def)
  moreover have "dlists (slinks k') (family S ?g)"
    unfolding k'(2) by (rule add_chunk_lists [OF rep_dlists [OF r] s new])
  ultimately show ?thesis
    using ok rep_count [OF r] unfolding slab_rep_def k'(1) by blast
qed

lemma slab_alloc_chunk_rep:
  assumes r: "slab_rep None S g k" and s: "s \<in> S"
  shows "(\<exists>k'. slab_alloc_chunk s k = Some (-1, k') \<and> slab_rep None S g k' \<and> free_frames (phys k) = {} \<and>
      slabs k' = slabs k \<and> nslabs k' = nslabs k \<and> phys_keeps UNIV (phys k) (phys k')) \<or>
    (\<exists>pg k'. slab_alloc_chunk s k = Some (0, k') \<and> slab_rep (Some pg) S (add_chunk s pg (per_page k s) g) k' \<and>
      pg \<in> free_frames (phys k) \<and> pg \<notin> slab_pages S g \<and> free_frames (phys k') = free_frames (phys k) - {pg} \<and>
      slabs k' = slabs k \<and> nslabs k' = nslabs k \<and> phys_keeps UNIV (phys k) (phys k'))"
proof -
  note ok = rep_alloc [OF r]
  obtain x m1 where a: "page_alloc ALLOC_ZERO (phys k) = Some (x, m1)" and ok1: "allocator_ok m1"
    using page_alloc_returns [OF ok] by blast
  show ?thesis
  proof (cases x)
    case None
    note n = page_alloc_none [OF ok a [unfolded None]]
    have "phys_keeps UNIV (phys k) m1" and "free_frames (phys k) = {}"
      using n(2) page_alloc_keeps_in_use(1) [OF ok a] n(1)
      by (auto simp: phys_keeps_def alloc_order_flags free_frames_def)
    moreover have "slab_alloc_chunk s k = Some (-1, k\<lparr>phys := m1\<rparr>)"
      using a None by (simp add: slab_alloc_chunk_def)
    ultimately show ?thesis
      using slab_rep_phys [OF r ok1] by auto
  next
    case (Some pg)
    let ?n = "per_page k s"
    let ?m = "upd_page pg (\<lambda>p. p\<lparr>pp_ref := pp_ref p + 1\<rparr>) m1"
    note np = new_page [OF ok a [unfolded Some]]
    have new: "pg \<notin> slab_pages S g"
      using rep_page [OF r] np(6) in_useD(1) by (fastforce simp: slab_pages_def page_ok_def)
    define k' where "k' = k\<lparr>phys := ?m, slinks := list_add (Partial s) (InfoNode pg) (chunk_links pg ?n (slinks k)),
      infos := (infos k)(pg := \<lparr>info_slab = s, free_count = slab_count (slabs k s)\<rparr>),
      obj_info := (obj_info k)(pg := (\<lambda>i. if i < ?n then pg else obj_info k pg i)),
      obj_data := (obj_data k)(pg := \<lambda>_ _. 0)\<rparr>"
    have "slab_alloc_chunk s k = Some (0, k')"
      using a Some np(9)
      by (cases k) (simp add: slab_alloc_chunk_def Let_def fold_init_obj upd_slinks_def k'_def chunk_links_def cong: if_cong)
    moreover have "slab_rep (Some pg) S (add_chunk s pg ?n g) k'"
      by (rule add_chunk_rep [OF r s new]) (use np in \<open>simp_all add: k'_def\<close>)
    ultimately show ?thesis using np new by (auto simp: k'_def)
  qed
qed

lemma add_chunk_live:
  assumes "s \<in> S" and "pg \<notin> slab_pages S g" and "slabs k' = slabs k"
  shows "live_objs S (add_chunk s pg (per_page k s) g) k' = live_objs S g k"
proof -
  have "q \<noteq> pg" if "t \<in> S" "q \<in> pages_of g t" for t q using that assms(2) by (auto simp: slab_pages_def)
  then show ?thesis using assms(1,3) by (auto simp: live_objs_def add_chunk_sel split: if_splits) metis
qed

definition slab_alloc_post :: "slab_id \<Rightarrow> slab_id set \<Rightarrow> contents \<Rightarrow> kmem \<Rightarrow> nat \<times> nat \<Rightarrow> kmem \<Rightarrow> bool" where
  "slab_alloc_post s S g k p k' \<longleftrightarrow> info_slab (infos k' (fst p)) = s \<and>
     (\<exists>g'. slab_rep None S g' k' \<and> live_objs S g' k' = insert p (live_objs S g k)) \<and>
     p \<notin> live_objs S g k \<and> slabs k' = slabs k \<and> nslabs k' = nslabs k \<and> phys_keeps UNIV (phys k) (phys k')"

lemma slab_alloc_rep:
  assumes r: "slab_rep None S g k" and s: "s \<in> S"
  shows "(\<exists>k'. slab_alloc s k = Some (None, k') \<and> slab_rep None S g k' \<and> part g s = [] \<and>
      free_frames (phys k) = {} \<and> slabs k' = slabs k \<and> nslabs k' = nslabs k \<and> phys_keeps UNIV (phys k) (phys k')) \<or>
    (\<exists>p k'. slab_alloc s k = Some (Some p, k') \<and> slab_alloc_post s S g k p k')"
proof -
  have e: "list_is_empty (slinks k) (Partial s) \<longleftrightarrow> part g s = []"
    using dlist_empty_iff [OF dlists_dlist [OF rep_dlists [OF r], of "Partial s"]] s by simp
  have take: "\<exists>p k'. slab_take s k1 = Some (Some p, k') \<and> slab_alloc_post s S g k p k'"
    if r1: "slab_rep x S g1 k1" and x: "x = None \<or> x = Some (hd (part g1 s))" and ne: "part g1 s \<noteq> []"
      and l1: "live_objs S g1 k1 = live_objs S g k" and k1: "slabs k1 = slabs k" "phys_keeps UNIV (phys k) (phys k1)" "nslabs k1 = nslabs k"
    for x g1 k1
  proof -
    obtain pg ps where p: "part g1 s = pg # ps" using ne by (cases "part g1 s") auto
    then obtain i os where f: "free_objs g1 pg = i # os"
      using rep_part [OF r1 s, of pg] by (cases "free_objs g1 pg") auto
    obtain k' where k': "slab_take s k1 = Some (Some (pg, i), k')" "slab_rep None S (take_first s g1) k'"
      "phys k' = phys k1" "slabs k' = slabs k1" "nslabs k' = nslabs k1"
      using slab_take_rep [OF r1 s p f] x p by auto
    note l = take_first_live [OF r1 s p f k'(4)]
    have "pg \<in> pages_of (take_first s g1) s" using p take_first_sel(1) [OF p f] by (simp add: pages_of_def)
    then have "info_slab (infos k' pg) = s" using page_in_slab(1) [OF k'(2) s] by blast
    then show ?thesis using k' l l1 k1 by (auto simp: slab_alloc_post_def)
  qed
  show ?thesis
  proof (cases "part g s = []")
    case False
    then have "slab_alloc s k = slab_take s k" using e by (simp add: slab_alloc_def)
    then show ?thesis using take [OF r] False by simp
  next
    case True
    from slab_alloc_chunk_rep [OF r s] show ?thesis
    proof (elim disjE exE conjE)
      fix k' assume "slab_alloc_chunk s k = Some (- 1, k')" "slab_rep None S g k'" "free_frames (phys k) = {}"
        "slabs k' = slabs k" "nslabs k' = nslabs k" "phys_keeps UNIV (phys k) (phys k')"
      then show ?thesis using True e by (simp add: slab_alloc_def)
    next
      fix pg k1
      assume c: "slab_alloc_chunk s k = Some (0, k1)" "slab_rep (Some pg) S (add_chunk s pg (per_page k s) g) k1"
        "pg \<notin> slab_pages S g" "slabs k1 = slabs k" "phys_keeps UNIV (phys k) (phys k1)" "nslabs k1 = nslabs k"
      have "slab_alloc s k = slab_take s k1" using c(1) True e by (simp add: slab_alloc_def)
      then show ?thesis
        using take [OF c(2)] add_chunk_live [OF s c(3,4)] c(4-6) by (simp add: add_chunk_sel)
    qed
  qed
qed

section \<open>Freeing an object\<close>

definition give_back :: "slab_id \<Rightarrow> nat \<Rightarrow> nat \<Rightarrow> contents \<Rightarrow> contents" where
  "give_back s pg i g = (let os = free_objs g pg;
       g1 = (if os = [] then g\<lparr>part := (part g)(s := pg # part g s), full := (full g)(s := remove1 pg (full g s))\<rparr> else g)
     in g1\<lparr>free_objs := (free_objs g)(pg := i # os)\<rparr>)"

lemma live_objE:
  assumes "slab_rep None S g k" and "(pg, i) \<in> live_objs S g k"
  obtains s where "s \<in> S" and "pg \<in> pages_of g s" and "i < per_page k s" and "i \<notin> set (free_objs g pg)"
    and "pg \<in> (if free_objs g pg = [] then set (full g s) else set (part g s))"
proof -
  obtain s where s: "s \<in> S" "pg \<in> pages_of g s" "i < per_page k s" "i \<notin> set (free_objs g pg)"
    using assms(2) by (auto simp: live_objs_def)
  moreover have "pg \<in> (if free_objs g pg = [] then set (full g s) else set (part g s))"
    using s rep_part [OF assms(1)] rep_full [OF assms(1)] by (auto simp: pages_of_def)
  ultimately show ?thesis using that by blast
qed

lemma give_back_lists:
  assumes r: "slab_rep None S g k" and s: "s \<in> S" and pin: "pg \<in> pages_of g s"
    and w: "pg \<in> (if free_objs g pg = [] then set (full g s) else set (part g s))"
    and i: "i \<notin> set (free_objs g pg)"
  defines "h1 \<equiv> if free_objs g pg = [] then list_add (Partial s) (InfoNode pg) (list_del (InfoNode pg) (slinks k))
                else slinks k"
  shows "dlists (list_add (InfoFree pg) (ObjNode pg i) h1) (family S (give_back s pg i g))"
proof -
  note psp = page_in_slab(2) [OF r s pin]
  define g1 where "g1 = (if free_objs g pg = [] then g\<lparr>part := (part g)(s := pg # part g s),
    full := (full g)(s := remove1 pg (full g s))\<rparr> else g)"
  have d1: "dlists h1 (family S g1)"
  proof (cases "free_objs g pg = []")
    case True
    let ?L = "family S g"
    let ?L1 = "?L(Full s \<mapsto> map InfoNode (remove1 pg (full g s)))"
    have F: "?L (Full s) = Some (map InfoNode (full g s))" using s by simp
    have x: "InfoNode pg \<in> set (map InfoNode (full g s))" using w True by simp
    have rm: "remove1 (InfoNode pg) (map InfoNode (full g s)) = map InfoNode (remove1 pg (full g s))"
      by (rule remove1_map) (simp add: inj_def)
    have d2: "dlists (list_del (InfoNode pg) (slinks k)) ?L1"
      using dlists_del [OF rep_dlists [OF r] F x] unfolding rm .
    have n: "on_no_list ?L1 (InfoNode pg)" using on_no_list_removed [OF rep_dlists [OF r] F x] unfolding rm .
    have "?L1 (Partial s) = Some (map InfoNode (part g s))" using s by simp
    from dlists_add [OF d2 this n] have "dlists h1 (?L1(Partial s \<mapsto> map InfoNode (pg # part g s)))"
      using True by (simp add: h1_def)
    moreover have "distinct (full g s)"
      using dlist_distinct [OF dlists_dlist [OF rep_dlists [OF r] F]] by (simp add: distinct_map)
    then have "set (pg # part g s) \<union> set (remove1 pg (full g s)) = pages_of g s"
      using x by (auto simp: pages_of_def)
    from family_move [OF s this] have "family S g1 = ?L1(Partial s \<mapsto> map InfoNode (pg # part g s))"
      using True by (simp add: g1_def fun_upd_twist)
    ultimately show ?thesis by simp
  qed (use rep_dlists [OF r] in \<open>simp add: h1_def g1_def\<close>)
  have pages: "slab_pages S g1 = slab_pages S g"
  proof (cases "free_objs g pg = []")
    case True
    have "dlist (slinks k) (Full s) (map InfoNode (full g s))" using dlists_dlist [OF rep_dlists [OF r]] s by simp
    then have "distinct (full g s)" using dlist_distinct by (fastforce simp: distinct_map)
    then have "pages_of g1 t = pages_of g t" for t using w True by (auto simp: g1_def pages_of_def)
    then show ?thesis by (simp add: slab_pages_def)
  qed (simp add: g1_def)
  have at: "family S g1 (InfoFree pg) = Some (map (ObjNode pg) (free_objs g pg))"
    using psp pages by (simp add: g1_def)
  have "on_no_list (family S g1) (ObjNode pg i)"
    using i by (auto simp: on_no_list_def family_def g1_def split: snode.splits if_splits)
  from dlists_add [OF d1 at this] have "dlists (list_add (InfoFree pg) (ObjNode pg i) h1)
    ((family S g1)(InfoFree pg \<mapsto> map (ObjNode pg) (i # free_objs g pg)))" by simp
  moreover have "give_back s pg i g = g1\<lparr>free_objs := (free_objs g1)(pg := i # free_objs g pg)\<rparr>"
    by (simp add: give_back_def g1_def Let_def)
  ultimately show ?thesis using family_free [of pg S g1 "i # free_objs g pg"] psp pages by simp
qed

lemma part_full_distinct:
  assumes "slab_rep x S g k" and "s \<in> S"
  shows "distinct (part g s)" and "distinct (full g s)"
  using dlist_distinct [OF dlists_dlist [OF rep_dlists [OF assms(1)], of "Partial s"]]
    dlist_distinct [OF dlists_dlist [OF rep_dlists [OF assms(1)], of "Full s"]] assms(2)
  by (auto simp: distinct_map)

lemma give_back_sel:
  assumes "distinct (full g s)" and "pg \<in> (if free_objs g pg = [] then set (full g s) else set (part g s))"
    and "set (part g s) \<inter> set (full g s) = {}"
  shows "pages_of (give_back s pg i g) t = pages_of g t"
    and "free_objs (give_back s pg i g) = (free_objs g)(pg := i # free_objs g pg)"
    and "set (part (give_back s pg i g) t) = (if t = s then insert pg (set (part g s)) else set (part g t))"
    and "set (full (give_back s pg i g) t) = (if t = s then set (full g s) - {pg} else set (full g t))"
  using assms by (auto simp: give_back_def Let_def pages_of_def split: if_splits)

definition inc_count :: "nat \<Rightarrow> kmem \<Rightarrow> kmem" where
  "inc_count pg k = k\<lparr>infos := (infos k)(pg := (infos k pg)\<lparr>free_count := free_count (infos k pg) + 1\<rparr>)\<rparr>"

lemma give_back_rep:
  assumes r: "slab_rep None S g k" and s: "s \<in> S" and pin: "pg \<in> pages_of g s" and i: "i < per_page k s"
    and new: "i \<notin> set (free_objs g pg)"
    and w: "pg \<in> (if free_objs g pg = [] then set (full g s) else set (part g s))"
    and h: "dlists h (family S (give_back s pg i g))"
  shows "slab_rep (Some pg) S (give_back s pg i g) ((inc_count pg k)\<lparr>slinks := h\<rparr>)"
proof -
  let ?k = "(inc_count pg k)\<lparr>slinks := h\<rparr>" and ?g = "give_back s pg i g"
  note sel = give_back_sel [OF part_full_distinct(2) [OF r s] w part_full_disjoint [OF r s]]
  have cnt: "per_page ?k t = per_page k t" for t by (simp add: inc_count_def)
  have "page_ok ?k t q (free_objs ?g q)" if t: "t \<in> S" "q \<in> pages_of g t" for t q
  proof (cases "q = pg")
    case True
    have "t = s" using slab_pages_unique [OF r t(1) s t(2)] True pin by blast
    then show ?thesis using rep_page [OF r s pin] i new True by (auto simp: page_ok_def inc_count_def sel)
  next
    case False
    then show ?thesis using rep_page [OF r t] by (simp add: page_ok_def inc_count_def sel)
  qed
  moreover have "free_objs ?g q \<noteq> [] \<and> (Some pg = Some q \<or> length (free_objs ?g q) < per_page k t)"
    if t: "t \<in> S" "q \<in> set (part ?g t)" for t q
    using t rep_part [OF r t(1)] rep_part_lt [OF r t(1)] by (auto simp: sel split: if_splits)
  moreover have "free_objs ?g q = []" if t: "t \<in> S" "q \<in> set (full ?g t)" for t q
  proof -
    have "q \<noteq> pg"
    proof
      assume "q = pg"
      then have "t \<noteq> s" "pg \<in> pages_of g t" using t by (auto simp: sel pages_of_def split: if_splits)
      then show False using slab_pages_unique [OF r t(1) s _ pin] by blast
    qed
    then show ?thesis using t rep_full [OF r t(1)] by (auto simp: sel split: if_splits)
  qed
  ultimately show ?thesis
    unfolding slab_rep_def cnt using h rep_alloc [OF r] rep_count [OF r] sel(1)
    by (auto simp: inc_count_def)
qed

lemma give_back_live:
  assumes r: "slab_rep None S g k" and s: "s \<in> S" and pin: "pg \<in> pages_of g s"
    and w: "pg \<in> (if free_objs g pg = [] then set (full g s) else set (part g s))"
    and k': "slabs k' = slabs k"
  shows "live_objs S (give_back s pg i g) k' = live_objs S g k - {(pg, i)}"
proof -
  note sel = give_back_sel [OF part_full_distinct(2) [OF r s] w part_full_disjoint [OF r s]]
  show ?thesis by (auto simp: live_objs_def sel k' split: if_splits)
qed

definition drop_chunk :: "slab_id \<Rightarrow> nat \<Rightarrow> contents \<Rightarrow> contents" where
  "drop_chunk s pg g = g\<lparr>part := (part g)(s := remove1 pg (part g s))\<rparr>"

lemma drop_chunk_lists:
  assumes r: "slab_rep x S g k" and s: "s \<in> S" and p: "pg \<in> set (part g s)"
  shows "dlists (list_del (InfoNode pg) (slinks k)) (family S (drop_chunk s pg g))"
    and "t \<in> S \<Longrightarrow> pages_of (drop_chunk s pg g) t = pages_of g t - {pg}"
proof -
  have dis: "distinct (part g s)" "pg \<notin> set (full g s)"
    using part_full_distinct(1) [OF r s] part_full_disjoint [OF r s] p by auto
  have pin: "pg \<in> pages_of g s" using p by (simp add: pages_of_def)
  have pages: "pages_of (drop_chunk s pg g) t = pages_of g t - {pg}" if "t \<in> S" for t
  proof (cases "t = s")
    case True
    then show ?thesis using dis by (auto simp: drop_chunk_def pages_of_def)
  next
    case False
    then have "pg \<notin> pages_of g t" using slab_pages_unique [OF r that s _ pin] by blast
    then show ?thesis using False by (auto simp: drop_chunk_def pages_of_def)
  qed
  then show "t \<in> S \<Longrightarrow> pages_of (drop_chunk s pg g) t = pages_of g t - {pg}" .
  have P: "family S g (Partial s) = Some (map InfoNode (part g s))" using s by simp
  have x: "InfoNode pg \<in> set (map InfoNode (part g s))" using p by simp
  have rm: "remove1 (InfoNode pg) (map InfoNode (part g s)) = map InfoNode (remove1 pg (part g s))"
    by (rule remove1_map) (simp add: inj_def)
  have d: "dlists (list_del (InfoNode pg) (slinks k)) ((family S g)(Partial s \<mapsto> map InfoNode (remove1 pg (part g s))))"
    using dlists_del [OF rep_dlists [OF r] P x] unfolding rm .
  have "slab_pages S (drop_chunk s pg g) = slab_pages S g - {pg}" using pages by (auto simp: slab_pages_def)
  then have "family S (drop_chunk s pg g) =
      ((family S g)(Partial s \<mapsto> map InfoNode (remove1 pg (part g s)))) |` (- {InfoFree pg})"
    using s by (intro ext) (auto simp: family_def drop_chunk_def restrict_map_def split: snode.splits)
  then show "dlists (list_del (InfoNode pg) (slinks k)) (family S (drop_chunk s pg g))"
    using dlists_restrict [OF d] by (simp only:)
qed

lemma drop_chunk_rep:
  assumes r: "slab_rep (Some pg) S g k" and s: "s \<in> S" and p: "pg \<in> set (part g s)"
    and ok: "allocator_ok m" and ke: "phys_keeps (- {pg}) (phys k) m"
  shows "slab_rep None S (drop_chunk s pg g) (k\<lparr>phys := m, slinks := list_del (InfoNode pg) (slinks k)\<rparr>)"
proof -
  let ?k = "k\<lparr>phys := m, slinks := list_del (InfoNode pg) (slinks k)\<rparr>" and ?g = "drop_chunk s pg g"
  note dc = drop_chunk_lists [OF r s p]
  have sub: "set (part ?g t) \<subseteq> set (part g t) - {pg}" if "t \<in> S" for t
  proof -
    have "set (part ?g t) \<subseteq> pages_of g t - {pg}" unfolding dc(2) [OF that, symmetric] by (simp add: pages_of_def)
    moreover have "set (part ?g t) \<subseteq> set (part g t)"
      using set_remove1_subset [of pg "part g s"] by (simp add: drop_chunk_def)
    ultimately show ?thesis by blast
  qed
  have "page_ok ?k t q (free_objs g q)" if t: "t \<in> S" "q \<in> pages_of g t - {pg}" for t q
    by (rule page_ok_phys [OF rep_page [OF r t(1)], where Q = "- {pg}"]) (use ke t in simp_all)
  moreover have "free_objs g q \<noteq> [] \<and> length (free_objs g q) < per_page k t"
    if t: "t \<in> S" "q \<in> set (part ?g t)" for t q
    using sub [OF t(1)] t(2) rep_part [OF r t(1)] rep_part_lt [OF r t(1), of q] by auto
  moreover have "full ?g = full g" "free_objs ?g = free_objs g" by (simp_all add: drop_chunk_def)
  moreover have "pages_of ?g t = pages_of g t - {pg}" if "t \<in> S" for t using dc(2) that .
  ultimately show ?thesis
    using dc(1) ok rep_count [OF r] rep_full [OF r] unfolding slab_rep_def by simp
qed

lemma drop_chunk_live:
  assumes r: "slab_rep x S g k" and s: "s \<in> S" and p: "pg \<in> set (part g s)"
    and all: "per_page k s \<le> length (free_objs g pg)" and k': "slabs k' = slabs k"
  shows "live_objs S (drop_chunk s pg g) k' = live_objs S g k"
proof -
  have pin: "pg \<in> pages_of g s" using p by (simp add: pages_of_def)
  note ok = rep_page [OF r s pin]
  have "set (free_objs g pg) = {..<per_page k s}"
    using ok all by (intro card_seteq) (auto simp: page_ok_def distinct_card)
  moreover have "t = s" if "t \<in> S" "pg \<in> pages_of g t" for t by (rule slab_pages_unique [OF r that(1) s that(2) pin])
  ultimately have none: "(pg, i) \<notin> live_objs S g k" for i unfolding live_objs_def by blast
  show ?thesis
    using none drop_chunk_lists(2) [OF r s p] by (auto simp: live_objs_def k' drop_chunk_def)
qed

definition clear_obj :: "slab_id \<Rightarrow> nat \<Rightarrow> nat \<Rightarrow> kmem \<Rightarrow> kmem" where
  "clear_obj s pg i k = k\<lparr>obj_data := (obj_data k)(pg := (obj_data k pg)
     (i := (\<lambda>b. if b < unat (obj_size (slabs k s) - SIZEOF_SLAB_OBJ) then 0 else obj_data k pg i b)))\<rparr>"

lemma clear_obj_fields [simp]:
  "phys (clear_obj s pg i k) = phys k" "slabs (clear_obj s pg i k) = slabs k" "slinks (clear_obj s pg i k) = slinks k"
  "infos (clear_obj s pg i k) = infos k" "obj_info (clear_obj s pg i k) = obj_info k"
  "nslabs (clear_obj s pg i k) = nslabs k"
  by (simp_all add: clear_obj_def)

lemma clear_obj_rep [simp]:
  "slab_rep x S g (clear_obj s pg i k) = slab_rep x S g k" "live_objs S g (clear_obj s pg i k) = live_objs S g k"
  by (simp_all add: slab_rep_def page_ok_def live_objs_def)

definition slab_free_post :: "slab_id set \<Rightarrow> contents \<Rightarrow> kmem \<Rightarrow> nat \<times> nat \<Rightarrow> kmem \<Rightarrow> bool" where
  "slab_free_post S g k p k' \<longleftrightarrow>
     (\<exists>g'. slab_rep None S g' k' \<and> live_objs S g' k' = live_objs S g k - {p} \<and>
        free_frames (phys k') = free_frames (phys k) \<union> (slab_pages S g - slab_pages S g')) \<and>
     slabs k' = slabs k \<and> nslabs k' = nslabs k \<and> phys_keeps (- {fst p}) (phys k) (phys k') \<and>
     (\<forall>q j. (q, j) \<noteq> p \<longrightarrow> obj_data k' q j = obj_data k q j)"

lemma slab_free_chunk_rep:
  assumes r: "slab_rep (Some pg) S g k" and s: "s \<in> S" and p: "pg \<in> set (part g s)"
  shows "\<exists>m. slab_free_chunk s pg k = Some (k\<lparr>phys := m, slinks := list_del (InfoNode pg) (slinks k)\<rparr>) \<and>
    allocator_ok m \<and> free_frames m = insert pg (free_frames (phys k)) \<and> phys_keeps (- {pg}) (phys k) m"
proof -
  have "page_ok k s pg (free_objs g pg)" using rep_page [OF r s] p by (simp add: pages_of_def)
  then have u: "in_use (phys k) pg" "pp_ref (pages (phys k) pg) = 1" "order_of (phys k) pg = 0"
    by (simp_all add: page_ok_def)
  from page_decref_small [OF rep_alloc [OF r] this] obtain m where
    "page_decref pg (phys k) = Some m" "allocator_ok m" "free_frames m = insert pg (free_frames (phys k))"
    "phys_keeps (- {pg}) (phys k) m" by blast
  then show ?thesis using in_useD(4) [OF u(1)] by (cases k) (simp add: slab_free_chunk_def upd_slinks_def)
qed

lemma slab_rep_strict:
  assumes "slab_rep (Some pg) S g k" and "\<And>s. s \<in> S \<Longrightarrow> pg \<in> set (part g s) \<Longrightarrow> length (free_objs g pg) < per_page k s"
  shows "slab_rep None S g k"
  using assms unfolding slab_rep_def by (metis option.inject)

lemma slab_free_rep:
  assumes r: "slab_rep None S g k" and live: "(pg, i) \<in> live_objs S g k"
  shows "\<exists>k'. slab_free (pg, i) k = Some k' \<and> slab_free_post S g k (pg, i) k'"
proof -
  obtain s where s: "s \<in> S" "pg \<in> pages_of g s" "i < per_page k s" "i \<notin> set (free_objs g pg)"
    "pg \<in> (if free_objs g pg = [] then set (full g s) else set (part g s))"
    using live_objE [OF r live] .
  note ok = rep_page [OF r s(1,2)]
  let ?os = "free_objs g pg" and ?g = "give_back s pg i g"
  let ?h1 = "if ?os = [] then list_add (Partial s) (InfoNode pg) (list_del (InfoNode pg) (slinks k)) else slinks k"
  let ?h = "list_add (InfoFree pg) (ObjNode pg i) ?h1"
  define k2 where "k2 = clear_obj s pg i ((inc_count pg k)\<lparr>slinks := ?h\<rparr>)"
  have r2: "slab_rep (Some pg) S ?g k2"
    unfolding k2_def clear_obj_rep
    by (rule give_back_rep [OF r s give_back_lists [OF r s(1,2,5,4)]])
  have l2: "live_objs S ?g k2 = live_objs S g k - {(pg, i)}"
    by (rule give_back_live [OF r s(1,2,5)]) (simp add: k2_def inc_count_def)
  note sel = give_back_sel [OF part_full_distinct(2) [OF r s(1)] s(5) part_full_disjoint [OF r s(1)]]
  have pin: "pg \<in> set (part ?g s)" using sel(3) by simp
  have sp: "slab_pages S ?g = slab_pages S g" using sel(1) by (simp add: slab_pages_def)
  have "list_is_empty (slinks k) (InfoFree pg) \<longleftrightarrow> ?os = []"
    using dlist_empty_iff [OF dlists_dlist [OF rep_dlists [OF r], of "InfoFree pg"]]
      page_in_slab(2) [OF r s(1,2)] by simp
  moreover have "obj_info k pg i = pg" "info_slab (infos k pg) = s" using ok s(3) by (simp_all add: page_ok_def)
  ultimately have run: "slab_free (pg, i) k =
      (if free_count (infos k2 pg) \<ge> slab_count (slabs k s) then slab_free_chunk s pg k2 else Some k2)"
    by (cases k) (simp add: slab_free_def Let_def k2_def clear_obj_def inc_count_def upd_slinks_def cong: if_cong)
  have k2: "slabs k2 = slabs k" "phys k2 = phys k" "nslabs k2 = nslabs k" by (simp_all add: k2_def inc_count_def)
  have le: "length (i # ?os) \<le> per_page k s"
  proof -
    have "card (set (i # ?os)) \<le> card {..<per_page k s}" using ok s(3) by (intro card_mono) (auto simp: page_ok_def)
    then show ?thesis using ok s(4) by (simp add: page_ok_def distinct_card)
  qed
  have "page_ok k2 s pg (i # ?os)" using rep_page [OF r2 s(1), of pg] sel(1,2) s(2) by simp
  then have "unat (free_count (infos k2 pg)) = length (i # ?os)"
    using le unat_u64_less [of "slab_count (slabs k s)"]
    by (simp add: page_ok_def unat_of_nat del: of_nat_Suc)
  then have cmp: "free_count (infos k2 pg) \<ge> slab_count (slabs k s) \<longleftrightarrow> per_page k s \<le> length (i # ?os)"
    by (simp add: word_le_nat_alt)
  have data: "\<forall>q j. (q, j) \<noteq> (pg, i) \<longrightarrow> obj_data k2 q j = obj_data k q j"
    by (auto simp: k2_def clear_obj_def inc_count_def)
  show ?thesis
  proof (cases "per_page k s \<le> length (i # ?os)")
    case False
    have "length (free_objs ?g pg) < per_page k2 t" if t: "t \<in> S" "pg \<in> set (part ?g t)" for t
    proof -
      have "pg \<in> pages_of g t" using t(2) sel(1) [of i t] unfolding pages_of_def by blast
      then have "t = s" using slab_pages_unique [OF r t(1) s(1) _ s(2)] by blast
      then show ?thesis using False sel(2) k2(1) by simp
    qed
    from slab_rep_strict [OF r2 this] have "slab_free_post S g k (pg, i) k2"
      unfolding slab_free_post_def using l2 sp k2 data by (intro conjI exI [of _ ?g]) auto
    then show ?thesis using run cmp False by auto
  next
    case True
    obtain m where m: "slab_free_chunk s pg k2 = Some (k2\<lparr>phys := m, slinks := list_del (InfoNode pg) (slinks k2)\<rparr>)"
      "allocator_ok m" "free_frames m = insert pg (free_frames (phys k2))" "phys_keeps (- {pg}) (phys k2) m"
      using slab_free_chunk_rep [OF r2 s(1) pin] by blast
    let ?k = "k2\<lparr>phys := m, slinks := list_del (InfoNode pg) (slinks k2)\<rparr>" and ?g' = "drop_chunk s pg ?g"
    have "slab_rep None S ?g' ?k" by (rule drop_chunk_rep [OF r2 s(1) pin m(2,4)])
    moreover have "live_objs S ?g' ?k = live_objs S g k - {(pg, i)}"
      using drop_chunk_live [OF r2 s(1) pin] True l2 k2(1) sel(2) by simp
    moreover have "slab_pages S ?g' = slab_pages S g - {pg}"
      using drop_chunk_lists(2) [OF r2 s(1) pin] sp by (auto simp: slab_pages_def)
    moreover have "pg \<in> slab_pages S g" by (rule page_in_slab(2) [OF r s(1,2)])
    ultimately have "slab_free_post S g k (pg, i) ?k"
      unfolding slab_free_post_def using m(3,4) k2 data by (intro conjI exI [of _ ?g']) auto
    then show ?thesis using run cmp m(1) True by auto
  qed
qed

section \<open>Setting up the slabs of a CPU\<close>

definition no_pages :: "slab_id \<Rightarrow> contents \<Rightarrow> contents" where
  "no_pages s g = g\<lparr>part := (part g)(s := []), full := (full g)(s := [])\<rparr>"

lemma slab_setup_fields [simp]:
  "phys (slab_setup s z k) = phys k" "nslabs (slab_setup s z k) = nslabs k" "obj_data (slab_setup s z k) = obj_data k"
  by (simp_all add: slab_setup_def Let_def upd_slinks_def)

lemma slab_setup_rep:
  assumes r: "slab_rep None S g k" and s: "s \<notin> S"
    and c: "0 < per_page (slab_setup s sz k) s"
  shows "slab_rep None (insert s S) (no_pages s g) (slab_setup s sz k)"
    and "live_objs (insert s S) (no_pages s g) (slab_setup s sz k) = live_objs S g k"
proof -
  let ?k = "slab_setup s sz k" and ?g = "no_pages s g" and ?S = "insert s S"
  have sel: "phys ?k = phys k" "infos ?k = infos k" "obj_info ?k = obj_info k"
    "slinks ?k = list_init (Partial s) (list_init (Full s) (slinks k))" "t \<noteq> s \<Longrightarrow> slabs ?k t = slabs k t" for t
    by (simp_all add: slab_setup_def Let_def upd_slinks_def)
  have gs: "part ?g t = (if t = s then [] else part g t)" "full ?g t = (if t = s then [] else full g t)"
    "free_objs ?g = free_objs g" "pages_of ?g t = (if t = s then {} else pages_of g t)" for t
    by (simp_all add: no_pages_def pages_of_def)
  have ne: "t \<noteq> s" if "t \<in> S" for t using that s by auto
  have sp: "slab_pages ?S ?g = slab_pages S g" using ne by (auto simp: slab_pages_def gs)
  have f: "dlists (list_init (Full s) (slinks k)) ((family S g)(Full s \<mapsto> []))"
    using s by (intro dlists_init(1) [OF rep_dlists [OF r]])
      (auto simp: family_def split: snode.splits if_splits)
  have "dlists (slinks ?k) ((family S g)(Full s \<mapsto> [], Partial s \<mapsto> []))"
    unfolding sel(4) using s by (intro dlists_init(1) [OF f])
      (auto simp: family_def split: snode.splits if_splits)
  moreover have "(family S g)(Full s \<mapsto> [], Partial s \<mapsto> []) = family ?S ?g"
    using s by (intro ext) (auto simp: family_def gs sp split: snode.splits)
  ultimately have "dlists (slinks ?k) (family ?S ?g)" by (simp only:)
  moreover have "page_ok ?k t q (free_objs g q)" if "t \<in> S" "q \<in> pages_of g t" for t q
    using rep_page [OF r that] ne [OF that(1)] sel by (simp add: page_ok_def)
  ultimately show "slab_rep None ?S ?g ?k"
    using r c ne sel unfolding slab_rep_def gs by auto
  show "live_objs ?S ?g ?k = live_objs S g k" using ne sel(5) by (force simp: live_objs_def gs)
qed

definition std_slab :: "nat \<Rightarrow> slab \<Rightarrow> bool" where
  "std_slab i sl \<longleftrightarrow> unat (obj_size sl) = 32 * (i + 2) \<and> unat (slab_count sl) = 4048 div (32 * (i + 2)) \<and>
     unat (info_off sl) = 32 * (i + 2) * (4048 div (32 * (i + 2)))"

definition std_slabs :: "nat \<Rightarrow> nat \<Rightarrow> kmem \<Rightarrow> bool" where
  "std_slabs c n k \<longleftrightarrow> (\<forall>i<n. std_slab i (slabs k (SlabId c i)))"

lemma std_slab_count: "i < 32 \<Longrightarrow> std_slab i sl \<Longrightarrow> 0 < unat (slab_count sl)"
  by (simp add: std_slab_def div_greater_zero_iff)

lemma setup_all_rep:
  assumes r: "slab_rep None S g k" and s: "\<forall>i. SlabId c i \<notin> S" and n: "n \<le> 32"
  defines "k' \<equiv> fold (\<lambda>i. slab_setup (SlabId c i) (of_nat (i + 1) * SLAB_ALIGN)) [0..<n] k"
  shows "\<exists>g'. slab_rep None (S \<union> SlabId c ` {..<n}) g' k' \<and> live_objs (S \<union> SlabId c ` {..<n}) g' k' = live_objs S g k"
    and "std_slabs c n k'" and "phys k' = phys k" and "nslabs k' = nslabs k"
  unfolding k'_def using n
proof (induction n)
  case 0
  { case 1 show ?case using r by auto
  next case 2 show ?case by (simp add: std_slabs_def)
  next case 3 show ?case by simp
  next case 4 show ?case by simp }
next
  case (Suc n)
  let ?k = "fold (\<lambda>i. slab_setup (SlabId c i) (of_nat (i + 1) * SLAB_ALIGN)) [0..<n] k"
  let ?s = "SlabId c n" and ?z = "of_nat (n + 1) * SLAB_ALIGN :: u64"
  have step: "fold (\<lambda>i. slab_setup (SlabId c i) (of_nat (i + 1) * SLAB_ALIGN)) [0..<Suc n] k = slab_setup ?s ?z ?k"
    by simp
  have S: "S \<union> SlabId c ` {..<Suc n} = insert ?s (S \<union> SlabId c ` {..<n})" by (auto simp: less_Suc_eq)
  { case 1
    then obtain g' where g': "slab_rep None (S \<union> SlabId c ` {..<n}) g' ?k"
      "live_objs (S \<union> SlabId c ` {..<n}) g' ?k = live_objs S g k" using Suc.IH(1) by auto
    have "std_slab n (slabs (slab_setup ?s ?z ?k) ?s)" unfolding std_slab_def using setup_size 1 by simp
    then have pos: "0 < per_page (slab_setup ?s ?z ?k) ?s" by (rule std_slab_count [rotated]) (use 1 in simp)
    have "?s \<notin> S \<union> SlabId c ` {..<n}" using s by auto
    from slab_setup_rep [OF g'(1) this pos] show ?case unfolding S step g'(2) by blast
  next
    case 2
    have "std_slab n (slabs (slab_setup ?s ?z ?k) ?s)" unfolding std_slab_def using setup_size 2 by simp
    moreover have "slabs (slab_setup ?s ?z ?k) (SlabId c i) = slabs ?k (SlabId c i)" if "i < n" for i
      using that by (simp add: slab_setup_def Let_def upd_slinks_def)
    ultimately show ?case unfolding step using Suc.IH(2) 2 by (auto simp: std_slabs_def less_Suc_eq)
  next
    case 3 then show ?case unfolding step using Suc.IH(3) by simp
  next
    case 4 then show ?case unfolding step using Suc.IH(4) by simp }
qed

section \<open>Properties of the kernel heap\<close>

text \<open>
  The heap as its users see it: \<open>S\<close> are the slabs set up so far, \<open>live\<close> the objects handed out and
  not yet freed.
\<close>

definition heap_ok :: "nat \<Rightarrow> kmem \<Rightarrow> (nat \<times> nat) set \<Rightarrow> bool" where
  "heap_ok c k live \<longleftrightarrow> nslabs k c = 32 \<and> std_slabs c 32 k \<and>
     (\<exists>S g. (\<forall>i<32. SlabId c i \<in> S) \<and> slab_rep None S g k \<and> live_objs S g k = live)"

text \<open>An object's bytes, as offsets in its page: \<open>(i + 1) * size\<close> is the end of object \<open>i\<close>.\<close>

definition obj_bytes :: "slab \<Rightarrow> nat \<Rightarrow> nat set" where
  "obj_bytes sl i = {i * unat (obj_size sl) + 24..<(i + 1) * unat (obj_size sl)}"

text \<open>The bytes of an object handed out, by the slab its page belongs to.\<close>

definition obj_region :: "kmem \<Rightarrow> nat \<times> nat \<Rightarrow> nat set" where
  "obj_region k p = obj_bytes (slabs k (info_slab (infos k (fst p)))) (snd p)"

lemma obj_bytes_disjoint:
  assumes "i \<noteq> j"
  shows "obj_bytes sl i \<inter> obj_bytes sl j = {}"
proof -
  have "obj_bytes sl a \<inter> obj_bytes sl b = {}" if "a < b" for a b
  proof -
    have "(a + 1) * unat (obj_size sl) \<le> b * unat (obj_size sl)" using that by (intro mult_le_mono1) simp
    then show ?thesis by (auto simp: obj_bytes_def)
  qed
  then show ?thesis using assms by (cases i j rule: linorder_cases) auto
qed

lemma obj_bytes_std:
  assumes "std_slab i sl"
  shows "card (obj_bytes sl j) = 32 * (i + 1) + 8"
    and "j < unat (slab_count sl) \<Longrightarrow> obj_bytes sl j \<subseteq> {..<unat (info_off sl)}"
proof -
  have z: "unat (obj_size sl) = 32 * (i + 2)" "unat (info_off sl) = unat (obj_size sl) * unat (slab_count sl)"
    using assms by (simp_all add: std_slab_def)
  then show "card (obj_bytes sl j) = 32 * (i + 1) + 8" by (simp add: obj_bytes_def)
  assume "j < unat (slab_count sl)"
  then have "(j + 1) * unat (obj_size sl) \<le> unat (slab_count sl) * unat (obj_size sl)" by (intro mult_le_mono1) simp
  then show "obj_bytes sl j \<subseteq> {..<unat (info_off sl)}" by (auto simp: obj_bytes_def z(2) mult.commute)
qed

lemma std_info_off:
  assumes "std_slab i sl"
  shows "unat (info_off sl) + 48 \<le> 4096" and "4096 < unat (info_off sl) + unat (obj_size sl) + 48"
proof -
  have "32 * (i + 2) * (4048 div (32 * (i + 2))) \<le> 4048" by (rule times_div_less_eq_dividend)
  moreover have "4048 < 32 * (i + 2) * (4048 div (32 * (i + 2))) + 32 * (i + 2)"
    using dividend_less_times_div [of "32 * (i + 2)" 4048] by simp
  ultimately show "unat (info_off sl) + 48 \<le> 4096" "4096 < unat (info_off sl) + unat (obj_size sl) + 48"
    using assms by (simp_all add: std_slab_def)
qed

lemma live_in_slab:
  assumes "slab_rep None S g k" and "p \<in> live_objs S g k"
  shows "snd p < per_page k (info_slab (infos k (fst p)))"
  using assms(2) page_in_slab(1) [OF assms(1)] by (force simp: live_objs_def)

lemma kmalloc_index:
  assumes "sz \<noteq> 0"
  defines "ix \<equiv> ROUNDUP sz SLAB_ALIGN div SLAB_ALIGN - 1"
  shows "ix < 32 \<longleftrightarrow> unat sz \<le> 1024" and "unat sz \<le> 1024 \<Longrightarrow> unat ix = (unat sz - 1) div 32"
proof -
  have pos: "0 < unat sz" using assms(1) by (simp add: unat_gt_0)
  have a32: "unat SLAB_ALIGN = 32" "0 < SLAB_ALIGN" by (simp_all add: SLAB_ALIGN_def)
  have small: "unat (ROUNDUP sz SLAB_ALIGN div SLAB_ALIGN) = Suc ((unat sz - 1) div 32)"
    if "unat sz + 32 \<le> 2 ^ 64"
  proof -
    have "(unat sz + 31) div 32 = Suc ((unat sz - 1) div 32)" using pos by (simp add: div_add_self2 [symmetric])
    moreover have "unat (ROUNDUP sz SLAB_ALIGN) = (unat sz + 31) div 32 * 32"
      using that a32 by (simp add: unat_ROUNDUP minus_mod_eq_div_mult)
    ultimately show ?thesis using a32 by (simp add: unat_div)
  qed
  have ix: "unat ix = (unat sz - 1) div 32" if "unat sz + 32 \<le> 2 ^ 64"
    using small [OF that] unfolding ix_def by (subst unat_minus_one) (auto simp: unat_eq_zero)
  then show "unat sz \<le> 1024 \<Longrightarrow> unat ix = (unat sz - 1) div 32" by simp
  show "ix < 32 \<longleftrightarrow> unat sz \<le> 1024"
  proof (cases "unat sz + 32 \<le> 2 ^ 64")
    case True
    have "(unat sz - 1) div 32 < 32 \<longleftrightarrow> unat sz \<le> 1024" using pos by auto
    then show ?thesis using ix [OF True] by (simp add: word_less_nat_alt)
  next
    case False
    let ?x = "sz + SLAB_ALIGN - 1"
    have x: "?x = sz + 31" by (simp add: SLAB_ALIGN_def)
    have "unat ?x = (unat sz + 31) mod 2 ^ 64" unfolding x unat_word_ariths by simp
    also have "\<dots> = (unat sz + 31 - 2 ^ 64) mod 2 ^ 64" using False by (intro le_mod_geq) simp
    also have "\<dots> = unat sz + 31 - 2 ^ 64" using unat_u64_less [of sz] by (intro mod_less) simp
    finally have "unat ?x < 32" using unat_u64_less [of sz] by simp
    then have "?x mod SLAB_ALIGN = ?x" using a32 by (simp add: word_unat_eq_iff unat_mod)
    then have "ROUNDUP sz SLAB_ALIGN = 0" by (simp add: ROUNDUP_def ROUNDDOWN_def)
    then have "ix = - 1" by (simp add: ix_def)
    moreover have "\<not> (- 1 :: u64) < 32" by simp
    moreover have "\<not> unat sz \<le> 1024" using False by simp
    ultimately show ?thesis by simp
  qed
qed

text \<open>An empty heap over the memory of one free block, and the same after \<^verbatim>\<open>kmem_init\<close>.\<close>

definition no_heap :: kmem where
  "no_heap = \<lparr>phys = one_block, slabs = (\<lambda>_. \<lparr>info_off = 0, obj_size = 0, slab_count = 0\<rparr>), nslabs = (\<lambda>_. 0),
     slinks = \<lparr>lnext = id, lprev = id\<rparr>, infos = (\<lambda>_. \<lparr>info_slab = SlabId 0 0, free_count = 0\<rparr>),
     obj_info = (\<lambda>_ _. 0), obj_data = (\<lambda>_ _ _. 0)\<rparr>"

lemma no_heap_rep: "slab_rep None {} g no_heap" "live_objs {} g no_heap = {}"
  using one_block_ok
  by (auto simp: slab_rep_def no_heap_def dlists_def family_def slab_pages_def live_objs_def split: snode.splits)

lemma boot_heap_cpu: "cpu (phys (snd (kmem_init 0 no_heap))) = 0" "free_frames (phys (snd (kmem_init 0 no_heap))) \<noteq> {}"
proof -
  have "phys (snd (kmem_init 0 no_heap)) = one_block"
    using setup_all_rep(3) [where n = 32 and c = 0 and S = "{}" and k = "no_heap\<lparr>nslabs := (nslabs no_heap)(0 := 32)\<rparr>"]
      no_heap_rep(1) by (simp add: kmem_init_def Let_def no_heap_def slab_rep_def)
  then show "cpu (phys (snd (kmem_init 0 no_heap))) = 0" "free_frames (phys (snd (kmem_init 0 no_heap))) \<noteq> {}"
    using one_block_free by (simp_all add: one_block_def)
qed

lemma kmem_init_rep:
  assumes "slab_rep None S g k" and "\<forall>i. SlabId c i \<notin> S"
  shows "fst (kmem_init c k) = 0 \<and> heap_ok c (snd (kmem_init c k)) (live_objs S g k)"
proof -
  let ?k = "k\<lparr>nslabs := (nslabs k)(c := 32)\<rparr>" and ?S = "S \<union> SlabId c ` {..<32}"
  define k' where "k' = snd (kmem_init c k)"
  have k': "k' = fold (\<lambda>i. slab_setup (SlabId c i) (of_nat (i + 1) * SLAB_ALIGN)) [0..<32] ?k"
    by (simp add: k'_def kmem_init_def Let_def)
  have r: "slab_rep None S g ?k" "live_objs S g ?k = live_objs S g k"
    using assms(1) by (simp_all add: slab_rep_def page_ok_def live_objs_def)
  note all = setup_all_rep [OF r(1) assms(2) order_refl, folded k', unfolded r(2)]
  have "\<forall>i<32. SlabId c i \<in> ?S" by auto
  moreover obtain g' where "slab_rep None ?S g' k'" "live_objs ?S g' k' = live_objs S g k" using all(1) by blast
  moreover have "nslabs k' c = 32" using all(4) by simp
  ultimately have "heap_ok c k' (live_objs S g k)"
    unfolding heap_ok_def using all(2) by blast
  then show ?thesis by (simp add: k'_def kmem_init_def Let_def)
qed

lemma boot_heap_ok: "heap_ok 0 (snd (kmem_init 0 no_heap)) {}"
  using kmem_init_rep [OF no_heap_rep(1) [of undefined], of 0] no_heap_rep(2) by simp

text \<open>
  C8: \<^verbatim>\<open>kmem_init\<close> brings the heap of a CPU into a consistent state with no object handed out, 32
  slabs, slab \<open>i\<close> serving objects of \<open>32 * (i + 1)\<close> bytes.
\<close>

theorem kmem_init_ok:
  assumes "slab_rep None S g k" and "\<forall>i. SlabId c i \<notin> S"
  shows "fst (kmem_init c k) = 0 \<and> heap_ok c (snd (kmem_init c k)) (live_objs S g k)"
  using assms by (rule kmem_init_rep)

theorem kmem_init_ok_witness: "heap_ok 0 (snd (kmem_init 0 no_heap)) {}"
  using kmem_init_ok [OF no_heap_rep(1) [of undefined], of 0] no_heap_rep(2) by simp

lemma kmalloc_rep:
  assumes "heap_ok c k live" and "cpu (phys k) = c"
  shows "if sz = 0 \<or> 1024 < unat sz then kmalloc sz k = Some (None, k)
    else (\<exists>k'. kmalloc sz k = Some (None, k') \<and> free_frames (phys k) = {} \<and> heap_ok c k' live) \<or>
      (\<exists>p k'. kmalloc sz k = Some (Some p, k') \<and> p \<notin> live \<and> heap_ok c k' (insert p live) \<and>
         unat sz \<le> card (obj_region k' p) \<and> obj_region k' p \<subseteq> {..<4096 - 48} \<and>
         (\<forall>q\<in>live. fst q = fst p \<longrightarrow> obj_region k' q \<inter> obj_region k' p = {}))"
proof -
  obtain S g where S: "\<forall>i<32. SlabId c i \<in> S" and r: "slab_rep None S g k" and l: "live_objs S g k = live"
    and n: "nslabs k c = 32" and std: "std_slabs c 32 k" using assms(1) by (auto simp: heap_ok_def)
  define i where "i = (unat sz - 1) div 32"
  show ?thesis
  proof (cases "sz = 0 \<or> 1024 < unat sz")
    case True
    then show ?thesis using kmalloc_index(1) [of sz] n assms(2)
      by (auto simp: kmalloc_def Let_def not_less)
  next
    case False
    then have i: "i < 32" and nz: "sz \<noteq> 0" and le: "unat sz \<le> 1024" by (auto simp: i_def)
    have ix: "ROUNDUP sz SLAB_ALIGN div SLAB_ALIGN - 1 < 32" "unat (ROUNDUP sz SLAB_ALIGN div SLAB_ALIGN - 1) = i"
      unfolding i_def using kmalloc_index [OF nz] le by blast+
    have run: "kmalloc sz k = slab_alloc (SlabId c i) k"
      using ix nz n assms(2) by (auto simp: kmalloc_def Let_def dest: leD)
    have st: "std_slab i (slabs k (SlabId c i))" using std i by (simp add: std_slabs_def)
    have keep: "heap_ok c k' L" if "slab_rep None S g' k'" "live_objs S g' k' = L" "slabs k' = slabs k" "nslabs k' = nslabs k"
      for g' k' L using that S n std unfolding heap_ok_def std_slabs_def by auto
    have s: "SlabId c i \<in> S" using S i by blast
    from slab_alloc_rep [OF r s] show ?thesis
    proof (elim disjE exE conjE)
      fix k' assume "slab_alloc (SlabId c i) k = Some (None, k')" "slab_rep None S g k'" "free_frames (phys k) = {}"
        "slabs k' = slabs k" "nslabs k' = nslabs k"
      moreover from this have "live_objs S g k' = live" using l by (simp add: live_objs_def)
      ultimately show ?thesis using keep run False by metis
    next
      fix p k' assume a: "slab_alloc (SlabId c i) k = Some (Some p, k')" "slab_alloc_post (SlabId c i) S g k p k'"
      then obtain g' where g': "slab_rep None S g' k'" "live_objs S g' k' = insert p live" "p \<notin> live"
        "slabs k' = slabs k" "nslabs k' = nslabs k" "info_slab (infos k' (fst p)) = SlabId c i"
        using l by (auto simp: slab_alloc_post_def)
      have reg: "obj_region k' p = obj_bytes (slabs k (SlabId c i)) (snd p)" using g'(4,6) by (simp add: obj_region_def)
      have "snd p < unat (slab_count (slabs k (SlabId c i)))" using live_in_slab [OF g'(1), of p] g'(2,4,6) by simp
      then have "obj_region k' p \<subseteq> {..<4096 - 48}"
        using obj_bytes_std(2) [OF st, of "snd p"] std_info_off(1) [OF st] unfolding reg by fastforce
      moreover have "unat sz \<le> card (obj_region k' p)" unfolding reg obj_bytes_std(1) [OF st] by (simp add: i_def)
      moreover have "obj_region k' q \<inter> obj_region k' p = {}" if "q \<in> live" "fst q = fst p" for q
      proof -
        have "snd q \<noteq> snd p" using that g'(3) by (metis prod_eqI)
        then show ?thesis using that(2) by (simp add: obj_region_def obj_bytes_disjoint)
      qed
      moreover have "heap_ok c k' (insert p live)" by (rule keep [OF g'(1,2,4,5)])
      ultimately show ?thesis using run a(1) g'(3) False by auto
    qed
  qed
qed

text \<open>
  C9: \<^verbatim>\<open>kmalloc\<close>.  A request of 0 bytes or of more than 1024 bytes returns \<^verbatim>\<open>NULL\<close> and changes
  nothing.  Any other request, 1024 bytes included, returns an object that was not handed out: its
  bytes are at least as many as requested, lie in its page before the footer and are disjoint from
  those of every other object handed out of that page, and the heap stays consistent.  It returns
  \<^verbatim>\<open>NULL\<close> only when no physical page is free.
\<close>

theorem kmalloc_spec:
  assumes "heap_ok c k live" and "cpu (phys k) = c"
  shows "if sz = 0 \<or> 1024 < unat sz then kmalloc sz k = Some (None, k)
    else (\<exists>k'. kmalloc sz k = Some (None, k') \<and> free_frames (phys k) = {} \<and> heap_ok c k' live) \<or>
      (\<exists>p k'. kmalloc sz k = Some (Some p, k') \<and> p \<notin> live \<and> heap_ok c k' (insert p live) \<and>
         unat sz \<le> card (obj_region k' p) \<and> obj_region k' p \<subseteq> {..<4096 - 48} \<and>
         (\<forall>q\<in>live. fst q = fst p \<longrightarrow> obj_region k' q \<inter> obj_region k' p = {}))"
  using assms by (rule kmalloc_rep)

theorem kmalloc_spec_witness:
  "\<exists>p k. kmalloc 100 (snd (kmem_init 0 no_heap)) = Some (Some p, k) \<and> heap_ok 0 k {p} \<and> 100 \<le> card (obj_region k p)"
  using kmalloc_spec [OF boot_heap_ok boot_heap_cpu(1), of 100] boot_heap_cpu(2) by auto

text \<open>
  C10: \<^verbatim>\<open>kfree\<close> of an object that was handed out returns, takes exactly that object out of the set
  of objects handed out, keeps the heap consistent, and does not touch the data of other
  objects.
\<close>

theorem kfree_spec:
  assumes "heap_ok c k live" and "p \<in> live"
  shows "\<exists>k'. kfree (Some p) k = Some k' \<and> heap_ok c k' (live - {p}) \<and>
    (\<forall>q j. (q, j) \<noteq> p \<longrightarrow> obj_data k' q j = obj_data k q j)"
proof -
  obtain S g where S: "\<forall>i<32. SlabId c i \<in> S" and r: "slab_rep None S g k" and l: "live_objs S g k = live"
    and n: "nslabs k c = 32" and std: "std_slabs c 32 k" using assms(1) by (auto simp: heap_ok_def)
  obtain pg i where p: "p = (pg, i)" by fastforce
  obtain k' where k': "slab_free p k = Some k'" "slab_free_post S g k p k'"
    using slab_free_rep [OF r] assms(2) l p by blast
  obtain g' where g': "slab_rep None S g' k'" "live_objs S g' k' = live - {p}"
    and f: "slabs k' = slabs k" "nslabs k' = nslabs k" "\<forall>q j. (q, j) \<noteq> p \<longrightarrow> obj_data k' q j = obj_data k q j"
    using k'(2) l unfolding slab_free_post_def by blast
  have "heap_ok c k' (live - {p})" unfolding heap_ok_def std_slabs_def using S n std g' f(1,2)
    by (auto simp: std_slabs_def)
  then show ?thesis using k'(1) f(3) by (simp add: kfree_def)
qed

theorem kfree_spec_witness:
  "\<exists>p k k'. kmalloc 100 (snd (kmem_init 0 no_heap)) = Some (Some p, k) \<and> kfree (Some p) k = Some k' \<and> heap_ok 0 k' {}"
proof -
  obtain p k where a: "kmalloc 100 (snd (kmem_init 0 no_heap)) = Some (Some p, k)" "heap_ok 0 k {p}"
    using kmalloc_rep [OF boot_heap_ok boot_heap_cpu(1), of 100] boot_heap_cpu(2) by auto
  from kfree_spec [OF a(2), of p] a(1) show ?thesis by auto
qed

lemma kmem_init_slab:
  assumes "i < 32"
  shows "std_slab i (slabs (snd (kmem_init c k)) (SlabId c i))"
proof -
  have "\<forall>i<n. std_slab i (slabs (fold (\<lambda>i. slab_setup (SlabId c i) (of_nat (i + 1) * SLAB_ALIGN)) [0..<n] k) (SlabId c i))"
    if "n \<le> 32" for n k using that
  proof (induction n)
    case (Suc n)
    let ?k = "fold (\<lambda>i. slab_setup (SlabId c i) (of_nat (i + 1) * SLAB_ALIGN)) [0..<n] k"
    have "std_slab n (slabs (slab_setup (SlabId c n) (of_nat (n + 1) * SLAB_ALIGN) ?k) (SlabId c n))"
      unfolding std_slab_def using setup_size [of n] Suc.prems by simp
    moreover have "slabs (slab_setup (SlabId c n) z ?k) (SlabId c i) = slabs ?k (SlabId c i)" if "i < n" for i z
      using that by (simp add: slab_setup_def Let_def upd_slinks_def)
    ultimately show ?case using Suc by (auto simp: less_Suc_eq)
  qed simp
  from this [of 32] assms show ?thesis by (simp add: kmem_init_def Let_def)
qed

text \<open>
  C11: the layout of a slab page that \<^verbatim>\<open>kmem_init\<close>, through \<^verbatim>\<open>slab_setup\<close>, gives slab \<open>i\<close> of a CPU, whatever the heap was
  before.  A page has room for at least one object; its objects do not overlap, each has at least \<open>32 * (i + 1)\<close> bytes after
  its header, all of them end before the footer, the footer fits in the page, and one more object would not fit.
\<close>

theorem slab_layout:
  assumes "i < 32"
  shows "let sl = slabs (snd (kmem_init c k)) (SlabId c i) in 0 < slab_count sl \<and>
    (\<forall>a b. a \<noteq> b \<longrightarrow> obj_bytes sl a \<inter> obj_bytes sl b = {}) \<and>
    (\<forall>a < unat (slab_count sl). 32 * (i + 1) \<le> card (obj_bytes sl a) \<and> obj_bytes sl a \<subseteq> {..<unat (info_off sl)}) \<and>
    unat (info_off sl) + unat SIZEOF_SLAB_INFO \<le> unat PAGE_SIZE \<and>
    unat PAGE_SIZE < unat (info_off sl) + unat (obj_size sl) + unat SIZEOF_SLAB_INFO"
proof -
  let ?sl = "slabs (snd (kmem_init c k)) (SlabId c i)"
  have std: "std_slab i ?sl" using assms by (rule kmem_init_slab)
  have "0 < slab_count ?sl" using std_slab_count [OF assms std] by (simp add: unat_gt_0 word_gt_0)
  then show ?thesis
    unfolding Let_def using obj_bytes_disjoint [of _ _ ?sl] obj_bytes_std [OF std] std_info_off [OF std]
    by (simp add: SIZEOF_SLAB_INFO_def PAGE_SIZE_def)
qed

theorem slab_layout_witness:
  "unat (info_off (slabs (snd (kmem_init 0 no_heap)) (SlabId 0 31))) + unat SIZEOF_SLAB_INFO \<le> unat PAGE_SIZE"
  using slab_layout [of 31 0 no_heap] by (simp add: Let_def)

end
