(* ===== verification/RB_Tree.thy ===== *)
theory RB_Tree
  imports Prelude
begin

text \<open>
  The red-black trees of \<^verbatim>\<open>include/rbtree.h\<close> and \<^verbatim>\<open>lib/rbtree.c\<close>.  The nodes are embedded in other
  structures and carry no key; a tree is a root pointer and the three fields of its nodes, which
  are identified by elements of a type \<open>'n\<close>.  A null pointer is \<open>None\<close>; following one has no
  defined result.  The loops follow the pointers and are \<open>partial_function\<close>s: on a
  structure with a cycle they do not return.
\<close>

section \<open>Nodes\<close>

datatype rb_dir = RB_LEFT | RB_RIGHT
datatype rb_color = RB_BLACK | RB_RED

fun flip :: "rb_dir \<Rightarrow> rb_dir" where
  "flip RB_LEFT = RB_RIGHT"
| "flip RB_RIGHT = RB_LEFT"

record 'n rb =
  parent :: "'n \<Rightarrow> 'n option"
  child :: "'n \<Rightarrow> rb_dir \<Rightarrow> 'n option"
  color :: "'n \<Rightarrow> rb_color"
  root :: "'n option"

definition set_parent :: "'n \<Rightarrow> 'n option \<Rightarrow> 'n rb \<Rightarrow> 'n rb" where
  "set_parent n p h = h\<lparr>parent := (parent h)(n := p)\<rparr>"

definition set_child :: "'n \<Rightarrow> rb_dir \<Rightarrow> 'n option \<Rightarrow> 'n rb \<Rightarrow> 'n rb" where
  "set_child n d c h = h\<lparr>child := (child h)(n := (child h n)(d := c))\<rparr>"

definition set_color :: "'n \<Rightarrow> rb_color \<Rightarrow> 'n rb \<Rightarrow> 'n rb" where
  "set_color n c h = h\<lparr>color := (color h)(n := c)\<rparr>"

text \<open>A comparison used as an index: \<^verbatim>\<open>false\<close> is \<^verbatim>\<open>RB_LEFT\<close>, \<^verbatim>\<open>true\<close> is \<^verbatim>\<open>RB_RIGHT\<close>.\<close>

definition dir_of :: "bool \<Rightarrow> rb_dir" where
  "dir_of b = (if b then RB_RIGHT else RB_LEFT)"

definition rb_init :: "'n rb \<Rightarrow> 'n rb" where
  "rb_init h = h\<lparr>root := None\<rparr>"

definition rb_node_init :: "'n \<Rightarrow> 'n rb \<Rightarrow> 'n rb" where
  "rb_node_init n h =
     set_color n RB_BLACK (set_child n RB_RIGHT None (set_child n RB_LEFT None (set_parent n None h)))"

section \<open>Rotation and traversal\<close>

definition rotate_node :: "'n \<Rightarrow> rb_dir \<Rightarrow> 'n rb \<Rightarrow> 'n rb option" where
  "rotate_node node dir h =
     (let par = parent h node
      in do { c \<leftarrow> child h node (flip dir);
              let h = set_child node (flip dir) (child h c dir) h;
              let h = (case child h c dir of Some g \<Rightarrow> set_parent g (Some node) h | None \<Rightarrow> h);
              let h = set_child c dir (Some node) h;
              let h = set_parent c par h;
              let h = (case par of
                         Some p \<Rightarrow> set_child p (dir_of (child h p RB_RIGHT = Some node)) (Some c) h
                       | None \<Rightarrow> h\<lparr>root := Some c\<rparr>);
              Some (set_parent node (Some c) h) })"

partial_function (option) outermost_loop :: "'n rb \<Rightarrow> 'n \<Rightarrow> rb_dir \<Rightarrow> 'n option" where
  "outermost_loop h node dir =
     (case child h node dir of None \<Rightarrow> Some node | Some c \<Rightarrow> outermost_loop h c dir)"

text \<open>The outer \<open>option\<close> is termination, the inner one the returned pointer.\<close>

definition get_outermost :: "'n rb \<Rightarrow> 'n option \<Rightarrow> rb_dir \<Rightarrow> 'n option option" where
  "get_outermost h node dir =
     (case node of None \<Rightarrow> Some None | Some n \<Rightarrow> map_option Some (outermost_loop h n dir))"

partial_function (option) closest_loop :: "'n rb \<Rightarrow> 'n \<Rightarrow> rb_dir \<Rightarrow> 'n option option" where
  "closest_loop h node dir =
     (case parent h node of
        None \<Rightarrow> Some None
      | Some p \<Rightarrow> if child h p dir = Some node then closest_loop h p dir else Some (Some p))"

definition get_closest :: "'n rb \<Rightarrow> 'n option \<Rightarrow> rb_dir \<Rightarrow> 'n option option" where
  "get_closest h node dir =
     (case node of
        None \<Rightarrow> Some None
      | Some n \<Rightarrow>
          (case child h n dir of
             Some c \<Rightarrow> get_outermost h (Some c) (flip dir)
           | None \<Rightarrow> closest_loop h n dir))"

definition rb_first :: "'n rb \<Rightarrow> 'n option option" where
  "rb_first h = get_outermost h (root h) RB_LEFT"

definition rb_last :: "'n rb \<Rightarrow> 'n option option" where
  "rb_last h = get_outermost h (root h) RB_RIGHT"

definition rb_next :: "'n rb \<Rightarrow> 'n option \<Rightarrow> 'n option option" where
  "rb_next h node = get_closest h node RB_RIGHT"

definition rb_prev :: "'n rb \<Rightarrow> 'n option \<Rightarrow> 'n option option" where
  "rb_prev h node = get_closest h node RB_LEFT"

section \<open>Balancing after an insertion\<close>

partial_function (option) balance_loop :: "'n rb \<Rightarrow> 'n \<Rightarrow> 'n rb option" where
  "balance_loop h node =
     (case parent h node of
        None \<Rightarrow> Some h
      | Some par \<Rightarrow>
          if color h par \<noteq> RB_RED then Some h
          else do {
            grandparent \<leftarrow> parent h par;
            let dir = dir_of (child h grandparent RB_LEFT = Some par);
            let unc = child h grandparent dir;
            if (case unc of Some u \<Rightarrow> color h u = RB_RED | None \<Rightarrow> False) then
              balance_loop
                (set_color grandparent RB_RED (set_color (the unc) RB_BLACK (set_color par RB_BLACK h))) grandparent
            else do {
              (h, node, par) \<leftarrow>
                 (if child h par dir = Some node
                  then do { h \<leftarrow> rotate_node par (flip dir) h; p \<leftarrow> parent h par; Some (h, par, p) }
                  else Some (h, node, par));
              let h = set_color grandparent RB_RED (set_color par RB_BLACK h);
              h \<leftarrow> rotate_node grandparent dir h;
              balance_loop h node } })"

definition rb_balance :: "'n option \<Rightarrow> 'n rb \<Rightarrow> (int \<times> 'n rb) option" where
  "rb_balance node h =
     (case node of
        None \<Rightarrow> Some (-1, h)
      | Some n \<Rightarrow>
          do { h \<leftarrow> balance_loop (set_color n RB_RED h) n;
               r \<leftarrow> root h;
               Some (0, set_color r RB_BLACK h) })"

section \<open>Removal and replacement\<close>

text \<open>Puts the subtree \<open>c\<close> in the place of \<open>node\<close> below its former parent \<open>par\<close>.\<close>

definition link_below :: "'n option \<Rightarrow> 'n \<Rightarrow> 'n option \<Rightarrow> 'n rb \<Rightarrow> 'n rb" where
  "link_below par node c h =
     (case par of
        Some p \<Rightarrow> set_child p (dir_of (child h p RB_RIGHT = Some node)) c h
      | None \<Rightarrow> h\<lparr>root := c\<rparr>)"

definition adopt :: "'n option \<Rightarrow> 'n option \<Rightarrow> 'n rb \<Rightarrow> 'n rb" where
  "adopt par c h = (case c of Some x \<Rightarrow> set_parent x par h | None \<Rightarrow> h)"

partial_function (option) do_remove :: "'n rb \<Rightarrow> 'n \<Rightarrow> 'n rb option" where
  "do_remove h node =
     (let par = parent h node
      in do { (h, c) \<leftarrow>
                (if child h node RB_LEFT \<noteq> None \<and> child h node RB_RIGHT \<noteq> None then
                   do { l \<leftarrow> child h node RB_LEFT;
                        ch \<leftarrow> outermost_loop h l RB_RIGHT;
                        h \<leftarrow> do_remove h ch;
                        let h = set_child ch RB_LEFT (child h node RB_LEFT) h;
                        let h = adopt (Some ch) (child h node RB_LEFT) h;
                        let h = set_child ch RB_RIGHT (child h node RB_RIGHT) h;
                        let h = adopt (Some ch) (child h node RB_RIGHT) h;
                        Some (h, Some ch) }
                 else Some (h, child h node (dir_of (child h node RB_LEFT = None))));
              let h = link_below par node c h;
              let h = adopt par c h;
              Some (rb_node_init node h) })"

definition black_or_null :: "'n rb \<Rightarrow> 'n option \<Rightarrow> bool" where
  "black_or_null h n \<longleftrightarrow> (case n of None \<Rightarrow> True | Some x \<Rightarrow> color h x = RB_BLACK)"

text \<open>The loop of \<^verbatim>\<open>rb_remove\<close> with the last assignment; \<open>Inl\<close> is a \<^verbatim>\<open>break\<close>.\<close>

partial_function (option) remove_loop :: "'n rb \<Rightarrow> 'n \<Rightarrow> 'n rb option" where
  "remove_loop h node =
     (case parent h node of
        None \<Rightarrow> Some (set_color node RB_BLACK h)
      | Some par \<Rightarrow>
          (let dir = dir_of (child h par RB_LEFT = Some node)
           in case child h par dir of
                None \<Rightarrow> Some (set_color node RB_BLACK h)
              | Some sibling \<Rightarrow>
                  do { (h, sibling) \<leftarrow>
                         (if color h sibling = RB_RED then
                            do { let h = set_color sibling RB_BLACK (set_color par RB_RED h);
                                 h \<leftarrow> rotate_node par (flip dir) h;
                                 p \<leftarrow> parent h node;
                                 s \<leftarrow> child h p dir;
                                 Some (h, s) }
                          else Some (h, sibling));
                       if black_or_null h (child h sibling (flip dir)) \<and> black_or_null h (child h sibling dir) then
                         do { let h = set_color sibling RB_RED h; p \<leftarrow> parent h node; remove_loop h p }
                       else
                         do { r \<leftarrow>
                                (if black_or_null h (child h sibling dir) then
                                   do { let h = set_color sibling RB_RED h;
                                        let h = (case child h sibling (flip dir) of
                                                   Some x \<Rightarrow> set_color x RB_BLACK h | None \<Rightarrow> h);
                                        p \<leftarrow> parent h node;
                                        h \<leftarrow> rotate_node p dir h;
                                        (case parent h node of
                                           None \<Rightarrow> Some (Inl h)
                                         | Some p \<Rightarrow> (case child h p dir of
                                             None \<Rightarrow> Some (Inl h) | Some s \<Rightarrow> Some (Inr (h, s)))) }
                                 else Some (Inr (h, sibling)));
                              (case r of
                                 Inl h \<Rightarrow> Some (set_color node RB_BLACK h)
                               | Inr (h, sibling) \<Rightarrow>
                                   do { p \<leftarrow> parent h node;
                                        let h = set_color sibling (color h p) h;
                                        let h = set_color p RB_BLACK h;
                                        x \<leftarrow> child h sibling dir;
                                        let h = set_color x RB_BLACK h;
                                        h \<leftarrow> rotate_node p (flip dir) h;
                                        n \<leftarrow> root h;
                                        remove_loop h n }) } }))"

definition rb_remove :: "'n option \<Rightarrow> 'n rb \<Rightarrow> (int \<times> 'n rb) option" where
  "rb_remove node h =
     (case node of
        None \<Rightarrow> Some (-1, h)
      | Some n \<Rightarrow>
          (let child_dir = dir_of (child h n RB_LEFT = None);
               c = child h n child_dir;
               other = child h n (flip child_dir)
           in do { h \<leftarrow> do_remove h n;
                   if c = None \<and> other = None then Some (0, h)
                   else if color h n = RB_RED then Some (0, h)
                   else do { m \<leftarrow> c;
                             if color h m = RB_RED then Some (0, set_color m RB_BLACK h)
                             else do { h \<leftarrow> remove_loop h m; Some (0, h) } } }))"

definition rb_replace :: "'n option \<Rightarrow> 'n option \<Rightarrow> 'n rb \<Rightarrow> (int \<times> 'n rb) option" where
  "rb_replace node new_node h =
     (case (node, new_node) of
        (Some n, Some m) \<Rightarrow>
          (let h = link_below (parent h n) n (Some m) h;
               h = adopt (Some m) (child h n RB_LEFT) h;
               h = adopt (Some m) (child h n RB_RIGHT) h
           in Some (0, h\<lparr>parent := (parent h)(m := parent h n), child := (child h)(m := child h n),
                         color := (color h)(m := color h n)\<rparr>))
      | _ \<Rightarrow> Some (-1, h))"

text \<open>The loops are executable through their equations.\<close>

declare outermost_loop.simps [code] closest_loop.simps [code] balance_loop.simps [code] do_remove.simps [code]
  remove_loop.simps [code]

end
