(* ===== verification/RB_Tree_Inv.thy ===== *)
theory RB_Tree_Inv
  imports RB_Tree
begin

text \<open>
  Red-black trees as values, and what the pointer operations of \<^verbatim>\<open>lib/rbtree.c\<close> do to them.  A
  position in a tree is a zipper: the subtree there and the list of its ancestors, each with its
  other subtree.  The operations are specified at a position and the list of the nodes in order
  (\<open>inorder\<close>) is what the callers rely on.
\<close>

section \<open>Trees, positions and their representation\<close>

datatype 'n rtree = Tip | Br rb_color "'n rtree" 'n "'n rtree"

type_synonym 'n ctx = "(rb_dir \<times> rb_color \<times> 'n \<times> 'n rtree) list"

named_theorems rbt \<open>the structure of trees and positions\<close>

fun inorder :: "'n rtree \<Rightarrow> 'n list" where
  "inorder Tip = []"
| "inorder (Br c l n r) = inorder l @ n # inorder r"

fun top_node :: "'n rtree \<Rightarrow> 'n option" where
  "top_node Tip = None"
| "top_node (Br c l n r) = Some n"

text \<open>A node with the subtree \<open>a\<close> on the side \<open>d\<close> and \<open>b\<close> on the other one.\<close>

definition br :: "rb_dir \<Rightarrow> rb_color \<Rightarrow> 'n rtree \<Rightarrow> 'n \<Rightarrow> 'n rtree \<Rightarrow> 'n rtree" where
  "br d c a n b = (case d of RB_LEFT \<Rightarrow> Br c a n b | RB_RIGHT \<Rightarrow> Br c b n a)"

fun fill :: "'n ctx \<Rightarrow> 'n rtree \<Rightarrow> 'n rtree" where
  "fill [] t = t"
| "fill ((d, c, n, s) # k) t = fill k (br d c t n s)"

fun up_node :: "'n ctx \<Rightarrow> 'n option" where
  "up_node [] = None"
| "up_node ((d, c, n, s) # k) = Some n"

fun rep :: "'n rb \<Rightarrow> 'n option \<Rightarrow> 'n option \<Rightarrow> 'n rtree \<Rightarrow> bool" where
  "rep h p x Tip \<longleftrightarrow> x = None"
| "rep h p x (Br c l n r) \<longleftrightarrow> x = Some n \<and> parent h n = p \<and> color h n = c
     \<and> rep h (Some n) (child h n RB_LEFT) l \<and> rep h (Some n) (child h n RB_RIGHT) r"

fun rep_ctx :: "'n rb \<Rightarrow> 'n option \<Rightarrow> 'n ctx \<Rightarrow> bool" where
  "rep_ctx h x [] \<longleftrightarrow> root h = x"
| "rep_ctx h x ((d, c, n, s) # k) \<longleftrightarrow> child h n d = x \<and> color h n = c \<and> parent h n = up_node k
     \<and> rep h (Some n) (child h n (flip d)) s \<and> rep_ctx h (Some n) k"

definition rb_tree :: "'n rb \<Rightarrow> 'n rtree \<Rightarrow> bool" where
  "rb_tree h t \<longleftrightarrow> rep h None (root h) t \<and> distinct (inorder t)"

text \<open>The nodes before and after a position.\<close>

fun pre :: "'n ctx \<Rightarrow> 'n list" where
  "pre [] = []"
| "pre ((d, c, n, s) # k) = pre k @ (case d of RB_LEFT \<Rightarrow> [] | RB_RIGHT \<Rightarrow> inorder s @ [n])"

fun post :: "'n ctx \<Rightarrow> 'n list" where
  "post [] = []"
| "post ((d, c, n, s) # k) = (case d of RB_LEFT \<Rightarrow> n # inorder s | RB_RIGHT \<Rightarrow> []) @ post k"

definition ctx_nodes :: "'n ctx \<Rightarrow> 'n set" where
  "ctx_nodes k = set (pre k) \<union> set (post k)"

lemma inorder_fill [rbt]: "inorder (fill k t) = pre k @ inorder t @ post k"
  by (induction k t rule: fill.induct) (auto simp: br_def split: rb_dir.split)

lemma inorder_br: "set (inorder (br d c a n b)) = insert n (set (inorder a) \<union> set (inorder b))"
  by (auto simp: br_def split: rb_dir.split)

lemma ctx_nodes_simps [rbt]:
  "ctx_nodes [] = {}"
  "ctx_nodes ((d, c, n, s) # k) = insert n (set (inorder s) \<union> ctx_nodes k)"
  by (simp add: ctx_nodes_def, cases d) (auto simp: ctx_nodes_def)

lemma flip_simps [simp]: "flip (flip d) = d" "flip d \<noteq> d" "d \<noteq> flip d"
  by (cases d; simp)+

lemma rep_br [rbt]:
  "rep h p x (br d c a n b) \<longleftrightarrow> x = Some n \<and> parent h n = p \<and> color h n = c
     \<and> rep h (Some n) (child h n d) a \<and> rep h (Some n) (child h n (flip d)) b"
  by (auto simp: br_def split: rb_dir.split)

lemma top_br [rbt]: "top_node (br d c a n b) = Some n"
  by (simp add: br_def split: rb_dir.split)

lemma rep_top: "rep h p x t \<Longrightarrow> x = top_node t"
  by (cases t) auto

lemma top_in: "top_node t = Some n \<Longrightarrow> n \<in> set (inorder t)"
  by (cases t) auto

text \<open>A position: the subtree and its surroundings are represented and no node occurs twice.\<close>

definition focus :: "'n rb \<Rightarrow> 'n ctx \<Rightarrow> 'n rtree \<Rightarrow> bool" where
  "focus h k t \<longleftrightarrow> rep_ctx h (top_node t) k \<and> rep h (up_node k) (top_node t) t \<and> distinct (inorder (fill k t))"

lemma rep_fill:
  "rep h None (root h) (fill k t) \<longleftrightarrow> rep_ctx h (top_node t) k \<and> rep h (up_node k) (top_node t) t"
proof (induction k arbitrary: t)
  case Nil
  show ?case
    using rep_top [of h None "root h" t] by auto
next
  case (Cons e k)
  obtain d c n s where e: "e = (d, c, n, s)"
    by (cases e)
  show ?case
    unfolding e using rep_top [of h "Some n" "child h n d" t] by (auto simp: Cons.IH rbt)
qed

lemma rb_tree_focus: "rb_tree h (fill k t) \<longleftrightarrow> focus h k t"
  by (auto simp: rb_tree_def focus_def rep_fill)

lemma focus_up: "focus h ((d, c, n, s) # k) t \<longleftrightarrow> focus h k (br d c t n s)"
  by (simp flip: rb_tree_focus)

lemma fill_append: "fill (k @ k') t = fill k' (fill k t)"
  by (induction k t rule: fill.induct) auto

text \<open>Every node of a tree has a position.\<close>

lemma has_position:
  assumes "n \<in> set (inorder t)"
  shows "\<exists>k c l r. t = fill k (Br c l n r)"
  using assms
proof (induction t)
  case (Br c l m r)
  have sub: "\<exists>k c l r. Br c0 l0 m0 r0 = fill k (Br c l n r)"
    if "s = l0 \<and> d = RB_LEFT \<or> s = r0 \<and> d = RB_RIGHT" and s: "\<exists>k c l r. s = fill k (Br c l n r)"
    for s d c0 l0 m0 r0
  proof -
    obtain k c l r where k: "s = fill k (Br c l n r)"
      using s by blast
    have "Br c0 l0 m0 r0 = fill (k @ [(d, c0, m0, if d = RB_LEFT then r0 else l0)]) (Br c l n r)"
      using that(1) k by (auto simp: fill_append br_def)
    then show ?thesis by blast
  qed
  consider "n = m" | "n \<in> set (inorder l)" | "n \<in> set (inorder r)"
    using Br.prems by auto
  then show ?case
  proof cases
    case 1
    then have "Br c l m r = fill [] (Br c l n r)" by simp
    then show ?thesis by blast
  next
    case 2
    show ?thesis by (rule sub [where d = RB_LEFT, OF _ Br.IH(1) [OF 2]]) simp
  next
    case 3
    show ?thesis by (rule sub [where d = RB_RIGHT, OF _ Br.IH(2) [OF 3]]) simp
  qed
qed simp

lemma distinct_split_eq:
  assumes "distinct (as @ n # bs)" "as @ n # bs = xs @ n # ys"
  shows "as = xs \<and> bs = ys"
  using assms by (auto simp: append_eq_append_conv2 Cons_eq_append_conv append_eq_Cons_conv)

lemma position_split:
  assumes "rb_tree h t" "inorder t = xs @ n # ys"
  obtains k c l r where "t = fill k (Br c l n r)" "focus h k (Br c l n r)"
    "xs = pre k @ inorder l" "ys = inorder r @ post k"
proof -
  obtain k c l r where t: "t = fill k (Br c l n r)"
    using assms(2) has_position [of n t] by auto
  have "(pre k @ inorder l) @ n # inorder r @ post k = xs @ n # ys"
    using assms(2) by (simp add: t rbt)
  moreover have "distinct ((pre k @ inorder l) @ n # inorder r @ post k)"
    using assms(1) by (simp add: rb_tree_def t rbt)
  ultimately have "pre k @ inorder l = xs \<and> inorder r @ post k = ys"
    by (intro distinct_split_eq)
  then show thesis
    using that t assms(1) by (simp add: rb_tree_focus)
qed

section \<open>Locality\<close>

lemma set_simps [simp]:
  "parent (set_parent n p h) = (parent h)(n := p)" "child (set_parent n p h) = child h"
  "color (set_parent n p h) = color h" "root (set_parent n p h) = root h"
  "parent (set_child n d c h) = parent h" "child (set_child n d c h) = (child h)(n := (child h n)(d := c))"
  "color (set_child n d c h) = color h" "root (set_child n d c h) = root h"
  "parent (set_color n q h) = parent h" "child (set_color n q h) = child h"
  "color (set_color n q h) = (color h)(n := q)" "root (set_color n q h) = root h"
  by (simp_all add: set_parent_def set_child_def set_color_def)

lemma adopt_simps [simp]:
  "parent (adopt p x h) = (\<lambda>n. if x = Some n then p else parent h n)"
  "child (adopt p x h) = child h" "color (adopt p x h) = color h" "root (adopt p x h) = root h"
  by (auto simp: adopt_def split: option.split)

lemma link_simps [simp]:
  "parent (link_below p n x h) = parent h" "color (link_below p n x h) = color h"
  "p \<noteq> Some m \<Longrightarrow> child (link_below p n x h) m = child h m"
  by (auto simp: link_below_def split: option.split)

definition agree :: "'n rb \<Rightarrow> 'n rb \<Rightarrow> 'n set \<Rightarrow> bool" where
  "agree h h' S \<longleftrightarrow> (\<forall>n\<in>S. parent h' n = parent h n \<and> child h' n = child h n \<and> color h' n = color h n)"

lemma rep_agree: "agree h h' (set (inorder t)) \<Longrightarrow> rep h' p x t \<longleftrightarrow> rep h p x t"
  by (induction t arbitrary: p x) (auto simp: agree_def)

lemma rep_ctx_agree:
  "agree h h' (ctx_nodes k) \<Longrightarrow> root h' = root h \<Longrightarrow> rep_ctx h' x k \<longleftrightarrow> rep_ctx h x k"
proof (induction k arbitrary: x)
  case (Cons e k)
  obtain d c n s where e: "e = (d, c, n, s)"
    by (cases e)
  have "agree h h' (ctx_nodes k)" "agree h h' (set (inorder s))"
       "parent h' n = parent h n \<and> child h' n = child h n \<and> color h' n = color h n"
    using Cons.prems by (auto simp: agree_def e rbt)
  then show ?case
    using Cons rep_agree [of h h' s] by (simp add: e)
qed simp

lemma rep_adopt:
  assumes "rep h p x t" "distinct (inorder t)"
  shows "rep (adopt q x h) q x t"
proof (cases t)
  case (Br c l n r)
  have "agree h (adopt q x h) (set (inorder l))" "agree h (adopt q x h) (set (inorder r))"
    using assms Br by (auto simp: agree_def)
  then show ?thesis
    using assms Br by (simp add: rep_agree)
qed (use assms in simp)

text \<open>Replacing the subtree at a position changes one link above it.\<close>

lemma link_ctx:
  assumes "rep_ctx h (Some n) k" "distinct (pre k @ post k)" "n \<notin> ctx_nodes k"
  shows "rep_ctx (link_below (up_node k) n x h) x k"
proof (cases k)
  case Nil
  then show ?thesis by (simp add: link_below_def)
next
  case (Cons e k')
  obtain d c p s where e: "e = (d, c, p, s)"
    by (cases e)
  let ?h = "link_below (Some p) n x h"
  have p: "p \<notin> set (inorder s)" "p \<notin> ctx_nodes k'"
    using assms(2) by (cases d; auto simp: Cons e ctx_nodes_def)+
  have s: "rep h (Some p) (child h p (flip d)) s" and n: "child h p d = Some n"
    using assms(1) by (auto simp: Cons e)
  have "n \<notin> set (inorder s)"
    using assms(3) by (auto simp: Cons e rbt)
  then have "top_node s \<noteq> Some n"
    using top_in by fast
  then have "child h p (flip d) \<noteq> Some n"
    using rep_top [OF s] by simp
  then have ch: "child ?h p d = x" "child ?h p (flip d) = child h p (flip d)"
    using n by (cases d; simp add: link_below_def dir_of_def)+
  have "agree h ?h (set (inorder s))" "agree h ?h (ctx_nodes k')" "root ?h = root h"
    using p by (auto simp: agree_def link_below_def)
  then show ?thesis
    using assms(1) ch by (simp add: Cons e rep_agree rep_ctx_agree)
qed

lemma link_agree:
  assumes "agree h h' S" "root h' = root h" "set_option p \<subseteq> S"
  shows "agree (link_below p n x h) (link_below p n x h') S"
        "root (link_below p n x h') = root (link_below p n x h)"
  using assms by (auto simp: agree_def link_below_def split: option.split)

lemma up_node_in: "set_option (up_node k) \<subseteq> ctx_nodes k"
  by (cases k rule: up_node.cases) (simp_all add: rbt)

lemma focus_replace:
  assumes "focus h k t" "top_node t = Some n"
      and "agree (link_below (up_node k) n (top_node t') h) h' (ctx_nodes k)"
      and "root h' = root (link_below (up_node k) n (top_node t') h)"
      and "rep h' (up_node k) (top_node t') t'" "distinct (inorder t')" "set (inorder t') \<inter> ctx_nodes k = {}"
  shows "focus h' k t'"
proof -
  have "rep_ctx h (Some n) k" "distinct (pre k @ post k)" "n \<notin> ctx_nodes k"
    using assms(1,2) top_in [OF assms(2)] by (auto simp: focus_def rbt ctx_nodes_def)
  from link_ctx [OF this, of "top_node t'"] have "rep_ctx h' (top_node t') k"
    using assms(3,4) by (simp add: rep_ctx_agree)
  moreover have "distinct (inorder (fill k t'))"
    using assms(1,6,7) by (auto simp: focus_def rbt ctx_nodes_def)
  ultimately show ?thesis
    using assms(5) by (simp add: focus_def)
qed

section \<open>Rotation and traversal of trees\<close>

lemma rotate_inorder: "inorder (br d c' (br d c a n b) m e) = inorder (br d c1 a n (br d c2 b m e))"
  by (cases d) (simp_all add: br_def)

lemma rotate_node_link:
  assumes "child h n (flip d) = Some m" "m \<noteq> n"
  shows "rotate_node n d h =
    Some (set_parent n (Some m) (link_below (parent h n) n (Some m) (set_parent m (parent h n)
      (set_child m d (Some n) (adopt (Some n) (child h m d) (set_child n (flip d) (child h m d) h))))))"
  using assms by (simp add: rotate_node_def link_below_def adopt_def Let_def split: option.split)

lemma rotate_focus:
  assumes "focus h k (br d c a n (br d c' b m e))"
  obtains h' where "rotate_node n d h = Some h'" "focus h' k (br d c' (br d c a n b) m e)"
proof -
  let ?h0 = "set_child m d (Some n) (adopt (Some n) (child h m d) (set_child n (flip d) (child h m d) h))"
  let ?h1 = "set_parent m (up_node k) ?h0"
  let ?h = "set_parent n (Some m) (link_below (up_node k) n (Some m) ?h1)"
  have f: "parent h n = up_node k" "color h n = c" "color h m = c'" "child h n (flip d) = Some m"
    "rep h (Some n) (child h n d) a" "rep h (Some m) (child h m d) b" "rep h (Some m) (child h m (flip d)) e"
    using assms by (auto simp: focus_def rbt)
  have ne: "m \<noteq> n" "n \<notin> ctx_nodes k" "m \<notin> ctx_nodes k" "up_node k \<noteq> Some n" "up_node k \<noteq> Some m"
    "n \<notin> set (inorder a)" "n \<notin> set (inorder b)" "n \<notin> set (inorder e)"
    "m \<notin> set (inorder a)" "m \<notin> set (inorder b)" "m \<notin> set (inorder e)"
    "\<forall>q\<in>set (inorder b). q \<notin> ctx_nodes k" "distinct (inorder b)"
    "set (inorder a) \<inter> set (inorder b) = {}" "set (inorder e) \<inter> set (inorder b) = {}"
    "\<forall>q\<in>set (inorder a). q \<notin> ctx_nodes k" "\<forall>q\<in>set (inorder e). q \<notin> ctx_nodes k"
    using assms up_node_in [of k] by (cases d; auto simp: focus_def rbt br_def ctx_nodes_def)+
  have nb: "q \<in> set (inorder b)" if "child h m d = Some q" for q
    using rep_top [OF f(6)] top_in [of b q] that by auto
  have "agree h ?h1 (ctx_nodes k)"
    using ne by (auto simp: agree_def dest!: nb)
  from link_agree [OF this _ up_node_in, of n "Some m"]
  have ctx: "agree (link_below (up_node k) n (Some m) h) ?h (ctx_nodes k)"
            "root ?h = root (link_below (up_node k) n (Some m) h)"
    using ne by (auto simp: agree_def)
  have ab: "up_node k \<noteq> Some q" if "q \<notin> ctx_nodes k" for q
    using up_node_in [of k] that by auto
  have out: "agree h ?h S" if "n \<notin> S" "m \<notin> S" "S \<inter> set (inorder b) = {}" "\<forall>q\<in>S. q \<notin> ctx_nodes k" for S
    using that ne(1) by (auto simp: agree_def ab dest!: nb)
  have ae: "rep ?h (Some n) (child h n d) a" "rep ?h (Some m) (child h m (flip d)) e"
    using out [of "set (inorder a)"] out [of "set (inorder e)"] ne f by (simp_all add: rep_agree)
  have "agree (adopt (Some n) (child h m d) h) ?h (set (inorder b))"
    using ne by (auto simp: agree_def ab)
  then have b: "rep ?h (Some n) (child h m d) b"
    using rep_adopt [OF f(6) ne(13)] by (simp add: rep_agree)
  show thesis
  proof
    show "rotate_node n d h = Some ?h"
      using rotate_node_link [OF f(4) ne(1)] f(1) by simp
    show "focus ?h k (br d c' (br d c a n b) m e)"
    proof (rule focus_replace [OF assms])
      show "rep ?h (up_node k) (top_node (br d c' (br d c a n b) m e)) (br d c' (br d c a n b) m e)"
        using ae b f ne nb [of n] nb [of m] by (auto simp: rbt)
      show "distinct (inorder (br d c' (br d c a n b) m e))"
        using assms by (simp add: focus_def rbt rotate_inorder [of _ _ _ _ _ _ _ _ c c'])
      show "set (inorder (br d c' (br d c a n b) m e)) \<inter> ctx_nodes k = {}"
        using ne by (auto simp: inorder_br)
    qed (use ctx in \<open>simp_all add: rbt\<close>)
  qed
qed

text \<open>The end of a list on a side.\<close>

fun end_of :: "rb_dir \<Rightarrow> 'n list \<Rightarrow> 'n option" where
  "end_of RB_LEFT xs = (case xs of [] \<Rightarrow> None | x # _ \<Rightarrow> Some x)"
| "end_of RB_RIGHT xs = (if xs = [] then None else Some (last xs))"

lemma end_of_append [simp]:
  "end_of RB_LEFT (xs @ ys) = (if xs = [] then end_of RB_LEFT ys else end_of RB_LEFT xs)"
  "end_of RB_RIGHT (xs @ ys) = (if ys = [] then end_of RB_RIGHT xs else end_of RB_RIGHT ys)"
  by (cases xs) auto

lemma outermost_loop_end:
  "rep h p (Some n) t \<Longrightarrow> outermost_loop h n d = end_of d (inorder t)"
proof (induction t arbitrary: p n)
  case (Br c l m r)
  let ?t = "if d = RB_LEFT then l else r"
  have [simp]: "m = n"
    using Br.prems by simp
  have *: "rep h (Some n) (child h n d) ?t"
    using Br.prems by (cases d) auto
  show ?case
  proof (cases "child h n d")
    case None
    with * have "?t = Tip"
      by (cases ?t) auto
    then show ?thesis
      using None Br.prems by (cases d) (auto simp: outermost_loop.simps [of h n])
  next
    case (Some y)
    then have "outermost_loop h y d = end_of d (inorder ?t)" "inorder ?t \<noteq> []"
      using Br.IH * by (auto split: if_splits elim: rep.elims)
    then show ?thesis
      using Some by (cases d) (auto simp: outermost_loop.simps [of h n] split: list.split)
  qed
qed simp

lemma get_outermost_end:
  assumes "rep h p x t"
  shows "get_outermost h x d = Some (end_of d (inorder t))"
proof (cases x)
  case None
  then have "t = Tip"
    using assms by (cases t) auto
  then show ?thesis
    using None by (cases d) (auto simp: get_outermost_def)
next
  case (Some n)
  then obtain c l r where t: "t = Br c l n r"
    using assms by (cases t) auto
  then have "end_of d (inorder t) \<noteq> None"
    by (cases d) (auto split: list.split)
  then show ?thesis
    using outermost_loop_end [of h p n t d] assms Some by (auto simp: get_outermost_def)
qed

lemma closest_loop_end:
  assumes "focus h k t" "top_node t = Some n"
  shows "closest_loop h n d = Some (end_of (flip d) (case d of RB_RIGHT \<Rightarrow> post k | RB_LEFT \<Rightarrow> pre k))"
  using assms
proof (induction k arbitrary: n t)
  case Nil
  then have "parent h n = None"
    by (cases t) (auto simp: focus_def)
  then show ?case
    by (cases d) (auto simp: closest_loop.simps [of h n])
next
  case (Cons e k)
  obtain d' c p s where e: "e = (d', c, p, s)"
    by (cases e)
  have f: "parent h n = Some p" "child h p d' = Some n" "rep h (Some p) (child h p (flip d')) s"
    using Cons.prems by (cases t; auto simp: focus_def e)+
  have "n \<notin> set (inorder s)"
    using Cons.prems top_in [of t n] by (cases d') (auto simp: focus_def e rbt br_def)
  then have ns: "child h p (flip d') \<noteq> Some n"
    using rep_top [OF f(3)] top_in [of s n] by auto
  show ?case
  proof (cases "d' = d")
    case True
    then have "closest_loop h n d = closest_loop h p d"
      using f by (simp add: closest_loop.simps [of h n])
    also have "\<dots> = Some (end_of (flip d) (case d of RB_RIGHT \<Rightarrow> post k | RB_LEFT \<Rightarrow> pre k))"
      using Cons.prems by (intro Cons.IH [of "br d' c t p s"]) (auto simp: rbt e focus_up)
    finally show ?thesis
      using True by (cases d) (auto simp: e)
  next
    case False
    then have "flip d' = d"
      by (cases d; cases d') auto
    then have "closest_loop h n d = Some (Some p)"
      using f ns by (simp add: closest_loop.simps [of h n])
    then show ?thesis
      using False by (cases d; cases d') (auto simp: e)
  qed
qed

lemma get_closest_end:
  assumes "focus h k (Br c l n r)"
  shows "get_closest h (Some n) d =
           Some (end_of (flip d) (case d of RB_RIGHT \<Rightarrow> inorder r @ post k | RB_LEFT \<Rightarrow> pre k @ inorder l))"
proof -
  let ?s = "case d of RB_RIGHT \<Rightarrow> r | RB_LEFT \<Rightarrow> l"
  have s: "rep h (Some n) (child h n d) ?s"
    using assms by (cases d) (auto simp: focus_def)
  show ?thesis
  proof (cases "child h n d")
    case None
    then have "inorder ?s = []"
      using s by (cases ?s) auto
    then show ?thesis
      using closest_loop_end [OF assms, of n d] None by (cases d) (auto simp: get_closest_def)
  next
    case (Some y)
    then have "inorder ?s \<noteq> []"
      using s by (cases ?s) auto
    then show ?thesis
      using get_outermost_end [OF s, of "flip d"] Some by (cases d) (auto simp: get_closest_def split: list.split)
  qed
qed

lemma traversal_core:
  assumes "rb_tree h t"
  shows "rb_first h = Some (end_of RB_LEFT (inorder t))" "rb_last h = Some (end_of RB_RIGHT (inorder t))"
    and "inorder t = xs @ n # ys \<Longrightarrow> rb_next h (Some n) = Some (end_of RB_LEFT ys)"
    and "inorder t = xs @ n # ys \<Longrightarrow> rb_prev h (Some n) = Some (end_of RB_RIGHT xs)"
proof -
  show "rb_first h = Some (end_of RB_LEFT (inorder t))" "rb_last h = Some (end_of RB_RIGHT (inorder t))"
    using assms get_outermost_end [of h None "root h" t] by (auto simp: rb_tree_def rb_first_def rb_last_def)
  assume eq: "inorder t = xs @ n # ys"
  from assms eq obtain k c l r where f: "focus h k (Br c l n r)" and "xs = pre k @ inorder l" "ys = inorder r @ post k"
    by (rule position_split)
  then show "rb_next h (Some n) = Some (end_of RB_LEFT ys)" "rb_prev h (Some n) = Some (end_of RB_RIGHT xs)"
    using get_closest_end [OF f] by (auto simp: rb_next_def rb_prev_def)
qed

section \<open>Colours and heights\<close>

fun recolor :: "'n \<Rightarrow> rb_color \<Rightarrow> 'n rtree \<Rightarrow> 'n rtree" where
  "recolor n q Tip = Tip"
| "recolor n q (Br c l m r) = Br (if m = n then q else c) (recolor n q l) m (recolor n q r)"

definition recolor_ctx :: "'n \<Rightarrow> rb_color \<Rightarrow> 'n ctx \<Rightarrow> 'n ctx" where
  "recolor_ctx n q k = map (\<lambda>(d, c, m, s). (d, if m = n then q else c, m, recolor n q s)) k"

fun col :: "'n rtree \<Rightarrow> rb_color" where
  "col Tip = RB_BLACK"
| "col (Br c l n r) = c"

fun blacken :: "'n rtree \<Rightarrow> 'n rtree" where
  "blacken Tip = Tip"
| "blacken (Br c l n r) = Br RB_BLACK l n r"

text \<open>No red node has a red child.\<close>

fun invc :: "'n rtree \<Rightarrow> bool" where
  "invc Tip \<longleftrightarrow> True"
| "invc (Br c l n r) \<longleftrightarrow> invc l \<and> invc r \<and> (c = RB_RED \<longrightarrow> col l = RB_BLACK \<and> col r = RB_BLACK)"

text \<open>Every path has the same number of black nodes.\<close>

fun has_bh :: "'n rtree \<Rightarrow> nat \<Rightarrow> bool" where
  "has_bh Tip b \<longleftrightarrow> b = 0"
| "has_bh (Br RB_BLACK l n r) b \<longleftrightarrow> 0 < b \<and> has_bh l (b - 1) \<and> has_bh r (b - 1)"
| "has_bh (Br RB_RED l n r) b \<longleftrightarrow> has_bh l b \<and> has_bh r b"

fun bh :: "'n rtree \<Rightarrow> nat" where
  "bh Tip = 0"
| "bh (Br c l n r) = bh l + (if c = RB_BLACK then 1 else 0)"

definition rb_valid :: "'n rtree \<Rightarrow> bool" where
  "rb_valid t \<longleftrightarrow> invc t \<and> has_bh t (bh t) \<and> col t = RB_BLACK"

fun ctx_ok :: "rb_color \<Rightarrow> 'n ctx \<Rightarrow> bool" where
  "ctx_ok c [] \<longleftrightarrow> True"
| "ctx_ok c ((d, c', n, s) # k) \<longleftrightarrow> invc s \<and> (c' = RB_RED \<longrightarrow> c = RB_BLACK \<and> col s = RB_BLACK) \<and> ctx_ok c' k"

fun ctx_bh :: "nat \<Rightarrow> 'n ctx \<Rightarrow> bool" where
  "ctx_bh b [] \<longleftrightarrow> True"
| "ctx_bh b ((d, c, n, s) # k) \<longleftrightarrow> has_bh s b \<and> ctx_bh (if c = RB_BLACK then Suc b else b) k"

lemma color_cases: "c \<noteq> RB_RED \<longleftrightarrow> c = RB_BLACK" "c \<noteq> RB_BLACK \<longleftrightarrow> c = RB_RED"
  by (cases c; simp)+

lemma has_bh_bh: "has_bh t b \<Longrightarrow> bh t = b"
  by (induction t b rule: has_bh.induct) auto

lemma br_flip [rbt]: "br (flip d) c a n b = br d c b n a"
  by (cases d) (simp_all add: br_def)

lemma br_props [rbt]:
  "col (br d c a n b) = c"
  "blacken (br d c a n b) = br d RB_BLACK a n b"
  "invc (br d c a n b) \<longleftrightarrow> invc a \<and> invc b \<and> (c = RB_RED \<longrightarrow> col a = RB_BLACK \<and> col b = RB_BLACK)"
  "has_bh (br d RB_BLACK a n b) i \<longleftrightarrow> 0 < i \<and> has_bh a (i - 1) \<and> has_bh b (i - 1)"
  "has_bh (br d RB_RED a n b) i \<longleftrightarrow> has_bh a i \<and> has_bh b i"
  "recolor m q (br d c a n b) = br d (if n = m then q else c) (recolor m q a) n (recolor m q b)"
  by (cases d; auto simp: br_def)+

lemma invc_fill: "invc (fill k t) \<longleftrightarrow> invc t \<and> ctx_ok (col t) k"
  by (induction k t rule: fill.induct) (auto simp: rbt)

lemma has_bh_fill: "(\<exists>b. has_bh (fill k t) b) \<longleftrightarrow> (\<exists>b. has_bh t b \<and> ctx_bh b k)"
proof (induction k t rule: fill.induct)
  case (2 d c n s k t)
  have "(\<exists>b. has_bh (br d c t n s) b \<and> ctx_bh b k) \<longleftrightarrow> (\<exists>b. has_bh t b \<and> ctx_bh b ((d, c, n, s) # k))"
  proof (cases c)
    case RB_BLACK
    then show ?thesis
      by (auto simp: rbt gr0_conv_Suc)
  qed (auto simp: rbt)
  with 2 show ?case by simp
qed simp

lemma col_fill: "k \<noteq> [] \<Longrightarrow> col (fill k t) = fst (snd (last k))"
  by (induction k t rule: fill.induct) (auto simp: rbt)

lemma recolor_inorder [simp]: "inorder (recolor n q t) = inorder t"
  by (induction t) auto

lemma recolor_other [simp]: "n \<notin> set (inorder t) \<Longrightarrow> recolor n q t = t"
  by (induction t) auto

lemma recolor_ctx_other [simp]: "n \<notin> ctx_nodes k \<Longrightarrow> recolor_ctx n q k = k"
  by (induction k) (auto simp: recolor_ctx_def rbt)

lemma rep_recolor: "rep h p x t \<Longrightarrow> rep (set_color n q h) p x (recolor n q t)"
  by (induction t arbitrary: p x) auto

lemma fill_recolor: "recolor n q (fill k t) = fill (recolor_ctx n q k) (recolor n q t)"
  by (induction k t rule: fill.induct) (auto simp: recolor_ctx_def rbt)

lemma rb_tree_recolor: "rb_tree h t \<Longrightarrow> rb_tree (set_color n q h) (recolor n q t)"
  by (simp add: rb_tree_def rep_recolor)

lemma focus_recolor: "focus h k t \<Longrightarrow> focus (set_color n q h) (recolor_ctx n q k) (recolor n q t)"
  using rb_tree_recolor [of h "fill k t" n q] by (simp add: rb_tree_focus fill_recolor)

section \<open>Balancing\<close>

text \<open>The facts a step of the loop reads off the position of a red node below a parent and a grandparent.\<close>

lemma focus_distinct:
  assumes "focus h k t"
  shows "distinct (inorder t)" "set (inorder t) \<inter> ctx_nodes k = {}"
  using assms by (auto simp: focus_def rbt ctx_nodes_def)

lemma balance_parent:
  assumes "focus h ((d, c, p, s) # (d', c', g, u) # k) t" "top_node t = Some n"
  shows "parent h n = Some p" "color h p = c" "parent h p = Some g" "color h g = c'"
        "dir_of (child h g RB_LEFT = Some p) = flip d'" "child h g (flip d') = top_node u"
        "child h p d'' = Some n \<longleftrightarrow> d'' = d" "u = Br cu lu w ru \<Longrightarrow> color h w = cu"
proof -
  have f: "child h p d = Some n" "rep h (Some p) (child h p (flip d)) s" "child h g d' = Some p"
          "rep h (Some g) (child h g (flip d')) u"
    using assms by (auto simp: focus_def)
  show "parent h n = Some p" "color h p = c" "parent h p = Some g" "color h g = c'"
    using assms by (cases t; auto simp: focus_def)+
  show u: "child h g (flip d') = top_node u"
    using rep_top [OF f(4)] by simp
  show "u = Br cu lu w ru \<Longrightarrow> color h w = cu"
    using f(4) by simp
  have dis: "distinct (inorder (fill ((d, c, p, s) # (d', c', g, u) # k) t))"
    using assms(1) by (simp only: focus_def)
  have "p \<notin> set (inorder u)" "n \<notin> set (inorder s)"
    using dis top_in [OF assms(2)] unfolding inorder_fill by (cases d; cases d'; force)+
  then have "child h p (flip d) \<noteq> Some n" "child h g (flip d') \<noteq> Some p"
    using rep_top [OF f(2)] top_in [of s n] top_in [of u p] unfolding u by metis+
  then show "dir_of (child h g RB_LEFT = Some p) = flip d'" "child h p d'' = Some n \<longleftrightarrow> d'' = d"
    using f by (cases d; cases d'; cases d''; auto simp: dir_of_def)+
qed

text \<open>The last rotation: the grandparent \<open>g\<close> goes below the parent \<open>p\<close>.\<close>

lemma balance_last:
  assumes f: "focus h k (br d RB_BLACK u g (br d RB_RED e p x))" and x: "top_node x = Some n"
  obtains h' where "rotate_node g d (set_color g RB_RED (set_color p RB_BLACK h)) = Some h'"
    "balance_loop h' n = Some h'" "focus h' k (br d RB_BLACK (br d RB_RED u g e) p x)"
proof -
  let ?h = "set_color g RB_RED (set_color p RB_BLACK h)"
  have "focus ?h (recolor_ctx g RB_RED (recolor_ctx p RB_BLACK k))
          (recolor g RB_RED (recolor p RB_BLACK (br d RB_BLACK u g (br d RB_RED e p x))))"
    by (intro focus_recolor f)
  moreover have "p \<notin> ctx_nodes k" "g \<notin> ctx_nodes k" "p \<noteq> g" "p \<notin> set (inorder u)" "p \<notin> set (inorder e)"
    "p \<notin> set (inorder x)" "g \<notin> set (inorder u)" "g \<notin> set (inorder e)" "g \<notin> set (inorder x)"
    using f by (cases d; auto simp: focus_def rbt br_def ctx_nodes_def)+
  ultimately have "focus ?h k (br d RB_RED u g (br d RB_BLACK e p x))"
    by (simp add: rbt)
  then obtain h' where h': "rotate_node g d ?h = Some h'" "focus h' k (br d RB_BLACK (br d RB_RED u g e) p x)"
    by (rule rotate_focus)
  have "parent h' n = Some p" "color h' p = RB_BLACK"
    using h'(2) x by (cases x; auto simp: focus_def rbt)+
  then have "balance_loop h' n = Some h'"
    by (simp add: balance_loop.simps [of h' n])
  with h' show thesis
    using that by blast
qed

definition fixable :: "'n rtree \<Rightarrow> bool" where
  "fixable t \<longleftrightarrow> invc (blacken t) \<and> (\<exists>b. has_bh t b)"

definition almost :: "'n ctx \<Rightarrow> 'n rtree \<Rightarrow> bool" where
  "almost k t \<longleftrightarrow> invc t \<and> (\<exists>b. has_bh t b \<and> ctx_bh b k) \<and> ctx_ok RB_BLACK k
     \<and> (k \<noteq> [] \<longrightarrow> fst (snd (last k)) = RB_BLACK)"

lemma invc_blacken: "invc t \<Longrightarrow> invc (blacken t)"
  by (cases t) auto

lemma balance_fixable:
  assumes "has_bh u b" "has_bh e b" "has_bh x b" "ctx_bh (Suc b) k" "invc u" "invc e" "invc x"
      and "col u = RB_BLACK" "col e = RB_BLACK" "ctx_ok RB_BLACK k"
  shows "fixable (fill k (br d RB_BLACK (br d RB_RED u g e) p x))"
proof -
  have "has_bh (br d RB_BLACK (br d RB_RED u g e) p x) (Suc b)"
    using assms by (simp add: rbt)
  then have "\<exists>b. has_bh (fill k (br d RB_BLACK (br d RB_RED u g e) p x)) b"
    using assms(4) has_bh_fill by blast
  moreover have "invc (fill k (br d RB_BLACK (br d RB_RED u g e) p x))"
    using assms by (simp add: invc_fill rbt)
  ultimately show ?thesis
    by (simp add: fixable_def invc_blacken)
qed

lemma balance_red_uncle:
  assumes f: "focus h ((d, RB_RED, p, s) # (d', c', g, u) # k) t" and t: "t = Br RB_RED l n r"
    and inv: "almost ((d, RB_RED, p, s) # (d', c', g, u) # k) t" and u: "col u = RB_RED"
  obtains h' t' lg rg where "balance_loop h n = balance_loop h' g" "focus h' k t'" "t' = Br RB_RED lg g rg"
    "almost k t'" "inorder (fill k t') = inorder (fill ((d, RB_RED, p, s) # (d', c', g, u) # k) t)"
proof -
  obtain lu w ru where w: "u = Br RB_RED lu w ru"
    using u by (cases u) auto
  have c': "c' = RB_BLACK"
    using inv by (cases c') (auto simp: almost_def)
  let ?h = "set_color g RB_RED (set_color w RB_BLACK (set_color p RB_BLACK h))"
  let ?t = "br d' RB_RED (br d RB_BLACK t p s) g (Br RB_BLACK lu w ru)"
  note bp = balance_parent [OF f, of n]
  have step: "balance_loop h n = balance_loop ?h g"
    using bp t w by (simp add: balance_loop.simps [of h n] Let_def)
  have dis: "distinct (inorder (fill ((d, RB_RED, p, s) # (d', c', g, u) # k) t))"
    using f by (simp only: focus_def)
  have "focus ?h (recolor_ctx g RB_RED (recolor_ctx w RB_BLACK (recolor_ctx p RB_BLACK k)))
          (recolor g RB_RED (recolor w RB_BLACK (recolor p RB_BLACK (br d' c' (br d RB_RED t p s) g u))))"
    using f by (intro focus_recolor) (simp add: focus_up)
  moreover have "p \<notin> ctx_nodes k" "g \<notin> ctx_nodes k" "w \<notin> ctx_nodes k" "p \<noteq> g" "p \<noteq> w" "g \<noteq> w"
    "{p, g, w} \<inter> set (inorder t) = {}" "{p, g, w} \<inter> set (inorder s) = {}"
    "{p, g, w} \<inter> set (inorder lu) = {}" "{p, g, w} \<inter> set (inorder ru) = {}"
    using dis unfolding inorder_fill w by (cases d; cases d'; auto simp: ctx_nodes_def)+
  ultimately have "focus ?h k ?t"
    by (simp add: rbt w)
  moreover have "almost k ?t"
    using inv unfolding almost_def by (auto simp: rbt w c' t)
  moreover have "\<exists>lg rg. ?t = Br RB_RED lg g rg"
    by (cases d') (auto simp: br_def)
  moreover have "inorder (fill k ?t) = inorder (fill ((d, RB_RED, p, s) # (d', c', g, u) # k) t)"
    by (cases d; cases d') (auto simp: rbt w br_def)
  ultimately show thesis
    using that step by blast
qed

lemma balance_black_uncle:
  assumes f: "focus h ((d, RB_RED, p, s) # (d', c', g, u) # k) t" and t: "t = Br RB_RED l n r"
    and inv: "almost ((d, RB_RED, p, s) # (d', c', g, u) # k) t" and u: "col u = RB_BLACK"
  obtains h' t' where "balance_loop h n = Some h'" "focus h' k t'" "fixable (fill k t')"
    "inorder (fill k t') = inorder (fill ((d, RB_RED, p, s) # (d', c', g, u) # k) t)"
proof -
  define e where "e = flip d'"
  have c': "c' = RB_BLACK"
    using inv by (cases c') (auto simp: almost_def)
  obtain b where b: "has_bh t b" "has_bh s b" "has_bh u b" "ctx_bh (Suc b) k" "invc s" "invc u" "invc t"
      "col s = RB_BLACK" "ctx_ok RB_BLACK k"
    using inv by (auto simp: almost_def c')
  note bp = balance_parent [OF f, of n]
  have unc: "\<not> (case top_node u of Some w \<Rightarrow> color h w = RB_RED | None \<Rightarrow> False)"
    using u bp(8) t by (cases u) auto
  have pos: "focus h ((d', RB_BLACK, g, u) # k) (br d RB_RED t p s)"
    using f unfolding c' by (simp add: focus_up)
  have step: "balance_loop h n =
      do { (h, n, p) \<leftarrow> (if e = d then do { h \<leftarrow> rotate_node p (flip e) h; q \<leftarrow> parent h p; Some (h, p, q) }
                         else Some (h, n, p));
           h \<leftarrow> rotate_node g e (set_color g RB_RED (set_color p RB_BLACK h));
           balance_loop h n }"
    using bp(1-7) unc t by (simp add: balance_loop.simps [of h n] Let_def e_def)
  show thesis
  proof (cases "e = d")
    case False
    then have d: "d' = d" "flip e = d"
      by (cases d; cases d'; auto simp: e_def)+
    have "focus h k (br e RB_BLACK u g (br e RB_RED s p t))"
      using pos d by (simp add: focus_up rbt flip: br_flip [of e])
    from balance_last [OF this, of n] obtain h' where
      h': "rotate_node g e (set_color g RB_RED (set_color p RB_BLACK h)) = Some h'"
        "balance_loop h' n = Some h'" "focus h' k (br e RB_BLACK (br e RB_RED u g s) p t)"
      using t by auto
    show thesis
    proof
      show "balance_loop h n = Some h'"
        using step False h' by simp
      show "fixable (fill k (br e RB_BLACK (br e RB_RED u g s) p t))"
        using b u by (intro balance_fixable) auto
      show "inorder (fill k (br e RB_BLACK (br e RB_RED u g s) p t)) = inorder (fill ((d, RB_RED, p, s) # (d', c', g, u) # k) t)"
        by (cases d') (simp_all add: rbt br_def e_def d(1) [symmetric])
    qed (rule h')
  next
    case True
    obtain a x where ax: "t = br e RB_RED a n x"
      using t by (cases e) (auto simp: br_def)
    have "focus h ((d', RB_BLACK, g, u) # k) (br d' RB_RED s p (br d' RB_RED x n a))"
      using pos ax by (simp add: True [symmetric] e_def br_flip)
    then obtain h1 where h1: "rotate_node p d' h = Some h1"
        "focus h1 ((d', RB_BLACK, g, u) # k) (br d' RB_RED (br d' RB_RED s p x) n a)"
      by (rule rotate_focus)
    have q: "parent h1 p = Some n"
      using h1(2) by (simp add: focus_def rbt)
    have "focus h1 k (br e RB_BLACK u g (br e RB_RED a n (br e RB_RED x p s)))"
      using h1(2) by (simp add: e_def rbt focus_up)
    from balance_last [OF this, of p] obtain h' where
      h': "rotate_node g e (set_color g RB_RED (set_color n RB_BLACK h1)) = Some h'"
        "balance_loop h' p = Some h'" "focus h' k (br e RB_BLACK (br e RB_RED u g a) n (br e RB_RED x p s))"
      by (auto simp: rbt)
    show thesis
    proof
      show "balance_loop h n = Some h'"
        using step True h1(1) q h' flip_simps(1) [of d'] by (simp flip: e_def)
      show "fixable (fill k (br e RB_BLACK (br e RB_RED u g a) n (br e RB_RED x p s)))"
        using b u by (intro balance_fixable) (auto simp: rbt ax)
      show "inorder (fill k (br e RB_BLACK (br e RB_RED u g a) n (br e RB_RED x p s)))
          = inorder (fill ((d, RB_RED, p, s) # (d', c', g, u) # k) t)"
        by (cases d') (simp_all add: rbt br_def e_def True [symmetric] ax)
    qed (rule h')
  qed
qed

lemma balance_loop_ok:
  assumes "focus h k t" "t = Br RB_RED l n r" "almost k t"
  shows "\<exists>h' t'. balance_loop h n = Some h' \<and> rb_tree h' t' \<and> inorder t' = inorder (fill k t) \<and> fixable t'"
  using assms
proof (induction k arbitrary: h t l n r rule: length_induct)
  case (1 k)
  note f = 1(2) and t = 1(3) and inv = 1(4)
  obtain b where b: "has_bh t b" "ctx_bh b k"
    using inv by (auto simp: almost_def)
  have bht: "\<exists>b. has_bh (fill k t) b"
    using b has_bh_fill by blast
  consider (top) "k = []" | (black) d p s k' where "k = (d, RB_BLACK, p, s) # k'"
    | (red) d p s d' c' g u k' where "k = (d, RB_RED, p, s) # (d', c', g, u) # k'"
  proof (cases k)
    case (Cons e k')
    obtain d c p s where e: "e = (d, c, p, s)"
      by (cases e)
    show thesis
    proof (cases c)
      case RB_BLACK
      then show thesis using black e Cons by blast
    next
      case RB_RED
      then have "k' \<noteq> []"
        using inv by (auto simp: almost_def Cons e)
      then obtain e' k'' where "k' = e' # k''"
        by (cases k') auto
      then show thesis
        using red e Cons RB_RED by (cases e') blast
    qed
  qed (use top in blast)
  then show ?case
  proof cases
    case top
    then have "parent h n = None"
      using f t by (simp add: focus_def)
    then have "balance_loop h n = Some h"
      by (simp add: balance_loop.simps [of h n])
    then show ?thesis
      using f b inv top rb_tree_focus [of h "[]" t] by (auto simp: fixable_def almost_def invc_blacken)
  next
    case black
    then have "parent h n = Some p" "color h p = RB_BLACK"
      using f t by (auto simp: focus_def)
    then have "balance_loop h n = Some h"
      by (simp add: balance_loop.simps [of h n])
    moreover have "invc (fill k t)"
      using inv t black by (simp add: invc_fill almost_def rbt)
    ultimately show ?thesis
      using f bht rb_tree_focus invc_blacken by (metis fixable_def)
  next
    case red
    show ?thesis
    proof (cases "col u")
      case RB_RED
      from balance_red_uncle [OF f [unfolded red] t inv [unfolded red] this]
      show ?thesis
        using 1(1) red by (metis length_Cons less_Suc_eq)
    next
      case RB_BLACK
      from balance_black_uncle [OF f [unfolded red] t inv [unfolded red] this]
      show ?thesis
        unfolding red by (metis rb_tree_focus)
    qed
  qed
qed

lemma rb_balance_core:
  assumes "rb_tree h (fill k (Br c Tip n Tip))" "rb_valid (fill k Tip)"
  shows "\<exists>h' t'. rb_balance (Some n) h = Some (0, h') \<and> rb_tree h' t' \<and> inorder t' = pre k @ n # post k
           \<and> rb_valid t'"
proof -
  let ?h = "set_color n RB_RED h"
  have f: "focus h k (Br c Tip n Tip)"
    using assms(1) by (simp add: rb_tree_focus)
  have "n \<notin> ctx_nodes k"
    using focus_distinct(2) [OF f] by simp
  with focus_recolor [OF f, of n RB_RED] have f1: "focus ?h k (Br RB_RED Tip n Tip)"
    by simp
  have "\<exists>b. has_bh Tip b \<and> ctx_bh b k"
    using assms(2) has_bh_fill [of k Tip] by (auto simp: rb_valid_def)
  then have "almost k (Br RB_RED Tip n Tip)"
    using assms(2) col_fill [of k Tip] by (auto simp: almost_def rb_valid_def invc_fill)
  from balance_loop_ok [OF f1 refl this] obtain h' t' where
    h': "balance_loop ?h n = Some h'" "rb_tree h' t'" "inorder t' = pre k @ n # post k" "fixable t'"
    by (auto simp: rbt)
  then obtain q l r ls where t': "t' = Br q l r ls"
    by (cases t') auto
  have "root h' = Some r"
    using h'(2) by (simp add: rb_tree_def t')
  then have "rb_balance (Some n) h = Some (0, set_color r RB_BLACK h')"
    using h'(1) by (simp add: rb_balance_def)
  moreover have "recolor r RB_BLACK t' = blacken t'"
    using h'(2) by (simp add: t' rb_tree_def)
  then have "rb_tree (set_color r RB_BLACK h') (blacken t')"
    using rb_tree_recolor [OF h'(2), of r RB_BLACK] by simp
  moreover have "inorder (blacken t') = inorder t'"
    by (simp add: t')
  moreover obtain b where "has_bh t' b"
    using h'(4) by (auto simp: fixable_def)
  then have "has_bh (blacken t') (if q = RB_RED then Suc b else b)"
    by (cases q) (auto simp: t')
  then have "rb_valid (blacken t')"
    using h'(4) has_bh_bh [of "blacken t'"] by (auto simp: rb_valid_def fixable_def t')
  ultimately show ?thesis
    using h'(3) by metis
qed

end
