(* ===== verification/RB_Tree_Remove.thy ===== *)
theory RB_Tree_Remove
  imports RB_Tree_Inv
begin

text \<open>
  Removal from the trees of \<^verbatim>\<open>lib/rbtree.c\<close>: \<open>do_remove\<close> takes exactly one node out of the tree and
  keeps the order of the others, while the balancing that \<open>rb_remove\<close> does afterwards does not keep
  the red-black property and may follow a null pointer.
\<close>

section \<open>Removal\<close>

fun drop_max :: "'n rtree \<Rightarrow> 'n rtree" where
  "drop_max (Br c l n Tip) = l"
| "drop_max (Br c l n r) = Br c l n (drop_max r)"
| "drop_max Tip = Tip"

text \<open>The tree without its root: the largest node on the left takes its place.\<close>

fun drop_root :: "'n rtree \<Rightarrow> 'n rtree" where
  "drop_root Tip = Tip"
| "drop_root (Br c Tip n r) = r"
| "drop_root (Br c l n Tip) = l"
| "drop_root (Br c l n r) = Br RB_BLACK (drop_max l) (last (inorder l)) r"

lemma max_position:
  assumes "t \<noteq> Tip"
  shows "\<exists>k c l. t = fill k (Br c l (last (inorder t)) Tip) \<and> drop_max t = fill k l"
  using assms
proof (induction t rule: drop_max.induct)
  case (1 c l n)
  show ?case
    by (intro exI [of _ "[]"] exI [of _ c] exI [of _ l]) simp
next
  case (2 c l n c' l' n' r')
  then obtain k d m where k: "Br c' l' n' r' = fill k (Br d m (last (inorder (Br c' l' n' r'))) Tip)"
     "drop_max (Br c' l' n' r') = fill k m"
    by auto
  have "Br c l n (Br c' l' n' r') = fill (k @ [(RB_RIGHT, c, n, l)]) (Br d m (last (inorder (Br c' l' n' r'))) Tip)"
    unfolding fill_append k(1) [symmetric] by (simp add: br_def)
  moreover have "drop_max (Br c l n (Br c' l' n' r')) = fill (k @ [(RB_RIGHT, c, n, l)]) m"
    unfolding fill_append k(2) [symmetric] by (simp add: br_def)
  moreover have "last (inorder (Br c l n (Br c' l' n' r'))) = last (inorder (Br c' l' n' r'))"
    by simp
  ultimately show ?case
    by metis
qed simp

lemma inorder_drop_max: "inorder (drop_max t) = butlast (inorder t)"
  by (induction t rule: drop_max.induct) (auto simp: butlast_append)

lemma inorder_drop_root: "inorder (drop_root (Br c l n r)) = inorder l @ inorder r"
proof (cases "l = Tip \<or> r = Tip")
  case False
  then obtain cl ll nl rl cr lr nr rr where "l = Br cl ll nl rl" "r = Br cr lr nr rr"
    by (cases l; cases r) auto
  then show ?thesis
    by (simp add: inorder_drop_max butlast_append)
qed (cases l; auto)

lemma node_init_simps [simp]:
  "parent (rb_node_init n h) = (parent h)(n := None)" "child (rb_node_init n h) = (child h)(n := \<lambda>_. None)"
  "color (rb_node_init n h) = (color h)(n := RB_BLACK)" "root (rb_node_init n h) = root h"
proof -
  have "f(RB_LEFT := None, RB_RIGHT := None) = (\<lambda>_. None)" for f :: "rb_dir \<Rightarrow> 'a option"
    by (auto simp: fun_eq_iff) (metis rb_dir.exhaust)
  then show "child (rb_node_init n h) = (child h)(n := \<lambda>_. None)"
    by (simp add: rb_node_init_def)
qed (simp_all add: rb_node_init_def)

lemma link_node [simp]: "child (rb_node_init n h) m = (if m = n then \<lambda>_. None else child h m)"
  by simp

text \<open>A node with at most one child.\<close>

lemma do_remove_simple:
  assumes f: "focus h k (Br c l n r)" and tip: "l = Tip \<or> r = Tip"
  obtains h' where "do_remove h n = Some h'" "focus h' k (drop_root (Br c l n r))" "color h' n = RB_BLACK"
proof -
  let ?t = "drop_root (Br c l n r)"
  let ?h = "rb_node_init n (adopt (up_node k) (top_node ?t) (link_below (up_node k) n (top_node ?t) h))"
  have t: "?t = (if l = Tip then r else l)"
    using tip by (cases l; cases r) auto
  have ch: "parent h n = up_node k" "rep h (Some n) (child h n RB_LEFT) l" "rep h (Some n) (child h n RB_RIGHT) r"
    using f by (auto simp: focus_def)
  then have ln: "child h n RB_LEFT = None \<longleftrightarrow> l = Tip" "child h n RB_RIGHT = None \<longleftrightarrow> r = Tip"
      "child h n (dir_of (child h n RB_LEFT = None)) = top_node ?t"
    using rep_top [OF ch(2)] rep_top [OF ch(3)] by (auto simp: t dir_of_def; cases l; cases r; auto)+
  have "do_remove h n = Some ?h"
    using tip ln ch(1) by (auto simp: do_remove.simps [of h n] Let_def)
  moreover have "focus ?h k ?t"
  proof (rule focus_replace [OF f])
    note dis = focus_distinct [OF f]
    have nt: "set (inorder ?t) \<inter> ctx_nodes k = {}" "n \<notin> set (inorder ?t)" "n \<notin> ctx_nodes k"
      using dis by (auto simp: t)
    have tk: "top_node ?t \<noteq> Some q" if "q \<in> ctx_nodes k" for q
      using nt top_in [of ?t q] that by auto
    show "agree (link_below (up_node k) n (top_node ?t) h) ?h (ctx_nodes k)"
      using nt by (auto simp: agree_def tk)
    have "agree (adopt (up_node k) (top_node ?t) h) ?h (set (inorder ?t))"
      using nt up_node_in [of k] by (auto 4 4 simp: agree_def)
    moreover have "rep (adopt (up_node k) (top_node ?t) h) (up_node k) (top_node ?t) ?t"
      using ch(2,3) dis rep_top [OF ch(2)] rep_top [OF ch(3)] by (intro rep_adopt [of h "Some n"]) (auto simp: t)
    ultimately show "rep ?h (up_node k) (top_node ?t) ?t"
      by (simp add: rep_agree)
    show "distinct (inorder ?t)" "set (inorder ?t) \<inter> ctx_nodes k = {}"
      using nt dis by (auto simp: t)
  qed simp_all
  moreover have "color ?h n = RB_BLACK"
    by simp
  ultimately show thesis
    using that by blast
qed

text \<open>A node with two children: its predecessor \<open>m\<close>, already taken out, takes its place.\<close>

lemma take_place:
  assumes f: "focus h k (Br c l n r)" and m: "m \<notin> set (inorder (fill k (Br c l n r)))" "color h m = RB_BLACK"
  defines "h1 \<equiv> adopt (Some m) (top_node l) (set_child m RB_LEFT (top_node l) h)"
  defines "h2 \<equiv> adopt (Some m) (top_node r) (set_child m RB_RIGHT (top_node r) h1)"
  shows "focus (rb_node_init n (adopt (up_node k) (Some m) (link_below (up_node k) n (Some m) h2))) k
           (Br RB_BLACK l m r)" (is "focus ?h k ?t")
proof (rule focus_replace [OF f])
  note dis = focus_distinct [OF f]
  have ne: "m \<noteq> n" "m \<notin> set (inorder l)" "m \<notin> set (inorder r)" "m \<notin> ctx_nodes k" "n \<notin> ctx_nodes k"
      "\<forall>q\<in>set (inorder l). q \<notin> ctx_nodes k" "\<forall>q\<in>set (inorder r). q \<notin> ctx_nodes k"
      "\<forall>q\<in>set (inorder r). q \<notin> set (inorder l)" "n \<notin> set (inorder l)" "n \<notin> set (inorder r)"
    using dis m by (auto simp: rbt ctx_nodes_def)
  have lr: "q \<in> set (inorder s)" if "top_node s = Some q" for q and s :: "'a rtree"
    using top_in [OF that] .
  have up: "up_node k \<noteq> Some q" if "q \<notin> ctx_nodes k" for q
    using up_node_in [of k] that by auto
  have ch: "rep h (Some n) (top_node l) l" "rep h (Some n) (top_node r) r"
    using f rep_top by (fastforce simp: focus_def)+
  have "agree h h2 (ctx_nodes k)" "root h2 = root h"
    using ne by (auto simp: agree_def h2_def h1_def dest!: lr)
  note la = link_agree [OF this up_node_in, of n "Some m"]
  show "agree (link_below (up_node k) n (top_node ?t) h) ?h (ctx_nodes k)"
    using la(1) ne by (auto simp: agree_def)
  show "root ?h = root (link_below (up_node k) n (top_node ?t) h)"
    using la(2) by simp
  have "agree (adopt (Some m) (top_node l) h) ?h (set (inorder l))"
    using ne by (auto simp: agree_def h2_def h1_def up dest!: lr)
  moreover have "agree (adopt (Some m) (top_node r) h) ?h (set (inorder r))"
    using ne by (auto simp: agree_def h2_def h1_def up dest!: lr)
  ultimately have sub: "rep ?h (Some m) (top_node l) l" "rep ?h (Some m) (top_node r) r"
    using rep_adopt [OF ch(1), of "Some m"] rep_adopt [OF ch(2), of "Some m"] dis by (simp_all add: rep_agree)
  have "child ?h m = (child h m)(RB_LEFT := top_node l, RB_RIGHT := top_node r)" "parent ?h m = up_node k"
       "color ?h m = RB_BLACK"
    using ne m by (auto simp: h2_def h1_def up)
  then show "rep ?h (up_node k) (top_node ?t) ?t"
    using sub by simp
  show "distinct (inorder ?t)" "set (inorder ?t) \<inter> ctx_nodes k = {}"
    using ne dis by auto
qed simp

lemma do_remove_two:
  assumes f: "focus h k (Br c l n r)" and two: "l \<noteq> Tip" "r \<noteq> Tip"
  obtains h' where "do_remove h n = Some h'" "focus h' k (drop_root (Br c l n r))"
proof -
  define m where "m = last (inorder l)"
  have ch: "parent h n = up_node k" "rep h (Some n) (child h n RB_LEFT) l" "rep h (Some n) (child h n RB_RIGHT) r"
    using f by (auto simp: focus_def)
  obtain kk cm lm where l: "l = fill kk (Br cm lm m Tip)" and l': "drop_max l = fill kk lm"
    using max_position [OF two(1)] by (auto simp: m_def)
  have il0: "inorder l \<noteq> []"
    using two(1) by (cases l) auto
  then have il: "inorder l = inorder (drop_max l) @ [m]"
    by (simp add: inorder_drop_max m_def)
  let ?K = "kk @ (RB_LEFT, c, n, r) # k"
  have K: "fill ?K t = fill k (Br c (fill kk t) n r)" for t
    by (simp add: fill_append br_def)
  then have "focus h ?K (Br cm lm m Tip)"
    using f l by (simp flip: rb_tree_focus)
  then obtain h1 where h1: "do_remove h m = Some h1" "focus h1 ?K (drop_root (Br cm lm m Tip))" "color h1 m = RB_BLACK"
    by (rule do_remove_simple) simp
  have "drop_root (Br cm lm m Tip) = lm"
    by (cases lm) auto
  then have f1: "focus h1 k (Br c (drop_max l) n r)"
    using h1(2) K l' by (simp flip: rb_tree_focus)
  then have ch1: "child h1 n RB_LEFT = top_node (drop_max l)" "child h1 n RB_RIGHT = top_node r"
    by (auto simp: focus_def dest: rep_top)
  have dis: "distinct (pre k @ (inorder (drop_max l) @ [m]) @ n # inorder r @ post k)"
    using f by (simp add: focus_def rbt il)
  have mn: "m \<noteq> n" and m: "m \<notin> set (inorder (fill k (Br c (drop_max l) n r)))"
    using dis by (auto simp: rbt)
  obtain l0 r0 where l0: "child h n RB_LEFT = Some l0" "child h n RB_RIGHT = Some r0"
    using ch two by (cases l; cases r) auto
  have om: "outermost_loop h l0 RB_RIGHT = Some m"
    using outermost_loop_end [of h "Some n" l0 l RB_RIGHT] ch(2) l0 il0 by (auto simp: m_def)
  note tp = take_place [OF f1 m h1(3)]
  show thesis
  proof
    show "do_remove h n = Some (rb_node_init n (adopt (up_node k) (Some m) (link_below (up_node k) n (Some m)
      (adopt (Some m) (top_node r) (set_child m RB_RIGHT (top_node r) (adopt (Some m) (top_node (drop_max l))
         (set_child m RB_LEFT (top_node (drop_max l)) h1)))))))"
      using l0 om h1(1) ch1 mn ch(1) by (simp add: do_remove.simps [of h n] Let_def)
    show "focus (rb_node_init n (adopt (up_node k) (Some m) (link_below (up_node k) n (Some m)
      (adopt (Some m) (top_node r) (set_child m RB_RIGHT (top_node r) (adopt (Some m) (top_node (drop_max l))
         (set_child m RB_LEFT (top_node (drop_max l)) h1))))))) k (drop_root (Br c l n r))"
      using tp two by (cases l; cases r) (simp_all add: m_def)
  qed
qed

lemma do_remove_core:
  assumes "rb_tree h t" "inorder t = xs @ n # ys"
  shows "\<exists>h' t'. do_remove h n = Some h' \<and> rb_tree h' t' \<and> inorder t' = xs @ ys"
proof -
  from assms obtain k c l r where f: "focus h k (Br c l n r)" and xs: "xs = pre k @ inorder l" "ys = inorder r @ post k"
    by (rule position_split)
  have "\<exists>h'. do_remove h n = Some h' \<and> focus h' k (drop_root (Br c l n r))"
  proof (cases "l = Tip \<or> r = Tip")
    case True
    then show ?thesis
      using do_remove_simple [OF f] by metis
  next
    case False
    then show ?thesis
      using do_remove_two [OF f] by metis
  qed
  then obtain h' where h': "do_remove h n = Some h'" "rb_tree h' (fill k (drop_root (Br c l n r)))"
    by (auto simp: rb_tree_focus)
  have "inorder (fill k (drop_root (Br c l n r))) = xs @ ys"
    by (simp add: inorder_drop_root rbt xs)
  with h' show ?thesis by blast
qed

text \<open>
  In a valid tree a node with one child is black and its child red, so \<^verbatim>\<open>rb_remove\<close> recolours the
  child and stops; for a leaf it stops at once.
\<close>

lemma has_bh_Tip: "has_bh t 0 \<Longrightarrow> invc t \<Longrightarrow> t = Tip \<or> col t = RB_RED"
  by (cases t rule: col.cases) (auto split: rb_color.splits elim: has_bh.elims)

lemma valid_one_child:
  assumes "rb_valid (fill k (Br c l n r))" "l = Tip \<or> r = Tip" "drop_root (Br c l n r) \<noteq> Tip"
  shows "c = RB_BLACK \<and> col (drop_root (Br c l n r)) = RB_RED"
proof -
  let ?t = "drop_root (Br c l n r)"
  obtain b where b: "has_bh (Br c l n r) b"
    using assms(1) has_bh_fill by (auto simp: rb_valid_def)
  have inv: "invc (Br c l n r)"
    using assms(1) by (simp add: rb_valid_def invc_fill)
  have t: "?t = (if l = Tip then r else l)"
    using assms(2) by (cases l; cases r) auto
  then have "has_bh ?t 0"
    using b assms(2,3) by (cases c) (auto split: if_splits)
  moreover have "invc ?t"
    using inv t by auto
  ultimately have "col ?t = RB_RED"
    using has_bh_Tip assms(3) by blast
  then show ?thesis
    using inv t by (cases c) (auto split: if_splits)
qed

lemma rb_remove_easy:
  assumes f: "focus h k (Br c l n r)" and v: "rb_valid (fill k (Br c l n r))" and tip: "l = Tip \<or> r = Tip"
  shows "\<exists>h'. rb_remove (Some n) h = Some (0, h') \<and> focus h' k (blacken (drop_root (Br c l n r)))"
proof -
  let ?t = "drop_root (Br c l n r)"
  obtain h1 where h1: "do_remove h n = Some h1" "focus h1 k ?t" "color h1 n = RB_BLACK"
    using do_remove_simple [OF f tip] by blast
  have ch: "child h n RB_LEFT = top_node l" "child h n RB_RIGHT = top_node r"
    using f by (auto simp: focus_def dest: rep_top)
  have t: "?t = (if l = Tip then r else l)"
    using tip by (cases l; cases r) auto
  have c: "child h n (dir_of (child h n RB_LEFT = None)) = top_node ?t"
    "child h n (flip (dir_of (child h n RB_LEFT = None))) = None"
    using ch tip t by (cases l; cases r; auto simp: dir_of_def)+
  show ?thesis
  proof (cases ?t)
    case Tip
    then show ?thesis
      using h1 c by (simp add: rb_remove_def)
  next
    case (Br c' l' m r')
    have red: "c' = RB_RED"
      using valid_one_child [OF v tip] Br by auto
    have "color h1 m = RB_RED"
      using h1(2) by (simp add: Br red focus_def)
    then have "rb_remove (Some n) h = Some (0, set_color m RB_BLACK h1)"
      using h1 c by (simp add: rb_remove_def Br)
    moreover have "m \<notin> ctx_nodes k" "m \<notin> set (inorder l')" "m \<notin> set (inorder r')"
      using focus_distinct [OF h1(2)] by (auto simp: Br)
    then have "focus (set_color m RB_BLACK h1) k (blacken ?t)"
      using focus_recolor [OF h1(2), of m RB_BLACK] by (simp add: Br)
    ultimately show ?thesis by blast
  qed
qed

lemma drop_valid:
  assumes v: "rb_valid (fill k (Br c l n r))" and tip: "l = Tip \<or> r = Tip" and leaf: "l = Tip \<and> r = Tip \<Longrightarrow> c = RB_RED"
  shows "rb_valid (fill k (blacken (drop_root (Br c l n r))))"
proof -
  let ?t = "drop_root (Br c l n r)"
  obtain b where b: "has_bh (Br c l n r) b" "ctx_bh b k"
    using v has_bh_fill by (auto simp: rb_valid_def)
  have inv: "invc (Br c l n r)" "ctx_ok c k"
    using v by (auto simp: rb_valid_def invc_fill)
  have t: "?t = (if l = Tip then r else l)"
    using tip by (cases l; cases r) auto
  have col: "ctx_ok RB_BLACK k"
    using inv(2) by (cases k rule: up_node.cases) auto
  have ht: "has_bh (blacken ?t) b"
  proof (cases ?t)
    case Tip
    then have "l = Tip" "r = Tip"
      using t tip by (auto split: if_splits)
    then show ?thesis
      using b leaf Tip by simp
  next
    case (Br c' l' m r')
    then have "c = RB_BLACK" "c' = RB_RED"
      using valid_one_child [OF v tip] by auto
    then show ?thesis
      using b(1) Br t tip by (auto split: if_splits)
  qed
  have "invc (blacken ?t)"
    using inv(1) t by (simp add: invc_blacken)
  moreover have bl: "col (blacken ?t) = RB_BLACK"
    by (cases ?t) auto
  ultimately have "invc (fill k (blacken ?t))"
    using col by (simp add: invc_fill)
  moreover obtain b' where "has_bh (fill k (blacken ?t)) b'"
    using ht b(2) has_bh_fill by blast
  moreover have "col (fill k (blacken ?t)) = RB_BLACK"
    using v bl col_fill [of k] by (cases "k = []") (auto simp: rb_valid_def)
  ultimately show ?thesis
    using has_bh_bh by (auto simp: rb_valid_def)
qed

lemma inorder_blacken [simp]: "inorder (blacken t) = inorder t"
  by (cases t) auto

lemma rb_remove_core:
  assumes "rb_tree h (fill k (Br c l n r))" "rb_valid (fill k (Br c l n r))" "l = Tip \<or> r = Tip"
  shows "\<exists>h' t'. rb_remove (Some n) h = Some (0, h') \<and> rb_tree h' t'
     \<and> inorder t' = pre k @ inorder l @ inorder r @ post k
     \<and> (l = Tip \<and> r = Tip \<and> c = RB_BLACK \<or> rb_valid t')"
proof -
  obtain h' where h': "rb_remove (Some n) h = Some (0, h')" "rb_tree h' (fill k (blacken (drop_root (Br c l n r))))"
    using rb_remove_easy [of h k c l n r] assms by (auto simp: rb_tree_focus)
  moreover have "inorder (fill k (blacken (drop_root (Br c l n r)))) = pre k @ inorder l @ inorder r @ post k"
    by (simp add: rbt inorder_drop_root)
  moreover have "l = Tip \<and> r = Tip \<and> c = RB_BLACK \<or> rb_valid (fill k (blacken (drop_root (Br c l n r))))"
    using drop_valid [OF assms(2,3)] color_cases by blast
  ultimately show ?thesis by blast
qed

section \<open>The properties\<close>

text \<open>The structure that represents a tree, for the examples.\<close>

fun load :: "'n option \<Rightarrow> 'n rtree \<Rightarrow> 'n rb \<Rightarrow> 'n rb" where
  "load p Tip h = h"
| "load p (Br c l n r) h = load (Some n) r (load (Some n) l
     (set_color n c (set_child n RB_RIGHT (top_node r) (set_child n RB_LEFT (top_node l) (set_parent n p h)))))"

definition heap_of :: "'n rtree \<Rightarrow> 'n rb" where
  "heap_of t = load None t \<lparr>parent = \<lambda>_. None, child = \<lambda>_ _. None, color = \<lambda>_. RB_BLACK, root = top_node t\<rparr>"

definition four :: "nat rtree" where
  "four = Br RB_BLACK (Br RB_BLACK Tip 0 (Br RB_RED Tip 1 Tip)) 2 (Br RB_BLACK Tip 3 Tip)"

definition seven :: "nat rtree" where
  "seven = Br RB_BLACK (Br RB_RED (Br RB_BLACK Tip 0 (Br RB_RED Tip 1 Tip)) 2 (Br RB_BLACK (Br RB_RED Tip 3 Tip) 4 Tip)) 5
             (Br RB_BLACK Tip 6 Tip)"

lemma four_tree: "rb_tree (heap_of four) four" "rb_valid four"
  by code_simp+

text \<open>The traversal of a tree follows the order of its nodes: \<^verbatim>\<open>rb_first\<close> and \<^verbatim>\<open>rb_last\<close> return its two
  ends, and for a node of the tree \<^verbatim>\<open>rb_next\<close> and \<^verbatim>\<open>rb_prev\<close> return its neighbours, or a null pointer at
  an end; in particular the loops return.\<close>

theorem rb_traversal:
  assumes "rb_tree h t" "inorder t = xs @ n # ys"
  shows "rb_first h = Some (end_of RB_LEFT (inorder t)) \<and> rb_last h = Some (end_of RB_RIGHT (inorder t))
       \<and> rb_next h (Some n) = Some (end_of RB_LEFT ys) \<and> rb_prev h (Some n) = Some (end_of RB_RIGHT xs)"
  using traversal_core [OF assms(1)] assms(2) by simp

theorem rb_traversal_witness:
  "rb_next (heap_of four) (Some 1) = Some (Some 2) \<and> rb_first (heap_of four) = Some (Some 0)"
  using rb_traversal [OF four_tree(1), of "[0]" 1 "[2, 3]"] by (simp add: four_def)

text \<open>C17. \<^verbatim>\<open>rb_balance\<close> after an insertion: when a new leaf \<open>n\<close> has been linked at a free place of a valid
  red-black tree, the call returns 0 and leaves a valid red-black tree with the same nodes in the
  same order, for every shape of the tree and every initial colour of the leaf.\<close>

theorem rb_balance_spec:
  assumes "rb_tree h (fill k (Br c Tip n Tip))" "rb_valid (fill k Tip)"
  shows "\<exists>h' t'. rb_balance (Some n) h = Some (0, h') \<and> rb_tree h' t' \<and> inorder t' = pre k @ n # post k
           \<and> rb_valid t'"
  using assms by (rule rb_balance_core)

theorem rb_balance_spec_witness:
  "\<exists>h' t'. rb_balance (Some 1) (heap_of (Br RB_BLACK Tip 0 (Br RB_RED (Br RB_BLACK Tip (1::nat) Tip) 2 Tip)))
     = Some (0, h') \<and> rb_tree h' t' \<and> inorder t' = [0, 1, 2] \<and> rb_valid t'"
proof -
  let ?k = "[(RB_LEFT, RB_RED, 2, Tip), (RB_RIGHT, RB_BLACK, 0, Tip)]"
  have "rb_tree (heap_of (Br RB_BLACK Tip 0 (Br RB_RED (Br RB_BLACK Tip (1::nat) Tip) 2 Tip)))
          (fill ?k (Br RB_BLACK Tip 1 Tip))" "rb_valid (fill ?k Tip)"
    by code_simp+
  from rb_balance_spec [OF this] show ?thesis by simp
qed

text \<open>C18. \<^verbatim>\<open>do_remove\<close> returns, and takes exactly the given node out of the tree; the order of the other
  nodes is unchanged.\<close>

theorem do_remove_spec:
  assumes "rb_tree h t" "inorder t = xs @ n # ys"
  shows "\<exists>h' t'. do_remove h n = Some h' \<and> rb_tree h' t' \<and> inorder t' = xs @ ys"
  using assms by (rule do_remove_core)

theorem do_remove_spec_witness:
  "\<exists>h' t'. do_remove (heap_of four) 2 = Some h' \<and> rb_tree h' t' \<and> inorder t' = [0, 1, 3]"
  using do_remove_spec [OF four_tree(1), of "[0, 1]" 2 "[3]"] by (simp add: four_def)

text \<open>
  \<^verbatim>\<open>rb_remove\<close> of a node with at most one child of a valid tree returns 0 and takes exactly that
  node out, keeping the order of the others; the tree stays valid unless the node was a black leaf.
\<close>

theorem rb_remove_one_child:
  assumes "rb_tree h (fill k (Br c l n r))" "rb_valid (fill k (Br c l n r))" "l = Tip \<or> r = Tip"
  shows "\<exists>h' t'. rb_remove (Some n) h = Some (0, h') \<and> rb_tree h' t'
     \<and> inorder t' = pre k @ inorder l @ inorder r @ post k
     \<and> (l = Tip \<and> r = Tip \<and> c = RB_BLACK \<or> rb_valid t')"
  using assms by (rule rb_remove_core)

theorem rb_remove_one_child_witness:
  "\<exists>h' t'. rb_remove (Some 0) (heap_of four) = Some (0, h') \<and> rb_tree h' t' \<and> inorder t' = [1, 2, 3] \<and> rb_valid t'"
proof -
  let ?k = "[(RB_LEFT, RB_BLACK, 2 :: nat, Br RB_BLACK Tip 3 Tip)]"
  have "rb_tree (heap_of four) (fill ?k (Br RB_BLACK Tip 0 (Br RB_RED Tip 1 Tip)))"
    "rb_valid (fill ?k (Br RB_BLACK Tip 0 (Br RB_RED Tip 1 Tip)))"
    using four_tree by (simp_all add: four_def br_def)
  from rb_remove_one_child [OF this] show ?thesis by simp
qed

text \<open>\<^verbatim>\<open>rb_remove\<close> does not keep the red-black property.  There is a valid tree of seven nodes, the
  one that \<^verbatim>\<open>rb_balance\<close> builds for the insertions 6, 5, 4, 2, 0, 1, 3, on which removing the node 2 has no
  defined result (the loop follows a null pointer), and a valid tree of four nodes on which removing
  a black leaf leaves paths with different numbers of black nodes.\<close>

theorem rb_remove_broken:
  "rb_tree (heap_of seven) seven \<and> rb_valid seven \<and> rb_remove (Some 2) (heap_of seven) = None
   \<and> rb_tree (heap_of four) four \<and> rb_valid four
   \<and> (\<exists>h' t'. rb_remove (Some 3) (heap_of four) = Some (0, h') \<and> rb_tree h' t' \<and> \<not> has_bh t' (bh t'))"
proof (intro conjI)
  show "rb_tree (heap_of seven) seven" "rb_valid seven"
    by code_simp+
  show "rb_remove (Some 2) (heap_of seven) = None"
    by code_simp
  show "rb_tree (heap_of four) four" "rb_valid four"
    by (fact four_tree)+
  have "(case rb_remove (Some 3) (heap_of four) of None \<Rightarrow> False
         | Some (r, h') \<Rightarrow> r = 0 \<and> rb_tree h' (Br RB_BLACK (Br RB_BLACK Tip 0 (Br RB_RED Tip 1 Tip)) 2 Tip))"
    by code_simp
  moreover have "\<not> has_bh (Br RB_BLACK (Br RB_BLACK Tip 0 (Br RB_RED Tip 1 Tip)) 2 Tip)
      (bh (Br RB_BLACK (Br RB_BLACK Tip 0 (Br RB_RED Tip 1 Tip)) 2 Tip))"
    by simp
  ultimately show "\<exists>h' t'. rb_remove (Some 3) (heap_of four) = Some (0, h') \<and> rb_tree h' t' \<and> \<not> has_bh t' (bh t')"
    by (fastforce split: option.splits)
qed

end
