(* ===== verification/VMA.thy ===== *)
theory VMA
  imports Slab RB_Tree_Remove Page_Walk
begin

text \<open>
  The virtual memory areas of a task: \<^verbatim>\<open>include/vma.h\<close> and \<^verbatim>\<open>find.c\<close>, \<^verbatim>\<open>insert.c\<close>, \<^verbatim>\<open>remove.c\<close>,
  \<^verbatim>\<open>merge.c\<close>, \<^verbatim>\<open>split.c\<close> and \<^verbatim>\<open>walk.c\<close> of \<^verbatim>\<open>kernel/vma\<close>.  An area is identified by the heap object
  that \<^verbatim>\<open>kmalloc\<close> returned for it; it is on two structures, the red-black tree \<^verbatim>\<open>task_rb\<close> and the
  list \<^verbatim>\<open>task_mmap\<close> of its task.  The state is that of one task, \<open>mm_task\<close>; \<open>machine\<close> holds the
  registers and the task table of the page tables, and the physical memory is that of the heap.
\<close>

section \<open>State\<close>

type_synonym vma_ptr = "nat \<times> nat"

record vma =
  vm_name :: string
  vm_base :: u64
  vm_end :: u64
  vm_src :: u64
  vm_len :: u64
  vm_flags :: u32

definition VM_READ :: u32 where "VM_READ = push_bit 0 1"
definition VM_WRITE :: u32 where "VM_WRITE = push_bit 1 1"
definition VM_EXEC :: u32 where "VM_EXEC = push_bit 2 1"
definition VM_DIRTY :: u32 where "VM_DIRTY = push_bit 4 1"

text \<open>\<^verbatim>\<open>sizeof(struct vma)\<close>: nine pointers, a \<^verbatim>\<open>size_t\<close> and two padded \<^verbatim>\<open>int\<close>s.\<close>

definition SIZEOF_VMA :: u64 where "SIZEOF_VMA = 96"

datatype mnode = Task_mmap | Vm_mmap vma_ptr

record mm =
  mm_task :: nat
  kheap :: kmem
  machine :: vm
  area :: "vma_ptr \<Rightarrow> vma"
  task_rb :: "vma_ptr rb"
  task_mmap :: "mnode lheap"

definition set_area :: "vma_ptr \<Rightarrow> vma \<Rightarrow> mm \<Rightarrow> mm" where
  "set_area v a s = s\<lparr>area := (area s)(v := a)\<rparr>"

section \<open>find.c\<close>

text \<open>The result is the area found, the last node visited and the direction taken there.\<close>

partial_function (option) find_loop ::
    "mm \<Rightarrow> u64 \<Rightarrow> vma_ptr option \<Rightarrow> vma_ptr option \<Rightarrow> vma_ptr option \<Rightarrow> rb_dir
      \<Rightarrow> (vma_ptr option \<times> vma_ptr option \<times> rb_dir) option" where
  "find_loop s addr node vma par dir =
     (case node of
        None \<Rightarrow> Some (vma, par, dir)
      | Some n \<Rightarrow>
          (let dir = dir_of (addr \<ge> vm_end (area s n))
           in if dir = RB_LEFT \<and> vm_base (area s n) \<le> addr then Some (Some n, Some n, dir)
              else find_loop s addr (child (task_rb s) n dir)
                     (if dir = RB_LEFT then Some n else vma) (Some n) dir))"

definition find_vma :: "u64 \<Rightarrow> mm \<Rightarrow> (vma_ptr option \<times> vma_ptr option \<times> rb_dir) option" where
  "find_vma addr s = find_loop s addr (root (task_rb s)) None None RB_LEFT"

definition task_find_vma :: "u64 \<Rightarrow> mm \<Rightarrow> vma_ptr option option" where
  "task_find_vma addr s =
     do { (vma, par, dir) \<leftarrow> find_vma addr s;
          Some (case vma of
                  None \<Rightarrow> None
                | Some v \<Rightarrow> if addr < vm_base (area s v) then None else Some v) }"

section \<open>insert.c\<close>

text \<open>The descent of \<^verbatim>\<open>insert_vma\<close>: \<open>Inl\<close> is the early return for an overlap.\<close>

partial_function (option) insert_loop ::
    "mm \<Rightarrow> vma_ptr \<Rightarrow> vma_ptr option \<Rightarrow> (vma_ptr \<times> rb_dir) option
      \<Rightarrow> (unit + (vma_ptr \<times> rb_dir) option) option" where
  "insert_loop s vma node lst =
     (case node of
        None \<Rightarrow> Some (Inr lst)
      | Some n \<Rightarrow>
          (let dir = dir_of (vm_base (area s vma) \<ge> vm_end (area s n))
           in if dir = RB_LEFT \<and> vm_end (area s vma) > vm_base (area s n) then Some (Inl ())
              else insert_loop s vma (child (task_rb s) n dir) (Some (n, dir))))"

definition insert_vma :: "vma_ptr \<Rightarrow> mm \<Rightarrow> (int \<times> mm) option" where
  "insert_vma vma s =
     do { r \<leftarrow> insert_loop s vma (root (task_rb s)) None;
          case r of
            Inl u \<Rightarrow> Some (-1, s)
          | Inr lst \<Rightarrow>
              do { let h = (case lst of
                              None \<Rightarrow> (task_rb s)\<lparr>root := Some vma\<rparr>
                            | Some (p, dir) \<Rightarrow> set_parent vma (Some p) (set_child p dir (Some vma) (task_rb s)));
                   (r, h) \<leftarrow> rb_balance (Some vma) h;
                   let s = s\<lparr>task_rb := h\<rparr>;
                   if r < 0 then Some (-1, s)
                   else Some (0, s\<lparr>task_mmap :=
                          (case lst of
                             None \<Rightarrow> list_insert_after Task_mmap (Vm_mmap vma) (task_mmap s)
                           | Some (p, RB_RIGHT) \<Rightarrow> list_insert_after (Vm_mmap p) (Vm_mmap vma) (task_mmap s)
                           | Some (p, RB_LEFT) \<Rightarrow> list_insert_before (Vm_mmap p) (Vm_mmap vma) (task_mmap s))\<rparr>) } }"

section \<open>remove.c\<close>

text \<open>The task and the area are not null; the result of \<^verbatim>\<open>rb_remove\<close> is not used.\<close>

definition remove_vma :: "vma_ptr \<Rightarrow> mm \<Rightarrow> mm option" where
  "remove_vma vma s =
     do { (r, h) \<leftarrow> rb_remove (Some vma) (task_rb s);
          let h = rb_node_init vma h;
          Some (s\<lparr>task_rb := h, task_mmap := list_del (Vm_mmap vma) (task_mmap s)\<rparr>) }"

definition kfree_vma :: "vma_ptr option \<Rightarrow> mm \<Rightarrow> mm option" where
  "kfree_vma vma s = map_option (\<lambda>k. s\<lparr>kheap := k\<rparr>) (kfree vma (kheap s))"

text \<open>The loop \<^verbatim>\<open>list_foreach_safe\<close> of \<^verbatim>\<open>free_vmas\<close>: the next node is read before the body runs.\<close>

partial_function (option) free_loop :: "mm \<Rightarrow> mnode \<Rightarrow> mnode \<Rightarrow> mm option" where
  "free_loop s node nxt =
     (case node of
        Task_mmap \<Rightarrow> Some s
      | Vm_mmap vma \<Rightarrow>
          do { s \<leftarrow> remove_vma vma s;
               s \<leftarrow> kfree_vma (Some vma) s;
               free_loop s nxt (lnext (task_mmap s) nxt) })"

definition free_vmas :: "mm \<Rightarrow> mm option" where
  "free_vmas s = (let node = lnext (task_mmap s) Task_mmap in free_loop s node (lnext (task_mmap s) node))"

section \<open>merge.c\<close>

definition merge_vma :: "vma_ptr \<Rightarrow> vma_ptr \<Rightarrow> mm \<Rightarrow> (vma_ptr option \<times> mm) option" where
  "merge_vma lhs rhs s =
     (let l = area s lhs; r = area s rhs
      in if \<not> page_aligned (vm_base l) \<or> \<not> page_aligned (vm_end l) \<or> \<not> page_aligned (vm_base r)
              \<or> \<not> page_aligned (vm_end r) then Some (None, s)
         else if vm_end l \<noteq> vm_base r then Some (None, s)
         else if vm_flags l \<noteq> vm_flags r then Some (None, s)
         else if vm_name l \<noteq> vm_name r then Some (None, s)
         else if vm_src l \<noteq> vm_src r then Some (None, s)
         else if vm_len l \<noteq> vm_len r then Some (None, s)
         else do { let s = set_area lhs (l\<lparr>vm_end := vm_end r\<rparr>) s;
                   s \<leftarrow> remove_vma rhs s;
                   s \<leftarrow> kfree_vma (Some rhs) s;
                   Some (Some lhs, s) })"

definition merge_vmas :: "vma_ptr \<Rightarrow> mm \<Rightarrow> (vma_ptr \<times> mm) option" where
  "merge_vmas vma s =
     do { (vma, s) \<leftarrow> (case lprev (task_mmap s) (Vm_mmap vma) of
                         Task_mmap \<Rightarrow> Some (vma, s)
                       | Vm_mmap prv \<Rightarrow> do { (merged, s) \<leftarrow> merge_vma prv vma s;
                                             Some (case merged of Some m \<Rightarrow> m | None \<Rightarrow> vma, s) });
          (case lnext (task_mmap s) (Vm_mmap vma) of
             Task_mmap \<Rightarrow> Some (vma, s)
           | Vm_mmap nxt \<Rightarrow> do { (merged, s) \<leftarrow> merge_vma vma nxt s;
                                 Some (case merged of Some m \<Rightarrow> m | None \<Rightarrow> vma, s) }) }"

section \<open>Adding areas\<close>

definition kmalloc_vma :: "mm \<Rightarrow> (vma_ptr option \<times> mm) option" where
  "kmalloc_vma s = map_option (\<lambda>(v, k). (v, s\<lparr>kheap := k\<rparr>)) (kmalloc SIZEOF_VMA (kheap s))"

text \<open>\<^verbatim>\<open>list_init(&v->vm_mmap)\<close> and \<^verbatim>\<open>rb_node_init(&v->vm_rb)\<close>.\<close>

definition init_links :: "vma_ptr \<Rightarrow> mm \<Rightarrow> mm" where
  "init_links v s = s\<lparr>task_mmap := list_init (Vm_mmap v) (task_mmap s), task_rb := rb_node_init v (task_rb s)\<rparr>"

definition add_executable_vma ::
    "string \<Rightarrow> u64 \<Rightarrow> u64 \<Rightarrow> u32 \<Rightarrow> u64 \<Rightarrow> u64 \<Rightarrow> mm \<Rightarrow> (vma_ptr option \<times> mm) option" where
  "add_executable_vma name addr sz flags src len s =
     do { (vma, s) \<leftarrow> kmalloc_vma s;
          case vma of
            None \<Rightarrow> do { s \<leftarrow> kfree_vma None s; Some (None, s) }
          | Some v \<Rightarrow>
              do { let s = init_links v s;
                   let s = set_area v \<lparr>vm_name = name, vm_base = addr, vm_end = addr + sz, vm_src = src,
                                       vm_len = len, vm_flags = flags\<rparr> s;
                   (r, s) \<leftarrow> insert_vma v s;
                   if r < 0 then Some (None, s)
                   else do { (v, s) \<leftarrow> merge_vmas v s; Some (Some v, s) } } }"

definition add_anonymous_vma :: "string \<Rightarrow> u64 \<Rightarrow> u64 \<Rightarrow> u32 \<Rightarrow> mm \<Rightarrow> (vma_ptr option \<times> mm) option" where
  "add_anonymous_vma name addr sz flags = add_executable_vma name addr sz flags 0 0"

text \<open>One of the three scans of \<^verbatim>\<open>add_vma\<close>: from \<open>base\<close> downwards while \<open>cond base\<close> holds.\<close>

partial_function (option) scan_loop ::
    "(u64 \<Rightarrow> bool) \<Rightarrow> string \<Rightarrow> u64 \<Rightarrow> u32 \<Rightarrow> u64 \<Rightarrow> mm \<Rightarrow> (vma_ptr option \<times> mm) option" where
  "scan_loop cond name sz flags base s =
     (if \<not> cond base then Some (None, s)
      else do { (vma, s) \<leftarrow> add_executable_vma name base sz flags 0 0 s;
                case vma of
                  Some v \<Rightarrow> Some (Some v, s)
                | None \<Rightarrow> scan_loop cond name sz flags (base - sz) s })"

definition add_vma :: "string \<Rightarrow> u64 \<Rightarrow> u64 \<Rightarrow> u32 \<Rightarrow> mm \<Rightarrow> (vma_ptr option \<times> mm) option" where
  "add_vma name addr sz flags s =
     (let sz = (sz + PAGE_SIZE - 1) AND NOT (PAGE_SIZE - 1)
      in if addr \<noteq> 0 then
           do { (vma, s) \<leftarrow> add_executable_vma name addr sz flags 0 0 s;
                case vma of
                  Some v \<Rightarrow> Some (Some v, s)
                | None \<Rightarrow>
                    do { (vma, s) \<leftarrow> scan_loop (\<lambda>base. base \<ge> PAGE_SIZE) name sz flags addr s;
                         case vma of
                           Some v \<Rightarrow> Some (Some v, s)
                         | None \<Rightarrow> scan_loop (\<lambda>base. base > addr) name sz flags (USER_LIM - sz) s } }
         else scan_loop (\<lambda>base. base \<ge> PAGE_SIZE) name sz flags (USER_LIM - sz) s)"

section \<open>split.c\<close>

definition split_vma :: "vma_ptr \<Rightarrow> u64 \<Rightarrow> mm \<Rightarrow> (vma_ptr option \<times> mm) option" where
  "split_vma lhs addr s =
     (if addr \<le> vm_base (area s lhs) \<or> addr \<ge> vm_end (area s lhs) then Some (Some lhs, s)
      else do { (rhs, s) \<leftarrow> kmalloc_vma s;
                case rhs of
                  None \<Rightarrow> Some (None, s)
                | Some rhs \<Rightarrow>
                    do { let l = area s lhs;
                         let s = set_area rhs (l\<lparr>vm_base := addr, vm_len := vm_end l - addr\<rparr>) s;
                         let s = set_area lhs (l\<lparr>vm_end := addr, vm_len := addr - vm_base l\<rparr>) s;
                         let s = init_links rhs s;
                         (r, s) \<leftarrow> insert_vma rhs s;
                         if r < 0 then do { s \<leftarrow> kfree_vma (Some rhs) s; Some (None, s) }
                         else Some (Some rhs, s) } })"

definition split_vmas :: "vma_ptr \<Rightarrow> u64 \<Rightarrow> u64 \<Rightarrow> mm \<Rightarrow> (vma_ptr option \<times> mm) option" where
  "split_vmas vma base sz s =
     do { (middle, s) \<leftarrow> (if vm_base (area s vma) < base then split_vma vma base s else Some (Some vma, s));
          case middle of
            None \<Rightarrow> Some (None, s)
          | Some m \<Rightarrow>
              if vm_end (area s m) > base + sz
              then do { (rhs, s) \<leftarrow> split_vma m (base + sz) s;
                        Some (case rhs of None \<Rightarrow> None | Some r \<Rightarrow> Some m, s) }
              else Some (Some m, s) }"

section \<open>walk.c\<close>

text \<open>A callback \<^verbatim>\<open>get_vma\<close> works on the user data and the state.\<close>

type_synonym 'u vma_cb = "u64 \<Rightarrow> u64 \<Rightarrow> vma_ptr \<Rightarrow> 'u \<times> mm \<Rightarrow> (int \<times> 'u \<times> mm) option"

partial_function (option) walk_vmas ::
    "'u vma_cb \<Rightarrow> u64 \<Rightarrow> u64 \<Rightarrow> vma_ptr option \<Rightarrow> 'u \<times> mm \<Rightarrow> (int \<times> 'u \<times> mm) option" where
  "walk_vmas get_vma base sz vma us =
     (case vma of
        None \<Rightarrow> Some (0, us)
      | Some v \<Rightarrow>
          if \<not> vm_base (area (snd us) v) < base + sz then Some (0, us)
          else do { let nxt = list_next (task_mmap (snd us)) Task_mmap (Vm_mmap v);
                    (ret, us) \<leftarrow> get_vma base sz v us;
                    if ret < 0 then Some (ret, us)
                    else (case nxt of
                            None \<Rightarrow> walk_vmas get_vma base sz None us
                          | Some Task_mmap \<Rightarrow> None
                          | Some (Vm_mmap n) \<Rightarrow> walk_vmas get_vma base sz (Some n) us) })"

definition walk_vma_range :: "u64 \<Rightarrow> u64 \<Rightarrow> 'u vma_cb \<Rightarrow> 'u \<times> mm \<Rightarrow> (int \<times> 'u \<times> mm) option" where
  "walk_vma_range base sz get_vma us =
     do { (vma, par, dir) \<leftarrow> find_vma base (snd us);
          case vma of
            None \<Rightarrow> Some (-1, us)
          | Some v \<Rightarrow> if base + sz \<le> vm_base (area (snd us) v) then Some (-1, us)
                      else walk_vmas get_vma base sz (Some v) us }"

declare find_loop.simps [code] insert_loop.simps [code] free_loop.simps [code] scan_loop.simps [code]
  walk_vmas.simps [code]

end
