(* ===== verification/Object_Heap.thy ===== *)
theory Object_Heap
  imports Slab
begin

text \<open>
  The contract the clients of \<^verbatim>\<open>kmalloc\<close> and \<^verbatim>\<open>kfree\<close> rely on, and its proof for a size class of
  the slab heap.  The state of the heap is abstracted to the set of the objects handed out.
\<close>

locale object_heap =
  fixes inv :: "'k \<Rightarrow> 'o set \<Rightarrow> bool"
    and alloc :: "'k \<Rightarrow> ('o option \<times> 'k) option"
    and release :: "'o \<Rightarrow> 'k \<Rightarrow> 'k option"
  assumes alloc_law: "inv k live \<Longrightarrow>
      (\<exists>k'. alloc k = Some (None, k') \<and> inv k' live) \<or>
      (\<exists>p k'. alloc k = Some (Some p, k') \<and> p \<notin> live \<and> inv k' (insert p live))"
    and release_law: "inv k live \<Longrightarrow> p \<in> live \<Longrightarrow> \<exists>k'. release p k = Some k' \<and> inv k' (live - {p})"
begin

lemma alloc_cases [consumes 1, case_names none some]:
  assumes "inv k live"
  obtains k' where "alloc k = Some (None, k')" "inv k' live"
  | p k' where "alloc k = Some (Some p, k')" "p \<notin> live" "inv k' (insert p live)"
  using alloc_law [OF assms] by blast

lemma alloc_release:
  assumes "inv k live" "alloc k = Some (Some p, k')"
  shows "\<exists>k''. release p k' = Some k'' \<and> inv k'' live"
proof -
  from alloc_law [OF assms(1)] assms(2) have "p \<notin> live" "inv k' (insert p live)"
    by auto
  then show ?thesis
    using release_law [of k' "insert p live" p] by auto
qed

end

text \<open>The consistent heap of the CPU that is running.\<close>

definition own_heap :: "nat \<Rightarrow> kmem \<Rightarrow> (nat \<times> nat) set \<Rightarrow> bool" where
  "own_heap c k live \<longleftrightarrow> heap_ok c k live \<and> cpu (phys k) = c"

definition small_size :: "u64 \<Rightarrow> bool" where
  "small_size sz \<longleftrightarrow> sz \<noteq> 0 \<and> unat sz \<le> 1024"

lemma kmalloc_slab:
  assumes "heap_ok c k live" "cpu (phys k) = c" "small_size sz"
  obtains i where "i < 32" "kmalloc sz k = slab_alloc (SlabId c i) k"
proof -
  have nz: "sz \<noteq> 0" and le: "unat sz \<le> 1024"
    using assms(3) by (auto simp: small_size_def)
  define i where "i = (unat sz - 1) div 32"
  have ix: "ROUNDUP sz SLAB_ALIGN div SLAB_ALIGN - 1 < 32" "unat (ROUNDUP sz SLAB_ALIGN div SLAB_ALIGN - 1) = i"
    unfolding i_def using kmalloc_index [OF nz] le by blast+
  have n: "nslabs k c = 32"
    using assms(1) by (simp add: heap_ok_def)
  have "kmalloc sz k = slab_alloc (SlabId c i) k"
    using ix nz n assms(2) by (auto simp: kmalloc_def Let_def dest: leD)
  moreover have "i < 32"
    using le nz by (auto simp: i_def)
  ultimately show thesis
    using that by blast
qed

lemma kmalloc_cpu:
  assumes "own_heap c k live" "small_size sz" "kmalloc sz k = Some (r, k')"
  shows "cpu (phys k') = c"
proof -
  have h: "heap_ok c k live" "cpu (phys k) = c"
    using assms(1) by (auto simp: own_heap_def)
  obtain i where i: "i < 32" "kmalloc sz k = slab_alloc (SlabId c i) k"
    using kmalloc_slab [OF h assms(2)] by blast
  obtain S g where S: "\<forall>i<32. SlabId c i \<in> S" and g: "slab_rep None S g k"
    using h(1) by (auto simp: heap_ok_def)
  then have "SlabId c i \<in> S"
    using i(1) by blast
  from slab_alloc_rep [OF g this] show ?thesis
    using assms(3) i(2) h(2) by (auto simp: slab_alloc_post_def phys_keeps_def)
qed

lemma kfree_heap:
  assumes "own_heap c k live" "p \<in> live"
  shows "\<exists>k'. kfree (Some p) k = Some k' \<and> own_heap c k' (live - {p})"
proof -
  obtain S g where S: "\<forall>i<32. SlabId c i \<in> S" and r: "slab_rep None S g k" and l: "live_objs S g k = live"
    and n: "nslabs k c = 32" and std: "std_slabs c 32 k"
    using assms(1) by (auto simp: heap_ok_def own_heap_def)
  obtain k' where k': "slab_free p k = Some k'" "slab_free_post S g k p k'"
    using slab_free_rep [OF r, of "fst p" "snd p"] assms(2) l by auto
  then obtain g' where "slab_rep None S g' k'" "live_objs S g' k' = live - {p}"
    and "slabs k' = slabs k" "nslabs k' = nslabs k" "cpu (phys k') = cpu (phys k)"
    using l by (auto simp: slab_free_post_def phys_keeps_def)
  then have "own_heap c k' (live - {p})"
    using S n std assms(1) unfolding own_heap_def heap_ok_def std_slabs_def by auto
  then show ?thesis
    using k'(1) by (simp add: kfree_def)
qed

lemma kmalloc_heap:
  assumes "own_heap c k live" "small_size sz"
  shows "(\<exists>k'. kmalloc sz k = Some (None, k') \<and> own_heap c k' live) \<or>
     (\<exists>p k'. kmalloc sz k = Some (Some p, k') \<and> p \<notin> live \<and> own_heap c k' (insert p live))"
proof -
  have h: "heap_ok c k live" "cpu (phys k) = c"
    using assms(1) by (auto simp: own_heap_def)
  show ?thesis
    using kmalloc_rep [OF h, of sz] kmalloc_cpu [OF assms] assms(2)
    by (auto simp: small_size_def own_heap_def split: if_splits)
qed

text \<open>An allocation takes at most one frame.\<close>

lemma slab_take_phys: "slab_take s k = Some (r, k') \<Longrightarrow> phys k' = phys k"
  by (auto simp: slab_take_def upd_slinks_def Let_def split: snode.splits if_splits)

lemma kmalloc_frames:
  assumes "own_heap c k live" "small_size sz" "kmalloc sz k = Some (r, k')"
  shows "\<exists>pg. free_frames (phys k) - {pg} \<subseteq> free_frames (phys k')"
proof -
  have h: "heap_ok c k live" "cpu (phys k) = c"
    using assms(1) by (auto simp: own_heap_def)
  obtain i where i: "i < 32" "kmalloc sz k = slab_alloc (SlabId c i) k"
    using kmalloc_slab [OF h assms(2)] by blast
  obtain S g where S: "\<forall>i<32. SlabId c i \<in> S" and g: "slab_rep None S g k"
    using h(1) by (auto simp: heap_ok_def)
  then have "SlabId c i \<in> S"
    using i(1) by blast
  from slab_alloc_chunk_rep [OF g this] show ?thesis
    using assms(3) i(2) by (auto simp: slab_alloc_def dest!: slab_take_phys split: if_splits) (metis order_refl)
qed

text \<open>Every size class satisfies the contract; a client interprets it at the size of its structure.\<close>

lemma small_heap:
  assumes "small_size sz"
  shows "object_heap (own_heap c) (kmalloc sz) (\<lambda>p. kfree (Some p))"
  by unfold_locales (use kmalloc_heap [OF _ assms] kfree_heap in auto)

end
