(* ===== verification/VMA_Inv.thy ===== *)
theory VMA_Inv
  imports VMA Object_Heap
begin

text \<open>
  The areas of a task as a list of disjoint intervals in the order of their addresses.  The tree
  and the linked list both represent that list (\<open>areas\<close>); searching, inserting, splitting and
  merging are specified on it.
\<close>

section \<open>The list of the areas\<close>

definition overlaps :: "vma \<Rightarrow> vma \<Rightarrow> bool" where
  "overlaps a b \<longleftrightarrow> vm_base a < vm_end b \<and> vm_base b < vm_end a"

definition ordered :: "(vma_ptr \<Rightarrow> vma) \<Rightarrow> vma_ptr list \<Rightarrow> bool" where
  "ordered A xs \<longleftrightarrow> sorted_wrt (\<lambda>x y. vm_end (A x) \<le> vm_base (A y)) xs
     \<and> (\<forall>x\<in>set xs. vm_base (A x) < vm_end (A x))"

definition areas :: "mm \<Rightarrow> vma_ptr list \<Rightarrow> bool" where
  "areas s xs \<longleftrightarrow> (\<exists>t. rb_tree (task_rb s) t \<and> inorder t = xs)
     \<and> dlist (task_mmap s) Task_mmap (map Vm_mmap xs) \<and> ordered (area s) xs"

text \<open>The same with a balanced tree, as \<^verbatim>\<open>rb_balance\<close> expects it.\<close>

definition balanced_areas :: "mm \<Rightarrow> vma_ptr list \<Rightarrow> bool" where
  "balanced_areas s xs \<longleftrightarrow> areas s xs \<and> (\<exists>t. rb_tree (task_rb s) t \<and> rb_valid t)"

lemma ordered_append:
  "ordered A (xs @ ys) \<longleftrightarrow> ordered A xs \<and> ordered A ys \<and> (\<forall>x\<in>set xs. \<forall>y\<in>set ys. vm_end (A x) \<le> vm_base (A y))"
  by (auto simp: ordered_def sorted_wrt_append)

lemma ordered_Cons:
  "ordered A (x # xs) \<longleftrightarrow> vm_base (A x) < vm_end (A x) \<and> ordered A xs
     \<and> (\<forall>y\<in>set xs. vm_end (A x) \<le> vm_base (A y))"
  by (auto simp: ordered_def)

lemma ordered_Nil [simp]: "ordered A []"
  by (simp add: ordered_def)

lemma ordered_cong: "(\<And>x. x \<in> set xs \<Longrightarrow> A x = B x) \<Longrightarrow> ordered A xs = ordered B xs"
  by (induction xs) (auto simp: ordered_Cons)

lemma areas_cong:
  "task_rb s' = task_rb s \<Longrightarrow> task_mmap s' = task_mmap s \<Longrightarrow> (\<And>x. x \<in> set xs \<Longrightarrow> area s' x = area s x) \<Longrightarrow>
   areas s' xs = areas s xs"
  using ordered_cong [of xs "area s'" "area s"] by (auto simp: areas_def)

text \<open>The tree that represents a heap of nodes is unique.\<close>

lemma rep_unique: "rep h p x t \<Longrightarrow> rep h p x t' \<Longrightarrow> t = t'"
proof (induction t arbitrary: p x t')
  case Tip
  then show ?case
    by (cases t') auto
next
  case (Br c l n r)
  then show ?case
    by (cases t') auto
qed

lemma rb_tree_unique: "rb_tree h t \<Longrightarrow> rb_tree h t' \<Longrightarrow> t = t'"
  unfolding rb_tree_def using rep_unique by blast

section \<open>Searching\<close>

text \<open>The first area that ends after an address.\<close>

definition first_after :: "(vma_ptr \<Rightarrow> vma) \<Rightarrow> u64 \<Rightarrow> vma_ptr list \<Rightarrow> vma_ptr option" where
  "first_after A addr xs = end_of RB_LEFT (filter (\<lambda>x. addr < vm_end (A x)) xs)"

lemma find_loop_first:
  assumes "rep (task_rb s) p x t" "ordered (area s) (inorder t)"
  shows "\<exists>par' dir'. find_loop s addr x vma par dir =
    Some (case first_after (area s) addr (inorder t) of Some y \<Rightarrow> Some y | None \<Rightarrow> vma, par', dir')"
  using assms
proof (induction t arbitrary: p x vma par dir)
  case Tip
  then show ?case
    by (simp add: find_loop.simps first_after_def)
next
  case (Br c l n r)
  let ?A = "area s"
  have x: "x = Some n" and l: "rep (task_rb s) (Some n) (child (task_rb s) n RB_LEFT) l" "ordered ?A (inorder l)"
    and r: "rep (task_rb s) (Some n) (child (task_rb s) n RB_RIGHT) r" "ordered ?A (inorder r)"
    and n: "vm_base (?A n) < vm_end (?A n)"
    using Br.prems by (auto simp: ordered_append ordered_Cons)
  have before: "filter (\<lambda>y. addr < vm_end (?A y)) (inorder l) = []" if "vm_base (?A n) \<le> addr"
    using Br.prems that by (force simp: ordered_append filter_empty_conv)
  consider "vm_end (?A n) \<le> addr" | "addr < vm_end (?A n)" "vm_base (?A n) \<le> addr" | "addr < vm_base (?A n)"
    by fastforce
  then show ?case
  proof cases
    case 1
    then have "vm_base (?A n) \<le> addr" "\<not> addr < vm_end (?A n)"
      using n by auto
    then have "first_after ?A addr (inorder (Br c l n r)) = first_after ?A addr (inorder r)"
      using before by (simp add: first_after_def)
    then show ?thesis
      using Br.IH(2) [OF r, of vma "Some n" RB_RIGHT] 1 by (simp add: find_loop.simps [of s addr "Some n"] x dir_of_def)
  next
    case 2
    then have "first_after ?A addr (inorder (Br c l n r)) = Some n"
      using before by (simp add: first_after_def)
    moreover have "\<not> vm_end (?A n) \<le> addr"
      using 2 by simp
    ultimately show ?thesis
      using 2 by (simp add: find_loop.simps [of s addr "Some n"] x dir_of_def)
  next
    case 3
    then have "addr < vm_end (?A n)"
      using n by simp
    then have lt: "addr < vm_end (?A n)" "\<not> vm_end (?A n) \<le> addr" "\<not> vm_base (?A n) \<le> addr"
      using 3 by auto
    then have "(case first_after ?A addr (inorder (Br c l n r)) of Some y \<Rightarrow> Some y | None \<Rightarrow> vma)
             = (case first_after ?A addr (inorder l) of Some y \<Rightarrow> Some y | None \<Rightarrow> Some n)"
      by (auto simp: first_after_def split: list.split option.split)
    then show ?thesis
      using Br.IH(1) [OF l, of "Some n" "Some n" RB_LEFT] 3 lt
      by (simp add: find_loop.simps [of s addr "Some n"] x dir_of_def)
  qed
qed

lemma find_vma_first:
  assumes "areas s xs"
  shows "\<exists>par dir. find_vma addr s = Some (first_after (area s) addr xs, par, dir)"
proof -
  obtain t where t: "rb_tree (task_rb s) t" "inorder t = xs"
    using assms by (auto simp: areas_def)
  then have "rep (task_rb s) None (root (task_rb s)) t" "ordered (area s) (inorder t)"
    using assms by (auto simp: areas_def rb_tree_def)
  from find_loop_first [OF this, of addr None None RB_LEFT] show ?thesis
    by (auto simp: find_vma_def t split: option.splits)
qed

section \<open>Inserting\<close>

fun lst_of :: "'n ctx \<Rightarrow> ('n \<times> rb_dir) option" where
  "lst_of [] = None"
| "lst_of ((d, c, n, s) # k) = Some (n, d)"

text \<open>The place of a new area between those before and those after it.\<close>

definition place :: "(vma_ptr \<Rightarrow> vma) \<Rightarrow> vma_ptr \<Rightarrow> vma_ptr list \<Rightarrow> vma_ptr list \<Rightarrow> bool" where
  "place A v as bs \<longleftrightarrow> (\<forall>x\<in>set as. vm_end (A x) \<le> vm_base (A v)) \<and> (\<forall>x\<in>set bs. vm_end (A v) \<le> vm_base (A x))"

definition insert_result :: "mm \<Rightarrow> vma_ptr \<Rightarrow> vma_ptr ctx \<Rightarrow> vma_ptr rtree \<Rightarrow> bool" where
  "insert_result s v k t \<longleftrightarrow>
     (if \<exists>x\<in>set (inorder t). overlaps (area s v) (area s x)
      then insert_loop s v (top_node t) (lst_of k) = Some (Inl ())
      else \<exists>k' as bs. insert_loop s v (top_node t) (lst_of k) = Some (Inr (lst_of k'))
             \<and> fill k' Tip = fill k t \<and> inorder t = as @ bs \<and> pre k' = pre k @ as \<and> post k' = bs @ post k
             \<and> place (area s) v as bs)"

lemma insert_result_down:
  assumes "insert_result s v ((d, c, n, u) # k) t"
      and "insert_loop s v (Some n) (lst_of k) = insert_loop s v (top_node t) (Some (n, d))"
      and "d = RB_LEFT \<Longrightarrow> place (area s) v [] (n # inorder u)" "d = RB_RIGHT \<Longrightarrow> place (area s) v (inorder u @ [n]) []"
  shows "insert_result s v k (br d c t n u)"
proof -
  have no: "\<not> overlaps (area s v) (area s x)" if "x = n \<or> x \<in> set (inorder u)" for x
    using assms(3,4) that by (cases d) (auto simp: overlaps_def place_def)
  show ?thesis
  proof (cases "\<exists>x\<in>set (inorder t). overlaps (area s v) (area s x)")
    case True
    then show ?thesis
      using assms(1,2) by (auto simp: insert_result_def inorder_br rbt)
  next
    case False
    then obtain k' as bs where k': "insert_loop s v (top_node t) (Some (n, d)) = Some (Inr (lst_of k'))"
      "fill k' Tip = fill k (br d c t n u)" "inorder t = as @ bs" "pre k' = pre ((d, c, n, u) # k) @ as"
      "post k' = bs @ post ((d, c, n, u) # k)" "place (area s) v as bs"
      using assms(1) by (auto simp: insert_result_def)
    have nov: "\<not> (\<exists>x\<in>set (inorder (br d c t n u)). overlaps (area s v) (area s x))"
      using False no by (auto simp: inorder_br)
    show ?thesis
    proof (cases d)
      case RB_LEFT
      then have "inorder (br d c t n u) = as @ (bs @ n # inorder u)" "pre k' = pre k @ as"
        "post k' = (bs @ n # inorder u) @ post k" "place (area s) v as (bs @ n # inorder u)"
        using k' assms(3) by (auto simp: br_def place_def)
      then show ?thesis
        unfolding insert_result_def top_br using nov k'(1,2) assms(2) by fastforce
    next
      case RB_RIGHT
      then have "inorder (br d c t n u) = (inorder u @ n # as) @ bs" "pre k' = pre k @ (inorder u @ n # as)"
        "post k' = bs @ post k" "place (area s) v (inorder u @ n # as) bs"
        using k' assms(4) by (auto simp: br_def place_def)
      then show ?thesis
        unfolding insert_result_def top_br using nov k'(1,2) assms(2) by fastforce
    qed
  qed
qed

lemma insert_loop_result:
  assumes "focus (task_rb s) k t" "ordered (area s) (inorder t)"
  shows "insert_result s v k t"
  using assms
proof (induction t arbitrary: k)
  case Tip
  have "insert_loop s v None (lst_of k) = Some (Inr (lst_of k))"
    by (simp add: insert_loop.simps)
  then show ?case
    by (auto simp: insert_result_def place_def intro!: exI [of _ k])
next
  case (Br c l n r)
  let ?A = "area s"
  have l: "focus (task_rb s) ((RB_LEFT, c, n, r) # k) l" "ordered ?A (inorder l)"
    and r: "focus (task_rb s) ((RB_RIGHT, c, n, l) # k) r" "ordered ?A (inorder r)"
    and n: "vm_base (?A n) < vm_end (?A n)"
    and ln: "\<forall>x\<in>set (inorder l). vm_end (?A x) \<le> vm_base (?A n)"
    and nr: "\<forall>x\<in>set (inorder r). vm_end (?A n) \<le> vm_base (?A x)"
    using Br.prems by (auto simp: ordered_append ordered_Cons focus_up br_def)
  have ch: "child (task_rb s) n RB_LEFT = top_node l" "child (task_rb s) n RB_RIGHT = top_node r"
    using Br.prems(1) by (auto simp: focus_def dest: rep_top)
  consider (right) "vm_end (?A n) \<le> vm_base (?A v)"
    | (hit) "vm_base (?A v) < vm_end (?A n)" "vm_base (?A n) < vm_end (?A v)"
    | (left) "vm_base (?A v) < vm_end (?A n)" "vm_end (?A v) \<le> vm_base (?A n)"
    by fastforce
  then show ?case
  proof cases
    case right
    have "insert_result s v k (br RB_RIGHT c r n l)"
    proof (rule insert_result_down [OF Br.IH(2) [OF r]])
      show "insert_loop s v (Some n) (lst_of k) = insert_loop s v (top_node r) (Some (n, RB_RIGHT))"
        using right by (simp add: insert_loop.simps [of s v "Some n"] dir_of_def ch)
      show "place ?A v (inorder l @ [n]) []"
        using right n ln by (force simp: place_def)
    qed simp
    then show ?thesis
      by (simp add: br_def)
  next
    case hit
    then have "overlaps (?A v) (?A n)" "\<not> vm_end (?A n) \<le> vm_base (?A v)"
      by (auto simp: overlaps_def)
    then show ?thesis
      using hit by (auto simp: insert_result_def insert_loop.simps [of s v "Some n"] dir_of_def)
  next
    case left
    have "insert_result s v k (br RB_LEFT c l n r)"
    proof (rule insert_result_down [OF Br.IH(1) [OF l]])
      have "\<not> vm_end (?A n) \<le> vm_base (?A v)" "\<not> vm_base (?A n) < vm_end (?A v)"
        using left by auto
      then show "insert_loop s v (Some n) (lst_of k) = insert_loop s v (top_node l) (Some (n, RB_LEFT))"
        by (simp add: insert_loop.simps [of s v "Some n"] dir_of_def ch)
      show "place ?A v [] (n # inorder r)"
        using left n nr by (force simp: place_def)
    qed simp
    then show ?thesis
      by (simp add: br_def)
  qed
qed

text \<open>Linking a leaf at a free place of the tree.\<close>

definition link_leaf :: "'n \<Rightarrow> ('n \<times> rb_dir) option \<Rightarrow> 'n rb \<Rightarrow> 'n rb" where
  "link_leaf v lst h = (case lst of
       None \<Rightarrow> h\<lparr>root := Some v\<rparr>
     | Some (p, dir) \<Rightarrow> set_parent v (Some p) (set_child p dir (Some v) h))"

lemma link_leaf_focus:
  assumes f: "focus h k Tip" and v: "v \<notin> ctx_nodes k" "parent h v = None" "child h v = (\<lambda>_. None)"
  shows "focus (link_leaf v (lst_of k) h) k (Br (color h v) Tip v Tip)"
proof (cases k)
  case Nil
  then show ?thesis
    using v by (simp add: focus_def link_leaf_def)
next
  case (Cons e k')
  obtain d c p s where e: "e = (d, c, p, s)"
    by (cases e)
  let ?h = "link_leaf v (lst_of k) h"
  have dis: "distinct (pre k @ post k)"
    using f by (simp add: focus_def rbt)
  have ne: "v \<noteq> p" "p \<notin> set (inorder s)" "p \<notin> ctx_nodes k'" "v \<notin> set (inorder s)" "v \<notin> ctx_nodes k'"
    using dis v(1) by (cases d; auto simp: Cons e ctx_nodes_def)+
  have h: "?h = set_parent v (Some p) (set_child p d (Some v) h)"
    by (simp add: link_leaf_def Cons e)
  have "agree h ?h (set (inorder s))" "agree h ?h (ctx_nodes k')" "root ?h = root h"
    using ne by (auto simp: agree_def h)
  then have "rep_ctx ?h (Some v) k"
    using f ne by (simp add: focus_def Cons e rep_agree rep_ctx_agree) (simp add: link_leaf_def)
  moreover have "distinct (inorder (fill k (Br (color h v) Tip v Tip)))"
    using dis v(1) by (auto simp: rbt ctx_nodes_def)
  ultimately show ?thesis
    using v ne by (simp add: focus_def Cons e) (simp add: link_leaf_def)
qed

text \<open>The links of an area that is on no structure.\<close>

definition unlinked :: "mm \<Rightarrow> vma_ptr \<Rightarrow> bool" where
  "unlinked s v \<longleftrightarrow> parent (task_rb s) v = None \<and> child (task_rb s) v = (\<lambda>_. None)"

lemma insert_list:
  assumes "dlist h Task_mmap (map Vm_mmap (pre k @ post k))" "v \<notin> set (pre k @ post k)"
  shows "dlist (case lst_of k of
             None \<Rightarrow> list_insert_after Task_mmap (Vm_mmap v) h
           | Some (p, RB_RIGHT) \<Rightarrow> list_insert_after (Vm_mmap p) (Vm_mmap v) h
           | Some (p, RB_LEFT) \<Rightarrow> list_insert_before (Vm_mmap p) (Vm_mmap v) h)
           Task_mmap (map Vm_mmap (pre k @ v # post k))"
proof (cases k)
  case Nil
  then show ?thesis
    using dlist_insert_after [of h Task_mmap "[]" "[]" "Vm_mmap v" Task_mmap] assms by simp
next
  case (Cons e k')
  obtain d c p s where e: "e = (d, c, p, s)"
    by (cases e)
  show ?thesis
  proof (cases d)
    case RB_RIGHT
    have "dlist (list_insert_after (Vm_mmap p) (Vm_mmap v) h) Task_mmap (map Vm_mmap (pre k) @ Vm_mmap v # map Vm_mmap (post k))"
      by (rule dlist_insert_after) (use assms RB_RIGHT in \<open>auto simp: Cons e\<close>)
    then show ?thesis
      using RB_RIGHT by (simp add: Cons e)
  next
    case RB_LEFT
    have "dlist (list_insert_before (Vm_mmap p) (Vm_mmap v) h) Task_mmap (map Vm_mmap (pre k) @ Vm_mmap v # map Vm_mmap (post k))"
      by (rule dlist_insert_before) (use assms RB_LEFT in \<open>auto simp: Cons e\<close>)
    then show ?thesis
      using RB_LEFT by (simp add: Cons e)
  qed
qed

text \<open>
  The general form, which does not need the new area to be well formed: it is inserted exactly
  when it overlaps no area, between those before and those after it.
\<close>

lemma insert_vma_place:
  assumes "balanced_areas s xs" "v \<notin> set xs" "unlinked s v"
  shows "if \<exists>x\<in>set xs. overlaps (area s v) (area s x) then insert_vma v s = Some (-1, s)
         else \<exists>as bs h l t. xs = as @ bs \<and> place (area s) v as bs
                \<and> insert_vma v s = Some (0, s\<lparr>task_rb := h, task_mmap := l\<rparr>)
                \<and> rb_tree h t \<and> rb_valid t \<and> inorder t = as @ v # bs
                \<and> dlist l Task_mmap (map Vm_mmap (as @ v # bs))"
proof -
  obtain t where t: "rb_tree (task_rb s) t" "inorder t = xs" "rb_valid t"
    using assms(1) rb_tree_unique by (auto simp: balanced_areas_def areas_def)
  have f: "focus (task_rb s) [] t"
    using t(1) by (simp flip: rb_tree_focus)
  have ord: "ordered (area s) xs" and dl: "dlist (task_mmap s) Task_mmap (map Vm_mmap xs)"
    using assms(1) by (auto simp: balanced_areas_def areas_def)
  have r: "root (task_rb s) = top_node t"
    using f by (simp add: focus_def)
  note ir = insert_loop_result [OF f, of v, unfolded insert_result_def, unfolded t(2), OF ord]
  show ?thesis
  proof (cases "\<exists>x\<in>set xs. overlaps (area s v) (area s x)")
    case True
    then show ?thesis
      using ir r by (simp add: insert_vma_def)
  next
    case False
    then obtain k as bs where il: "insert_loop s v (top_node t) None = Some (Inr (lst_of k))"
      and k: "fill k Tip = t" "xs = as @ bs" "pre k = as" "post k = bs" "place (area s) v as bs"
      using ir by auto
    let ?h = "link_leaf v (lst_of k) (task_rb s)"
    have "focus ?h k (Br (color (task_rb s) v) Tip v Tip)"
    proof (rule link_leaf_focus)
      show "focus (task_rb s) k Tip"
        using t(1) k(1) by (simp flip: rb_tree_focus)
    qed (use assms(2,3) k in \<open>auto simp: ctx_nodes_def unlinked_def\<close>)
    then have "rb_tree ?h (fill k (Br (color (task_rb s) v) Tip v Tip))" "rb_valid (fill k Tip)"
      using t(3) k(1) by (auto simp: rb_tree_focus)
    from rb_balance_core [OF this] obtain h t' where
      h: "rb_balance (Some v) ?h = Some (0, h)" "rb_tree h t'" "inorder t' = as @ v # bs" "rb_valid t'"
      using k by auto
    let ?l = "case lst_of k of
             None \<Rightarrow> list_insert_after Task_mmap (Vm_mmap v) (task_mmap s)
           | Some (p, RB_RIGHT) \<Rightarrow> list_insert_after (Vm_mmap p) (Vm_mmap v) (task_mmap s)
           | Some (p, RB_LEFT) \<Rightarrow> list_insert_before (Vm_mmap p) (Vm_mmap v) (task_mmap s)"
    have "insert_vma v s = Some (0, s\<lparr>task_rb := h, task_mmap := ?l\<rparr>)"
      using il h(1) by (simp add: insert_vma_def r link_leaf_def Let_def cong: option.case_cong prod.case_cong rb_dir.case_cong)
    moreover have "dlist ?l Task_mmap (map Vm_mmap (as @ v # bs))"
      using insert_list [of "task_mmap s" k v] dl assms(2) k by simp
    ultimately show ?thesis
      using False h k(2,5) by (simp del: map_append) blast
  qed
qed

lemma insert_vma_core:
  assumes "balanced_areas s xs" "v \<notin> set xs" "unlinked s v" "vm_base (area s v) < vm_end (area s v)"
  shows "if \<exists>x\<in>set xs. overlaps (area s v) (area s x) then insert_vma v s = Some (-1, s)
         else \<exists>as bs h l. xs = as @ bs \<and> place (area s) v as bs
                \<and> insert_vma v s = Some (0, s\<lparr>task_rb := h, task_mmap := l\<rparr>)
                \<and> balanced_areas (s\<lparr>task_rb := h, task_mmap := l\<rparr>) (as @ v # bs)"
proof -
  have "ordered (area s) (as @ v # bs)" if "xs = as @ bs" "place (area s) v as bs" for as bs
  proof -
    have "ordered (area s) (as @ bs)"
      using assms(1) that(1) by (simp add: balanced_areas_def areas_def)
    moreover have "vm_end (area s x) \<le> vm_base (area s y)" if "x \<in> set as" "y \<in> set bs" for x y
      using calculation that by (simp add: ordered_append)
    ultimately show ?thesis
      using that(2) assms(4) by (simp add: ordered_append ordered_Cons place_def)
  qed
  then show ?thesis
    using insert_vma_place [OF assms(1-3)] unfolding balanced_areas_def areas_def
    by (simp split: if_splits) metis
qed

section \<open>Splitting\<close>

interpretation vh: object_heap "own_heap c" "kmalloc SIZEOF_VMA" "\<lambda>p. kfree (Some p)" for c
  by (rule small_heap) (simp add: small_size_def SIZEOF_VMA_def)

text \<open>The areas are heap objects that were handed out.\<close>

definition mm_ok :: "nat \<Rightarrow> mm \<Rightarrow> vma_ptr set \<Rightarrow> vma_ptr list \<Rightarrow> bool" where
  "mm_ok c s live xs \<longleftrightarrow> balanced_areas s xs \<and> own_heap c (kheap s) live \<and> set xs \<subseteq> live"

lemma kmalloc_vma_cases:
  assumes "own_heap c (kheap s) live"
  obtains (none) k where "kmalloc_vma s = Some (None, s\<lparr>kheap := k\<rparr>)" "own_heap c k live"
      "kmalloc SIZEOF_VMA (kheap s) = Some (None, k)" "free_frames (phys (kheap s)) = {}"
  | (some) v k where "kmalloc_vma s = Some (Some v, s\<lparr>kheap := k\<rparr>)" "v \<notin> live" "own_heap c k (insert v live)"
      "kmalloc SIZEOF_VMA (kheap s) = Some (Some v, k)"
proof -
  have "heap_ok c (kheap s) live" "cpu (phys (kheap s)) = c" using assms by (auto simp: own_heap_def)
  from kmalloc_rep [OF this, of SIZEOF_VMA]
  have "free_frames (phys (kheap s)) = {}" if "kmalloc SIZEOF_VMA (kheap s) = Some (None, k)" for k
    using that by (auto simp: SIZEOF_VMA_def)
  then show thesis using vh.alloc_law [OF assms] that by (auto simp: kmalloc_vma_def)
qed

lemma kfree_vma_live:
  assumes "own_heap c (kheap s) live" "v \<in> live"
  obtains k where "kfree_vma (Some v) s = Some (s\<lparr>kheap := k\<rparr>)" "own_heap c k (live - {v})"
  using vh.release_law [OF assms] that by (auto simp: kfree_vma_def)

lemma init_links_areas:
  assumes "v \<notin> set xs"
  shows "balanced_areas (init_links v s) xs \<longleftrightarrow> balanced_areas s xs"
proof -
  have tree: "rb_tree (rb_node_init v h) t \<longleftrightarrow> rb_tree h t" if "set (inorder t) \<subseteq> set xs" for t and h :: "vma_ptr rb"
  proof -
    have "agree h (rb_node_init v h) (set (inorder t))"
      using assms that by (auto simp: agree_def)
    then show ?thesis
      by (simp add: rb_tree_def rep_agree)
  qed
  have "dlist (list_init (Vm_mmap v) (task_mmap s)) Task_mmap (map Vm_mmap xs) \<longleftrightarrow> dlist (task_mmap s) Task_mmap (map Vm_mmap xs)"
    using assms by (intro dlist_frame) (auto simp: list_init_def link_defs)
  moreover have "(\<exists>t. rb_tree (rb_node_init v (task_rb s)) t \<and> inorder t = xs) \<longleftrightarrow> (\<exists>t. rb_tree (task_rb s) t \<and> inorder t = xs)"
    using tree by blast
  moreover have "(\<exists>t. rb_tree (rb_node_init v (task_rb s)) t \<and> rb_valid t) \<longleftrightarrow> (\<exists>t. rb_tree (task_rb s) t \<and> rb_valid t)"
    if "\<exists>t. rb_tree (rb_node_init v (task_rb s)) t \<and> inorder t = xs" "\<exists>t. rb_tree (task_rb s) t \<and> inorder t = xs"
    using that tree rb_tree_unique by (metis order_refl)
  ultimately show ?thesis
    by (auto simp: balanced_areas_def areas_def init_links_def)
qed

lemma init_links_simps [simp]:
  "unlinked (init_links v s) v" "area (init_links v s) = area s" "kheap (init_links v s) = kheap s"
  "machine (init_links v s) = machine s" "mm_task (init_links v s) = mm_task s"
  by (simp_all add: init_links_def unlinked_def)

lemma set_area_simps [simp]:
  "area (set_area v a s) = (area s)(v := a)" "kheap (set_area v a s) = kheap s" "task_rb (set_area v a s) = task_rb s"
  "task_mmap (set_area v a s) = task_mmap s" "machine (set_area v a s) = machine s" "mm_task (set_area v a s) = mm_task s"
  by (simp_all add: set_area_def)

lemma place_unique:
  assumes "as @ bs = as' @ bs'" "place A v as bs" "place A v as' bs'" "ordered A (as @ bs)" "vm_base (A v) < vm_end (A v)"
  shows "as' = as \<and> bs' = bs"
proof -
  have no: False if "x \<in> set as \<inter> set bs' \<or> x \<in> set as' \<inter> set bs" for x
  proof -
    have "vm_base (A x) < vm_end (A x)" "vm_end (A x) \<le> vm_base (A v)" "vm_end (A v) \<le> vm_base (A x)"
      using that assms by (auto simp: place_def ordered_append ordered_def)
    then show False
      using assms(5) by (meson less_le_trans less_asym not_less)
  qed
  obtain us where us: "as = as' @ us \<and> us @ bs = bs' \<or> as @ us = as' \<and> bs = us @ bs'"
    using assms(1) append_eq_append_conv2 by blast
  have "u \<notin> set us" for u
    using us no [of u] by auto
  then have "us = []"
    using list.set_sel(1) by blast
  with us show ?thesis by auto
qed

lemma insert_vma_at:
  assumes "balanced_areas s (as @ bs)" "v \<notin> set (as @ bs)" "unlinked s v" "vm_base (area s v) < vm_end (area s v)"
      and "place (area s) v as bs"
  obtains h l where "insert_vma v s = Some (0, s\<lparr>task_rb := h, task_mmap := l\<rparr>)"
    "balanced_areas (s\<lparr>task_rb := h, task_mmap := l\<rparr>) (as @ v # bs)"
proof -
  have "\<not> (\<exists>x\<in>set (as @ bs). overlaps (area s v) (area s x))"
    using assms(5) by (auto simp: overlaps_def place_def)
  then obtain as' bs' h l where r: "as @ bs = as' @ bs'" "place (area s) v as' bs'"
    "insert_vma v s = Some (0, s\<lparr>task_rb := h, task_mmap := l\<rparr>)"
    "balanced_areas (s\<lparr>task_rb := h, task_mmap := l\<rparr>) (as' @ v # bs')"
    using insert_vma_core [OF assms(1-4)] by auto
  have "ordered (area s) (as @ bs)"
    using assms(1) by (simp add: balanced_areas_def areas_def)
  then have "as' = as \<and> bs' = bs"
    by (rule place_unique [OF r(1) assms(5) r(2) _ assms(4)])
  then show thesis
    using that r(3,4) by simp
qed

lemma areas_distinct: "areas s xs \<Longrightarrow> distinct xs"
  by (auto simp: areas_def rb_tree_def)

definition lower_part :: "vma \<Rightarrow> u64 \<Rightarrow> vma" where
  "lower_part a addr = a\<lparr>vm_end := addr, vm_len := addr - vm_base a\<rparr>"

definition upper_part :: "vma \<Rightarrow> u64 \<Rightarrow> vma" where
  "upper_part a addr = a\<lparr>vm_base := addr, vm_len := vm_end a - addr\<rparr>"

lemma shrink_ordered:
  assumes "ordered A (as @ x # bs)" "vm_base (A x) < addr" "addr < vm_end (A x)" "x \<notin> set (as @ bs)"
  shows "ordered (A(x := lower_part (A x) addr)) (as @ x # bs)"
proof -
  have "ordered (A(x := lower_part (A x) addr)) as = ordered A as" "ordered (A(x := lower_part (A x) addr)) bs = ordered A bs"
    using assms(4) by (auto intro!: ordered_cong)
  moreover have "addr \<le> vm_base (A y)" if "y \<in> set bs" for y
    using assms that by (auto simp: ordered_append ordered_Cons)
  ultimately show ?thesis
    using assms by (auto simp: ordered_append ordered_Cons lower_part_def)
qed

lemma split_vma_core:
  assumes ok: "mm_ok c s live (as @ lhs # bs)" and lo: "vm_base (area s lhs) < addr" and hi: "addr < vm_end (area s lhs)"
  shows "(\<exists>k. kmalloc SIZEOF_VMA (kheap s) = Some (None, k) \<and> free_frames (phys (kheap s)) = {}
         \<and> split_vma lhs addr s = Some (None, s\<lparr>kheap := k\<rparr>) \<and> mm_ok c (s\<lparr>kheap := k\<rparr>) live (as @ lhs # bs))
    \<or> (\<exists>rhs k s'. kmalloc SIZEOF_VMA (kheap s) = Some (Some rhs, k) \<and> split_vma lhs addr s = Some (Some rhs, s') \<and> rhs \<notin> live
         \<and> mm_ok c s' (insert rhs live) (as @ lhs # rhs # bs)
         \<and> area s' = (area s)(rhs := upper_part (area s lhs) addr, lhs := lower_part (area s lhs) addr))"
proof -
  let ?A = "area s"
  have heap: "own_heap c (kheap s) live" and live: "set (as @ lhs # bs) \<subseteq> live" and bal: "balanced_areas s (as @ lhs # bs)"
    using ok by (auto simp: mm_ok_def)
  then have ord: "ordered ?A (as @ lhs # bs)"
    by (simp add: balanced_areas_def areas_def)
  have dis: "lhs \<notin> set (as @ bs)"
    using areas_distinct [of s "as @ lhs # bs"] bal by (auto simp: balanced_areas_def)
  from heap show ?thesis
  proof (cases rule: kmalloc_vma_cases)
    case (none k)
    then have "split_vma lhs addr s = Some (None, s\<lparr>kheap := k\<rparr>)"
      using lo hi by (auto simp: split_vma_def)
    moreover have "mm_ok c (s\<lparr>kheap := k\<rparr>) live (as @ lhs # bs)"
      using bal none(2) live by (simp add: mm_ok_def balanced_areas_def areas_def)
    ultimately show ?thesis using none(3,4) by blast
  next
    case (some rhs k)
    let ?B = "?A(rhs := upper_part (?A lhs) addr, lhs := lower_part (?A lhs) addr)"
    let ?s = "init_links rhs (s\<lparr>kheap := k, area := ?B\<rparr>)"
    have rhs: "rhs \<notin> set (as @ lhs # bs)" "rhs \<noteq> lhs"
      using some(2) live by auto
    have eq: "ordered ?B (as @ lhs # bs) = ordered (?A(lhs := lower_part (?A lhs) addr)) (as @ lhs # bs)"
      using rhs by (intro ordered_cong) auto
    then have "balanced_areas (s\<lparr>kheap := k, area := ?B\<rparr>) (as @ lhs # bs)"
      using bal shrink_ordered [OF ord lo hi dis] by (simp add: balanced_areas_def areas_def)
    then have bal1: "balanced_areas ?s ((as @ [lhs]) @ bs)"
      using init_links_areas [OF rhs(1)] by simp
    have v: "vm_base (area ?s rhs) < vm_end (area ?s rhs)"
      using hi rhs by (simp add: upper_part_def)
    have pl: "place (area ?s) rhs (as @ [lhs]) bs"
    proof -
      have "vm_end (?A x) \<le> addr" if "x \<in> set as" for x
        using ord that lo by (force simp: ordered_append ordered_Cons)
      then show ?thesis
        using ord rhs dis by (auto simp: place_def ordered_append ordered_Cons upper_part_def lower_part_def)
    qed
    have fresh: "rhs \<notin> set ((as @ [lhs]) @ bs)" and un: "unlinked ?s rhs"
      using rhs by auto
    obtain h l where ins: "insert_vma rhs ?s = Some (0, ?s\<lparr>task_rb := h, task_mmap := l\<rparr>)"
      "balanced_areas (?s\<lparr>task_rb := h, task_mmap := l\<rparr>) ((as @ [lhs]) @ rhs # bs)"
      by (rule insert_vma_at [OF bal1 fresh un v pl])
    have run: "split_vma lhs addr s = Some (Some rhs, ?s\<lparr>task_rb := h, task_mmap := l\<rparr>)"
    proof -
      have "init_links rhs (set_area lhs (lower_part (?A lhs) addr) (set_area rhs (upper_part (?A lhs) addr) (s\<lparr>kheap := k\<rparr>))) = ?s"
        by (simp add: init_links_def set_area_def)
      then show ?thesis
        using some(1) lo hi ins(1) by (auto simp: split_vma_def Let_def lower_part_def upper_part_def)
    qed
    have "mm_ok c (?s\<lparr>task_rb := h, task_mmap := l\<rparr>) (insert rhs live) (as @ lhs # rhs # bs)"
      using ins(2) some(3) live by (auto simp: mm_ok_def init_links_def)
    with run some(2,4) show ?thesis by fastforce
  qed
qed

section \<open>An example\<close>

text \<open>A task without areas, and one with a single area of two pages.\<close>

definition start_mm :: mm where
  "start_mm = \<lparr>mm_task = 0, kheap = snd (kmem_init 0 no_heap), machine = demo_vm,
     area = (\<lambda>_. \<lparr>vm_name = ''user'', vm_base = 0x10000, vm_end = 0x12000, vm_src = 0, vm_len = 0, vm_flags = VM_READ\<rparr>),
     task_rb = \<lparr>parent = (\<lambda>_. None), child = (\<lambda>_ _. None), color = (\<lambda>_. RB_BLACK), root = None\<rparr>,
     task_mmap = \<lparr>lnext = (\<lambda>n. n), lprev = (\<lambda>n. n)\<rparr>\<rparr>"

lemma start_areas: "balanced_areas start_mm []" "unlinked start_mm v"
proof -
  have "rb_tree (task_rb start_mm) Tip" "rb_valid (Tip :: vma_ptr rtree)"
    by (simp_all add: rb_tree_def rb_valid_def start_mm_def)
  then show "balanced_areas start_mm []"
    by (auto simp: balanced_areas_def areas_def start_mm_def dlist_def intro!: exI [of _ Tip])
  show "unlinked start_mm v"
    by (simp add: unlinked_def start_mm_def)
qed

lemma boot_heap_frames: "free_frames (phys (snd (kmem_init 0 no_heap))) = {0..<512}"
proof -
  have "phys (snd (kmem_init 0 no_heap)) = one_block"
    using setup_all_rep(3) [where n = 32 and c = 0 and S = "{}" and k = "no_heap\<lparr>nslabs := (nslabs no_heap)(0 := 32)\<rparr>"]
      no_heap_rep(1) by (simp add: kmem_init_def Let_def no_heap_def slab_rep_def)
  then show ?thesis
    by (simp add: one_block_free)
qed

lemma one_area:
  obtains v s where "mm_ok 0 s {v} [v]" "area s = area start_mm" "free_frames (phys (kheap s)) \<noteq> {}"
proof -
  have "own_heap 0 (kheap start_mm) {}"
    using boot_heap_ok boot_heap_cpu by (simp add: own_heap_def start_mm_def)
  moreover have "\<not> (\<exists>k'. kmalloc SIZEOF_VMA (kheap start_mm) = Some (None, k'))"
    using kmalloc_rep [OF boot_heap_ok boot_heap_cpu(1), of SIZEOF_VMA] boot_heap_cpu(2)
    by (auto simp: start_mm_def SIZEOF_VMA_def)
  ultimately obtain v k where a: "kmalloc SIZEOF_VMA (kheap start_mm) = Some (Some v, k)" and k: "own_heap 0 k {v}"
    using vh.alloc_law [of 0 "kheap start_mm" "{}"] by auto
  have "small_size SIZEOF_VMA"
    by (simp add: small_size_def SIZEOF_VMA_def)
  from kmalloc_frames [OF \<open>own_heap 0 (kheap start_mm) {}\<close> this a]
  obtain pg where pg: "{0..<512} - {pg} \<subseteq> free_frames (phys k)"
    using boot_heap_frames by (auto simp: start_mm_def)
  have "{0, 1} - {pg} \<noteq> {}" "{0, 1} \<subseteq> {0..<512 :: nat}"
    by auto
  with pg have frames: "free_frames (phys k) \<noteq> {}"
    by blast
  let ?s = "start_mm\<lparr>kheap := k\<rparr>"
  have b: "balanced_areas ?s ([] @ [])" "unlinked ?s v"
    using start_areas by (auto simp: balanced_areas_def areas_def unlinked_def)
  have p: "v \<notin> set ([] @ [])" "vm_base (area ?s v) < vm_end (area ?s v)" "place (area ?s) v [] []"
    by (simp_all add: start_mm_def place_def)
  obtain h l where "balanced_areas (?s\<lparr>task_rb := h, task_mmap := l\<rparr>) ([] @ v # [])"
    by (rule insert_vma_at [OF b(1) p(1) b(2) p(2,3)])
  then have "mm_ok 0 (?s\<lparr>task_rb := h, task_mmap := l\<rparr>) {v} [v]"
    using k by (simp add: mm_ok_def)
  then show thesis
    using that [of "?s\<lparr>task_rb := h, task_mmap := l\<rparr>" v] frames by simp
qed

section \<open>The properties\<close>

lemma first_after_cases:
  assumes "ordered A xs"
  shows "case first_after A addr xs of
      None \<Rightarrow> \<forall>x\<in>set xs. vm_end (A x) \<le> addr
    | Some v \<Rightarrow> \<exists>as bs. xs = as @ v # bs \<and> addr < vm_end (A v) \<and> (\<forall>x\<in>set as. vm_end (A x) \<le> addr)"
proof (cases "filter (\<lambda>x. addr < vm_end (A x)) xs")
  case Nil
  then show ?thesis
    by (auto simp: first_after_def filter_empty_conv not_less)
next
  case (Cons v vs)
  then obtain us ws where "xs = us @ v # ws" "\<forall>u\<in>set us. vm_end (A u) \<le> addr" "addr < vm_end (A v)"
    by (auto simp: filter_eq_Cons_iff not_less)
  moreover have "first_after A addr xs = Some v"
    using Cons by (simp add: first_after_def)
  ultimately show ?thesis by auto
qed

text \<open>
  C19: \<^verbatim>\<open>task_find_vma\<close> returns the area that contains the address, and a null pointer when there is
  none; the area is unique, because the areas of a task do not overlap.  The search returns for every
  address.
\<close>

theorem task_find_vma_spec:
  assumes "areas s xs"
  shows "\<exists>r. task_find_vma addr s = Some r
     \<and> (\<forall>v. r = Some v \<longleftrightarrow> v \<in> set xs \<and> vm_base (area s v) \<le> addr \<and> addr < vm_end (area s v))"
proof -
  let ?A = "area s"
  have ord: "ordered ?A xs"
    using assms by (simp add: areas_def)
  obtain par dir where f: "find_vma addr s = Some (first_after ?A addr xs, par, dir)"
    using find_vma_first [OF assms] by blast
  have uniq: "v = w" if "v \<in> set xs" "w \<in> set xs" "vm_base (?A v) \<le> addr" "addr < vm_end (?A v)"
      "vm_base (?A w) \<le> addr" "addr < vm_end (?A w)" for v w
  proof (rule ccontr)
    note vw = that
    assume "v \<noteq> w"
    then obtain as bs where "xs = as @ v # bs" "w \<in> set as \<or> w \<in> set bs"
      using vw(1,2) by (metis in_set_conv_decomp Un_iff set_ConsD set_append)
    then show False
      using ord vw by (auto simp: ordered_append ordered_Cons)
  qed
  show ?thesis
  proof (cases "first_after ?A addr xs")
    case None
    then have "\<forall>x\<in>set xs. vm_end (?A x) \<le> addr"
      using first_after_cases [OF ord, of addr] by simp
    then show ?thesis
      using f None by (force simp: task_find_vma_def)
  next
    case (Some v)
    then obtain as bs where v: "xs = as @ v # bs" "addr < vm_end (?A v)" "\<forall>x\<in>set as. vm_end (?A x) \<le> addr"
      using first_after_cases [OF ord, of addr] by auto
    show ?thesis
    proof (cases "addr < vm_base (?A v)")
      case True
      have "\<not> (vm_base (?A x) \<le> addr \<and> addr < vm_end (?A x))" if "x \<in> set xs" for x
      proof -
        have "vm_base (?A v) \<le> vm_base (?A x)" if "x \<in> set bs"
          using ord v(1) that by (force simp: ordered_append ordered_Cons)
        then show ?thesis
          using v True that by force
      qed
      then show ?thesis
        using f Some True by (auto simp: task_find_vma_def)
    next
      case False
      then have "v \<in> set xs" "vm_base (?A v) \<le> addr"
        using v(1) by auto
      moreover have "task_find_vma addr s = Some (Some v)"
        using f Some False by (simp add: task_find_vma_def)
      ultimately show ?thesis
        using v(2) uniq [of v] by blast
    qed
  qed
qed

theorem task_find_vma_spec_witness: "\<exists>s v. areas s [v] \<and> task_find_vma 0x11000 s = Some (Some v)"
proof -
  obtain v s where s: "mm_ok 0 s {v} [v]" "area s = area start_mm"
    using one_area by metis
  then have "areas s [v]"
    by (simp add: mm_ok_def balanced_areas_def)
  moreover obtain r where "task_find_vma 0x11000 s = Some r" "r = Some v"
    using task_find_vma_spec [OF calculation, of "0x11000"] s(2) by (cases v) (auto simp: start_mm_def)
  ultimately show ?thesis by blast
qed

text \<open>
  C20: \<^verbatim>\<open>insert_vma\<close> returns.  An area that overlaps another one is refused with -1 and nothing changes;
  any other area is put at its place in the tree and in the list, the areas stay disjoint and
  sorted, and the tree stays a valid red-black tree.
\<close>

theorem insert_vma_spec:
  assumes "balanced_areas s xs" "v \<notin> set xs" "unlinked s v" "vm_base (area s v) < vm_end (area s v)"
  shows "if \<exists>x\<in>set xs. overlaps (area s v) (area s x) then insert_vma v s = Some (-1, s)
         else \<exists>as bs h l. xs = as @ bs \<and> place (area s) v as bs
                \<and> insert_vma v s = Some (0, s\<lparr>task_rb := h, task_mmap := l\<rparr>)
                \<and> balanced_areas (s\<lparr>task_rb := h, task_mmap := l\<rparr>) (as @ v # bs)"
  using assms by (rule insert_vma_core)

theorem insert_vma_spec_witness:
  "\<exists>h l. insert_vma (0, 0) start_mm = Some (0, start_mm\<lparr>task_rb := h, task_mmap := l\<rparr>)
     \<and> balanced_areas (start_mm\<lparr>task_rb := h, task_mmap := l\<rparr>) [(0, 0)]"
  using insert_vma_spec [OF start_areas(1) _ start_areas(2), of "(0, 0)"] by (simp add: start_mm_def)

text \<open>
  C21: \<^verbatim>\<open>split_vma\<close> strictly inside an area, at any address, also one that is not page-aligned.  It returns; it
  fails exactly when \<^verbatim>\<open>kmalloc\<close> gives no object, which is only when no physical page is free, and then the areas
  are unchanged.  Otherwise the new object becomes an area that takes the upper part, directly after the
  lower one, every address keeps its permissions, and the areas stay disjoint, sorted and
  balanced.
\<close>

theorem split_vma_spec:
  assumes "mm_ok c s live (as @ lhs # bs)" "vm_base (area s lhs) < addr" "addr < vm_end (area s lhs)"
  shows "(\<exists>k. kmalloc SIZEOF_VMA (kheap s) = Some (None, k) \<and> free_frames (phys (kheap s)) = {}
         \<and> split_vma lhs addr s = Some (None, s\<lparr>kheap := k\<rparr>) \<and> mm_ok c (s\<lparr>kheap := k\<rparr>) live (as @ lhs # bs))
    \<or> (\<exists>rhs k s'. kmalloc SIZEOF_VMA (kheap s) = Some (Some rhs, k) \<and> split_vma lhs addr s = Some (Some rhs, s') \<and> rhs \<notin> live
         \<and> mm_ok c s' (insert rhs live) (as @ lhs # rhs # bs)
         \<and> area s' = (area s)(rhs := upper_part (area s lhs) addr, lhs := lower_part (area s lhs) addr))"
  using assms by (rule split_vma_core)

theorem split_vma_spec_witness:
  "\<exists>s v r s'. mm_ok 0 s {v} [v] \<and> split_vma v 0x11000 s = Some (Some r, s') \<and> vm_end (area s' v) = 0x11000 \<and> vm_base (area s' r) = 0x11000"
proof -
  obtain v s where s: "mm_ok 0 s {v} [v]" "area s = area start_mm" "free_frames (phys (kheap s)) \<noteq> {}"
    using one_area by metis
  have "vm_base (area s v) < 0x11000" "0x11000 < vm_end (area s v)"
    by (simp_all add: s(2) start_mm_def)
  with split_vma_spec [of 0 s "{v}" "[]" v "[]" "0x11000"] s(1,3) obtain r s' where
    "split_vma v 0x11000 s = Some (Some r, s')" "r \<noteq> v"
    "area s' = (area s)(r := upper_part (area s v) 0x11000, v := lower_part (area s v) 0x11000)" by auto
  then have "vm_end (area s' v) = 0x11000" "vm_base (area s' r) = 0x11000" by (simp_all add: upper_part_def lower_part_def)
  then show ?thesis using s(1) \<open>split_vma v 0x11000 s = Some (Some r, s')\<close> by blast
qed

end
