(* ===== verification/VMA_Paging.thy ===== *)
theory VMA_Paging
  imports VMA Page_Table
begin

text \<open>
  The part of \<^verbatim>\<open>kernel/vma\<close> that works on the page tables behind the areas: \<^verbatim>\<open>populate.c\<close>,
  \<^verbatim>\<open>protect.c\<close>, the range functions of \<^verbatim>\<open>remove.c\<close>, \<^verbatim>\<open>pfault.c\<close>, \<^verbatim>\<open>user.c\<close> and \<^verbatim>\<open>syscall.c\<close>.
  The argument \<open>oom\<close> is the out-of-memory killer of \<^verbatim>\<open>kernel/sched/task.c\<close>, as in the page table
  functions.
\<close>

section \<open>The page tables of the task\<close>

text \<open>The physical memory is held once, in the heap.\<close>

definition vm_of :: "mm \<Rightarrow> vm" where
  "vm_of s = (machine s)\<lparr>vmem := phys (kheap s)\<rparr>"

definition put_vm :: "vm \<Rightarrow> mm \<Rightarrow> mm" where
  "put_vm v s = s\<lparr>machine := v, kheap := (kheap s)\<lparr>phys := vmem v\<rparr>\<rparr>"

definition on_vm :: "(vm \<Rightarrow> vm option) \<Rightarrow> mm \<Rightarrow> mm option" where
  "on_vm f s = map_option (\<lambda>v. put_vm v s) (f (vm_of s))"

definition pml4_of :: "mm \<Rightarrow> nat" where
  "pml4_of s = task_pml4 (machine s) (mm_task s)"

definition load_pml4 :: "u64 \<Rightarrow> mm \<Rightarrow> mm" where
  "load_pml4 pa s = s\<lparr>machine := (machine s)\<lparr>cr3 := pa\<rparr>\<rparr>"

text \<open>\<^verbatim>\<open>KADDR(read_cr3())\<close>, later turned back by \<^verbatim>\<open>PADDR\<close>: the conversion only checks the address.\<close>

definition saved_pml4 :: "mm \<Rightarrow> u64 option" where
  "saved_pml4 s = map_option (\<lambda>a. a - KERNEL_VMA) (KADDR (cr3 (machine s)) (vm_of s))"

section \<open>Copying through the page tables\<close>

text \<open>
  The physical address of a virtual one in the current address space.  The processor does not
  check the write bit, because \<^verbatim>\<open>CR0.WP\<close> is never set; an address that is not mapped has no
  result.
\<close>

definition phys_of :: "vm \<Rightarrow> u64 \<Rightarrow> u64 option" where
  "phys_of s va =
     do { pml4 \<leftarrow> KADDR_table (cr3 s) s;
          t \<leftarrow> translate s pml4 va;
          e \<leftarrow> t;
          let pte = get_entry e s;
          Some (PAGE_ADDR pte + (va AND ((if huge pte then HPAGE_SIZE else PAGE_SIZE) - 1))) }"

definition load_byte :: "u64 \<Rightarrow> vm \<Rightarrow> u8 option" where
  "load_byte va s =
     do { pa \<leftarrow> phys_of s va;
          Some (ucast (drop_bit (8 * unat (pa mod 8))
                  (frames (vmem s) (unat (PAGE_INDEX pa)) (unat (pa mod PAGE_SIZE div 8))))) }"

definition store_byte :: "u64 \<Rightarrow> u8 \<Rightarrow> vm \<Rightarrow> vm option" where
  "store_byte va b s =
     do { pa \<leftarrow> phys_of s va;
          let e = Entry (unat (PAGE_INDEX pa)) (unat (pa mod PAGE_SIZE div 8));
          let sh = 8 * unat (pa mod 8);
          Some (set_entry e ((get_entry e s AND NOT (push_bit sh 0xFF)) OR push_bit sh (ucast b)) s) }"

primrec memcpy_user :: "nat \<Rightarrow> u64 \<Rightarrow> u64 \<Rightarrow> vm \<Rightarrow> vm option" where
  "memcpy_user 0 dst src s = Some s"
| "memcpy_user (Suc n) dst src s =
     do { b \<leftarrow> load_byte src s; s \<leftarrow> store_byte dst b s; memcpy_user n (dst + 1) (src + 1) s }"

section \<open>populate.c\<close>

definition PROT_NONE :: u32 where "PROT_NONE = 0"
definition PROT_READ :: u32 where "PROT_READ = push_bit 0 1"
definition PROT_WRITE :: u32 where "PROT_WRITE = push_bit 1 1"
definition PROT_EXEC :: u32 where "PROT_EXEC = push_bit 2 1"

abbreviation has :: "u32 \<Rightarrow> u32 \<Rightarrow> bool" where
  "has flags f \<equiv> flags AND f \<noteq> 0"

definition populate_flags :: "u32 \<Rightarrow> u64" where
  "populate_flags vflags =
     (let f = PAGE_PRESENT OR PAGE_USER;
          f = (if has vflags PROT_WRITE then f OR PAGE_WRITE else f)
      in if \<not> has vflags PROT_EXEC then f OR PAGE_NO_EXEC else f)"

definition do_populate_vma :: "(vm \<Rightarrow> vm option) \<Rightarrow> u32 vma_cb" where
  "do_populate_vma oom base sz vma us =
     (let (flags, s) = us; a = area s vma
      in if has flags PROT_READ \<and> \<not> has (vm_flags a) PROT_READ then Some (-1, us)
         else if has flags PROT_WRITE \<and> \<not> has (vm_flags a) PROT_WRITE then Some (-1, us)
         else if has flags PROT_EXEC \<and> \<not> has (vm_flags a) PROT_EXEC then Some (-1, us)
         else
           (let pf = populate_flags (vm_flags a);
                hbase = base AND NOT (HPAGE_SIZE - 1);
                hend = hbase + HPAGE_SIZE
            in if vm_src a = 0 \<and> hbase \<ge> vm_base a \<and> hend \<le> vm_end a then
                 do { s \<leftarrow> on_vm (populate_region oom (pml4_of s) hbase HPAGE_SIZE (pf OR PAGE_HUGE)) s;
                      s \<leftarrow> on_vm (protect_region oom (pml4_of s) base sz pf) s;
                      Some (0, flags, s) }
               else
                 do { s \<leftarrow> on_vm (populate_region oom (pml4_of s) base sz pf) s;
                      s \<leftarrow> (if vm_src a \<noteq> 0 then
                              do { let off = base - vm_base a;
                                   old \<leftarrow> saved_pml4 s;
                                   let s = load_pml4 (page2pa (pml4_of s)) s;
                                   s \<leftarrow> (if off < vm_len a
                                         then on_vm (memcpy_user (unat (min sz (vm_len a - off))) base (vm_src a + off)) s
                                         else Some s);
                                   Some (load_pml4 old s) }
                            else Some s);
                      s \<leftarrow> on_vm (protect_region oom (pml4_of s) base sz pf) s;
                      Some (0, flags, s) }))"

definition populate_vma_range :: "(vm \<Rightarrow> vm option) \<Rightarrow> u64 \<Rightarrow> u64 \<Rightarrow> u32 \<Rightarrow> mm \<Rightarrow> (int \<times> mm) option" where
  "populate_vma_range oom base sz flags s =
     map_option (\<lambda>(r, f, s). (r, s)) (walk_vma_range base sz (do_populate_vma oom) (flags, s))"

section \<open>protect.c\<close>

definition ENOMEM :: int where "ENOMEM = 6"
definition EFAULT :: int where "EFAULT = 4"
definition EINVAL :: int where "EINVAL = 5"

definition protect_flags :: "u32 \<Rightarrow> u64" where
  "protect_flags flags =
     (let f = PAGE_USER;
          f = (if has flags PROT_READ then f OR PAGE_PRESENT else f);
          f = (if has flags PROT_WRITE then f OR PAGE_WRITE else f);
          f = (if \<not> has flags PROT_EXEC then f OR PAGE_NO_EXEC else f)
      in if flags = 0 then 0 else f)"

definition do_protect_vma :: "(vm \<Rightarrow> vm option) \<Rightarrow> u32 vma_cb" where
  "do_protect_vma oom base sz vma us =
     (let (flags, s) = us; a = area s vma
      in if flags = vm_flags a \<or> vm_base a = vm_end a then Some (0, us)
         else do { (v, s) \<leftarrow> split_vmas vma base sz s;
                   case v of
                     None \<Rightarrow> Some (- ENOMEM, flags, s)
                   | Some v \<Rightarrow>
                       do { let s = set_area v ((area s v)\<lparr>vm_flags := flags\<rparr>) s;
                            s \<leftarrow> on_vm (protect_region oom (pml4_of s) base sz (protect_flags flags)) s;
                            (m, s) \<leftarrow> merge_vmas v s;
                            Some (0, flags, s) } })"

definition protect_vma_range :: "(vm \<Rightarrow> vm option) \<Rightarrow> u64 \<Rightarrow> u64 \<Rightarrow> u32 \<Rightarrow> mm \<Rightarrow> (int \<times> mm) option" where
  "protect_vma_range oom base sz flags s =
     map_option (\<lambda>(r, f, s). (r, s)) (walk_vma_range base sz (do_protect_vma oom) (flags, s))"

section \<open>The ranges of remove.c\<close>

definition do_remove_vma :: "(vm \<Rightarrow> vm option) \<Rightarrow> unit vma_cb" where
  "do_remove_vma oom base sz vma us =
     do { (v, s) \<leftarrow> split_vmas vma base sz (snd us);
          case v of
            None \<Rightarrow> Some (-1, (), s)
          | Some v \<Rightarrow>
              do { old \<leftarrow> saved_pml4 s;
                   let s = load_pml4 (page2pa (pml4_of s)) s;
                   s \<leftarrow> on_vm (unmap_page_range oom (pml4_of s) base sz) s;
                   s \<leftarrow> remove_vma v s;
                   s \<leftarrow> kfree_vma (Some v) s;
                   Some (0, (), load_pml4 old s) } }"

definition remove_vma_range :: "(vm \<Rightarrow> vm option) \<Rightarrow> u64 \<Rightarrow> u64 \<Rightarrow> mm \<Rightarrow> (int \<times> mm) option" where
  "remove_vma_range oom base sz s =
     map_option (\<lambda>(r, u, s). (r, s)) (walk_vma_range base sz (do_remove_vma oom) ((), s))"

partial_function (option) unmap_loop :: "(vm \<Rightarrow> vm option) \<Rightarrow> nat \<Rightarrow> u64 \<Rightarrow> u64 \<Rightarrow> vm \<Rightarrow> vm option" where
  "unmap_loop oom pml4 va en s =
     (if \<not> va < en then Some s
      else do { (page, entry, s) \<leftarrow> page_lookup pml4 va s;
                s \<leftarrow> (case (page, entry) of
                       (Some p, Some e) \<Rightarrow>
                         if get_entry e s AND PAGE_DIRTY = 0 then page_remove oom pml4 va s else Some s
                     | _ \<Rightarrow> Some s);
                unmap_loop oom pml4 (va + PAGE_SIZE) en s })"

definition do_unmap_vma :: "(vm \<Rightarrow> vm option) \<Rightarrow> unit vma_cb" where
  "do_unmap_vma oom base sz vma us =
     do { (v, s) \<leftarrow> split_vmas vma base sz (snd us);
          case v of
            None \<Rightarrow> Some (-1, (), s)
          | Some v \<Rightarrow> do { s \<leftarrow> on_vm (unmap_loop oom (pml4_of s) base (base + sz)) s; Some (0, (), s) } }"

definition unmap_vma_range :: "(vm \<Rightarrow> vm option) \<Rightarrow> u64 \<Rightarrow> u64 \<Rightarrow> mm \<Rightarrow> (int \<times> mm) option" where
  "unmap_vma_range oom base sz s =
     map_option (\<lambda>(r, u, s). (r, s)) (walk_vma_range base sz (do_unmap_vma oom) ((), s))"

section \<open>user.c\<close>

record vma_check =
  chk_last :: u64
  chk_flags :: u32

definition do_check_user_vma :: "vma_check vma_cb" where
  "do_check_user_vma base sz vma us =
     (let (info, s) = us; a = area s vma
      in if vm_base a > chk_last info then Some (-1, us)
         else if vm_flags a AND chk_flags info \<noteq> chk_flags info then Some (-1, us)
         else Some (0, info\<lparr>chk_last := vm_end a\<rparr>, s))"

text \<open>The result is the return value and, when that is negative, \<^verbatim>\<open>*fault_va\<close>.\<close>

definition check_user_vma_range :: "u64 \<Rightarrow> u64 \<Rightarrow> u32 \<Rightarrow> mm \<Rightarrow> (int \<times> u64) option" where
  "check_user_vma_range base sz flags s =
     do { (ret, info, s) \<leftarrow> walk_vma_range base sz do_check_user_vma (\<lparr>chk_last = base, chk_flags = flags\<rparr>, s);
          if ret \<noteq> 0 \<or> chk_last info < base + sz then Some (-1, chk_last info) else Some (0, 0) }"

section \<open>pfault.c\<close>

definition task_page_fault_handler :: "(vm \<Rightarrow> vm option) \<Rightarrow> u64 \<Rightarrow> u32 \<Rightarrow> mm \<Rightarrow> (int \<times> mm) option" where
  "task_page_fault_handler oom va flags s =
     do { vma \<leftarrow> task_find_vma va s;
          case vma of
            None \<Rightarrow> Some (- EFAULT, s)
          | Some v \<Rightarrow>
              (let a = area s v
               in if va < vm_base a then Some (- EFAULT, s)
                  else if has flags PROT_WRITE \<and> \<not> has (vm_flags a) PROT_WRITE then Some (- EFAULT, s)
                  else if has flags PROT_EXEC \<and> \<not> has (vm_flags a) PROT_EXEC then Some (- EFAULT, s)
                  else if \<not> has (vm_flags a) PROT_READ then Some (- EFAULT, s)
                  else populate_vma_range oom (ROUNDDOWN va PAGE_SIZE) PAGE_SIZE flags s) }"

section \<open>syscall.c\<close>

definition MAP_PRIVATE :: u32 where "MAP_PRIVATE = push_bit 0 1"
definition MAP_ANONYMOUS :: u32 where "MAP_ANONYMOUS = push_bit 1 1"
definition MAP_POPULATE :: u32 where "MAP_POPULATE = push_bit 4 1"
definition MAP_FIXED :: u32 where "MAP_FIXED = push_bit 5 1"
definition MAP_FAILED :: u64 where "MAP_FAILED = 0xffffffffffffffff"
definition MADV_WILLNEED :: u32 where "MADV_WILLNEED = 1"
definition MADV_DONTNEED :: u32 where "MADV_DONTNEED = 2"

datatype vma_type = VMA_FREE | VMA_ANONYMOUS | VMA_EXECUTABLE
datatype vm_mapping = VM_UNMAPPED | VM_4K_PAGE | VM_2M_PAGE

record vma_info =
  info_name :: string
  info_base :: u64
  info_end :: u64
  info_prot :: u32
  info_type :: vma_type
  info_mapped :: vm_mapping

text \<open>The structure after \<^verbatim>\<open>memset(info, 0, sizeof *info)\<close>.\<close>

definition no_info :: vma_info where
  "no_info = \<lparr>info_name = '''', info_base = 0, info_end = 0, info_prot = 0, info_type = VMA_FREE,
     info_mapped = VM_UNMAPPED\<rparr>"

definition SIZEOF_VMA_INFO :: u64 where "SIZEOF_VMA_INFO = 96"

text \<open>
  \<^verbatim>\<open>assert_user_mem(cur_task, ...)\<close> destroys the current task when the check fails, and does not
  come back.
\<close>

definition assert_user_mem :: "u64 \<Rightarrow> u64 \<Rightarrow> u32 \<Rightarrow> mm \<Rightarrow> mm option" where
  "assert_user_mem va sz flags s =
     do { (ret, fault) \<leftarrow> check_user_vma_range va sz flags s; if ret < 0 then None else Some s }"

definition vma_end_of :: "mm \<Rightarrow> mnode \<Rightarrow> u64 option" where
  "vma_end_of s n = (case n of Vm_mmap v \<Rightarrow> Some (vm_end (area s v)) | Task_mmap \<Rightarrow> None)"

text \<open>The result is the return value and the contents of \<^verbatim>\<open>*info\<close> when they were written.\<close>

definition sys_mquery :: "u64 \<Rightarrow> u64 \<Rightarrow> mm \<Rightarrow> (int \<times> vma_info option \<times> mm) option" where
  "sys_mquery info addr s =
     do { s \<leftarrow> assert_user_mem info SIZEOF_VMA_INFO PROT_WRITE s;
          if addr \<ge> USER_LIM then Some (-1, None, s)
          else do { (vma, par, dir) \<leftarrow> find_vma addr s;
            case vma of
              None \<Rightarrow>
                (case list_tail (task_mmap s) Task_mmap of
                   None \<Rightarrow> Some (0, Some (no_info\<lparr>info_end := USER_LIM\<rparr>), s)
                 | Some n \<Rightarrow> do { e \<leftarrow> vma_end_of s n;
                                  Some (0, Some (no_info\<lparr>info_end := USER_LIM, info_base := e\<rparr>), s) })
            | Some v \<Rightarrow>
                (let a = area s v
                 in if addr < vm_base a then
                      (case list_prev (task_mmap s) Task_mmap (Vm_mmap v) of
                         None \<Rightarrow> Some (0, Some (no_info\<lparr>info_end := vm_base a\<rparr>), s)
                       | Some n \<Rightarrow> do { e \<leftarrow> vma_end_of s n;
                                        Some (0, Some (no_info\<lparr>info_end := vm_base a, info_base := e\<rparr>), s) })
                    else
                      do { let i = no_info\<lparr>info_name := take 64 (vm_name a), info_base := vm_base a, info_end := vm_end a,
                                     info_prot := vm_flags a,
                                     info_type := (if vm_src a \<noteq> 0 then VMA_EXECUTABLE else VMA_ANONYMOUS)\<rparr>;
                           (page, entry, m) \<leftarrow> page_lookup (pml4_of s) addr (vm_of s);
                           let s = put_vm m s;
                           (case (page, entry) of
                              (Some p, Some e) \<Rightarrow>
                                Some (0, Some (i\<lparr>info_mapped := (if huge (get_entry e m) then VM_2M_PAGE else VM_4K_PAGE)\<rparr>), s)
                            | _ \<Rightarrow> Some (0, Some i, s)) }) } }"

definition sys_mmap :: "(vm \<Rightarrow> vm option) \<Rightarrow> u64 \<Rightarrow> u64 \<Rightarrow> u32 \<Rightarrow> u32 \<Rightarrow> mm \<Rightarrow> (u64 \<times> mm) option" where
  "sys_mmap oom addr len prot flags s =
     (let aligned_addr = ROUNDDOWN addr PAGE_SIZE;
          aligned_end = ROUNDUP (addr + len) PAGE_SIZE;
          aligned_size = aligned_end - aligned_addr
      in if has flags MAP_FIXED \<and> addr = 0 then Some (MAP_FAILED, s)
         else if \<not> has flags MAP_ANONYMOUS \<or> \<not> has flags MAP_PRIVATE then Some (MAP_FAILED, s)
         else if has prot PROT_WRITE \<and> has prot PROT_EXEC then Some (MAP_FAILED, s)
         else if has prot PROT_WRITE \<and> \<not> has prot PROT_READ then Some (MAP_FAILED, s)
         else if has prot PROT_EXEC \<and> \<not> has prot PROT_READ then Some (MAP_FAILED, s)
         else if aligned_end \<ge> USER_LIM then Some (MAP_FAILED, s)
         else do { s \<leftarrow> (if has flags MAP_FIXED then map_option snd (remove_vma_range oom aligned_addr aligned_size s)
                        else Some s);
                   (vma, s) \<leftarrow> add_vma ''user'' aligned_addr aligned_size prot s;
                   case vma of
                     None \<Rightarrow> Some (MAP_FAILED, s)
                   | Some v \<Rightarrow>
                       if has flags MAP_POPULATE
                       then do { (r, s) \<leftarrow> populate_vma_range oom (vm_base (area s v)) aligned_size prot s;
                                 if r < 0
                                 then do { s \<leftarrow> remove_vma v s; s \<leftarrow> kfree_vma (Some v) s; Some (MAP_FAILED, s) }
                                 else Some (vm_base (area s v), s) }
                       else Some (vm_base (area s v), s) })"

definition sys_munmap :: "(vm \<Rightarrow> vm option) \<Rightarrow> u64 \<Rightarrow> u64 \<Rightarrow> mm \<Rightarrow> mm option" where
  "sys_munmap oom addr len s =
     (let aligned_addr = ROUNDDOWN addr PAGE_SIZE;
          aligned_end = ROUNDDOWN (addr + len) PAGE_SIZE;
          aligned_size = aligned_end - aligned_addr
      in map_option snd (remove_vma_range oom aligned_addr aligned_size s))"

definition sys_mprotect :: "(vm \<Rightarrow> vm option) \<Rightarrow> u64 \<Rightarrow> u64 \<Rightarrow> u32 \<Rightarrow> mm \<Rightarrow> (int \<times> mm) option" where
  "sys_mprotect oom addr len prot s =
     (let aligned_addr = ROUNDDOWN addr PAGE_SIZE;
          aligned_end = ROUNDUP (addr + len) PAGE_SIZE;
          aligned_size = aligned_end - aligned_addr
      in if len = 0 then Some (- EINVAL, s)
         else if has prot (NOT (PROT_READ OR PROT_WRITE OR PROT_EXEC OR PROT_NONE)) then Some (- EINVAL, s)
         else if has prot PROT_WRITE \<and> \<not> has prot PROT_READ then Some (- EFAULT, s)
         else if has prot PROT_EXEC \<and> \<not> has prot PROT_READ then Some (- EFAULT, s)
         else if has prot PROT_WRITE \<and> has prot PROT_EXEC then Some (- EINVAL, s)
         else if aligned_end \<ge> USER_LIM then Some (- EINVAL, s)
         else do { (r, s) \<leftarrow> protect_vma_range oom aligned_addr aligned_size prot s;
                   Some (if r < 0 then -1 else 0, s) })"

text \<open>The statement \<^verbatim>\<open>-EFAULT;\<close> of \<^verbatim>\<open>sys_madvise\<close> has no effect; a null area is then read.\<close>

definition sys_madvise :: "(vm \<Rightarrow> vm option) \<Rightarrow> u64 \<Rightarrow> u64 \<Rightarrow> u32 \<Rightarrow> mm \<Rightarrow> (int \<times> mm) option" where
  "sys_madvise oom addr len advise s =
     (let aligned_addr = ROUNDDOWN addr PAGE_SIZE;
          aligned_end = ROUNDUP (addr + len) PAGE_SIZE;
          aligned_size = aligned_end - aligned_addr
      in if aligned_end \<ge> USER_LIM then Some (- EINVAL, s)
         else do { vma \<leftarrow> task_find_vma addr s;
                   if advise = MADV_WILLNEED
                   then do { v \<leftarrow> vma; populate_vma_range oom aligned_addr aligned_size (vm_flags (area s v)) s }
                   else if advise = MADV_DONTNEED then unmap_vma_range oom aligned_addr aligned_size s
                   else Some (- EINVAL, s) })"

declare unmap_loop.simps [code]

end
