(* ===== verification/VMA_Check.thy ===== *)
theory VMA_Check
  imports VMA_Inv VMA_Paging
begin

text \<open>
  What the access check of \<^verbatim>\<open>kernel/vma/user.c\<close> decides, and where the system calls of
  \<^verbatim>\<open>kernel/vma/syscall.c\<close> depart from what they promise.
\<close>

section \<open>The check along the list of areas\<close>

fun check_list :: "(vma_ptr \<Rightarrow> vma) \<Rightarrow> u64 \<Rightarrow> u32 \<Rightarrow> u64 \<Rightarrow> vma_ptr list \<Rightarrow> int \<times> u64" where
  "check_list A en f l [] = (0, l)"
| "check_list A en f l (x # xs) =
     (if \<not> vm_base (A x) < en then (0, l)
      else if vm_base (A x) > l then (-1, l)
      else if vm_flags (A x) AND f \<noteq> f then (-1, l)
      else check_list A en f (vm_end (A x)) xs)"

lemma next_area:
  assumes "areas s (as @ v # bs)"
  shows "list_next (task_mmap s) Task_mmap (Vm_mmap v) = (case bs of [] \<Rightarrow> None | b # _ \<Rightarrow> Some (Vm_mmap b))"
proof -
  have "dlist (task_mmap s) Task_mmap (map Vm_mmap as @ Vm_mmap v # map Vm_mmap bs)"
    using assms by (simp add: areas_def)
  from dlist_next_mid [OF this] show ?thesis
    by (cases bs) (auto simp: list_next_def)
qed

lemma walk_check:
  assumes "areas s (as @ v # bs)"
  shows "walk_vmas do_check_user_vma base sz (Some v) (\<lparr>chk_last = l, chk_flags = f\<rparr>, s) =
    (case check_list (area s) (base + sz) f l (v # bs) of (r, l') \<Rightarrow> Some (r, \<lparr>chk_last = l', chk_flags = f\<rparr>, s))"
  using assms
proof (induction bs arbitrary: as v l)
  case Nil
  then show ?case
    by (simp add: walk_vmas.simps [of _ _ _ "Some v"] walk_vmas.simps [of _ _ _ None] next_area do_check_user_vma_def Let_def)
next
  case (Cons b bs)
  have "areas s ((as @ [v]) @ b # bs)"
    using Cons.prems by simp
  from Cons.IH [OF this] Cons.prems show ?case
    by (simp add: walk_vmas.simps [of _ _ _ "Some v"] next_area do_check_user_vma_def Let_def)
qed

definition accessible :: "(vma_ptr \<Rightarrow> vma) \<Rightarrow> vma_ptr list \<Rightarrow> u32 \<Rightarrow> u64 \<Rightarrow> bool" where
  "accessible A xs f a \<longleftrightarrow> (\<exists>x\<in>set xs. vm_base (A x) \<le> a \<and> a < vm_end (A x) \<and> vm_flags (A x) AND f = f)"

definition checked :: "(vma_ptr \<Rightarrow> vma) \<Rightarrow> vma_ptr list \<Rightarrow> u32 \<Rightarrow> u64 \<Rightarrow> u64 \<Rightarrow> int \<times> u64 \<Rightarrow> bool" where
  "checked A xs f l en r \<longleftrightarrow>
     (if fst r = 0 \<and> en \<le> snd r then \<forall>a. l \<le> a \<and> a < en \<longrightarrow> accessible A xs f a
      else l \<le> snd r \<and> snd r < en \<and> (\<forall>a. l \<le> a \<and> a < snd r \<longrightarrow> accessible A xs f a) \<and> \<not> accessible A xs f (snd r))"

lemma check_list_checked:
  assumes "ordered A xs" "\<forall>x\<in>set xs. l < vm_end (A x)" "l < en \<or> (\<forall>x\<in>set xs. l \<le> vm_base (A x))"
  shows "checked A xs f l en (check_list A en f l xs)"
  using assms
proof (induction xs arbitrary: l)
  case Nil
  then show ?case
    by (auto simp: checked_def accessible_def)
next
  case (Cons x xs)
  have ord: "vm_base (A x) < vm_end (A x)" "ordered A xs" "\<And>y. y \<in> set xs \<Longrightarrow> vm_end (A x) \<le> vm_base (A y)"
    using Cons.prems(1) by (auto simp: ordered_Cons)
  consider (beyond) "en \<le> vm_base (A x)" | (gap) "vm_base (A x) < en" "l < vm_base (A x)"
    | (flags) "vm_base (A x) < en" "vm_base (A x) \<le> l" "vm_flags (A x) AND f \<noteq> f"
    | (next_area) "vm_base (A x) < en" "vm_base (A x) \<le> l" "vm_flags (A x) AND f = f"
    by fastforce
  then show ?case
  proof cases
    case beyond
    then have eq: "check_list A en f l (x # xs) = (0, l)"
      by (auto dest: leD)
    have "\<not> accessible A (x # xs) f l" if "l < en"
    proof -
      have "vm_base (A x) \<le> vm_base (A y)" if "y \<in> set (x # xs)" for y
        using ord(1) ord(3) [of y] that by (auto intro: less_imp_le order_trans)
      then show ?thesis
        using beyond \<open>l < en\<close> by (fastforce simp: accessible_def)
    qed
    then show ?thesis
      unfolding eq by (auto simp: checked_def not_le)
  next
    case gap
    then have eq: "check_list A en f l (x # xs) = (-1, l)"
      by simp
    have "vm_base (A x) \<le> vm_base (A y)" if "y \<in> set (x # xs)" for y
      using ord(1) ord(3) [of y] that by (auto intro: less_imp_le order_trans)
    then have "\<not> accessible A (x # xs) f l" "l < en"
      using gap by (fastforce simp: accessible_def)+
    then show ?thesis
      unfolding eq by (auto simp: checked_def)
  next
    case flags
    then have eq: "check_list A en f l (x # xs) = (-1, l)"
      by (simp add: not_less)
    have "l < en"
      using Cons.prems(3) flags by auto
    moreover have "l < vm_end (A x)"
      using Cons.prems(2) by simp
    then have "\<not> accessible A (x # xs) f l"
      using flags ord(3) by (fastforce simp: accessible_def)
    ultimately show ?thesis
      unfolding eq by (auto simp: checked_def)
  next
    case next_area
    let ?e = "vm_end (A x)" and ?r = "check_list A en f (vm_end (A x)) xs"
    have le: "l < ?e"
      using Cons.prems(2) by simp
    have eq: "check_list A en f l (x # xs) = ?r"
      using next_area by (auto dest: leD)
    have "\<forall>y\<in>set xs. ?e < vm_end (A y)" "\<forall>y\<in>set xs. ?e \<le> vm_base (A y)"
      using ord by (auto simp: ordered_def intro: le_less_trans)
    then have ih: "checked A xs f ?e en ?r"
      using Cons.IH [OF ord(2)] by blast
    have low: "accessible A (x # xs) f a" if "l \<le> a" "a < ?e" for a
      using that next_area by (auto simp: accessible_def intro: order_trans)
    have high: "accessible A (x # xs) f a \<longleftrightarrow> accessible A xs f a" if "?e \<le> a" for a
      using that by (auto simp: accessible_def)
    have all: "accessible A (x # xs) f a" if "l \<le> a" "?e \<le> a \<Longrightarrow> accessible A xs f a" for a
      using low [of a] high [of a] that by (cases "a < ?e") auto
    show ?thesis
    proof (cases "fst ?r = 0 \<and> en \<le> snd ?r")
      case True
      then show ?thesis
        unfolding eq using ih all by (simp add: checked_def)
    next
      case False
      then have r: "?e \<le> snd ?r" "snd ?r < en" "\<not> accessible A xs f (snd ?r)"
        "\<And>a. ?e \<le> a \<Longrightarrow> a < snd ?r \<Longrightarrow> accessible A xs f a"
        using ih by (auto simp: checked_def split: if_splits)
      moreover have "l \<le> snd ?r"
        using le r(1) by simp
      ultimately show ?thesis
        unfolding eq using False all high by (auto simp: checked_def)
    qed
  qed
qed

lemma check_range_list:
  assumes "areas s xs"
  shows "check_user_vma_range base sz f s =
    (case first_after (area s) base xs of
       None \<Rightarrow> Some (-1, base)
     | Some v \<Rightarrow>
         if base + sz \<le> vm_base (area s v) then Some (-1, base)
         else (case check_list (area s) (base + sz) f base (filter (\<lambda>x. base < vm_end (area s x)) xs) of
                 (r, l) \<Rightarrow> if r \<noteq> 0 \<or> l < base + sz then Some (-1, l) else Some (0, 0)))"
proof -
  let ?A = "area s"
  obtain par dir where fv: "find_vma base s = Some (first_after ?A base xs, par, dir)"
    using find_vma_first [OF assms] by blast
  have ord: "ordered ?A xs"
    using assms by (simp add: areas_def)
  show ?thesis
  proof (cases "first_after ?A base xs")
    case None
    then show ?thesis
      using fv by (simp add: check_user_vma_range_def walk_vma_range_def)
  next
    case (Some v)
    then obtain as bs where v: "xs = as @ v # bs" "base < vm_end (?A v)" "\<forall>x\<in>set as. vm_end (?A x) \<le> base"
      using first_after_cases [OF ord, of base] by auto
    have "base < vm_end (?A x)" if "x \<in> set bs" for x
    proof -
      have "vm_end (?A v) \<le> vm_base (?A x)" "vm_base (?A x) < vm_end (?A x)"
        using ord v(1) that by (simp_all add: ordered_append ordered_Cons) (simp add: ordered_def)
      then show ?thesis
        using v(2) by (meson less_le_trans less_trans)
    qed
    then have "filter (\<lambda>x. base < vm_end (?A x)) bs = bs" "filter (\<lambda>x. base < vm_end (?A x)) as = []"
      using v(3) by (auto simp: filter_id_conv filter_empty_conv not_less)
    then have fl: "filter (\<lambda>x. base < vm_end (?A x)) xs = v # bs"
      using v by simp
    show ?thesis
      using fv Some walk_check [OF assms [unfolded v(1)], of base sz base f]
      by (auto simp: check_user_vma_range_def walk_vma_range_def fl split: prod.splits)
  qed
qed

text \<open>
  C22: \<^verbatim>\<open>check_user_vma_range\<close> on a nonempty range that does not wrap around returns 0 exactly when every
  address of the range lies in an area with the requested permissions; otherwise it returns -1 and
  the address it reports is the first one of the range that is not accessible.
\<close>

theorem check_user_vma_range_spec:
  assumes "areas s xs" "base < base + sz"
  shows "\<exists>ret fault. check_user_vma_range base sz f s = Some (ret, fault)
    \<and> (if ret = 0 then \<forall>a. base \<le> a \<and> a < base + sz \<longrightarrow> accessible (area s) xs f a
       else ret = -1 \<and> base \<le> fault \<and> fault < base + sz \<and> \<not> accessible (area s) xs f fault
            \<and> (\<forall>a. base \<le> a \<and> a < fault \<longrightarrow> accessible (area s) xs f a))"
proof -
  let ?A = "area s" and ?ys = "filter (\<lambda>x. base < vm_end (area s x)) xs"
  have ord: "ordered ?A xs"
    using assms(1) by (simp add: areas_def)
  have ys: "accessible ?A ?ys f a \<longleftrightarrow> accessible ?A xs f a" if "base \<le> a" for a
    using that unfolding accessible_def by (auto intro: le_less_trans)
  have "ordered ?A ?ys"
    using ord by (auto simp: ordered_def sorted_wrt_filter)
  then have ck: "checked ?A ?ys f base (base + sz) (check_list ?A (base + sz) f base ?ys)"
    using assms(2) by (intro check_list_checked) auto
  show ?thesis
  proof (cases "first_after ?A base xs")
    case None
    then have "\<not> accessible ?A xs f base"
      using first_after_cases [OF ord, of base] by (force simp: accessible_def)
    then show ?thesis
      using None assms by (auto simp: check_range_list)
  next
    case (Some v)
    then obtain as bs where v: "xs = as @ v # bs" "base < vm_end (?A v)" "\<forall>x\<in>set as. vm_end (?A x) \<le> base"
      using first_after_cases [OF ord, of base] by auto
    show ?thesis
    proof (cases "base + sz \<le> vm_base (?A v)")
      case True
      have "\<not> accessible ?A xs f base"
      proof
        assume "accessible ?A xs f base"
        then obtain x where x: "x \<in> set xs" "vm_base (?A x) \<le> base" "base < vm_end (?A x)"
          by (auto simp: accessible_def)
        then have "x = v \<or> x \<in> set bs"
          using v by force
        then have "vm_base (?A v) \<le> vm_base (?A x)"
          using ord v(1) by (auto simp: ordered_append ordered_Cons intro: less_imp_le order_trans)
        then show False
          using x(2) True assms(2) by (meson leD order_trans)
      qed
      then show ?thesis
        using Some True assms by (auto simp: check_range_list)
    next
      case False
      obtain r l where rl: "check_list ?A (base + sz) f base ?ys = (r, l)"
        by fastforce
      have eq: "check_user_vma_range base sz f s = (if r \<noteq> 0 \<or> l < base + sz then Some (-1, l) else Some (0, 0))"
        using Some False rl assms(1) by (simp add: check_range_list)
      show ?thesis
      proof (cases "r = 0 \<and> base + sz \<le> l")
        case True
        then show ?thesis
          using eq ck ys by (auto simp: checked_def rl dest: leD)
      next
        case bad: False
        then have "base \<le> l" "l < base + sz" "\<not> accessible ?A ?ys f l"
          "\<forall>a. base \<le> a \<and> a < l \<longrightarrow> accessible ?A ?ys f a"
          using ck by (auto simp: checked_def rl split: if_splits)
        then show ?thesis
          using eq ys by simp
      qed
    qed
  qed
qed

theorem check_user_vma_range_spec_witness:
  "\<exists>s xs fault. areas s xs \<and> check_user_vma_range 0x10000 0x3000 VM_READ s = Some (-1, fault)
     \<and> \<not> accessible (area s) xs VM_READ fault"
proof -
  obtain v s where s: "mm_ok 0 s {v} [v]" "area s = area start_mm"
    using one_area by metis
  then have a: "areas s [v]"
    by (simp add: mm_ok_def balanced_areas_def)
  obtain ret fault where r: "check_user_vma_range 0x10000 0x3000 VM_READ s = Some (ret, fault)"
    "if ret = 0 then \<forall>a. 0x10000 \<le> a \<and> a < 0x10000 + 0x3000 \<longrightarrow> accessible (area s) [v] VM_READ a
     else ret = -1 \<and> 0x10000 \<le> fault \<and> fault < 0x10000 + 0x3000 \<and> \<not> accessible (area s) [v] VM_READ fault
            \<and> (\<forall>a. 0x10000 \<le> a \<and> a < fault \<longrightarrow> accessible (area s) [v] VM_READ a)"
    using check_user_vma_range_spec [OF a, of "0x10000" "0x3000" VM_READ] by auto
  moreover have "\<not> accessible (area s) [v] VM_READ 0x12000"
    by (simp add: accessible_def s(2) start_mm_def)
  ultimately have "ret \<noteq> 0"
    by (auto dest: spec [of _ "0x12000"])
  with r a show ?thesis by auto
qed

section \<open>Ranges that wrap around\<close>

text \<open>
  \<^verbatim>\<open>check_user_vma_range\<close> does not notice a size that wraps around the address space: it accepts
  every range that starts in a suitable area and whose end, computed modulo \<open>2 ^ 64\<close>, lies before
  the start in the same area, although such a range covers addresses outside every area.
\<close>

theorem check_user_vma_range_wraps:
  assumes "areas s xs" "v \<in> set xs" "vm_flags (area s v) AND f = f"
      and "vm_base (area s v) < base + sz" "base + sz \<le> base" "base < vm_end (area s v)"
  shows "check_user_vma_range base sz f s = Some (0, 0)"
proof -
  let ?A = "area s"
  obtain as bs where v: "xs = as @ v # bs"
    using assms(2) split_list by metis
  have ord: "ordered ?A (as @ v # bs)"
    using assms(1) by (simp add: areas_def v)
  have b: "vm_base (?A v) \<le> base"
    using assms(4,5) by simp
  have as: "vm_end (?A x) \<le> base" if "x \<in> set as" for x
    using ord b that by (force simp: ordered_append)
  have bs: "vm_end (?A v) \<le> vm_base (?A x)" "base < vm_end (?A x)" "\<not> vm_base (?A x) < base + sz" if "x \<in> set bs" for x
  proof -
    show 1: "vm_end (?A v) \<le> vm_base (?A x)"
      using ord that by (simp add: ordered_append ordered_Cons)
    moreover have "vm_base (?A x) < vm_end (?A x)"
      using ord that by (simp add: ordered_def)
    ultimately show "base < vm_end (?A x)" "\<not> vm_base (?A x) < base + sz"
      using assms(5,6) by (auto simp: not_less intro: less_trans less_imp_le le_less_trans)
  qed
  have "filter (\<lambda>x. base < vm_end (?A x)) as = []" "filter (\<lambda>x. base < vm_end (?A x)) bs = bs"
    using as bs(2) by (auto simp: filter_empty_conv filter_id_conv not_less)
  then have fl: "filter (\<lambda>x. base < vm_end (?A x)) xs = v # bs"
    using assms(6) by (simp add: v)
  have "check_list ?A (base + sz) f (vm_end (?A v)) bs = (0, vm_end (?A v))"
    using bs(3) by (cases bs) auto
  moreover have "\<not> base + sz \<le> vm_base (?A v)" "\<not> vm_end (?A v) < base + sz" "\<not> base < vm_base (?A v)"
    using assms(4-6) b by (auto simp: not_le not_less intro: less_imp_le le_less_trans)
  ultimately show ?thesis
    using check_range_list [OF assms(1), of base sz f] assms(3,4) by (simp add: first_after_def fl)
qed

theorem check_user_vma_range_wraps_witness:
  "\<exists>s xs. areas s xs \<and> check_user_vma_range 0x11000 0xFFFFFFFFFFFFFFF8 VM_READ s = Some (0, 0)
     \<and> \<not> accessible (area s) xs VM_READ 0x12000"
proof -
  obtain v s where s: "mm_ok 0 s {v} [v]" "area s = area start_mm"
    using one_area by metis
  then have a: "areas s [v]"
    by (simp add: mm_ok_def balanced_areas_def)
  have "check_user_vma_range 0x11000 0xFFFFFFFFFFFFFFF8 VM_READ s = Some (0, 0)"
    by (rule check_user_vma_range_wraps [OF a, of v]) (simp_all add: s(2) start_mm_def)
  moreover have "\<not> accessible (area s) [v] VM_READ 0x12000"
    by (simp add: accessible_def s(2) start_mm_def)
  ultimately show ?thesis
    using a by blast
qed

section \<open>Merging with the area before\<close>

lemma remove_last:
  assumes "balanced_areas s (as @ [x, v])"
  obtains h where "rb_remove (Some v) (task_rb s) = Some (0, h)"
    "lnext (list_del (Vm_mmap v) (task_mmap s)) (Vm_mmap x) = Task_mmap"
proof -
  obtain t where t: "rb_tree (task_rb s) t" "inorder t = (as @ [x]) @ v # []" "rb_valid t"
    using assms rb_tree_unique by (fastforce simp: balanced_areas_def areas_def)
  from t(1,2) obtain k c l r where f: "t = fill k (Br c l v r)" "focus (task_rb s) k (Br c l v r)" "[] = inorder r @ post k"
    by (rule position_split)
  then have "r = Tip"
    by (cases r) auto
  then obtain h where "rb_remove (Some v) (task_rb s) = Some (0, h)"
    using rb_remove_easy [OF f(2)] f(1) t(3) by auto
  moreover have "dlist (task_mmap s) Task_mmap (map Vm_mmap (as @ [x]) @ Vm_mmap v # [])"
    using assms by (simp add: balanced_areas_def areas_def)
  from dlist_del [OF this] have "dlist (list_del (Vm_mmap v) (task_mmap s)) Task_mmap (map Vm_mmap as @ Vm_mmap x # [])"
    by simp
  from dlist_next_mid [OF this] have "lnext (list_del (Vm_mmap v) (task_mmap s)) (Vm_mmap x) = Task_mmap"
    by simp
  ultimately show thesis
    using that by blast
qed

lemma merge_last:
  assumes b: "balanced_areas s (as @ [x, v])" and heap: "own_heap c (kheap s) live" "v \<in> live"
    and al: "page_aligned (vm_base (area s x))" "page_aligned (vm_end (area s x))" "page_aligned (vm_end (area s v))"
    and eq: "area s v = (area s x)\<lparr>vm_base := vm_end (area s x), vm_end := e\<rparr>"
  obtains s' where "merge_vmas v s = Some (x, s')" "area s' = (area s)(x := (area s x)\<lparr>vm_end := e\<rparr>)"
proof -
  let ?s = "set_area x ((area s x)\<lparr>vm_end := e\<rparr>) s"
  have xv: "x \<noteq> v"
    using b areas_distinct by (fastforce simp: balanced_areas_def)
  have dl: "dlist (task_mmap s) Task_mmap (map Vm_mmap (as @ [x]) @ Vm_mmap v # [])"
    using b by (simp add: balanced_areas_def areas_def)
  then have prv: "lprev (task_mmap s) (Vm_mmap v) = Vm_mmap x"
    using dlist_prev_mid by fastforce
  obtain h where rm: "rb_remove (Some v) (task_rb s) = Some (0, h)"
    and nxt: "lnext (list_del (Vm_mmap v) (task_mmap s)) (Vm_mmap x) = Task_mmap"
    by (rule remove_last [OF b])
  let ?s1 = "?s\<lparr>task_rb := rb_node_init v h, task_mmap := list_del (Vm_mmap v) (task_mmap s)\<rparr>"
  have rm': "remove_vma v ?s = Some ?s1"
    using rm by (simp add: remove_vma_def Let_def)
  obtain k where k: "kfree_vma (Some v) ?s1 = Some (?s1\<lparr>kheap := k\<rparr>)"
    by (rule kfree_vma_live [of c ?s1 live v]) (use heap in auto)
  have m: "merge_vma x v s = Some (Some x, ?s1\<lparr>kheap := k\<rparr>)"
    using al eq rm' k by (simp add: merge_vma_def Let_def)
  show thesis
  proof
    show "merge_vmas v s = Some (x, ?s1\<lparr>kheap := k\<rparr>)"
      using prv m nxt by (simp add: merge_vmas_def)
    show "area (?s1\<lparr>kheap := k\<rparr>) = (area s)(x := (area s x)\<lparr>vm_end := e\<rparr>)"
      by simp
  qed
qed

text \<open>The rounding of a request that starts on a page boundary.\<close>

lemma and_not_page: "x AND NOT (PAGE_SIZE - 1) = ROUNDDOWN x PAGE_SIZE"
proof -
  have "x = (x AND NOT (mask 12)) + take_bit 12 x"
    by (subst disjunctive_add) (auto simp: bit_simps intro!: bit_eqI)
  moreover have "x mod PAGE_SIZE = take_bit 12 x" by (simp add: PAGE_SIZE_def take_bit_eq_mod)
  moreover have "PAGE_SIZE - 1 = mask 12" by (simp add: PAGE_SIZE_def mask_eq_exp_minus_1)
  ultimately show ?thesis unfolding ROUNDDOWN_def by (metis add_diff_cancel_right')
qed

lemma rounded_self:
  assumes "4096 dvd unat x"
  shows "ROUNDDOWN x PAGE_SIZE = x" and "unat x + 4096 \<le> 2 ^ 64 \<Longrightarrow> ROUNDUP x PAGE_SIZE = x"
proof -
  show "ROUNDDOWN x PAGE_SIZE = x"
    using assms unat_ROUNDDOWN [of x PAGE_SIZE] by (simp add: word_unat_eq_iff PAGE_SIZE_def)
  assume "unat x + 4096 \<le> 2 ^ 64"
  moreover obtain q where "unat x = 4096 * q" using assms by blast
  ultimately show "ROUNDUP x PAGE_SIZE = x"
    using unat_ROUNDUP [of PAGE_SIZE x] by (simp add: word_unat_eq_iff PAGE_SIZE_def)
qed

lemma request_rounding:
  assumes "page_aligned a" "0 < len" "unat a + unat len + 4096 \<le> unat USER_LIM"
  defines "e \<equiv> ROUNDUP (a + len) PAGE_SIZE"
  shows "ROUNDDOWN a PAGE_SIZE = a" "page_aligned e" "a < e" "\<not> USER_LIM \<le> e" "ROUNDUP (e - a) PAGE_SIZE = e - a"
proof -
  have lim: "unat USER_LIM + 4096 \<le> 2 ^ 64" by (simp add: USER_LIM_def)
  have al: "4096 dvd unat a" using assms(1) by (simp add: page_aligned_dvd)
  show "ROUNDDOWN a PAGE_SIZE = a" by (rule rounded_self(1) [OF al])
  have sum: "unat (a + len) = unat a + unat len" using assms(3) lim by (simp add: unat_plus_if')
  have ev: "4096 dvd unat e" using ROUNDUP_dvd [of PAGE_SIZE "a + len"] by (simp add: e_def PAGE_SIZE_def)
  then show "page_aligned e" by (simp add: page_aligned_dvd)
  have fit: "unat (a + len) + unat PAGE_SIZE \<le> 2 ^ 64" "0 < PAGE_SIZE" using assms(3) lim sum by (simp_all add: PAGE_SIZE_def)
  have ue: "unat e = 4095 + (unat a + unat len) - (4095 + (unat a + unat len)) mod 4096"
    using unat_ROUNDUP [OF fit(2,1)] sum by (simp add: e_def PAGE_SIZE_def)
  have "(4095 + (unat a + unat len)) mod 4096 < 4096" by simp
  then have b: "unat a + unat len \<le> unat e" "unat e \<le> unat a + unat len + 4095" unfolding ue by linarith+
  have "0 < unat len" using assms(2) by (simp add: unat_gt_0 word_gt_0)
  then show less: "a < e" using b(1) by (simp add: word_less_nat_alt)
  show "\<not> USER_LIM \<le> e" using b(2) assms(3) by (simp add: word_le_nat_alt)
  have d: "unat (e - a) = unat e - unat a" using less by (simp add: unat_sub word_le_nat_alt word_less_nat_alt)
  then have "4096 dvd unat (e - a)" using al ev by (simp add: dvd_diff_nat)
  then show "ROUNDUP (e - a) PAGE_SIZE = e - a"
    using b(2) assms(3) lim d by (intro rounded_self(2)) simp_all
qed

text \<open>The request that directly follows the last area of a task and has its attributes.\<close>

lemma add_vma_after:
  assumes ok: "mm_ok c s live (as @ [x])" and new: "kmalloc SIZEOF_VMA (kheap s) = Some (Some v, k)"
    and x: "area s x = \<lparr>vm_name = ''user'', vm_base = b, vm_end = a, vm_src = 0, vm_len = 0, vm_flags = prot\<rparr>"
    and al: "page_aligned b" "page_aligned a" "page_aligned e" and ae: "a < e"
    and sz: "ROUNDUP (e - a) PAGE_SIZE = e - a"
  shows "\<exists>s'. add_vma ''user'' a (e - a) prot s = Some (Some x, s') \<and> area s' x = (area s x)\<lparr>vm_end := e\<rparr>"
proof -
  let ?a = "\<lparr>vm_name = ''user'', vm_base = a, vm_end = e, vm_src = 0, vm_len = 0, vm_flags = prot\<rparr>"
  let ?s = "init_links v (s\<lparr>kheap := k, area := (area s)(v := ?a)\<rparr>)"
  have heap: "own_heap c (kheap s) live" and live: "set (as @ [x]) \<subseteq> live" and b: "balanced_areas s (as @ [x])"
    using ok by (auto simp: mm_ok_def)
  have ord: "ordered (area s) (as @ [x])" using b by (simp add: balanced_areas_def areas_def)
  have v: "v \<notin> live" "own_heap c k (insert v live)"
    using vh.alloc_law [OF heap] new by auto
  then have xv: "v \<notin> set (as @ [x])" "x \<noteq> v" using live by auto
  have "ordered ((area s)(v := ?a)) (as @ [x]) = ordered (area s) (as @ [x])"
    using xv(1) by (intro ordered_cong) auto
  then have "balanced_areas (s\<lparr>kheap := k, area := (area s)(v := ?a)\<rparr>) (as @ [x])"
    using b by (simp add: balanced_areas_def areas_def)
  then have b1: "balanced_areas ?s ((as @ [x]) @ [])"
    using xv by (simp add: init_links_areas)
  have "vm_end (area s y) \<le> a" if "y \<in> set (as @ [x])" for y
    using ord that x by (force simp: ordered_append ordered_Cons)
  then have v1: "v \<notin> set ((as @ [x]) @ [])" "unlinked ?s v" "vm_base (area ?s v) < vm_end (area ?s v)"
    "place (area ?s) v (as @ [x]) []"
    using xv ae by (auto simp: place_def)
  obtain h l where ins: "insert_vma v ?s = Some (0, ?s\<lparr>task_rb := h, task_mmap := l\<rparr>)"
    "balanced_areas (?s\<lparr>task_rb := h, task_mmap := l\<rparr>) ((as @ [x]) @ v # [])"
    by (rule insert_vma_at [OF b1 v1])
  obtain s' where m: "merge_vmas v (?s\<lparr>task_rb := h, task_mmap := l\<rparr>) = Some (x, s')"
      "area s' = (area ?s)(x := (area ?s x)\<lparr>vm_end := e\<rparr>)"
  proof (rule merge_last [of "?s\<lparr>task_rb := h, task_mmap := l\<rparr>" as x v c "insert v live" e])
    show "balanced_areas (?s\<lparr>task_rb := h, task_mmap := l\<rparr>) (as @ [x, v])"
      using ins(2) by simp
  qed (use v xv x al in auto)
  have "set_area v ?a (init_links v (s\<lparr>kheap := k\<rparr>)) = ?s"
    by (simp add: init_links_def set_area_def)
  then have "add_executable_vma ''user'' a (e - a) prot 0 0 s = Some (Some x, s')"
    using new ins(1) m(1) by (simp add: add_executable_vma_def kmalloc_vma_def Let_def)
  moreover have "a \<noteq> 0" using ord x by (auto simp: ordered_append ordered_Cons)
  ultimately have "add_vma ''user'' a (e - a) prot s = Some (Some x, s')"
    using sz by (simp add: add_vma_def and_not_page ROUNDUP_def)
  then show ?thesis using m(2) xv by simp
qed

text \<open>
  C23: \<^verbatim>\<open>sys_mmap\<close> does not always return the address of the new mapping.  When the last area \<open>x\<close> of the task is an anonymous
  user mapping with the permissions asked for, and the request starts where it ends, without \<^verbatim>\<open>MAP_FIXED\<close> and
  \<^verbatim>\<open>MAP_POPULATE\<close>, and memory for an area is left, the call succeeds by extending \<open>x\<close> to the rounded end of the request,
  and returns the base of \<open>x\<close>, which lies below the address of the new mapping.
\<close>

theorem sys_mmap_merged:
  assumes "mm_ok c s live (as @ [x])" "kmalloc SIZEOF_VMA (kheap s) = Some (Some v, k)"
    and "area s x = \<lparr>vm_name = ''user'', vm_base = b, vm_end = a, vm_src = 0, vm_len = 0, vm_flags = prot\<rparr>"
    and "page_aligned b" "page_aligned a" "0 < len" "unat a + unat len + 4096 \<le> unat USER_LIM"
    and "has flags MAP_ANONYMOUS" "has flags MAP_PRIVATE" "\<not> has flags MAP_FIXED" "\<not> has flags MAP_POPULATE"
    and "\<not> (has prot PROT_WRITE \<and> has prot PROT_EXEC)" "has prot PROT_READ \<or> \<not> has prot PROT_WRITE \<and> \<not> has prot PROT_EXEC"
  shows "\<exists>s'. sys_mmap oom a len prot flags s = Some (b, s') \<and> b < a
     \<and> area s' x = (area s x)\<lparr>vm_end := ROUNDUP (a + len) PAGE_SIZE\<rparr>"
proof -
  note r = request_rounding [OF assms(5,6,7)]
  obtain s' where s': "add_vma ''user'' a (ROUNDUP (a + len) PAGE_SIZE - a) prot s = Some (Some x, s')"
    "area s' x = (area s x)\<lparr>vm_end := ROUNDUP (a + len) PAGE_SIZE\<rparr>"
    using add_vma_after [OF assms(1,2,3,4,5) r(2,3,5)] by blast
  have "b < a" using assms(1,3) by (auto simp: mm_ok_def balanced_areas_def areas_def ordered_append ordered_Cons)
  then show ?thesis
    using s' assms(3,8-13) r(1,4) by (auto simp: sys_mmap_def Let_def)
qed

theorem sys_mmap_merged_witness:
  "\<exists>s s' x. mm_ok 0 s {x} [x] \<and> sys_mmap (\<lambda>_. None) 0x12000 0x1000 PROT_READ (MAP_PRIVATE OR MAP_ANONYMOUS) s = Some (0x10000, s')"
proof -
  obtain v s where s: "mm_ok 0 s {v} [v]" "area s = area start_mm" "free_frames (phys (kheap s)) \<noteq> {}"
    using one_area by metis
  have heap: "heap_ok 0 (kheap s) {v}" "cpu (phys (kheap s)) = 0"
    using s(1) by (auto simp: mm_ok_def own_heap_def)
  obtain w k where w: "kmalloc SIZEOF_VMA (kheap s) = Some (Some w, k)"
    using kmalloc_rep [OF heap, of SIZEOF_VMA] s(3) by (auto simp: SIZEOF_VMA_def)
  have a: "area s v = \<lparr>vm_name = ''user'', vm_base = 0x10000, vm_end = 0x12000, vm_src = 0, vm_len = 0, vm_flags = PROT_READ\<rparr>"
    by (simp add: s(2) start_mm_def VM_READ_def PROT_READ_def)
  have "\<exists>s'. sys_mmap (\<lambda>_. None) 0x12000 0x1000 PROT_READ (MAP_PRIVATE OR MAP_ANONYMOUS) s = Some (0x10000, s') \<and> (0x10000 :: u64) < 0x12000
     \<and> area s' v = (area s v)\<lparr>vm_end := ROUNDUP (0x12000 + 0x1000) PAGE_SIZE\<rparr>"
    by (rule sys_mmap_merged [of 0 s "{v}" "[]" v w k, OF _ w a])
      (use s(1) in \<open>simp_all add: page_aligned_def PAGE_SIZE_def USER_LIM_def MAP_PRIVATE_def MAP_ANONYMOUS_def
        MAP_FIXED_def MAP_POPULATE_def PROT_READ_def PROT_WRITE_def PROT_EXEC_def\<close>)
  then show ?thesis using s(1) by blast
qed

end
