(* ===== verification/C_Int.thy ===== *)
theory C_Int
  imports Prelude
begin

text \<open>
  The C type \<^verbatim>\<open>int\<close>.  Its values are integers; arithmetic that leaves the range of 32 bits wraps around, as the code the compiler
  generates does on this machine.
\<close>

definition i32 :: "int \<Rightarrow> int" where
  "i32 x = signed_take_bit 31 x"

lemma i32_id: "- 2147483648 \<le> x \<Longrightarrow> x < 2147483648 \<Longrightarrow> i32 x = x"
  by (simp add: i32_def signed_take_bit_int_eq_self)

lemma i32_add [simp]: "i32 (i32 x + y) = i32 (x + y)"
  unfolding i32_def by (metis signed_take_bit_add signed_take_bit_signed_take_bit min.idem)

lemma i32_add_right [simp]: "i32 (y + i32 x) = i32 (y + x)"
  using i32_add [of x y] by (simp only: add.commute)

lemma i32_diff [simp]: "i32 (i32 x - y) = i32 (x - y)"
  unfolding i32_def by (metis signed_take_bit_diff signed_take_bit_signed_take_bit min.idem)

lemma i32_0 [simp]: "i32 0 = 0"
  by (simp add: i32_def)

end
