(* ===== verification/CString.thy ===== *)
theory CString
  imports C_Int
begin

text \<open>
  The string and memory routines of \<^verbatim>\<open>lib/string.c\<close> over a memory of bytes.  A string is the bytes from
  an address up to the first null byte; a routine that runs past every null byte does not return.
  \<^verbatim>\<open>memset\<close> and \<^verbatim>\<open>memmove\<close> are the variants with the string instructions of the processor, which work
  on units of one or four bytes.
\<close>

type_synonym bmem = "u64 \<Rightarrow> u8"

lemma unat_inc:
  fixes s e :: u64
  assumes "s < e"
  shows "unat (s + 1) = Suc (unat s)"
proof -
  have "1 + s \<noteq> 0"
  proof
    assume "1 + s = 0"
    then have "s = - 1"
      by (simp add: eq_neg_iff_add_eq_0 add.commute)
    with assms show False by simp
  qed
  then show ?thesis
    using unatSuc [of s] by (simp add: add.commute)
qed

section \<open>Strings\<close>

partial_function (option) strlen_loop :: "bmem \<Rightarrow> u64 \<Rightarrow> int \<Rightarrow> int option" where
  "strlen_loop m s n = (if m s \<noteq> 0 then strlen_loop m (s + 1) (i32 (n + 1)) else Some n)"

definition strlen :: "bmem \<Rightarrow> u64 \<Rightarrow> int option" where
  "strlen m s = strlen_loop m s 0"

primrec strnlen_loop :: "nat \<Rightarrow> bmem \<Rightarrow> u64 \<Rightarrow> int \<Rightarrow> int" where
  "strnlen_loop 0 m s n = n"
| "strnlen_loop (Suc sz) m s n = (if m s \<noteq> 0 then strnlen_loop sz m (s + 1) (i32 (n + 1)) else n)"

definition strnlen :: "bmem \<Rightarrow> u64 \<Rightarrow> u64 \<Rightarrow> int" where
  "strnlen m s sz = strnlen_loop (unat sz) m s 0"

partial_function (option) strcpy :: "bmem \<Rightarrow> u64 \<Rightarrow> u64 \<Rightarrow> bmem option" where
  "strcpy m dst src =
     (let c = m src; m = m(dst := c) in if c \<noteq> 0 then strcpy m (dst + 1) (src + 1) else Some m)"

definition strcat :: "bmem \<Rightarrow> u64 \<Rightarrow> u64 \<Rightarrow> bmem option" where
  "strcat m dst src = do { len \<leftarrow> strlen m dst; strcpy m (dst + of_int len) src }"

primrec strncpy_loop :: "nat \<Rightarrow> bmem \<Rightarrow> u64 \<Rightarrow> u64 \<Rightarrow> bmem" where
  "strncpy_loop 0 m dst src = m"
| "strncpy_loop (Suc i) m dst src =
     (let m = m(dst := m src) in strncpy_loop i m (dst + 1) (if m src \<noteq> 0 then src + 1 else src))"

definition strncpy :: "bmem \<Rightarrow> u64 \<Rightarrow> u64 \<Rightarrow> u64 \<Rightarrow> bmem" where
  "strncpy m dst src sz = strncpy_loop (unat sz) m dst src"

text \<open>The count is the number of bytes that may still be copied before the null byte.\<close>

primrec strlcpy_loop :: "nat \<Rightarrow> bmem \<Rightarrow> u64 \<Rightarrow> u64 \<Rightarrow> bmem \<times> u64" where
  "strlcpy_loop 0 m dst src = (m(dst := 0), dst)"
| "strlcpy_loop (Suc i) m dst src =
     (if m src \<noteq> 0 then strlcpy_loop i (m(dst := m src)) (dst + 1) (src + 1) else (m(dst := 0), dst))"

definition strlcpy :: "bmem \<Rightarrow> u64 \<Rightarrow> u64 \<Rightarrow> u64 \<Rightarrow> bmem \<times> u64" where
  "strlcpy m dst src sz =
     (if sz > 0 then (let (m, d) = strlcpy_loop (unat sz - 1) m dst src in (m, d - dst)) else (m, 0))"

definition byte_diff :: "u8 \<Rightarrow> u8 \<Rightarrow> int" where
  "byte_diff a b = uint a - uint b"

partial_function (option) strcmp :: "bmem \<Rightarrow> u64 \<Rightarrow> u64 \<Rightarrow> int option" where
  "strcmp m p q = (if m p \<noteq> 0 \<and> m p = m q then strcmp m (p + 1) (q + 1) else Some (byte_diff (m p) (m q)))"

primrec strncmp_loop :: "nat \<Rightarrow> bmem \<Rightarrow> u64 \<Rightarrow> u64 \<Rightarrow> int" where
  "strncmp_loop 0 m p q = 0"
| "strncmp_loop (Suc n) m p q =
     (if m p \<noteq> 0 \<and> m p = m q then strncmp_loop n m (p + 1) (q + 1) else byte_diff (m p) (m q))"

definition strncmp :: "bmem \<Rightarrow> u64 \<Rightarrow> u64 \<Rightarrow> u64 \<Rightarrow> int" where
  "strncmp m p q n = strncmp_loop (unat n) m p q"

text \<open>The outer \<open>option\<close> is termination, the inner one a null pointer.\<close>

partial_function (option) strchr :: "bmem \<Rightarrow> u64 \<Rightarrow> u8 \<Rightarrow> u64 option option" where
  "strchr m s c = (if m s = 0 then Some None else if m s = c then Some (Some s) else strchr m (s + 1) c)"

partial_function (option) strfind :: "bmem \<Rightarrow> u64 \<Rightarrow> u8 \<Rightarrow> u64 option" where
  "strfind m s c = (if m s = 0 then Some s else if m s = c then Some s else strfind m (s + 1) c)"

section \<open>Memory\<close>

text \<open>The units of \<^verbatim>\<open>stosb\<close>, \<^verbatim>\<open>stosl\<close>, \<^verbatim>\<open>movsb\<close> and \<^verbatim>\<open>movsl\<close>: \<open>w\<close> bytes, the lowest address first.\<close>

definition stos_unit :: "nat \<Rightarrow> u64 \<Rightarrow> u32 \<Rightarrow> bmem \<Rightarrow> bmem" where
  "stos_unit w d c m = (\<lambda>a. if unat (a - d) < w then ucast (drop_bit (8 * unat (a - d)) c) else m a)"

definition movs_unit :: "nat \<Rightarrow> u64 \<Rightarrow> u64 \<Rightarrow> bmem \<Rightarrow> bmem" where
  "movs_unit w d s m = (\<lambda>a. if unat (a - d) < w then m (s + (a - d)) else m a)"

primrec rep_stos :: "nat \<Rightarrow> nat \<Rightarrow> u64 \<Rightarrow> u32 \<Rightarrow> bmem \<Rightarrow> bmem" where
  "rep_stos w 0 d c m = m"
| "rep_stos w (Suc n) d c m = rep_stos w n (d + of_nat w) c (stos_unit w d c m)"

primrec rep_movs :: "nat \<Rightarrow> u64 \<Rightarrow> nat \<Rightarrow> u64 \<Rightarrow> u64 \<Rightarrow> bmem \<Rightarrow> bmem" where
  "rep_movs w st 0 d s m = m"
| "rep_movs w st (Suc n) d s m = rep_movs w st n (d + st) (s + st) (movs_unit w d s m)"

definition memset :: "bmem \<Rightarrow> u64 \<Rightarrow> u32 \<Rightarrow> u64 \<Rightarrow> bmem" where
  "memset m v c n =
     (if n = 0 then m
      else if v mod 4 = 0 \<and> n mod 4 = 0 then
        (let c = c AND 0xFF; c = push_bit 24 c OR push_bit 16 c OR push_bit 8 c OR c
         in rep_stos 4 (unat (n div 4)) v c m)
      else rep_stos 1 (unat n) v c m)"

definition memmove :: "bmem \<Rightarrow> u64 \<Rightarrow> u64 \<Rightarrow> u64 \<Rightarrow> bmem" where
  "memmove m dst src n =
     (if src < dst \<and> src + n > dst then
        (let s = src + n; d = dst + n
         in if s mod 4 = 0 \<and> d mod 4 = 0 \<and> n mod 4 = 0
            then rep_movs 4 (- 4) (unat (n div 4)) (d - 4) (s - 4) m
            else rep_movs 1 (- 1) (unat n) (d - 1) (s - 1) m)
      else if src mod 4 = 0 \<and> dst mod 4 = 0 \<and> n mod 4 = 0
           then rep_movs 4 4 (unat (n div 4)) dst src m
           else rep_movs 1 1 (unat n) dst src m)"

definition memcpy :: "bmem \<Rightarrow> u64 \<Rightarrow> u64 \<Rightarrow> u64 \<Rightarrow> bmem" where
  "memcpy m dst src n = memmove m dst src n"

primrec memcmp_loop :: "nat \<Rightarrow> bmem \<Rightarrow> u64 \<Rightarrow> u64 \<Rightarrow> int" where
  "memcmp_loop 0 m s1 s2 = 0"
| "memcmp_loop (Suc n) m s1 s2 = (if m s1 \<noteq> m s2 then byte_diff (m s1) (m s2) else memcmp_loop n m (s1 + 1) (s2 + 1))"

definition memcmp :: "bmem \<Rightarrow> u64 \<Rightarrow> u64 \<Rightarrow> u64 \<Rightarrow> int" where
  "memcmp m v1 v2 n = memcmp_loop (unat n) m v1 v2"

function memfind_loop :: "bmem \<Rightarrow> u64 \<Rightarrow> u64 \<Rightarrow> u8 \<Rightarrow> u64" where
  "memfind_loop m s ends c = (if s < ends \<and> m s \<noteq> c then memfind_loop m (s + 1) ends c else s)"
  by pat_completeness auto
termination
proof (relation "measure (\<lambda>(m, s, ends, c). 2 ^ 64 - unat s)", goal_cases)
  case (2 m s ends c)
  then show ?case
    using unat_inc [of s ends] unsigned_less [of "s + 1", where 'a = nat] by simp
qed simp

definition memfind :: "bmem \<Rightarrow> u64 \<Rightarrow> u32 \<Rightarrow> u64 \<Rightarrow> u64" where
  "memfind m s c n = memfind_loop m s (s + n) (ucast c)"

section \<open>Numbers\<close>

partial_function (option) skip_blanks :: "bmem \<Rightarrow> u64 \<Rightarrow> u64 option" where
  "skip_blanks m s = (if m s = 0x20 \<or> m s = 0x09 then skip_blanks m (s + 1) else Some s)"

definition digit :: "u8 \<Rightarrow> int option" where
  "digit c =
     (if c \<ge> 0x30 \<and> c \<le> 0x39 then Some (uint c - 0x30)
      else if c \<ge> 0x61 \<and> c \<le> 0x7A then Some (uint c - 0x61 + 10)
      else if c \<ge> 0x41 \<and> c \<le> 0x5A then Some (uint c - 0x41 + 10)
      else None)"

partial_function (option) strtol_loop :: "bmem \<Rightarrow> u64 \<Rightarrow> int \<Rightarrow> u64 \<Rightarrow> (u64 \<times> u64) option" where
  "strtol_loop m s base val =
     (case digit (m s) of
        None \<Rightarrow> Some (val, s)
      | Some dig \<Rightarrow> if dig \<ge> base then Some (val, s)
                    else strtol_loop m (s + 1) base (val * of_int base + of_int dig))"

text \<open>The result is the value, modulo \<open>2 ^ 64\<close>, and the address stored through \<^verbatim>\<open>endptr\<close>.\<close>

definition strtol :: "bmem \<Rightarrow> u64 \<Rightarrow> int \<Rightarrow> (u64 \<times> u64) option" where
  "strtol m s base =
     do { s \<leftarrow> skip_blanks m s;
          let (s, neg) = (if m s = 0x2B then (s + 1, False) else if m s = 0x2D then (s + 1, True) else (s, False));
          let (s, base) =
                (if (base = 0 \<or> base = 16) \<and> m s = 0x30 \<and> m (s + 1) = 0x78 then (s + 2, 16)
                 else if base = 0 \<and> m s = 0x30 then (s + 1, 8)
                 else if base = 0 then (s, 10) else (s, base));
          (val, s) \<leftarrow> strtol_loop m s base 0;
          Some (if neg then - val else val, s) }"

declare strlen_loop.simps [code] strcpy.simps [code] strcmp.simps [code] strchr.simps [code] strfind.simps [code]
  skip_blanks.simps [code] strtol_loop.simps [code]

section \<open>What the memory routines compute\<close>

text \<open>The effect of a block copy and of a block fill, one byte at a time.\<close>

definition copied :: "bmem \<Rightarrow> u64 \<Rightarrow> u64 \<Rightarrow> nat \<Rightarrow> bmem" where
  "copied m d s k = (\<lambda>a. if unat (a - d) < k then m (s + (a - d)) else m a)"

definition filled :: "bmem \<Rightarrow> u64 \<Rightarrow> u8 \<Rightarrow> nat \<Rightarrow> bmem" where
  "filled m d b k = (\<lambda>a. if unat (a - d) < k then b else m a)"

lemma u64_less: "unat (a :: u64) < 2 ^ 64"
  using unsigned_less [of a, where 'a = nat] by simp

lemma u64_sub: "unat ((a :: u64) - b) = (if unat b \<le> unat a then unat a - unat b else 2 ^ 64 + unat a - unat b)"
  using unat_sub_if_size [of a b] by (simp only: word_size word_le_nat_alt add.commute [of "unat a"]) simp

lemma u64_add: "unat ((a :: u64) + b) = (if unat a + unat b < 2 ^ 64 then unat a + unat b else unat a + unat b - 2 ^ 64)"
  using unat_plus_if_size [of a b] by (simp add: word_size)

lemma u64_of_nat: "k < 2 ^ 64 \<Longrightarrow> unat (of_nat k :: u64) = k"
  by (simp add: unat_of_nat)

lemmas u64_arith = u64_sub u64_add

text \<open>A byte of the source that is still to be read is outside the bytes already written.\<close>

lemma ahead_unwritten:
  assumes "unat (s :: u64) + n \<le> 2 ^ 64" "unat d + n \<le> 2 ^ 64" "unat d \<le> unat s \<or> unat s + n \<le> unat d"
    "w \<le> unat x" "unat x < n"
  shows "\<not> unat (s + x - d) < w"
proof -
  have sx: "unat (s + x) = unat s + unat x"
    using assms by (simp add: u64_add)
  show ?thesis
  proof (cases "unat d \<le> unat s")
    case True
    then show ?thesis
      using assms(4) unfolding u64_sub sx by simp
  next
    case False
    then have "\<not> unat d \<le> unat s + unat x"
      using assms(3, 5) by linarith
    then show ?thesis
      using assms(2, 4, 5) unfolding u64_sub sx by simp
  qed
qed

lemma behind_unwritten:
  assumes "unat (s :: u64) \<le> unat d" "unat d + unat k + w \<le> 2 ^ 64" "unat x < unat k" "0 < w"
  shows "\<not> unat (s + x - (d + k)) < w"
proof -
  have "unat (s + x) = unat s + unat x" "unat (d + k) = unat d + unat k"
    using assms by (simp_all add: u64_add)
  then show ?thesis
    using assms by (simp add: u64_sub)
qed

lemma copied_0 [simp]: "copied m d s 0 = m"
  by (simp add: copied_def)

lemma movs_unit_copied: "movs_unit w d s m = copied m d s w"
  by (simp add: movs_unit_def copied_def)

text \<open>The byte at offset \<open>j\<close> of a copied block, and two adjacent blocks copied one after the other.\<close>

lemma copied_at: "copied m d s k (d + j) = (if unat j < k then m (s + j) else m (d + j))"
  by (simp add: copied_def)

lemma copied_ext:
  assumes "\<And>j. f (d + j) = copied m d s k (d + j)"
  shows "f = copied m d s k"
proof
  fix a
  show "f a = copied m d s k a"
    using assms [of "a - d"] by simp
qed

lemma offset_split:
  assumes "w + k \<le> 2 ^ 64" "w < 2 ^ 64"
  shows "unat (j - of_nat w :: u64) < k \<longleftrightarrow> w \<le> unat j \<and> unat j < w + k"
  using assms u64_of_nat [of w] by (auto simp: u64_sub)

lemma copied_join:
  assumes "unat s + (w + k) \<le> 2 ^ 64" "unat d + (w + k) \<le> 2 ^ 64" "unat d \<le> unat s \<or> unat s + (w + k) \<le> unat d"
    and w: "w < 2 ^ 64"
  shows "copied (copied m d s w) (d + of_nat w) (s + of_nat w) k = copied m d s (w + k)"
proof (rule copied_ext)
  fix j
  have y: "\<not> unat (s + j - d) < w" if "w \<le> unat j" "unat j < w + k"
    using ahead_unwritten [of s "w + k" d w j] assms that by blast
  have "w + k \<le> 2 ^ 64"
    using assms(1) by simp
  note o = offset_split [OF this w]
  show "copied (copied m d s w) (d + of_nat w) (s + of_nat w) k (d + j) = copied m d s (w + k) (d + j)"
    using y unfolding copied_def by (simp add: o)
qed

lemma copied_join_back:
  assumes "unat s + (w + k) \<le> 2 ^ 64" "unat d + (w + k) \<le> 2 ^ 64" "unat s \<le> unat d" and k: "k < 2 ^ 64"
  shows "copied (copied m (d + of_nat k) (s + of_nat k) w) d s k = copied m d s (w + k)"
proof (rule copied_ext)
  fix j
  let ?k = "of_nat k :: u64"
  have y: "\<not> unat (s + j - (d + ?k)) < w" if "unat j < k"
    using behind_unwritten [of s d ?k w j] assms that u64_of_nat [OF k] by (cases "w = 0") simp_all
  have "k + w \<le> 2 ^ 64"
    using assms(1) by simp
  note o = offset_split [OF this k]
  show "copied (copied m (d + ?k) (s + ?k) w) d s k (d + j) = copied m d s (w + k) (d + j)"
    using y unfolding copied_def by (auto simp: o add.commute)
qed

lemma rep_movs_forward:
  assumes "unat s + w * n \<le> 2 ^ 64" "unat d + w * n \<le> 2 ^ 64" "unat d \<le> unat s \<or> unat s + w * n \<le> unat d"
    and w: "0 < w" "w < 2 ^ 64"
  shows "rep_movs w (of_nat w) n d s m = copied m d s (w * n)"
  using assms(1-3)
proof (induction n arbitrary: d s m)
  case (Suc n)
  have j: "copied (copied m d s w) (d + of_nat w) (s + of_nat w) (w * n) = copied m d s (w * Suc n)"
    using copied_join [of s w "w * n" d m] Suc.prems w by simp
  show ?case
  proof (cases n)
    case 0
    then show ?thesis
      by (simp add: movs_unit_copied)
  next
    case (Suc l)
    have W: "unat (of_nat w :: u64) = w"
      using w by (simp add: u64_of_nat)
    have "unat (s + of_nat w) = unat s + w" "unat (d + of_nat w) = unat d + w"
      using Suc.prems w Suc by (simp_all add: u64_add W)
    then show ?thesis
      using Suc.IH [of "s + of_nat w" "d + of_nat w" "copied m d s w"] Suc.prems j by (auto simp: movs_unit_copied)
  qed
qed simp

lemma rep_movs_backward:
  assumes "unat s + w * n \<le> 2 ^ 64" "unat d + w * n \<le> 2 ^ 64" "unat s \<le> unat d" and w: "0 < w"
  shows "rep_movs w (- of_nat w) n (d + of_nat (w * n) - of_nat w) (s + of_nat (w * n) - of_nat w) m = copied m d s (w * n)"
  using assms(1-3)
proof (induction n arbitrary: m)
  case (Suc n)
  have "w * n < 2 ^ 64"
    using Suc.prems w by simp
  then have j: "copied (copied m (d + of_nat (w * n)) (s + of_nat (w * n)) w) d s (w * n) = copied m d s (w * Suc n)"
    using copied_join_back [of s w "w * n" d m] Suc.prems by simp
  have e: "x + of_nat (w * Suc n) - of_nat w = x + of_nat (w * n)" for x :: u64
    by (simp add: algebra_simps)
  show ?case
    using Suc.IH [of "copied m (d + of_nat (w * n)) (s + of_nat (w * n)) w"] Suc.prems j
    unfolding e rep_movs.simps movs_unit_copied by simp
qed simp

lemma unat_quarters:
  assumes "(n :: u64) mod 4 = 0"
  shows "4 * unat (n div 4) = unat n"
proof -
  have "unat n mod 4 = 0"
    using arg_cong [OF assms, of unat] by (simp add: unat_mod)
  then show ?thesis
    by (simp add: unat_div) presburger
qed

lemma memmove_core:
  assumes "unat src + unat n \<le> 2 ^ 64" "unat dst + unat n \<le> 2 ^ 64"
  shows "memmove m dst src n = copied m dst src (unat n)"
proof (cases "src < dst \<and> src + n > dst")
  case True
  then have le: "unat src \<le> unat dst"
    by (simp add: word_less_nat_alt)
  have "rep_movs 4 (- 4) (unat (n div 4)) (dst + n - 4) (src + n - 4) m = copied m dst src (unat n)" if "n mod 4 = 0"
    using rep_movs_backward [of src 4 "unat (n div 4)" dst m] assms le unat_quarters [OF that] by simp
  moreover have "rep_movs 1 (- 1) (unat n) (dst + n - 1) (src + n - 1) m = copied m dst src (unat n)"
    using rep_movs_backward [of src 1 "unat n" dst m] assms le by simp
  ultimately show ?thesis
    using True by (simp add: memmove_def Let_def)
next
  case False
  have le: "unat dst \<le> unat src \<or> unat src + unat n \<le> unat dst"
  proof (cases "src < dst")
    case True
    then have "unat (src + n) = unat src + unat n"
      using assms by (simp add: u64_add word_less_nat_alt)
    then show ?thesis
      using True False by (simp add: word_less_nat_alt not_less)
  qed (simp add: word_less_nat_alt not_less)
  have "rep_movs 4 4 (unat (n div 4)) dst src m = copied m dst src (unat n)" if "n mod 4 = 0"
    using rep_movs_forward [of src 4 "unat (n div 4)" dst m] assms le unat_quarters [OF that] by simp
  moreover have "rep_movs 1 1 (unat n) dst src m = copied m dst src (unat n)"
    using rep_movs_forward [of src 1 "unat n" dst m] assms le by simp
  ultimately show ?thesis
    using False by (auto simp: memmove_def Let_def)
qed

lemma filled_0 [simp]: "filled m d b 0 = m"
  by (simp add: filled_def)

lemma filled_join:
  assumes "w + k \<le> 2 ^ 64" "w < 2 ^ 64"
  shows "filled (filled m d b w) (d + of_nat w) b k = filled m d b (w + k)"
proof
  fix a
  have "unat (a - (d + of_nat w)) < k \<longleftrightarrow> w \<le> unat (a - d) \<and> unat (a - d) < w + k"
    using offset_split [OF assms, of "a - d"] by (simp add: algebra_simps)
  then show "filled (filled m d b w) (d + of_nat w) b k a = filled m d b (w + k) a"
    by (auto simp: filled_def)
qed

lemma rep_stos_filled:
  assumes c: "\<And>i. i < w \<Longrightarrow> ucast (drop_bit (8 * i) c) = b" and "w * n \<le> 2 ^ 64" "w < 2 ^ 64"
  shows "rep_stos w n d c m = filled m d b (w * n)"
  using assms(2)
proof (induction n arbitrary: d m)
  case (Suc n)
  have "stos_unit w d c m = filled m d b w"
    using c by (auto simp: stos_unit_def filled_def)
  then show ?case
    using Suc filled_join [of w "w * n" m d b] assms(3) by simp
qed simp

lemma memset_word:
  assumes "i < 4"
  shows "ucast (drop_bit (8 * i) (push_bit 24 (c AND 0xFF) OR push_bit 16 (c AND 0xFF) OR push_bit 8 (c AND 0xFF) OR (c AND 0xFF))) = (ucast (c :: u32) :: u8)"
proof (rule bit_word_eqI)
  fix n
  assume "n < LENGTH(8)"
  then have n: "n = 0 \<or> n = 1 \<or> n = 2 \<or> n = 3 \<or> n = 4 \<or> n = 5 \<or> n = 6 \<or> n = 7"
    by auto
  have "i = 0 \<or> i = 1 \<or> i = 2 \<or> i = 3"
    using assms by auto
  with n show "bit (ucast (drop_bit (8 * i) (push_bit 24 (c AND 0xFF) OR push_bit 16 (c AND 0xFF) OR push_bit 8 (c AND 0xFF) OR (c AND 0xFF))) :: u8) n
      = bit (ucast c :: u8) n"
    by (elim disjE) (simp_all add: bit_simps)
qed

lemma memset_core: "memset m v c n = filled m v (ucast c) (unat n)"
proof -
  have "unat n \<le> 2 ^ 64"
    using u64_less [of n] by simp
  then show ?thesis
    using rep_stos_filled [of 4 _ "ucast c" "unat (n div 4)" v m, OF memset_word] unat_quarters [of n]
      rep_stos_filled [of 1 c "ucast c" "unat n" v m]
    by (cases "n mod 4 = 0") (simp_all add: memset_def Let_def)
qed

section \<open>What the string routines compute\<close>

text \<open>The string \<open>xs\<close> starts at \<open>p\<close>: its bytes are not null and a null byte follows.\<close>

primrec cstring :: "bmem \<Rightarrow> u64 \<Rightarrow> u8 list \<Rightarrow> bool" where
  "cstring m p [] \<longleftrightarrow> m p = 0"
| "cstring m p (x # xs) \<longleftrightarrow> x \<noteq> 0 \<and> m p = x \<and> cstring m (p + 1) xs"

lemma cstring_upd:
  assumes "cstring m p xs" "\<And>l. l \<le> length xs \<Longrightarrow> p + of_nat l \<noteq> a"
  shows "cstring (m(a := c)) p xs"
  using assms
proof (induction xs arbitrary: p)
  case (Cons x xs)
  have "p + 1 + of_nat l \<noteq> a" if "l \<le> length xs" for l
    using Cons.prems(2) [of "Suc l"] that by (simp add: add.assoc)
  with Cons show ?case
    using Cons.prems(2) [of 0] by auto
qed (use assms(2) [of 0] in auto)

lemma strlen_loop_core: "cstring m p xs \<Longrightarrow> strlen_loop m p (i32 n) = Some (i32 (n + int (length xs)))"
proof (induction xs arbitrary: p n)
  case Nil
  then show ?case
    by (subst strlen_loop.simps) simp
next
  case (Cons x xs)
  then show ?case
    using Cons.IH [of "p + 1" "n + 1"] by (subst strlen_loop.simps) (auto simp: add.assoc)
qed

lemma strlen_core: "cstring m p xs \<Longrightarrow> strlen m p = Some (i32 (int (length xs)))"
  using strlen_loop_core [of m p xs 0] by (simp add: strlen_def)

lemma uint_pos: "(w :: u8) \<noteq> 0 \<Longrightarrow> 0 < uint w"
  using word_gt_0 [of w] by (simp add: word_less_def)

lemma uint_not_0: "(w :: u8) \<noteq> 0 \<Longrightarrow> uint w \<noteq> 0"
  using uint_pos [of w] by simp

lemma strcmp_core:
  assumes "cstring m p xs" "cstring m q ys"
  shows "\<exists>r. strcmp m p q = Some r \<and> (r = 0 \<longleftrightarrow> xs = ys) \<and> (r < 0 \<longleftrightarrow> ord_class.lexordp xs ys)"
  using assms
proof (induction xs arbitrary: p q ys)
  case Nil
  then show ?case
    by (subst strcmp.simps) (cases ys; auto simp: byte_diff_def uint_pos uint_not_0)
next
  case (Cons x xs)
  show ?case
  proof (cases ys)
    case Nil
    then show ?thesis
      using Cons.prems by (subst strcmp.simps) (auto simp: byte_diff_def uint_not_0)
  next
    case (Cons y zs)
    have "x \<noteq> y \<Longrightarrow> uint x \<noteq> uint y"
      by (simp add: word_uint_eq_iff)
    then show ?thesis
      using Cons Cons.prems Cons.IH [of "p + 1" "q + 1" zs]
      by (subst strcmp.simps, cases "x = y") (auto simp: byte_diff_def word_less_def)
  qed
qed

lemma unat_top: "unat (- 1 :: u64) = 2 ^ 64 - 1"
  by (simp add: unsigned_minus_1_eq_mask mask_eq_exp_minus_1)

lemma strlcpy_loop_core:
  assumes "cstring m src xs" "i < 2 ^ 64 - 1"
    "\<And>k l. k \<le> i \<Longrightarrow> l \<le> length xs \<Longrightarrow> src + of_nat l \<noteq> dst + of_nat k"
    "strlcpy_loop i m dst src = (m', e)"
  shows "cstring m' dst (take i xs) \<and> e = dst + of_nat (min i (length xs)) \<and> (\<forall>a. i < unat (a - dst) \<longrightarrow> m' a = m a)"
  using assms
proof (induction i arbitrary: m dst src xs)
  case (Suc i)
  show ?case
  proof (cases xs)
    case (Cons x ys)
    let ?m = "m(dst := x)"
    have x: "x \<noteq> 0" "m src = x" "cstring m (src + 1) ys"
      using Suc.prems(1) Cons by simp_all
    have d: "src + 1 + of_nat l \<noteq> dst + of_nat k" if "k \<le> Suc i" "l \<le> length ys" for k l
      using Suc.prems(3) [of k "Suc l"] that Cons by (simp add: add.assoc)
    have "cstring ?m (src + 1) ys"
      by (rule cstring_upd) (use x d [of 0] in auto)
    moreover have "src + 1 + of_nat l \<noteq> dst + 1 + of_nat k" if "k \<le> i" "l \<le> length ys" for k l
      using d [of "Suc k" l] that by (simp add: add.assoc)
    moreover have "strlcpy_loop i ?m (dst + 1) (src + 1) = (m', e)"
      using Suc.prems(4) x by simp
    ultimately have IH: "cstring m' (dst + 1) (take i ys)" "e = dst + 1 + of_nat (min i (length ys))"
        "\<And>a. i < unat (a - (dst + 1)) \<Longrightarrow> m' a = ?m a"
      using Suc.IH [of ?m "src + 1" ys "dst + 1"] Suc.prems(2) by (metis Suc_lessD)+
    have "m' dst = x"
      using IH(3) [of dst] Suc.prems(2) by (simp add: unat_top)
    moreover have "m' a = m a" if "Suc i < unat (a - dst)" for a
      using IH(3) [of a] that u64_sub [of "a - dst" 1] by (cases "a = dst") (simp_all add: algebra_simps)
    ultimately show ?thesis
      using IH(1,2) x Cons by (simp add: add.assoc min_def)
  qed (use Suc.prems in auto)
qed auto

section \<open>Properties\<close>

text \<open>
  C24: for any two blocks that do not wrap around the address space, however they overlap, \<^verbatim>\<open>memmove\<close> makes
  the destination hold the bytes the source held before and changes no other byte; the copies by four
  bytes and the backward copies compute the same as the plain byte copy.
\<close>

theorem memmove_spec:
  assumes "unat src + unat n \<le> 2 ^ 64" "unat dst + unat n \<le> 2 ^ 64"
  shows "memmove m dst src n a = (if unat (a - dst) < unat n then m (src + (a - dst)) else m a)"
  using memmove_core [OF assms] by (simp add: copied_def)

theorem memmove_spec_witness:
  "memmove (\<lambda>a. ucast a) 0x1004 0x1000 8 0x1009 = 5 \<and> memmove (\<lambda>a. ucast a) 0x1004 0x1000 8 0x1003 = 3"
  using memmove_spec [of "0x1000" 8 "0x1004" "\<lambda>a. ucast a" "0x1009"]
    memmove_spec [of "0x1000" 8 "0x1004" "\<lambda>a. ucast a" "0x1003"] by (simp add: unat_top)

text \<open>
  \<^verbatim>\<open>strlcpy\<close> with a buffer of \<open>sz > 0\<close> bytes that does not overlap the source string leaves a terminated
  string in the buffer, the longest prefix of the source that fits, returns its length and writes no byte
  outside the buffer.
\<close>

theorem strlcpy_spec:
  assumes "cstring m src xs" "0 < sz"
    and "\<And>k l. k < unat sz \<Longrightarrow> l \<le> length xs \<Longrightarrow> src + of_nat l \<noteq> dst + of_nat k"
    and "strlcpy m dst src sz = (m', len)"
  shows "cstring m' dst (take (unat sz - 1) xs) \<and> len = of_nat (min (unat sz - 1) (length xs))
    \<and> (\<forall>a. unat sz \<le> unat (a - dst) \<longrightarrow> m' a = m a)"
proof -
  have sz: "0 < unat sz" "unat sz < 2 ^ 64"
    using assms(2) u64_less [of sz] by (simp_all add: word_less_nat_alt)
  obtain e where e: "strlcpy_loop (unat sz - 1) m dst src = (m', e)" "len = e - dst"
    using assms(2,4) by (auto simp: strlcpy_def Let_def split: prod.splits)
  have "cstring m' dst (take (unat sz - 1) xs) \<and> e = dst + of_nat (min (unat sz - 1) (length xs))
      \<and> (\<forall>a. unat sz - 1 < unat (a - dst) \<longrightarrow> m' a = m a)"
  proof (rule strlcpy_loop_core [OF assms(1) _ _ e(1)])
    fix k l
    assume "k \<le> unat sz - 1" "l \<le> length xs"
    then show "src + of_nat l \<noteq> dst + of_nat k"
      using assms(3) sz by simp
  qed (use sz in simp)
  then show ?thesis
    using e sz by auto
qed

theorem strlcpy_spec_witness:
  "\<exists>m'. strlcpy ((\<lambda>_. 0)(0x100 := 0x61, 0x101 := 0x62)) 0x200 0x100 2 = (m', 1) \<and> cstring m' 0x200 [0x61]"
proof -
  let ?m = "(\<lambda>_. 0)(0x100 := 0x61, 0x101 := 0x62) :: bmem"
  obtain m' len where s: "strlcpy ?m 0x200 0x100 2 = (m', len)"
    by (cases "strlcpy ?m 0x200 0x100 2")
  have "(0x100 :: u64) + of_nat l \<noteq> 0x200 + of_nat k" if "k < 2" "l \<le> 2" for k l
  proof -
    have "k = 0 \<or> k = 1" "l = 0 \<or> l = 1 \<or> l = 2"
      using that by auto
    then show ?thesis
      by (elim disjE) simp_all
  qed
  then show ?thesis
    using strlcpy_spec [of ?m "0x100" "[0x61, 0x62]" 2 "0x200" m' len] s by simp
qed

end
