(* ===== verification/Format.thy ===== *)
theory Format
  imports CString
begin

text \<open>
  The formatted output of \<^verbatim>\<open>lib/printfmt.c\<close>.  The functions take the \<^verbatim>\<open>putch\<close> function of the source as an argument;
  its state is the memory, from which strings are read while characters are put, and the data \<^verbatim>\<open>putdat\<close>
  points to.  The theory shows what \<^verbatim>\<open>printnum\<close> prints, that \<^verbatim>\<open>vsnprintf\<close> stays within its buffer for every
  format and that \<^verbatim>\<open>strtol\<close> reads back what was printed.
\<close>

section \<open>Pointers, arguments and numbers\<close>

text \<open>A pointer to characters is an address or points into a string literal.  A variable argument is a pointer
  or a number: the number \<open>w\<close> is \<open>Mem w\<close>.\<close>

datatype cptr = Mem u64 | Lit string nat

datatype 'd out = Out (omem: bmem) (putdat: 'd)

type_synonym 'd put = "int \<Rightarrow> 'd out \<Rightarrow> 'd out"

definition lit_byte :: "string \<Rightarrow> nat \<Rightarrow> u8" where
  "lit_byte s i = (if i < length s then of_char (s ! i) else 0)"

definition rd :: "bmem \<Rightarrow> cptr \<Rightarrow> int" where
  "rd m p = uint (case p of Mem a \<Rightarrow> m a | Lit s i \<Rightarrow> lit_byte s i)"

definition inc :: "cptr \<Rightarrow> cptr" where
  "inc p = (case p of Mem a \<Rightarrow> Mem (a + 1) | Lit s i \<Rightarrow> Lit s (i + 1))"

definition dec :: "cptr \<Rightarrow> cptr" where
  "dec p = (case p of Mem a \<Rightarrow> Mem (a - 1) | Lit s i \<Rightarrow> Lit s (i - 1))"

text \<open>A byte read through a \<^verbatim>\<open>char *\<close> is signed.\<close>

definition schar :: "int \<Rightarrow> int" where
  "schar c = (if c \<ge> 128 then c - 256 else c)"

definition strnlen_ptr :: "bmem \<Rightarrow> cptr \<Rightarrow> u64 \<Rightarrow> int" where
  "strnlen_ptr m p sz = (case p of Mem a \<Rightarrow> strnlen m a sz | Lit s i \<Rightarrow> strnlen (\<lambda>a. lit_byte s (i + unat a)) 0 sz)"

definition va_word :: "cptr list \<Rightarrow> (u64 \<times> cptr list) option" where
  "va_word ap = (case ap of Mem w # ap \<Rightarrow> Some (w, ap) | _ \<Rightarrow> None)"

definition va_int :: "cptr list \<Rightarrow> (int \<times> cptr list) option" where
  "va_int ap = do { (w, ap) \<leftarrow> va_word ap; Some (sint (ucast w :: u32), ap) }"

definition va_ptr :: "cptr list \<Rightarrow> (cptr \<times> cptr list) option" where
  "va_ptr ap = (case ap of [] \<Rightarrow> None | p # ap \<Rightarrow> Some (p, ap))"

primrec put_n :: "nat \<Rightarrow> 'd put \<Rightarrow> int \<Rightarrow> 'd out \<Rightarrow> 'd out" where
  "put_n 0 putch c s = s"
| "put_n (Suc n) putch c s = put_n n putch c (putch c s)"

definition hex_digits :: string where
  "hex_digits = ''0123456789abcdef''"

partial_function (option) printnum :: "'d put \<Rightarrow> u64 \<Rightarrow> u32 \<Rightarrow> int \<Rightarrow> int \<Rightarrow> 'd out \<Rightarrow> 'd out option" where
  "printnum putch num base width padc s =
     do { s \<leftarrow> (if num \<ge> ucast base then
                   if base = 0 then None
                   else printnum putch (num div ucast base) base (i32 (width - 1)) padc s
                 else Some (put_n (nat (i32 (width - 1))) putch padc s));
          if unat (num mod ucast base) < length hex_digits
          then Some (putch (of_char (hex_digits ! unat (num mod ucast base))) s) else None }"

definition getuint :: "cptr list \<Rightarrow> int \<Rightarrow> (u64 \<times> cptr list) option" where
  "getuint ap lflag =
     do { (w, ap) \<leftarrow> va_word ap;
          Some (if lflag \<ge> 2 then w else if lflag \<noteq> 0 then w else ucast (ucast w :: u32), ap) }"

definition getint :: "cptr list \<Rightarrow> int \<Rightarrow> (u64 \<times> cptr list) option" where
  "getint ap lflag =
     do { (w, ap) \<leftarrow> va_word ap;
          Some (if lflag \<ge> 2 then w else if lflag \<noteq> 0 then w else scast (ucast w :: u32), ap) }"

section \<open>Conversion specifications\<close>

record spec =
  padc :: int
  width :: int
  precision :: int
  lflag :: int
  altflag :: int

definition spec0 :: spec where
  "spec0 = \<lparr>padc = of_char (CHR '' ''), width = - 1, precision = - 1, lflag = 0, altflag = 0\<rparr>"

partial_function (option) width_digits :: "bmem \<Rightarrow> int \<Rightarrow> int \<Rightarrow> cptr \<Rightarrow> (int \<times> cptr) option" where
  "width_digits m prec ch fmt =
     (let prec = i32 (prec * 10 + ch - of_char (CHR ''0'')); ch = schar (rd m fmt)
      in if ch < of_char (CHR ''0'') \<or> ch > of_char (CHR ''9'') then Some (prec, fmt)
         else width_digits m prec ch (inc fmt))"

definition process_precision :: "spec \<Rightarrow> spec" where
  "process_precision f = (if width f < 0 then f\<lparr>width := precision f, precision := - 1\<rparr> else f)"

text \<open>The flags, up to the character that selects the conversion.\<close>

partial_function (option) reswitch :: "bmem \<Rightarrow> cptr \<Rightarrow> cptr list \<Rightarrow> spec \<Rightarrow> (int \<times> spec \<times> cptr \<times> cptr list) option" where
  "reswitch m fmt ap f =
     (let ch = rd m fmt; fmt = inc fmt in
      if ch = of_char (CHR ''-'') then reswitch m fmt ap (f\<lparr>padc := of_char (CHR ''-'')\<rparr>)
      else if ch = of_char (CHR ''0'') then reswitch m fmt ap (f\<lparr>padc := of_char (CHR ''0'')\<rparr>)
      else if ch \<ge> of_char (CHR ''1'') \<and> ch \<le> of_char (CHR ''9'') then
        do { (prec, fmt) \<leftarrow> width_digits m 0 ch fmt;
             reswitch m fmt ap (process_precision (f\<lparr>precision := prec\<rparr>)) }
      else if ch = of_char (CHR ''*'') then
        do { (prec, ap) \<leftarrow> va_int ap; reswitch m fmt ap (process_precision (f\<lparr>precision := prec\<rparr>)) }
      else if ch = of_char (CHR ''.'') then reswitch m fmt ap (if width f < 0 then f\<lparr>width := 0\<rparr> else f)
      else if ch = of_char (CHR ''#'') then reswitch m fmt ap (f\<lparr>altflag := 1\<rparr>)
      else if ch = of_char (CHR ''l'') then reswitch m fmt ap (f\<lparr>lflag := i32 (lflag f + 1)\<rparr>)
      else Some (ch, f, fmt, ap))"

section \<open>Conversions\<close>

partial_function (option) put_string ::
  "'d put \<Rightarrow> cptr \<Rightarrow> int \<Rightarrow> int \<Rightarrow> int \<Rightarrow> 'd out \<Rightarrow> (int \<times> 'd out) option" where
  "put_string putch p alt prec wid s =
     (let ch = schar (rd (omem s) p); p = inc p in
      if ch \<noteq> 0 \<and> (prec < 0 \<or> prec - 1 \<ge> 0) then
        put_string putch p alt (if prec < 0 then prec else prec - 1) (i32 (wid - 1))
          (putch (if alt \<noteq> 0 \<and> (ch < of_char (CHR '' '') \<or> ch > of_char (CHR ''~'')) then of_char (CHR ''?'') else ch) s)
      else Some (wid, s))"

definition convert_s :: "'d put \<Rightarrow> spec \<Rightarrow> cptr \<Rightarrow> 'd out \<Rightarrow> 'd out option" where
  "convert_s putch f p s =
     do { let p = (if p = Mem 0 then Lit ''(null)'' 0 else p);
          let (wid, s) =
                (if width f > 0 \<and> padc f \<noteq> of_char (CHR ''-'') then
                   (let wid = i32 (width f - strnlen_ptr (omem s) p (of_int (precision f)))
                    in (if wid > 0 then 0 else wid, put_n (nat wid) putch (padc f) s))
                 else (width f, s));
          (wid, s) \<leftarrow> put_string putch p (altflag f) (precision f) wid s;
          Some (put_n (nat wid) putch (of_char (CHR '' '')) s) }"

text \<open>The characters back to the last \<^verbatim>\<open>%\<close>, for a conversion that is not known.\<close>

partial_function (option) rewind :: "bmem \<Rightarrow> cptr \<Rightarrow> cptr option" where
  "rewind m fmt = (if rd m (dec fmt) \<noteq> of_char (CHR ''%'') then rewind m (dec fmt) else Some fmt)"

definition convert :: "'d put \<Rightarrow> int \<Rightarrow> spec \<Rightarrow> cptr \<Rightarrow> cptr list \<Rightarrow> 'd out \<Rightarrow> (cptr \<times> cptr list \<times> 'd out) option" where
  "convert putch ch f fmt ap s =
     (if ch = of_char (CHR ''c'') then do { (c, ap) \<leftarrow> va_int ap; Some (fmt, ap, putch c s) }
      else if ch = of_char (CHR ''s'') then
        do { (p, ap) \<leftarrow> va_ptr ap; s \<leftarrow> convert_s putch f p s; Some (fmt, ap, s) }
      else if ch = of_char (CHR ''d'') then
        do { (num, ap) \<leftarrow> getint ap (lflag f);
             let (num, s) = (if num <s 0 then (- num, putch (of_char (CHR ''-'')) s) else (num, s));
             s \<leftarrow> printnum putch num 10 (width f) (padc f) s; Some (fmt, ap, s) }
      else if ch = of_char (CHR ''u'') then
        do { (num, ap) \<leftarrow> getuint ap (lflag f); s \<leftarrow> printnum putch num 10 (width f) (padc f) s; Some (fmt, ap, s) }
      else if ch = of_char (CHR ''o'') then
        do { (num, ap) \<leftarrow> getuint ap (lflag f); s \<leftarrow> printnum putch num 8 (width f) (padc f) s; Some (fmt, ap, s) }
      else if ch = of_char (CHR ''p'') then
        do { let s = putch (of_char (CHR ''x'')) (putch (of_char (CHR ''0'')) s);
             (num, ap) \<leftarrow> va_word ap;
             s \<leftarrow> printnum putch num 16 (width f) (padc f) s; Some (fmt, ap, s) }
      else if ch = of_char (CHR ''x'') then
        do { (num, ap) \<leftarrow> getuint ap (lflag f); s \<leftarrow> printnum putch num 16 (width f) (padc f) s; Some (fmt, ap, s) }
      else if ch = of_char (CHR ''%'') then Some (fmt, ap, putch ch s)
      else do { let s = putch (of_char (CHR ''%'')) s; fmt \<leftarrow> rewind (omem s) (dec fmt); Some (fmt, ap, s) })"

section \<open>Formatted output\<close>

definition error_string :: "int \<Rightarrow> string option" where
  "error_string e =
     (if e = 1 then Some ''Resources temporarily unavailable''
      else if e = 2 then Some ''No child process''
      else if e = 4 then Some ''Bad address''
      else if e = 5 then Some ''Invalid argument''
      else if e = 6 then Some ''Not enough space''
      else if e = 7 then Some ''Function not implemented''
      else if e = 8 then Some ''Operation not permitted''
      else None)"

text \<open>The characters before the next \<^verbatim>\<open>%\<close>; the result says whether the format has ended.\<close>

partial_function (option) put_plain :: "'d put \<Rightarrow> cptr \<Rightarrow> 'd out \<Rightarrow> (bool \<times> cptr \<times> 'd out) option" where
  "put_plain putch fmt s =
     (let ch = rd (omem s) fmt; fmt = inc fmt in
      if ch \<noteq> of_char (CHR ''%'') then
        if ch = 0 then Some (True, fmt, s) else put_plain putch fmt (putch ch s)
      else Some (False, fmt, s))"

partial_function (option) vprintfmt :: "'d put \<Rightarrow> cptr \<Rightarrow> cptr list \<Rightarrow> 'd out \<Rightarrow> 'd out option" where
  "vprintfmt putch fmt ap s =
     do { (ended, fmt, s) \<leftarrow> put_plain putch fmt s;
          if ended then Some s
          else do {
            (ch, f, fmt, ap) \<leftarrow> reswitch (omem s) fmt ap spec0;
            (fmt, ap, s) \<leftarrow>
              (if ch = of_char (CHR ''e'') then
                 do { (err, ap) \<leftarrow> va_int ap;
                      let err = (if err < 0 then i32 (- err) else err);
                      s \<leftarrow> (case error_string err of
                              None \<Rightarrow> vprintfmt putch (Lit ''error %d'' 0) [Mem (of_int err)] s
                            | Some p \<Rightarrow> vprintfmt putch (Lit ''%s'' 0) [Lit p 0] s);
                      Some (fmt, ap, s) }
               else convert putch ch f fmt ap s);
            vprintfmt putch fmt ap s } }"

definition printfmt :: "'d put \<Rightarrow> cptr \<Rightarrow> cptr list \<Rightarrow> 'd out \<Rightarrow> 'd out option" where
  "printfmt putch fmt ap s = vprintfmt putch fmt ap s"

record sprintbuf =
  sbuf :: u64
  ebuf :: u64
  scnt :: int

definition sprintputch :: "sprintbuf put" where
  "sprintputch ch s =
     (case s of Out m b \<Rightarrow>
        let b = b\<lparr>scnt := i32 (scnt b + 1)\<rparr>
        in if sbuf b < ebuf b then Out (m(sbuf b := of_int ch)) (b\<lparr>sbuf := sbuf b + 1\<rparr>) else Out m b)"

definition vsnprintf :: "bmem \<Rightarrow> u64 \<Rightarrow> int \<Rightarrow> cptr \<Rightarrow> cptr list \<Rightarrow> (bmem \<times> int) option" where
  "vsnprintf m buf n fmt ap =
     (let b = \<lparr>sbuf = buf, ebuf = buf + of_int n - 1, scnt = 0\<rparr> in
      if buf = 0 \<or> n < 1 then Some (m, - 5)
      else do { s \<leftarrow> vprintfmt sprintputch fmt ap (Out m b);
                let b = putdat s;
                Some ((omem s)(sbuf b := 0), scnt b) })"

definition snprintf :: "bmem \<Rightarrow> u64 \<Rightarrow> int \<Rightarrow> cptr \<Rightarrow> cptr list \<Rightarrow> (bmem \<times> int) option" where
  "snprintf m buf n fmt ap = vsnprintf m buf n fmt ap"

section \<open>Output of user programs\<close>

text \<open>\<^verbatim>\<open>puts\<close> is the system call that prints; the model keeps the strings it was given, the first one first.\<close>

record printbuf =
  idx :: int
  cnt :: int
  buf :: "int list"
  printed :: "int list list"

definition puts :: "int \<Rightarrow> printbuf \<Rightarrow> printbuf" where
  "puts n b = b\<lparr>printed := printed b @ [take (nat n) (buf b)]\<rparr>"

text \<open>An index outside the 256 bytes of the buffer would be a wild write.\<close>

definition putch_user :: "printbuf put" where
  "putch_user ch s =
     (case s of Out m b \<Rightarrow>
        let b = b\<lparr>buf := (buf b)[nat (idx b) := ch], idx := idx b + 1\<rparr>;
            b = (if idx b = 256 - 1 then (puts (idx b) b)\<lparr>idx := 0\<rparr> else b)
        in Out m (b\<lparr>cnt := i32 (cnt b + 1)\<rparr>))"

definition vprintf :: "bmem \<Rightarrow> cptr \<Rightarrow> cptr list \<Rightarrow> (printbuf \<times> int) option" where
  "vprintf m fmt ap =
     do { s \<leftarrow> vprintfmt putch_user fmt ap (Out m \<lparr>idx = 0, cnt = 0, buf = replicate 256 0, printed = []\<rparr>);
          let b = puts (idx (putdat s)) (putdat s);
          Some (b, cnt b) }"

definition printf :: "bmem \<Rightarrow> cptr \<Rightarrow> cptr list \<Rightarrow> (printbuf \<times> int) option" where
  "printf m fmt ap = vprintf m fmt ap"

declare printnum.simps [code] width_digits.simps [code] reswitch.simps [code] put_string.simps [code]
  rewind.simps [code] put_plain.simps [code] vprintfmt.simps [code]

section \<open>What is printed for a number\<close>

text \<open>The digits of a number, the most significant one first.\<close>

function digits :: "nat \<Rightarrow> nat \<Rightarrow> nat list" where
  "digits b n = (if b < 2 \<or> n < b then [n] else digits b (n div b) @ [n mod b])"
  by pat_completeness auto
termination
  by (relation "measure snd") auto

declare digits.simps [simp del]

definition digit_char :: "nat \<Rightarrow> int" where
  "digit_char d = of_char (hex_digits ! d)"

lemma digits_range: "2 \<le> b \<Longrightarrow> d \<in> set (digits b n) \<Longrightarrow> d < b"
proof (induction b n rule: digits.induct)
  case (1 b n)
  then show ?case
    by (subst (asm) (2) digits.simps) (auto split: if_splits)
qed

lemma digits_value: "2 \<le> b \<Longrightarrow> fold (\<lambda>d v. v * b + d) (digits b n) v = v * b ^ length (digits b n) + n"
proof (induction b n arbitrary: v rule: digits.induct)
  case (1 b n)
  show ?case
  proof (cases "n < b")
    case True
    then show ?thesis
      by (simp add: digits.simps)
  next
    case False
    then have e: "digits b n = digits b (n div b) @ [n mod b]"
      using "1.prems" by (subst digits.simps) simp
    show ?thesis
      using "1.IH" [of v] "1.prems" False unfolding e by (simp add: algebra_simps)
  qed
qed

lemma put_n_fold: "put_n n putch c s = fold putch (replicate n c) s"
  by (induction n arbitrary: s) simp_all

lemma printnum_core:
  fixes base :: u32
  assumes "2 \<le> unat base" "unat base \<le> 16" "ds = digits (unat base) (unat num)"
  shows "printnum putch num base w pad s =
    Some (fold putch (replicate (nat (i32 (w - int (length ds)))) pad @ map digit_char ds) s)"
  using assms(3)
proof (induction "unat num" arbitrary: num w s ds rule: less_induct)
  case less
  let ?b = "ucast base :: u64"
  have b: "unat ?b = unat base"
    using assms(2) by (simp add: unsigned_ucast_eq take_bit_nat_eq_self)
  have d: "unat (num mod ?b) = unat num mod unat base" "unat (num div ?b) = unat num div unat base"
    by (simp_all add: unat_mod unat_div b)
  have l: "unat num mod unat base < length hex_digits"
  proof -
    have "unat num mod unat base < unat base"
      using assms(1) by simp
    then show ?thesis
      using assms(2) by (simp add: hex_digits_def)
  qed
  show ?case
  proof (cases "num \<ge> ?b")
    case False
    then have "unat num < unat base"
      by (simp add: word_le_nat_alt b)
    then show ?thesis
      using False l less.prems by (subst printnum.simps) (simp add: d digits.simps put_n_fold digit_char_def)
  next
    case True
    then have g: "unat base \<le> unat num"
      by (simp add: word_le_nat_alt b)
    let ?es = "digits (unat base) (unat num div unat base)"
    have ds: "ds = ?es @ [unat num mod unat base]"
      using g assms less.prems by (subst (asm) digits.simps) simp
    have "unat (num div ?b) < unat num"
      using g assms by (simp add: d)
    from less.hyps [OF this refl]
    have "printnum putch (num div ?b) base (i32 (w - 1)) pad s =
        Some (fold putch (replicate (nat (i32 (w - 1 - int (length ?es)))) pad @ map digit_char ?es) s)"
      by (simp add: d)
    moreover have "base \<noteq> 0"
      using assms by auto
    ultimately show ?thesis
      using True l by (subst printnum.simps) (simp add: d ds digit_char_def algebra_simps)
  qed
qed

section \<open>Invariants of the output\<close>

text \<open>What every put character keeps is kept by formatted output, whatever the format and the arguments are.\<close>

locale put_inv =
  fixes putch :: "'d put" and I :: "'d out \<Rightarrow> bool"
  assumes put_step: "I s \<Longrightarrow> I (putch c s)"
begin

lemma put_n_inv: "I s \<Longrightarrow> I (put_n n putch c s)"
  by (induction n arbitrary: s) (simp_all add: put_step)

lemma printnum_inv:
  assumes "printnum putch num base w pad s = Some s'" "I s"
  shows "I s'"
proof -
  have "pc = putch \<longrightarrow> I s \<longrightarrow> I s'" if "printnum pc num base w pad s = Some s'" for pc num base w pad s s'
  proof (rule printnum.raw_induct [OF _ that, where P = "\<lambda>pc num base w pad s s'. pc = putch \<longrightarrow> I s \<longrightarrow> I s'"], goal_cases)
    case (1 f)
    then show ?case
      by (auto simp: bind_eq_Some_conv put_step put_n_inv split: if_splits)
  qed
  with assms show ?thesis by blast
qed

lemma put_string_inv:
  assumes "put_string putch p alt prec wid s = Some (w, s')" "I s"
  shows "I s'"
proof -
  have "pc = putch \<longrightarrow> I s \<longrightarrow> I (snd r)" if "put_string pc p alt prec wid s = Some r" for pc p alt prec wid s r
  proof (rule put_string.raw_induct [OF _ that, where P = "\<lambda>pc p alt prec wid s r. pc = putch \<longrightarrow> I s \<longrightarrow> I (snd r)"], goal_cases)
    case (1 f)
    then show ?case
      by (auto simp: Let_def put_step split: if_splits)
  qed
  from this [OF assms(1)] assms(2) show ?thesis by simp
qed

lemma put_plain_inv:
  assumes "put_plain putch fmt s = Some (e, fmt', s')" "I s"
  shows "I s'"
proof -
  have "pc = putch \<longrightarrow> I s \<longrightarrow> I (snd (snd r))" if "put_plain pc fmt s = Some r" for pc fmt s r
  proof (rule put_plain.raw_induct [OF _ that, where P = "\<lambda>pc fmt s r. pc = putch \<longrightarrow> I s \<longrightarrow> I (snd (snd r))"], goal_cases)
    case (1 f)
    then show ?case
      by (auto simp: Let_def put_step split: if_splits)
  qed
  from this [OF assms(1)] assms(2) show ?thesis by simp
qed

lemma convert_s_inv: "convert_s putch f p s = Some s' \<Longrightarrow> I s \<Longrightarrow> I s'"
  by (auto simp: convert_s_def Let_def bind_eq_Some_conv put_n_inv split: if_splits dest!: put_string_inv)

lemma convert_inv: "convert putch ch f fmt ap s = Some (fmt', ap', s') \<Longrightarrow> I s \<Longrightarrow> I s'"
  by (auto simp: convert_def Let_def bind_eq_Some_conv put_step split: if_splits dest!: printnum_inv convert_s_inv
      intro!: put_step)

lemma vprintfmt_inv:
  assumes "vprintfmt putch fmt ap s = Some s'" "I s"
  shows "I s'"
proof -
  have "pc = putch \<longrightarrow> I s \<longrightarrow> I s'" if "vprintfmt pc fmt ap s = Some s'" for pc fmt ap s s'
  proof (rule vprintfmt.raw_induct [OF _ that, where P = "\<lambda>pc fmt ap s s'. pc = putch \<longrightarrow> I s \<longrightarrow> I s'"], goal_cases)
    case (1 f)
    then show ?case
      by (auto simp: bind_eq_Some_conv Let_def split: if_splits option.splits dest!: put_plain_inv convert_inv)
  qed
  with assms show ?thesis by blast
qed

end

text \<open>
  Two sinks that keep related states, with the same memory, see the same characters: formatted output with the first one that
  returns also returns with the second one, in related states.
\<close>

locale put_sim =
  fixes put1 :: "'d put" and put2 :: "'e put" and R :: "'d out \<Rightarrow> 'e out \<Rightarrow> bool"
  assumes sim_step: "R s t \<Longrightarrow> R (put1 c s) (put2 c t)"
    and sim_mem: "R s t \<Longrightarrow> omem t = omem s"
begin

lemma put_n_sim: "R s t \<Longrightarrow> R (put_n n put1 c s) (put_n n put2 c t)"
  by (induction n arbitrary: s t) (simp_all add: sim_step)

lemma printnum_sim:
  assumes "printnum put1 num base w pad s = Some s'" "R s t"
  shows "\<exists>t'. printnum put2 num base w pad t = Some t' \<and> R s' t'"
proof -
  have "pc = put1 \<longrightarrow> (\<forall>t. R s t \<longrightarrow> (\<exists>t'. printnum put2 num base w pad t = Some t' \<and> R s' t'))"
    if "printnum pc num base w pad s = Some s'" for pc num base w pad s s'
  proof (rule printnum.raw_induct [OF _ that, where P = "\<lambda>pc num base w pad s s'.
      pc = put1 \<longrightarrow> (\<forall>t. R s t \<longrightarrow> (\<exists>t'. printnum put2 num base w pad t = Some t' \<and> R s' t'))"], goal_cases)
    case (1 f pc num base w pad s s')
    show ?case
    proof (intro impI allI)
      fix t assume pc: "pc = put1" and r: "R s t"
      show "\<exists>t'. printnum put2 num base w pad t = Some t' \<and> R s' t'"
        using 1(2) 1(1) [of put1 "num div ucast base" base "i32 (w - 1)" pad s] r pc
        by (subst printnum.simps) (fastforce simp: bind_eq_Some_conv sim_step put_n_sim split: if_splits)
    qed
  qed
  with assms show ?thesis by blast
qed

lemma put_string_sim:
  assumes "put_string put1 p alt prec wid s = Some (w, s')" "R s t"
  shows "\<exists>t'. put_string put2 p alt prec wid t = Some (w, t') \<and> R s' t'"
proof -
  have "pc = put1 \<longrightarrow> (\<forall>t. R s t \<longrightarrow> (\<exists>t'. put_string put2 p alt prec wid t = Some (fst r, t') \<and> R (snd r) t'))"
    if "put_string pc p alt prec wid s = Some r" for pc p alt prec wid s r
  proof (rule put_string.raw_induct [OF _ that, where P = "\<lambda>pc p alt prec wid s r.
      pc = put1 \<longrightarrow> (\<forall>t. R s t \<longrightarrow> (\<exists>t'. put_string put2 p alt prec wid t = Some (fst r, t') \<and> R (snd r) t'))"], goal_cases)
    case (1 f pc p alt prec wid s r)
    then show ?case
      by (subst put_string.simps) (auto simp: Let_def sim_mem sim_step split: if_splits)
  qed
  from this [OF assms(1)] assms(2) show ?thesis by simp
qed

lemma put_plain_sim:
  assumes "put_plain put1 fmt s = Some (e, fmt', s')" "R s t"
  shows "\<exists>t'. put_plain put2 fmt t = Some (e, fmt', t') \<and> R s' t'"
proof -
  have "pc = put1 \<longrightarrow> (\<forall>t. R s t \<longrightarrow> (\<exists>t'. put_plain put2 fmt t = Some (fst r, fst (snd r), t') \<and> R (snd (snd r)) t'))"
    if "put_plain pc fmt s = Some r" for pc fmt s r
  proof (rule put_plain.raw_induct [OF _ that, where P = "\<lambda>pc fmt s r.
      pc = put1 \<longrightarrow> (\<forall>t. R s t \<longrightarrow> (\<exists>t'. put_plain put2 fmt t = Some (fst r, fst (snd r), t') \<and> R (snd (snd r)) t'))"], goal_cases)
    case (1 f pc fmt s r)
    then show ?case
      by (subst put_plain.simps) (auto simp: Let_def sim_mem sim_step split: if_splits)
  qed
  from this [OF assms(1)] assms(2) show ?thesis by simp
qed

lemma convert_s_sim:
  assumes "convert_s put1 f p s = Some s'" "R s t"
  shows "\<exists>t'. convert_s put2 f p t = Some t' \<and> R s' t'"
proof -
  let ?p = "if p = Mem 0 then Lit ''(null)'' 0 else p"
  define pad where "pad = (width f > 0 \<and> padc f \<noteq> of_char (CHR ''-''))"
  define w where "w = i32 (width f - strnlen_ptr (omem s) ?p (of_int (precision f)))"
  define w1 where "w1 = (if pad then if w > 0 then 0 else w else width f)"
  let ?s = "if pad then put_n (nat w) put1 (padc f) s else s" and ?t = "if pad then put_n (nat w) put2 (padc f) t else t"
  have "R ?s ?t" using assms(2) by (simp add: put_n_sim)
  moreover obtain w2 s2 where 2: "put_string put1 ?p (altflag f) (precision f) w1 ?s = Some (w2, s2)"
    "s' = put_n (nat w2) put1 (of_char (CHR '' '')) s2"
    using assms(1) by (auto simp: convert_s_def Let_def bind_eq_Some_conv pad_def w_def w1_def split: if_splits)
  ultimately obtain t2 where t2: "put_string put2 ?p (altflag f) (precision f) w1 ?t = Some (w2, t2)" "R s2 t2"
    using put_string_sim by blast
  have "convert_s put2 f p t = Some (put_n (nat w2) put2 (of_char (CHR '' '')) t2)"
    using t2(1) sim_mem [OF assms(2)] by (auto simp: convert_s_def Let_def pad_def w_def w1_def split: if_splits)
  then show ?thesis using 2(2) t2(2) put_n_sim by blast
qed

lemma convert_sim:
  assumes "convert put1 ch f fmt ap s = Some (fmt', ap', s')" "R s t"
  shows "\<exists>t'. convert put2 ch f fmt ap t = Some (fmt', ap', t') \<and> R s' t'"
  using assms(1) unfolding convert_def Let_def
  by (auto simp: bind_eq_Some_conv assms(2) sim_step sim_mem [OF sim_step [OF assms(2)]] split: if_splits
      dest!: printnum_sim convert_s_sim intro!: sim_step)

lemma vprintfmt_sim:
  assumes "vprintfmt put1 fmt ap s = Some s'" "R s t"
  shows "\<exists>t'. vprintfmt put2 fmt ap t = Some t' \<and> R s' t'"
proof -
  let ?P = "\<lambda>pc fmt ap s s'. pc = put1 \<longrightarrow> (\<forall>t. R s t \<longrightarrow> (\<exists>t'. vprintfmt put2 fmt ap t = Some t' \<and> R s' t'))"
  have "?P pc fmt ap s s'" if "vprintfmt pc fmt ap s = Some s'" for pc fmt ap s s'
  proof (rule vprintfmt.raw_induct [OF _ that, where P = ?P], goal_cases)
    case (1 f pc fmt ap s s')
    note IH = 1(1) [THEN mp, OF _ refl, THEN spec, THEN mp]
    show ?case
    proof (intro impI allI)
      fix t assume pc: "pc = put1" and r: "R s t"
      obtain e fmt1 s1 where p: "put_plain put1 fmt s = Some (e, fmt1, s1)"
        using 1(2) pc by (auto simp: bind_eq_Some_conv)
      then obtain t1 where t1: "put_plain put2 fmt t = Some (e, fmt1, t1)" "R s1 t1"
        using put_plain_sim r by blast
      let ?mid = "\<lambda>rec pc ch f2 fmt ap s.
        if ch = of_char (CHR ''e'') then
          do { (err, ap) \<leftarrow> va_int ap;
               let err = (if err < 0 then i32 (- err) else err);
               s \<leftarrow> (case error_string err of
                       None \<Rightarrow> rec pc (Lit ''error %d'' 0) [Mem (of_int err)] s
                     | Some p \<Rightarrow> rec pc (Lit ''%s'' 0) [Lit p 0] s);
               Some (fmt, ap, s) }
        else convert pc ch f2 fmt ap s"
      have mid: "\<exists>t3. ?mid vprintfmt put2 ch f2 fmt2 ap2 t1 = Some (fmt3, ap3, t3) \<and> R s3 t3"
        if m: "?mid f put1 ch f2 fmt2 ap2 s1 = Some (fmt3, ap3, s3)" for ch f2 fmt2 ap2 fmt3 ap3 s3
      proof (cases "ch = of_char (CHR ''e'')")
        case True
        then obtain a where a: "va_int ap2 = Some (a, ap3)" "fmt3 = fmt2"
          using m by (auto simp: bind_eq_Some_conv Let_def)
        define err where "err = (if a < 0 then i32 (- a) else a)"
        show ?thesis
          using m True a IH [OF _ t1(2)]
          by (cases "error_string err") (auto simp: Let_def bind_eq_Some_conv err_def [symmetric])
      qed (use m convert_sim [OF _ t1(2)] in simp)
      show "\<exists>t'. vprintfmt put2 fmt ap t = Some t' \<and> R s' t'"
      proof (cases e)
        case True
        with 1(2) p pc t1 show ?thesis
          by (subst vprintfmt.simps) simp
      next
        case False
        then obtain ch f2 fmt2 ap2 fmt3 ap3 s3 where s3: "reswitch (omem s1) fmt1 ap spec0 = Some (ch, f2, fmt2, ap2)"
            "?mid f put1 ch f2 fmt2 ap2 s1 = Some (fmt3, ap3, s3)" "f put1 fmt3 ap3 s3 = Some s'"
          using 1(2) p pc by (simp add: bind_eq_Some_conv [of "reswitch _ _ _ _"] bind_eq_Some_conv [of "If _ _ _"]) blast
        obtain t3 where t3: "?mid vprintfmt put2 ch f2 fmt2 ap2 t1 = Some (fmt3, ap3, t3)" "R s3 t3"
          using mid [OF s3(2)] by blast
        then show ?thesis
          using IH [OF s3(3) t3(2)] False t1(1) s3(1) sim_mem [OF t1(2)]
          by (subst vprintfmt.simps) (simp del: bind_split add: bind_eq_Some_conv)
      qed
    qed
  qed
  with assms show ?thesis by blast
qed

end

text \<open>A sink that also keeps the characters put to it, in order: the complete output of a call.\<close>

definition logged :: "'d put \<Rightarrow> ('d \<times> int list) put" where
  "logged putch c s =
     (case s of Out m (d, log) \<Rightarrow> case putch c (Out m d) of Out m d \<Rightarrow> Out m (d, log @ [c]))"

definition output_of :: "'d put \<Rightarrow> cptr \<Rightarrow> cptr list \<Rightarrow> 'd out \<Rightarrow> int list option" where
  "output_of putch fmt ap s = map_option (\<lambda>t. snd (putdat t)) (vprintfmt (logged putch) fmt ap (Out (omem s) (putdat s, [])))"

lemma fold_logged: "snd (putdat (fold (logged putch) cs t)) = snd (putdat t) @ cs"
proof (induction cs arbitrary: t)
  case (Cons c cs)
  have "snd (putdat (logged putch c t)) = snd (putdat t) @ [c]"
    by (cases t) (auto simp: logged_def split: prod.split out.split)
  then show ?case
    by (simp add: Cons)
qed simp

interpretation lg: put_sim putch "logged putch" "\<lambda>s t. omem t = omem s \<and> fst (putdat t) = putdat s" for putch
proof
  fix s :: "'a out" and t :: "('a \<times> int list) out" and c
  assume "omem t = omem s \<and> fst (putdat t) = putdat s"
  then show "omem (logged putch c t) = omem (putch c s) \<and> fst (putdat (logged putch c t)) = putdat (putch c s)"
    by (cases s; cases t; cases "putch c s") (auto simp: logged_def split: prod.split)
qed simp

interpretation gl: put_sim "logged putch" putch "\<lambda>t s. omem t = omem s \<and> fst (putdat t) = putdat s" for putch
  by unfold_locales (use lg.sim_step in auto)

lemma output_of_run:
  "vprintfmt putch fmt ap s = None \<longleftrightarrow> output_of putch fmt ap s = None"
  "vprintfmt (logged putch) fmt ap (Out (omem s) (putdat s, [])) = Some t \<Longrightarrow>
     vprintfmt putch fmt ap s = Some (Out (omem t) (fst (putdat t)))"
proof -
  let ?t = "Out (omem s) (putdat s, [])"
  have fwd: "\<exists>t'. vprintfmt (logged putch) fmt ap ?t = Some t' \<and> omem t' = omem s' \<and> fst (putdat t') = putdat s'"
    if "vprintfmt putch fmt ap s = Some s'" for s'
    using lg.vprintfmt_sim [OF that, of ?t] by simp
  have bwd: "vprintfmt putch fmt ap s = Some (Out (omem t) (fst (putdat t)))" if "vprintfmt (logged putch) fmt ap ?t = Some t" for t
    using gl.vprintfmt_sim [OF that, of s] by (auto simp: out.expand)
  show "vprintfmt putch fmt ap s = None \<longleftrightarrow> output_of putch fmt ap s = None"
    using fwd bwd by (auto simp: output_of_def) fastforce+
  show "vprintfmt (logged putch) fmt ap ?t = Some t \<Longrightarrow> vprintfmt putch fmt ap s = Some (Out (omem t) (fst (putdat t)))"
    by (rule bwd)
qed

section \<open>Output to a buffer\<close>

definition written :: "bmem \<Rightarrow> u64 \<Rightarrow> u8 list \<Rightarrow> bmem" where
  "written m d bs = (\<lambda>a. if unat (a - d) < length bs then bs ! unat (a - d) else m a)"

text \<open>The state after the characters \<open>log\<close> have been put to a buffer with room for \<open>k\<close> characters and a null byte.\<close>

definition sprint_state :: "bmem \<Rightarrow> u64 \<Rightarrow> nat \<Rightarrow> int list \<Rightarrow> sprintbuf out" where
  "sprint_state m d k log =
     Out (written m d (map of_int (take k log)))
       \<lparr>sbuf = d + of_nat (min k (length log)), ebuf = d + of_nat k, scnt = i32 (int (length log))\<rparr>"

lemma written_Nil [simp]: "written m d [] = m"
  by (simp add: written_def)

lemma written_at: "unat j < length bs \<Longrightarrow> written m d bs (d + j) = bs ! unat j"
  by (simp add: written_def)

lemma written_snoc:
  assumes "length bs < 2 ^ 64"
  shows "(written m d bs)(d + of_nat (length bs) := b) = written m d (bs @ [b])"
proof
  fix a
  have l: "unat (of_nat (length bs) :: u64) = length bs"
    using assms by (rule u64_of_nat)
  show "((written m d bs)(d + of_nat (length bs) := b)) a = written m d (bs @ [b]) a"
  proof (cases "a = d + of_nat (length bs)")
    case True
    then show ?thesis
      using l by (simp add: written_def)
  next
    case False
    have "unat (a - d) \<noteq> length bs"
    proof
      assume "unat (a - d) = length bs"
      then have "a - d = of_nat (length bs)"
        using l by (simp add: word_unat_eq_iff)
      with False show False
        by (simp add: diff_eq_eq add.commute)
    qed
    with False show ?thesis
      by (auto simp: written_def nth_append)
  qed
qed

lemma sprintputch_state:
  assumes "unat d + k < 2 ^ 64"
  shows "sprintputch c (sprint_state m d k log) = sprint_state m d k (log @ [c])"
proof (cases "length log < k")
  case True
  have u: "unat (d + of_nat j) = unat d + j" if "j \<le> k" for j
    using assms that u64_of_nat [of j] by (simp add: u64_add)
  have "d + of_nat (length log) < d + of_nat k"
    using u [of "length log"] u [of k] True by (simp add: word_less_nat_alt)
  moreover have "(written m d (map of_int log))(d + of_nat (length log) := of_int c) = written m d (map of_int (log @ [c]))"
    using written_snoc [of "map of_int log" m d "of_int c"] True assms by simp
  ultimately show ?thesis
    using True by (simp add: sprintputch_def sprint_state_def add.assoc add.commute)
qed (simp add: sprintputch_def sprint_state_def add.commute)

lemma fold_sprintputch:
  assumes "unat d + k < 2 ^ 64"
  shows "fold sprintputch cs (sprint_state m d k log) = sprint_state m d k (log @ cs)"
  by (induction cs arbitrary: log) (simp_all add: sprintputch_state [OF assms])

text \<open>What \<^verbatim>\<open>vsnprintf\<close> leaves in the buffer is determined by the characters put so far.\<close>

definition sprint_logged :: "bmem \<Rightarrow> u64 \<Rightarrow> nat \<Rightarrow> (sprintbuf \<times> int list) out \<Rightarrow> bool" where
  "sprint_logged m d k t \<longleftrightarrow> unat d + k < 2 ^ 64 \<and> Out (omem t) (fst (putdat t)) = sprint_state m d k (snd (putdat t))"

interpretation sp: put_inv "logged sprintputch" "sprint_logged m d k" for m d k
proof
  fix t c assume "sprint_logged m d k t"
  then show "sprint_logged m d k (logged sprintputch c t)"
    using sprintputch_state [of d k c m "snd (putdat t)"]
    by (cases t) (auto simp: sprint_logged_def logged_def split: prod.split out.split)
qed

lemma output_of_sprint:
  assumes "unat d + k < 2 ^ 64"
  shows "vprintfmt sprintputch fmt ap (sprint_state m d k []) =
    map_option (sprint_state m d k) (output_of sprintputch fmt ap (sprint_state m d k []))"
proof (cases "vprintfmt (logged sprintputch) fmt ap (Out m (putdat (sprint_state m d k []), []))")
  case None
  then show ?thesis
    using output_of_run(1) [of sprintputch fmt ap "sprint_state m d k []"] by (simp add: output_of_def sprint_state_def)
next
  case (Some t)
  have "sprint_logged m d k t"
    by (rule sp.vprintfmt_inv [OF Some]) (use assms in \<open>simp add: sprint_logged_def sprint_state_def\<close>)
  then show ?thesis
    using output_of_run(2) [of sprintputch fmt ap "sprint_state m d k []" t] Some
    by (simp add: output_of_def sprint_logged_def) (simp add: sprint_state_def)
qed

lemma sprint_state_0:
  assumes "1 \<le> n"
  shows "Out m \<lparr>sbuf = d, ebuf = d + of_int n - 1, scnt = 0\<rparr> = sprint_state m d (nat n - 1) []"
proof -
  obtain j where "n = int j + 1"
    using assms by (metis add.commute zle_iff_zadd)
  then show ?thesis
    by (simp add: sprint_state_def)
qed

lemma vsnprintf_core:
  assumes "d \<noteq> 0" "1 \<le> n" "unat d + nat n \<le> 2 ^ 64"
  shows "vsnprintf m d n fmt ap =
    map_option (\<lambda>log. (written m d (map of_int (take (nat n - 1) log) @ [0]), i32 (int (length log))))
      (output_of sprintputch fmt ap (Out m \<lparr>sbuf = d, ebuf = d + of_int n - 1, scnt = 0\<rparr>))"
proof -
  let ?k = "nat n - 1"
  have k: "unat d + ?k < 2 ^ 64"
    using assms(2,3) by simp
  have w: "(written m d (map of_int (take ?k log)))(d + of_nat (min (length log) ?k) := 0) =
      written m d (map of_int (take ?k log) @ [0])" for log
    using k written_snoc [of "map of_int (take ?k log)" m d 0] by simp
  show ?thesis
    using assms(1,2) k w unfolding vsnprintf_def Let_def sprint_state_0 [OF assms(2)] output_of_sprint [OF k]
    by (cases "output_of sprintputch fmt ap (sprint_state m d ?k [])") (simp_all add: sprint_state_def min.commute)
qed

section \<open>Output of user programs, in one system call for up to 255 characters\<close>

definition print_inv :: "bmem \<Rightarrow> printbuf out \<Rightarrow> bool" where
  "print_inv m s \<longleftrightarrow>
     (let b = putdat s in
      omem s = m \<and> 0 \<le> idx b \<and> idx b < 255 \<and> length (buf b) = 256 \<and> (\<forall>x \<in> set (printed b). length x = 255)
      \<and> cnt b = i32 (int (length (concat (printed b))) + idx b))"

lemma putch_user_inv:
  assumes "print_inv m s"
  shows "print_inv m (putch_user c s)"
  using assms by (cases s) (auto simp: print_inv_def putch_user_def puts_def Let_def add.assoc add.commute)

interpretation up: put_inv putch_user "print_inv m" for m
  by unfold_locales (rule putch_user_inv)

lemma vprintf_core:
  assumes "vprintf m fmt ap = Some (b, c)"
  shows "\<exists>xs x. printed b = xs @ [x] \<and> (\<forall>y \<in> set xs. length y = 255) \<and> length x < 255 \<and> c = i32 (int (length (concat (printed b))))"
proof -
  obtain s where s: "vprintfmt putch_user fmt ap (Out m \<lparr>idx = 0, cnt = 0, buf = replicate 256 0, printed = []\<rparr>) = Some s"
      "b = puts (idx (putdat s)) (putdat s)" "c = cnt b"
    using assms by (auto simp: vprintf_def Let_def bind_eq_Some_conv)
  have "print_inv m s"
    by (rule up.vprintfmt_inv [OF s(1)]) (simp add: print_inv_def)
  then show ?thesis
    using s(2,3) by (auto simp: print_inv_def puts_def Let_def)
qed

section \<open>Reading back a printed number\<close>

definition digit_byte :: "nat \<Rightarrow> u8" where
  "digit_byte d = of_int (digit_char d)"

lemma below_16: "(d :: nat) < 16 \<Longrightarrow> d \<in> {0, 1, 2, 3, 4, 5, 6, 7, 8, 9, 10, 11, 12, 13, 14, 15}"
  by simp arith

lemma digit_byte_digit:
  assumes "d < 16"
  shows "digit (digit_byte d) = Some (int d)"
  using below_16 [OF assms] by (auto simp: digit_def digit_byte_def digit_char_def hex_digits_def)

lemma digit_byte_not:
  assumes "d < 16"
  shows "digit_byte d \<notin> {0, 0x20, 0x09, 0x2B, 0x2D}"
  using below_16 [OF assms] by (auto simp: digit_byte_def digit_char_def hex_digits_def)

lemma digit_null: "digit 0 = None"
  by (simp add: digit_def)

lemma strtol_loop_digits:
  assumes "cstring m p (map digit_byte ds)" "\<And>d. d \<in> set ds \<Longrightarrow> d < b" "b \<le> 16"
  shows "strtol_loop m p (int b) v = Some (fold (\<lambda>d v. v * of_nat b + of_nat d) ds v, p + of_nat (length ds))"
  using assms(1,2)
proof (induction ds arbitrary: p v)
  case Nil
  then show ?case
    by (subst strtol_loop.simps) (simp add: digit_null)
next
  case (Cons d ds)
  have d: "d < b"
    using Cons.prems(2) by simp
  then have "digit (m p) = Some (int d)"
    using Cons.prems(1) assms(3) digit_byte_digit [of d] by simp
  moreover have "\<not> b \<le> d"
    using d by simp
  ultimately show ?case
    using Cons by (subst strtol_loop.simps) (simp add: add.assoc)
qed

lemma cstringI:
  assumes "\<And>j. j < length bs \<Longrightarrow> m (p + of_nat j) = bs ! j" "m (p + of_nat (length bs)) = 0" "0 \<notin> set bs"
  shows "cstring m p bs"
  using assms
proof (induction bs arbitrary: p)
  case (Cons b bs)
  have "cstring m (p + 1) bs"
  proof (rule Cons.IH)
    show "m (p + 1 + of_nat j) = bs ! j" if "j < length bs" for j
      using Cons.prems(1) [of "Suc j"] that by (simp add: add.assoc)
  qed (use Cons.prems in \<open>simp_all add: add.assoc\<close>)
  then show ?case
    using Cons.prems(1) [of 0] Cons.prems(3) by auto
qed simp

lemma cstring_written:
  assumes "length bs < 2 ^ 64" "0 \<notin> set bs"
  shows "cstring (written m p (bs @ [0])) p bs"
proof (rule cstringI)
  show "written m p (bs @ [0]) (p + of_nat j) = bs ! j" if "j < length bs" for j
    using that assms u64_of_nat [of j] by (simp add: written_at nth_append)
  show "written m p (bs @ [0]) (p + of_nat (length bs)) = 0"
    using assms u64_of_nat [of "length bs"] by (simp add: written_at)
qed fact

lemma digits_length: "2 \<le> b \<Longrightarrow> 0 < k \<Longrightarrow> n < b ^ k \<Longrightarrow> length (digits b n) \<le> k"
proof (induction b n arbitrary: k rule: digits.induct)
  case (1 b n)
  show ?case
  proof (cases "n < b")
    case True
    then show ?thesis
      using "1.prems" by (simp add: digits.simps)
  next
    case False
    have "k \<noteq> 1"
      using False "1.prems" by auto
    then obtain j where j: "k = Suc j" "0 < j"
      using "1.prems" by (cases k) auto
    then have "n div b < b ^ j"
      using "1.prems" by (simp add: less_mult_imp_div_less mult.commute)
    then have "length (digits b (n div b)) \<le> j"
      using "1.IH" [of j] False "1.prems" j by simp
    then show ?thesis
      using False "1.prems" j by (subst digits.simps) simp
  qed
qed

text \<open>What is printed for a signed number.\<close>

definition decimal :: "u64 \<Rightarrow> int list" where
  "decimal num = (if num <s 0 then of_char (CHR ''-'') # map digit_char (digits 10 (unat (- num))) else map digit_char (digits 10 (unat num)))"

lemma spec0_simps [simp]: "width spec0 = - 1" "lflag spec0 = 0"
  by (simp_all add: spec0_def)

lemma vprintfmt_d:
  "vprintfmt putch (Lit ''%d'' 0) [Mem w] s = Some (fold putch (decimal (scast (ucast w :: u32))) s)"
proof -
  have n: "printnum putch num 10 (- 1) pad s = Some (fold putch (map digit_char (digits 10 (unat num))) s)" for num pad s
  proof -
    have "length (digits 10 (unat num)) \<le> 20"
      using digits_length [of 10 20 "unat num"] unsigned_less [of num, where 'a = nat] by simp
    then have "nat (i32 (- 1 - int (length (digits 10 (unat num))))) = 0" by (subst i32_id) simp_all
    then show ?thesis using printnum_core [of 10 _ num putch "- 1" pad s, OF _ _ refl] by simp
  qed
  have p: "put_plain putch (Lit ''%d'' 0) s = Some (False, Lit ''%d'' (Suc 0), s)"
    by (subst put_plain.simps) (simp add: rd_def lit_byte_def inc_def)
  have r: "reswitch m (Lit ''%d'' (Suc 0)) ap spec0 = Some (100, spec0, Lit ''%d'' 2, ap)" for m ap
    by (subst reswitch.simps) (simp add: rd_def lit_byte_def inc_def)
  have e: "vprintfmt putch (Lit ''%d'' 2) ap s = Some s" for ap s
    by (subst vprintfmt.simps, subst put_plain.simps) (simp add: rd_def lit_byte_def)
  show ?thesis
    by (subst vprintfmt.simps) (simp add: p r e n convert_def getint_def va_word_def decimal_def)
qed

lemma fold_digits_word:
  "fold (\<lambda>d v. v * of_nat b + of_nat d) ds (of_nat v) = (of_nat (fold (\<lambda>d v. v * b + d) ds v) :: u64)"
  by (induction ds arbitrary: v) (simp_all flip: of_nat_mult of_nat_add)

lemma strtol_loop_number:
  assumes "cstring m p (map digit_byte (digits 10 (unat num)))"
  shows "strtol_loop m p 10 0 = Some (num, p + of_nat (length (digits 10 (unat num))))"
proof -
  have "fold (\<lambda>d v. v * of_nat 10 + of_nat d) (digits 10 (unat num)) (of_nat 0) = num"
    unfolding fold_digits_word by (simp add: digits_value)
  then show ?thesis
    using strtol_loop_digits [OF assms, of 10 0] digits_range [of 10 _ "unat num"] by simp
qed

lemma digits_not_Nil: "digits b n \<noteq> []"
  by (subst digits.simps) simp

lemma number_head:
  assumes "cstring m p (map digit_byte (digits 10 n))"
  shows "m p \<notin> {0, 0x20, 0x09, 0x2B, 0x2D}"
proof -
  obtain d ds where ds: "digits 10 n = d # ds"
    using digits_not_Nil by (cases "digits 10 n") auto
  then have "d < 16"
    using digits_range [of 10 d n] by simp
  then show ?thesis
    using assms ds digit_byte_not [of d] by simp
qed

lemma skip_blanks_stop: "m p \<notin> {0x20, 0x09} \<Longrightarrow> skip_blanks m p = Some p"
  by (subst skip_blanks.simps) simp

lemma decimal_map:
  "map of_int (decimal num) =
     (if num <s 0 then 0x2D # map digit_byte (digits 10 (unat (- num))) else map digit_byte (digits 10 (unat num)))"
  by (simp add: decimal_def digit_byte_def)

lemma strtol_decimal:
  assumes "cstring m p (map of_int (decimal num))"
  shows "strtol m p 10 = Some (num, p + of_nat (length (decimal num)))"
proof (cases "num <s 0")
  case True
  then have c: "m p = 0x2D" "cstring m (p + 1) (map digit_byte (digits 10 (unat (- num))))"
    using assms by (simp_all add: decimal_map)
  have "skip_blanks m p = Some p"
    using c(1) by (simp add: skip_blanks_stop)
  then show ?thesis
    using c True number_head [OF c(2)] strtol_loop_number [OF c(2)]
    by (simp add: strtol_def decimal_def add.assoc)
next
  case False
  then have c: "cstring m p (map digit_byte (digits 10 (unat num)))"
    using assms by (simp add: decimal_map)
  then have "skip_blanks m p = Some p"
    using number_head [OF c] by (simp add: skip_blanks_stop)
  then show ?thesis
    using False number_head [OF c] strtol_loop_number [OF c] by (simp add: strtol_def decimal_def)
qed

lemma decimal_bytes: "0 \<notin> set (map of_int (decimal num) :: u8 list)"
proof -
  have n: "0 \<notin> set (map digit_byte (digits 10 n))" for n
  proof
    assume "0 \<in> set (map digit_byte (digits 10 n))"
    then obtain d where d: "d \<in> set (digits 10 n)" "digit_byte d = 0"
      by auto
    then show False
      using digit_byte_not [of d] digits_range [of 10 d n] by simp
  qed
  show ?thesis
  proof (cases "num <s 0")
    case True
    then show ?thesis
      using n [of "unat (- num)"] unfolding decimal_map by simp
  next
    case False
    then show ?thesis
      using n [of "unat num"] unfolding decimal_map by simp
  qed
qed

lemma sword_bound:
  fixes w :: u32
  shows "(scast w :: u64) <s 0 \<Longrightarrow> unat (- (scast w :: u64)) < 10 ^ 10"
    and "\<not> (scast w :: u64) <s 0 \<Longrightarrow> unat (scast w :: u64) < 10 ^ 10"
proof -
  have r: "- (2 ^ 31) \<le> sint w" "sint w < 2 ^ 31"
    using sint_range_size [of w] by (simp_all add: word_size)
  have s: "sint (scast w :: u64) = sint w"
    by (rule sint_up_scast) (simp add: is_up)
  have e: "scast w = (of_int (sint w) :: u64)"
    by (rule scast_eq)
  show "unat (- (scast w :: u64)) < 10 ^ 10" if "(scast w :: u64) <s 0"
  proof -
    have "sint w < 0"
      using that s by (simp add: word_sless_alt)
    then have "of_nat (nat (- sint w)) = (- of_int (sint w) :: u64)"
      by (simp only: of_nat_nat neg_0_le_iff_le less_imp_le of_int_minus)
    then have "- (scast w :: u64) = of_nat (nat (- sint w))"
      unfolding e by (rule sym)
    then show ?thesis
      using r u64_of_nat [of "nat (- sint w)"] by simp
  qed
  show "unat (scast w :: u64) < 10 ^ 10" if "\<not> (scast w :: u64) <s 0"
  proof -
    have "0 \<le> sint w"
      using that s by (simp add: word_sless_alt)
    then have "(scast w :: u64) = of_nat (nat (sint w))"
      unfolding e by (simp only: of_nat_nat)
    then show ?thesis
      using r u64_of_nat [of "nat (sint w)"] by simp
  qed
qed

lemma decimal_length: "length (decimal (scast (w :: u32))) \<le> 11"
  using sword_bound [of w] digits_length [of 10 10] by (fastforce simp: decimal_def)

lemma snprintf_d:
  assumes "d \<noteq> 0" "12 \<le> n" "unat d + nat n \<le> 2 ^ 64"
  shows "snprintf m d n (Lit ''%d'' 0) [Mem w] =
    Some (written m d (map of_int (decimal (scast (ucast w :: u32))) @ [0]), int (length (decimal (scast (ucast w :: u32)))))"
proof -
  let ?k = "nat n - 1" and ?ds = "decimal (scast (ucast w :: u32))"
  have k: "unat d + ?k < 2 ^ 64" "length ?ds \<le> ?k"
    using assms(2,3) decimal_length [of "ucast w"] by simp_all
  have v: "vprintfmt sprintputch (Lit ''%d'' 0) [Mem w] (sprint_state m d ?k []) = Some (sprint_state m d ?k ?ds)"
    unfolding vprintfmt_d fold_sprintputch [OF k(1)] by simp
  have "n = int ?k + 1"
    using assms(2) by simp
  then obtain j where "n = int j + 1" "?k = j"
    by blast
  then have "d + of_int n - 1 = d + of_nat ?k"
    by simp
  then have s0: "Out m \<lparr>sbuf = d, ebuf = d + of_int n - 1, scnt = 0\<rparr> = sprint_state m d ?k []"
    by (simp add: sprint_state_def)
  have "vsnprintf m d n (Lit ''%d'' 0) [Mem w] =
      Some ((written m d (map of_int ?ds))(d + of_nat (length ?ds) := 0), int (length ?ds))"
    using assms(1,2) v k(2) decimal_length [of "ucast w"] unfolding vsnprintf_def Let_def s0
    by (simp add: sprint_state_def min_absorb2 i32_id)
  then show ?thesis
    using written_snoc [of "map of_int ?ds" m d 0] decimal_length [of "ucast w"] by (simp add: snprintf_def)
qed

lemma digits_head: "2 \<le> b \<Longrightarrow> hd (digits b n) = 0 \<Longrightarrow> n = 0 \<and> length (digits b n) = 1"
proof (induction b n rule: digits.induct)
  case (1 b n)
  show ?case
  proof (cases "n < b")
    case True
    then show ?thesis
      using "1.prems" by (simp add: digits.simps)
  next
    case False
    then have e: "digits b n = digits b (n div b) @ [n mod b]"
      using "1.prems" by (subst digits.simps) simp
    then have "n div b = 0"
      using "1.IH" "1.prems" False digits_not_Nil by (simp add: hd_append)
    then show ?thesis
      using "1.prems"(1) False by (simp add: div_eq_0_iff)
  qed
qed

section \<open>Properties\<close>

text \<open>
  C25: whatever the format and the arguments are, \<^verbatim>\<open>vsnprintf\<close> into a buffer of \<open>n\<close> bytes returns exactly when the formatting
  does.  Let \<open>log\<close> be the complete output, all the characters \<^verbatim>\<open>vprintfmt\<close> hands to \<^verbatim>\<open>sprintputch\<close> in this call.  The return value is the
  length of \<open>log\<close> (as an \<^verbatim>\<open>int\<close>), no byte outside the buffer has changed, the buffer holds the first
  \<open>n - 1\<close> characters of \<open>log\<close> and then a null byte.
\<close>

theorem vsnprintf_bounds:
  assumes "d \<noteq> 0" "1 \<le> n" "unat d + nat n \<le> 2 ^ 64"
  shows "case output_of sprintputch fmt ap (Out m \<lparr>sbuf = d, ebuf = d + of_int n - 1, scnt = 0\<rparr>) of
      None \<Rightarrow> vsnprintf m d n fmt ap = None
    | Some log \<Rightarrow> \<exists>m'. vsnprintf m d n fmt ap = Some (m', i32 (int (length log)))
        \<and> (\<forall>a. nat n \<le> unat (a - d) \<longrightarrow> m' a = m a)
        \<and> (\<forall>j < min (nat n - 1) (length log). m' (d + of_nat j) = of_int (log ! j))
        \<and> m' (d + of_nat (min (nat n - 1) (length log))) = 0"
proof (cases "output_of sprintputch fmt ap (Out m \<lparr>sbuf = d, ebuf = d + of_int n - 1, scnt = 0\<rparr>)")
  case None
  then show ?thesis
    by (simp add: vsnprintf_core [OF assms])
next
  case (Some log)
  let ?l = "min (nat n - 1) (length log)"
  define m' where "m' = written m d (map of_int (take (nat n - 1) log) @ [0])"
  have u: "unat (of_nat j :: u64) = j" if "j \<le> ?l" for j
    using that assms(2,3) by (intro u64_of_nat) (simp, linarith)
  have "m' a = m a" if "nat n \<le> unat (a - d)" for a
  proof -
    have "\<not> unat (a - d) < Suc ?l"
      using that assms(2) by auto
    then show ?thesis
      by (simp add: m'_def written_def min.commute)
  qed
  moreover have "m' (d + of_nat j) = of_int (log ! j)" if "j < ?l" for j
    using that u [of j] written_at [of "of_nat j" "map of_int (take (nat n - 1) log) @ [0]" m d]
    by (simp add: m'_def nth_append min_def split: if_splits)
  moreover have "m' (d + of_nat ?l) = 0"
    using u [of ?l] written_at [of "of_nat ?l" "map of_int (take (nat n - 1) log) @ [0]" m d]
    by (simp add: m'_def nth_append min.commute)
  ultimately show ?thesis
    using Some vsnprintf_core [OF assms, of m fmt ap] m'_def by auto
qed

theorem vsnprintf_bounds_witness:
  "\<exists>m'. vsnprintf (\<lambda>_. 7) 0x100 4 (Lit ''%d'' 0) [Mem 12345] = Some (m', 5)
    \<and> m' 0x100 = of_char (CHR ''1'') \<and> m' 0x102 = of_char (CHR ''3'') \<and> m' 0x103 = 0 \<and> m' 0x104 = 7"
proof -
  have ds: "decimal 12345 = map of_char ''12345''"
    by (simp add: decimal_def digits.simps word_sless_alt digit_char_def hex_digits_def)
  have "output_of sprintputch (Lit ''%d'' 0) [Mem 12345] (Out (\<lambda>_. 7) \<lparr>sbuf = 0x100, ebuf = 0x100 + of_int 4 - 1, scnt = 0\<rparr>) =
      Some (map of_char ''12345'')"
    by (simp add: output_of_def vprintfmt_d fold_logged) (simp add: ds)
  then obtain m' where m': "vsnprintf (\<lambda>_. 7) 0x100 4 (Lit ''%d'' 0) [Mem 12345] = Some (m', i32 5)"
      "\<forall>a. nat 4 \<le> unat (a - 0x100) \<longrightarrow> m' a = 7"
      "\<forall>j < 3. m' (0x100 + of_nat j) = of_int ((map of_char ''12345'' :: int list) ! j)" "m' (0x100 + of_nat 3) = 0"
    using vsnprintf_bounds [of "0x100" 4 "\<lambda>_. 7" "Lit ''%d'' 0" "[Mem 12345]"] by auto
  show ?thesis
    using m' spec [OF m'(2), of "0x104"] spec [OF m'(3), of 0] spec [OF m'(3), of 2]
    by (intro exI [of _ m']) (simp add: i32_id)
qed

text \<open>
  C26: \<^verbatim>\<open>strtol\<close> reads back every \<^verbatim>\<open>int\<close> that \<^verbatim>\<open>snprintf\<close> printed with \<^verbatim>\<open>%d\<close> into a buffer of at least twelve bytes,
  the smallest number included, and ends at the null byte.
\<close>

theorem snprintf_strtol:
  assumes "d \<noteq> 0" "12 \<le> n" "unat d + nat n \<le> 2 ^ 64"
  shows "\<exists>m' len. snprintf m d n (Lit ''%d'' 0) [Mem w] = Some (m', len)
    \<and> strtol m' d 10 = Some (scast (ucast w :: u32), d + of_int len) \<and> m' (d + of_int len) = 0"
proof -
  let ?ds = "decimal (scast (ucast w :: u32))"
  let ?bs = "map of_int ?ds :: u8 list"
  have l: "length ?bs < 2 ^ 64"
    using decimal_length [of "ucast w"] by simp
  have c: "cstring (written m d (?bs @ [0])) d ?bs"
    using cstring_written [OF l decimal_bytes] .
  have "written m d (?bs @ [0]) (d + of_nat (length ?ds)) = 0"
    using written_at [of "of_nat (length ?ds)" "?bs @ [0]" m d] u64_of_nat [of "length ?ds"] l
    by (simp add: nth_append)
  then show ?thesis
    using snprintf_d [OF assms] strtol_decimal [OF c] by simp
qed

theorem snprintf_strtol_witness:
  "\<exists>m' len. snprintf (\<lambda>_. 1) 0x100 16 (Lit ''%d'' 0) [Mem (- 2147483648)] = Some (m', len)
    \<and> strtol m' 0x100 10 = Some (- 2147483648, 0x100 + of_int len)"
  using snprintf_strtol [of "0x100" 16 "\<lambda>_. 1" "- 2147483648"] by auto

text \<open>
  C27: \<^verbatim>\<open>printnum\<close> returns for every number, every base from 2 to 16 and every width, having put the padding that fills the
  field, then the digits of the number, the most significant one first and without a leading zero.  The padding is the width
  less the number of digits as an \<^verbatim>\<open>int\<close>; it differs from the difference of the integers only for a width within 64
  of the smallest \<^verbatim>\<open>int\<close>.
\<close>

theorem printnum_spec:
  fixes base :: u32
  assumes "2 \<le> unat base" "unat base \<le> 16"
  shows "\<exists>ds. printnum putch num base w pad s =
      Some (fold putch (replicate (nat (i32 (w - int (length ds)))) pad @ map digit_char ds) s)
    \<and> fold (\<lambda>d v. v * unat base + d) ds 0 = unat num \<and> (\<forall>d \<in> set ds. d < unat base)
    \<and> (hd ds = 0 \<longrightarrow> num = 0 \<and> length ds = 1)"
  using printnum_core [OF assms refl] digits_value [of "unat base" "unat num" 0] digits_range [of "unat base"]
    digits_head [OF assms(1), of "unat num"] assms
  by (intro exI [of _ "digits (unat base) (unat num)"]) (auto simp: unat_eq_0)

theorem printnum_spec_witness:
  "\<exists>ds. printnum (\<lambda>c. map_out (Cons c)) 0xBEEF 16 6 0x20 (Out (\<lambda>_. 0) []) =
      Some (fold (\<lambda>c. map_out (Cons c)) (replicate (nat (i32 (6 - int (length ds)))) 0x20 @ map digit_char ds) (Out (\<lambda>_. 0) []))
    \<and> fold (\<lambda>d v. v * 16 + d) ds 0 = 0xBEEF"
  using printnum_spec [of 16 "\<lambda>c. map_out (Cons c)" "0xBEEF" 6 "0x20" "Out (\<lambda>_. 0) []"] by auto

end
