(* ===== verification/Task.thy ===== *)
theory Task
  imports VMA_Paging "HOL-Library.Countable"
begin

text \<open>
  Tasks: \<^verbatim>\<open>include/task.h\<close> and \<^verbatim>\<open>kernel/sched/task.c\<close>.  A task is identified by the heap object that \<^verbatim>\<open>kmalloc\<close>
  returned for its structure, written as one number.  The state holds the heap with the physical memory,
  the registers and page table roots (\<open>vm\<close>), the areas of every task, the structures of the tasks,
  the lists they are linked on, the map of process numbers and the state of the processors.
  Messages on the console are left out.  As in the theories on page tables, \<open>oom\<close> is the
  out-of-memory killer and \<open>None\<close> says that control does not come back to the caller.
\<close>

section \<open>State\<close>

datatype task_type = TASK_TYPE_USER | TASK_TYPE_KERNEL

datatype task_status = TASK_DYING | TASK_RUNNABLE | TASK_RUNNING | TASK_NOT_RUNNABLE

record int_frame =
  ds :: u64
  r15 :: u64
  r14 :: u64
  r13 :: u64
  r12 :: u64
  r11 :: u64
  r10 :: u64
  r9 :: u64
  r8 :: u64
  rdi :: u64
  rsi :: u64
  rbp :: u64
  rbx :: u64
  rdx :: u64
  rcx :: u64
  rax :: u64
  int_no :: u64
  err_code :: u64
  rip :: u64
  cs :: u64
  rflags :: u64
  rsp :: u64
  ss :: u64

definition zero_frame :: int_frame where
  "zero_frame = \<lparr>ds = 0, r15 = 0, r14 = 0, r13 = 0, r12 = 0, r11 = 0, r10 = 0, r9 = 0, r8 = 0, rdi = 0, rsi = 0, rbp = 0,
     rbx = 0, rdx = 0, rcx = 0, rax = 0, int_no = 0, err_code = 0, rip = 0, cs = 0, rflags = 0, rsp = 0, ss = 0\<rparr>"

text \<open>
  \<^verbatim>\<open>task_pml4\<close> and \<^verbatim>\<open>task_rss\<close> are in \<open>vm\<close>, the areas and the lists below; a \<^verbatim>\<open>pid_t\<close> is a signed number of 32 bits.
  \<^verbatim>\<open>task_wait_exit_status\<close> is a user address, 0 for none.
\<close>

record task =
  task_frame :: int_frame
  task_wait :: "nat option"
  task_pid :: int
  task_ppid :: int
  task_type :: task_type
  task_status :: task_status
  task_runs :: u32
  task_exit_status :: u32
  task_cpunum :: nat
  task_wait_exit_status :: u64
  task_time_budget :: u64
  last_time_stamp :: u64

datatype tnode =
    Global_runq           \<comment> \<open>\<^verbatim>\<open>&runq\<close>\<close>
  | Runq nat              \<comment> \<open>\<^verbatim>\<open>&cpus[i].runq\<close>\<close>
  | Nextq nat             \<comment> \<open>\<^verbatim>\<open>&cpus[i].nextq\<close>\<close>
  | Task_children nat
  | Task_child nat
  | Task_zombies nat
  | Task_node nat

datatype cpu_state = CPU_UNUSED | CPU_STARTED | CPU_HALTED

record kern =
  kmemory :: kmem
  regs :: vm
  vareas :: "vma_ptr \<Rightarrow> vma"
  vtree :: "nat \<Rightarrow> vma_ptr rb"
  vlist :: "nat \<Rightarrow> mnode lheap"
  tsk :: "nat \<Rightarrow> task"
  queues :: "tnode lheap"
  tasks :: "int \<Rightarrow> nat option"
  nuser_tasks :: u64
  nkernel_tasks :: u64
  cpu_id :: "nat \<Rightarrow> u8"
  cpu_status :: "nat \<Rightarrow> cpu_state"
  runq_len :: "nat \<Rightarrow> u64"
  runq_lock :: spinlock
  kthread_lock :: spinlock
  kernel_pml4 :: nat
  tsc :: "nat \<Rightarrow> u64"
  tsc_reads :: nat
  reschedule :: bool

text \<open>The address space of one task, as the theories on areas and page tables have it, and back.\<close>

definition mm_of :: "nat \<Rightarrow> kern \<Rightarrow> mm" where
  "mm_of t s = \<lparr>mm_task = t, kheap = kmemory s, machine = regs s, area = vareas s, task_rb = vtree s t, task_mmap = vlist s t\<rparr>"

definition put_mm :: "mm \<Rightarrow> kern \<Rightarrow> kern" where
  "put_mm m s = s\<lparr>kmemory := kheap m, regs := machine m, vareas := area m,
     vtree := (vtree s)(mm_task m := task_rb m), vlist := (vlist s)(mm_task m := task_mmap m)\<rparr>"

definition on_mm :: "nat \<Rightarrow> (mm \<Rightarrow> mm option) \<Rightarrow> kern \<Rightarrow> kern option" where
  "on_mm t f s = map_option (\<lambda>m. put_mm m s) (f (mm_of t s))"

definition kvm :: "kern \<Rightarrow> vm" where
  "kvm s = (regs s)\<lparr>vmem := phys (kmemory s)\<rparr>"

definition put_kvm :: "vm \<Rightarrow> kern \<Rightarrow> kern" where
  "put_kvm v s = s\<lparr>regs := v, kmemory := (kmemory s)\<lparr>phys := vmem v\<rparr>\<rparr>"

definition on_kvm :: "(vm \<Rightarrow> vm option) \<Rightarrow> kern \<Rightarrow> kern option" where
  "on_kvm f s = map_option (\<lambda>v. put_kvm v s) (f (kvm s))"

definition upd_task :: "nat \<Rightarrow> (task \<Rightarrow> task) \<Rightarrow> kern \<Rightarrow> kern" where
  "upd_task t f s = s\<lparr>tsk := (tsk s)(t := f (tsk s t))\<rparr>"

definition upd_frame :: "nat \<Rightarrow> (int_frame \<Rightarrow> int_frame) \<Rightarrow> kern \<Rightarrow> kern" where
  "upd_frame t f = upd_task t (\<lambda>k. k\<lparr>task_frame := f (task_frame k)\<rparr>)"

definition upd_queues :: "(tnode lheap \<Rightarrow> tnode lheap) \<Rightarrow> kern \<Rightarrow> kern" where
  "upd_queues f s = s\<lparr>queues := f (queues s)\<rparr>"

definition this_cpu :: "kern \<Rightarrow> nat" where
  "this_cpu s = cpu (phys (kmemory s))"

definition current :: "kern \<Rightarrow> nat option" where
  "current s = cur_task (regs s)"

definition set_current :: "nat option \<Rightarrow> kern \<Rightarrow> kern" where
  "set_current t s = s\<lparr>regs := (regs s)\<lparr>cur_task := t\<rparr>\<rparr>"

definition set_cr3 :: "u64 \<Rightarrow> kern \<Rightarrow> kern" where
  "set_cr3 pa s = s\<lparr>regs := (regs s)\<lparr>cr3 := pa\<rparr>\<rparr>"

definition pml4_of_task :: "nat \<Rightarrow> kern \<Rightarrow> nat" where
  "pml4_of_task t s = task_pml4 (regs s) t"

definition read_tsc :: "kern \<Rightarrow> u64 \<times> kern" where
  "read_tsc s = (tsc s (tsc_reads s), s\<lparr>tsc_reads := Suc (tsc_reads s)\<rparr>)"

section \<open>Constants\<close>

definition TIMESLICE :: u64 where "TIMESLICE = 100000000"
definition pid_max :: int where "pid_max = 65536"
definition GDT_KCODE :: u64 where "GDT_KCODE = 0x08"
definition GDT_KDATA :: u64 where "GDT_KDATA = 0x10"
definition GDT_UCODE :: u64 where "GDT_UCODE = 0x20"
definition GDT_UDATA :: u64 where "GDT_UDATA = 0x18"
definition FLAGS_IF :: u64 where "FLAGS_IF = push_bit 9 1"
definition PIDMAP_LIM :: u64 where "PIDMAP_LIM = MMIO_BASE"
definition PIDMAP_BASE :: u64 where "PIDMAP_BASE = PIDMAP_LIM - PDPT_SPAN"
definition KSTACK_TOP :: u64 where "KSTACK_TOP = PIDMAP_BASE"
definition USTACK_TOP :: u64 where "USTACK_TOP = USER_LIM - 2 * PAGE_SIZE"

text \<open>\<^verbatim>\<open>sizeof(struct task)\<close>: the frame of 184 bytes, 28 bytes of \<^verbatim>\<open>int\<close>s and their padding, 17 words and the lock of 48 bytes.\<close>

definition SIZEOF_TASK :: u64 where "SIZEOF_TASK = 400"

definition task_of_obj :: "nat \<times> nat \<Rightarrow> nat" where
  "task_of_obj p = prod_encode p"

definition obj_of_task :: "nat \<Rightarrow> nat \<times> nat" where
  "obj_of_task t = prod_decode t"

definition kfree_task :: "nat \<Rightarrow> kern \<Rightarrow> kern option" where
  "kfree_task t s = map_option (\<lambda>k. s\<lparr>kmemory := k\<rparr>) (kfree (Some (obj_of_task t)) (kmemory s))"

section \<open>Process numbers\<close>

text \<open>The check does not exclude negative numbers, for which the read is outside the map.\<close>

definition pid2task :: "int \<Rightarrow> bool \<Rightarrow> kern \<Rightarrow> nat option option" where
  "pid2task pid check_perm s =
     (if pid = 0 then Some (current s)
      else if pid \<ge> pid_max then Some None
      else if pid < 0 then None
      else case tasks s pid of
             None \<Rightarrow> Some None
           | Some t \<Rightarrow>
               if \<not> check_perm then Some (Some t)
               else do { c \<leftarrow> current s;
                         if t \<noteq> c \<and> task_ppid (tsk s t) \<noteq> task_pid (tsk s c) then Some None else Some (Some t) })"

text \<open>The search for a free number from \<open>pid\<close> on; \<^verbatim>\<open>pid_max\<close> when there is none.\<close>

function pid_loop :: "(int \<Rightarrow> nat option) \<Rightarrow> int \<Rightarrow> int" where
  "pid_loop m pid = (if pid < pid_max \<and> m pid \<noteq> None then pid_loop m (pid + 1) else pid)"
  by pat_completeness auto
termination
  by (relation "measure (\<lambda>(m, pid). nat (pid_max - pid))") (auto simp: pid_max_def)

declare pid_loop.simps [simp del]

section \<open>Creating tasks\<close>

text \<open>\<^verbatim>\<open>page_alloc\<close> and the reference for the page table; the upper half is that of the kernel.\<close>

definition task_setup_vas :: "nat \<Rightarrow> kern \<Rightarrow> (int \<times> kern) option" where
  "task_setup_vas t s =
     do { (page, v) \<leftarrow> vm_page_alloc ALLOC_ZERO (kvm s);
          case page of
            None \<Rightarrow> Some (- ENOMEM, put_kvm v s)
          | Some p \<Rightarrow>
              do { let v = incref p v;
                   dst \<leftarrow> KADDR_table (page2pa p) v;
                   let v = v\<lparr>task_pml4 := (task_pml4 v)(t := dst)\<rparr>;
                   let f = frames (vmem v);
                   let half = PAGE_TABLE_ENTRIES div 2;
                   let v = v\<lparr>vmem := (vmem v)\<lparr>frames := f(dst := (\<lambda>i. if half \<le> i \<and> i < PAGE_TABLE_ENTRIES
                                                                     then f (kernel_pml4 s) i else f dst i))\<rparr>\<rparr>;
                   Some (0, put_kvm v s) } }"

definition set_rss :: "nat \<Rightarrow> u64 \<Rightarrow> kern \<Rightarrow> kern" where
  "set_rss t n s = s\<lparr>regs := (regs s)\<lparr>task_rss := (task_rss (regs s))(t := n)\<rparr>\<rparr>"

text \<open>The fields \<^verbatim>\<open>task_alloc\<close> sets at its end.\<close>

definition task_fields :: "int \<Rightarrow> nat \<Rightarrow> u64 \<Rightarrow> task \<Rightarrow> task" where
  "task_fields ppid cpunum now k =
     k\<lparr>task_ppid := ppid, task_type := TASK_TYPE_USER, task_status := TASK_RUNNABLE, task_runs := 0, task_cpunum := cpunum,
       task_frame := zero_frame\<lparr>ds := GDT_UDATA OR 3, ss := GDT_UDATA OR 3, rsp := USTACK_TOP, cs := GDT_UCODE OR 3,
                                rflags := FLAGS_IF OR 0x2\<rparr>,
       task_time_budget := TIMESLICE, last_time_stamp := now\<rparr>"

definition task_alloc :: "int \<Rightarrow> kern \<Rightarrow> (nat option \<times> kern) option" where
  "task_alloc ppid s =
     do { (obj, k) \<leftarrow> kmalloc SIZEOF_TASK (kmemory s);
          let s = s\<lparr>kmemory := k\<rparr>;
          case obj of
            None \<Rightarrow> Some (None, s)
          | Some p \<Rightarrow>
              do { let t = task_of_obj p;
                   let s = set_rss t 0 s;
                   (r, s) \<leftarrow> task_setup_vas t s;
                   if r < 0 then do { s \<leftarrow> kfree_task t s; Some (None, s) }
                   else do {
                     let pid = pid_loop (tasks s) 1;
                     if pid = pid_max then
                       do { s \<leftarrow> on_kvm (\<lambda>v. do { pp \<leftarrow> pa2page (page2pa (pml4_of_task t s)) v; vm_page_decref pp v }) s;
                            s \<leftarrow> kfree_task t s;
                            Some (None, s) }
                     else do {
                       let s = s\<lparr>tasks := (tasks s)(pid := Some t)\<rparr>;
                       let s = upd_task t (\<lambda>k. k\<lparr>task_pid := pid\<rparr>) s;
                       let (now, s) = read_tsc s;
                       Some (Some t, upd_task t (task_fields ppid (this_cpu s) now) s) } } } }"

section \<open>Loading programs\<close>

definition ELF_MAGIC :: u32 where "ELF_MAGIC = 0x464C457F"
definition ELF_PROG_LOAD :: u32 where "ELF_PROG_LOAD = 1"

text \<open>The parts of a binary that the loader reads: the header fields and the table of program headers.\<close>

record elf =
  e_magic :: u32
  e_entry :: u64
  e_phdrs :: "elf_proghdr list"

definition segment_prot :: "elf_proghdr \<Rightarrow> u32" where
  "segment_prot ph =
     (let prot = PROT_READ OR MAP_POPULATE;
          prot = (if p_flags ph AND ELF_PROG_FLAG_WRITE \<noteq> 0 then prot OR PROT_WRITE else prot)
      in if p_flags ph AND ELF_PROG_FLAG_EXEC \<noteq> 0 then prot OR PROT_EXEC else prot)"

definition segment_name :: "elf_proghdr \<Rightarrow> string" where
  "segment_name ph =
     (if p_flags ph AND ELF_PROG_FLAG_EXEC \<noteq> 0 then ''.text''
      else if p_flags ph AND ELF_PROG_FLAG_WRITE \<noteq> 0 then ''.data'' else ''.rodata'')"

fun load_segments :: "u64 \<Rightarrow> elf_proghdr list \<Rightarrow> mm \<Rightarrow> mm option" where
  "load_segments binary [] m = Some m"
| "load_segments binary (ph # phs) m =
     (if p_type ph \<noteq> ELF_PROG_LOAD then load_segments binary phs m
      else if p_memsz ph < p_filesz ph then None
      else do { let diff = p_va ph - ROUNDDOWN (p_va ph) PAGE_SIZE;
                (vma, m) \<leftarrow> add_executable_vma (segment_name ph) (p_va ph - diff)
                  (ROUNDUP (p_va ph + p_memsz ph) PAGE_SIZE - (p_va ph - diff)) (segment_prot ph)
                  (binary + p_offset ph - diff) (p_filesz ph + diff) m;
                load_segments binary phs m })"

definition task_load_elf :: "nat \<Rightarrow> u64 \<Rightarrow> elf \<Rightarrow> kern \<Rightarrow> kern option" where
  "task_load_elf t binary e s =
     do { let s = set_cr3 (page2pa (pml4_of_task t s)) s;
          if e_magic e \<noteq> ELF_MAGIC then None
          else do {
            s \<leftarrow> on_mm t (load_segments binary (e_phdrs e)) s;
            s \<leftarrow> on_mm t (\<lambda>m. map_option snd
                   (add_anonymous_vma ''stack'' (USTACK_TOP - PAGE_SIZE) PAGE_SIZE (PROT_READ OR PROT_WRITE) m)) s;
            let s = set_cr3 (page2pa (kernel_pml4 s)) s;
            Some (upd_frame t (\<lambda>f. f\<lparr>rip := e_entry e\<rparr>) s) } }"

text \<open>\<^verbatim>\<open>rb_init\<close> and \<^verbatim>\<open>list_init\<close> of a new task; \<^verbatim>\<open>task_create\<close> leaves \<^verbatim>\<open>task_child\<close> alone.\<close>

definition init_task_links :: "nat \<Rightarrow> tnode list \<Rightarrow> kern \<Rightarrow> kern" where
  "init_task_links t ns s =
     (let s = s\<lparr>vtree := (vtree s)(t := rb_init (vtree s t)), vlist := (vlist s)(t := list_init Task_mmap (vlist s t))\<rparr>
      in upd_queues (fold list_init ns) s)"

definition task_create :: "u64 \<Rightarrow> elf \<Rightarrow> task_type \<Rightarrow> kern \<Rightarrow> kern option" where
  "task_create binary e type s =
     do { (task, s) \<leftarrow> task_alloc 0 s;
          t \<leftarrow> task;
          let s = init_task_links t [Task_children t, Task_zombies t, Task_node t] s;
          let s = upd_task t (\<lambda>k. k\<lparr>task_wait := None\<rparr>) s;
          s \<leftarrow> task_load_elf t binary e s;
          let s = upd_task t (\<lambda>k. k\<lparr>task_type := type\<rparr>) s;
          let s = (if type = TASK_TYPE_USER then s\<lparr>nuser_tasks := nuser_tasks s + 1\<rparr> else s);
          let s = upd_task t (\<lambda>k. k\<lparr>task_ppid := 0\<rparr>) s;
          let s = s\<lparr>tasks := (tasks s)(task_pid (tsk s t) := Some t)\<rparr>;
          Some (upd_queues (list_add (Runq (this_cpu s)) (Task_node t)) s) }"

section \<open>Kernel threads\<close>

definition set_rank :: "u64 \<Rightarrow> kern \<Rightarrow> kern" where
  "set_rank r s = s\<lparr>kmemory := (kmemory s)\<lparr>phys := (phys (kmemory s))\<lparr>cpu_rank := r\<rparr>\<rparr>\<rparr>"

definition this_rank :: "kern \<Rightarrow> u64" where
  "this_rank s = cpu_rank (phys (kmemory s))"

text \<open>The stack of the kernel thread with the given number, its lowest address.\<close>

definition kthread_stack_top :: "u64 \<Rightarrow> u64" where
  "kthread_stack_top n = KSTACK_TOP + n * PAGE_SIZE"

definition kthread_stack_bottom :: "u64 \<Rightarrow> u64" where
  "kthread_stack_bottom n = kthread_stack_top n - PAGE_SIZE"

definition kthread_create :: "(vm \<Rightarrow> vm option) \<Rightarrow> u64 \<Rightarrow> u64 \<Rightarrow> kern \<Rightarrow> kern option" where
  "kthread_create oom entry arg s =
     do { (l, r) \<leftarrow> spin_lock (this_cpu s) ''task.c'' 421 (this_rank s) (kthread_lock s);
          let s = set_rank r (s\<lparr>kthread_lock := l\<rparr>);
          (obj, k) \<leftarrow> kmalloc SIZEOF_TASK (kmemory s);
          let s = s\<lparr>kmemory := k\<rparr>;
          p \<leftarrow> obj;
          let t = task_of_obj p;
          let s = set_rss t 0 (upd_task t (\<lambda>k. k\<lparr>task_type := TASK_TYPE_KERNEL\<rparr>) s);
          let pid = pid_loop (tasks s) 1;
          if pid = pid_max then None
          else do {
            let s = s\<lparr>tasks := (tasks s)(pid := Some t), nkernel_tasks := nkernel_tasks s + 1\<rparr>;
            let n = nkernel_tasks s + 1;
            let s = s\<lparr>regs := (regs s)\<lparr>task_pml4 := (task_pml4 (regs s))(t := kernel_pml4 s)\<rparr>\<rparr>;
            let s = upd_task t (\<lambda>k. k\<lparr>task_pid := pid, task_type := TASK_TYPE_KERNEL, task_status := TASK_RUNNABLE, task_runs := 0,
                      task_ppid := 0, task_cpunum := this_cpu s, task_exit_status := 0\<rparr>) s;
            let s = init_task_links t [Task_children t, Task_zombies t, Task_node t, Task_child t] s;
            let s = upd_task t (\<lambda>k. k\<lparr>task_wait := None, task_wait_exit_status := 0\<rparr>) s;
            (page, v) \<leftarrow> vm_page_alloc ALLOC_ZERO (kvm s);
            let s = put_kvm v s;
            page \<leftarrow> page;
            s \<leftarrow> on_kvm (\<lambda>v. map_option snd (page_insert oom (kernel_pml4 s) page (kthread_stack_bottom n)
                   (PAGE_PRESENT OR PAGE_WRITE OR PAGE_NO_EXEC) v)) s;
            kva \<leftarrow> KADDR (page2pa page) (kvm s);
            let s = upd_task t (\<lambda>k. k\<lparr>task_frame := zero_frame\<lparr>cs := GDT_KCODE, ss := GDT_KDATA, ds := GDT_KDATA, rflags := 0,
                      rdi := arg, rsp := kthread_stack_top n, rip := entry\<rparr>\<rparr>) s;
            let (now, s) = read_tsc s;
            let s = upd_task t (\<lambda>k. k\<lparr>task_time_budget := TIMESLICE, last_time_stamp := now\<rparr>) s;
            let s = upd_queues (list_add (Runq (this_cpu s)) (Task_node t)) s;
            (l, r) \<leftarrow> spin_unlock (this_cpu s) (this_rank s) (kthread_lock s);
            Some (set_rank r (s\<lparr>kthread_lock := l\<rparr>)) } }"

section \<open>Freeing tasks\<close>

primrec store_bytes :: "u64 \<Rightarrow> u8 list \<Rightarrow> vm \<Rightarrow> vm option" where
  "store_bytes va [] v = Some v"
| "store_bytes va (b # bs) v = do { v \<leftarrow> store_byte va b v; store_bytes (va + 1) bs v }"

text \<open>The store of an \<^verbatim>\<open>int\<close> through a pointer, in the current address space; an address that is not mapped faults.\<close>

definition store_int :: "u64 \<Rightarrow> u32 \<Rightarrow> vm \<Rightarrow> vm option" where
  "store_int va w = store_bytes va [ucast w, ucast (drop_bit 8 w), ucast (drop_bit 16 w), ucast (drop_bit 24 w)]"

text \<open>What \<^verbatim>\<open>task_free\<close> does with a parent \<open>p\<close> that waits for the task.\<close>

definition wake_parent :: "nat \<Rightarrow> nat \<Rightarrow> kern \<Rightarrow> kern option" where
  "wake_parent t p s =
     do { s \<leftarrow> (if task_wait_exit_status (tsk s p) \<noteq> 0 then
                  do { old \<leftarrow> KADDR (cr3 (regs s)) (kvm s);
                       let s = set_cr3 (page2pa (pml4_of_task p s)) s;
                       s \<leftarrow> on_kvm (store_int (task_wait_exit_status (tsk s p)) (task_exit_status (tsk s t))) s;
                       Some (set_cr3 (old - KERNEL_VMA) s) }
                else Some s);
          let s = upd_frame p (\<lambda>f. f\<lparr>rax := of_int (task_pid (tsk s t))\<rparr>) s;
          let s = upd_task p (\<lambda>k. k\<lparr>task_status := TASK_RUNNABLE\<rparr>) s;
          let s = upd_queues (list_del (Task_child t)) s;
          Some (upd_queues (list_add (Runq (this_cpu s)) (Task_node p)) s) }"

text \<open>\<open>True\<close> says that the task has become a zombie and \<^verbatim>\<open>task_free\<close> returns.\<close>

definition free_begin :: "nat \<Rightarrow> kern \<Rightarrow> (bool \<times> kern) option" where
  "free_begin t s =
     do { let s = upd_task t (\<lambda>k. k\<lparr>task_status := TASK_DYING\<rparr>) s;
          let s = (if current s = Some t then set_cr3 (page2pa (kernel_pml4 s)) s else s);
          if task_ppid (tsk s t) = 0 then Some (False, s)
          else do {
            parent \<leftarrow> pid2task (task_ppid (tsk s t)) False s;
            case parent of
              None \<Rightarrow> Some (False, s)
            | Some p \<Rightarrow>
                if task_status (tsk s p) = TASK_NOT_RUNNABLE \<and> (task_wait (tsk s p) = None \<or> task_wait (tsk s p) = Some t)
                then do { s \<leftarrow> wake_parent t p s; Some (False, s) }
                else if current s = Some t then
                  (let s = upd_queues (list_del (Task_node t)) s;
                       s = upd_queues (list_del (Task_child t)) s;
                       s = upd_queues (list_add_tail (Task_zombies p) (Task_node t)) s
                   in Some (True, s))
                else Some (False, s) } }"

partial_function (option) orphan_children :: "nat \<Rightarrow> tnode \<Rightarrow> tnode \<Rightarrow> kern \<Rightarrow> kern option" where
  "orphan_children t node nxt s =
     (if node = Task_children t then Some s
      else case node of
             Task_child c \<Rightarrow>
               (let s = upd_queues (list_del (Task_child c)) s;
                    s = upd_queues (list_init (Task_child c)) s;
                    s = upd_task c (\<lambda>k. k\<lparr>task_ppid := 0\<rparr>) s
                in orphan_children t nxt (lnext (queues s) nxt) s)
           | _ \<Rightarrow> None)"

definition free_end :: "(vm \<Rightarrow> vm option) \<Rightarrow> nat \<Rightarrow> kern \<Rightarrow> kern option" where
  "free_end oom t s =
     do { let s = upd_queues (list_del (Task_node t)) s;
          let s = s\<lparr>tasks := (tasks s)(task_pid (tsk s t) := None)\<rparr>;
          let s = (if task_type (tsk s t) = TASK_TYPE_USER then s\<lparr>nuser_tasks := nuser_tasks s - 1\<rparr> else s);
          s \<leftarrow> on_mm t free_vmas s;
          s \<leftarrow> on_kvm (unmap_user_pages oom (pml4_of_task t s)) s;
          s \<leftarrow> on_kvm (\<lambda>v. do { pp \<leftarrow> pa2page (page2pa (pml4_of_task t s)) v; vm_page_decref pp v }) s;
          kfree_task t s }"

text \<open>\<^verbatim>\<open>task_free\<close> and its loop over the zombies call each other: \<open>Zombies\<close> is the loop with its two cursors.\<close>

datatype free_call = Free nat | Zombies nat tnode tnode

partial_function (option) do_free :: "(vm \<Rightarrow> vm option) \<Rightarrow> free_call \<Rightarrow> kern \<Rightarrow> kern option" where
  "do_free oom c s =
     (case c of
        Free t \<Rightarrow>
          do { (zombie, s) \<leftarrow> free_begin t s;
               if zombie then Some s
               else do {
                 let node = lnext (queues s) (Task_children t);
                 s \<leftarrow> orphan_children t node (lnext (queues s) node) s;
                 let node = lnext (queues s) (Task_zombies t);
                 s \<leftarrow> do_free oom (Zombies t node (lnext (queues s) node)) s;
                 free_end oom t s } }
      | Zombies t node nxt \<Rightarrow>
          if node = Task_zombies t then Some s
          else (case node of
                  Task_node z \<Rightarrow>
                    do { let s = upd_queues (list_del (Task_node z)) s;
                         let s = upd_task z (\<lambda>k. k\<lparr>task_ppid := 0\<rparr>) s;
                         s \<leftarrow> do_free oom (Free z) s;
                         do_free oom (Zombies t nxt (lnext (queues s) nxt)) s }
                | _ \<Rightarrow> None))"

definition task_free :: "(vm \<Rightarrow> vm option) \<Rightarrow> nat \<Rightarrow> kern \<Rightarrow> kern option" where
  "task_free oom t s = do_free oom (Free t) s"

section \<open>Running tasks\<close>

text \<open>
  Where control goes when the kernel does not return to the caller: to the code of the current task,
  with the registers of its frame, or to \<^verbatim>\<open>halt_kernel\<close>.
\<close>

datatype leave = To_task kern | Halted kern

definition task_run :: "nat \<Rightarrow> kern \<Rightarrow> leave" where
  "task_run t s =
     (let s = set_current (Some t) s;
          s = upd_task t (\<lambda>k. k\<lparr>task_status := TASK_RUNNING, task_runs := task_runs k + 1\<rparr>) s
      in To_task (set_cr3 (page2pa (pml4_of_task t s)) s))"

declare orphan_children.simps [code] do_free.simps [code] pid_loop.simps [code]

end
