(* ===== verification/Sched.thy ===== *)
theory Sched
  imports Task
begin

text \<open>
  The scheduler, \<^verbatim>\<open>kernel/sched/sched.c\<close>, the functions of \<^verbatim>\<open>task.c\<close> that call it, \<^verbatim>\<open>fork.c\<close> and \<^verbatim>\<open>wait.c\<close>.
  \<^verbatim>\<open>sched_yield\<close> never returns: its result is where control goes.  The model runs one processor at a time;
  a loop that could only be ended by another processor has no result.
\<close>

section \<open>sched.c\<close>

definition sched_init :: "kern \<Rightarrow> kern" where
  "sched_init s =
     (let s = upd_queues (list_init Global_runq) s;
          s = upd_queues (list_init (Runq (this_cpu s))) s;
          s = upd_queues (list_init (Nextq (this_cpu s))) s
      in s\<lparr>runq_len := (runq_len s)(this_cpu s := 0)\<rparr>)"

definition sched_init_mp :: "kern \<Rightarrow> kern" where
  "sched_init_mp s =
     (let s = set_current None s;
          s = upd_queues (list_init (Runq (this_cpu s))) s;
          s = upd_queues (list_init (Nextq (this_cpu s))) s
      in s\<lparr>runq_len := (runq_len s)(this_cpu s := 0)\<rparr>)"

definition upd_len :: "(u64 \<Rightarrow> u64) \<Rightarrow> kern \<Rightarrow> kern" where
  "upd_len f s = s\<lparr>runq_len := (runq_len s)(this_cpu s := f (runq_len s (this_cpu s)))\<rparr>"

text \<open>The current task, when it is running, goes to the front of \<^verbatim>\<open>nextq\<close>.\<close>

definition preempt :: "kern \<Rightarrow> kern" where
  "preempt s =
     (case current s of
        None \<Rightarrow> s
      | Some t \<Rightarrow>
          if task_status (tsk s t) \<noteq> TASK_RUNNING then s
          else
            (let (now, s) = read_tsc s;
                 used = now - last_time_stamp (tsk s t);
                 s = upd_task t (\<lambda>k. k\<lparr>last_time_stamp := now, task_time_budget := task_time_budget k - used,
                                       task_status := TASK_RUNNABLE\<rparr>) s;
                 s = (if task_cpunum (tsk s t) = unat (cpu_id s (this_cpu s)) \<and> runq_len s (this_cpu s) > 0
                      then upd_len (\<lambda>n. n - 1) s else s);
                 s = upd_queues (list_add (Nextq (this_cpu s)) (Task_node t)) s
             in set_current None s))"

text \<open>The two checks that halt the processor.\<close>

definition halt_check :: "kern \<Rightarrow> kern option" where
  "halt_check s =
     (if cpu_id s (this_cpu s) = 0 \<and> nuser_tasks s = 0 then Some (s\<lparr>cpu_status := (cpu_status s)(0 := CPU_HALTED)\<rparr>)
      else if cpu_id s (this_cpu s) \<noteq> 0 \<and> cpu_status s 0 = CPU_HALTED
      then Some (s\<lparr>cpu_status := (cpu_status s)(this_cpu s := CPU_HALTED)\<rparr>)
      else None)"

text \<open>The last runnable task of the run queue, with the tasks after it taken off the queue.\<close>

partial_function (option) next_task :: "kern \<Rightarrow> (nat option \<times> kern) option" where
  "next_task s =
     (if list_is_empty (queues s) (Runq (this_cpu s)) then Some (None, s)
      else case list_pop_tail (Runq (this_cpu s)) (queues s) of
             (Some (Task_node t), q) \<Rightarrow>
               (let s = s\<lparr>queues := q\<rparr>
                in if task_status (tsk s t) \<noteq> TASK_RUNNABLE then next_task s else Some (Some t, s))
           | _ \<Rightarrow> None)"

definition dispatch :: "nat \<Rightarrow> kern \<Rightarrow> leave" where
  "dispatch t s =
     (let s = upd_task t (\<lambda>k. k\<lparr>task_cpunum := unat (cpu_id s (this_cpu s))\<rparr>) s;
          s = upd_len (\<lambda>n. n + 1) s;
          (now, s) = read_tsc s;
          s = upd_task t (\<lambda>k. k\<lparr>last_time_stamp := now,
                task_time_budget := (if task_time_budget k \<le>s 0 then TIMESLICE else task_time_budget k)\<rparr>) s
      in task_run t s)"

definition release_runq :: "kern \<Rightarrow> kern option" where
  "release_runq s =
     (if spin_haslock (this_cpu s) (runq_lock s)
      then do { (l, r) \<leftarrow> spin_unlock (this_cpu s) (this_rank s) (runq_lock s); Some (set_rank r (s\<lparr>runq_lock := l\<rparr>)) }
      else Some s)"

definition trylock_runq :: "kern \<Rightarrow> (nat \<times> kern) option" where
  "trylock_runq s =
     do { (got, l, r) \<leftarrow> spin_trylock (this_cpu s) ''sched.c'' 116 (this_rank s) (runq_lock s);
          Some (got, set_rank r (s\<lparr>runq_lock := l\<rparr>)) }"

definition move_tail :: "tnode \<Rightarrow> tnode \<Rightarrow> kern \<Rightarrow> kern option" where
  "move_tail from to s =
     (case list_pop_tail from (queues s) of
        (Some n, q) \<Rightarrow> Some (s\<lparr>queues := list_add to n q\<rparr>)
      | (None, q) \<Rightarrow> None)"

primrec migrate :: "nat \<Rightarrow> kern \<Rightarrow> kern option" where
  "migrate 0 s = Some s"
| "migrate (Suc n) s =
     (if list_is_empty (queues s) (Nextq (this_cpu s)) then Some s
      else do { s \<leftarrow> move_tail (Nextq (this_cpu s)) Global_runq s; migrate n (upd_len (\<lambda>n. n - 1) s) })"

text \<open>The exchange of tasks with the global queue, in the branch taken when the lock was \<^emph>\<open>not\<close> obtained.\<close>

definition exchange :: "kern \<Rightarrow> kern option" where
  "exchange s =
     (if list_is_empty (queues s) Global_runq \<and> runq_len s (this_cpu s) > 0
      then migrate (unat (runq_len s (this_cpu s) div 2)) s
      else if \<not> list_is_empty (queues s) Global_runq then move_tail Global_runq (Runq (this_cpu s)) s
      else Some s)"

partial_function (option) refill :: "u64 \<Rightarrow> kern \<Rightarrow> kern option" where
  "refill moved s =
     (if list_is_empty (queues s) (Nextq (this_cpu s)) then Some (upd_len (\<lambda>n. moved) s)
      else do { s \<leftarrow> move_tail (Nextq (this_cpu s)) (Runq (this_cpu s)) s; refill (moved + 1) s })"

partial_function (option) sched_yield :: "kern \<Rightarrow> leave option" where
  "sched_yield s =
     (let s = preempt s in
      case halt_check s of
        Some s \<Rightarrow> Some (Halted s)
      | None \<Rightarrow>
          do { (t, s) \<leftarrow> next_task s;
               case t of
                 Some t \<Rightarrow> Some (dispatch t s)
               | None \<Rightarrow>
                   do { s \<leftarrow> release_runq s;
                        (got, s) \<leftarrow> trylock_runq s;
                        if got = 0 then do { s \<leftarrow> exchange s; s \<leftarrow> release_runq s; sched_yield s }
                        else if \<not> list_is_empty (queues s) (Nextq (this_cpu s))
                        then do { s \<leftarrow> refill 0 s; sched_yield s }
                        else case halt_check s of
                               Some s \<Rightarrow> Some (Halted s)
                             | None \<Rightarrow> sched_yield s } })"

declare next_task.simps [code] refill.simps [code] sched_yield.simps [code]

section \<open>Destroying tasks\<close>

text \<open>A call that may come back: \<open>Inl\<close> with the result and the state, \<open>Inr\<close> with where control goes instead.\<close>

type_synonym 'a call = "('a \<times> kern) + leave"

definition task_destroy :: "(vm \<Rightarrow> vm option) \<Rightarrow> nat \<Rightarrow> kern \<Rightarrow> leave option" where
  "task_destroy oom t s =
     do { s \<leftarrow> task_free oom t s;
          sched_yield (if current s = Some t then set_current None s else s) }"

text \<open>
  The search for the task with the most resident pages.  The variable \<^verbatim>\<open>oom_killing_candidate\<close> has no initial value:
  \<open>cand\<close> is what it holds.
\<close>

function oom_scan :: "kern \<Rightarrow> int \<Rightarrow> u64 \<Rightarrow> nat option \<Rightarrow> nat option" where
  "oom_scan s pid max_rss cand =
     (if pid < pid_max then
        (case tasks s pid of
           None \<Rightarrow> oom_scan s (pid + 1) max_rss cand
         | Some t \<Rightarrow>
             if task_status (tsk s t) = TASK_DYING \<or> task_type (tsk s t) = TASK_TYPE_KERNEL
             then oom_scan s (pid + 1) max_rss cand
             else if max_rss < task_rss (regs s) t then oom_scan s (pid + 1) (task_rss (regs s) t) (Some t)
             else oom_scan s (pid + 1) max_rss cand)
      else cand)"
  by pat_completeness auto
termination
  by (relation "measure (\<lambda>(s, pid, m, c). nat (pid_max - pid))") (auto simp: pid_max_def)

declare oom_scan.simps [simp del]

definition oom_kill_task :: "(vm \<Rightarrow> vm option) \<Rightarrow> nat option \<Rightarrow> kern \<Rightarrow> leave option" where
  "oom_kill_task oom uninit s =
     (case oom_scan s 1 0 uninit of
        Some t \<Rightarrow> task_destroy oom t s
      | None \<Rightarrow>
          do { c \<leftarrow> current s; if task_pid (tsk s c) \<noteq> 0 then task_destroy oom c s else None })"

text \<open>\<^verbatim>\<open>assert_user_mem\<close> of the current task, with the way out when the check fails.\<close>

definition user_mem_or_die :: "(vm \<Rightarrow> vm option) \<Rightarrow> nat \<Rightarrow> u64 \<Rightarrow> u64 \<Rightarrow> u32 \<Rightarrow> kern \<Rightarrow> unit call option" where
  "user_mem_or_die oom t va sz flags s =
     do { (ret, fault) \<leftarrow> check_user_vma_range va sz flags (mm_of t s);
          if ret < 0 then map_option Inr (task_destroy oom t s) else Some (Inl ((), s)) }"

section \<open>wait.c\<close>

definition ECHILD :: int where "ECHILD = 2"

text \<open>The current task goes to sleep; control does not come back to the call.\<close>

definition sleep :: "nat \<Rightarrow> nat option \<Rightarrow> u64 \<Rightarrow> kern \<Rightarrow> leave option" where
  "sleep c cld rstatus s =
     (let s = upd_task c (\<lambda>k. k\<lparr>task_wait := cld, task_status := TASK_NOT_RUNNABLE, task_wait_exit_status := rstatus\<rparr>) s
      in sched_yield (set_current None s))"

definition reap :: "(vm \<Rightarrow> vm option) \<Rightarrow> nat \<Rightarrow> u64 \<Rightarrow> kern \<Rightarrow> kern option" where
  "reap oom z rstatus s =
     do { s \<leftarrow> (if rstatus \<noteq> 0 then on_kvm (store_int rstatus (task_exit_status (tsk s z))) s else Some s);
          let s = upd_queues (list_del (Task_node z)) s;
          task_free oom z s }"

definition sys_wait :: "(vm \<Rightarrow> vm option) \<Rightarrow> u64 \<Rightarrow> kern \<Rightarrow> int call option" where
  "sys_wait oom rstatus s =
     do { c \<leftarrow> current s;
          if list_is_empty (queues s) (Task_children c) \<and> list_is_empty (queues s) (Task_zombies c)
          then Some (Inl (- ECHILD, s))
          else (case lnext (queues s) (Task_zombies c) of
                  Task_node z \<Rightarrow>
                    do { let pid = task_pid (tsk s z); s \<leftarrow> reap oom z rstatus s; Some (Inl (pid, s)) }
                | node \<Rightarrow>
                    if node = Task_zombies c then map_option Inr (sleep c None rstatus s) else None) }"

text \<open>
  The loop over the zombies assigns every one to the variable \<^verbatim>\<open>child\<close>: \<open>Inl\<close> is the zombie found, \<open>Inr\<close> the value of
  \<^verbatim>\<open>child\<close> after the loop.
\<close>

fun find_zombie :: "(nat \<Rightarrow> task) \<Rightarrow> int \<Rightarrow> tnode list \<Rightarrow> nat \<Rightarrow> (nat + nat) option" where
  "find_zombie k pid [] cld = Some (Inr cld)"
| "find_zombie k pid (Task_node z # ns) cld =
     (if task_pid (k z) = pid then Some (Inl z) else find_zombie k pid ns z)"
| "find_zombie k pid (n # ns) cld = None"

definition sys_waitpid :: "(vm \<Rightarrow> vm option) \<Rightarrow> int \<Rightarrow> u64 \<Rightarrow> int \<Rightarrow> kern \<Rightarrow> int call option" where
  "sys_waitpid oom pid rstatus opts s =
     do { c \<leftarrow> current s;
          if list_is_empty (queues s) (Task_children c) \<and> list_is_empty (queues s) (Task_zombies c)
          then Some (Inl (- ECHILD, s))
          else if pid = - 1 \<or> pid = 0 then sys_wait oom rstatus s
          else do {
            cld \<leftarrow> pid2task pid True s;
            case cld of
              None \<Rightarrow> Some (Inl (- ECHILD, s))
            | Some cld \<Rightarrow>
                if cld = c then Some (Inl (- ECHILD, s))
                else do {
                  ns \<leftarrow> list_foreach (queues s) (Task_zombies c);
                  r \<leftarrow> find_zombie (tsk s) pid ns cld;
                  case r of
                    Inl z \<Rightarrow> do { s \<leftarrow> reap oom z rstatus s; Some (Inl (pid, s)) }
                  | Inr cld \<Rightarrow> map_option Inr (sleep c (Some cld) rstatus s) } } }"

section \<open>fork.c\<close>

text \<open>The pages of one area, shared without write permission with the child.\<close>

partial_function (option) clone_pages :: "(vm \<Rightarrow> vm option) \<Rightarrow> nat \<Rightarrow> nat \<Rightarrow> u64 \<Rightarrow> u64 \<Rightarrow> vm \<Rightarrow> vm option" where
  "clone_pages oom pml4 child_pml4 va en v =
     (if \<not> va < en then Some v
      else do { (page, entry, v) \<leftarrow> page_lookup pml4 va v;
                v \<leftarrow> (case (page, entry) of
                       (Some p, Some e) \<Rightarrow>
                         do { let v = set_entry e (get_entry e v AND NOT PAGE_WRITE) v;
                              v \<leftarrow> tlb_invalidate (table_kva pml4) va v;
                              (r, v) \<leftarrow> page_insert oom child_pml4 p va (get_entry e v AND PAGE_UMASK) v;
                              Some v }
                     | _ \<Rightarrow> Some v);
                clone_pages oom pml4 child_pml4 (va + PAGE_SIZE) en v })"

definition clone_area :: "(vm \<Rightarrow> vm option) \<Rightarrow> nat \<Rightarrow> nat \<Rightarrow> vma_ptr \<Rightarrow> kern \<Rightarrow> kern option" where
  "clone_area oom t cld v s =
     do { let a = vareas s v;
          (vma, m) \<leftarrow> add_vma (vm_name a) (vm_base a) (vm_end a - vm_base a) (vm_flags a) (mm_of cld s);
          let s = put_mm m s;
          w \<leftarrow> vma;
          let s = s\<lparr>vareas := (vareas s)(w := (vareas s w)\<lparr>vm_src := vm_src (vareas s v), vm_len := vm_len (vareas s v)\<rparr>)\<rparr>;
          on_kvm (clone_pages oom (pml4_of_task t s) (pml4_of_task cld s) (vm_base (vareas s v)) (vm_end (vareas s v))) s }"

fun clone_areas :: "(vm \<Rightarrow> vm option) \<Rightarrow> nat \<Rightarrow> nat \<Rightarrow> mnode list \<Rightarrow> kern \<Rightarrow> kern option" where
  "clone_areas oom t cld [] s = Some s"
| "clone_areas oom t cld (Vm_mmap v # ns) s = do { s \<leftarrow> clone_area oom t cld v s; clone_areas oom t cld ns s }"
| "clone_areas oom t cld (Task_mmap # ns) s = None"

definition task_clone :: "(vm \<Rightarrow> vm option) \<Rightarrow> nat \<Rightarrow> kern \<Rightarrow> (nat option \<times> kern) option" where
  "task_clone oom t s =
     do { (cld, s) \<leftarrow> task_alloc (task_pid (tsk s t)) s;
          case cld of
            None \<Rightarrow> Some (None, s)
          | Some cld \<Rightarrow>
              do { let s = upd_task cld (\<lambda>k. k\<lparr>task_frame := task_frame (tsk s t)\<rparr>) s;
                   let s = init_task_links cld [Task_children cld, Task_zombies cld, Task_node cld, Task_child cld] s;
                   ns \<leftarrow> list_foreach (vlist s t) Task_mmap;
                   s \<leftarrow> clone_areas oom t cld ns s;
                   let s = (if task_type (tsk s cld) = TASK_TYPE_USER then s\<lparr>nuser_tasks := nuser_tasks s + 1\<rparr> else s);
                   let s = upd_frame cld (\<lambda>f. f\<lparr>rax := 0\<rparr>) s;
                   let s = upd_frame t (\<lambda>f. f\<lparr>rax := of_int (task_pid (tsk s cld))\<rparr>) s;
                   let s = upd_queues (list_add (Runq (this_cpu s)) (Task_node cld)) s;
                   let s = upd_queues (list_add (Task_children t) (Task_child cld)) s;
                   Some (Some cld, s) } }"

definition sys_fork :: "(vm \<Rightarrow> vm option) \<Rightarrow> kern \<Rightarrow> (int \<times> kern) option" where
  "sys_fork oom s =
     do { c \<leftarrow> current s;
          (cld, s) \<leftarrow> task_clone oom c s;
          case cld of
            Some t \<Rightarrow> Some (task_pid (tsk s t), s)
          | None \<Rightarrow> Some (- 1, s) }"

declare oom_scan.simps [code] clone_pages.simps [code]

end
