(* ===== verification/Trap.thy ===== *)
theory Trap
  imports Sched
begin

text \<open>
  The ways into the kernel: the system calls of \<^verbatim>\<open>kernel/sched/syscall.c\<close>, the interrupts of \<^verbatim>\<open>kernel/sched/idt.c\<close> with the
  descriptors of \<^verbatim>\<open>include/x86-64/idt.h\<close> and \<^verbatim>\<open>include/x86-64/gdt.h\<close>.  The value of \<^verbatim>\<open>CR2\<close>, the flags register, the
  character that \<^verbatim>\<open>cons_getc\<close> returns and the kernel monitor are arguments.
\<close>

section \<open>System calls\<close>

definition ENOSYS :: int where "ENOSYS = 7"
definition NSYSCALLS :: u64 where "NSYSCALLS = 15"

definition sys_cputs :: "(vm \<Rightarrow> vm option) \<Rightarrow> u64 \<Rightarrow> u64 \<Rightarrow> kern \<Rightarrow> unit call option" where
  "sys_cputs oom a len s = do { c \<leftarrow> current s; user_mem_or_die oom c a len PROT_READ s }"

definition sys_getpid :: "kern \<Rightarrow> int option" where
  "sys_getpid s = do { c \<leftarrow> current s; Some (task_pid (tsk s c)) }"

definition sys_kill :: "int \<Rightarrow> kern \<Rightarrow> (int \<times> kern) option" where
  "sys_kill pid s =
     do { task \<leftarrow> pid2task pid True s;
          case task of
            None \<Rightarrow> Some (- 1, s)
          | Some t \<Rightarrow>
              do { let s = upd_task t (\<lambda>k. k\<lparr>task_status := TASK_DYING\<rparr>) s;
                   parent \<leftarrow> pid2task (task_ppid (tsk s t)) False s;
                   case parent of
                     None \<Rightarrow> Some (0, s)
                   | Some p \<Rightarrow>
                       (let s = upd_queues (list_del (Task_node t)) s;
                            s = upd_queues (list_del (Task_child t)) s;
                            s = upd_queues (list_add_tail (Task_zombies p) (Task_node t)) s
                        in Some (0, s)) } }"

definition sys_exit :: "(vm \<Rightarrow> vm option) \<Rightarrow> u32 \<Rightarrow> kern \<Rightarrow> int call option" where
  "sys_exit oom rcode s =
     (case current s of
        None \<Rightarrow> Some (Inl (- 1, s))
      | Some t \<Rightarrow>
          (let s = upd_task t (\<lambda>k. k\<lparr>task_exit_status := rcode, task_status := TASK_DYING\<rparr>) s
           in map_option Inr (task_destroy oom t s)))"

definition sys_getcpuid :: "kern \<Rightarrow> int" where
  "sys_getcpuid s = int (unat (cpu_id s (this_cpu s)))"

text \<open>The result of a call on the areas of the current task.\<close>

definition on_cur :: "(mm \<Rightarrow> (u64 \<times> mm) option) \<Rightarrow> kern \<Rightarrow> u64 call option" where
  "on_cur f s = do { c \<leftarrow> current s; (r, m) \<leftarrow> f (mm_of c s); Some (Inl (r, put_mm m s)) }"

definition ret_int :: "int call option \<Rightarrow> u64 call option" where
  "ret_int = map_option (map_sum (map_prod of_int id) id)"

definition syscall :: "(vm \<Rightarrow> vm option) \<Rightarrow> int \<Rightarrow> u64 \<Rightarrow> u64 \<Rightarrow> u64 \<Rightarrow> u64 \<Rightarrow> u64 \<Rightarrow> u64 \<Rightarrow> u64 \<Rightarrow> kern \<Rightarrow> u64 call option" where
  "syscall oom getc syscallno a1 a2 a3 a4 a5 a6 s =
     (if (ucast syscallno :: u32) \<ge> ucast NSYSCALLS then Some (Inl (of_int (- ENOSYS), s))
      else if syscallno = 0 then map_option (map_sum (map_prod (\<lambda>u. 0) id) id) (sys_cputs oom a1 a2 s)
      else if syscallno = 1 then Some (Inl (of_int getc, s))
      else if syscallno = 2 then do { pid \<leftarrow> sys_getpid s; Some (Inl (of_int pid, s)) }
      else if syscallno = 3 then do { (r, s) \<leftarrow> sys_kill (sint (ucast a1 :: u32)) s; Some (Inl (of_int r, s)) }
      else if syscallno = 4 then ret_int (sys_exit oom (ucast a1) s)
      else if syscallno = 5 then
        on_cur (\<lambda>m. do { (r, info, m) \<leftarrow> sys_mquery a1 a2 m; Some (of_int r, m) }) s
      else if syscallno = 6 then on_cur (sys_mmap oom a1 a2 (ucast a3) (ucast a4)) s
      else if syscallno = 7 then on_cur (\<lambda>m. do { m \<leftarrow> sys_munmap oom a1 a2 m; Some (0, m) }) s
      else if syscallno = 8 then on_cur (\<lambda>m. do { (r, m) \<leftarrow> sys_mprotect oom a1 a2 (ucast a3) m; Some (of_int r, m) }) s
      else if syscallno = 9 then on_cur (\<lambda>m. do { (r, m) \<leftarrow> sys_madvise oom a1 a2 (ucast a3) m; Some (of_int r, m) }) s
      else if syscallno = 10 then map_option Inr (sched_yield s)
      else if syscallno = 11 then ret_int (sys_wait oom a1 s)
      else if syscallno = 12 then ret_int (sys_waitpid oom (sint (ucast a1 :: u32)) a2 (sint (ucast a3 :: u32)) s)
      else if syscallno = 13 then do { (r, s) \<leftarrow> sys_fork oom s; Some (Inl (of_int r, s)) }
      else if syscallno = 14 then Some (Inl (of_int (sys_getcpuid s), s))
      else Some (Inl (of_int (- ENOSYS), s)))"

section \<open>Interrupts\<close>

definition INT_DIVIDE :: u64 where "INT_DIVIDE = 0"
definition INT_BREAK :: u64 where "INT_BREAK = 3"
definition INT_GPF :: u64 where "INT_GPF = 13"
definition INT_PAGE_FAULT :: u64 where "INT_PAGE_FAULT = 14"
definition IRQ_TIMER :: u64 where "IRQ_TIMER = 32"
definition INT_PANIC :: u64 where "INT_PANIC = 127"
definition INT_SYSCALL :: u64 where "INT_SYSCALL = 128"
definition PF_WRITE :: u64 where "PF_WRITE = push_bit 1 1"
definition PF_IFETCH :: u64 where "PF_IFETCH = push_bit 4 1"

text \<open>The body of \<^verbatim>\<open>gpf_handler\<close> and of \<^verbatim>\<open>divide_handler\<close>, which is also the end of the other fatal faults.\<close>

definition gpf_handler :: "(vm \<Rightarrow> vm option) \<Rightarrow> kern \<Rightarrow> unit call option" where
  "gpf_handler oom s = do { c \<leftarrow> current s; map_option Inr (task_destroy oom c s) }"

definition divide_handler :: "(vm \<Rightarrow> vm option) \<Rightarrow> kern \<Rightarrow> unit call option" where
  "divide_handler oom s = do { c \<leftarrow> current s; map_option Inr (task_destroy oom c s) }"

definition irq_handler :: "kern \<Rightarrow> kern" where
  "irq_handler s =
     (let (now, s) = read_tsc s in
      case current s of
        None \<Rightarrow> s
      | Some t \<Rightarrow>
          (let used = now - last_time_stamp (tsk s t);
               s = upd_task t (\<lambda>k. k\<lparr>last_time_stamp := now,
                     task_time_budget := (if 0 <s task_time_budget k then task_time_budget k - used else task_time_budget k)\<rparr>) s
           in if task_time_budget (tsk s t) \<le>s 0 then s\<lparr>reschedule := True\<rparr> else s))"

definition fault_perm :: "u64 \<Rightarrow> u32" where
  "fault_perm err =
     (let p = 0;
          p = (if err AND 1 \<noteq> 0 then p OR PROT_READ else p);
          p = (if err AND PF_WRITE \<noteq> 0 then p OR PROT_WRITE else p)
      in if err AND PF_IFETCH \<noteq> 0 then p OR PROT_EXEC else p)"

definition page_fault_handler :: "(vm \<Rightarrow> vm option) \<Rightarrow> u64 \<Rightarrow> int_frame \<Rightarrow> kern \<Rightarrow> unit call option" where
  "page_fault_handler oom fault_va frame s =
     do { c \<leftarrow> current s;
          (ret, m) \<leftarrow> task_page_fault_handler oom fault_va (fault_perm (err_code frame)) (mm_of c s);
          let s = put_mm m s;
          if ret = 0 then Some (Inl ((), s))
          else if cs frame = GDT_KCODE then None
          else map_option Inr (task_destroy oom c s) }"

text \<open>\<^verbatim>\<open>frame->rax = ret\<close>, for a frame in the structure of a task; another frame is not used again.\<close>

definition set_result :: "nat option \<Rightarrow> u64 \<Rightarrow> kern \<Rightarrow> kern" where
  "set_result owner r s = (case owner of None \<Rightarrow> s | Some t \<Rightarrow> upd_frame t (\<lambda>f. f\<lparr>rax := r\<rparr>) s)"

definition int_dispatch :: "(vm \<Rightarrow> vm option) \<Rightarrow> (kern \<Rightarrow> kern option) \<Rightarrow> int \<Rightarrow> u64 \<Rightarrow> nat option \<Rightarrow> int_frame \<Rightarrow> kern
    \<Rightarrow> unit call option" where
  "int_dispatch oom monitor getc cr2 owner frame s =
     (if int_no frame = INT_BREAK then do { s \<leftarrow> monitor s; Some (Inl ((), s)) }
      else if int_no frame = INT_PANIC then Some (Inr (Halted s))
      else if int_no frame = INT_PAGE_FAULT then page_fault_handler oom cr2 frame s
      else if int_no frame = INT_SYSCALL then
        do { r \<leftarrow> syscall oom getc (rax frame) (rdi frame) (rsi frame) (rdx frame) (rcx frame) (r8 frame) (r9 frame) s;
             Some (case r of Inl (ret, s) \<Rightarrow> Inl ((), set_result owner ret s) | Inr l \<Rightarrow> Inr l) }
      else if int_no frame = INT_GPF then gpf_handler oom s
      else if int_no frame = INT_DIVIDE then divide_handler oom s
      else if int_no frame = IRQ_TIMER then Some (Inl ((), irq_handler s))
      else if cs frame = GDT_KCODE then None
      else do { c \<leftarrow> current s; map_option Inr (task_destroy oom c s) })"

definition int_handler :: "(vm \<Rightarrow> vm option) \<Rightarrow> (kern \<Rightarrow> kern option) \<Rightarrow> int \<Rightarrow> u64 \<Rightarrow> u64 \<Rightarrow> int_frame \<Rightarrow> kern \<Rightarrow> leave option" where
  "int_handler oom monitor getc cr2 rfl frame s =
     (if rfl AND FLAGS_IF \<noteq> 0 then None
      else do {
        (owner, s) \<leftarrow> (if cs frame AND 3 = 3
                       then do { c \<leftarrow> current s; Some (Some c, upd_frame c (\<lambda>f. frame) s) } else Some (None, s));
        r \<leftarrow> int_dispatch oom monitor getc cr2 owner frame s;
        case r of
          Inr l \<Rightarrow> Some l
        | Inl (u, s) \<Rightarrow>
            if reschedule s then sched_yield (s\<lparr>reschedule := False\<rparr>)
            else case current s of
                   Some t \<Rightarrow> Some (task_run t s)
                 | None \<Rightarrow> sched_yield s })"

text \<open>The entry for the \<^verbatim>\<open>syscall\<close> instruction.\<close>

definition syscall_handler :: "(vm \<Rightarrow> vm option) \<Rightarrow> int \<Rightarrow> u64 \<Rightarrow> u64 \<Rightarrow> u64 \<Rightarrow> u64 \<Rightarrow> u64 \<Rightarrow> u64 \<Rightarrow> u64 \<Rightarrow> kern \<Rightarrow> leave option" where
  "syscall_handler oom getc a1 a2 a3 a4 a5 a6 syscallno s =
     do { c \<leftarrow> current s;
          r \<leftarrow> syscall oom getc syscallno a1 a2 a3 a4 a5 a6 s;
          case r of
            Inr l \<Rightarrow> Some l
          | Inl (ret, s) \<Rightarrow>
              do { let s = upd_frame c (\<lambda>f. f\<lparr>rax := ret\<rparr>) s; t \<leftarrow> current s; Some (task_run t s) } }"

section \<open>Descriptors\<close>

record idt_entry =
  offset_lo :: u16
  gate_sel :: u16
  gate_flags :: u16
  offset_hi :: u64

definition set_idt_entry :: "u64 \<Rightarrow> u32 \<Rightarrow> u16 \<Rightarrow> idt_entry \<Rightarrow> idt_entry" where
  "set_idt_entry offset fl s e =
     e\<lparr>offset_lo := ucast (offset AND 0xFFFF), offset_hi := drop_bit 16 offset AND 0xFFFFFFFFFFFF, gate_flags := ucast fl, gate_sel := s\<rparr>"

record gdt_entry =
  limit_low :: u16
  base_low :: u16
  base_middle :: u8
  gflags :: u16
  base_high :: u8

definition GDT_LIMIT :: "u64 \<Rightarrow> u32" where
  "GDT_LIMIT x = push_bit 8 (ucast x AND 0xF)"

definition set_gdt_entry :: "u64 \<Rightarrow> u64 \<Rightarrow> u32 \<Rightarrow> gdt_entry \<Rightarrow> gdt_entry" where
  "set_gdt_entry base limit fl e =
     e\<lparr>base_low := ucast (base AND 0xFFFF), base_middle := ucast (drop_bit 16 base AND 0xFF),
       base_high := ucast (drop_bit 24 base AND 0xFF), limit_low := ucast (limit AND 0xFFFF),
       gflags := ucast (fl OR GDT_LIMIT (drop_bit 16 limit))\<rparr>"

record tss_entry =
  tentry :: gdt_entry
  tbase_high :: u32

definition SIZEOF_TSS :: u64 where "SIZEOF_TSS = 104"
definition GDT_TSS_FLAGS :: u32 where "GDT_TSS_FLAGS = push_bit 7 1 OR 9"

definition set_tss_entry :: "u64 \<Rightarrow> tss_entry \<Rightarrow> tss_entry" where
  "set_tss_entry tss e =
     e\<lparr>tentry := set_gdt_entry tss SIZEOF_TSS GDT_TSS_FLAGS (tentry e), tbase_high := ucast (drop_bit 32 tss AND 0xFFFFFFFF)\<rparr>"

section \<open>The interrupt table\<close>

definition IDT_INT_GATE32 :: u32 where "IDT_INT_GATE32 = push_bit 8 (0xE AND 0xF)"
definition IDT_PRESENT :: u32 where "IDT_PRESENT = push_bit 15 1"
definition IDT_PRIVL :: "u32 \<Rightarrow> u32" where "IDT_PRIVL x = push_bit 13 (x AND 3)"

text \<open>The vectors that \<^verbatim>\<open>idt_init\<close> sets, with the privilege level from which they may be raised.\<close>

definition vectors :: "(nat \<times> u32) list" where
  "vectors = [(0, 0), (1, 0), (2, 0), (3, 3), (4, 0), (5, 0), (6, 0), (7, 0), (8, 0), (10, 0), (11, 0), (12, 0), (13, 0), (14, 0),
     (16, 0), (17, 0), (18, 0), (19, 0), (30, 0), (128, 3), (127, 3), (32, 0)]"

definition idt_init :: "(nat \<Rightarrow> u64) \<Rightarrow> (nat \<Rightarrow> idt_entry) \<Rightarrow> nat \<Rightarrow> idt_entry" where
  "idt_init isr entries =
     fold (\<lambda>(n, privl) es. es(n := set_idt_entry (isr n) (IDT_INT_GATE32 OR IDT_PRESENT OR IDT_PRIVL privl) (ucast GDT_KCODE) (es n)))
       vectors entries"

end
