(* ===== verification/Sched_Inv.thy ===== *)
theory Sched_Inv
  imports Trap
begin

text \<open>
  What the scheduler does with its two queues.  \<open>ready s q\<close> reads \<^verbatim>\<open>nextq\<close> followed by \<^verbatim>\<open>runq\<close> as one queue \<open>q\<close>, newest
  task first; \<^verbatim>\<open>sched_yield\<close> puts the running task at the front and runs the last runnable task.  The round robin
  and the protocols of \<^verbatim>\<open>exit\<close>, \<^verbatim>\<open>wait\<close>, \<^verbatim>\<open>kill\<close> and \<^verbatim>\<open>fork\<close> follow.
\<close>

section \<open>The ready queue\<close>

abbreviation runnable :: "kern \<Rightarrow> nat \<Rightarrow> bool" where
  "runnable s t \<equiv> task_status (tsk s t) = TASK_RUNNABLE"

definition two_queues :: "kern \<Rightarrow> nat list \<Rightarrow> nat list \<Rightarrow> bool" where
  "two_queues s ys xs \<longleftrightarrow> dlist (queues s) (Nextq (this_cpu s)) (map Task_node ys)
     \<and> dlist (queues s) (Runq (this_cpu s)) (map Task_node xs) \<and> distinct (ys @ xs)"

definition ready :: "kern \<Rightarrow> nat list \<Rightarrow> bool" where
  "ready s q \<longleftrightarrow> (\<exists>ys xs. q = ys @ xs \<and> two_queues s ys xs)"

text \<open>The queue without the tasks at its end that cannot run.\<close>

definition live :: "(nat \<Rightarrow> bool) \<Rightarrow> nat list \<Rightarrow> nat list" where
  "live P q = rev (dropWhile (\<lambda>t. \<not> P t) (rev q))"

lemma live_Nil [simp]: "live P [] = []"
  by (simp add: live_def)

lemma live_snoc: "live P (q @ [t]) = (if P t then q @ [t] else live P q)"
  by (simp add: live_def)

lemma live_append: "live P (ys @ xs) = (if live P xs = [] then live P ys else ys @ live P xs)"
  by (induction xs rule: rev_induct) (simp_all add: live_snoc flip: append_assoc)

lemma live_all: "\<forall>t\<in>set q. P t \<Longrightarrow> live P q = q"
  by (cases q rule: rev_cases) (simp_all add: live_snoc)

lemma is_empty_dlist: "dlist h head xs \<Longrightarrow> list_is_empty h head \<longleftrightarrow> xs = []"
  by (cases xs) (auto simp: list_is_empty_def dlist_def)

lemma this_cpu_simps [simp]:
  "this_cpu (s\<lparr>queues := q\<rparr>) = this_cpu s" "this_cpu (upd_len f s) = this_cpu s" "this_cpu (set_rank r s) = this_cpu s"
  "this_cpu (s\<lparr>runq_lock := l\<rparr>) = this_cpu s" "this_cpu (upd_task t g s) = this_cpu s" "this_cpu (upd_queues h s) = this_cpu s"
  "this_cpu (set_current c s) = this_cpu s" "this_cpu (set_cr3 pa s) = this_cpu s" "this_cpu (s\<lparr>tsc_reads := n\<rparr>) = this_cpu s"
  by (simp_all add: this_cpu_def upd_len_def set_rank_def upd_task_def upd_queues_def set_current_def set_cr3_def)

lemma queues_disjoint:
  "distinct (ys @ xs) \<Longrightarrow> set (Nextq c # map Task_node ys) \<inter> set (Runq c # map Task_node xs) = {}"
  by auto

lemma two_queues_pop:
  assumes "two_queues s ys (xs @ [t])"
  shows "two_queues (s\<lparr>queues := list_del (Task_node t) (queues s)\<rparr>) ys xs"
proof -
  have d: "dlist (queues s) (Nextq (this_cpu s)) (map Task_node ys)"
      "dlist (queues s) (Runq (this_cpu s)) (map Task_node xs @ Task_node t # [])" "distinct (ys @ xs @ [t])"
    using assms by (simp_all add: two_queues_def)
  have "dlist (list_del (Task_node t) (queues s)) (Nextq (this_cpu s)) (map Task_node ys)"
    by (rule dlist_del_other [OF d(2) _ d(1)]) (use d(3) in auto)
  then show ?thesis
    using dlist_del [OF d(2)] d(3) by (simp add: two_queues_def)
qed

lemma next_task_spec:
  assumes "two_queues s ys xs"
  shows "\<exists>q. next_task s = Some (if live (runnable s) xs = [] then None else Some (last (live (runnable s) xs)), s\<lparr>queues := q\<rparr>)
    \<and> two_queues (s\<lparr>queues := q\<rparr>) ys (butlast (live (runnable s) xs))"
  using assms
proof (induction xs arbitrary: s rule: rev_induct)
  case Nil
  then have "list_is_empty (queues s) (Runq (this_cpu s))"
    using is_empty_dlist [of "queues s" "Runq (this_cpu s)" "[]"] by (simp add: two_queues_def)
  then show ?case
    using Nil by (subst next_task.simps) (auto intro!: exI [of _ "queues s"])
next
  case (snoc t xs)
  let ?q = "list_del (Task_node t) (queues s)"
  have d: "dlist (queues s) (Runq (this_cpu s)) (map Task_node (xs @ [t]))"
    using snoc.prems by (simp add: two_queues_def)
  have ne: "\<not> list_is_empty (queues s) (Runq (this_cpu s))"
    using is_empty_dlist [OF d] by simp
  have pop: "list_pop_tail (Runq (this_cpu s)) (queues s) = (Some (Task_node t), ?q)"
    using list_pop_tail_dlist [OF d] by simp
  note tq = two_queues_pop [OF snoc.prems]
  show ?case
  proof (cases "runnable s t")
    case True
    then show ?thesis
      using tq by (subst next_task.simps) (auto simp: ne pop live_snoc intro!: exI [of _ ?q])
  next
    case False
    then have "next_task s = next_task (s\<lparr>queues := ?q\<rparr>)"
      by (subst next_task.simps) (simp add: ne pop)
    then show ?thesis
      using snoc.IH [OF tq] False by (auto simp: live_snoc)
  qed
qed

lemma move_tail_spec:
  assumes "two_queues s (ys @ [t]) xs"
  shows "\<exists>q. move_tail (Nextq (this_cpu s)) (Runq (this_cpu s)) s = Some (s\<lparr>queues := q\<rparr>)
    \<and> two_queues (s\<lparr>queues := q\<rparr>) ys (t # xs)"
proof -
  let ?N = "Nextq (this_cpu s)" and ?R = "Runq (this_cpu s)" and ?h = "list_del (Task_node t) (queues s)"
  have d: "dlist (queues s) ?N (map Task_node ys @ Task_node t # [])" "dlist (queues s) ?R (map Task_node xs)" "distinct (ys @ t # xs)"
    using assms by (simp_all add: two_queues_def)
  have n: "dlist ?h ?N (map Task_node ys)"
    using dlist_del [OF d(1)] by simp
  have r: "dlist ?h ?R (map Task_node xs)"
    by (rule dlist_del_other [OF d(1) _ d(2)]) (use d(3) in auto)
  have f: "Task_node t \<notin> set (?R # map Task_node xs)"
    using d(3) by auto
  have "dlist (list_add ?R (Task_node t) ?h) ?N (map Task_node ys)"
    by (rule dlist_add_other [OF r f n]) (use d(3) in auto)
  then have "two_queues (s\<lparr>queues := list_add ?R (Task_node t) ?h\<rparr>) ys (t # xs)"
    using dlist_add [OF r f] d(3) by (simp add: two_queues_def)
  then show ?thesis
    using list_pop_tail_dlist [OF d(1)] by (auto simp: move_tail_def)
qed

lemma refill_spec:
  assumes "two_queues s ys xs"
  shows "\<exists>q n. refill moved s = Some (upd_len (\<lambda>_. n) (s\<lparr>queues := q\<rparr>)) \<and> two_queues (s\<lparr>queues := q\<rparr>) [] (ys @ xs)"
  using assms
proof (induction ys arbitrary: s xs moved rule: rev_induct)
  case Nil
  then have "list_is_empty (queues s) (Nextq (this_cpu s))"
    using is_empty_dlist [of "queues s" "Nextq (this_cpu s)" "[]"] by (simp add: two_queues_def)
  then show ?case
    using Nil by (subst refill.simps) (auto intro!: exI [of _ "queues s"])
next
  case (snoc t ys)
  have "\<not> list_is_empty (queues s) (Nextq (this_cpu s))"
    using is_empty_dlist [of "queues s" "Nextq (this_cpu s)" "map Task_node (ys @ [t])"] snoc.prems by (simp add: two_queues_def)
  moreover obtain q where q: "move_tail (Nextq (this_cpu s)) (Runq (this_cpu s)) s = Some (s\<lparr>queues := q\<rparr>)"
      "two_queues (s\<lparr>queues := q\<rparr>) ys (t # xs)"
    using move_tail_spec [OF snoc.prems] by blast
  ultimately have "refill moved s = refill (moved + 1) (s\<lparr>queues := q\<rparr>)"
    by (subst refill.simps) simp
  then show ?case
    using snoc.IH [OF q(2), of "moved + 1"] by auto
qed

section \<open>The lock of the global queue\<close>

text \<open>No other processor holds the lock, which has no rank.\<close>

definition lock_avail :: "kern \<Rightarrow> bool" where
  "lock_avail s \<longleftrightarrow> rank (runq_lock s) = 0 \<and> (locked (runq_lock s) = 0 \<or> lcpu (runq_lock s) = Some (this_cpu s))"

lemma set_rank_same [simp]: "set_rank (this_rank s) s = s" "set_rank (this_rank s) (s\<lparr>runq_lock := l\<rparr>) = s\<lparr>runq_lock := l\<rparr>"
  by (simp_all add: set_rank_def this_rank_def)

lemma release_runq_spec:
  assumes "lock_avail s"
  shows "\<exists>l. release_runq s = Some (s\<lparr>runq_lock := l\<rparr>) \<and> rank l = 0 \<and> locked l = 0"
proof (cases "locked (runq_lock s) = 0")
  case True
  then show ?thesis
    using assms by (auto simp: release_runq_def lock_op_defs lock_avail_def intro!: exI [of _ "runq_lock s"])
next
  case False
  then show ?thesis
    using assms
    by (auto simp: release_runq_def lock_op_defs lock_avail_def
        intro!: exI [of _ "(runq_lock s)\<lparr>lcpu := None, lfile := None, lline := 0, locked := 0\<rparr>"])
qed

lemma trylock_runq_spec:
  assumes "rank (runq_lock s) = 0" "locked (runq_lock s) = 0"
  shows "\<exists>l. trylock_runq s = Some (1, s\<lparr>runq_lock := l\<rparr>) \<and> lock_avail (s\<lparr>runq_lock := l\<rparr>)"
  using assms
  by (auto simp: trylock_runq_def spin_trylock_def lock_op_defs lock_avail_def
      intro!: exI [of _ "(runq_lock s)\<lparr>locked := 1, lcpu := Some (this_cpu s), lfile := Some ''sched.c'', lline := 116\<rparr>"])

section \<open>One call of the scheduler\<close>

definition no_halt :: "kern \<Rightarrow> bool" where
  "no_halt s \<longleftrightarrow> \<not> (cpu_id s (this_cpu s) = 0 \<and> nuser_tasks s = 0) \<and> \<not> (cpu_id s (this_cpu s) \<noteq> 0 \<and> cpu_status s 0 = CPU_HALTED)"

lemma halt_check_None: "no_halt s \<Longrightarrow> halt_check s = None"
  by (auto simp: no_halt_def halt_check_def)

definition idle :: "kern \<Rightarrow> bool" where
  "idle s \<longleftrightarrow> (\<forall>t. current s = Some t \<longrightarrow> task_status (tsk s t) \<noteq> TASK_RUNNING)"

lemma preempt_idle: "idle s \<Longrightarrow> preempt s = s"
  by (auto simp: preempt_def idle_def split: option.split)

lemma yield_from_runq:
  assumes "idle s" "no_halt s" "two_queues s ys xs" "live (runnable s) xs \<noteq> []"
  shows "\<exists>q. sched_yield s = Some (dispatch (last (live (runnable s) xs)) (s\<lparr>queues := q\<rparr>))
    \<and> two_queues (s\<lparr>queues := q\<rparr>) ys (butlast (live (runnable s) xs))"
proof -
  obtain q where q: "next_task s = Some (Some (last (live (runnable s) xs)), s\<lparr>queues := q\<rparr>)"
      "two_queues (s\<lparr>queues := q\<rparr>) ys (butlast (live (runnable s) xs))"
    using next_task_spec [OF assms(3)] assms(4) by auto
  then show ?thesis
    using assms by (subst sched_yield.simps) (auto simp: preempt_idle halt_check_None)
qed

text \<open>The state in which the chosen task is dispatched differs from the first one only in the queues, the length and the lock.\<close>

lemma yield_idle:
  assumes "idle s" "no_halt s" "lock_avail s" "ready s q" "live (runnable s) q \<noteq> []"
  shows "\<exists>h n l. let s' = upd_len n (s\<lparr>queues := h, runq_lock := l\<rparr>) in
      sched_yield s = Some (dispatch (last (live (runnable s) q)) s')
      \<and> ready s' (butlast (live (runnable s) q)) \<and> lock_avail s'"
proof -
  obtain ys xs where q: "q = ys @ xs" "two_queues s ys xs"
    using assms(4) by (auto simp: ready_def)
  have u: "upd_len (\<lambda>n. n) s = s" for s
    by (simp add: upd_len_def)
  show ?thesis
  proof (cases "live (runnable s) xs = []")
    case False
    obtain h where h: "sched_yield s = Some (dispatch (last (live (runnable s) xs)) (s\<lparr>queues := h\<rparr>))"
        "two_queues (s\<lparr>queues := h\<rparr>) ys (butlast (live (runnable s) xs))"
      using yield_from_runq [OF assms(1,2) q(2) False] by blast
    have e: "s\<lparr>queues := h, runq_lock := runq_lock s\<rparr> = s\<lparr>queues := h\<rparr>"
      by simp
    have "ready (s\<lparr>queues := h\<rparr>) (butlast (live (runnable s) q))" "lock_avail (s\<lparr>queues := h\<rparr>)"
      using h(2) False assms(3) by (auto simp: q live_append ready_def butlast_append lock_avail_def)
    then show ?thesis
      using h(1) False unfolding Let_def
      by (intro exI [of _ h] exI [of _ "\<lambda>n. n"] exI [of _ "runq_lock s"]) (simp add: q live_append u e)
  next
    case True
    then have ly: "live (runnable s) q = live (runnable s) ys" "live (runnable s) ys \<noteq> []"
      using assms(5) by (simp_all add: q live_append)
    then have "ys \<noteq> []"
      by auto
    obtain h where h: "next_task s = Some (None, s\<lparr>queues := h\<rparr>)" "two_queues (s\<lparr>queues := h\<rparr>) ys []"
      using next_task_spec [OF q(2)] True by auto
    have "lock_avail (s\<lparr>queues := h\<rparr>)"
      using assms(3) by (simp add: lock_avail_def)
    then obtain l where l: "release_runq (s\<lparr>queues := h\<rparr>) = Some (s\<lparr>queues := h, runq_lock := l\<rparr>)" "rank l = 0" "locked l = 0"
      using release_runq_spec [of "s\<lparr>queues := h\<rparr>"] by auto
    obtain l' where l': "trylock_runq (s\<lparr>queues := h, runq_lock := l\<rparr>) = Some (1, s\<lparr>queues := h, runq_lock := l'\<rparr>)"
        "lock_avail (s\<lparr>queues := h, runq_lock := l'\<rparr>)"
      using trylock_runq_spec [of "s\<lparr>queues := h, runq_lock := l\<rparr>"] l by auto
    let ?s = "s\<lparr>queues := h, runq_lock := l'\<rparr>"
    have tq: "two_queues ?s ys []"
      using h(2) by (simp add: two_queues_def)
    then have ne: "\<not> list_is_empty (queues ?s) (Nextq (this_cpu ?s))"
      using is_empty_dlist [of "queues ?s" "Nextq (this_cpu ?s)" "map Task_node ys"] \<open>ys \<noteq> []\<close> by (simp add: two_queues_def)
    obtain h' n where r: "refill 0 ?s = Some (upd_len (\<lambda>_. n) (?s\<lparr>queues := h'\<rparr>))" "two_queues (?s\<lparr>queues := h'\<rparr>) [] ys"
      using refill_spec [OF tq, of 0] by auto
    let ?s' = "upd_len (\<lambda>_. n) (?s\<lparr>queues := h'\<rparr>)"
    have y: "sched_yield s = sched_yield ?s'"
      using assms(1,2) h(1) l(1) l'(1) ne r(1) by (subst sched_yield.simps) (simp add: preempt_idle halt_check_None)
    have tq': "two_queues ?s' [] ys" and st: "tsk ?s' = tsk s" and "idle ?s'" "no_halt ?s'"
      using r(2) assms(1,2) by (simp_all add: two_queues_def upd_len_def idle_def no_halt_def current_def this_cpu_def)
    then obtain h'' where d: "sched_yield ?s' = Some (dispatch (last (live (runnable s) ys)) (?s'\<lparr>queues := h''\<rparr>))"
        "two_queues (?s'\<lparr>queues := h''\<rparr>) [] (butlast (live (runnable s) ys))"
      using yield_from_runq [of ?s' "[]" ys] ly(2) by auto
    let ?t = "upd_len (\<lambda>_. n) (s\<lparr>queues := h'', runq_lock := l'\<rparr>)"
    have e: "?s'\<lparr>queues := h''\<rparr> = ?t"
      by (simp add: upd_len_def this_cpu_def)
    have "lock_avail ?t"
      using l'(2) by (simp add: lock_avail_def upd_len_def this_cpu_def)
    moreover have "ready ?t (butlast (live (runnable s) ys))"
      using d(2) unfolding e ready_def by (intro exI [of _ "[]"] exI [of _ "butlast (live (runnable s) ys)"]) simp
    ultimately show ?thesis
      using y d(1) unfolding Let_def ly(1) e by metis
  qed
qed

section \<open>Round robin\<close>

text \<open>Task \<open>t\<close> runs and the tasks of \<open>q\<close> wait for the processor.\<close>

definition running :: "kern \<Rightarrow> nat \<Rightarrow> nat list \<Rightarrow> bool" where
  "running s t q \<longleftrightarrow> current s = Some t \<and> task_status (tsk s t) = TASK_RUNNING \<and> (\<forall>u\<in>set q. runnable s u) \<and> t \<notin> set q
     \<and> ready s q \<and> lock_avail s \<and> no_halt s"

lemma two_queues_cong:
  "queues s' = queues s \<Longrightarrow> this_cpu s' = this_cpu s \<Longrightarrow> two_queues s' = two_queues s"
  by (simp add: two_queues_def fun_eq_iff)

lemma ready_cong: "queues s' = queues s \<Longrightarrow> this_cpu s' = this_cpu s \<Longrightarrow> ready s' q = ready s q"
  by (simp add: ready_def two_queues_cong [of s' s])

lemma queues_set_current: "queues (set_current c s) = queues s"
  by (simp add: set_current_def)

lemma ready_add:
  assumes "ready s q" "t \<notin> set q"
  shows "ready (upd_queues (list_add (Nextq (this_cpu s)) (Task_node t)) s) (t # q)"
proof -
  obtain ys xs where q: "q = ys @ xs" "dlist (queues s) (Nextq (this_cpu s)) (map Task_node ys)"
      "dlist (queues s) (Runq (this_cpu s)) (map Task_node xs)" "distinct (ys @ xs)"
    using assms(1) by (auto simp: ready_def two_queues_def)
  have f: "Task_node t \<notin> set (Nextq (this_cpu s) # map Task_node ys)"
    using assms(2) q(1) by auto
  have "dlist (list_add (Nextq (this_cpu s)) (Task_node t) (queues s)) (Runq (this_cpu s)) (map Task_node xs)"
    by (rule dlist_add_other [OF q(2) f q(3)]) (use assms(2) q in auto)
  then have "two_queues (upd_queues (list_add (Nextq (this_cpu s)) (Task_node t)) s) (t # ys) xs"
    using dlist_add [OF q(2) f] assms(2) q(1,4) by (simp add: two_queues_def) (simp add: upd_queues_def)
  then show ?thesis
    using q(1) unfolding ready_def by (intro exI [of _ "t # ys"] exI [of _ xs]) simp
qed

lemma preempt_running:
  assumes "running s t q"
  shows "current (preempt s) = None" and "ready (preempt s) (t # q)" and "\<forall>u\<in>set (t # q). runnable (preempt s) u"
    and "lock_avail (preempt s)" and "no_halt (preempt s)" and "\<forall>u. u \<noteq> t \<longrightarrow> tsk (preempt s) u = tsk s u"
    and "task_pml4 (regs (preempt s)) = task_pml4 (regs s)"
proof -
  have a: "current s = Some t" "task_status (tsk s t) = TASK_RUNNING"
    using assms by (simp_all add: running_def)
  define s0 where "s0 = snd (read_tsc s)"
  define s1 where "s1 = upd_task t (\<lambda>k. k\<lparr>last_time_stamp := fst (read_tsc s),
    task_time_budget := task_time_budget k - (fst (read_tsc s) - last_time_stamp (tsk s0 t)), task_status := TASK_RUNNABLE\<rparr>) s0"
  define s2 where "s2 = (if task_cpunum (tsk s1 t) = unat (cpu_id s1 (this_cpu s1)) \<and> runq_len s1 (this_cpu s1) > 0
    then upd_len (\<lambda>n. n - 1) s1 else s1)"
  have p: "preempt s = set_current None (upd_queues (list_add (Nextq (this_cpu s2)) (Task_node t)) s2)"
    using a by (simp add: preempt_def Let_def s2_def s1_def s0_def split: prod.split)
  note d = s2_def s1_def s0_def read_tsc_def upd_task_def upd_len_def set_current_def upd_queues_def
  have c: "queues s2 = queues s" "this_cpu s2 = this_cpu s" "tsk s2 = tsk s1" "runq_lock s2 = runq_lock s"
      "cpu_id s2 = cpu_id s" "nuser_tasks s2 = nuser_tasks s" "cpu_status s2 = cpu_status s" "regs s2 = regs s"
    by (simp_all add: d this_cpu_def)
  show "current (preempt s) = None"
    by (simp add: p current_def set_current_def)
  have "ready s2 q"
    using assms c by (simp add: running_def ready_cong [of s2 s])
  then have "ready (upd_queues (list_add (Nextq (this_cpu s2)) (Task_node t)) s2) (t # q)"
    using assms by (intro ready_add) (simp_all add: running_def)
  then show "ready (preempt s) (t # q)"
    unfolding p by (subst ready_cong [of "set_current None x" x for x]) (simp_all add: queues_set_current)
  have k: "tsk (preempt s) = tsk s1"
    by (simp add: p c(3) set_current_def upd_queues_def)
  show o: "\<forall>u. u \<noteq> t \<longrightarrow> tsk (preempt s) u = tsk s u"
    unfolding k by (simp add: d)
  have "runnable (preempt s) t"
    unfolding k by (simp add: d)
  then show "\<forall>u\<in>set (t # q). runnable (preempt s) u"
    using o assms by (auto simp: running_def)
  show "lock_avail (preempt s)" "no_halt (preempt s)"
    using assms c by (simp_all add: p running_def lock_avail_def no_halt_def) (simp_all add: upd_queues_def set_current_def)
  show "task_pml4 (regs (preempt s)) = task_pml4 (regs s)"
    by (simp add: p set_current_def upd_queues_def c)
qed

lemma dispatch_spec:
  "\<exists>s'. dispatch t s = To_task s' \<and> current s' = Some t \<and> task_status (tsk s' t) = TASK_RUNNING
    \<and> (\<forall>u. u \<noteq> t \<longrightarrow> tsk s' u = tsk s u) \<and> queues s' = queues s \<and> this_cpu s' = this_cpu s \<and> runq_lock s' = runq_lock s
    \<and> cpu_id s' = cpu_id s \<and> nuser_tasks s' = nuser_tasks s \<and> cpu_status s' = cpu_status s
    \<and> cr3 (regs s') = page2pa (task_pml4 (regs s) t) \<and> task_pml4 (regs s') = task_pml4 (regs s)"
  by (simp add: dispatch_def task_run_def Let_def read_tsc_def upd_task_def upd_len_def set_current_def set_cr3_def current_def
      this_cpu_def pml4_of_task_def)

lemma sched_yield_step:
  assumes "running s t q"
  shows "\<exists>s'. sched_yield s = Some (To_task s') \<and> running s' (last (t # q)) (butlast (t # q))
    \<and> cr3 (regs s') = page2pa (task_pml4 (regs s) (last (t # q))) \<and> task_pml4 (regs s') = task_pml4 (regs s)"
proof -
  let ?p = "preempt s" and ?n = "last (t # q)" and ?r = "butlast (t # q)"
  note pr = preempt_running [OF assms]
  have y: "sched_yield s = sched_yield ?p"
  proof -
    have "preempt ?p = ?p"
      using pr(1) by (intro preempt_idle) (simp add: idle_def)
    then show ?thesis
      by (subst (1 2) sched_yield.simps) simp
  qed
  have lv: "live (runnable ?p) (t # q) = t # q"
    using pr(3) by (rule live_all)
  have "idle ?p"
    using pr(1) by (simp add: idle_def)
  from yield_idle [OF this pr(5,4,2)] lv
  obtain h n l where u: "sched_yield ?p = Some (dispatch ?n (upd_len n (?p\<lparr>queues := h, runq_lock := l\<rparr>)))"
      "ready (upd_len n (?p\<lparr>queues := h, runq_lock := l\<rparr>)) ?r" "lock_avail (upd_len n (?p\<lparr>queues := h, runq_lock := l\<rparr>))"
    by (auto simp: Let_def)
  let ?u = "upd_len n (?p\<lparr>queues := h, runq_lock := l\<rparr>)"
  have uf: "tsk ?u = tsk ?p" "regs ?u = regs ?p" "no_halt ?u"
    using pr(5) by (simp_all add: upd_len_def no_halt_def this_cpu_def)
  obtain s' where s': "dispatch ?n ?u = To_task s'" "current s' = Some ?n" "task_status (tsk s' ?n) = TASK_RUNNING"
      "\<forall>u. u \<noteq> ?n \<longrightarrow> tsk s' u = tsk ?u u" "queues s' = queues ?u" "this_cpu s' = this_cpu ?u" "runq_lock s' = runq_lock ?u"
      "cpu_id s' = cpu_id ?u" "nuser_tasks s' = nuser_tasks ?u" "cpu_status s' = cpu_status ?u"
      "cr3 (regs s') = page2pa (task_pml4 (regs ?u) ?n)" "task_pml4 (regs s') = task_pml4 (regs ?u)"
    using dispatch_spec [of ?n ?u] by blast
  have "distinct (t # q)"
    using pr(2) by (metis ready_def two_queues_def)
  then have nr: "?n \<notin> set ?r"
    by (metis append_butlast_last_id distinct_append disjoint_insert(1) list.distinct(1) list.set_intros(1) list.simps(15))
  have rr: "runnable s' u" if "u \<in> set ?r" for u
  proof -
    have "u \<noteq> ?n" "u \<in> set (t # q)"
      using that nr in_set_butlastD by fastforce+
    then have "runnable ?p u" "tsk s' u = tsk ?p u"
      using s'(4) pr(3) uf(1) by (blast, metis)
    then show ?thesis
      by simp
  qed
  have "ready s' ?r"
    using u(2) ready_cong [OF s'(5,6)] by blast
  moreover have "lock_avail s'"
    using u(3) unfolding lock_avail_def s'(6,7) .
  moreover have "no_halt s'"
    using uf(3) unfolding no_halt_def s'(6,8,9,10) .
  ultimately have "running s' ?n ?r"
    using s'(2,3) nr rr unfolding running_def by blast
  moreover have "sched_yield s = Some (To_task s')"
    using y u(1) s'(1) by metis
  moreover have "task_pml4 (regs ?u) = task_pml4 (regs s)"
    unfolding uf(2) by (rule pr(7))
  ultimately show ?thesis
    using s'(11,12) by metis
qed

text \<open>\<open>n\<close> calls of the scheduler in a row, each made by the task the last one has chosen.\<close>

primrec yields :: "nat \<Rightarrow> kern \<Rightarrow> leave option" where
  "yields 0 s = Some (To_task s)"
| "yields (Suc n) s =
     do { l \<leftarrow> sched_yield s; case l of To_task s \<Rightarrow> yields n s | Halted s \<Rightarrow> Some (Halted s) }"

lemma rotate_step: "last (t # q) # butlast (t # q) = rotate (length q) (t # q)"
proof -
  have "t # q = butlast (t # q) @ [last (t # q)]"
    by (rule append_butlast_last_id [symmetric]) simp
  then show ?thesis
    by (metis append.simps(1) append.simps(2) length_append_singleton length_Cons diff_Suc_1 length_butlast rotate_append nat.inject)
qed

lemma yields_running:
  assumes "running s t q"
  shows "\<exists>s' t' q'. yields n s = Some (To_task s') \<and> running s' t' q' \<and> t' # q' = rotate (n * length q) (t # q)
    \<and> (0 < n \<longrightarrow> cr3 (regs s') = page2pa (task_pml4 (regs s) t')) \<and> task_pml4 (regs s') = task_pml4 (regs s)"
  using assms
proof (induction n arbitrary: s t q)
  case 0
  then show ?case by auto
next
  case (Suc n)
  let ?t = "last (t # q)" and ?q = "butlast (t # q)"
  obtain s1 where s1: "sched_yield s = Some (To_task s1)" "running s1 ?t ?q"
      "cr3 (regs s1) = page2pa (task_pml4 (regs s) ?t)" "task_pml4 (regs s1) = task_pml4 (regs s)"
    using sched_yield_step [OF Suc.prems] by blast
  obtain s' t' q' where s': "yields n s1 = Some (To_task s')" "running s' t' q'" "t' # q' = rotate (n * length ?q) (?t # ?q)"
      "0 < n \<longrightarrow> cr3 (regs s') = page2pa (task_pml4 (regs s1) t')" "task_pml4 (regs s') = task_pml4 (regs s1)"
    using Suc.IH [OF s1(2)] by blast
  have "t' # q' = rotate (Suc n * length q) (t # q)"
    unfolding s'(3) rotate_step by (simp add: rotate_rotate algebra_simps)
  moreover have "cr3 (regs s') = page2pa (task_pml4 (regs s) t')"
  proof (cases n)
    case 0
    then have "s' = s1" "t' = ?t"
      using s'(1,3) by simp_all
    then show ?thesis
      using s1(3) by metis
  next
    case (Suc m)
    then show ?thesis
      using s'(4) s1(4) by simp
  qed
  moreover have "yields (Suc n) s = Some (To_task s')"
    using s1(1) s'(1) by simp
  ultimately show ?case
    using s'(2,5) s1(4) by metis
qed

lemma rotate_hd:
  assumes "k \<le> length q"
  shows "rotate (Suc k * length q) (t # q) = rotate (length q - k) (t # q)"
    and "hd (rotate (Suc k * length q) (t # q)) = rev (t # q) ! k"
proof -
  let ?n = "length (t # q)"
  have "(Suc k * length q) mod ?n = (length q - k) mod ?n"
  proof -
    have "Suc k * length q + Suc k = Suc k * ?n"
      by simp
    then have "Suc k * length q = k * ?n + (length q - k)"
      using assms by (simp add: algebra_simps)
    then show ?thesis
      by (metis mod_mult_self3)
  qed
  then show r: "rotate (Suc k * length q) (t # q) = rotate (length q - k) (t # q)"
    by (metis rotate_conv_mod)
  have "hd (rotate (length q - k) (t # q)) = (t # q) ! (length q - k)"
    using hd_rotate_conv_nth [of "t # q" "length q - k"] by simp
  moreover have "rev (t # q) ! k = (t # q) ! (length q - k)"
    using rev_nth [of k "t # q"] assms by simp
  ultimately show "hd (rotate (Suc k * length q) (t # q)) = rev (t # q) ! k"
    using r by simp
qed

text \<open>
  C28: with task \<open>t\<close> running, the tasks \<open>q\<close> waiting on \<^verbatim>\<open>nextq\<close> and \<^verbatim>\<open>runq\<close> of the CPU, newest first and all runnable, no
  other CPU holding the lock of the global queue, and no reason for the CPU to halt, every call of \<^verbatim>\<open>sched_yield\<close> leaves to a
  task, in its own address space.  Call number \<open>k + 1\<close> runs the task at place \<open>k\<close> counted from the longest waiting one, and the
  others wait behind it in the rotated order, under the same conditions.  So after \<open>length q + 1\<close> calls each task has run once, \<open>t\<close>
  runs again and the queue is \<open>q\<close> again.
\<close>

theorem sched_round_robin:
  assumes "running s t q" "k \<le> length q"
  shows "\<exists>s'. yields (Suc k) s = Some (To_task s') \<and> current s' = Some (rev (t # q) ! k)
    \<and> task_status (tsk s' (rev (t # q) ! k)) = TASK_RUNNING
    \<and> cr3 (regs s') = page2pa (task_pml4 (regs s) (rev (t # q) ! k))
    \<and> running s' (rev (t # q) ! k) (tl (rotate (length q - k) (t # q)))
    \<and> (k = length q \<longrightarrow> running s' t q)"
proof -
  obtain s' t' q' where s': "yields (Suc k) s = Some (To_task s')" "running s' t' q'" "t' # q' = rotate (Suc k * length q) (t # q)"
      "cr3 (regs s') = page2pa (task_pml4 (regs s) t')"
    using yields_running [OF assms(1), of "Suc k"] by auto
  have t': "t' = rev (t # q) ! k"
    using rotate_hd(2) [OF assms(2), of t] s'(3) by (metis list.sel(1))
  have r: "t' # q' = rotate (length q - k) (t # q)"
    using rotate_hd(1) [OF assms(2), of t] s'(3) by metis
  then have "q' = tl (rotate (length q - k) (t # q))" by (metis list.sel(3))
  moreover have "running s' t q" if "k = length q" using r s'(2) that by simp
  ultimately show ?thesis
    using s' t' by (auto simp: running_def)
qed

text \<open>A machine on which task 1 runs, tasks 2 and 3 wait for the processor and task 4 is a zombie of task 1.\<close>

definition demo_task :: "nat \<Rightarrow> task" where
  "demo_task t = \<lparr>task_frame = zero_frame, task_wait = None, task_pid = int t, task_ppid = (if t = 1 then 0 else 1),
     task_type = TASK_TYPE_USER, task_status = (if t = 1 then TASK_RUNNING else if t = 4 then TASK_DYING else TASK_RUNNABLE),
     task_runs = 0, task_exit_status = 9, task_cpunum = 0, task_wait_exit_status = 0, task_time_budget = TIMESLICE,
     last_time_stamp = 0\<rparr>"

definition demo_queues :: "tnode lheap" where
  "demo_queues =
     list_add_tail (Task_zombies 1) (Task_node 4) (list_add (Task_children 1) (Task_child 2) (list_add (Task_children 1) (Task_child 3)
       (list_add (Runq 0) (Task_node 3) (list_add (Nextq 0) (Task_node 2) \<lparr>lnext = (\<lambda>n. n), lprev = (\<lambda>n. n)\<rparr>))))"

definition demo_kern :: kern where
  "demo_kern = \<lparr>kmemory = no_heap, regs = demo_vm\<lparr>cur_task := Some 1\<rparr>,
     vareas = (\<lambda>_. \<lparr>vm_name = ''user'', vm_base = 0, vm_end = 0, vm_src = 0, vm_len = 0, vm_flags = 0\<rparr>),
     vtree = (\<lambda>_. \<lparr>parent = (\<lambda>_. None), child = (\<lambda>_ _. None), color = (\<lambda>_. RB_BLACK), root = None\<rparr>),
     vlist = (\<lambda>_. \<lparr>lnext = (\<lambda>n. n), lprev = (\<lambda>n. n)\<rparr>), tsk = demo_task, queues = demo_queues,
     tasks = (\<lambda>pid. if 1 \<le> pid \<and> pid \<le> 4 then Some (nat pid) else None), nuser_tasks = 4, nkernel_tasks = 0,
     cpu_id = (\<lambda>i. of_nat i), cpu_status = (\<lambda>_. CPU_STARTED), runq_len = (\<lambda>_. 0),
     runq_lock = \<lparr>locked = 0, rank = 0, lname = Some ''runq_lock'', lcpu = None, lfile = None, lline = 0\<rparr>,
     kthread_lock = \<lparr>locked = 0, rank = 0, lname = Some ''kthread_lock'', lcpu = None, lfile = None, lline = 0\<rparr>,
     kernel_pml4 = 1, tsc = (\<lambda>n. of_nat n), tsc_reads = 0, reschedule = False\<rparr>"

definition demo_lists :: "tnode \<rightharpoonup> tnode list" where
  "demo_lists = [Nextq 0 \<mapsto> [Task_node 2], Runq 0 \<mapsto> [Task_node 3], Task_children 1 \<mapsto> [Task_child 2, Task_child 3],
     Task_zombies 1 \<mapsto> [Task_node 4]]"

lemma demo_dlists: "dlists demo_queues demo_lists"
proof -
  let ?L0 = "[Nextq 0 \<mapsto> [], Runq 0 \<mapsto> [], Task_children 1 \<mapsto> [], Task_zombies 1 \<mapsto> []] :: tnode \<rightharpoonup> tnode list"
  let ?h0 = "\<lparr>lnext = (\<lambda>n. n), lprev = (\<lambda>n. n)\<rparr> :: tnode lheap"
  have "dlists ?h0 ?L0"
    by (auto simp: dlists_def dlist_def split: if_splits)
  from dlists_add [OF this, of "Nextq 0" "[]" "Task_node 2"]
  have "dlists (list_add (Nextq 0) (Task_node 2) ?h0) (?L0(Nextq 0 \<mapsto> [Task_node 2]))"
    by (simp add: on_no_list_def)
  from dlists_add [OF this, of "Runq 0" "[]" "Task_node 3"]
  have "dlists (list_add (Runq 0) (Task_node 3) (list_add (Nextq 0) (Task_node 2) ?h0))
      (?L0(Nextq 0 \<mapsto> [Task_node 2], Runq 0 \<mapsto> [Task_node 3]))"
    by (simp add: on_no_list_def)
  from dlists_add [OF this, of "Task_children 1" "[]" "Task_child 3"]
  have "dlists (list_add (Task_children 1) (Task_child 3) (list_add (Runq 0) (Task_node 3) (list_add (Nextq 0) (Task_node 2) ?h0)))
      (?L0(Nextq 0 \<mapsto> [Task_node 2], Runq 0 \<mapsto> [Task_node 3], Task_children 1 \<mapsto> [Task_child 3]))"
    by (simp add: on_no_list_def)
  from dlists_add [OF this, of "Task_children 1" "[Task_child 3]" "Task_child 2"]
  have "dlists (list_add (Task_children 1) (Task_child 2) (list_add (Task_children 1) (Task_child 3)
        (list_add (Runq 0) (Task_node 3) (list_add (Nextq 0) (Task_node 2) ?h0))))
      (?L0(Nextq 0 \<mapsto> [Task_node 2], Runq 0 \<mapsto> [Task_node 3], Task_children 1 \<mapsto> [Task_child 2, Task_child 3]))"
    by (simp add: on_no_list_def)
  from dlists_add_tail [OF this, of "Task_zombies 1" "[]" "Task_node 4"]
  show ?thesis
    by (simp add: on_no_list_def demo_queues_def demo_lists_def fun_upd_twist)
qed

lemma demo_cpu: "this_cpu demo_kern = 0"
  by (simp add: this_cpu_def demo_kern_def no_heap_def one_block_def)

lemma demo_running: "running demo_kern 1 [2, 3]"
proof -
  have "two_queues demo_kern [2] [3]"
    using dlists_dlist [OF demo_dlists, of "Nextq 0" "[Task_node 2]"] dlists_dlist [OF demo_dlists, of "Runq 0" "[Task_node 3]"]
    by (simp add: two_queues_def demo_cpu demo_lists_def) (simp add: demo_kern_def)
  then have "ready demo_kern [2, 3]"
    unfolding ready_def by (intro exI [of _ "[2]"] exI [of _ "[3]"]) simp
  then show ?thesis
    by (simp add: running_def lock_avail_def no_halt_def demo_cpu) (simp add: demo_kern_def current_def demo_task_def)
qed

theorem sched_round_robin_witness:
  "\<exists>s'. yields 2 demo_kern = Some (To_task s') \<and> current s' = Some 2 \<and> running s' 2 [3, 1]"
  using sched_round_robin [OF demo_running, of 1] by (auto simp: numeral_2_eq_2)

section \<open>exit, wait and kill\<close>

lemma list_del_self: "lnext h n = n \<Longrightarrow> lprev h n = n \<Longrightarrow> list_del n h = h"
  by (simp add: list_del_def set_next_def set_prev_def Let_def fun_upd_idem)

lemma upd_task_simps [simp]:
  "tsk (upd_task t f s) = (tsk s)(t := f (tsk s t))" "queues (upd_task t f s) = queues s" "current (upd_task t f s) = current s"
  "tasks (upd_task t f s) = tasks s" "regs (upd_task t f s) = regs s" "kernel_pml4 (upd_task t f s) = kernel_pml4 s"
  "kmemory (upd_task t f s) = kmemory s" "reschedule (upd_task t f s) = reschedule s"
  by (simp_all add: upd_task_def current_def)

lemma upd_queues_simps [simp]:
  "tsk (upd_queues f s) = tsk s" "queues (upd_queues f s) = f (queues s)" "current (upd_queues f s) = current s"
  "tasks (upd_queues f s) = tasks s" "regs (upd_queues f s) = regs s" "kmemory (upd_queues f s) = kmemory s"
  "reschedule (upd_queues f s) = reschedule s"
  by (simp_all add: upd_queues_def current_def)

lemma set_cr3_simps [simp]:
  "tsk (set_cr3 a s) = tsk s" "queues (set_cr3 a s) = queues s" "current (set_cr3 a s) = current s" "tasks (set_cr3 a s) = tasks s"
  "kmemory (set_cr3 a s) = kmemory s" "cr3 (regs (set_cr3 a s)) = a"
  by (simp_all add: set_cr3_def current_def)

lemma set_current_simps [simp]:
  "tsk (set_current c s) = tsk s" "queues (set_current c s) = queues s" "current (set_current c s) = c" "tasks (set_current c s) = tasks s"
  "kmemory (set_current c s) = kmemory s" "cr3 (regs (set_current c s)) = cr3 (regs s)"
  by (simp_all add: set_current_def current_def)

lemma pid2task_cong:
  "tasks s' = tasks s \<Longrightarrow> current s' = current s \<Longrightarrow> pid2task pid False s' = pid2task pid False s"
  by (simp add: pid2task_def split: option.split)

text \<open>A running task is on no list; it has a parent that does not wait for it.\<close>

lemma free_begin_zombie:
  assumes "dlists (queues s) L" "L (Task_zombies p) = Some zs" "L (Task_children p) = Some chs" "Task_child t \<in> set chs"
    and "on_no_list L (Task_node t)" "lnext (queues s) (Task_node t) = Task_node t" "lprev (queues s) (Task_node t) = Task_node t"
    and "current s = Some t" "task_ppid (tsk s t) \<noteq> 0" "pid2task (task_ppid (tsk s t)) False s = Some (Some p)" "p \<noteq> t"
    and "\<not> (task_status (tsk s p) = TASK_NOT_RUNNABLE \<and> (task_wait (tsk s p) = None \<or> task_wait (tsk s p) = Some t))"
  shows "\<exists>s'. free_begin t s = Some (True, s') \<and> tsk s' = (tsk s)(t := (tsk s t)\<lparr>task_status := TASK_DYING\<rparr>)
    \<and> dlists (queues s') (L(Task_children p \<mapsto> remove1 (Task_child t) chs, Task_zombies p \<mapsto> zs @ [Task_node t]))
    \<and> tasks s' = tasks s \<and> kmemory s' = kmemory s \<and> current s' = Some t \<and> cr3 (regs s') = page2pa (kernel_pml4 s)"
proof -
  let ?s1 = "set_cr3 (page2pa (kernel_pml4 s)) (upd_task t (\<lambda>k. k\<lparr>task_status := TASK_DYING\<rparr>) s)"
  let ?q = "list_del (Task_child t) (queues s)"
  have d1: "dlists ?q (L(Task_children p \<mapsto> remove1 (Task_child t) chs))"
    by (rule dlists_del [OF assms(1,3,4)])
  have "on_no_list (L(Task_children p \<mapsto> remove1 (Task_child t) chs)) (Task_node t)"
    using assms(3,5) by (intro on_no_list_upd) (auto simp: on_no_list_def dest: notin_set_remove1)
  then have d2: "dlists (list_add_tail (Task_zombies p) (Task_node t) ?q)
      (L(Task_children p \<mapsto> remove1 (Task_child t) chs, Task_zombies p \<mapsto> zs @ [Task_node t]))"
    using dlists_add_tail [OF d1, of "Task_zombies p" zs "Task_node t"] assms(2) by simp
  have "pid2task (task_ppid (tsk s t)) False ?s1 = Some (Some p)"
    using assms(10) pid2task_cong [of ?s1 s] by simp
  then show ?thesis
    using d2 assms(8-12) by (auto simp: free_begin_def Let_def list_del_self [OF assms(6,7)])
qed

text \<open>
  C29: \<^verbatim>\<open>sys_exit\<close> of a task whose parent does not wait for it makes it a zombie and schedules another task: the exit
  status is recorded, the task moves from the children to the end of the zombies of its parent, the kernel leaves its
  address space, and its memory and process number are kept for \<^verbatim>\<open>wait\<close>.
\<close>

theorem sys_exit_zombie:
  assumes "dlists (queues s) L" "L (Task_zombies p) = Some zs" "L (Task_children p) = Some chs" "Task_child t \<in> set chs"
    and "on_no_list L (Task_node t)" "lnext (queues s) (Task_node t) = Task_node t" "lprev (queues s) (Task_node t) = Task_node t"
    and "current s = Some t" "task_ppid (tsk s t) \<noteq> 0" "pid2task (task_ppid (tsk s t)) False s = Some (Some p)" "p \<noteq> t"
    and "\<not> (task_status (tsk s p) = TASK_NOT_RUNNABLE \<and> (task_wait (tsk s p) = None \<or> task_wait (tsk s p) = Some t))"
  shows "\<exists>s'. sys_exit oom rcode s = map_option Inr (sched_yield s') \<and> current s' = None
    \<and> tsk s' = (tsk s)(t := (tsk s t)\<lparr>task_exit_status := rcode, task_status := TASK_DYING\<rparr>)
    \<and> dlists (queues s') (L(Task_children p \<mapsto> remove1 (Task_child t) chs, Task_zombies p \<mapsto> zs @ [Task_node t]))
    \<and> tasks s' = tasks s \<and> kmemory s' = kmemory s \<and> cr3 (regs s') = page2pa (kernel_pml4 s)"
proof -
  let ?s = "upd_task t (\<lambda>k. k\<lparr>task_exit_status := rcode, task_status := TASK_DYING\<rparr>) s"
  have "pid2task (task_ppid (tsk ?s t)) False ?s = Some (Some p)"
    using assms(10) pid2task_cong [of ?s s] by simp
  then obtain s' where s': "free_begin t ?s = Some (True, s')" "tsk s' = (tsk ?s)(t := (tsk ?s t)\<lparr>task_status := TASK_DYING\<rparr>)"
      "dlists (queues s') (L(Task_children p \<mapsto> remove1 (Task_child t) chs, Task_zombies p \<mapsto> zs @ [Task_node t]))"
      "tasks s' = tasks s" "kmemory s' = kmemory s" "current s' = Some t" "cr3 (regs s') = page2pa (kernel_pml4 s)"
    using free_begin_zombie [of ?s L p zs chs t] assms by auto
  then have "task_free oom t ?s = Some s'"
    by (simp add: task_free_def do_free.simps)
  then have "sys_exit oom rcode s = map_option Inr (sched_yield (set_current None s'))"
    using assms(8) s'(6) by (simp add: sys_exit_def task_destroy_def)
  then show ?thesis
    using s' by (intro exI [of _ "set_current None s'"]) simp
qed

theorem sys_exit_zombie_witness:
  "\<exists>s'. sys_exit (\<lambda>v. None) 7 (demo_kern\<lparr>queues := list_del (Task_node 3) demo_queues, regs := demo_vm\<lparr>cur_task := Some 3\<rparr>\<rparr>)
      = map_option Inr (sched_yield s') \<and> task_exit_status (tsk s' 3) = 7"
proof -
  let ?q = "list_del (Task_node 3) demo_queues" and ?L = "demo_lists(Runq 0 \<mapsto> [])"
  let ?s = "demo_kern\<lparr>queues := ?q, regs := demo_vm\<lparr>cur_task := Some 3\<rparr>\<rparr>"
  have d: "dlists ?q ?L"
    using dlists_del [OF demo_dlists, of "Runq 0" "[Task_node 3]" "Task_node 3"] by (simp add: demo_lists_def)
  have l: "?L (Task_zombies 1) = Some [Task_node 4]" "?L (Task_children 1) = Some [Task_child 2, Task_child 3]"
      "on_no_list ?L (Task_node 3)"
    by (auto simp: demo_lists_def on_no_list_def split: if_splits)
  have "lnext ?q (Task_node 3) = Task_node 3" "lprev ?q (Task_node 3) = Task_node 3"
    by (simp_all add: list_del_def link_defs)
  moreover have "current ?s = Some 3" "task_ppid (tsk ?s 3) = 1" "pid2task 1 False ?s = Some (Some 1)"
      "task_status (tsk ?s 1) = TASK_RUNNING"
    by (simp_all add: current_def demo_kern_def demo_task_def pid2task_def pid_max_def)
  ultimately obtain s' where "sys_exit (\<lambda>v. None) 7 ?s = map_option Inr (sched_yield s')"
      "tsk s' = (tsk ?s)(3 := (tsk ?s 3)\<lparr>task_exit_status := 7, task_status := TASK_DYING\<rparr>)"
    using sys_exit_zombie [of ?s ?L 1 "[Task_node 4]" "[Task_child 2, Task_child 3]" 3 "\<lambda>v. None" 7] d l by auto
  then show ?thesis
    by auto
qed

text \<open>The value of \<^verbatim>\<open>child\<close> after the loop over zombies none of which has the number.\<close>

lemma find_zombie_last:
  "(\<forall>z \<in> set zs. task_pid (k z) \<noteq> pid) \<Longrightarrow> find_zombie k pid (map Task_node zs) c = Some (Inr (last (c # zs)))"
  by (induction zs arbitrary: c) auto

text \<open>
  C30: a lost wake-up in \<^verbatim>\<open>sys_waitpid\<close>.  When the caller \<open>c\<close> waits for a child \<open>t\<close> while it has other zombies, of which \<open>z\<close> is
  the last, it goes to sleep waiting for \<open>z\<close>, which is already dead; when \<open>t\<close> later exits, it becomes a zombie and
  the caller stays asleep.
\<close>

theorem waitpid_lost_wakeup:
  assumes "current s = Some c" "dlist (queues s) (Task_zombies c) (map Task_node (zs @ [z]))"
    and "pid \<noteq> - 1" "pid \<noteq> 0" "pid2task pid True s = Some (Some t)" "t \<noteq> c"
    and "\<forall>y \<in> set (zs @ [z]). task_pid (tsk s y) \<noteq> pid" "z \<noteq> t"
  shows "\<exists>k. sys_waitpid oom pid rstatus opts s = map_option Inr (sched_yield (set_current None (upd_task c (\<lambda>_. k) s)))
    \<and> task_wait k = Some z \<and> task_status k = TASK_NOT_RUNNABLE
    \<and> (\<forall>s'. tsk s' c = k \<and> current s' = Some t \<and> task_ppid (tsk s' t) \<noteq> 0
           \<and> pid2task (task_ppid (tsk s' t)) False s' = Some (Some c)
         \<longrightarrow> (\<exists>s''. free_begin t s' = Some (True, s'') \<and> tsk s'' c = k))"
proof -
  let ?k = "(tsk s c)\<lparr>task_wait := Some z, task_status := TASK_NOT_RUNNABLE, task_wait_exit_status := rstatus\<rparr>"
  have e: "\<not> list_is_empty (queues s) (Task_zombies c)"
    using is_empty_dlist [OF assms(2)] by simp
  have u: "upd_task c (\<lambda>_. ?k) s
      = upd_task c (\<lambda>k. k\<lparr>task_wait := Some z, task_status := TASK_NOT_RUNNABLE, task_wait_exit_status := rstatus\<rparr>) s"
    by (simp add: upd_task_def)
  have "find_zombie (tsk s) pid (map Task_node (zs @ [z])) t = Some (Inr z)"
    using find_zombie_last [OF assms(7), of t] by simp
  then have w: "sys_waitpid oom pid rstatus opts s = map_option Inr (sched_yield (set_current None (upd_task c (\<lambda>_. ?k) s)))"
    using assms(1,3-6) e list_foreach_dlist [OF assms(2)] unfolding u by (simp add: sys_waitpid_def sleep_def Let_def)
  have "\<exists>s''. free_begin t s' = Some (True, s'') \<and> tsk s'' c = ?k"
    if "tsk s' c = ?k" "current s' = Some t" "task_ppid (tsk s' t) \<noteq> 0" "pid2task (task_ppid (tsk s' t)) False s' = Some (Some c)" for s'
  proof -
    let ?s1 = "set_cr3 (page2pa (kernel_pml4 s')) (upd_task t (\<lambda>k. k\<lparr>task_status := TASK_DYING\<rparr>) s')"
    have "pid2task (task_ppid (tsk s' t)) False ?s1 = Some (Some c)"
      using that(4) pid2task_cong [of ?s1 s'] by simp
    then show ?thesis
      using that assms(6,8) by (auto simp: free_begin_def Let_def)
  qed
  then show ?thesis
    using w by (intro exI [of _ ?k]) auto
qed

theorem waitpid_lost_wakeup_witness:
  "\<exists>k. sys_waitpid (\<lambda>v. None) 2 0 0 demo_kern = map_option Inr (sched_yield (set_current None (upd_task 1 (\<lambda>_. k) demo_kern)))
    \<and> task_wait k = Some 4 \<and> task_status k = TASK_NOT_RUNNABLE"
proof -
  have "dlist (queues demo_kern) (Task_zombies 1) (map Task_node ([] @ [4]))"
    using dlists_dlist [OF demo_dlists, of "Task_zombies 1" "[Task_node 4]"] by (simp add: demo_lists_def demo_kern_def)
  moreover have "current demo_kern = Some 1" "pid2task 2 True demo_kern = Some (Some 2)" "task_pid (tsk demo_kern 4) = 4"
    by (simp_all add: current_def demo_kern_def pid2task_def pid_max_def demo_task_def)
  ultimately show ?thesis
    using waitpid_lost_wakeup [of demo_kern 1 "[]" 4 2 2 "\<lambda>v. None" 0 0] by auto
qed

lemma upd_frame_simps [simp]:
  "tsk (upd_frame t f s) = (tsk s)(t := (tsk s t)\<lparr>task_frame := f (task_frame (tsk s t))\<rparr>)" "queues (upd_frame t f s) = queues s"
  "current (upd_frame t f s) = current s" "tasks (upd_frame t f s) = tasks s" "reschedule (upd_frame t f s) = reschedule s"
  "nuser_tasks (upd_frame t f s) = nuser_tasks s" "this_cpu (upd_frame t f s) = this_cpu s"
  by (simp_all add: upd_frame_def) (simp add: upd_task_def)

text \<open>
  A task that kills itself survives.  The system call \<^verbatim>\<open>kill\<close> on the task's own process number returns 0 and the
  interrupt handler runs the task again: its status is \<^verbatim>\<open>TASK_RUNNING\<close>.
\<close>

theorem kill_self_survives:
  assumes "current s = Some t" "cs frame AND 3 = 3" "int_no frame = INT_SYSCALL" "rax frame = 3"
    and "sint (ucast (rdi frame) :: u32) = pid" "0 < pid" "pid < pid_max" "tasks s pid = Some t" "0 \<le> task_ppid (tsk s t)"
    and "\<not> reschedule s" "rfl AND FLAGS_IF = 0"
  shows "\<exists>s'. int_handler oom monitor getc cr2 rfl frame s = Some (To_task s') \<and> current s' = Some t
    \<and> task_status (tsk s' t) = TASK_RUNNING \<and> rax (task_frame (tsk s' t)) = 0"
proof -
  let ?s = "upd_frame t (\<lambda>f. frame) s"
  have p: "\<exists>r. pid2task (task_ppid (tsk s t)) False s' = Some r" for s'
    using assms(9) by (simp add: pid2task_def split: option.split)
  have "pid2task pid True ?s = Some (Some t)"
    using assms by (simp add: pid2task_def)
  then have "\<exists>s1. sys_kill pid ?s = Some (0, s1) \<and> current s1 = Some t \<and> \<not> reschedule s1"
    using p [of "upd_task t (\<lambda>k. k\<lparr>task_status := TASK_DYING\<rparr>) ?s"] assms(1,10)
    by (auto simp: sys_kill_def Let_def split: option.split)
  then obtain s1 where k: "sys_kill pid ?s = Some (0, s1)" and c: "current s1 = Some t" "\<not> reschedule s1"
    by blast
  have "syscall oom getc 3 (rdi frame) (rsi frame) (rdx frame) (rcx frame) (r8 frame) (r9 frame) ?s = Some (Inl (0, s1))"
    using k assms(5) by (simp add: syscall_def NSYSCALLS_def)
  then have "int_dispatch oom monitor getc cr2 (Some t) frame ?s = Some (Inl ((), upd_frame t (\<lambda>f. f\<lparr>rax := 0\<rparr>) s1))"
    using assms(3,4)
    by (simp add: int_dispatch_def set_result_def INT_SYSCALL_def INT_BREAK_def INT_PANIC_def INT_PAGE_FAULT_def)
  then have "int_handler oom monitor getc cr2 rfl frame s = Some (task_run t (upd_frame t (\<lambda>f. f\<lparr>rax := 0\<rparr>) s1))"
    using assms(1,2,11) c by (simp add: int_handler_def)
  then show ?thesis
    by (simp add: task_run_def Let_def)
qed

theorem kill_self_survives_witness:
  "\<exists>s'. int_handler (\<lambda>v. None) Some 0 0 2 (zero_frame\<lparr>int_no := 128, cs := 0x23, rax := 3, rdi := 1\<rparr>) demo_kern = Some (To_task s')
    \<and> task_status (tsk s' 1) = TASK_RUNNING"
  using kill_self_survives [of demo_kern 1 "zero_frame\<lparr>int_no := 128, cs := 0x23, rax := 3, rdi := 1\<rparr>" 1 2 "\<lambda>v. None" Some 0 0]
  by (auto simp: current_def demo_kern_def demo_task_def zero_frame_def INT_SYSCALL_def pid_max_def FLAGS_IF_def)

end
