(* ===== verification/Mem_Init.thy ===== *)
theory Mem_Init
  imports Task
begin

text \<open>
  The start of the memory system: the boot-time allocator and the memory map (\<^verbatim>\<open>kernel/mem/boot.c\<close>), the page
  descriptors, the kernel page table and the stacks of the CPUs (\<^verbatim>\<open>kernel/mem/init.c\<close>), and the growth and
  migration of the descriptor array (\<^verbatim>\<open>kernel/mem/buddy.c\<close>).

  The addresses that the linker and the boot loader provide are arguments: \<open>kend\<close> is the symbol \<^verbatim>\<open>end\<close>,
  \<open>bootstack\<close> the symbol of the same name.
\<close>

section \<open>Boot-time allocator and memory map\<close>

definition BOOT_MAP_LIM :: u64 where "BOOT_MAP_LIM = 8 * 1024 * 1024"
definition IO_PHYS_MEM :: u64 where "IO_PHYS_MEM = 0x0A0000"
definition EXT_PHYS_MEM :: u64 where "EXT_PHYS_MEM = 0x100000"
definition MPENTRY_PADDR :: u64 where "MPENTRY_PADDR = 0x7000"
definition KERNEL_LMA :: u64 where "KERNEL_LMA = 0x100000"
definition KSTACK_SIZE :: u64 where "KSTACK_SIZE = 31 * PAGE_SIZE"
definition KSTACK_GAP :: u64 where "KSTACK_GAP = PAGE_SIZE"

text \<open>The sizes of \<^verbatim>\<open>struct page_info\<close> and of \<^verbatim>\<open>struct boot_info\<close>; the type \<^verbatim>\<open>void\<close>, to which \<^verbatim>\<open>elf_hdr\<close> points,
  has size 1.\<close>

definition SIZEOF_PAGE_INFO :: u64 where "SIZEOF_PAGE_INFO = 64"
definition SIZEOF_BOOT_INFO :: u64 where "SIZEOF_BOOT_INFO = 16"
definition SIZEOF_VOID :: u64 where "SIZEOF_VOID = 1"

record boot_info =
  bi_pa :: u64
  bi_mmap_addr :: u64
  bi_mmap :: "mmap_entry list"
  bi_elf_hdr :: u64
  bi_phdrs :: "elf_proghdr list"

text \<open>The static variable \<^verbatim>\<open>next_free\<close>, initially 0, is passed and returned.\<close>

definition boot_alloc :: "u64 \<Rightarrow> u32 \<Rightarrow> u64 \<Rightarrow> (u64 \<times> u64) option" where
  "boot_alloc kend n next_free =
     (let next_free = (if next_free = 0 then ROUNDUP kend PAGE_SIZE else next_free) in
      if n = 0 then Some (next_free, next_free)
      else
        let result = next_free; next_free = ROUNDUP (result + ucast n) PAGE_SIZE in
        do { pa \<leftarrow> PADDR next_free; if pa > BOOT_MAP_LIM then None else Some (result, next_free) })"

definition align_entry :: "mmap_entry \<Rightarrow> mmap_entry" where
  "align_entry entry =
     (let (base, lim) =
        (if mm_type entry = MMAP_FREE then
           let base = ROUNDUP (mm_addr entry) PAGE_SIZE; e = mm_len entry - (base - mm_addr entry)
           in (base, ROUNDDOWN (base + e) PAGE_SIZE)
         else
           let base = ROUNDDOWN (mm_addr entry) PAGE_SIZE; e = mm_len entry + (mm_addr entry - base)
           in (base, ROUNDUP (base + e) PAGE_SIZE))
      in entry\<lparr>mm_addr := base, mm_len := lim - base\<rparr>)"

definition align_boot_info :: "boot_info \<Rightarrow> boot_info" where
  "align_boot_info bi = bi\<lparr>bi_mmap := map align_entry (bi_mmap bi)\<rparr>"

section \<open>Page descriptors\<close>

definition mem_pa2page :: "u64 \<Rightarrow> mem \<Rightarrow> nat option" where
  "mem_pa2page pa s = (if unat (PAGE_INDEX pa) \<ge> npages s then None else Some (unat (PAGE_INDEX pa)))"

definition init_descriptor :: "nat \<Rightarrow> mem \<Rightarrow> mem" where
  "init_descriptor i s =
     upd_page i (\<lambda>p. p\<lparr>pp_ref := 0, pp_free := False, pp_order := 0, pp_avail := False, virt_addr := 0, powner := None\<rparr>)
       (upd_links (\<lambda>h. list_init (ActiveNode i) (list_init (PPNode i) h)) s)"

definition init_descriptors :: "mem \<Rightarrow> mem" where
  "init_descriptors s = fold init_descriptor [0..<npages s] s"

text \<open>The pages that hold the descriptors themselves, one step for each descriptor.\<close>

primrec mark_descriptors :: "u64 \<Rightarrow> nat list \<Rightarrow> mem \<Rightarrow> mem option" where
  "mark_descriptors pages_va [] s = Some s"
| "mark_descriptors pages_va (i # is) s = do {
     pa \<leftarrow> PADDR (pages_va + of_nat i * SIZEOF_PAGE_INFO);
     p \<leftarrow> mem_pa2page pa s;
     mark_descriptors pages_va is (upd_page p (\<lambda>p. p\<lparr>pp_ref := 1\<rparr>) s)
   }"

function mark_vga :: "u64 \<Rightarrow> mem \<Rightarrow> mem option" where
  "mark_vga pa s =
     (if pa < EXT_PHYS_MEM then
        do { p \<leftarrow> mem_pa2page pa s; mark_vga (pa + PAGE_SIZE) (upd_page p (\<lambda>p. p\<lparr>pp_avail := True\<rparr>) s) }
      else Some s)"
  by pat_completeness auto

lemma unat_add_page: "pa < BOOT_MAP_LIM \<Longrightarrow> unat (pa + PAGE_SIZE) = unat pa + 4096"
  by (simp add: BOOT_MAP_LIM_def PAGE_SIZE_def word_less_nat_alt unat_word_ariths)

termination mark_vga
proof (relation "measure (\<lambda>(pa, s). unat EXT_PHYS_MEM - unat pa)", goal_cases)
  case (2 pa s p)
  then have "pa < BOOT_MAP_LIM" by (simp add: EXT_PHYS_MEM_def BOOT_MAP_LIM_def word_less_nat_alt)
  with 2 show ?case by (simp add: unat_add_page word_less_nat_alt)
qed simp

declare mark_vga.simps [simp del]

definition reserved_frame :: "boot_info \<Rightarrow> u64 \<Rightarrow> u64 \<Rightarrow> bool" where
  "reserved_frame bi e pa \<longleftrightarrow>
     pa = 0 \<or> ROUNDDOWN KERNEL_LMA PAGE_SIZE \<le> pa \<and> pa < e
     \<or> ROUNDDOWN (bi_pa bi) PAGE_SIZE \<le> pa \<and> pa < ROUNDUP (bi_pa bi + SIZEOF_BOOT_INFO) PAGE_SIZE
     \<or> ROUNDDOWN (bi_elf_hdr bi) PAGE_SIZE \<le> pa \<and> pa < ROUNDUP (bi_elf_hdr bi + SIZEOF_VOID) PAGE_SIZE"

definition init_frame :: "boot_info \<Rightarrow> u64 \<Rightarrow> u64 \<Rightarrow> mem \<Rightarrow> mem option" where
  "init_frame bi e pa s = do {
     page \<leftarrow> mem_pa2page pa s;
     if pa = MPENTRY_PADDR then Some (upd_page page (\<lambda>p. p\<lparr>pp_avail := True, pp_ref := 1, pp_free := False\<rparr>) s)
     else
       let s = upd_page page (\<lambda>p. p\<lparr>pp_avail := True\<rparr>) s in
       if reserved_frame bi e pa then Some s else page_free page s
   }"

function init_region :: "boot_info \<Rightarrow> u64 \<Rightarrow> u64 \<Rightarrow> u64 \<Rightarrow> mem \<Rightarrow> mem option" where
  "init_region bi e pa lim s =
     (if pa < lim \<and> pa < BOOT_MAP_LIM then
        do { s \<leftarrow> init_frame bi e pa s; init_region bi e (pa + PAGE_SIZE) lim s }
      else Some s)"
  by pat_completeness auto
termination
  by (relation "measure (\<lambda>(bi, e, pa, lim, s). unat BOOT_MAP_LIM - unat pa)")
    (auto simp: unat_add_page word_less_nat_alt)

declare init_region.simps [simp del]

fun init_regions :: "boot_info \<Rightarrow> u64 \<Rightarrow> mmap_entry list \<Rightarrow> mem \<Rightarrow> mem option" where
  "init_regions bi e [] s = Some s"
| "init_regions bi e (entry # entries) s =
     (if mm_type entry \<noteq> MMAP_FREE then init_regions bi e entries s
      else do {
        s \<leftarrow> init_region bi e (ROUNDDOWN (mm_addr entry) PAGE_SIZE) (ROUNDUP (mm_addr entry + mm_len entry) PAGE_SIZE) s;
        init_regions bi e entries s
      })"

definition page_init :: "u64 \<Rightarrow> u64 \<Rightarrow> u64 \<Rightarrow> boot_info \<Rightarrow> mem \<Rightarrow> mem option" where
  "page_init kend next_free pages_va bi s = do {
     let s = init_descriptors (upd_links (list_init ActivePages) s);
     s \<leftarrow> mark_descriptors pages_va [0..<npages s] s;
     s \<leftarrow> mark_vga IO_PHYS_MEM s;
     _ \<leftarrow> mem_pa2page (bi_mmap_addr bi) s;
     (nxt, _) \<leftarrow> boot_alloc kend 0 next_free;
     e \<leftarrow> PADDR nxt;
     init_regions bi e (bi_mmap bi) s
   }"

section \<open>Growing and migrating the descriptors\<close>

definition increment_structs :: nat where
  "increment_structs = 2 ^ (12 + BUDDY_MAX_ORDER - 1) div unat PAGE_SIZE"

definition increment_pages :: nat where
  "increment_pages = unat (ROUNDUP (of_nat increment_structs * SIZEOF_PAGE_INFO) PAGE_SIZE div PAGE_SIZE)"

text \<open>The pages for one increment; the result is negative when one cannot be allocated or mapped.\<close>

primrec grow_pages :: "(vm \<Rightarrow> vm option) \<Rightarrow> nat \<Rightarrow> u64 \<Rightarrow> nat list \<Rightarrow> vm \<Rightarrow> (int \<times> vm) option" where
  "grow_pages oom pml4 pages_end [] s = Some (0, s)"
| "grow_pages oom pml4 pages_end (i # is) s = do {
     (page, s) \<leftarrow> vm_page_alloc ALLOC_ZERO s;
     case page of None \<Rightarrow> Some (- 1, s)
     | Some page \<Rightarrow> do {
         (ret, s) \<leftarrow> page_insert oom pml4 page (pages_end + of_nat i * PAGE_SIZE)
           (PAGE_PRESENT OR PAGE_WRITE OR PAGE_NO_EXEC) s;
         if ret < 0 then Some (ret, s) else grow_pages oom pml4 pages_end is s } }"

text \<open>The new descriptors lie in pages of zeros.\<close>

definition grow_descriptor :: "nat \<Rightarrow> mem \<Rightarrow> mem" where
  "grow_descriptor i s =
     upd_page i (\<lambda>p. \<lparr>pp_ref = 0, pp_order = 0, pp_free = False, pp_avail = False, pp_zero = 0, virt_addr = 0, powner = None\<rparr>)
       (upd_links (\<lambda>h. list_init (ActiveNode i) (list_init (PPNode i) h)) s)"

partial_function (option) buddy_grow :: "(vm \<Rightarrow> vm option) \<Rightarrow> nat \<Rightarrow> u64 \<Rightarrow> nat \<Rightarrow> vm \<Rightarrow> (int \<times> vm) option" where
  "buddy_grow oom pml4 pages_va sz s =
     (let n = npages (vmem s) in
      if n \<le> sz then do {
        (ret, s) \<leftarrow> grow_pages oom pml4 (pages_va + of_nat n * SIZEOF_PAGE_INFO) [0..<increment_pages] s;
        if ret < 0 then Some (ret, s)
        else
          let m = fold grow_descriptor [n..<n + increment_structs] (vmem s)
          in buddy_grow oom pml4 pages_va sz (s\<lparr>vmem := m\<lparr>npages := npages m + increment_structs\<rparr>\<rparr>)
      } else Some (0, s))"

declare buddy_grow.simps [code]

text \<open>
  The migration works on the addresses of the list nodes: a node of the descriptor \<open>i\<close> lies in the array, at the
  address of the array plus its offset, and the anchors of the free lists lie elsewhere.
\<close>

definition in_page_range :: "u64 \<Rightarrow> nat \<Rightarrow> u64 \<Rightarrow> bool" where
  "in_page_range pages_va n p \<longleftrightarrow> pages_va \<le> p \<and> p < pages_va + of_nat n * SIZEOF_PAGE_INFO"

definition update_ptr :: "u64 \<Rightarrow> nat \<Rightarrow> u64 \<Rightarrow> u64" where
  "update_ptr pages_va n p = (if \<not> in_page_range pages_va n p then p else p + KPAGES - pages_va)"

record ptr_heap =
  ptr_next :: "u64 \<Rightarrow> u64"
  ptr_prev :: "u64 \<Rightarrow> u64"

definition update_node :: "u64 \<Rightarrow> nat \<Rightarrow> u64 \<Rightarrow> ptr_heap \<Rightarrow> ptr_heap" where
  "update_node pages_va n node h =
     h\<lparr>ptr_next := (ptr_next h)(node := update_ptr pages_va n (ptr_next h node)),
       ptr_prev := (ptr_prev h)(node := update_ptr pages_va n (ptr_prev h node))\<rparr>"

text \<open>The heap is indexed by the old addresses; the new address of the array is returned with it.\<close>

definition buddy_migrate :: "u64 \<Rightarrow> u64 \<Rightarrow> nat \<Rightarrow> ptr_heap \<Rightarrow> u64 \<times> ptr_heap" where
  "buddy_migrate free_list_va pages_va n h =
     (let h = fold (\<lambda>i. update_node pages_va n (pages_va + of_nat i * SIZEOF_PAGE_INFO)) [0..<n] h;
          h = fold (\<lambda>i. update_node pages_va n (free_list_va + of_nat i * 16)) [0..<BUDDY_MAX_ORDER] h
      in (KPAGES, h))"

section \<open>The rest of the memory\<close>

partial_function (option) init_region_ext ::
    "(vm \<Rightarrow> vm option) \<Rightarrow> nat \<Rightarrow> u64 \<Rightarrow> u64 \<Rightarrow> u64 \<Rightarrow> vm \<Rightarrow> vm option" where
  "init_region_ext oom pml4 pages_va pa region_end s =
     (if pa < region_end then
        if pa < BOOT_MAP_LIM then init_region_ext oom pml4 pages_va (pa + PAGE_SIZE) region_end s
        else do {
          s \<leftarrow> (if unat (PAGE_INDEX pa) \<ge> npages (vmem s) then
                 do { (r, s) \<leftarrow> buddy_grow oom pml4 pages_va (unat (PAGE_INDEX pa)) s; if r < 0 then None else Some s }
               else Some s);
          page \<leftarrow> pa2page pa s;
          let m = upd_page page (\<lambda>p. p\<lparr>pp_avail := True, pp_zero := 0, pp_ref := 0, pp_order := 0, pp_free := False,
                    virt_addr := 0, powner := None\<rparr>) (vmem s);
          m \<leftarrow> page_free page (upd_links (list_init (ActiveNode page)) m);
          init_region_ext oom pml4 pages_va (pa + PAGE_SIZE) region_end (s\<lparr>vmem := m\<rparr>)
        }
      else Some s)"

declare init_region_ext.simps [code]

fun init_regions_ext :: "(vm \<Rightarrow> vm option) \<Rightarrow> nat \<Rightarrow> u64 \<Rightarrow> mmap_entry list \<Rightarrow> vm \<Rightarrow> vm option" where
  "init_regions_ext oom pml4 pages_va [] s = Some s"
| "init_regions_ext oom pml4 pages_va (entry # entries) s =
     (if mm_type entry \<noteq> MMAP_FREE then init_regions_ext oom pml4 pages_va entries s
      else do {
        s \<leftarrow> init_region_ext oom pml4 pages_va (ROUNDUP (mm_addr entry) PAGE_SIZE)
               (ROUNDDOWN (mm_addr entry + mm_len entry) PAGE_SIZE) s;
        init_regions_ext oom pml4 pages_va entries s
      })"

definition page_init_ext :: "(vm \<Rightarrow> vm option) \<Rightarrow> nat \<Rightarrow> u64 \<Rightarrow> boot_info \<Rightarrow> vm \<Rightarrow> vm option" where
  "page_init_ext oom pml4 pages_va bi s = do {
     _ \<leftarrow> pa2page (bi_mmap_addr bi) s;
     init_regions_ext oom pml4 pages_va (bi_mmap bi) s
   }"

section \<open>The kernel page table\<close>

text \<open>
  After the migration the descriptor array is reached at \<^verbatim>\<open>KPAGES\<close>.  The links of the model name the nodes and
  not their addresses, so the migration leaves them as they are.
\<close>

definition pml4_setup :: "(vm \<Rightarrow> vm option) \<Rightarrow> u64 \<Rightarrow> u64 \<Rightarrow> boot_info \<Rightarrow> vm \<Rightarrow> (nat \<times> u64 \<times> vm) option" where
  "pml4_setup oom bootstack pages_va bi s = do {
     (page, s) \<leftarrow> vm_page_alloc ALLOC_ZERO s;
     pml4 \<leftarrow> page;
     _ \<leftarrow> KADDR_table (page2pa pml4) s;
     _ \<leftarrow> pa2page (bi_mmap_addr bi) s;
     s \<leftarrow> boot_map_mmap oom pml4 (bi_mmap bi) s;
     s \<leftarrow> boot_map_elf oom pml4 (bi_phdrs bi) s;
     s \<leftarrow> boot_map_region oom pml4 (KSTACK_TOP - KSTACK_SIZE) KSTACK_SIZE bootstack
            (PAGE_PRESENT OR PAGE_WRITE OR PAGE_NO_EXEC) s;
     pa \<leftarrow> PADDR pages_va;
     s \<leftarrow> boot_map_region oom pml4 KPAGES (of_nat (npages (vmem s)) * SIZEOF_PAGE_INFO) pa
            (PAGE_PRESENT OR PAGE_WRITE OR PAGE_NO_EXEC) s;
     s \<leftarrow> boot_map_region oom pml4 (KERNEL_VMA + IO_PHYS_MEM) (EXT_PHYS_MEM - IO_PHYS_MEM) IO_PHYS_MEM
            (PAGE_PRESENT OR PAGE_WRITE OR PAGE_NO_EXEC) s;
     Some (pml4, KPAGES, s)
   }"

definition MSR_EFER_NXE :: u64 where "MSR_EFER_NXE = push_bit 11 1"

definition highest_addr :: "mmap_entry list \<Rightarrow> u64" where
  "highest_addr entries =
     fold (\<lambda>entry a. if mm_type entry \<noteq> MMAP_FREE then a else mm_addr entry + mm_len entry) entries 0"

text \<open>The result: the kernel page table, the address of the descriptors, the register \<^verbatim>\<open>EFER\<close> and the machine.\<close>

definition mem_init ::
    "(vm \<Rightarrow> vm option) \<Rightarrow> u64 \<Rightarrow> u64 \<Rightarrow> boot_info \<Rightarrow> u64 \<Rightarrow> vm \<Rightarrow> (nat \<times> u64 \<times> u64 \<times> vm) option" where
  "mem_init oom kend bootstack bi efer s = do {
     let bi = align_boot_info bi;
     let m = upd_links (fold (\<lambda>k. list_init (FreeList k)) [0..<BUDDY_MAX_ORDER]) (vmem s);
     let n = min BOOT_MAP_LIM (highest_addr (bi_mmap bi)) div PAGE_SIZE;
     let m = m\<lparr>npages := unat n\<rparr>;
     (pages_va, next_free) \<leftarrow> boot_alloc kend (ucast (n * SIZEOF_PAGE_INFO)) 0;
     m \<leftarrow> page_init kend next_free pages_va bi m;
     let m = upd_links (list_init ZeroQ) m;
     (pml4, pages_va, s) \<leftarrow> pml4_setup oom bootstack pages_va bi (s\<lparr>vmem := m\<rparr>);
     let s = s\<lparr>cr3 := page2pa pml4\<rparr>;
     s \<leftarrow> page_init_ext oom pml4 pages_va bi s;
     Some (pml4, pages_va, efer OR MSR_EFER_NXE, s)
   }"

text \<open>The stacks of the CPUs other than the boot CPU; the tops are stored in the task state segments.\<close>

definition stack_top :: "nat \<Rightarrow> u64" where
  "stack_top idx = KSTACK_TOP - (of_nat idx + 1) * (KSTACK_SIZE + KSTACK_GAP)"

primrec map_stack :: "(vm \<Rightarrow> vm option) \<Rightarrow> nat \<Rightarrow> u64 \<Rightarrow> nat list \<Rightarrow> vm \<Rightarrow> vm option" where
  "map_stack oom pml4 bottom [] s = Some s"
| "map_stack oom pml4 bottom (i # is) s = do {
     (page, s) \<leftarrow> vm_page_alloc ALLOC_ZERO s;
     page \<leftarrow> page;
     (_, s) \<leftarrow> page_insert oom pml4 page (bottom + of_nat i * PAGE_SIZE) (PAGE_WRITE OR PAGE_NO_EXEC) s;
     map_stack oom pml4 bottom is s
   }"

primrec mem_init_mp :: "(vm \<Rightarrow> vm option) \<Rightarrow> nat \<Rightarrow> nat \<Rightarrow> nat list \<Rightarrow> (nat \<Rightarrow> u64) \<times> vm \<Rightarrow> ((nat \<Rightarrow> u64) \<times> vm) option" where
  "mem_init_mp oom pml4 boot_cpu [] rs = Some rs"
| "mem_init_mp oom pml4 boot_cpu (idx # idxs) rs =
     (if idx = boot_cpu then mem_init_mp oom pml4 boot_cpu idxs rs
      else do {
        s \<leftarrow> map_stack oom pml4 (stack_top idx - KSTACK_SIZE) [0..<unat (KSTACK_SIZE div PAGE_SIZE)] (snd rs);
        mem_init_mp oom pml4 boot_cpu idxs ((fst rs)(idx := stack_top idx), s)
      })"

end
