(* ===== verification/Mem_Init_Inv.thy ===== *)
theory Mem_Init_Inv
  imports Mem_Init
begin

text \<open>
  \<^verbatim>\<open>page_init\<close> brings the page allocator into a consistent state: its free frames are exactly the frames of the free
  regions of the memory map below the boot limit that are not reserved.  The migration of the descriptors keeps the
  free lists, and rounding the memory map keeps free memory inside its region.
\<close>

section \<open>Descriptors after the first pass\<close>

lemma init_descriptor_fields [simp]:
  "npages (init_descriptor i s) = npages s" "buddy_lock (init_descriptor i s) = buddy_lock s"
  "active_pages_lock (init_descriptor i s) = active_pages_lock s"
  by (simp_all add: init_descriptor_def upd_page_def upd_links_def)

definition blank :: "page_info \<Rightarrow> page_info" where
  "blank p = p\<lparr>pp_ref := 0, pp_free := False, pp_order := 0, pp_avail := False, virt_addr := 0, powner := None\<rparr>"

lemma init_fold:
  fixes s :: mem
  defines "t n \<equiv> fold init_descriptor [0..<n] s"
  shows "npages (t n) = npages s" "buddy_lock (t n) = buddy_lock s" "active_pages_lock (t n) = active_pages_lock s"
    "pages (t n) i = (if i < n then blank (pages s i) else pages s i)"
    "lnext (plinks (t n)) (ActiveNode i) = (if i < n then ActiveNode i else lnext (plinks s) (ActiveNode i))"
    "(\<forall>j. m \<noteq> PPNode j \<and> m \<noteq> ActiveNode j) \<Longrightarrow> same_links (plinks s) (plinks (t n)) m"
proof (induction n)
  case 0
  show "npages (t 0) = npages s" "buddy_lock (t 0) = buddy_lock s" "active_pages_lock (t 0) = active_pages_lock s"
    "pages (t 0) i = (if i < 0 then blank (pages s i) else pages s i)"
    "lnext (plinks (t 0)) (ActiveNode i) = (if i < 0 then ActiveNode i else lnext (plinks s) (ActiveNode i))"
    "(\<forall>j. m \<noteq> PPNode j \<and> m \<noteq> ActiveNode j) \<Longrightarrow> same_links (plinks s) (plinks (t 0)) m"
    by (simp_all add: t_def same_links_def)
next
  case (Suc n)
  have e: "t (Suc n) = init_descriptor n (t n)" by (simp add: t_def)
  show "npages (t (Suc n)) = npages s" "buddy_lock (t (Suc n)) = buddy_lock s"
    "active_pages_lock (t (Suc n)) = active_pages_lock s"
    by (simp_all add: e Suc.IH(1-3))
  show "pages (t (Suc n)) i = (if i < Suc n then blank (pages s i) else pages s i)"
    using Suc.IH(4) by (auto simp: e init_descriptor_def upd_page_def upd_links_def blank_def)
  show "lnext (plinks (t (Suc n))) (ActiveNode i) = (if i < Suc n then ActiveNode i else lnext (plinks s) (ActiveNode i))"
    using Suc.IH(5) by (auto simp: e init_descriptor_def upd_page_def upd_links_def list_init_def link_defs)
  show "(\<forall>j. m \<noteq> PPNode j \<and> m \<noteq> ActiveNode j) \<Longrightarrow> same_links (plinks s) (plinks (t (Suc n))) m"
    using Suc.IH(6) by (simp add: e init_descriptor_def upd_page_def upd_links_def same_links_def list_init_footprint)
qed

text \<open>The state from which \<^verbatim>\<open>page_init\<close> starts: the free lists are empty and no lock is held.\<close>

definition boot_mem :: "mem \<Rightarrow> bool" where
  "boot_mem s \<longleftrightarrow> npages s = 2048 \<and> locks_idle s \<and> (\<forall>k<10. dlist (plinks s) (FreeList k) [])
     \<and> (\<forall>i\<ge>2048. lnext (plinks s) (ActiveNode i) = ActiveNode i)"

text \<open>A state in which no page is free yet.\<close>

definition fresh_mem :: "mem \<Rightarrow> bool" where
  "fresh_mem s \<longleftrightarrow> allocator_ok s \<and> npages s = 2048 \<and> free_frames s = {}
     \<and> (\<forall>i<2048. \<not> pp_free (pages s i) \<and> order_of s i = 0)"

lemma init_descriptors_fresh:
  assumes "boot_mem s" "s1 = init_descriptors (upd_links (list_init ActivePages) s)"
  shows "fresh_mem s1" "\<forall>i<2048. pp_ref (pages s1 i) = 0"
proof -
  define s0 where "s0 = upd_links (list_init ActivePages) s"
  have s1: "s1 = fold init_descriptor [0..<2048] s0"
    using assms by (simp add: init_descriptors_def s0_def upd_links_def boot_mem_def)
  note f = init_fold [where s = s0 and n = 2048, folded s1]
  have n: "npages s1 = 2048" using f(1) assms(1) by (simp add: s0_def upd_links_def boot_mem_def)
  have p: "\<forall>i<2048. \<not> pp_free (pages s1 i) \<and> order_of s1 i = 0 \<and> pp_ref (pages s1 i) = 0"
    by (simp add: f(4) blank_def)
  then have h: "free_heads s1 = {}" using n by (auto simp: free_heads_def)
  have "dlist (plinks s1) (FreeList k) []" if "k < 10" for k
  proof -
    have "dlist (plinks s1) (FreeList k) [] = dlist (plinks s0) (FreeList k) []"
      by (rule dlist_same_links) (simp add: f(6))
    also have "\<dots> = dlist (plinks s) (FreeList k) []"
      by (rule dlist_same_links) (simp add: s0_def upd_links_def same_links_def list_init_footprint)
    finally show ?thesis using assms(1) that by (simp add: boot_mem_def)
  qed
  then have "buddy_inv s1"
    using n by (auto simp: buddy_inv_def h wf_blocks_def on_lists_def list_of_order_def intro!: exI [of _ "[]"])
  moreover have "locks_idle s1"
    using assms(1) f(2,3) by (simp add: boot_mem_def locks_idle_def s0_def upd_links_def)
  moreover have "tracked s1 []"
  proof -
    have "dlist (plinks s1) ActivePages [] = dlist (plinks s0) ActivePages []"
      by (rule dlist_same_links) (simp add: f(6))
    then have "dlist (plinks s1) ActivePages []" by (simp add: s0_def upd_links_def dlist_init)
    moreover have "lnext (plinks s1) (ActiveNode i) = ActiveNode i" for i
      using assms(1) by (simp add: f(5) s0_def upd_links_def boot_mem_def list_init_footprint)
    ultimately show ?thesis by (simp add: tracked_def)
  qed
  ultimately show "fresh_mem s1" using n p h by (auto simp: fresh_mem_def allocator_ok_def free_frames_def)
  show "\<forall>i<2048. pp_ref (pages s1 i) = 0" using p by simp
qed

section \<open>Changes of pages that are not free\<close>

lemma upd_other_ok:
  assumes ok: "allocator_ok m" and p: "p \<notin> free_frames m" "\<not> pp_free (pages m p)"
    and f: "order_of (upd_page p f m) p = order_of m p" "\<not> pp_free (pages (upd_page p f m) p)"
  shows "allocator_ok (upd_page p f m)" "free_frames (upd_page p f m) = free_frames m"
proof -
  let ?m = "upd_page p f m"
  have o: "order_of ?m i = order_of m i" for i using f(1) by (cases "i = p") (simp_all add: upd_page_def)
  have l: "plinks ?m = plinks m" by (simp add: upd_page_def)
  have h: "free_heads ?m = free_heads m" using p(2) f(2) by (auto simp: free_heads_def upd_page_def split: if_splits)
  show fr: "free_frames ?m = free_frames m" by (simp add: free_frames_def h o)
  have b: "block_ok ?m i = block_ok m i" if "i \<in> free_heads m" for i
  proof -
    have "p \<notin> block m i" using p(1) that by (auto simp: free_frames_def)
    then have "pages ?m j = pages m j" if "j \<in> block m i" for j using that by (auto simp: upd_page_def)
    then show ?thesis unfolding block_ok_def o by (simp add: upd_page_def)
  qed
  have "wf_blocks ?m (free_heads m) = wf_blocks m (free_heads m)"
    using b o by (simp add: wf_blocks_def) (simp add: upd_page_def)
  moreover have "on_lists ?m (free_heads m) = on_lists m (free_heads m)"
    by (rule on_lists_cong) (simp_all add: o l)
  ultimately show "allocator_ok ?m"
    using ok by (simp add: allocator_ok_def buddy_inv_def h locks_idle_def tracked_def) (simp add: upd_page_def)
qed

lemma fresh_upd:
  assumes "fresh_mem s" "p < 2048" "order_of (upd_page p f s) p = 0" "\<not> pp_free (pages (upd_page p f s) p)"
  shows "fresh_mem (upd_page p f s)"
proof -
  have "allocator_ok (upd_page p f s)" "free_frames (upd_page p f s) = {}"
    using upd_other_ok [of s p f] assms by (simp_all add: fresh_mem_def)
  then show ?thesis using assms by (auto simp: fresh_mem_def upd_page_def)
qed

section \<open>The passes over reserved pages\<close>

lemma page_index_div: "unat (PAGE_INDEX pa) = unat pa div 4096"
  by (simp add: PAGE_INDEX_def PAGE_TABLE_SHIFT_def unat_drop_bit)

lemma mark_descriptors_fresh:
  assumes "fresh_mem s" "KERNEL_VMA \<le> pages_va" "unat pages_va + 64 * n \<le> unat KERNEL_VMA + 8388608" "\<forall>i\<in>set is. i < n"
  shows "\<exists>s'. mark_descriptors pages_va is s = Some s' \<and> fresh_mem s'
    \<and> (\<forall>j. j \<notin> (\<lambda>i. (unat pages_va - unat KERNEL_VMA + 64 * i) div 4096) ` set is \<longrightarrow> pages s' j = pages s j)"
  using assms(1,4)
proof (induction "is" arbitrary: s)
  case (Cons i "is")
  let ?a = "pages_va + of_nat i * SIZEOF_PAGE_INFO"
  have kv: "unat KERNEL_VMA + 8388608 < 2 ^ 64" by (simp add: KERNEL_VMA_def)
  have i: "64 * i < 8388608" using Cons.prems(2) assms(2,3) by (simp add: word_le_nat_alt)
  then have "unat (of_nat i * SIZEOF_PAGE_INFO :: u64) = 64 * i"
    by (simp add: SIZEOF_PAGE_INFO_def unat_word_ariths unat_of_nat)
  moreover have lt: "unat pages_va + 64 * i < unat KERNEL_VMA + 8388608" using Cons.prems(2) assms(3) by simp
  ultimately have a: "unat ?a = unat pages_va + 64 * i"
    using kv by (simp add: unat_word_ariths)
  have le: "KERNEL_VMA \<le> ?a" using assms(2) a by (simp add: word_le_nat_alt)
  let ?p = "(unat pages_va - unat KERNEL_VMA + 64 * i) div 4096"
  have pa: "PADDR ?a = Some (?a - KERNEL_VMA)" using le by (simp add: PADDR_def)
  have ix: "unat (PAGE_INDEX (?a - KERNEL_VMA)) = ?p"
    using le a assms(2) by (simp add: page_index_div unat_sub word_le_nat_alt)
  have p: "?p < 2048" using lt assms(2) by (simp add: word_le_nat_alt)
  have "fresh_mem (upd_page ?p (\<lambda>p. p\<lparr>pp_ref := 1\<rparr>) s)"
    using fresh_upd [OF Cons.prems(1) p] Cons.prems(1) p by (simp add: upd_page_def fresh_mem_def)
  from Cons.IH [OF this] obtain s' where
    s': "mark_descriptors pages_va is (upd_page ?p (\<lambda>p. p\<lparr>pp_ref := 1\<rparr>) s) = Some s'" "fresh_mem s'"
    "\<forall>j. j \<notin> (\<lambda>i. (unat pages_va - unat KERNEL_VMA + 64 * i) div 4096) ` set is \<longrightarrow>
       pages s' j = pages (upd_page ?p (\<lambda>p. p\<lparr>pp_ref := 1\<rparr>) s) j"
    using Cons.prems(2) by auto
  have "mem_pa2page (?a - KERNEL_VMA) s = Some ?p"
    using p Cons.prems(1) by (simp add: mem_pa2page_def ix fresh_mem_def)
  then have "mark_descriptors pages_va (i # is) s = Some s'"
    using s'(1) pa by simp
  then show ?case using s'(2,3) by (auto simp: upd_page_def)
qed (simp add: upd_page_def)

lemma mark_vga_fresh:
  "fresh_mem s \<Longrightarrow> \<exists>s'. mark_vga pa s = Some s' \<and> fresh_mem s' \<and> (\<forall>j. pp_ref (pages s' j) = pp_ref (pages s j))"
proof (induction pa s rule: mark_vga.induct)
  case (1 pa s)
  show ?case
  proof (cases "pa < EXT_PHYS_MEM")
    case True
    let ?p = "unat (PAGE_INDEX pa)" and ?s = "upd_page (unat (PAGE_INDEX pa)) (\<lambda>p. p\<lparr>pp_avail := True\<rparr>) s"
    have p: "?p < 2048"
      using True by (simp add: page_index_div EXT_PHYS_MEM_def word_less_nat_alt)
    have m: "mem_pa2page pa s = Some ?p" using 1(2) p by (simp add: mem_pa2page_def fresh_mem_def)
    have "fresh_mem ?s" using fresh_upd [OF 1(2) p] 1(2) p by (simp add: upd_page_def fresh_mem_def)
    then obtain s' where "mark_vga (pa + PAGE_SIZE) ?s = Some s'" "fresh_mem s'" "\<forall>j. pp_ref (pages s' j) = pp_ref (pages ?s j)"
      using 1(1) [OF True m] by blast
    then show ?thesis using True m by (simp add: mark_vga.simps [of pa s]) (simp add: upd_page_def)
  next
    case False
    then show ?thesis using 1(2) by (simp add: mark_vga.simps [of pa s])
  qed
qed

section \<open>Handing the frames to the allocator\<close>

definition handed_over :: "boot_info \<Rightarrow> u64 \<Rightarrow> nat \<Rightarrow> bool" where
  "handed_over bi e f \<longleftrightarrow> page2pa f \<noteq> MPENTRY_PADDR \<and> \<not> reserved_frame bi e (page2pa f)"

definition ready_frame :: "boot_info \<Rightarrow> u64 \<Rightarrow> mem \<Rightarrow> nat \<Rightarrow> bool" where
  "ready_frame bi e s f \<longleftrightarrow> f < npages s \<and> f \<notin> free_frames s \<and> \<not> pp_free (pages s f) \<and> order_of s f = 0
     \<and> (handed_over bi e f \<longrightarrow> pp_ref (pages s f) = 0)"

lemma page2pa_index: "f < 2 ^ 52 \<Longrightarrow> unat (PAGE_INDEX (page2pa f)) = f"
proof -
  assume f: "f < 2 ^ 52"
  then have "unat (page2pa f) = 4096 * f"
    by (simp add: page2pa_def PAGE_TABLE_SHIFT_def push_bit_eq_mult unat_word_ariths unat_of_nat)
  then show ?thesis by (simp add: page_index_div)
qed

lemma init_frame_step:
  assumes ok: "allocator_ok s" and r: "ready_frame bi e s f" and n: "npages s = 2048"
  shows "\<exists>s'. init_frame bi e (page2pa f) s = Some s' \<and> allocator_ok s' \<and> npages s' = npages s
    \<and> free_frames s' = free_frames s \<union> (if handed_over bi e f then {f} else {})
    \<and> (\<forall>i. i \<noteq> f \<longrightarrow> i \<notin> free_frames s \<longrightarrow> pages s' i = pages s i)"
proof -
  have f: "f < 2048" "f \<notin> free_frames s" "\<not> pp_free (pages s f)" "order_of s f = 0"
    and ref: "handed_over bi e f \<Longrightarrow> pp_ref (pages s f) = 0"
    using r n by (simp_all add: ready_frame_def)
  have m: "mem_pa2page (page2pa f) s = Some f" using f(1) n by (simp add: mem_pa2page_def page2pa_index)
  let ?a = "upd_page f (\<lambda>p. p\<lparr>pp_avail := True, pp_ref := 1, pp_free := False\<rparr>) s"
  let ?b = "upd_page f (\<lambda>p. p\<lparr>pp_avail := True\<rparr>) s"
  have a: "allocator_ok ?a" "free_frames ?a = free_frames s"
    using upd_other_ok [OF ok f(2,3), of "\<lambda>p. p\<lparr>pp_avail := True, pp_ref := 1, pp_free := False\<rparr>"] by (simp_all add: upd_page_def)
  have b: "allocator_ok ?b" "free_frames ?b = free_frames s"
    using upd_other_ok [OF ok f(2,3), of "\<lambda>p. p\<lparr>pp_avail := True\<rparr>"] f(3) by (simp_all add: upd_page_def)
  show ?thesis
  proof (cases "handed_over bi e f")
    case True
    have "owned ?b f"
      using f n ref [OF True] b(2) by (simp add: owned_def block_ok_def chunk_def upd_page_def)
    then obtain s' as where s': "page_free f ?b = Some s'" "freed ?b f as s'" "allocator_ok s'"
      using page_free_ok [OF b(1)] by blast
    have bl: "block ?b f = {f}" using f(4) by (auto simp: chunk_def upd_page_def)
    have "free_frames s' = free_frames s \<union> {f}" "npages s' = npages s" "\<forall>i. i \<notin> free_frames s' \<longrightarrow> pages s' i = pages ?b i"
      using s'(2) b(2) bl unfolding freed_def by (simp_all add: upd_page_def)
    moreover have "init_frame bi e (page2pa f) s = Some s'"
      using True s'(1) m by (simp add: init_frame_def handed_over_def Let_def)
    ultimately show ?thesis using True s'(3) by (auto simp: upd_page_def)
  next
    case False
    then show ?thesis
      using a b m by (auto simp: init_frame_def handed_over_def Let_def) (auto simp: upd_page_def)
  qed
qed

primrec init_frames :: "boot_info \<Rightarrow> u64 \<Rightarrow> nat list \<Rightarrow> mem \<Rightarrow> mem option" where
  "init_frames bi e [] s = Some s"
| "init_frames bi e (f # fs) s = do { s \<leftarrow> init_frame bi e (page2pa f) s; init_frames bi e fs s }"

lemma init_frames_append:
  "init_frames bi e (fs @ gs) s = do { s \<leftarrow> init_frames bi e fs s; init_frames bi e gs s }"
  by (induction fs arbitrary: s) auto

lemma init_frames_ok:
  assumes "allocator_ok s" "npages s = 2048" "distinct fs" "\<forall>f\<in>set fs. ready_frame bi e s f"
  shows "\<exists>s'. init_frames bi e fs s = Some s' \<and> allocator_ok s' \<and> npages s' = 2048
    \<and> free_frames s' = free_frames s \<union> {f \<in> set fs. handed_over bi e f}"
  using assms
proof (induction fs arbitrary: s)
  case (Cons f fs)
  obtain s1 where s1: "init_frame bi e (page2pa f) s = Some s1" "allocator_ok s1" "npages s1 = npages s"
    "free_frames s1 = free_frames s \<union> (if handed_over bi e f then {f} else {})"
    "\<forall>i. i \<noteq> f \<longrightarrow> i \<notin> free_frames s \<longrightarrow> pages s1 i = pages s i"
    using init_frame_step [OF Cons.prems(1) _ Cons.prems(2), of bi e f] Cons.prems(4) by auto
  have "ready_frame bi e s1 g" if "g \<in> set fs" for g
  proof -
    have "g \<noteq> f" "ready_frame bi e s g" using that Cons.prems(3,4) by auto
    then show ?thesis using s1(3,4,5) by (auto simp: ready_frame_def split: if_splits)
  qed
  then obtain s' where "init_frames bi e fs s1 = Some s'" "allocator_ok s'" "npages s' = 2048"
    "free_frames s' = free_frames s1 \<union> {f \<in> set fs. handed_over bi e f}"
    using Cons.IH [OF s1(2)] s1(3) Cons.prems(2,3) by auto
  then show ?case using s1(1,4) by (auto split: if_splits)
qed simp

lemma unat_page2pa: "f < 2 ^ 52 \<Longrightarrow> unat (page2pa f) = 4096 * f"
  by (simp add: page2pa_def PAGE_TABLE_SHIFT_def push_bit_eq_mult unat_word_ariths unat_of_nat)

lemma page2pa_div:
  assumes "page_aligned a"
  shows "page2pa (unat a div 4096) = a"
proof -
  have "unat a div 4096 < 2 ^ 52" using unat_u64_less [of a] by simp
  then have "unat (page2pa (unat a div 4096)) = unat a"
    using assms by (simp add: unat_page2pa page_aligned_dvd)
  then show ?thesis by (simp add: word_unat_eq_iff)
qed

lemma init_region_frames:
  assumes "page_aligned lim" "a < 2 ^ 52"
  shows "init_region bi e (page2pa a) lim s = init_frames bi e [a..<min 2048 (unat lim div 4096)] s"
  using assms(2)
proof (induction "2048 - a" arbitrary: a s)
  case (Suc d)
  then have a: "a < 2048" by simp
  have up: "unat (page2pa a) = 4096 * a" using unat_page2pa [OF Suc.prems] .
  have l: "page2pa a < lim \<longleftrightarrow> a < unat lim div 4096"
    using assms(1) by (auto simp: word_less_nat_alt up page_aligned_dvd)
  have b: "page2pa a < BOOT_MAP_LIM" using a by (simp add: word_less_nat_alt up BOOT_MAP_LIM_def)
  have n: "page2pa a + PAGE_SIZE = page2pa (Suc a)"
    using unat_page2pa [of "Suc a"] a up by (simp add: word_unat_eq_iff unat_add_page [OF b])
  have i: "init_region bi e (page2pa (Suc a)) lim s' = init_frames bi e [Suc a..<min 2048 (unat lim div 4096)] s'" for s'
    using Suc.hyps(1) [of "Suc a"] Suc.hyps(2) a by simp
  show ?case
  proof (cases "page2pa a < lim")
    case True
    then have "[a..<min 2048 (unat lim div 4096)] = a # [Suc a..<min 2048 (unat lim div 4096)]"
      using l a by (simp add: upt_conv_Cons)
    moreover have "init_region bi e (page2pa (Suc a)) lim = init_frames bi e [Suc a..<min 2048 (unat lim div 4096)]"
      by (rule ext) (rule i)
    ultimately show ?thesis using True b n by (simp add: init_region.simps [of bi e "page2pa a"])
  next
    case False
    then show ?thesis using l by (simp add: init_region.simps [of bi e "page2pa a"])
  qed
next
  case 0
  then have "\<not> page2pa a < BOOT_MAP_LIM" by (simp add: word_less_nat_alt unat_page2pa BOOT_MAP_LIM_def)
  then show ?case using 0 by (simp add: init_region.simps [of bi e "page2pa a"])
qed

definition entry_frames :: "mmap_entry \<Rightarrow> nat set" where
  "entry_frames entry =
     {unat (ROUNDDOWN (mm_addr entry) PAGE_SIZE) div 4096..<
        min 2048 (unat (ROUNDUP (mm_addr entry + mm_len entry) PAGE_SIZE) div 4096)}"

definition free_entries :: "mmap_entry list \<Rightarrow> mmap_entry list" where
  "free_entries es = filter (\<lambda>e. mm_type e = MMAP_FREE) es"

lemma rounded_aligned: "page_aligned (ROUNDDOWN a PAGE_SIZE)" "page_aligned (ROUNDUP a PAGE_SIZE)"
  using ROUNDDOWN_dvd [of PAGE_SIZE a] ROUNDUP_dvd [of PAGE_SIZE a] by (simp_all add: page_aligned_dvd PAGE_SIZE_def)

lemma init_regions_frames:
  "\<exists>fs. (\<forall>s. init_regions bi e es s = init_frames bi e fs s) \<and> set fs = (\<Union>(entry_frames ` set (free_entries es)))
     \<and> (sorted_wrt (\<lambda>a b. entry_frames a \<inter> entry_frames b = {}) (free_entries es) \<longrightarrow> distinct fs)"
proof (induction es)
  case (Cons en es)
  then obtain fs where fs: "\<forall>s. init_regions bi e es s = init_frames bi e fs s"
    "set fs = (\<Union>(entry_frames ` set (free_entries es)))"
    "sorted_wrt (\<lambda>a b. entry_frames a \<inter> entry_frames b = {}) (free_entries es) \<longrightarrow> distinct fs" by blast
  show ?case
  proof (cases "mm_type en = MMAP_FREE")
    case True
    let ?a = "ROUNDDOWN (mm_addr en) PAGE_SIZE" and ?l = "ROUNDUP (mm_addr en + mm_len en) PAGE_SIZE"
    let ?g = "[unat ?a div 4096..<min 2048 (unat ?l div 4096)]"
    have r: "init_regions bi e es = init_frames bi e fs" using fs(1) by (intro ext) simp
    have "unat ?a div 4096 < 2 ^ 52" using unat_u64_less [of ?a] by simp
    then have "init_region bi e ?a ?l s = init_frames bi e ?g s" for s
      using init_region_frames [OF rounded_aligned(2), of "unat ?a div 4096"] by (simp add: page2pa_div [OF rounded_aligned(1)])
    then have "init_regions bi e (en # es) s = init_frames bi e (?g @ fs) s" for s
      using True r by (simp add: init_frames_append)
    moreover have "set (?g @ fs) = (\<Union>(entry_frames ` set (free_entries (en # es))))"
      using True fs(2) by (simp add: free_entries_def entry_frames_def)
    moreover have "distinct (?g @ fs)" if "sorted_wrt (\<lambda>a b. entry_frames a \<inter> entry_frames b = {}) (free_entries (en # es))"
    proof -
      have "set ?g = entry_frames en" by (simp add: entry_frames_def)
      then show ?thesis using that True fs(2,3) by (auto simp: free_entries_def)
    qed
    ultimately show ?thesis by blast
  next
    case False
    then show ?thesis using fs by (auto simp: free_entries_def)
  qed
qed (auto simp: free_entries_def intro!: exI [of _ "[]"])

section \<open>The free memory after the start\<close>

text \<open>The descriptors lie between the load address of the kernel and the end of the boot-time allocations.\<close>

definition descriptors_at :: "u64 \<Rightarrow> u64 \<Rightarrow> bool" where
  "descriptors_at pages_va next_free \<longleftrightarrow> KERNEL_VMA + KERNEL_LMA \<le> pages_va
     \<and> unat pages_va + 64 * 2048 \<le> unat next_free \<and> unat next_free \<le> unat KERNEL_VMA + 8388608"

lemma descriptor_frames_reserved:
  assumes "descriptors_at pages_va next_free" "i < 2048"
    and "f = (unat pages_va - unat KERNEL_VMA + 64 * i) div 4096"
  shows "reserved_frame bi (next_free - KERNEL_VMA) (page2pa f)"
proof -
  have k: "unat (KERNEL_VMA + KERNEL_LMA) = unat KERNEL_VMA + 0x100000"
    by (simp add: KERNEL_VMA_def KERNEL_LMA_def)
  have v: "unat KERNEL_VMA + 0x100000 \<le> unat pages_va" "unat pages_va + 131072 \<le> unat next_free"
    "unat next_free \<le> unat KERNEL_VMA + 8388608"
    using assms(1) k by (simp_all add: descriptors_at_def word_le_nat_alt)
  then have "unat pages_va - unat KERNEL_VMA + 64 * i < unat next_free - unat KERNEL_VMA"
    "0x100000 \<le> unat pages_va - unat KERNEL_VMA + 64 * i" using assms(2) by linarith+
  then have f: "4096 * f < unat next_free - unat KERNEL_VMA" "256 \<le> f" "f < 2048"
    using assms(3) v by linarith+
  then have "unat (page2pa f) = 4096 * f" by (simp add: unat_page2pa)
  moreover have "unat (next_free - KERNEL_VMA) = unat next_free - unat KERNEL_VMA"
    using v by (simp add: unat_sub word_le_nat_alt)
  moreover have "unat (ROUNDDOWN KERNEL_LMA PAGE_SIZE) = 0x100000"
    by (simp add: KERNEL_LMA_def PAGE_SIZE_def ROUNDDOWN_def)
  ultimately show ?thesis using f by (simp add: reserved_frame_def word_le_nat_alt word_less_nat_alt)
qed

lemma page_init_core:
  assumes b: "boot_mem s" and d: "descriptors_at pages_va next_free" and m: "bi_mmap_addr bi < BOOT_MAP_LIM"
    and j: "sorted_wrt (\<lambda>a b. entry_frames a \<inter> entry_frames b = {}) (free_entries (bi_mmap bi))"
  shows "\<exists>s'. page_init kend next_free pages_va bi s = Some s' \<and> allocator_ok s' \<and> npages s' = 2048
    \<and> free_frames s' = {f \<in> \<Union>(entry_frames ` set (free_entries (bi_mmap bi))). handed_over bi (next_free - KERNEL_VMA) f}"
proof -
  define e where "e = next_free - KERNEL_VMA"
  define s1 where "s1 = init_descriptors (upd_links (list_init ActivePages) s)"
  note f1 = init_descriptors_fresh [OF b s1_def]
  have k: "unat (KERNEL_VMA + KERNEL_LMA) = unat KERNEL_VMA + 0x100000" by (simp add: KERNEL_VMA_def KERNEL_LMA_def)
  have v: "KERNEL_VMA \<le> pages_va" "unat pages_va + 64 * 2048 \<le> unat KERNEL_VMA + 8388608" "KERNEL_VMA \<le> next_free"
    using d k by (simp_all add: descriptors_at_def word_le_nat_alt)
  obtain s2 where s2: "mark_descriptors pages_va [0..<2048] s1 = Some s2" "fresh_mem s2"
    "\<forall>j. j \<notin> (\<lambda>i. (unat pages_va - unat KERNEL_VMA + 64 * i) div 4096) ` {0..<2048} \<longrightarrow> pages s2 j = pages s1 j"
    using mark_descriptors_fresh [OF f1(1) v(1,2), of "[0..<2048]"] by auto
  obtain s3 where s3: "mark_vga IO_PHYS_MEM s2 = Some s3" "fresh_mem s3" "\<forall>j. pp_ref (pages s3 j) = pp_ref (pages s2 j)"
    using mark_vga_fresh [OF s2(2)] by blast
  obtain fs where fs: "\<forall>s. init_regions bi e (bi_mmap bi) s = init_frames bi e fs s"
    "set fs = (\<Union>(entry_frames ` set (free_entries (bi_mmap bi))))" "distinct fs"
    using init_regions_frames [of bi e "bi_mmap bi"] j by blast
  have "ready_frame bi e s3 f" if "f \<in> set fs" for f
  proof -
    have f: "f < 2048" using that fs(2) by (auto simp: entry_frames_def)
    have "pp_ref (pages s3 f) = 0" if "handed_over bi e f"
    proof -
      have "f \<notin> (\<lambda>i. (unat pages_va - unat KERNEL_VMA + 64 * i) div 4096) ` {0..<2048}"
        using that descriptor_frames_reserved [OF d] by (auto simp: handed_over_def e_def)
      then show ?thesis using s2(3) s3(3) f1(2) f by simp
    qed
    then show ?thesis using s3(2) f by (simp add: ready_frame_def fresh_mem_def)
  qed
  then obtain s' where s': "init_frames bi e fs s3 = Some s'" "allocator_ok s'" "npages s' = 2048"
    "free_frames s' = {f \<in> set fs. handed_over bi e f}"
    using init_frames_ok [of s3 fs bi e] s3(2) fs(3) by (auto simp: fresh_mem_def)
  have "unat (PAGE_INDEX (bi_mmap_addr bi)) < 2048"
    using m by (simp add: page_index_div BOOT_MAP_LIM_def word_less_nat_alt)
  then have "mem_pa2page (bi_mmap_addr bi) s3 \<noteq> None" using s3(2) by (simp add: mem_pa2page_def fresh_mem_def)
  moreover have "boot_alloc kend 0 next_free = Some (next_free, next_free)"
    using v(3) by (auto simp: boot_alloc_def KERNEL_VMA_def)
  moreover have "PADDR next_free = Some e" using v(3) by (simp add: PADDR_def e_def)
  ultimately have "page_init kend next_free pages_va bi s = Some s'"
    using s2(1) s3(1) s'(1) fs(1) f1(1) by (auto simp: page_init_def s1_def [symmetric] fresh_mem_def)
  then show ?thesis using s'(2,3,4) fs(2) by (auto simp: e_def)
qed

lemma unat_ROUNDUP_page:
  assumes "unat a + 4096 \<le> 2 ^ 64"
  shows "unat a \<le> unat (ROUNDUP a PAGE_SIZE)" "unat (ROUNDUP a PAGE_SIZE) < unat a + 4096"
proof -
  have "unat (ROUNDUP a PAGE_SIZE) = (4095 + unat a) - (4095 + unat a) mod 4096"
    using unat_ROUNDUP [of PAGE_SIZE a] assms by (simp add: PAGE_SIZE_def)
  moreover have "(4095 + unat a) mod 4096 < 4096" by simp
  ultimately show "unat a \<le> unat (ROUNDUP a PAGE_SIZE)" "unat (ROUNDUP a PAGE_SIZE) < unat a + 4096" by linarith+
qed

lemma boot_alloc_descriptors:
  assumes a: "boot_alloc kend 131072 0 = Some (pages_va, next_free)"
    and k: "KERNEL_VMA + KERNEL_LMA \<le> kend" "kend \<le> KERNEL_VMA + BOOT_MAP_LIM"
  shows "descriptors_at pages_va next_free"
proof -
  have kv: "unat (KERNEL_VMA + BOOT_MAP_LIM) = unat KERNEL_VMA + 8388608" "unat KERNEL_VMA + 16777216 < 2 ^ 64"
    by (simp_all add: KERNEL_VMA_def BOOT_MAP_LIM_def)
  have kb: "unat kend \<le> unat KERNEL_VMA + 8388608" using k(2) kv(1) by (simp add: word_le_nat_alt)
  have p: "pages_va = ROUNDUP kend PAGE_SIZE" "next_free = ROUNDUP (pages_va + 131072) PAGE_SIZE"
    "PADDR next_free = Some pa \<Longrightarrow> pa \<le> BOOT_MAP_LIM" "PADDR next_free \<noteq> None" for pa
    using a by (auto simp: boot_alloc_def Let_def bind_eq_Some_conv split: if_splits)
  have b: "unat kend \<le> unat pages_va" "unat pages_va < unat kend + 4096"
    unfolding p(1) using unat_ROUNDUP_page [of kend] kb kv(2) by simp_all
  have u: "unat (pages_va + 131072) = unat pages_va + 131072"
    using b(2) kb kv(2) by (simp add: unat_word_ariths)
  have n: "unat pages_va + 131072 \<le> unat next_free"
    unfolding p(2) using unat_ROUNDUP_page [of "pages_va + 131072"] u b(2) kb kv(2) by simp
  have "KERNEL_VMA \<le> next_free" using p(4) by (auto simp: PADDR_def split: if_splits)
  moreover from this have "next_free - KERNEL_VMA \<le> BOOT_MAP_LIM" using p(3) by (simp add: PADDR_def)
  ultimately have "unat next_free \<le> unat KERNEL_VMA + 8388608"
    by (simp add: word_le_nat_alt unat_sub BOOT_MAP_LIM_def)
  moreover have "KERNEL_VMA + KERNEL_LMA \<le> pages_va" using k(1) b(1) by (simp add: word_le_nat_alt)
  ultimately show ?thesis using n by (simp add: descriptors_at_def)
qed

text \<open>
  C31: the page allocator after the start.  With at least 8 MiB of memory, the descriptors allocated behind the kernel
  image and a memory map whose free regions do not share a page, \<^verbatim>\<open>page_init\<close> returns; the allocator is consistent, and
  its free frames are exactly the frames of the free regions below the boot limit, without frame 0, the frame of the
  start-up code of the other CPUs, the kernel image with the descriptors, and the frames of the boot information and
  of the ELF header.
\<close>

theorem page_init_spec:
  assumes "boot_mem s" "boot_alloc kend 131072 0 = Some (pages_va, next_free)"
    and "KERNEL_VMA + KERNEL_LMA \<le> kend" "kend \<le> KERNEL_VMA + BOOT_MAP_LIM" "bi_mmap_addr bi < BOOT_MAP_LIM"
    and "sorted_wrt (\<lambda>a b. entry_frames a \<inter> entry_frames b = {}) (free_entries (bi_mmap bi))"
  shows "\<exists>s'. page_init kend next_free pages_va bi s = Some s' \<and> allocator_ok s' \<and> npages s' = 2048
    \<and> free_frames s' = {f. (\<exists>en \<in> set (free_entries (bi_mmap bi)). f \<in> entry_frames en)
        \<and> page2pa f \<noteq> MPENTRY_PADDR \<and> \<not> reserved_frame bi (next_free - KERNEL_VMA) (page2pa f)}"
  using page_init_core [OF assms(1) boot_alloc_descriptors [OF assms(2,3,4)] assms(5,6)]
  by (auto simp: handed_over_def)

text \<open>A machine with 128 MiB and the memory map of a PC: low memory up to 636 KiB and memory from 1 MiB.\<close>

definition pc_map :: "mmap_entry list" where
  "pc_map = [\<lparr>mm_addr = 0, mm_len = 0x9F000, mm_type = 1, mm_flags = 0\<rparr>, \<lparr>mm_addr = 0x9F000, mm_len = 0x1000, mm_type = 2, mm_flags = 0\<rparr>,
     \<lparr>mm_addr = 0x100000, mm_len = 0x7F00000, mm_type = 1, mm_flags = 0\<rparr>]"

definition pc_boot :: boot_info where
  "pc_boot = \<lparr>bi_pa = 0x8000, bi_mmap_addr = 0x9000, bi_mmap = pc_map, bi_elf_hdr = 0x10000, bi_phdrs = []\<rparr>"

definition pc_mem :: mem where
  "pc_mem = one_block\<lparr>npages := 2048, plinks := \<lparr>lnext = (\<lambda>n. n), lprev = (\<lambda>n. n)\<rparr>\<rparr>"

lemma pc_boot_mem: "boot_mem pc_mem"
  by (auto simp: boot_mem_def pc_mem_def one_block_def locks_idle_def idle_lock_def dlist_def)

lemma pc_boot_entries: "sorted_wrt (\<lambda>a b. entry_frames a \<inter> entry_frames b = {}) (free_entries (bi_mmap pc_boot))"
  by (simp add: pc_boot_def pc_map_def free_entries_def MMAP_FREE_def entry_frames_def ROUNDUP_def ROUNDDOWN_def PAGE_SIZE_def)

theorem page_init_spec_witness:
  "\<exists>pages_va next_free s'. boot_alloc (KERNEL_VMA + 0x180000) 131072 0 = Some (pages_va, next_free)
    \<and> page_init (KERNEL_VMA + 0x180000) next_free pages_va pc_boot pc_mem = Some s' \<and> allocator_ok s'
    \<and> 1 \<in> free_frames s' \<and> 7 \<notin> free_frames s'"
proof -
  let ?k = "KERNEL_VMA + 0x180000"
  have a: "boot_alloc ?k 131072 0 = Some (?k, ?k + 131072)"
    by (simp add: boot_alloc_def PADDR_def KERNEL_VMA_def BOOT_MAP_LIM_def ROUNDUP_def ROUNDDOWN_def PAGE_SIZE_def)
  obtain s' where s': "page_init ?k (?k + 131072) ?k pc_boot pc_mem = Some s'" "allocator_ok s'"
    "free_frames s' = {f. (\<exists>en \<in> set (free_entries (bi_mmap pc_boot)). f \<in> entry_frames en)
        \<and> page2pa f \<noteq> MPENTRY_PADDR \<and> \<not> reserved_frame pc_boot (?k + 131072 - KERNEL_VMA) (page2pa f)}"
    using page_init_spec [OF pc_boot_mem a _ _ _ pc_boot_entries]
    by (auto simp: KERNEL_VMA_def KERNEL_LMA_def BOOT_MAP_LIM_def pc_boot_def)
  have "1 \<in> free_frames s'"
    unfolding s'(3)
    by (simp add: pc_boot_def pc_map_def free_entries_def MMAP_FREE_def entry_frames_def ROUNDUP_def ROUNDDOWN_def PAGE_SIZE_def
        page2pa_def PAGE_TABLE_SHIFT_def MPENTRY_PADDR_def reserved_frame_def KERNEL_LMA_def SIZEOF_BOOT_INFO_def SIZEOF_VOID_def)
  moreover have "7 \<notin> free_frames s'"
    unfolding s'(3) by (simp add: page2pa_def PAGE_TABLE_SHIFT_def MPENTRY_PADDR_def)
  ultimately show ?thesis using a s'(1,2) by blast
qed

section \<open>Rounding the memory map\<close>

lemma align_entry_free:
  assumes "mm_type en = MMAP_FREE"
  shows "mm_addr (align_entry en) = ROUNDUP (mm_addr en) PAGE_SIZE"
    "mm_len (align_entry en) = ROUNDDOWN (mm_addr en + mm_len en) PAGE_SIZE - ROUNDUP (mm_addr en) PAGE_SIZE"
  using assms by (simp_all add: align_entry_def Let_def algebra_simps)

text \<open>
  Rounding a free region of the memory map inwards keeps it inside the region exactly when the region contains a
  page boundary; a region inside a single page gets a length of almost \<^verbatim>\<open>2^64\<close>.
\<close>

theorem align_entry_inside:
  assumes "mm_type en = MMAP_FREE" "unat (mm_addr en) + unat (mm_len en) + 4096 \<le> 2 ^ 64"
  shows "unat (mm_addr (align_entry en)) + unat (mm_len (align_entry en)) \<le> unat (mm_addr en) + unat (mm_len en)
    \<longleftrightarrow> ROUNDUP (mm_addr en) PAGE_SIZE \<le> mm_addr en + mm_len en"
proof -
  let ?b = "ROUNDUP (mm_addr en) PAGE_SIZE" and ?t = "mm_addr en + mm_len en"
  let ?l = "ROUNDDOWN ?t PAGE_SIZE"
  have t: "unat ?t = unat (mm_addr en) + unat (mm_len en)" using assms(2) by (simp add: unat_word_ariths)
  have l: "unat ?l \<le> unat ?t" "unat ?t < unat ?l + 4096"
    using ROUNDDOWN_le [of ?t PAGE_SIZE] ROUNDDOWN_gt [of PAGE_SIZE ?t] by (simp_all add: word_le_nat_alt PAGE_SIZE_def)
  show ?thesis
  proof (cases "?b \<le> ?t")
    case True
    then have "?b \<le> ?l"
      using l rounded_aligned [of ?t] rounded_aligned(2) [of "mm_addr en"] unfolding page_aligned_dvd word_le_nat_alt
      by (auto elim!: dvdE)
    then have "unat ?b + unat (?l - ?b) = unat ?l" by (simp add: unat_sub word_le_nat_alt)
    then show ?thesis using True l(1) t by (simp add: align_entry_free [OF assms(1)])
  next
    case False
    then have "unat ?t < unat ?b" by (simp add: word_le_nat_alt)
    then show ?thesis using False t by (simp add: align_entry_free [OF assms(1)])
  qed
qed

theorem align_entry_inside_witness:
  "mm_len (align_entry \<lparr>mm_addr = 0x9F800, mm_len = 0x400, mm_type = 1, mm_flags = 0\<rparr>) = - 0x1000
    \<and> \<not> unat (mm_addr (align_entry \<lparr>mm_addr = 0x9F800, mm_len = 0x400, mm_type = 1, mm_flags = 0\<rparr>))
        + unat (mm_len (align_entry \<lparr>mm_addr = 0x9F800, mm_len = 0x400, mm_type = 1, mm_flags = 0\<rparr>)) \<le> 0x9FC00"
  using align_entry_inside [of "\<lparr>mm_addr = 0x9F800, mm_len = 0x400, mm_type = 1, mm_flags = 0\<rparr>"]
  by (simp add: align_entry_free MMAP_FREE_def ROUNDUP_def ROUNDDOWN_def PAGE_SIZE_def)

section \<open>Moving the descriptors\<close>

lemma update_fold:
  assumes "distinct as"
  shows "ptr_next (fold (update_node pv n) as g) a = (if a \<in> set as then update_ptr pv n (ptr_next g a) else ptr_next g a)"
    "ptr_prev (fold (update_node pv n) as g) a = (if a \<in> set as then update_ptr pv n (ptr_prev g a) else ptr_prev g a)"
  using assms by (induction as arbitrary: g) (auto simp: update_node_def)

text \<open>The address of a list node of the allocator, and a heap of addresses that stores a heap of nodes.\<close>

fun node_va :: "u64 \<Rightarrow> u64 \<Rightarrow> pnode \<Rightarrow> u64" where
  "node_va fl pv (FreeList k) = fl + of_nat k * 16"
| "node_va fl pv (PPNode i) = pv + of_nat i * SIZEOF_PAGE_INFO"
| "node_va fl pv n = 0"

definition free_list_node :: "nat \<Rightarrow> pnode \<Rightarrow> bool" where
  "free_list_node n m \<longleftrightarrow> (\<exists>k<10. m = FreeList k) \<or> (\<exists>i<n. m = PPNode i)"

definition stores_links :: "u64 \<Rightarrow> u64 \<Rightarrow> u64 \<Rightarrow> nat \<Rightarrow> pnode lheap \<Rightarrow> ptr_heap \<Rightarrow> bool" where
  "stores_links fl pv pv' n h g \<longleftrightarrow> (\<forall>m. free_list_node n m \<longrightarrow>
     ptr_next g (node_va fl pv m) = node_va fl pv' (lnext h m) \<and> ptr_prev g (node_va fl pv m) = node_va fl pv' (lprev h m))"

text \<open>The array and the anchors do not overlap and do not wrap around the address space.\<close>

definition apart :: "u64 \<Rightarrow> u64 \<Rightarrow> nat \<Rightarrow> bool" where
  "apart fl pv n \<longleftrightarrow> 64 * n < 2 ^ 39 \<and> unat pv + 64 * n < 2 ^ 64 \<and> unat fl + 160 < 2 ^ 64
     \<and> (unat fl + 160 \<le> unat pv \<or> unat pv + 64 * n \<le> unat fl)"

lemma node_va_unat:
  assumes "apart fl pv n"
  shows "i < n \<Longrightarrow> unat (node_va fl pv (PPNode i)) = unat pv + 64 * i"
    "k < 10 \<Longrightarrow> unat (node_va fl pv (FreeList k)) = unat fl + 16 * k"
  using assms by (simp_all add: apart_def SIZEOF_PAGE_INFO_def unat_word_ariths unat_of_nat)

lemma update_node_va:
  assumes "apart fl pv n" "free_list_node n m"
  shows "update_ptr pv n (node_va fl pv m) = node_va fl KPAGES m"
proof -
  have "unat (pv + of_nat n * SIZEOF_PAGE_INFO) = unat pv + 64 * n"
    using assms(1) by (simp add: apart_def SIZEOF_PAGE_INFO_def unat_word_ariths unat_of_nat)
  then have r: "in_page_range pv n p \<longleftrightarrow> unat pv \<le> unat p \<and> unat p < unat pv + 64 * n" for p
    by (simp add: in_page_range_def word_le_nat_alt word_less_nat_alt)
  show ?thesis
  proof (cases "\<exists>k<10. m = FreeList k")
    case True
    then obtain k where k: "k < 10" "m = FreeList k" by blast
    have "\<not> in_page_range pv n (node_va fl pv m)"
      using node_va_unat(2) [OF assms(1) k(1)] assms(1) k unfolding r apart_def by auto
    then show ?thesis by (simp add: update_ptr_def k(2))
  next
    case False
    then obtain i where i: "i < n" "m = PPNode i" using assms(2) by (auto simp: free_list_node_def)
    then have "in_page_range pv n (node_va fl pv m)"
      using node_va_unat(1) [OF assms(1) i(1)] unfolding r by simp
    then show ?thesis by (simp add: update_ptr_def i(2) algebra_simps)
  qed
qed

text \<open>
  C32: \<^verbatim>\<open>buddy_migrate\<close> moves the free lists: when the links stored at the nodes are the addresses of the neighbours in the
  old array, afterwards they are the addresses of the same neighbours in the array at \<^verbatim>\<open>KPAGES\<close>, and the anchors keep
  their addresses.  So the free lists are the same sequences of pages.
\<close>

theorem buddy_migrate_spec:
  assumes "apart fl pv n" "stores_links fl pv pv n h g"
    and "\<forall>m. free_list_node n m \<longrightarrow> free_list_node n (lnext h m) \<and> free_list_node n (lprev h m)"
  shows "fst (buddy_migrate fl pv n g) = KPAGES \<and> stores_links fl pv KPAGES n h (snd (buddy_migrate fl pv n g))"
proof -
  let ?as = "map (\<lambda>i. node_va fl pv (PPNode i)) [0..<n] @ map (\<lambda>k. node_va fl pv (FreeList k)) [0..<10]"
  have "unat (node_va fl pv (PPNode i)) \<noteq> unat (node_va fl pv (FreeList k))" if "i < n" "k < 10" for i k
    unfolding node_va_unat(1) [OF assms(1) that(1)] node_va_unat(2) [OF assms(1) that(2)]
    using assms(1) that by (auto simp: apart_def)
  moreover have "inj_on (\<lambda>i. node_va fl pv (PPNode i)) {0..<n}"
    by (rule inj_onI) (metis (no_types) node_va_unat(1) [OF assms(1)] add_left_cancel atLeastLessThan_iff mult_cancel1 zero_neq_numeral)
  moreover have "inj_on (\<lambda>k. node_va fl pv (FreeList k)) {0..<10}"
    by (rule inj_onI) (metis (no_types) node_va_unat(2) [OF assms(1)] add_left_cancel atLeastLessThan_iff mult_cancel1 zero_neq_numeral)
  ultimately have d: "distinct ?as"
    unfolding distinct_append distinct_map by (auto simp del: node_va.simps) metis
  have m: "snd (buddy_migrate fl pv n g) = fold (update_node pv n) ?as g"
    by (simp add: buddy_migrate_def BUDDY_MAX_ORDER_def BUDDY_2M_PAGE_def fold_map comp_def)
  have i: "node_va fl pv m \<in> set ?as" if "free_list_node n m" for m
    using that by (auto simp: free_list_node_def simp del: node_va.simps)
  have "ptr_next (fold (update_node pv n) ?as g) (node_va fl pv m) = node_va fl KPAGES (lnext h m)"
    "ptr_prev (fold (update_node pv n) ?as g) (node_va fl pv m) = node_va fl KPAGES (lprev h m)" if "free_list_node n m" for m
    unfolding update_fold [OF d] using assms(2,3) that i [OF that] update_node_va [OF assms(1)]
    by (simp_all add: stores_links_def del: node_va.simps set_append)
  then show ?thesis
    unfolding stores_links_def m by (simp add: buddy_migrate_def Let_def del: node_va.simps fold_append)
qed

text \<open>One page, alone on the free list of order 0.\<close>

definition one_page_links :: "pnode lheap" where
  "one_page_links = \<lparr>lnext = (\<lambda>n. if n = FreeList 0 then PPNode 0 else if n = PPNode 0 then FreeList 0 else n),
     lprev = (\<lambda>n. if n = FreeList 0 then PPNode 0 else if n = PPNode 0 then FreeList 0 else n)\<rparr>"

definition one_page_ptrs :: ptr_heap where
  "one_page_ptrs = \<lparr>ptr_next = (\<lambda>a. if a = 0x1000 then 0x2000 else if a = 0x2000 then 0x1000 else a),
     ptr_prev = (\<lambda>a. if a = 0x1000 then 0x2000 else if a = 0x2000 then 0x1000 else a)\<rparr>"

theorem buddy_migrate_spec_witness:
  "ptr_next (snd (buddy_migrate 0x1000 0x2000 1 one_page_ptrs)) 0x1000 = KPAGES
    \<and> ptr_next (snd (buddy_migrate 0x1000 0x2000 1 one_page_ptrs)) 0x2000 = 0x1000"
proof -
  have "k = 0 \<or> k = 1 \<or> k = 2 \<or> k = 3 \<or> k = 4 \<or> k = 5 \<or> k = 6 \<or> k = 7 \<or> k = 8 \<or> k = 9" if "k < 10" for k :: nat
    using that by presburger
  then have "stores_links 0x1000 0x2000 0x2000 1 one_page_links one_page_ptrs"
    by (force simp: stores_links_def free_list_node_def one_page_links_def one_page_ptrs_def SIZEOF_PAGE_INFO_def)
  moreover have "\<forall>m. free_list_node 1 m \<longrightarrow> free_list_node 1 (lnext one_page_links m) \<and> free_list_node 1 (lprev one_page_links m)"
    by (auto simp: free_list_node_def one_page_links_def)
  ultimately have s: "stores_links 0x1000 0x2000 KPAGES 1 one_page_links (snd (buddy_migrate 0x1000 0x2000 1 one_page_ptrs))"
    using buddy_migrate_spec [of "0x1000" "0x2000" 1 one_page_links one_page_ptrs] by (simp add: apart_def)
  then show ?thesis
    using s [unfolded stores_links_def, rule_format, of "FreeList 0"] s [unfolded stores_links_def, rule_format, of "PPNode 0"]
    by (simp add: free_list_node_def one_page_links_def)
qed

end
