(* ===== verification/Port_IO.thy ===== *)
theory Port_IO
  imports Prelude "HOL-Library.State_Monad"
begin

text \<open>
  The port instructions of \<^verbatim>\<open>include/x86-64/asm.h\<close> and the two small drivers that consist of nothing else: the
  interrupt controllers of \<^verbatim>\<open>kernel/pic.c\<close> and the real-time clock of \<^verbatim>\<open>kernel/rtc.c\<close>.

  The devices behind the ports are not part of the program.  They are an argument of the model: a state of any type
  and, for each width, what reading and writing a port does to that state.  Straight-line driver code is a program
  of the state monad over the state of the devices.
\<close>

section \<open>Port instructions\<close>

record 'd ports =
  in8 :: "u16 \<Rightarrow> 'd \<Rightarrow> u8 \<times> 'd"
  in16 :: "u16 \<Rightarrow> 'd \<Rightarrow> u16 \<times> 'd"
  in32 :: "u16 \<Rightarrow> 'd \<Rightarrow> u32 \<times> 'd"
  out8 :: "u16 \<Rightarrow> u8 \<Rightarrow> 'd \<Rightarrow> 'd"
  out16 :: "u16 \<Rightarrow> u16 \<Rightarrow> 'd \<Rightarrow> 'd"
  out32 :: "u16 \<Rightarrow> u32 \<Rightarrow> 'd \<Rightarrow> 'd"

definition inb :: "'d ports \<Rightarrow> u16 \<Rightarrow> ('d, u8) state" where
  "inb io port = State (in8 io port)"

definition inw :: "'d ports \<Rightarrow> u16 \<Rightarrow> ('d, u16) state" where
  "inw io port = State (in16 io port)"

definition inl :: "'d ports \<Rightarrow> u16 \<Rightarrow> ('d, u32) state" where
  "inl io port = State (in32 io port)"

definition outb :: "'d ports \<Rightarrow> u16 \<Rightarrow> u8 \<Rightarrow> ('d, unit) state" where
  "outb io port data = State (\<lambda>d. ((), out8 io port data d))"

definition outw :: "'d ports \<Rightarrow> u16 \<Rightarrow> u16 \<Rightarrow> ('d, unit) state" where
  "outw io port data = State (\<lambda>d. ((), out16 io port data d))"

definition outl :: "'d ports \<Rightarrow> u16 \<Rightarrow> u32 \<Rightarrow> ('d, unit) state" where
  "outl io port data = State (\<lambda>d. ((), out32 io port data d))"

text \<open>The repeated instructions: the units read into, or written from, the buffer in order.\<close>

primrec insb :: "'d ports \<Rightarrow> u16 \<Rightarrow> nat \<Rightarrow> ('d, u8 list) state" where
  "insb io port 0 = State_Monad.return []"
| "insb io port (Suc n) = do { x \<leftarrow> inb io port; xs \<leftarrow> insb io port n; State_Monad.return (x # xs) }"

primrec insw :: "'d ports \<Rightarrow> u16 \<Rightarrow> nat \<Rightarrow> ('d, u16 list) state" where
  "insw io port 0 = State_Monad.return []"
| "insw io port (Suc n) = do { x \<leftarrow> inw io port; xs \<leftarrow> insw io port n; State_Monad.return (x # xs) }"

primrec insl :: "'d ports \<Rightarrow> u16 \<Rightarrow> nat \<Rightarrow> ('d, u32 list) state" where
  "insl io port 0 = State_Monad.return []"
| "insl io port (Suc n) = do { x \<leftarrow> inl io port; xs \<leftarrow> insl io port n; State_Monad.return (x # xs) }"

primrec outsb :: "'d ports \<Rightarrow> u16 \<Rightarrow> u8 list \<Rightarrow> ('d, unit) state" where
  "outsb io port [] = State_Monad.return ()"
| "outsb io port (x # xs) = do { outb io port x; outsb io port xs }"

primrec outsw :: "'d ports \<Rightarrow> u16 \<Rightarrow> u16 list \<Rightarrow> ('d, unit) state" where
  "outsw io port [] = State_Monad.return ()"
| "outsw io port (x # xs) = do { outw io port x; outsw io port xs }"

primrec outsl :: "'d ports \<Rightarrow> u16 \<Rightarrow> u32 list \<Rightarrow> ('d, unit) state" where
  "outsl io port [] = State_Monad.return ()"
| "outsl io port (x # xs) = do { outl io port x; outsl io port xs }"

named_theorems monad \<open>running a program of the state monad\<close>

lemma run_bind [monad]: "run_state (State_Monad.bind m f) s = (case run_state m s of (x, s') \<Rightarrow> run_state (f x) s')"
  by (simp add: State_Monad.bind_def)

lemma run_return [monad]: "run_state (State_Monad.return x) s = (x, s)"
  by (simp add: State_Monad.return_def)

lemma run_port [monad]:
  "run_state (inb io port) d = in8 io port d" "run_state (inw io port) d = in16 io port d"
  "run_state (inl io port) d = in32 io port d" "run_state (outb io port a) d = ((), out8 io port a d)"
  "run_state (outw io port b) d = ((), out16 io port b d)" "run_state (outl io port c) d = ((), out32 io port c d)"
  by (simp_all add: inb_def inw_def inl_def outb_def outw_def outl_def)

section \<open>The interrupt controllers\<close>

definition PIC1_CMD :: u16 where "PIC1_CMD = 0x20"
definition PIC1_DATA :: u16 where "PIC1_DATA = PIC1_CMD + 1"
definition PIC2_CMD :: u16 where "PIC2_CMD = 0xa0"
definition PIC2_DATA :: u16 where "PIC2_DATA = PIC2_CMD + 1"
definition PIC_EOI :: u8 where "PIC_EOI = 0x20"
definition PIC_ICW1_ICW4 :: u8 where "PIC_ICW1_ICW4 = 0x01"
definition PIC_ICW1_INIT :: u8 where "PIC_ICW1_INIT = 0x10"
definition PIC_ICW4_8086 :: u8 where "PIC_ICW4_8086 = 0x01"
definition PIC_ICW4_AUTO :: u8 where "PIC_ICW4_AUTO = 0x02"
definition PIC_READ_IRR :: u8 where "PIC_READ_IRR = 0x0a"
definition PIC_READ_ISR :: u8 where "PIC_READ_ISR = 0x0b"
definition IRQ_SLAVE :: nat where "IRQ_SLAVE = 2"
definition IRQ_OFFSET :: u8 where "IRQ_OFFSET = 32"

definition pic_remap :: "'d ports \<Rightarrow> u8 \<Rightarrow> u8 \<Rightarrow> ('d, unit) state" where
  "pic_remap io offset1 offset2 = do {
     mask1 \<leftarrow> inb io PIC1_DATA;
     mask2 \<leftarrow> inb io PIC2_DATA;
     outb io PIC1_CMD (PIC_ICW1_INIT OR PIC_ICW1_ICW4);
     outb io PIC2_CMD (PIC_ICW1_INIT OR PIC_ICW1_ICW4);
     outb io PIC1_DATA offset1;
     outb io PIC2_DATA offset2;
     outb io PIC1_DATA (push_bit IRQ_SLAVE 1);
     outb io PIC2_DATA (of_nat IRQ_SLAVE);
     outb io PIC1_DATA (PIC_ICW4_8086 OR PIC_ICW4_AUTO);
     outb io PIC2_DATA PIC_ICW4_8086;
     outb io PIC1_DATA mask1;
     outb io PIC2_DATA mask2
   }"

definition pic_get_reg :: "'d ports \<Rightarrow> u8 \<Rightarrow> ('d, u16) state" where
  "pic_get_reg io ocw3 = do {
     outb io PIC1_CMD ocw3;
     outb io PIC2_CMD ocw3;
     hi \<leftarrow> inb io PIC2_CMD;
     lo \<leftarrow> inb io PIC1_CMD;
     State_Monad.return (push_bit 8 (ucast hi) OR ucast lo)
   }"

definition pic_get_irr :: "'d ports \<Rightarrow> ('d, u16) state" where
  "pic_get_irr io = pic_get_reg io PIC_READ_IRR"

definition pic_get_isr :: "'d ports \<Rightarrow> ('d, u16) state" where
  "pic_get_isr io = pic_get_reg io PIC_READ_ISR"

definition pic_disable_all_irqs :: "'d ports \<Rightarrow> ('d, unit) state" where
  "pic_disable_all_irqs io = do { outb io PIC1_DATA 0xff; outb io PIC2_DATA 0xff }"

text \<open>The port of the controller of an interrupt line, and the line within the controller.\<close>

definition pic_line :: "nat \<Rightarrow> u16 \<times> nat" where
  "pic_line irq = (if irq < 8 then (PIC1_DATA, irq) else (PIC2_DATA, irq - 8))"

definition pic_enable_irq :: "'d ports \<Rightarrow> nat \<Rightarrow> ('d, unit) state" where
  "pic_enable_irq io irq =
     (case pic_line irq of (port, n) \<Rightarrow> do { m \<leftarrow> inb io port; outb io port (m AND NOT (push_bit n 1)) })"

definition pic_disable_irq :: "'d ports \<Rightarrow> nat \<Rightarrow> ('d, unit) state" where
  "pic_disable_irq io irq =
     (case pic_line irq of (port, n) \<Rightarrow> do { m \<leftarrow> inb io port; outb io port (m OR push_bit n 1) })"

definition pic_eoi :: "'d ports \<Rightarrow> nat \<Rightarrow> ('d, unit) state" where
  "pic_eoi io irq = do {
     (if irq \<ge> 8 then outb io PIC2_CMD PIC_EOI else State_Monad.return ());
     outb io PIC1_CMD PIC_EOI
   }"

definition pic_init :: "'d ports \<Rightarrow> ('d, unit) state" where
  "pic_init io = do {
     pic_disable_all_irqs io;
     pic_remap io IRQ_OFFSET (IRQ_OFFSET + 8);
     pic_get_irr io;
     pic_enable_irq io IRQ_SLAVE
   }"

end
