(* ===== verification/Console.thy ===== *)
theory Console
  imports Port_IO Format Spinlock Page_Walk
begin

text \<open>
  The console of the kernel: \<^verbatim>\<open>kernel/console.c\<close> (serial line, parallel port, text screen, keyboard and the ring buffer
  of input characters), \<^verbatim>\<open>kernel/printf.c\<close> and \<^verbatim>\<open>lib/readline.c\<close>.  The devices are those of \<open>Port_IO\<close>; the text screen
  is a part of the memory of bytes.  The predicate \<open>backed\<close> says which addresses are memory, so that the probe for the
  colour screen may fail.
\<close>

section \<open>State\<close>

record 'd console =
  dev :: 'd
  cmem :: bmem
  serial_exists :: bool
  addr_6845 :: u32
  crt_buf :: u64
  crt_pos :: u16
  kshift :: u32
  cbuf :: "u8 list"
  rpos :: u32
  wpos :: u32
  console_lock :: spinlock
  crank :: u64

definition run_io :: "('d, 'a) state \<Rightarrow> 'd console \<Rightarrow> 'a \<times> 'd console" where
  "run_io m s = (case run_state m (dev s) of (x, d) \<Rightarrow> (x, s\<lparr>dev := d\<rparr>))"

definition exec_io :: "('d, 'a) state \<Rightarrow> 'd console \<Rightarrow> 'd console" where
  "exec_io m s = snd (run_io m s)"

definition delay :: "'d ports \<Rightarrow> ('d, unit) state" where
  "delay io = do { inb io 0x84; inb io 0x84; inb io 0x84; inb io 0x84; State_Monad.return () }"

text \<open>The polling loop of the serial and the parallel port; the number is the rounds that are left.\<close>

primrec poll :: "'d ports \<Rightarrow> u16 \<Rightarrow> u8 \<Rightarrow> nat \<Rightarrow> ('d, unit) state" where
  "poll io port msk 0 = do { inb io port; State_Monad.return () }"
| "poll io port msk (Suc n) =
     do { x \<leftarrow> inb io port; if x AND msk \<noteq> 0 then State_Monad.return () else do { delay io; poll io port msk n } }"

section \<open>Serial line and parallel port\<close>

definition COM1 :: u16 where "COM1 = 0x3F8"
definition COM_RX :: u16 where "COM_RX = 0"
definition COM_TX :: u16 where "COM_TX = 0"
definition COM_DLL :: u16 where "COM_DLL = 0"
definition COM_DLM :: u16 where "COM_DLM = 1"
definition COM_IER :: u16 where "COM_IER = 1"
definition COM_IER_RDI :: u8 where "COM_IER_RDI = 0x01"
definition COM_IIR :: u16 where "COM_IIR = 2"
definition COM_FCR :: u16 where "COM_FCR = 2"
definition COM_LCR :: u16 where "COM_LCR = 3"
definition COM_LCR_DLAB :: u8 where "COM_LCR_DLAB = 0x80"
definition COM_LCR_WLEN8 :: u8 where "COM_LCR_WLEN8 = 0x03"
definition COM_MCR :: u16 where "COM_MCR = 4"
definition COM_LSR :: u16 where "COM_LSR = 5"
definition COM_LSR_DATA :: u8 where "COM_LSR_DATA = 0x01"
definition COM_LSR_TXRDY :: u8 where "COM_LSR_TXRDY = 0x20"

definition serial_proc_data :: "'d ports \<Rightarrow> ('d, int) state" where
  "serial_proc_data io = do {
     lsr \<leftarrow> inb io (COM1 + COM_LSR);
     if lsr AND COM_LSR_DATA = 0 then State_Monad.return (- 1)
     else do { x \<leftarrow> inb io (COM1 + COM_RX); State_Monad.return (uint x) }
   }"

definition serial_putc :: "'d ports \<Rightarrow> u32 \<Rightarrow> ('d, unit) state" where
  "serial_putc io c = do { poll io (COM1 + COM_LSR) COM_LSR_TXRDY 12800; outb io (COM1 + COM_TX) (ucast c) }"

definition serial_init :: "'d ports \<Rightarrow> ('d, bool) state" where
  "serial_init io = do {
     outb io (COM1 + COM_FCR) 0;
     outb io (COM1 + COM_LCR) COM_LCR_DLAB;
     outb io (COM1 + COM_DLL) (of_nat (115200 div 9600));
     outb io (COM1 + COM_DLM) 0;
     outb io (COM1 + COM_LCR) (COM_LCR_WLEN8 AND NOT COM_LCR_DLAB);
     outb io (COM1 + COM_MCR) 0;
     outb io (COM1 + COM_IER) COM_IER_RDI;
     lsr \<leftarrow> inb io (COM1 + COM_LSR);
     inb io (COM1 + COM_IIR);
     inb io (COM1 + COM_RX);
     State_Monad.return (lsr \<noteq> 0xFF)
   }"

definition lpt_putc :: "'d ports \<Rightarrow> u32 \<Rightarrow> ('d, unit) state" where
  "lpt_putc io c = do {
     poll io (0x378 + 1) 0x80 12800;
     outb io 0x378 (ucast c);
     outb io (0x378 + 2) (0x08 OR 0x04 OR 0x01);
     outb io (0x378 + 2) 0x08
   }"

section \<open>Text screen\<close>

definition MONO_BASE :: u32 where "MONO_BASE = 0x3B4"
definition MONO_BUF :: u64 where "MONO_BUF = 0xB0000"
definition CGA_BASE :: u32 where "CGA_BASE = 0x3D4"
definition CGA_BUF :: u64 where "CGA_BUF = 0xB8000"
definition CRT_ROWS :: u16 where "CRT_ROWS = 25"
definition CRT_COLS :: u16 where "CRT_COLS = 80"
definition CRT_SIZE :: u16 where "CRT_SIZE = CRT_ROWS * CRT_COLS"

definition read16 :: "bmem \<Rightarrow> u64 \<Rightarrow> u16" where
  "read16 m a = ucast (m a) OR push_bit 8 (ucast (m (a + 1)))"

definition write16 :: "bmem \<Rightarrow> u64 \<Rightarrow> u16 \<Rightarrow> bmem" where
  "write16 m a w = m(a := ucast w, a + 1 := ucast (drop_bit 8 w))"

definition cell :: "'d console \<Rightarrow> u16 \<Rightarrow> u64" where
  "cell s i = crt_buf s + 2 * ucast i"

definition put_cell :: "u16 \<Rightarrow> u16 \<Rightarrow> 'd console \<Rightarrow> 'd console" where
  "put_cell i w s = s\<lparr>cmem := write16 (cmem s) (cell s i) w\<rparr>"

definition cga_cursor :: "'d ports \<Rightarrow> u16 \<Rightarrow> ('d, u16) state" where
  "cga_cursor io port = do {
     outb io port 14;
     hi \<leftarrow> inb io (port + 1);
     outb io port 15;
     lo \<leftarrow> inb io (port + 1);
     State_Monad.return (push_bit 8 (ucast hi) OR ucast lo)
   }"

definition cga_init :: "'d ports \<Rightarrow> (u64 \<Rightarrow> bool) \<Rightarrow> 'd console \<Rightarrow> 'd console" where
  "cga_init io backed s =
     (let cp = KERNEL_VMA + CGA_BUF;
          was = read16 (cmem s) cp;
          m = (if backed cp then write16 (cmem s) cp 0xA55A else cmem s);
          s = (if read16 m cp \<noteq> 0xA55A then s\<lparr>cmem := m, crt_buf := KERNEL_VMA + MONO_BUF, addr_6845 := MONO_BASE\<rparr>
               else s\<lparr>cmem := (if backed cp then write16 m cp was else m), crt_buf := cp, addr_6845 := CGA_BASE\<rparr>);
          (pos, s) = run_io (cga_cursor io (ucast (addr_6845 s))) s
      in s\<lparr>crt_pos := pos\<rparr>)"

text \<open>Scrolling: the rows move up by one and the last row is filled with blanks.\<close>

primrec blank_cells :: "nat \<Rightarrow> u16 \<Rightarrow> 'd console \<Rightarrow> 'd console" where
  "blank_cells 0 i s = s"
| "blank_cells (Suc n) i s = blank_cells n (i + 1) (put_cell i (0x0700 OR 0x20) s)"

definition scroll :: "'d console \<Rightarrow> 'd console" where
  "scroll s =
     (if crt_pos s \<ge> CRT_SIZE then
        let s = s\<lparr>cmem := memmove (cmem s) (crt_buf s) (cell s CRT_COLS) (ucast (CRT_SIZE - CRT_COLS) * 2)\<rparr>;
            s = blank_cells (unat CRT_COLS) (CRT_SIZE - CRT_COLS) s
        in s\<lparr>crt_pos := crt_pos s - CRT_COLS\<rparr>
      else s)"

definition move_cursor :: "'d ports \<Rightarrow> u16 \<Rightarrow> u16 \<Rightarrow> ('d, unit) state" where
  "move_cursor io port pos = do {
     outb io port 14;
     outb io (port + 1) (ucast (drop_bit 8 pos));
     outb io port 15;
     outb io (port + 1) (ucast pos)
   }"

definition cga_finish :: "'d ports \<Rightarrow> 'd console \<Rightarrow> 'd console" where
  "cga_finish io s = (let s = scroll s in exec_io (move_cursor io (ucast (addr_6845 s)) (crt_pos s)) s)"

text \<open>The attribute of a character without one is white on black.\<close>

definition with_attribute :: "u32 \<Rightarrow> u32" where
  "with_attribute c = (if c AND NOT 0xFF = 0 then c OR 0x0700 else c)"

lemma with_attribute_char: "with_attribute c AND 0xff = c AND 0xff"
  unfolding with_attribute_def by (simp add: bit.conj_disj_distrib2)

text \<open>\<^verbatim>\<open>cons_putc\<close> and \<^verbatim>\<open>cga_putc\<close> call each other: a tabulator is put on the console as five blanks.\<close>

function cons_putc :: "'d ports \<Rightarrow> u32 \<Rightarrow> 'd console \<Rightarrow> 'd console"
  and cga_putc :: "'d ports \<Rightarrow> u32 \<Rightarrow> 'd console \<Rightarrow> 'd console" where
  "cons_putc io c s = cga_putc io c (exec_io (lpt_putc io c) (exec_io (serial_putc io c) s))"
| "cga_putc io c s =
     (let c = with_attribute c; ch = c AND 0xff in
      cga_finish io
        (if ch = 8 then
           (if crt_pos s > 0 then
              let s = s\<lparr>crt_pos := crt_pos s - 1\<rparr> in put_cell (crt_pos s) (ucast ((c AND NOT 0xff) OR 0x20)) s
            else s)
         else if ch = 10 then
           (let pos = crt_pos s + CRT_COLS in s\<lparr>crt_pos := pos - pos mod CRT_COLS\<rparr>)
         else if ch = 13 then s\<lparr>crt_pos := crt_pos s - crt_pos s mod CRT_COLS\<rparr>
         else if ch = 9 then
           cons_putc io 0x20 (cons_putc io 0x20 (cons_putc io 0x20 (cons_putc io 0x20 (cons_putc io 0x20 s))))
         else (put_cell (crt_pos s) (ucast c) s)\<lparr>crt_pos := crt_pos s + 1\<rparr>))"
  by pat_completeness auto

termination
  by (relation "measure (\<lambda>x. case x of Inl (io, c, s) \<Rightarrow> if c AND 0xff = 9 then 3 else 1
      | Inr (io, c, s) \<Rightarrow> if c AND 0xff = 9 then 2 else 0)")
    (auto simp: with_attribute_char)

declare cons_putc.simps [simp del] cga_putc.simps [simp del]

definition cputchar :: "'d ports \<Rightarrow> u32 \<Rightarrow> 'd console \<Rightarrow> 'd console" where
  "cputchar io c s = cons_putc io c s"

section \<open>Formatted output\<close>

text \<open>
  \<^verbatim>\<open>putch\<close> increments the pointer to the counter instead of the counter, so the counter keeps its value.
\<close>

definition putch :: "'d ports \<Rightarrow> 'd console put" where
  "putch io ch out = (let s = cputchar io (of_int ch) (putdat out\<lparr>cmem := omem out\<rparr>) in Out (cmem s) s)"

definition vcprintf :: "'d ports \<Rightarrow> nat \<Rightarrow> cptr \<Rightarrow> cptr list \<Rightarrow> 'd console \<Rightarrow> (int \<times> 'd console) option" where
  "vcprintf io me fmt ap s =
     (if \<not> spin_haslock me (console_lock s) then None
      else do {
        out \<leftarrow> vprintfmt (putch io) fmt ap (Out (cmem s) s);
        Some (0, putdat out\<lparr>cmem := omem out\<rparr>)
      })"

definition take_console :: "nat \<Rightarrow> 'd console \<Rightarrow> 'd console option" where
  "take_console me s =
     (if spin_haslock me (console_lock s) then Some s
      else do {
        (l, r) \<leftarrow> spin_lock me ''kernel/printf.c'' 40 (crank s) (console_lock s);
        Some (s\<lparr>console_lock := l, crank := r\<rparr>)
      })"

definition drop_console :: "nat \<Rightarrow> 'd console \<Rightarrow> 'd console option" where
  "drop_console me s =
     (if spin_haslock me (console_lock s) then
        do { (l, r) \<leftarrow> spin_unlock me (crank s) (console_lock s); Some (s\<lparr>console_lock := l, crank := r\<rparr>) }
      else Some s)"

definition cprintf :: "'d ports \<Rightarrow> nat \<Rightarrow> cptr \<Rightarrow> cptr list \<Rightarrow> 'd console \<Rightarrow> (int \<times> 'd console) option" where
  "cprintf io me fmt ap s = do {
     s \<leftarrow> take_console me s;
     (cnt, s) \<leftarrow> vcprintf io me fmt ap s;
     s \<leftarrow> drop_console me s;
     Some (cnt, s)
   }"

section \<open>Keyboard\<close>

definition SHIFT :: u32 where "SHIFT = push_bit 0 1"
definition CTL :: u32 where "CTL = push_bit 1 1"
definition ALT :: u32 where "ALT = push_bit 2 1"
definition CAPSLOCK :: u32 where "CAPSLOCK = push_bit 3 1"
definition NUMLOCK :: u32 where "NUMLOCK = push_bit 4 1"
definition SCROLLLOCK :: u32 where "SCROLLLOCK = push_bit 5 1"
definition E0ESC :: u32 where "E0ESC = push_bit 6 1"

definition KEY_HOME :: u8 where "KEY_HOME = 0xE0"
definition KEY_END :: u8 where "KEY_END = 0xE1"
definition KEY_UP :: u8 where "KEY_UP = 0xE2"
definition KEY_DN :: u8 where "KEY_DN = 0xE3"
definition KEY_LF :: u8 where "KEY_LF = 0xE4"
definition KEY_RT :: u8 where "KEY_RT = 0xE5"
definition KEY_PGUP :: u8 where "KEY_PGUP = 0xE6"
definition KEY_PGDN :: u8 where "KEY_PGDN = 0xE7"
definition KEY_INS :: u8 where "KEY_INS = 0xE8"
definition KEY_DEL :: u8 where "KEY_DEL = 0xE9"
definition KBSTATP :: u16 where "KBSTATP = 0x64"
definition KBS_DIB :: u8 where "KBS_DIB = 0x01"
definition KBDATAP :: u16 where "KBDATAP = 0x60"

definition shiftcode :: "u8 \<Rightarrow> u32" where
  "shiftcode d =
     (if d = 0x1D \<or> d = 0x9D then CTL else if d = 0x2A \<or> d = 0x36 then SHIFT else if d = 0x38 \<or> d = 0xB8 then ALT else 0)"

definition togglecode :: "u8 \<Rightarrow> u32" where
  "togglecode d = (if d = 0x3A then CAPSLOCK else if d = 0x45 then NUMLOCK else if d = 0x46 then SCROLLLOCK else 0)"

text \<open>A table of 256 entries, given by its first entries and by designated ones; the others are 0.\<close>

definition table :: "u8 list \<Rightarrow> (u8 \<times> u8) list \<Rightarrow> u8 \<Rightarrow> u8" where
  "table xs special d =
     (case map_of special d of Some v \<Rightarrow> v | None \<Rightarrow> if unat d < length xs then xs ! unat d else 0)"

definition chars :: "string \<Rightarrow> u8 list" where
  "chars cs = map of_char cs"

definition keypad :: "u8 list" where
  "keypad = replicate 13 0 @ chars ''789-456+1230.'' @ replicate 4 0"

definition special_keys :: "(u8 \<times> u8) list" where
  "special_keys =
     [(0xC7, KEY_HOME), (0x9C, 10), (0xB5, 0x2F), (0xC8, KEY_UP), (0xC9, KEY_PGUP), (0xCB, KEY_LF), (0xCD, KEY_RT),
      (0xCF, KEY_END), (0xD0, KEY_DN), (0xD1, KEY_PGDN), (0xD2, KEY_INS), (0xD3, KEY_DEL)]"

definition normalmap :: "u8 \<Rightarrow> u8" where
  "normalmap =
     table ([0, 0x1B] @ chars ''1234567890-='' @ [8, 9] @ chars ''qwertyuiop[]'' @ [10, 0] @ chars ''asdfghjkl;''
       @ [0x27, 0x60, 0, 0x5C] @ chars ''zxcvbnm,./'' @ [0, 0x2A, 0, 0x20] @ keypad) special_keys"

definition shiftmap :: "u8 \<Rightarrow> u8" where
  "shiftmap =
     table ([0, 0x1B] @ chars ''!@#$%^&*()_+'' @ [8, 9] @ chars ''QWERTYUIOP{}'' @ [10, 0] @ chars ''ASDFGHJKL:''
       @ [0x22, 0x7E, 0, 0x7C] @ chars ''ZXCVBNM<>?'' @ [0, 0x2A, 0, 0x20] @ keypad) special_keys"

definition C_key :: "u8 \<Rightarrow> u8" where
  "C_key x = x - 0x40"

definition ctlmap :: "u8 \<Rightarrow> u8" where
  "ctlmap =
     table (replicate 16 0 @ map C_key (chars ''QWERTYUIOP'') @ [0, 0, 13, 0] @ map C_key (chars ''ASDFGHJKL'')
       @ [0, 0, 0, 0, C_key 0x5C] @ map C_key (chars ''ZXCVBNM'') @ [0, 0, C_key 0x2F, 0, 0])
       ((0x97, KEY_HOME) # (0xB5, C_key 0x2F) # drop 3 special_keys)"

definition charcode :: "u32 \<Rightarrow> u8 \<Rightarrow> u8" where
  "charcode i = (if i = 0 then normalmap else if i = 1 then shiftmap else ctlmap)"

definition swap_case :: "int \<Rightarrow> int" where
  "swap_case c = (if 97 \<le> c \<and> c \<le> 122 then c - 32 else if 65 \<le> c \<and> c \<le> 90 then c + 32 else c)"

definition reboot_message :: cptr where
  "reboot_message = Lit (''Rebooting!'' @ [CHR 0x0A]) 0"

text \<open>The effect of one scan code: the character, if the code completes one, and the state of the shift keys.\<close>

definition kbd_decode :: "u8 \<Rightarrow> u32 \<Rightarrow> int \<times> u32" where
  "kbd_decode data shift =
     (if data = 0xE0 then (0, shift OR E0ESC)
      else if data AND 0x80 \<noteq> 0 then
        (let data = (if shift AND E0ESC \<noteq> 0 then data else data AND 0x7F)
         in (0, shift AND NOT (shiftcode data OR E0ESC)))
      else
        (let (data, shift) = (if shift AND E0ESC \<noteq> 0 then (data OR 0x80, shift AND NOT E0ESC) else (data, shift));
             shift = shift OR shiftcode data;
             shift = shift XOR togglecode data;
             c = uint (charcode (shift AND (CTL OR SHIFT)) data)
         in (if shift AND CAPSLOCK \<noteq> 0 then swap_case c else c, shift)))"

definition kbd_reboots :: "int \<Rightarrow> u32 \<Rightarrow> bool" where
  "kbd_reboots c shift \<longleftrightarrow> NOT shift AND (CTL OR ALT) = 0 \<and> c = uint KEY_DEL"

text \<open>The early returns of the code, for an escape code and for the release of a key, skip the test for the reboot.\<close>

definition kbd_proc_data :: "'d ports \<Rightarrow> nat \<Rightarrow> 'd console \<Rightarrow> (int \<times> 'd console) option" where
  "kbd_proc_data io me s =
     (let (st, s) = run_io (inb io KBSTATP) s in
      if st AND KBS_DIB = 0 then Some (- 1, s)
      else
        let (data, s) = run_io (inb io KBDATAP) s;
            (c, shift) = kbd_decode data (kshift s);
            s = s\<lparr>kshift := shift\<rparr>
        in if data AND 0x80 = 0 \<and> kbd_reboots c shift then
             do { (_, s) \<leftarrow> cprintf io me reboot_message [] s; Some (c, exec_io (outb io 0x92 0x3) s) }
           else Some (c, s))"

section \<open>Input buffer\<close>

definition CONSBUFSIZE :: nat where "CONSBUFSIZE = 512"

definition cons_push :: "int \<Rightarrow> 'd console \<Rightarrow> 'd console option" where
  "cons_push c s =
     (if unat (wpos s) < CONSBUFSIZE then
        let s = s\<lparr>cbuf := (cbuf s)[unat (wpos s) := of_int c], wpos := wpos s + 1\<rparr>
        in Some (if unat (wpos s) = CONSBUFSIZE then s\<lparr>wpos := 0\<rparr> else s)
      else None)"

partial_function (option) cons_intr ::
    "('d console \<Rightarrow> (int \<times> 'd console) option) \<Rightarrow> 'd console \<Rightarrow> 'd console option" where
  "cons_intr proc s = do {
     (c, s) \<leftarrow> proc s;
     if c = - 1 then Some s
     else if c = 0 then cons_intr proc s
     else do { s \<leftarrow> cons_push c s; cons_intr proc s }
   }"

declare cons_intr.simps [code]

definition serial_intr :: "'d ports \<Rightarrow> 'd console \<Rightarrow> 'd console option" where
  "serial_intr io s =
     (if serial_exists s then cons_intr (\<lambda>s. Some (run_io (serial_proc_data io) s)) s else Some s)"

definition kbd_intr :: "'d ports \<Rightarrow> nat \<Rightarrow> 'd console \<Rightarrow> 'd console option" where
  "kbd_intr io me s = cons_intr (kbd_proc_data io me) s"

definition kbd_init :: "'d ports \<Rightarrow> nat \<Rightarrow> 'd console \<Rightarrow> 'd console option" where
  "kbd_init io me s = do { s \<leftarrow> kbd_intr io me s; Some (exec_io (pic_enable_irq io 1) s) }"

definition cons_pop :: "'d console \<Rightarrow> (int \<times> 'd console) option" where
  "cons_pop s =
     (if rpos s \<noteq> wpos s then
        (if unat (rpos s) < CONSBUFSIZE then
           let c = cbuf s ! unat (rpos s); s = s\<lparr>rpos := rpos s + 1\<rparr>
           in Some (uint c, if unat (rpos s) = CONSBUFSIZE then s\<lparr>rpos := 0\<rparr> else s)
         else None)
      else Some (0, s))"

definition cons_getc :: "'d ports \<Rightarrow> nat \<Rightarrow> 'd console \<Rightarrow> (int \<times> 'd console) option" where
  "cons_getc io me s = do { s \<leftarrow> serial_intr io s; s \<leftarrow> kbd_intr io me s; cons_pop s }"

definition no_serial_message :: cptr where
  "no_serial_message = Lit (''Serial port does not exist!'' @ [CHR 0x0A]) 0"

definition cons_init :: "'d ports \<Rightarrow> (u64 \<Rightarrow> bool) \<Rightarrow> nat \<Rightarrow> 'd console \<Rightarrow> 'd console option" where
  "cons_init io backed me s = do {
     s \<leftarrow> kbd_init io me (cga_init io backed s);
     (case run_io (serial_init io) s of (ex, s) \<Rightarrow>
        let s = s\<lparr>serial_exists := ex\<rparr> in
        if \<not> ex then do { (_, s) \<leftarrow> cprintf io me no_serial_message [] s; Some s } else Some s)
   }"

partial_function (option) getchar :: "'d ports \<Rightarrow> nat \<Rightarrow> 'd console \<Rightarrow> (int \<times> 'd console) option" where
  "getchar io me s = do { (c, s) \<leftarrow> cons_getc io me s; if c = 0 then getchar io me s else Some (c, s) }"

declare getchar.simps [code]

definition iscons :: "int \<Rightarrow> int" where
  "iscons fdnum = 1"

section \<open>Reading a line\<close>

definition BUFLEN :: nat where "BUFLEN = 1024"

text \<open>\<open>line_buf\<close> is the line read so far; the null byte is added when the line is returned.  \<open>None\<close> as the line: a read error.\<close>

partial_function (option) readline_loop ::
    "'d ports \<Rightarrow> nat \<Rightarrow> bool \<Rightarrow> u8 list \<Rightarrow> 'd console \<Rightarrow> (u8 list option \<times> 'd console) option" where
  "readline_loop io me echoing line_buf s = do {
     (c, s) \<leftarrow> getchar io me s;
     if c < 0 then
       do { (_, s) \<leftarrow> cprintf io me (Lit (''read error: %e'' @ [CHR 0x0A]) 0) [Mem (of_int c)] s; Some (None, s) }
     else if (c = 8 \<or> c = 0x7F) \<and> line_buf \<noteq> [] then
       readline_loop io me echoing (butlast line_buf) (if echoing then cputchar io 8 s else s)
     else if c \<ge> 0x20 \<and> length line_buf < BUFLEN - 1 then
       readline_loop io me echoing (line_buf @ [of_int c]) (if echoing then cputchar io (of_int c) s else s)
     else if c = 10 \<or> c = 13 then
       Some (Some (line_buf @ [0]), if echoing then cputchar io 10 s else s)
     else readline_loop io me echoing line_buf s
   }"

declare readline_loop.simps [code]

definition readline :: "'d ports \<Rightarrow> nat \<Rightarrow> cptr option \<Rightarrow> 'd console \<Rightarrow> (u8 list option \<times> 'd console) option" where
  "readline io me prompt s = do {
     s \<leftarrow> (case prompt of Some p \<Rightarrow> do { (_, s) \<leftarrow> cprintf io me (Lit ''%s'' 0) [p] s; Some s } | None \<Rightarrow> Some s);
     readline_loop io me (iscons 0 \<noteq> 0) [] s
   }"

end
