(* ===== verification/Console_Inv.thy ===== *)
theory Console_Inv
  imports Console
begin

text \<open>
  The console keeps its state well formed.  The output routines write only the text screen; the input routines keep
  the positions of the ring buffer in range, and the buffer is a queue as long as fewer than 512 characters wait.
\<close>

section \<open>Output stays on the screen\<close>

definition screen_ok :: "'d console \<Rightarrow> bool" where
  "screen_ok s \<longleftrightarrow> crt_buf s \<in> {KERNEL_VMA + CGA_BUF, KERNEL_VMA + MONO_BUF} \<and> crt_pos s < CRT_SIZE"

text \<open>What a state may differ in after output: the devices, the position on the screen and the bytes of the screen.\<close>

definition screen_only :: "'d console \<Rightarrow> 'd console \<Rightarrow> bool" where
  "screen_only s s' \<longleftrightarrow>
     s' = s\<lparr>dev := dev s', cmem := cmem s', crt_pos := crt_pos s'\<rparr>
     \<and> (\<forall>a. 4000 \<le> unat (a - crt_buf s) \<longrightarrow> cmem s' a = cmem s a)"

lemma screen_only_refl [simp]: "screen_only s s"
  by (simp add: screen_only_def)

lemma screen_only_fields:
  assumes "screen_only s s'"
  shows "crt_buf s' = crt_buf s" "addr_6845 s' = addr_6845 s" "serial_exists s' = serial_exists s" "kshift s' = kshift s"
    "cbuf s' = cbuf s" "rpos s' = rpos s" "wpos s' = wpos s" "console_lock s' = console_lock s" "crank s' = crank s"
proof -
  obtain d m p where s: "s' = s\<lparr>dev := d, cmem := m, crt_pos := p\<rparr>"
    using assms unfolding screen_only_def by blast
  show "crt_buf s' = crt_buf s" "addr_6845 s' = addr_6845 s" "serial_exists s' = serial_exists s" "kshift s' = kshift s"
    "cbuf s' = cbuf s" "rpos s' = rpos s" "wpos s' = wpos s" "console_lock s' = console_lock s" "crank s' = crank s"
    by (simp_all add: s)
qed

lemma screen_only_trans:
  assumes "screen_only s t" "screen_only t u"
  shows "screen_only s u"
  using assms screen_only_fields [OF assms(1)] screen_only_fields [OF assms(2)]
  by (auto simp: screen_only_def intro!: console.equality)

lemma exec_io_screen [simp]:
  "screen_only s (exec_io m s)" "crt_pos (exec_io m s) = crt_pos s" "cmem (exec_io m s) = cmem s"
  "crt_buf (exec_io m s) = crt_buf s"
  by (simp_all add: exec_io_def run_io_def screen_only_def split: prod.split)

lemma pos_screen [simp]: "screen_only s (s\<lparr>crt_pos := p\<rparr>)"
  by (simp add: screen_only_def)

lemma unat_cell:
  assumes "unat i < 2000"
  shows "unat (2 * ucast (i :: u16) :: u64) = 2 * unat i" "unat (2 * ucast i + 1 :: u64) = 2 * unat i + 1"
proof -
  have u: "unat (ucast i :: u64) = unat i" using assms by (simp add: unsigned_ucast_eq take_bit_nat_eq_self)
  show e: "unat (2 * ucast i :: u64) = 2 * unat i"
    using assms by (simp add: unat_word_ariths u)
  show "unat (2 * ucast i + 1 :: u64) = 2 * unat i + 1"
    using assms by (simp add: unat_word_ariths u)
qed

lemma put_cell_screen:
  assumes "unat i < 2000"
  shows "screen_only s (put_cell i w s)" "crt_pos (put_cell i w s) = crt_pos s"
proof -
  have "a \<noteq> cell s i \<and> a \<noteq> cell s i + 1" if "4000 \<le> unat (a - crt_buf s)" for a
    using that assms unat_cell [OF assms] by (auto simp: cell_def add.assoc)
  then show "screen_only s (put_cell i w s)"
    by (auto simp: screen_only_def put_cell_def write16_def)
qed (simp add: put_cell_def)

lemma blank_cells_screen:
  "unat i + n \<le> 2000 \<Longrightarrow> screen_only s (blank_cells n i s) \<and> crt_pos (blank_cells n i s) = crt_pos s"
proof (induction n arbitrary: i s)
  case (Suc n)
  have i: "unat i < 2000" using Suc.prems by simp
  then have "unat (i + 1) = unat i + 1"
    by (simp add: unat_word_ariths)
  with Suc.prems have "screen_only (put_cell i (0x0700 OR 0x20) s) (blank_cells (Suc n) i s)
      \<and> crt_pos (blank_cells (Suc n) i s) = crt_pos (put_cell i (0x0700 OR 0x20) s)"
    using Suc.IH [of "i + 1" "put_cell i (0x0700 OR 0x20) s"] by simp
  with put_cell_screen [OF i] show ?case by (metis screen_only_trans)
qed simp

lemma crt_consts: "unat CRT_SIZE = 2000" "unat CRT_COLS = 80"
  by (simp_all add: CRT_SIZE_def CRT_ROWS_def CRT_COLS_def)

lemma scroll_screen:
  assumes "crt_buf s \<in> {KERNEL_VMA + CGA_BUF, KERNEL_VMA + MONO_BUF}" "crt_pos s < CRT_SIZE + CRT_COLS"
  shows "screen_only s (scroll s) \<and> screen_ok (scroll s)"
proof (cases "crt_pos s \<ge> CRT_SIZE")
  case True
  let ?n = "ucast (CRT_SIZE - CRT_COLS) * 2 :: u64"
  let ?t = "s\<lparr>cmem := memmove (cmem s) (crt_buf s) (cell s CRT_COLS) ?n\<rparr>"
  have n: "unat ?n = 3840" by (simp add: CRT_SIZE_def CRT_ROWS_def CRT_COLS_def)
  have "memmove (cmem s) (crt_buf s) (cell s CRT_COLS) ?n = copied (cmem s) (crt_buf s) (cell s CRT_COLS) 3840"
    using memmove_core [of "cell s CRT_COLS" ?n "crt_buf s" "cmem s"] assms(1) n
    by (auto simp: cell_def CRT_COLS_def KERNEL_VMA_def CGA_BUF_def MONO_BUF_def)
  then have t: "screen_only s ?t" by (simp add: screen_only_def copied_def)
  have b: "screen_only ?t (blank_cells (unat CRT_COLS) (CRT_SIZE - CRT_COLS) ?t)"
    "crt_pos (blank_cells (unat CRT_COLS) (CRT_SIZE - CRT_COLS) ?t) = crt_pos s"
    using blank_cells_screen [of "CRT_SIZE - CRT_COLS" "unat CRT_COLS" ?t]
    by (simp_all add: CRT_SIZE_def CRT_ROWS_def CRT_COLS_def)
  have "crt_pos s - CRT_COLS < CRT_SIZE"
    using True assms(2) by (simp add: word_less_nat_alt word_le_nat_alt unat_sub CRT_SIZE_def CRT_ROWS_def CRT_COLS_def)
  moreover have sc: "scroll s = (blank_cells (unat CRT_COLS) (CRT_SIZE - CRT_COLS) ?t)\<lparr>crt_pos := crt_pos s - CRT_COLS\<rparr>"
    using True b(2) by (simp add: scroll_def Let_def)
  moreover have o: "screen_only s (scroll s)"
    unfolding sc by (rule screen_only_trans [OF screen_only_trans [OF t b(1)] pos_screen])
  ultimately show ?thesis using assms(1) screen_only_fields(1) [OF o] by (simp add: screen_ok_def)
next
  case False
  then show ?thesis using assms(1) by (auto simp: scroll_def screen_ok_def)
qed

lemma cga_finish_screen:
  assumes "screen_only s0 s" "crt_buf s \<in> {KERNEL_VMA + CGA_BUF, KERNEL_VMA + MONO_BUF}" "crt_pos s < CRT_SIZE + CRT_COLS"
  shows "screen_only s0 (cga_finish io s) \<and> screen_ok (cga_finish io s)"
  using assms(1) scroll_screen [OF assms(2,3)] screen_only_trans
  by (auto simp: cga_finish_def Let_def screen_ok_def intro: screen_only_trans)

lemma pos_bounds:
  assumes "(p :: u16) < CRT_SIZE"
  shows "p + 1 < CRT_SIZE + CRT_COLS" "p < CRT_SIZE + CRT_COLS" "p - p mod CRT_COLS < CRT_SIZE + CRT_COLS"
    "p + CRT_COLS - (p + CRT_COLS) mod CRT_COLS < CRT_SIZE + CRT_COLS" "p - 1 < CRT_SIZE \<or> p = 0"
proof -
  have p: "unat p < 2000" using assms by (simp add: word_less_nat_alt crt_consts)
  have s: "unat (CRT_SIZE + CRT_COLS) = 2080" by (simp add: CRT_SIZE_def CRT_ROWS_def CRT_COLS_def)
  have c: "unat (p + CRT_COLS) = unat p + 80" "unat (p + 1) = unat p + 1" using p by (simp_all add: unat_word_ariths crt_consts)
  have m: "q - q mod CRT_COLS \<le> q" for q :: u16
  proof -
    have "q mod CRT_COLS \<le> q" by (simp add: word_le_nat_alt unat_mod)
    then show ?thesis by (simp add: word_le_nat_alt unat_sub)
  qed
  show "p + 1 < CRT_SIZE + CRT_COLS" "p < CRT_SIZE + CRT_COLS" using p s c by (simp_all add: word_less_nat_alt)
  then show "p - p mod CRT_COLS < CRT_SIZE + CRT_COLS" using m le_less_trans by blast
  have "p + CRT_COLS < CRT_SIZE + CRT_COLS" using p s c by (simp add: word_less_nat_alt)
  then show "p + CRT_COLS - (p + CRT_COLS) mod CRT_COLS < CRT_SIZE + CRT_COLS" using m le_less_trans by blast
  show "p - 1 < CRT_SIZE \<or> p = 0"
    using p by (cases "p = 0") (auto simp: word_less_nat_alt crt_consts unat_minus_one)
qed

text \<open>The state before the cursor is moved, for a character other than the tabulator.\<close>

definition cga_cell :: "u32 \<Rightarrow> 'd console \<Rightarrow> 'd console" where
  "cga_cell c s =
     (if c AND 0xff = 8 then
        (if crt_pos s > 0 then
           let s = s\<lparr>crt_pos := crt_pos s - 1\<rparr> in put_cell (crt_pos s) (ucast ((c AND NOT 0xff) OR 0x20)) s
         else s)
      else if c AND 0xff = 10 then
        (let pos = crt_pos s + CRT_COLS in s\<lparr>crt_pos := pos - pos mod CRT_COLS\<rparr>)
      else if c AND 0xff = 13 then s\<lparr>crt_pos := crt_pos s - crt_pos s mod CRT_COLS\<rparr>
      else (put_cell (crt_pos s) (ucast c) s)\<lparr>crt_pos := crt_pos s + 1\<rparr>)"

lemma cga_putc_cell: "c AND 0xff \<noteq> 9 \<Longrightarrow> cga_putc io c s = cga_finish io (cga_cell (with_attribute c) s)"
  by (simp add: cga_putc.simps [of io c s] with_attribute_char cga_cell_def Let_def)

lemma cga_cell_screen:
  assumes "screen_ok s"
  shows "screen_only s (cga_cell c s) \<and> crt_pos (cga_cell c s) < CRT_SIZE + CRT_COLS"
proof -
  have p: "crt_pos s < CRT_SIZE" using assms by (simp add: screen_ok_def)
  note pb = pos_bounds [OF p]
  have k: "screen_only t (put_cell i w t)" "crt_pos (put_cell i w t) = crt_pos t" if "i < CRT_SIZE"
    for i w and t :: "'a console"
    using that by (simp_all add: word_less_nat_alt crt_consts put_cell_screen)
  consider "c AND 0xff = 8" "crt_pos s > 0" | "c AND 0xff = 8" "\<not> crt_pos s > 0" | "c AND 0xff = 10"
    | "c AND 0xff = 13" | "c AND 0xff \<notin> {8, 10, 13}"
    by blast
  then show ?thesis
  proof cases
    case 1
    then have q: "crt_pos s - 1 < CRT_SIZE" using pb(5) by auto
    have "screen_only s (put_cell (crt_pos s - 1) w (s\<lparr>crt_pos := crt_pos s - 1\<rparr>))" for w
      by (rule screen_only_trans [OF pos_screen k(1) [OF q]])
    then show ?thesis
      using 1 k(2) [OF q] pos_bounds(2) [OF q] by (simp add: cga_cell_def Let_def)
  next
    case 5
    then show ?thesis
      using screen_only_trans [OF k(1) [OF p] pos_screen] pb(1) by (simp add: cga_cell_def)
  qed (use pb in \<open>simp_all add: cga_cell_def Let_def\<close>)
qed

lemma finish_screen:
  assumes "screen_ok s" "screen_only s r" "crt_pos r < CRT_SIZE + CRT_COLS"
  shows "screen_only s (cga_finish io r) \<and> screen_ok (cga_finish io r)"
  using cga_finish_screen [OF assms(2) _ assms(3)] assms(1) screen_only_fields(1) [OF assms(2)]
  by (simp add: screen_ok_def)

lemma cga_putc_plain_screen:
  assumes "screen_ok s" "c AND 0xff \<noteq> 9"
  shows "screen_only s (cga_putc io c s) \<and> screen_ok (cga_putc io c s)"
  unfolding cga_putc_cell [OF assms(2)] using finish_screen [OF assms(1)] cga_cell_screen [OF assms(1)] by blast

lemma cons_putc_from_cga:
  assumes "\<And>t. screen_ok t \<Longrightarrow> screen_only t (cga_putc io c t) \<and> screen_ok (cga_putc io c t)" "screen_ok s"
  shows "screen_only s (cons_putc io c s) \<and> screen_ok (cons_putc io c s)"
proof -
  let ?t = "exec_io (lpt_putc io c) (exec_io (serial_putc io c) s)"
  have "screen_only s ?t" by (rule screen_only_trans [OF exec_io_screen(1) exec_io_screen(1)])
  moreover have "screen_ok ?t" using assms(2) by (simp add: screen_ok_def)
  ultimately show ?thesis
    using assms(1) [of ?t] screen_only_trans unfolding cons_putc.simps [of io c s] by blast
qed

lemma cons_putc_blank_screen:
  "screen_ok s \<Longrightarrow> screen_only s (cons_putc io 0x20 s) \<and> screen_ok (cons_putc io 0x20 s)"
  by (rule cons_putc_from_cga) (simp_all add: cga_putc_plain_screen)

lemma cga_putc_screen:
  assumes "screen_ok s"
  shows "screen_only s (cga_putc io c s) \<and> screen_ok (cga_putc io c s)"
proof (cases "c AND 0xff = 9")
  case True
  define five where
    "five = cons_putc io 0x20 (cons_putc io 0x20 (cons_putc io 0x20 (cons_putc io 0x20 (cons_putc io 0x20 s))))"
  have "screen_only s five \<and> screen_ok five"
    unfolding five_def using assms cons_putc_blank_screen screen_only_trans by meson
  moreover have "cga_putc io c s = cga_finish io five"
    using True by (simp add: cga_putc.simps [of io c s] with_attribute_char five_def Let_def)
  ultimately show ?thesis
    using finish_screen [OF assms] pos_bounds(2) by (simp add: screen_ok_def)
qed (rule cga_putc_plain_screen [OF assms])

lemma cons_putc_screen:
  "screen_ok s \<Longrightarrow> screen_only s (cons_putc io c s) \<and> screen_ok (cons_putc io c s)"
  using cons_putc_from_cga cga_putc_screen by blast

section \<open>Formatted output stays on the screen\<close>

definition printed_from :: "'d console \<Rightarrow> 'd console out \<Rightarrow> bool" where
  "printed_from s out \<longleftrightarrow> screen_only s (putdat out\<lparr>cmem := omem out\<rparr>) \<and> screen_ok (putdat out)"

lemma putch_printed: "printed_from s out \<Longrightarrow> printed_from s (putch io c out)"
proof -
  assume a: "printed_from s out"
  let ?t = "putdat out\<lparr>cmem := omem out\<rparr>"
  have "screen_ok ?t" using a by (simp add: printed_from_def screen_ok_def)
  then have "screen_only ?t (cputchar io (of_int c) ?t) \<and> screen_ok (cputchar io (of_int c) ?t)"
    unfolding cputchar_def by (rule cons_putc_screen)
  then show ?thesis
    using a screen_only_trans by (auto simp: printed_from_def putch_def Let_def)
qed

interpretation kp: put_inv "putch io" "printed_from s" for io s
  by unfold_locales (rule putch_printed)

lemma vcprintf_screen:
  assumes "vcprintf io me fmt ap s = Some (n, s')" "screen_ok s"
  shows "screen_only s s' \<and> screen_ok s'"
proof -
  obtain out where o: "vprintfmt (putch io) fmt ap (Out (cmem s) s) = Some out" "s' = putdat out\<lparr>cmem := omem out\<rparr>"
    using assms(1) by (auto simp: vcprintf_def bind_eq_Some_conv split: if_splits)
  have "printed_from s (Out (cmem s) s)"
    using assms(2) by (simp add: printed_from_def)
  then have "printed_from s out" by (rule kp.vprintfmt_inv [OF o(1)])
  then show ?thesis by (simp add: o(2) printed_from_def screen_ok_def)
qed

section \<open>The input buffer\<close>

definition ring_ok :: "'d console \<Rightarrow> bool" where
  "ring_ok s \<longleftrightarrow> length (cbuf s) = CONSBUFSIZE \<and> unat (rpos s) < CONSBUFSIZE \<and> unat (wpos s) < CONSBUFSIZE"

definition console_ok :: "'d console \<Rightarrow> bool" where
  "console_ok s \<longleftrightarrow> screen_ok s \<and> ring_ok s"

text \<open>A well-formed state that differs from an earlier one in the memory of the screen at most.\<close>

definition console_from :: "'d console \<Rightarrow> 'd console \<Rightarrow> bool" where
  "console_from s0 s \<longleftrightarrow>
     console_ok s \<and> crt_buf s = crt_buf s0 \<and> (\<forall>a. 4000 \<le> unat (a - crt_buf s0) \<longrightarrow> cmem s a = cmem s0 a)"

lemma console_ok_screen: "screen_only s s' \<Longrightarrow> console_from s0 s \<Longrightarrow> screen_ok s' \<Longrightarrow> console_from s0 s'"
  by (simp add: console_from_def console_ok_def ring_ok_def screen_only_fields) (simp add: screen_only_def)

lemma console_ok_update [simp]:
  "console_from s0 (s\<lparr>dev := d\<rparr>) = console_from s0 s" "console_from s0 (s\<lparr>kshift := k\<rparr>) = console_from s0 s"
  "console_from s0 (s\<lparr>console_lock := l\<rparr>) = console_from s0 s" "console_from s0 (s\<lparr>crank := r\<rparr>) = console_from s0 s"
  "console_from s0 (s\<lparr>serial_exists := b\<rparr>) = console_from s0 s"
  by (simp_all add: console_from_def console_ok_def ring_ok_def screen_ok_def)

lemma exec_io_ok [simp]: "console_from s0 (exec_io m s) = console_from s0 s"
  by (simp add: exec_io_def run_io_def split: prod.split)

lemma run_io_ok: "run_io m s = (x, s') \<Longrightarrow> console_from s0 s' = console_from s0 s"
  by (auto simp: run_io_def split: prod.splits)

lemma cputchar_ok: "console_from s0 s \<Longrightarrow> console_from s0 (cputchar io c s)"
  using cons_putc_screen [of s io c] console_ok_screen by (auto simp: cputchar_def console_from_def console_ok_def)

lemma cprintf_ok:
  assumes "cprintf io me fmt ap s = Some (n, s')" "console_from s0 s"
  shows "console_from s0 s'"
proof -
  obtain s1 s2 where s: "take_console me s = Some s1" "vcprintf io me fmt ap s1 = Some (n, s2)" "drop_console me s2 = Some s'"
    using assms(1) by (auto simp: cprintf_def bind_eq_Some_conv)
  have "console_from s0 s1" using s(1) assms(2) by (auto simp: take_console_def bind_eq_Some_conv split: if_splits)
  then have "console_from s0 s2" using vcprintf_screen [OF s(2)] console_ok_screen by (auto simp: console_from_def console_ok_def)
  then show ?thesis using s(3) by (auto simp: drop_console_def bind_eq_Some_conv split: if_splits)
qed

lemma kbd_proc_data_ok: "kbd_proc_data io me s = Some (c, s') \<Longrightarrow> console_from s0 s \<Longrightarrow> console_from s0 s'"
  by (auto simp: kbd_proc_data_def bind_eq_Some_conv Let_def split: prod.splits if_splits dest!: run_io_ok cprintf_ok)

lemma unat_pos_inc: "unat (p :: u32) < CONSBUFSIZE \<Longrightarrow> unat (p + 1) = Suc (unat p)"
  by (simp add: CONSBUFSIZE_def unat_word_ariths)

lemma cons_push_ok: "console_from s0 s \<Longrightarrow> \<exists>s'. cons_push c s = Some s' \<and> console_from s0 s'"
  by (auto simp: cons_push_def console_from_def console_ok_def ring_ok_def screen_ok_def Let_def unat_pos_inc)

lemma cons_push_keeps: "cons_push c s = Some s' \<Longrightarrow> console_from s0 s \<Longrightarrow> console_from s0 s'"
  using cons_push_ok [of s0 s c] by auto

lemma cons_intr_ok:
  assumes "cons_intr proc s = Some s'" "console_from s0 s"
    and p: "\<And>s c s'. proc s = Some (c, s') \<Longrightarrow> console_from s0 s \<Longrightarrow> console_from s0 s'"
  shows "console_from s0 s'"
proof -
  have "pr = proc \<longrightarrow> console_from s0 s \<longrightarrow> console_from s0 s'" if "cons_intr pr s = Some s'" for pr s s'
  proof (rule cons_intr.raw_induct [OF _ that, where P = "\<lambda>pr s s'. pr = proc \<longrightarrow> console_from s0 s \<longrightarrow> console_from s0 s'"], goal_cases)
    case (1 f pr s s')
    then show ?case
      by (auto simp: bind_eq_Some_conv split: if_splits dest: p cons_push_keeps)
  qed
  with assms show ?thesis by blast
qed

lemma serial_intr_ok: "serial_intr io s = Some s' \<Longrightarrow> console_from s0 s \<Longrightarrow> console_from s0 s'"
  by (auto simp: serial_intr_def dest: run_io_ok split: if_splits elim!: cons_intr_ok)

lemma kbd_intr_ok: "kbd_intr io me s = Some s' \<Longrightarrow> console_from s0 s \<Longrightarrow> console_from s0 s'"
  using cons_intr_ok kbd_proc_data_ok unfolding kbd_intr_def by blast

lemma cons_pop_ok: "console_from s0 s \<Longrightarrow> \<exists>c s'. cons_pop s = Some (c, s') \<and> console_from s0 s'"
  by (auto simp: cons_pop_def console_from_def console_ok_def ring_ok_def screen_ok_def Let_def unat_pos_inc)

lemma cons_getc_ok: "cons_getc io me s = Some (c, s') \<Longrightarrow> console_from s0 s \<Longrightarrow> console_from s0 s'"
  using cons_pop_ok by (fastforce simp: cons_getc_def bind_eq_Some_conv dest: serial_intr_ok kbd_intr_ok)

section \<open>The input buffer is a queue\<close>

definition waiting :: "'d console \<Rightarrow> nat list" where
  "waiting s =
     (if unat (rpos s) \<le> unat (wpos s) then [unat (rpos s)..<unat (wpos s)]
      else [unat (rpos s)..<CONSBUFSIZE] @ [0..<unat (wpos s)])"

definition pending :: "'d console \<Rightarrow> u8 list" where
  "pending s = map ((!) (cbuf s)) (waiting s)"

lemma pending_update [simp]:
  "pending (s\<lparr>dev := d\<rparr>) = pending s" "pending (s\<lparr>kshift := k\<rparr>) = pending s"
  by (simp_all add: pending_def waiting_def)

lemma waiting_write: "i \<notin> set (waiting s) \<Longrightarrow> map ((!) ((cbuf s)[i := c])) (waiting s) = pending s"
  by (auto simp: pending_def intro!: map_cong nth_list_update_neq)

lemma push_pending:
  assumes ok: "ring_ok s" and fits: "length (pending s) < CONSBUFSIZE - 1"
  shows "\<exists>s'. cons_push c s = Some s' \<and> pending s' = pending s @ [of_int c] \<and> ring_ok s'
    \<and> s' = s\<lparr>cbuf := cbuf s', wpos := wpos s'\<rparr>"
proof -
  let ?w = "unat (wpos s)" and ?r = "unat (rpos s)"
  have b: "length (cbuf s) = CONSBUFSIZE" "?r < CONSBUFSIZE" "?w < CONSBUFSIZE" using ok by (simp_all add: ring_ok_def)
  have out: "?w \<notin> set (waiting s)" by (auto simp: waiting_def)
  have wpend: "map ((!) ((cbuf s)[?w := of_int c])) (waiting s @ [?w]) = pending s @ [of_int c]"
    using waiting_write [OF out] b by simp
  show ?thesis
  proof (cases "Suc ?w = CONSBUFSIZE")
    case True
    let ?t = "s\<lparr>cbuf := (cbuf s)[?w := of_int c], wpos := 0\<rparr>"
    have "?r \<noteq> 0"
      using fits True b by (auto simp: pending_def waiting_def CONSBUFSIZE_def)
    then have "waiting ?t = waiting s @ [?w]"
      using b True by (auto simp: waiting_def simp flip: upt_Suc_append)
    moreover have "cons_push c s = Some ?t"
      using True b by (simp add: cons_push_def Let_def unat_pos_inc)
    ultimately show ?thesis
      using wpend b by (intro exI [of _ ?t]) (simp add: pending_def ring_ok_def)
  next
    case False
    let ?t = "s\<lparr>cbuf := (cbuf s)[?w := of_int c], wpos := wpos s + 1\<rparr>"
    have "?r \<noteq> Suc ?w"
      using fits b by (auto simp: pending_def waiting_def)
    then have "waiting ?t = waiting s @ [?w]"
      using b by (auto simp: waiting_def unat_pos_inc)
    moreover have "cons_push c s = Some ?t"
      using False b by (simp add: cons_push_def Let_def unat_pos_inc)
    ultimately show ?thesis
      using wpend b False by (intro exI [of _ ?t]) (simp add: pending_def ring_ok_def unat_pos_inc)
  qed
qed

lemma pop_pending:
  assumes "ring_ok s"
  shows "\<exists>s'. (case pending s of [] \<Rightarrow> cons_pop s = Some (0, s) \<and> s' = s
    | c # cs \<Rightarrow> cons_pop s = Some (uint c, s') \<and> pending s' = cs) \<and> s' = s\<lparr>rpos := rpos s'\<rparr>"
proof (cases "rpos s = wpos s")
  case True
  then show ?thesis by (simp add: pending_def waiting_def cons_pop_def)
next
  case False
  let ?w = "unat (wpos s)" and ?r = "unat (rpos s)"
  let ?t = "s\<lparr>rpos := if Suc ?r = CONSBUFSIZE then 0 else rpos s + 1\<rparr>"
  have b: "?r < CONSBUFSIZE" "?w < CONSBUFSIZE" using assms by (simp_all add: ring_ok_def)
  have ne: "?r \<noteq> ?w" using False by (simp add: word_unat_eq_iff)
  have "waiting s = ?r # waiting ?t"
    using b ne by (auto simp: waiting_def unat_pos_inc upt_conv_Cons)
  then have "pending s = cbuf s ! ?r # pending ?t" by (simp add: pending_def)
  moreover have "cons_pop s = Some (uint (cbuf s ! ?r), ?t)"
    using False b by (simp add: cons_pop_def Let_def unat_pos_inc)
  ultimately show ?thesis by (intro exI [of _ ?t]) simp
qed

text \<open>When the buffer is full but for one cell, one more character makes it look empty.\<close>

lemma push_overflow:
  assumes "ring_ok s" "length (pending s) = CONSBUFSIZE - 1" "cons_push c s = Some s'"
  shows "pending s' = []"
proof -
  let ?w = "unat (wpos s)" and ?r = "unat (rpos s)"
  have b: "?r < CONSBUFSIZE" "?w < CONSBUFSIZE" using assms(1) by (simp_all add: ring_ok_def)
  have l: "if ?r \<le> ?w then ?w - ?r = CONSBUFSIZE - 1 else CONSBUFSIZE - ?r + ?w = CONSBUFSIZE - 1"
    using assms(2) by (simp add: pending_def waiting_def split: if_splits)
  have "wpos s' = (if Suc ?w = CONSBUFSIZE then 0 else wpos s + 1) \<and> rpos s' = rpos s"
    using assms(3) b by (auto simp: cons_push_def Let_def unat_pos_inc split: if_splits)
  then have "unat (rpos s') = unat (wpos s')"
    using l b by (auto simp: unat_pos_inc CONSBUFSIZE_def split: if_splits)
  then show ?thesis by (simp add: pending_def waiting_def)
qed

lemma getchar_ok:
  assumes "getchar io me s = Some (c, s')" "console_from s0 s"
  shows "console_from s0 s'"
proof -
  have "console_from s0 s \<longrightarrow> console_from s0 (snd r)" if "getchar io me s = Some r" for io me s and r :: "int \<times> 'a console"
  proof (rule getchar.raw_induct [OF _ that, where P = "\<lambda>io me s r. console_from s0 s \<longrightarrow> console_from s0 (snd r)"], goal_cases)
    case (1 f io me s r)
    then show ?case by (cases r) (auto simp: bind_eq_Some_conv split: if_splits dest: cons_getc_ok)
  qed
  from this [OF assms(1)] assms(2) show ?thesis by simp
qed

text \<open>The state that \<^verbatim>\<open>readline\<close> leaves and the line that it returns: at most 1024 bytes with the null byte.\<close>

definition line_ok :: "'d console \<Rightarrow> u8 list option \<times> 'd console \<Rightarrow> bool" where
  "line_ok s0 r \<longleftrightarrow> console_from s0 (snd r) \<and> (\<forall>l. fst r = Some l \<longrightarrow> length l \<le> BUFLEN \<and> l \<noteq> [] \<and> last l = 0)"

lemma readline_loop_ok:
  assumes "readline_loop io me e b s = Some r" "console_from s0 s" "length b < BUFLEN"
  shows "line_ok s0 r"
proof -
  have "console_from s0 s \<and> length b < BUFLEN \<longrightarrow> line_ok s0 r" if "readline_loop io me e b s = Some r" for io me e b s r
  proof (rule readline_loop.raw_induct [OF _ that,
        where P = "\<lambda>io me e b s r. console_from s0 s \<and> length b < BUFLEN \<longrightarrow> line_ok s0 r"], goal_cases)
    case (1 f io me e b s r)
    show ?case
    proof (rule impI, elim conjE)
      assume a: "console_from s0 s" "length b < BUFLEN"
      obtain c s1 where g: "getchar io me s = Some (c, s1)"
        using 1(2) by (auto simp: bind_eq_Some_conv)
      note ok = getchar_ok [OF g a(1)]
      have p: "console_from s0 (if e then cputchar io x s1 else s1)" for x
        using ok by (simp add: cputchar_ok)
      show "line_ok s0 r"
        using 1(2) a(2) p 1(1) ok
        by (auto simp: g bind_eq_Some_conv line_ok_def BUFLEN_def split: if_splits dest: cprintf_ok)
    qed
  qed
  with assms show ?thesis by blast
qed

lemma readline_ok:
  assumes "readline io me p s = Some r" "console_from s0 s"
  shows "line_ok s0 r"
  using assms by (auto simp: readline_def bind_eq_Some_conv BUFLEN_def split: option.splits
      intro!: readline_loop_ok dest: cprintf_ok)

section \<open>Sequences of calls\<close>

datatype console_call = Putchar u32 | Printf cptr "cptr list" | Getc | Serial_irq | Kbd_irq | Readline "cptr option"

fun console_do :: "'d ports \<Rightarrow> nat \<Rightarrow> console_call \<Rightarrow> 'd console \<Rightarrow> 'd console option" where
  "console_do io me (Putchar c) s = Some (cputchar io c s)"
| "console_do io me (Printf fmt ap) s = map_option snd (cprintf io me fmt ap s)"
| "console_do io me Getc s = map_option snd (cons_getc io me s)"
| "console_do io me Serial_irq s = serial_intr io s"
| "console_do io me Kbd_irq s = kbd_intr io me s"
| "console_do io me (Readline p) s = map_option snd (readline io me p s)"

fun console_calls :: "'d ports \<Rightarrow> nat \<Rightarrow> console_call list \<Rightarrow> 'd console \<Rightarrow> 'd console option" where
  "console_calls io me [] s = Some s"
| "console_calls io me (c # cs) s = do { s \<leftarrow> console_do io me c s; console_calls io me cs s }"

lemma console_do_ok: "console_do io me c s = Some s' \<Longrightarrow> console_from s0 s \<Longrightarrow> console_from s0 s'"
  by (cases c) (auto simp: cputchar_ok line_ok_def dest: cprintf_ok cons_getc_ok serial_intr_ok kbd_intr_ok readline_ok)

lemma console_calls_ok: "console_calls io me cs s = Some s' \<Longrightarrow> console_from s0 s \<Longrightarrow> console_from s0 s'"
  by (induction cs arbitrary: s) (auto simp: bind_eq_Some_conv dest: console_do_ok)

text \<open>A quiet machine: no device answers, and the state after the start of the console.\<close>

definition no_device :: "unit ports" where
  "no_device = \<lparr>in8 = (\<lambda>p d. (0xFE, d)), in16 = (\<lambda>p d. (0, d)), in32 = (\<lambda>p d. (0, d)),
     out8 = (\<lambda>p x d. d), out16 = (\<lambda>p x d. d), out32 = (\<lambda>p x d. d)\<rparr>"

definition boot_console :: "'d \<Rightarrow> 'd console" where
  "boot_console d = \<lparr>dev = d, cmem = (\<lambda>a. 0), serial_exists = True, addr_6845 = CGA_BASE,
     crt_buf = KERNEL_VMA + CGA_BUF, crt_pos = 0, kshift = 0, cbuf = replicate 512 0, rpos = 0, wpos = 0,
     console_lock = \<lparr>locked = 0, rank = 0, lname = None, lcpu = None, lfile = None, lline = 0\<rparr>, crank = 0\<rparr>"

lemma boot_console_ok: "console_ok (boot_console d)"
  by (simp add: boot_console_def console_ok_def screen_ok_def ring_ok_def CONSBUFSIZE_def CRT_SIZE_def CRT_ROWS_def CRT_COLS_def)

text \<open>
  C33: whatever the devices do, every sequence of console calls (characters, formatted output, interrupts of the serial
  line and of the keyboard, reading characters and lines) keeps the state of the console well formed: both positions
  of the input buffer stay below 512 and the position on the screen below 2000, so that no access leaves the buffers,
  and no byte of memory outside the 4000 bytes of the screen changes.
\<close>

theorem console_well_formed:
  assumes "console_calls io me calls s = Some s'" "console_ok s"
  shows "console_ok s' \<and> (\<forall>a. 4000 \<le> unat (a - crt_buf s) \<longrightarrow> cmem s' a = cmem s a)"
  using console_calls_ok [OF assms(1), of s] assms(2) by (simp add: console_from_def)

lemma no_device_irqs:
  "kbd_intr no_device me s = Some s" "serial_intr no_device s = Some s"
  by (simp_all add: kbd_intr_def serial_intr_def cons_intr.simps kbd_proc_data_def run_io_def serial_proc_data_def monad
      no_device_def KBS_DIB_def COM_LSR_DATA_def)

theorem console_well_formed_witness:
  "\<exists>s'. console_calls no_device 0 [Putchar 0x41, Kbd_irq, Putchar 9, Serial_irq] (boot_console ()) = Some s'
    \<and> console_ok s' \<and> cmem s' 0x1000 = 0"
  using console_well_formed [of no_device 0 "[Putchar 0x41, Kbd_irq, Putchar 9, Serial_irq]" "boot_console ()"]
    boot_console_ok [of "()"]
  by (simp add: no_device_irqs) (simp add: boot_console_def KERNEL_VMA_def CGA_BUF_def)

section \<open>Input arrives in order\<close>

text \<open>What a source of characters delivers until it reports that it has no more.\<close>

inductive feeds :: "('x \<Rightarrow> (int \<times> 'x) option) \<Rightarrow> 'x \<Rightarrow> int list \<Rightarrow> 'x \<Rightarrow> bool" for f where
  feeds_end: "f x = Some (- 1, x') \<Longrightarrow> feeds f x [] x'"
| feeds_char: "f x = Some (c, x') \<Longrightarrow> c \<noteq> - 1 \<Longrightarrow> feeds f x' cs x'' \<Longrightarrow> feeds f x (c # cs) x''"

text \<open>One poll of the serial line and of the keyboard, on the devices and the state of the shift keys.  A reboot is
  not an input character.\<close>

definition serial_step :: "'d ports \<Rightarrow> 'd \<times> u32 \<Rightarrow> (int \<times> 'd \<times> u32) option" where
  "serial_step io x = (case run_state (serial_proc_data io) (fst x) of (c, d) \<Rightarrow> Some (c, d, snd x))"

definition kbd_step :: "'d ports \<Rightarrow> 'd \<times> u32 \<Rightarrow> (int \<times> 'd \<times> u32) option" where
  "kbd_step io x =
     (case in8 io KBSTATP (fst x) of (st, d) \<Rightarrow>
        if st AND KBS_DIB = 0 then Some (- 1, d, snd x)
        else case in8 io KBDATAP d of (data, d) \<Rightarrow>
          case kbd_decode data (snd x) of (c, k) \<Rightarrow>
            if data AND 0x80 = 0 \<and> kbd_reboots c k then None else Some (c, d, k))"

lemma serial_step_proc:
  "serial_step io (dev s, kshift s) = Some (c, d, k)
    \<Longrightarrow> Some (run_io (serial_proc_data io) s) = Some (c, s\<lparr>dev := d, kshift := k\<rparr>)"
  by (auto simp: serial_step_def run_io_def split: prod.splits)

lemma kbd_step_proc:
  "kbd_step io (dev s, kshift s) = Some (c, d, k) \<Longrightarrow> kbd_proc_data io me s = Some (c, s\<lparr>dev := d, kshift := k\<rparr>)"
  by (auto simp: kbd_step_def kbd_proc_data_def run_io_def monad Let_def split: prod.splits if_splits)

lemma cons_intr_feeds:
  assumes "feeds f x cs x'" and "x = (dev s, kshift s)" and "ring_ok s"
    and step: "\<And>s c d k. f (dev s, kshift s) = Some (c, d, k) \<Longrightarrow> proc s = Some (c, s\<lparr>dev := d, kshift := k\<rparr>)"
    and "length (pending s) + length (filter ((\<noteq>) 0) cs) < CONSBUFSIZE"
  shows "\<exists>s'. cons_intr proc s = Some s' \<and> pending s' = pending s @ map of_int (filter ((\<noteq>) 0) cs) \<and> ring_ok s'
    \<and> (dev s', kshift s') = x' \<and> serial_exists s' = serial_exists s"
  using assms(1,2,3,5)
proof (induction arbitrary: s)
  case (feeds_end x x')
  then have "proc s = Some (- 1, s\<lparr>dev := fst x', kshift := snd x'\<rparr>)" using step [of s "- 1" "fst x'" "snd x'"] by simp
  then show ?case
    using feeds_end by (subst cons_intr.simps) (simp add: ring_ok_def)
next
  case (feeds_char x c x' cs x'')
  let ?t = "s\<lparr>dev := fst x', kshift := snd x'\<rparr>"
  have p: "proc s = Some (c, ?t)" using step [of s c "fst x'" "snd x'"] feeds_char by simp
  have t: "ring_ok ?t" "pending ?t = pending s" using feeds_char.prems by (simp_all add: ring_ok_def)
  show ?case
  proof (cases "c = 0")
    case True
    then show ?thesis
      using feeds_char.IH [of ?t] feeds_char.prems t p by (subst cons_intr.simps) simp
  next
    case False
    then have "length (pending ?t) < CONSBUFSIZE - 1" using feeds_char.prems t by simp
    then obtain u where u: "cons_push c ?t = Some u" "pending u = pending s @ [of_int c]" "ring_ok u"
      "u = ?t\<lparr>cbuf := cbuf u, wpos := wpos u\<rparr>"
      using push_pending [OF t(1)] t(2) by metis
    have d: "x' = (dev u, kshift u) \<and> serial_exists u = serial_exists s"
      by (subst u(4), subst u(4), subst u(4)) simp
    show ?thesis
      using feeds_char.IH [of u] feeds_char.prems feeds_char.hyps(2) u(1-3) d p False
      by (subst cons_intr.simps) simp
  qed
qed

text \<open>
  C34: the console input is a queue.  As long as fewer than 512 characters wait, \<^verbatim>\<open>cons_getc\<close> takes everything that
  the serial line and then the keyboard deliver (null characters are dropped), loses nothing, and returns the oldest
  character, or 0 if there is none.
\<close>

theorem cons_getc_queue:
  assumes "ring_ok s" "serial_exists s" "feeds (serial_step io) (dev s, kshift s) xs x1" "feeds (kbd_step io) x1 ys x2"
    and "q = pending s @ map of_int (filter ((\<noteq>) 0) (xs @ ys))" "length q < CONSBUFSIZE"
  shows "\<exists>c s'. cons_getc io me s = Some (c, s') \<and> (dev s', kshift s') = x2
    \<and> (c, pending s') = (case q of [] \<Rightarrow> (0, []) | b # bs \<Rightarrow> (uint b, bs))"
proof -
  obtain s1 where s1: "serial_intr io s = Some s1" "pending s1 = pending s @ map of_int (filter ((\<noteq>) 0) xs)" "ring_ok s1"
    "(dev s1, kshift s1) = x1"
    using cons_intr_feeds [OF assms(3) refl assms(1) serial_step_proc [of io]] assms(2,5,6) by (auto simp: serial_intr_def)
  have "length (pending s1) + length (filter ((\<noteq>) 0) ys) < CONSBUFSIZE" using assms(5,6) s1(2) by simp
  then obtain s2 where s2: "kbd_intr io me s1 = Some s2" "pending s2 = q" "ring_ok s2" "(dev s2, kshift s2) = x2"
    using cons_intr_feeds [OF assms(4) s1(4) [symmetric] s1(3) kbd_step_proc [of io _ _ _ _ me]] assms(5) s1(2)
    by (auto simp: kbd_intr_def)
  obtain s3 where s3: "case q of [] \<Rightarrow> cons_pop s2 = Some (0, s2) \<and> s3 = s2
      | c # cs \<Rightarrow> cons_pop s2 = Some (uint c, s3) \<and> pending s3 = cs" "s3 = s2\<lparr>rpos := rpos s3\<rparr>"
    using pop_pending [OF s2(3)] s2(2) by auto
  have "(dev s3, kshift s3) = x2" using s2(4) by (subst s3(2), subst s3(2)) simp
  then show ?thesis
    using s1(1) s2 s3(1) by (cases q) (auto simp: cons_getc_def)
qed

text \<open>A machine whose serial line has received a list of bytes and whose keyboard is silent.\<close>

definition serial_line :: "u8 list ports" where
  "serial_line = \<lparr>in8 = (\<lambda>p d. if p = COM1 + COM_LSR then (if d = [] then 0 else 1, d)
       else if p = COM1 + COM_RX then (hd d, tl d) else (0, d)),
     in16 = (\<lambda>p d. (0, d)), in32 = (\<lambda>p d. (0, d)), out8 = (\<lambda>p x d. d), out16 = (\<lambda>p x d. d), out32 = (\<lambda>p x d. d)\<rparr>"

lemma serial_line_feeds: "feeds (serial_step serial_line) (bs, k) (map uint bs) ([], k)"
proof (induction bs)
  case Nil
  show ?case
    by (auto intro!: feeds_end simp: serial_step_def serial_proc_data_def monad serial_line_def COM_LSR_DATA_def)
next
  case (Cons b bs)
  have "serial_step serial_line (b # bs, k) = Some (uint b, bs, k)"
    by (simp add: serial_step_def serial_proc_data_def monad serial_line_def COM_LSR_DATA_def COM1_def COM_LSR_def COM_RX_def)
  moreover have "uint b \<noteq> - 1" using uint_nonnegative [of b] by linarith
  ultimately show ?case using Cons by (auto intro: feeds_char)
qed

lemma serial_line_keyboard: "feeds (kbd_step serial_line) (d, k) [] (d, k)"
  by (auto intro!: feeds_end simp: kbd_step_def serial_line_def KBSTATP_def COM1_def COM_LSR_def COM_RX_def)

theorem cons_getc_queue_witness:
  "\<exists>s'. cons_getc serial_line 0 (boot_console [0x68, 0x69]) = Some (0x68, s') \<and> pending s' = [0x69]"
proof -
  have "feeds (serial_step serial_line) ([0x68, 0x69], 0) [0x68, 0x69] ([], 0)"
    using serial_line_feeds [of "[0x68, 0x69]" 0] by simp
  then show ?thesis
    using cons_getc_queue [of "boot_console [0x68, 0x69]" serial_line "[0x68, 0x69]" "([], 0)" "[]" "([], 0)" _ 0]
      serial_line_keyboard [of "[]" 0] boot_console_ok [of "[0x68, 0x69 :: u8]"]
    by (fastforce simp: console_ok_def boot_console_def pending_def waiting_def CONSBUFSIZE_def)
qed

end
