(* ===== verification/Clock.thy ===== *)
theory Clock
  imports Port_IO C_Int
begin

text \<open>
  Calendar time: \<^verbatim>\<open>lib/time.c\<close> and the driver of the real-time clock, \<^verbatim>\<open>kernel/rtc.c\<close>.  The arithmetic on \<^verbatim>\<open>int\<close>
  is cut to 32 bits; the sums of type \<^verbatim>\<open>time_t\<close> stay far below 64 bits.  The lemmas compare the formula of
  \<^verbatim>\<open>tm_to_time\<close> with a count of the days of the Gregorian calendar, year by year and month by month.
\<close>

section \<open>Seconds since 1970\<close>

record tm =
  tm_sec :: int
  tm_min :: int
  tm_hour :: int
  tm_mday :: int
  tm_mon :: int
  tm_year :: int

text \<open>The operators \<^verbatim>\<open>/\<close> and \<^verbatim>\<open>%\<close> of C for a positive divisor round towards zero.\<close>

definition cdiv :: "int \<Rightarrow> int \<Rightarrow> int" where
  "cdiv a b = (if a \<ge> 0 then a div b else - (- a div b))"

definition cmod :: "int \<Rightarrow> int \<Rightarrow> int" where
  "cmod a b = a - b * cdiv a b"

text \<open>The macro \<^verbatim>\<open>Q\<close> computes in the type of its first operand: \<open>wrap\<close> is \<open>i32\<close> for an \<^verbatim>\<open>int\<close>.\<close>

definition Q :: "(int \<Rightarrow> int) \<Rightarrow> int \<Rightarrow> int \<Rightarrow> int" where
  "Q wrap a b = (if a > 0 then cdiv a b else - cdiv (wrap (wrap (b - a) - 1)) b)"

definition days_at_month :: "int list" where
  "days_at_month = [0, 31, 59, 90, 120, 151, 181, 212, 243, 273, 304, 334]"

definition normalize_month :: "int \<Rightarrow> int \<Rightarrow> int \<times> int" where
  "normalize_month year month =
     (if month \<ge> 12 then (year + cdiv month 12, cmod month 12)
      else if month < 0 then
        (let year = year + cdiv month 12; month = cmod month 12
         in if month \<noteq> 0 then (year - 1, month + 12) else (year, month))
      else (year, month))"

definition tm_to_time :: "tm \<Rightarrow> int" where
  "tm_to_time tm =
     (let (year, month) = normalize_month (i32 (tm_year tm + - 100)) (tm_mon tm);
          z4 = i32 (Q (\<lambda>x. x) (year - (if month < 2 then 1 else 0)) 4);
          z100 = i32 (Q i32 z4 25);
          z400 = i32 (Q i32 z100 4);
          day = i32 (tm_mday tm + (year * 365 + z4 - z100 + z400 + days_at_month ! nat month))
      in day * 86400 + i32 (tm_hour tm * 3600) + i32 (tm_min tm * 60) + tm_sec tm - - 946684800)"

section \<open>The real-time clock\<close>

definition CMOS_ADDR :: u16 where "CMOS_ADDR = 0x70"
definition CMOS_DATA :: u16 where "CMOS_DATA = 0x71"

definition rtc_busy :: "'d ports \<Rightarrow> ('d, bool) state" where
  "rtc_busy io = do { outb io CMOS_ADDR 0x0a; x \<leftarrow> inb io CMOS_DATA; State_Monad.return (x AND 0x80 \<noteq> 0) }"

definition rtc_read_reg :: "'d ports \<Rightarrow> u8 \<Rightarrow> ('d, u8) state" where
  "rtc_read_reg io reg = do { outb io CMOS_ADDR reg; inb io CMOS_DATA }"

definition bcd_to_int :: "u8 \<Rightarrow> u8" where
  "bcd_to_int val = (val AND 0x0f) + (val div 16) * 10"

text \<open>The loop that waits for the end of an update of the clock.\<close>

partial_function (option) rtc_wait :: "'d ports \<Rightarrow> 'd \<Rightarrow> 'd option" where
  "rtc_wait io d = (case run_state (rtc_busy io) d of (busy, d) \<Rightarrow> if busy then rtc_wait io d else Some d)"

declare rtc_wait.simps [code]

text \<open>The conversion of the registers, in the order of the code: first the decimal digits, then the hour of the
  twelve-hour clock.\<close>

definition rtc_convert :: "u8 \<Rightarrow> u8 \<Rightarrow> u8 \<Rightarrow> u8 \<Rightarrow> u8 \<Rightarrow> u8 \<Rightarrow> u8 \<Rightarrow> tm" where
  "rtc_convert reg_b sec mnt hour day mon year =
     (let conv = (if reg_b AND 0x04 = 0 then bcd_to_int else (\<lambda>x. x));
          hour = conv hour;
          h = (if reg_b AND 0x02 = 0 \<and> hour AND 0x80 \<noteq> 0 then (uint (hour AND 0x7f) + 12) mod 24 else uint hour)
      in \<lparr>tm_sec = uint (conv sec), tm_min = uint (conv mnt), tm_hour = h, tm_mday = uint (conv day),
          tm_mon = uint (conv mon) - 1, tm_year = 100 + uint (conv year)\<rparr>)"

definition rtc_read :: "'d ports \<Rightarrow> ('d, tm) state" where
  "rtc_read io = do {
     sec \<leftarrow> rtc_read_reg io 0x00;
     mnt \<leftarrow> rtc_read_reg io 0x02;
     hour \<leftarrow> rtc_read_reg io 0x04;
     day \<leftarrow> rtc_read_reg io 0x07;
     mon \<leftarrow> rtc_read_reg io 0x08;
     year \<leftarrow> rtc_read_reg io 0x09;
     reg_b \<leftarrow> rtc_read_reg io 0x0b;
     State_Monad.return (rtc_convert reg_b sec mnt hour day mon year)
   }"

definition rtc_get_time :: "'d ports \<Rightarrow> 'd \<Rightarrow> (tm \<times> 'd) option" where
  "rtc_get_time io d = do { d \<leftarrow> rtc_wait io d; Some (run_state (rtc_read io) d) }"

section \<open>The Gregorian calendar\<close>

definition leap_year :: "int \<Rightarrow> bool" where
  "leap_year y \<longleftrightarrow> 4 dvd y \<and> (\<not> 100 dvd y \<or> 400 dvd y)"

definition year_days :: "int \<Rightarrow> int" where
  "year_days y = (if leap_year y then 366 else 365)"

definition month_days :: "int \<Rightarrow> int list" where
  "month_days y = [31, if leap_year y then 29 else 28, 31, 30, 31, 30, 31, 31, 30, 31, 30, 31]"

text \<open>The days from the first of January 2000 to the first of January of a year, counted year by year.\<close>

function days_to_year :: "int \<Rightarrow> int" where
  "days_to_year y =
     (if y > 2000 then days_to_year (y - 1) + year_days (y - 1)
      else if y < 2000 then days_to_year (y + 1) - year_days y else 0)"
  by pat_completeness auto
termination by (relation "measure (\<lambda>y. nat \<bar>y - 2000\<bar>)") auto

declare days_to_year.simps [simp del]

definition civil_days :: "int \<Rightarrow> int \<Rightarrow> int \<Rightarrow> int" where
  "civil_days y m d = days_to_year y + sum_list (take (nat m) (month_days y)) + d - 1"

lemma div_step: "0 < n \<Longrightarrow> (x :: int) div n = (x - 1) div n + (if n dvd x then 1 else 0)"
proof -
  assume n: "0 < n"
  show ?thesis
  proof (cases "n dvd x")
    case True
    then obtain k where "x = n * k" by blast
    moreover have "(n * k - 1) div n = k - 1"
      using n by (intro int_div_pos_eq [where r = "n - 1"]) (simp_all add: algebra_simps)
    ultimately show ?thesis using n by simp
  next
    case False
    then have "0 < x mod n" using n by (simp add: dvd_eq_mod_eq_0 order_less_le)
    moreover have "x - 1 = n * (x div n) + (x mod n - 1)" "x mod n < n" using n by simp_all
    ultimately have "(x - 1) div n = x div n" by (intro int_div_pos_eq [where r = "x mod n - 1"]) linarith+
    then show ?thesis using False by simp
  qed
qed

definition leaps :: "int \<Rightarrow> int" where
  "leaps x = x div 4 - x div 100 + x div 400"

lemma leaps_step: "leaps x = leaps (x - 1) + (if leap_year (2000 + x) then 1 else 0)"
proof -
  have d: "4 dvd 2000 + x \<longleftrightarrow> 4 dvd x" "100 dvd 2000 + x \<longleftrightarrow> 100 dvd x" "400 dvd 2000 + x \<longleftrightarrow> 400 dvd x"
    by (simp_all add: dvd_add_right_iff)
  have i: "400 dvd x \<Longrightarrow> 100 dvd x" "100 dvd x \<Longrightarrow> 4 dvd x"
    by (auto elim: dvd_trans [rotated])
  have s: "leaps x = leaps (x - 1) + (if 4 dvd x then 1 else 0) - (if 100 dvd x then 1 else 0) + (if 400 dvd x then 1 else 0)"
    unfolding leaps_def using div_step [of 4 x] div_step [of 100 x] div_step [of 400 x] by linarith
  show ?thesis
    unfolding s leap_year_def d using i by (cases "400 dvd x"; cases "100 dvd x"; cases "4 dvd x") simp_all
qed

lemma days_to_year_leaps: "days_to_year (2000 + x) = 365 * x + leaps (x - 1) + 1"
proof (induction "2000 + x" arbitrary: x rule: days_to_year.induct)
  case 1
  consider "x > 0" | "x < 0" | "x = 0" by linarith
  then show ?case
  proof cases
    case 1
    then have "days_to_year (2000 + (x - 1)) = 365 * (x - 1) + leaps (x - 1 - 1) + 1"
      using "1.hyps"(1) [of "x - 1"] by (simp add: algebra_simps)
    moreover have "days_to_year (2000 + x) = days_to_year (2000 + (x - 1)) + year_days (2000 + (x - 1))"
      using 1 by (simp add: days_to_year.simps [of "2000 + x"] add_diff_eq)
    ultimately show ?thesis
      using leaps_step [of "x - 1"] by (simp add: year_days_def)
  next
    case 2
    then have "days_to_year (2000 + (x + 1)) = 365 * (x + 1) + leaps (x + 1 - 1) + 1"
      using "1.hyps"(2) [of "x + 1"] by (simp add: algebra_simps)
    moreover have "days_to_year (2000 + x) = days_to_year (2000 + (x + 1)) - year_days (2000 + x)"
      using 2 by (simp add: days_to_year.simps [of "2000 + x"] add.assoc)
    ultimately show ?thesis
      using leaps_step [of x] by (simp add: year_days_def)
  next
    case 3
    then show ?thesis by (simp add: days_to_year.simps leaps_def)
  qed
qed

lemma take_month_days:
  assumes "0 \<le> m" "m < 12"
  shows "sum_list (take (nat m) (month_days y)) = days_at_month ! nat m + (if 2 \<le> m \<and> leap_year y then 1 else 0)"
proof -
  have "m \<in> {0, 1, 2, 3, 4, 5, 6, 7, 8, 9, 10, 11}" using assms by (simp only: insert_iff empty_iff) presburger
  then show ?thesis
    by (auto simp: month_days_def days_at_month_def)
qed

section \<open>The formula\<close>

lemma Q_floor:
  assumes b: "0 < b" and c: "a \<le> 0 \<Longrightarrow> wrap (wrap (b - a) - 1) = b - a - 1"
  shows "Q wrap a b = a div b"
proof -
  have "(b - a - 1) div b = - (a div b)"
  proof (rule int_div_pos_eq)
    show "b - a - 1 = b * - (a div b) + (b - 1 - a mod b)"
      by (simp add: algebra_simps minus_mult_div_eq_mod [symmetric])
  qed (use b pos_mod_bound [of b a] pos_mod_sign [of b a] in linarith)+
  then show ?thesis using b c by (auto simp: Q_def cdiv_def)
qed

lemma normalize_month_floor: "normalize_month y m = (y + m div 12, m mod 12)"
proof (cases "m < 0")
  case True
  have e: "m = 12 * (m div 12) + m mod 12" "0 \<le> m mod 12" "m mod 12 < 12" by simp_all
  have c: "cdiv m 12 = (if m mod 12 = 0 then m div 12 else m div 12 + 1)"
    using True by (simp add: cdiv_def zdiv_zminus1_eq_if)
  then have "cmod m 12 = (if m mod 12 = 0 then 0 else m mod 12 - 12)"
    unfolding cmod_def using e(1) by presburger
  moreover have "m mod 12 \<noteq> 12" using e(3) by linarith
  ultimately show ?thesis using True c by (simp add: normalize_month_def Let_def)
next
  case False
  then show ?thesis
    by (cases "m < 12") (simp_all add: normalize_month_def cdiv_def cmod_def minus_mult_div_eq_mod)
qed

lemma formula_days:
  assumes "0 \<le> m" "m < 12"
  shows "x * 365 + leaps (x - (if m < 2 then 1 else 0)) + days_at_month ! nat m + d = civil_days (2000 + x) m d"
  using take_month_days [OF assms, of "2000 + x"] leaps_step [of x]
  by (simp add: civil_days_def days_to_year_leaps)

lemma days_at_month_bound: "0 \<le> m \<Longrightarrow> m < 12 \<Longrightarrow> 0 \<le> days_at_month ! nat m \<and> days_at_month ! nat m \<le> 334"
proof -
  assume "0 \<le> m" "m < 12"
  then have "days_at_month ! nat m \<in> set days_at_month"
    by (intro nth_mem) (simp add: days_at_month_def)
  then show ?thesis by (auto simp: days_at_month_def)
qed

lemma Q_i32:
  assumes "0 < b" "b < 1000000" "\<bar>a\<bar> < 2000000000"
  shows "Q i32 a b = a div b"
  using assms by (intro Q_floor) (simp_all add: i32_id)

lemma tm_to_time_core:
  assumes x: "x = tm_year tm - 100 + tm_mon tm div 12" and b: "\<bar>x\<bar> \<le> 5000000" "\<bar>tm_mday tm\<bar> \<le> 100000000"
    and mon: "- 2147483648 \<le> tm_mon tm" "tm_mon tm < 2147483648"
    and h: "\<bar>tm_hour tm\<bar> \<le> 596523" "\<bar>tm_min tm\<bar> \<le> 35791394"
  shows "tm_to_time tm = civil_days (2000 + x) (tm_mon tm mod 12) (tm_mday tm) * 86400
    + tm_hour tm * 3600 + tm_min tm * 60 + tm_sec tm + 946684800"
proof -
  define m where "m = tm_mon tm mod 12"
  define a where "a = x - (if m < 2 then 1 else 0)"
  have m: "0 \<le> m" "m < 12" by (simp_all add: m_def)
  have a: "- 5000001 \<le> a" "a \<le> 5000000" using b(1) by (auto simp: a_def split: if_splits)
  have z: "a div 4 div 25 = a div 100" "a div 100 div 4 = a div 400" by (simp_all flip: zdiv_zmult2_eq)
  have q: "- 1250001 \<le> a div 4" "a div 4 \<le> 1250000" "- 50001 \<le> a div 100" "a div 100 \<le> 50000"
    "- 12501 \<le> a div 400" "a div 400 \<le> 12500"
    using a by presburger+
  have i: "i32 (a div 4) = a div 4" "i32 (a div 100) = a div 100" "i32 (a div 400) = a div 400"
    "i32 (tm_hour tm * 3600) = tm_hour tm * 3600" "i32 (tm_min tm * 60) = tm_min tm * 60"
    using q h by (simp_all add: i32_id)
  have z4: "Q (\<lambda>x. x) a 4 = a div 4" "Q i32 (a div 4) 25 = a div 100" "Q i32 (a div 100) 4 = a div 400"
    using q Q_floor [of 4 a "\<lambda>x. x"] Q_i32 [of 25 "a div 4"] Q_i32 [of 4 "a div 100"] by (simp_all add: z)
  have f: "x * 365 + a div 4 - a div 100 + a div 400 + days_at_month ! nat m + tm_mday tm = civil_days (2000 + x) m (tm_mday tm)"
    using formula_days [OF m, of x "tm_mday tm"] by (simp add: leaps_def a_def)
  have d: "i32 (tm_mday tm + (x * 365 + a div 4 - a div 100 + a div 400 + days_at_month ! nat m))
      = civil_days (2000 + x) m (tm_mday tm)"
    by (subst i32_id) (use f q b days_at_month_bound [OF m] in linarith)+
  have "- 178956971 \<le> tm_mon tm div 12" "tm_mon tm div 12 \<le> 178956970" using mon by presburger+
  then have "i32 (tm_year tm + - 100) = tm_year tm + - 100" using x b(1) by (intro i32_id) linarith+
  then have n: "normalize_month (i32 (tm_year tm + - 100)) (tm_mon tm) = (x, m)"
    by (simp add: normalize_month_floor x m_def)
  show ?thesis
    unfolding tm_to_time_def n Let_def prod.case a_def [symmetric] z4 i d
    by (simp add: m_def)
qed

text \<open>
  C35: for every date of about five million years around 2000, with any month number that is an \<^verbatim>\<open>int\<close> (also negative or
  above eleven), a day of the month up to a hundred million away, at most 596523 hours and 35791394 minutes, the
  bounds within which \<^verbatim>\<open>tm_hour * 3600\<close> and \<^verbatim>\<open>tm_min * 60\<close> fit in an \<^verbatim>\<open>int\<close>, and any second, \<^verbatim>\<open>tm_to_time\<close> is the
  number of seconds since 1970 by the Gregorian calendar, counted day by day: the 32-bit arithmetic does not overflow.
\<close>

theorem tm_to_time_spec:
  assumes "\<bar>tm_year tm - 100 + tm_mon tm div 12\<bar> \<le> 5000000" "\<bar>tm_mday tm\<bar> \<le> 100000000"
    and "- 2147483648 \<le> tm_mon tm" "tm_mon tm < 2147483648" "\<bar>tm_hour tm\<bar> \<le> 596523" "\<bar>tm_min tm\<bar> \<le> 35791394"
  shows "tm_to_time tm = civil_days (1900 + tm_year tm + tm_mon tm div 12) (tm_mon tm mod 12) (tm_mday tm) * 86400
    + tm_hour tm * 3600 + tm_min tm * 60 + tm_sec tm + 946684800"
  using tm_to_time_core [OF refl assms] by (simp add: algebra_simps)

theorem tm_to_time_spec_witness:
  "tm_to_time \<lparr>tm_sec = 7, tm_min = 5, tm_hour = 3, tm_mday = 1, tm_mon = 2, tm_year = 104\<rparr>
     = civil_days 2004 2 1 * 86400 + 11107 + 946684800 \<and> civil_days 2004 2 1 = 1521"
  using tm_to_time_spec [of "\<lparr>tm_sec = 7, tm_min = 5, tm_hour = 3, tm_mday = 1, tm_mon = 2, tm_year = 104\<rparr>"]
  by (simp add: civil_days_def days_to_year.simps year_days_def month_days_def leap_year_def)

section \<open>Digits of the clock\<close>

lemma bcd_to_int_digits:
  assumes "t < 10" "u < 10"
  shows "unat (bcd_to_int (push_bit 4 (of_nat t) OR of_nat u)) = 10 * t + u"
proof -
  have "t \<in> {0, 1, 2, 3, 4, 5, 6, 7, 8, 9}" "u \<in> {0, 1, 2, 3, 4, 5, 6, 7, 8, 9}"
    using assms by (simp_all only: insert_iff empty_iff) presburger+
  then show ?thesis
    by (elim insertE) (simp_all add: bcd_to_int_def)
qed

text \<open>On a twelve-hour clock in decimal digits, one in the afternoon is read as the hour 81.\<close>

lemma rtc_pm_lost: "tm_hour (rtc_convert 0x00 0 0 0x81 1 1 0) = 81"
  by (simp add: rtc_convert_def bcd_to_int_def)

end
