(* ===== verification/Device.thy ===== *)
theory Device
  imports Port_IO Task CString
begin

text \<open>
  What the drivers of \<^verbatim>\<open>kernel/acpi/\<close> and \<^verbatim>\<open>kernel/dev/\<close> work on.  The devices are an argument, as for the
  port instructions: next to the ports there are the registers a driver reaches by loads and stores through a pointer
  that \<^verbatim>\<open>mmio_map_region\<close> returned.  The memory of the kernel that is not page tables is seen as bytes, at the addresses
  of the direct mapping; the structures of the firmware, the tables of the host adapter and the buffers of a
  transfer lie there.  Operations that can fail to return (a failed assertion, a wait for a device) are partial.
\<close>

section \<open>Memory-mapped registers\<close>

record 'd bus =
  pio :: "'d ports"
  rd8 :: "u64 \<Rightarrow> 'd \<Rightarrow> u8 \<times> 'd"
  rd16 :: "u64 \<Rightarrow> 'd \<Rightarrow> u16 \<times> 'd"
  rd32 :: "u64 \<Rightarrow> 'd \<Rightarrow> u32 \<times> 'd"
  rd64 :: "u64 \<Rightarrow> 'd \<Rightarrow> u64 \<times> 'd"
  wr8 :: "u64 \<Rightarrow> u8 \<Rightarrow> 'd \<Rightarrow> 'd"
  wr16 :: "u64 \<Rightarrow> u16 \<Rightarrow> 'd \<Rightarrow> 'd"
  wr32 :: "u64 \<Rightarrow> u32 \<Rightarrow> 'd \<Rightarrow> 'd"
  wr64 :: "u64 \<Rightarrow> u64 \<Rightarrow> 'd \<Rightarrow> 'd"

definition load8 :: "'d bus \<Rightarrow> u64 \<Rightarrow> ('d, u8) state" where "load8 io a = State (rd8 io a)"
definition load16 :: "'d bus \<Rightarrow> u64 \<Rightarrow> ('d, u16) state" where "load16 io a = State (rd16 io a)"
definition load32 :: "'d bus \<Rightarrow> u64 \<Rightarrow> ('d, u32) state" where "load32 io a = State (rd32 io a)"
definition load64 :: "'d bus \<Rightarrow> u64 \<Rightarrow> ('d, u64) state" where "load64 io a = State (rd64 io a)"

definition store8 :: "'d bus \<Rightarrow> u64 \<Rightarrow> u8 \<Rightarrow> ('d, unit) state" where
  "store8 io a v = State (\<lambda>d. ((), wr8 io a v d))"
definition store16 :: "'d bus \<Rightarrow> u64 \<Rightarrow> u16 \<Rightarrow> ('d, unit) state" where
  "store16 io a v = State (\<lambda>d. ((), wr16 io a v d))"
definition store32 :: "'d bus \<Rightarrow> u64 \<Rightarrow> u32 \<Rightarrow> ('d, unit) state" where
  "store32 io a v = State (\<lambda>d. ((), wr32 io a v d))"
definition store64 :: "'d bus \<Rightarrow> u64 \<Rightarrow> u64 \<Rightarrow> ('d, unit) state" where
  "store64 io a v = State (\<lambda>d. ((), wr64 io a v d))"

lemma run_load [monad]:
  "run_state (load8 io a) d = rd8 io a d" "run_state (load16 io a) d = rd16 io a d"
  "run_state (load32 io a) d = rd32 io a d" "run_state (load64 io a) d = rd64 io a d"
  by (simp_all add: load8_def load16_def load32_def load64_def)

lemma run_store [monad]:
  "run_state (store8 io a b) d = ((), wr8 io a b d)" "run_state (store16 io a h) d = ((), wr16 io a h d)"
  "run_state (store32 io a w) d = ((), wr32 io a w d)" "run_state (store64 io a q) d = ((), wr64 io a q d)"
  by (simp_all add: store8_def store16_def store32_def store64_def)

section \<open>State of the drivers\<close>

text \<open>
  The devices, the bytes of the memory of the kernel, the rest of the kernel, and the static variable \<^verbatim>\<open>base\<close> of
  \<^verbatim>\<open>mmio_map_region\<close>.
\<close>

record 'd drv =
  hw :: 'd
  ram :: bmem
  kst :: kern
  mmio_next :: u64

definition dev_run :: "('d, 'a) state \<Rightarrow> ('d, 'z) drv_scheme \<Rightarrow> 'a \<times> ('d, 'z) drv_scheme" where
  "dev_run m s = (case run_state m (hw s) of (x, d) \<Rightarrow> (x, s\<lparr>hw := d\<rparr>))"

definition dev_do :: "('d, 'a) state \<Rightarrow> ('d, 'z) drv_scheme \<Rightarrow> ('d, 'z) drv_scheme" where
  "dev_do m s = snd (dev_run m s)"

definition set_ram :: "bmem \<Rightarrow> ('d, 'z) drv_scheme \<Rightarrow> ('d, 'z) drv_scheme" where
  "set_ram m s = s\<lparr>ram := m\<rparr>"

text \<open>
  Waiting for a device: a register is read until what was read is as wanted.  A device that never gets there makes the
  wait endless.
\<close>

partial_function (option) wait_while :: "('d, 'a) state \<Rightarrow> ('a \<Rightarrow> bool) \<Rightarrow> 'd \<Rightarrow> ('a \<times> 'd) option" where
  "wait_while m again d =
     (case run_state m d of (x, d) \<Rightarrow> if again x then wait_while m again d else Some (x, d))"

declare wait_while.simps [code]

definition dev_wait ::
  "('d, 'a) state \<Rightarrow> ('a \<Rightarrow> bool) \<Rightarrow> ('d, 'z) drv_scheme \<Rightarrow> ('a \<times> ('d, 'z) drv_scheme) option" where
  "dev_wait m again s = map_option (\<lambda>(x, d). (x, s\<lparr>hw := d\<rparr>)) (wait_while m again (hw s))"

text \<open>Services of the kernel, on the state of the drivers.\<close>

definition map_mmio ::
  "(vm \<Rightarrow> vm option) \<Rightarrow> u64 \<Rightarrow> u64 \<Rightarrow> ('d, 'z) drv_scheme \<Rightarrow> (u64 \<times> ('d, 'z) drv_scheme) option" where
  "map_mmio oom pa sz s = do {
     (va, base, v) \<leftarrow> mmio_map_region oom (kernel_pml4 (kst s)) pa sz (mmio_next s, kvm (kst s));
     Some (va, s\<lparr>kst := put_kvm v (kst s), mmio_next := base\<rparr>)
   }"

definition alloc_obj :: "u64 \<Rightarrow> ('d, 'z) drv_scheme \<Rightarrow> ((nat \<times> nat) option \<times> ('d, 'z) drv_scheme) option" where
  "alloc_obj sz s = map_option (\<lambda>(p, k). (p, s\<lparr>kst := (kst s)\<lparr>kmemory := k\<rparr>\<rparr>)) (kmalloc sz (kmemory (kst s)))"

definition free_obj :: "nat \<times> nat \<Rightarrow> ('d, 'z) drv_scheme \<Rightarrow> ('d, 'z) drv_scheme option" where
  "free_obj p s = map_option (\<lambda>k. s\<lparr>kst := (kst s)\<lparr>kmemory := k\<rparr>\<rparr>) (kfree (Some p) (kmemory (kst s)))"

text \<open>A page taken with \<^verbatim>\<open>ALLOC_ZERO\<close> is cleared by \<^verbatim>\<open>page_alloc\<close>, which shows in the bytes as well.\<close>

definition alloc_page :: "u32 \<Rightarrow> ('d, 'z) drv_scheme \<Rightarrow> (nat option \<times> ('d, 'z) drv_scheme) option" where
  "alloc_page flags s = do {
     (page, m) \<leftarrow> page_alloc flags (phys (kmemory (kst s)));
     let s = s\<lparr>kst := (kst s)\<lparr>kmemory := (kmemory (kst s))\<lparr>phys := m\<rparr>\<rparr>\<rparr>;
     case page of
       None \<Rightarrow> Some (None, s)
     | Some p \<Rightarrow>
         Some (Some p, if flags AND ALLOC_ZERO \<noteq> 0
           then set_ram (memset (ram s) (table_kva p) 0
             (if flags AND ALLOC_HUGE \<noteq> 0 then 512 * PAGE_SIZE else PAGE_SIZE)) s
           else s)
   }"

definition free_page :: "nat \<Rightarrow> ('d, 'z) drv_scheme \<Rightarrow> ('d, 'z) drv_scheme option" where
  "free_page p s =
     map_option (\<lambda>m. s\<lparr>kst := (kst s)\<lparr>kmemory := (kmemory (kst s))\<lparr>phys := m\<rparr>\<rparr>\<rparr>) (page_free p (phys (kmemory (kst s))))"

text \<open>A wait returns exactly when one of the reads gives a value that is not waited on.\<close>

primrec after_polls :: "nat \<Rightarrow> ('d, 'a) state \<Rightarrow> 'd \<Rightarrow> 'd" where
  "after_polls 0 m d = d"
| "after_polls (Suc n) m d = after_polls n m (snd (run_state m d))"

lemma wait_while_returns:
  "\<not> again (fst (run_state m (after_polls n m d))) \<Longrightarrow> \<exists>x d'. wait_while m again d = Some (x, d') \<and> \<not> again x"
proof (induction n arbitrary: d)
  case 0
  then show ?case by (subst wait_while.simps) (auto split: prod.split)
next
  case (Suc n)
  then show ?case by (subst wait_while.simps) (auto split: prod.split)
qed

lemma wait_while_result:
  assumes "wait_while m again d = Some (x, d')"
  shows "\<not> again x \<and> (\<exists>n. run_state m (after_polls n m d) = (x, d'))"
proof -
  have "\<not> again (fst r) \<and> (\<exists>n. run_state m (after_polls n m d) = r)"
    if "wait_while m again d = Some r" for r
  proof (rule wait_while.raw_induct [OF _ that, where P = "\<lambda>m again d r.
      \<not> again (fst r) \<and> (\<exists>n. run_state m (after_polls n m d) = r)"], goal_cases)
    case (1 loop m again d r)
    show ?case
    proof (cases "again (fst (run_state m d))")
      case True
      then obtain n where "\<not> again (fst r)" "run_state m (after_polls n m (snd (run_state m d))) = r"
        using 1(1) [of m again "snd (run_state m d)" r] 1(2) by (auto split: prod.splits)
      then show ?thesis by (metis after_polls.simps(2))
    next
      case False
      then have "r = run_state m d" using 1(2) by (auto split: prod.splits)
      then show ?thesis using False by (metis after_polls.simps(1))
    qed
  qed
  from this [OF assms] show ?thesis by simp
qed

section \<open>Little-endian memory\<close>

primrec get_bytes :: "nat \<Rightarrow> bmem \<Rightarrow> u64 \<Rightarrow> u64" where
  "get_bytes 0 m a = 0"
| "get_bytes (Suc n) m a = ucast (m a) OR push_bit 8 (get_bytes n m (a + 1))"

primrec put_bytes :: "nat \<Rightarrow> u64 \<Rightarrow> u64 \<Rightarrow> bmem \<Rightarrow> bmem" where
  "put_bytes 0 a v m = m"
| "put_bytes (Suc n) a v m = put_bytes n (a + 1) (drop_bit 8 v) (m(a := ucast v))"

definition get16 :: "bmem \<Rightarrow> u64 \<Rightarrow> u16" where "get16 m a = ucast (get_bytes 2 m a)"
definition get32 :: "bmem \<Rightarrow> u64 \<Rightarrow> u32" where "get32 m a = ucast (get_bytes 4 m a)"
definition get64 :: "bmem \<Rightarrow> u64 \<Rightarrow> u64" where "get64 m a = get_bytes 8 m a"

definition put8 :: "u64 \<Rightarrow> u8 \<Rightarrow> bmem \<Rightarrow> bmem" where "put8 a v m = m(a := v)"
definition put16 :: "u64 \<Rightarrow> u16 \<Rightarrow> bmem \<Rightarrow> bmem" where "put16 a v m = put_bytes 2 a (ucast v) m"
definition put32 :: "u64 \<Rightarrow> u32 \<Rightarrow> bmem \<Rightarrow> bmem" where "put32 a v m = put_bytes 4 a (ucast v) m"
definition put64 :: "u64 \<Rightarrow> u64 \<Rightarrow> bmem \<Rightarrow> bmem" where "put64 a v m = put_bytes 8 a v m"

definition bytes_at :: "bmem \<Rightarrow> u64 \<Rightarrow> nat \<Rightarrow> u8 list" where
  "bytes_at m a n = map (\<lambda>i. m (a + of_nat i)) [0..<n]"

lemma unat_ucast_32: "unat (ucast (w :: u32) :: u64) = unat w"
proof -
  have "unat w < 2 ^ 64" by (rule order_less_le_trans [OF unsigned_less]) simp
  then show ?thesis by (simp add: unsigned_ucast_eq take_bit_eq_mod)
qed

lemma unat_ucast_8: "unat (ucast (w :: u8) :: u64) = unat w"
proof -
  have "unat w < 2 ^ 64" by (rule order_less_le_trans [OF unsigned_less]) simp
  then show ?thesis by (simp add: unsigned_ucast_eq take_bit_eq_mod)
qed

lemma put_bytes_out:
  assumes "\<forall>i < n. b \<noteq> a + of_nat i"
  shows "put_bytes n a v m b = m b"
  using assms
proof (induction n arbitrary: a v m)
  case (Suc n)
  have "b \<noteq> a" using Suc.prems by force
  moreover have "\<forall>i < n. b \<noteq> a + 1 + of_nat i"
    using Suc.prems by (metis Suc_less_eq add.assoc of_nat_Suc)
  ultimately show ?case using Suc.IH by simp
qed simp

lemma get_bytes_cong:
  "(\<And>i. i < n \<Longrightarrow> m (a + of_nat i) = m' (a + of_nat i)) \<Longrightarrow> get_bytes n m a = get_bytes n m' a"
proof (induction n arbitrary: a)
  case (Suc n)
  have "m (a + 1 + of_nat i) = m' (a + 1 + of_nat i)" if "i < n" for i
    using Suc.prems [of "Suc i"] that by (simp add: ac_simps)
  then show ?case using Suc.IH Suc.prems [of 0] by simp
qed simp

lemma small_of_nat: "0 < n \<Longrightarrow> n < 2 ^ 64 \<Longrightarrow> of_nat n \<noteq> (0 :: u64)"
  by (simp add: word_of_nat_eq_0_iff nat_dvd_not_less)

lemma get_put_bytes: "n \<le> 8 \<Longrightarrow> get_bytes n (put_bytes n a v m) a = take_bit (8 * n) v"
proof (induction n arbitrary: a v m)
  case (Suc n)
  have "a \<noteq> a + 1 + of_nat i" if "i < n" for i
    using small_of_nat [of "Suc i"] that Suc.prems by (simp add: add.assoc)
  then have first: "put_bytes n (a + 1) (drop_bit 8 v) (m(a := ucast v)) a = ucast v"
    by (subst put_bytes_out) simp_all
  have "ucast (ucast v :: u8) OR push_bit 8 (take_bit (8 * n) (drop_bit 8 v)) = take_bit (8 + 8 * n) v"
    by (rule bit_eqI) (auto simp: bit_simps)
  then show ?case using Suc.IH Suc.prems first by simp
qed simp

lemma get32_put32: "get32 (put32 a w m) a = w"
proof -
  have "get_bytes 4 (put_bytes 4 a (ucast w) m) a = take_bit 32 (ucast w)" using get_put_bytes [of 4] by simp
  then show ?thesis unfolding get32_def put32_def by simp (rule bit_eqI, simp add: bit_simps)
qed

lemma put32_out: "(\<And>k. k < 4 \<Longrightarrow> b \<noteq> a + of_nat k) \<Longrightarrow> put32 a w m b = m b"
  unfolding put32_def by (rule put_bytes_out) simp

end
