(* ===== verification/ACPI.thy ===== *)
theory ACPI
  imports Device
begin

text \<open>
  The tables of the firmware: \<^verbatim>\<open>kernel/acpi/acpi.c\<close>.  A table is found through the root pointer in the memory of the
  firmware; its signature is compared and its bytes have to sum up to zero.  The functions that print the tables found
  (\<^verbatim>\<open>acpi_dump_tables\<close>) are not modelled.
\<close>

section \<open>Layout of the structures\<close>

definition SIZEOF_ACPI_HDR :: u64 where "SIZEOF_ACPI_HDR = 36"

definition hdr_signature :: "bmem \<Rightarrow> u64 \<Rightarrow> u8 list" where "hdr_signature m hdr = bytes_at m hdr 4"
definition hdr_len :: "bmem \<Rightarrow> u64 \<Rightarrow> u32" where "hdr_len m hdr = get32 m (hdr + 4)"
definition rsdp_revision :: "bmem \<Rightarrow> u64 \<Rightarrow> u8" where "rsdp_revision m rsdp = m (rsdp + 15)"
definition rsdt_base :: "bmem \<Rightarrow> u64 \<Rightarrow> u32" where "rsdt_base m rsdp = get32 m (rsdp + 16)"
definition xsdt_base :: "bmem \<Rightarrow> u64 \<Rightarrow> u64" where "xsdt_base m rsdp = get64 m (rsdp + 24)"

text \<open>The literals of the source: \<^verbatim>\<open>RSD PTR\<close>, \<^verbatim>\<open>XSDT\<close>, \<^verbatim>\<open>RSDT\<close>.\<close>

definition sig_rsdp :: "u8 list" where "sig_rsdp = [0x52, 0x53, 0x44, 0x20, 0x50, 0x54, 0x52, 0x20]"
definition sig_xsdt :: "u8 list" where "sig_xsdt = [0x58, 0x53, 0x44, 0x54]"
definition sig_rsdt :: "u8 list" where "sig_rsdt = [0x52, 0x53, 0x44, 0x54]"

section \<open>Looking tables up\<close>

primrec memsum_loop :: "nat \<Rightarrow> bmem \<Rightarrow> u64 \<Rightarrow> u8 \<Rightarrow> u8" where
  "memsum_loop 0 m p acc = acc"
| "memsum_loop (Suc len) m p acc = memsum_loop len m (p + 1) (acc + m p)"

definition memsum :: "bmem \<Rightarrow> u64 \<Rightarrow> u64 \<Rightarrow> u8" where
  "memsum m s len = memsum_loop (unat len) m s 0"

definition acpi_check :: "bmem \<Rightarrow> u64 \<Rightarrow> u8 list \<Rightarrow> bool" where
  "acpi_check m hdr signature =
     (if hdr_signature m hdr \<noteq> signature then False else memsum m hdr (ucast (hdr_len m hdr)) = 0)"

partial_function (option) rsdp_find_range :: "bmem \<Rightarrow> u64 \<Rightarrow> u64 \<Rightarrow> u64 option option" where
  "rsdp_find_range m p lim =
     (if p < lim then
        if bytes_at m p 8 = sig_rsdp then Some (Some p) else rsdp_find_range m (p + 16) lim
      else Some None)"

declare rsdp_find_range.simps [code]

definition rsdp_find :: "bmem \<Rightarrow> u64 option option" where
  "rsdp_find m = rsdp_find_range m (KERNEL_VMA + 0xe0000) (KERNEL_VMA + 0xfffff)"

primrec xsdt_loop :: "nat \<Rightarrow> bmem \<Rightarrow> u64 \<Rightarrow> u8 list \<Rightarrow> u64 option" where
  "xsdt_loop 0 m sdtp signature = None"
| "xsdt_loop (Suc n) m sdtp signature =
     (let hdr = KERNEL_VMA + get64 m sdtp
      in if \<not> acpi_check m hdr signature then xsdt_loop n m (sdtp + 8) signature else Some hdr)"

definition xsdt_find_table :: "bmem \<Rightarrow> u64 \<Rightarrow> u8 list \<Rightarrow> u64 option" where
  "xsdt_find_table m hdr signature =
     xsdt_loop (unat (hdr_len m hdr) div 8) m (hdr + SIZEOF_ACPI_HDR) signature"

primrec rsdt_loop :: "nat \<Rightarrow> bmem \<Rightarrow> u64 \<Rightarrow> u8 list \<Rightarrow> u64 option" where
  "rsdt_loop 0 m sdtp signature = None"
| "rsdt_loop (Suc n) m sdtp signature =
     (let hdr = KERNEL_VMA + ucast (get32 m sdtp)
      in if \<not> acpi_check m hdr signature then rsdt_loop n m (sdtp + 4) signature else Some hdr)"

definition rsdt_find_table :: "bmem \<Rightarrow> u64 \<Rightarrow> u8 list \<Rightarrow> u64 option" where
  "rsdt_find_table m hdr signature =
     rsdt_loop (unat (hdr_len m hdr) div 4) m (hdr + SIZEOF_ACPI_HDR) signature"

definition acpi_find_table :: "bmem \<Rightarrow> u64 \<Rightarrow> u8 list \<Rightarrow> u64 option" where
  "acpi_find_table m rsdp signature =
     (let xsdt = KERNEL_VMA + xsdt_base m rsdp; rsdt = KERNEL_VMA + ucast (rsdt_base m rsdp)
      in if rsdp_revision m rsdp > 0 \<and> acpi_check m xsdt sig_xsdt then xsdt_find_table m xsdt signature
         else if acpi_check m rsdt sig_rsdt then rsdt_find_table m rsdt signature
         else None)"

section \<open>What the search finds\<close>

lemma memsum_loop_sum: "memsum_loop n m p s = s + sum_list (bytes_at m p n)"
proof (induction n arbitrary: p s)
  case (Suc n)
  have "bytes_at m p (Suc n) = m p # bytes_at m (p + 1) n"
    unfolding bytes_at_def upt_conv_Cons [OF zero_less_Suc] map_Suc_upt [symmetric]
    by (simp add: add.commute add.left_commute)
  then show ?case using Suc.IH by (simp add: add.assoc)
qed (simp add: bytes_at_def)

lemma memsum_sum: "memsum m a len = sum_list (bytes_at m a (unat len))"
  unfolding memsum_def by (simp add: memsum_loop_sum)

text \<open>The addresses of the tables listed from an address on.\<close>

definition listed64 :: "bmem \<Rightarrow> u64 \<Rightarrow> nat \<Rightarrow> u64 list" where
  "listed64 m a n = map (\<lambda>i. KERNEL_VMA + get64 m (a + 8 * of_nat i)) [0..<n]"

definition listed32 :: "bmem \<Rightarrow> u64 \<Rightarrow> nat \<Rightarrow> u64 list" where
  "listed32 m a n = map (\<lambda>i. KERNEL_VMA + ucast (get32 m (a + 4 * of_nat i))) [0..<n]"

lemma listed64_Suc: "listed64 m a (Suc n) = (KERNEL_VMA + get64 m a) # listed64 m (a + 8) n"
  unfolding listed64_def upt_conv_Cons [OF zero_less_Suc] map_Suc_upt [symmetric]
  by (simp add: algebra_simps)

lemma listed32_Suc: "listed32 m a (Suc n) = (KERNEL_VMA + ucast (get32 m a)) # listed32 m (a + 4) n"
  unfolding listed32_def upt_conv_Cons [OF zero_less_Suc] map_Suc_upt [symmetric]
  by (simp add: algebra_simps)

lemma xsdt_loop_find: "xsdt_loop n m a sig = find (\<lambda>h. acpi_check m h sig) (listed64 m a n)"
  by (induction n arbitrary: a) (simp_all add: listed64_def [of _ _ 0] listed64_Suc Let_def)

lemma rsdt_loop_find: "rsdt_loop n m a sig = find (\<lambda>h. acpi_check m h sig) (listed32 m a n)"
  by (induction n arbitrary: a) (simp_all add: listed32_def [of _ _ 0] listed32_Suc Let_def)

text \<open>The search for the root pointer ends, and finds the first paragraph that carries the signature.\<close>

lemma rsdp_find_range_find:
  "unat p + 16 * n < 2 ^ 64 \<Longrightarrow> unat lim \<le> unat p + 16 * n \<Longrightarrow> (n = 0 \<or> unat p + 16 * (n - 1) < unat lim) \<Longrightarrow>
   rsdp_find_range m p lim = Some (find (\<lambda>a. bytes_at m a 8 = sig_rsdp) (map (\<lambda>i. p + 16 * of_nat i) [0..<n]))"
proof (induction n arbitrary: p)
  case 0
  then show ?case by (subst rsdp_find_range.simps) (simp add: word_less_nat_alt)
next
  case (Suc n)
  have less: "p < lim" using Suc.prems by (simp add: word_less_nat_alt)
  have next_p: "unat (p + 16) = unat p + 16"
    using Suc.prems(1) by (subst unat_plus_if') simp
  have shift: "map (\<lambda>i. p + 16 * of_nat i) [0..<Suc n] = p # map (\<lambda>i. p + 16 + 16 * of_nat i) [0..<n]"
    unfolding upt_conv_Cons [OF zero_less_Suc] map_Suc_upt [symmetric] by (simp add: algebra_simps)
  have "rsdp_find_range m (p + 16) lim =
      Some (find (\<lambda>a. bytes_at m a 8 = sig_rsdp) (map (\<lambda>i. p + 16 + 16 * of_nat i) [0..<n]))"
    by (rule Suc.IH) (use Suc.prems next_p in auto)
  then show ?case
    unfolding shift by (subst rsdp_find_range.simps) (simp add: less)
qed

lemma rsdp_find_eq:
  "rsdp_find m = Some (find (\<lambda>a. bytes_at m a 8 = sig_rsdp)
     (map (\<lambda>i. KERNEL_VMA + 0xe0000 + 16 * of_nat i) [0..<8192]))"
  unfolding rsdp_find_def by (rule rsdp_find_range_find) (simp_all add: KERNEL_VMA_def)

end
