(* ===== verification/Apic.thy ===== *)
theory Apic
  imports ACPI Clock Trap
begin

text \<open>
  Interrupt controllers and timers the firmware describes: \<^verbatim>\<open>kernel/acpi/lapic.c\<close>, \<^verbatim>\<open>kernel/acpi/madt.c\<close> and
  \<^verbatim>\<open>kernel/acpi/hpet.c\<close>.
\<close>

section \<open>State\<close>

text \<open>
  The global variables of the three files; \<open>None\<close> is the pointer \<^verbatim>\<open>NULL\<close>.  The array \<^verbatim>\<open>cpus\<close> is part of the state of
  the kernel.
\<close>

record 'd apic = "'d drv" +
  lapic_addr :: u64
  lapic_base :: "u64 option"
  hpet_regs :: "u64 option"
  hpet_freq :: u64
  ncpus :: u64
  boot_cpu :: "nat option"

definition LAPIC_ID :: u16 where "LAPIC_ID = 0x0020"
definition LAPIC_VERSION :: u16 where "LAPIC_VERSION = 0x0030"
definition LAPIC_TPR :: u16 where "LAPIC_TPR = 0x0080"
definition LAPIC_EOI :: u16 where "LAPIC_EOI = 0x00b0"
definition LAPIC_SIVR :: u16 where "LAPIC_SIVR = 0x00f0"
definition LAPIC_ESR :: u16 where "LAPIC_ESR = 0x0280"
definition LAPIC_ICR_LO :: u16 where "LAPIC_ICR_LO = 0x0300"
definition LAPIC_ICR_HI :: u16 where "LAPIC_ICR_HI = 0x0310"
definition LAPIC_TIMER :: u16 where "LAPIC_TIMER = 0x0320"
definition LAPIC_PMCR :: u16 where "LAPIC_PMCR = 0x0340"
definition LAPIC_LINT0 :: u16 where "LAPIC_LINT0 = 0x0350"
definition LAPIC_LINT1 :: u16 where "LAPIC_LINT1 = 0x0360"
definition LAPIC_ERROR :: u16 where "LAPIC_ERROR = 0x0370"
definition LAPIC_TICR :: u16 where "LAPIC_TICR = 0x0380"
definition LAPIC_TDCR :: u16 where "LAPIC_TDCR = 0x03e0"
definition LAPIC_ENABLE :: u32 where "LAPIC_ENABLE = 0x00000100"
definition LAPIC_INIT :: u32 where "LAPIC_INIT = 0x00000500"
definition LAPIC_STARTUP :: u32 where "LAPIC_STARTUP = 0x00000600"
definition LAPIC_DELIVERY :: u32 where "LAPIC_DELIVERY = 0x00001000"
definition LAPIC_ASSERT :: u32 where "LAPIC_ASSERT = 0x00004000"
definition LAPIC_LEVEL :: u32 where "LAPIC_LEVEL = 0x00008000"
definition LAPIC_BROADCAST :: u32 where "LAPIC_BROADCAST = 0x00080000"
definition LAPIC_OTHERS :: u32 where "LAPIC_OTHERS = 0x000c0000"
definition LAPIC_FIXED :: u32 where "LAPIC_FIXED = 0x00000000"
definition LAPIC_X1 :: u32 where "LAPIC_X1 = 0x0000000b"
definition LAPIC_PERIODIC :: u32 where "LAPIC_PERIODIC = 0x00020000"
definition LAPIC_MASKED :: u32 where "LAPIC_MASKED = 0x00010000"
definition IRQ_SPURIOUS :: u32 where "IRQ_SPURIOUS = 39"
definition IRQ_ERROR :: u32 where "IRQ_ERROR = 51"
definition NCPUS :: nat where "NCPUS = 64"

section \<open>Local interrupt controller\<close>

definition lapic_read :: "'d bus \<Rightarrow> u64 \<Rightarrow> u16 \<Rightarrow> ('d, u32) state" where
  "lapic_read io base addr = load32 io (base + ucast addr)"

definition lapic_write :: "'d bus \<Rightarrow> u64 \<Rightarrow> u16 \<Rightarrow> u32 \<Rightarrow> ('d, unit) state" where
  "lapic_write io base addr value = do {
     store32 io (base + ucast addr) value;
     lapic_read io base LAPIC_ID;
     State_Monad.return ()
   }"

definition lapic_cpunum :: "'d bus \<Rightarrow> ('d, 'z) apic_scheme \<Rightarrow> nat \<times> ('d, 'z) apic_scheme" where
  "lapic_cpunum io s =
     (case lapic_base s of
        None \<Rightarrow> (0, s)
      | Some base \<Rightarrow> (case dev_run (lapic_read io base LAPIC_ID) s of (v, s) \<Rightarrow> (unat (drop_bit 24 v), s)))"

text \<open>The writes of \<^verbatim>\<open>lapic_init\<close> before and after it looks at the number of the CPU and the version.\<close>

definition lapic_setup_timer :: "'d bus \<Rightarrow> u64 \<Rightarrow> ('d, unit) state" where
  "lapic_setup_timer io base = do {
     lapic_write io base LAPIC_SIVR (LAPIC_ENABLE OR IRQ_SPURIOUS);
     lapic_write io base LAPIC_TDCR LAPIC_X1;
     lapic_write io base LAPIC_TIMER (LAPIC_PERIODIC OR ucast IRQ_TIMER);
     lapic_write io base LAPIC_TICR 10000000
   }"

definition lapic_setup_lines :: "'d bus \<Rightarrow> u64 \<Rightarrow> ('d, unit) state" where
  "lapic_setup_lines io base = do {
     lapic_write io base LAPIC_LINT1 LAPIC_MASKED;
     v \<leftarrow> lapic_read io base LAPIC_VERSION;
     (if drop_bit 16 v AND 0xff \<ge> 4 then lapic_write io base LAPIC_PMCR LAPIC_MASKED else State_Monad.return ());
     lapic_write io base LAPIC_ERROR IRQ_ERROR;
     lapic_write io base LAPIC_ESR 0;
     lapic_write io base LAPIC_ESR 0;
     lapic_write io base LAPIC_EOI 0;
     lapic_write io base LAPIC_ICR_HI 0;
     lapic_write io base LAPIC_ICR_LO (LAPIC_BROADCAST OR LAPIC_INIT OR LAPIC_LEVEL)
   }"

definition lapic_wait_delivery :: "'d bus \<Rightarrow> u64 \<Rightarrow> ('d, 'z) apic_scheme \<Rightarrow> ('d, 'z) apic_scheme option" where
  "lapic_wait_delivery io base s =
     map_option snd (dev_wait (lapic_read io base LAPIC_ICR_LO) (\<lambda>v. v AND LAPIC_DELIVERY \<noteq> 0) s)"

definition lapic_map :: "(vm \<Rightarrow> vm option) \<Rightarrow> ('d, 'z) apic_scheme \<Rightarrow> (u64 \<times> ('d, 'z) apic_scheme) option" where
  "lapic_map oom s =
     (case lapic_base s of
        Some base \<Rightarrow> Some (base, s)
      | None \<Rightarrow> do { (base, s) \<leftarrow> map_mmio oom (lapic_addr s) PAGE_SIZE s; Some (base, s\<lparr>lapic_base := Some base\<rparr>) })"

definition lapic_init :: "'d bus \<Rightarrow> (vm \<Rightarrow> vm option) \<Rightarrow> ('d, 'z) apic_scheme \<Rightarrow> ('d, 'z) apic_scheme option" where
  "lapic_init io oom s =
     (if lapic_addr s = 0 then Some s
      else do {
        (base, s) \<leftarrow> lapic_map oom s;
        let s = dev_do (lapic_setup_timer io base) s;
        let (n, s) = lapic_cpunum io s;
        let s = (if Some n \<noteq> boot_cpu s then dev_do (lapic_write io base LAPIC_LINT0 LAPIC_MASKED) s else s);
        let s = dev_do (lapic_setup_lines io base) s;
        s \<leftarrow> lapic_wait_delivery io base s;
        Some (dev_do (lapic_write io base LAPIC_TPR 0) s)
      })"

definition lapic_eoi :: "'d bus \<Rightarrow> ('d, 'z) apic_scheme \<Rightarrow> ('d, 'z) apic_scheme" where
  "lapic_eoi io s = (case lapic_base s of None \<Rightarrow> s | Some base \<Rightarrow> dev_do (lapic_write io base LAPIC_EOI 0) s)"

text \<open>The remaining functions use the base without looking whether it is mapped.\<close>

definition lapic_ipi :: "'d bus \<Rightarrow> u32 \<Rightarrow> ('d, 'z) apic_scheme \<Rightarrow> ('d, 'z) apic_scheme option" where
  "lapic_ipi io vector s = do {
     base \<leftarrow> lapic_base s;
     lapic_wait_delivery io base (dev_do (lapic_write io base LAPIC_ICR_LO (LAPIC_OTHERS OR LAPIC_FIXED OR vector)) s)
   }"

definition lapic_timer_off :: "'d bus \<Rightarrow> ('d, 'z) apic_scheme \<Rightarrow> ('d, 'z) apic_scheme option" where
  "lapic_timer_off io s = do {
     base \<leftarrow> lapic_base s;
     let (val, s) = dev_run (lapic_read io base LAPIC_TIMER) s;
     Some (dev_do (lapic_write io base LAPIC_TIMER (val OR LAPIC_MASKED)) s)
   }"

definition lapic_timer_on :: "'d bus \<Rightarrow> ('d, 'z) apic_scheme \<Rightarrow> ('d, 'z) apic_scheme option" where
  "lapic_timer_on io s = do {
     base \<leftarrow> lapic_base s;
     let (val, s) = dev_run (lapic_read io base LAPIC_TIMER) s;
     Some (dev_do (lapic_write io base LAPIC_TIMER (val AND NOT LAPIC_MASKED)) s)
   }"


definition warm_reset_vector :: "'d bus \<Rightarrow> u32 \<Rightarrow> ('d, 'z) apic_scheme \<Rightarrow> ('d, 'z) apic_scheme option" where
  "warm_reset_vector io addr s = do {
     let s = dev_do (outb (pio io) CMOS_ADDR 0xf) s;
     let s = dev_do (outb (pio io) (CMOS_DATA + 1) 0x8a) s;
     wrv \<leftarrow> KADDR (push_bit 4 0x40 OR 0x67) (kvm (kst s));
     Some (set_ram (put16 (wrv + 2) (ucast (drop_bit 4 addr)) (put16 wrv 0 (ram s))) s)
   }"

definition send_startup :: "'d bus \<Rightarrow> u64 \<Rightarrow> u8 \<Rightarrow> u32 \<Rightarrow> ('d, unit) state" where
  "send_startup io base apic_id addr = do {
     lapic_write io base LAPIC_ICR_HI (push_bit 24 (ucast apic_id));
     lapic_write io base LAPIC_ICR_LO (LAPIC_STARTUP OR drop_bit 12 addr)
   }"

definition lapic_startup :: "'d bus \<Rightarrow> u8 \<Rightarrow> u32 \<Rightarrow> ('d, 'z) apic_scheme \<Rightarrow> ('d, 'z) apic_scheme option" where
  "lapic_startup io apic_id addr s = do {
     s \<leftarrow> warm_reset_vector io addr s;
     base \<leftarrow> lapic_base s;
     Some (dev_do (do {
       lapic_write io base LAPIC_ICR_HI (push_bit 24 (ucast apic_id));
       lapic_write io base LAPIC_ICR_LO (LAPIC_INIT OR LAPIC_LEVEL OR LAPIC_ASSERT);
       lapic_write io base LAPIC_ICR_LO (LAPIC_INIT OR LAPIC_LEVEL);
       send_startup io base apic_id addr;
       send_startup io base apic_id addr
     }) s)
   }"

section \<open>The table of the interrupt controllers\<close>

definition SIZEOF_MADT :: u64 where "SIZEOF_MADT = 44"
definition MADT_LAPIC :: u8 where "MADT_LAPIC = 0"
definition sig_apic :: "u8 list" where "sig_apic = [0x41, 0x50, 0x49, 0x43]"

definition madt_parse_lapic :: "u64 \<Rightarrow> ('d, 'z) apic_scheme \<Rightarrow> ('d, 'z) apic_scheme" where
  "madt_parse_lapic lapic s =
     (let cpu_id' = ram s lapic; apic_id = unat (ram s (lapic + 1))
      in if apic_id < NCPUS
         then s\<lparr>kst := (kst s)\<lparr>cpu_id := (cpu_id (kst s))(apic_id := cpu_id')\<rparr>, ncpus := ncpus s + 1\<rparr>
         else s)"

text \<open>Entries of the other types are only reported.\<close>

definition madt_parse_entry :: "u64 \<Rightarrow> ('d, 'z) apic_scheme \<Rightarrow> ('d, 'z) apic_scheme" where
  "madt_parse_entry p s = (if ram s p = MADT_LAPIC then madt_parse_lapic (p + 2) s else s)"

partial_function (option) madt_loop ::
  "u64 \<Rightarrow> u64 \<Rightarrow> u64 \<Rightarrow> ('d, 'z) apic_scheme \<Rightarrow> ('d, 'z) apic_scheme option" where
  "madt_loop len i p s =
     (if i < len then
        let s = madt_parse_entry p s; entry_len = ucast (ram s (p + 1))
        in madt_loop len (i + entry_len) (p + entry_len) s
      else Some s)"

declare madt_loop.simps [code]

definition mask_external :: "'d bus \<Rightarrow> ('d, unit) state" where
  "mask_external io = do {
     outb (pio io) 0x22 0x70;
     v \<leftarrow> inb (pio io) 0x23;
     outb (pio io) 0x23 (v OR 1)
   }"

definition madt_init :: "'d bus \<Rightarrow> u64 \<Rightarrow> ('d, 'z) apic_scheme \<Rightarrow> (int \<times> ('d, 'z) apic_scheme) option" where
  "madt_init io rsdp s =
     (case acpi_find_table (ram s) rsdp sig_apic of
        None \<Rightarrow> Some (-1, s)
      | Some madt \<Rightarrow> do {
          let s = s\<lparr>lapic_addr := ucast (get32 (ram s) (madt + 36)), ncpus := 0\<rparr>;
          s \<leftarrow> madt_loop (ucast (hdr_len (ram s) madt) - SIZEOF_MADT) 0 (madt + SIZEOF_MADT) s;
          let (n, s) = lapic_cpunum io s;
          let s = s\<lparr>boot_cpu := Some n, kst := (kst s)\<lparr>cpu_status := (cpu_status (kst s))(n := CPU_STARTED)\<rparr>\<rparr>;
          Some (0, if get32 (ram s) (madt + 40) \<noteq> 0 then dev_do (mask_external io) s else s)
        })"

section \<open>The event timer\<close>

definition sig_hpet :: "u8 list" where "sig_hpet = [0x48, 0x50, 0x45, 0x54]"
definition HPET_CAPS :: u64 where "HPET_CAPS = 0"
definition HPET_CFG :: u64 where "HPET_CFG = 16"
definition HPET_MAIN_CNT :: u64 where "HPET_MAIN_CNT = 240"

definition hpet_enable :: "'d bus \<Rightarrow> u64 \<Rightarrow> bool \<Rightarrow> ('d, unit) state" where
  "hpet_enable io regs' on = do {
     cfg \<leftarrow> load64 io (regs' + HPET_CFG);
     store64 io (regs' + HPET_CFG) (if on then cfg OR 1 else cfg AND NOT 1)
   }"

definition hpet_reset :: "'d bus \<Rightarrow> u64 \<Rightarrow> ('d, u32) state" where
  "hpet_reset io regs' = do {
     hpet_enable io regs' False;
     store64 io (regs' + HPET_MAIN_CNT) 0;
     hpet_enable io regs' True;
     caps \<leftarrow> load64 io (regs' + HPET_CAPS);
     State_Monad.return (ucast (drop_bit 32 caps))
   }"

text \<open>A clock period of zero is a division by zero.\<close>

definition hpet_init ::
  "'d bus \<Rightarrow> (vm \<Rightarrow> vm option) \<Rightarrow> u64 \<Rightarrow> ('d, 'z) apic_scheme \<Rightarrow> (int \<times> ('d, 'z) apic_scheme) option" where
  "hpet_init io oom rsdp s =
     (case acpi_find_table (ram s) rsdp sig_hpet of
        None \<Rightarrow> Some (-1, s)
      | Some hpet \<Rightarrow> do {
          (regs', s) \<leftarrow> (case hpet_regs s of
             Some r \<Rightarrow> Some (r, s)
           | None \<Rightarrow> map_mmio oom (get64 (ram s) (hpet + 44)) PAGE_SIZE s);
          let (period, s) = dev_run (hpet_reset io regs') (s\<lparr>hpet_regs := Some regs'\<rparr>);
          if period = 0 then None
          else Some (0, s\<lparr>hpet_freq := 1000000000000000 div ucast period\<rparr>)
        })"

definition hpet_get_time :: "'d bus \<Rightarrow> ('d, 'z) apic_scheme \<Rightarrow> ((u64 \<times> u64) \<times> ('d, 'z) apic_scheme) option" where
  "hpet_get_time io s = do {
     regs' \<leftarrow> hpet_regs s;
     let (cnt, s) = dev_run (load64 io (regs' + HPET_MAIN_CNT)) s;
     if hpet_freq s = 0 then None else Some ((cnt div hpet_freq s, cnt mod hpet_freq s), s)
   }"

section \<open>What is read from the table of the interrupt controllers\<close>

text \<open>
  The entries of the table: a type, the number of bytes it takes in memory and the bytes of the entry.  Every entry a
  firmware writes is at least two bytes long.
\<close>

primrec entries_at :: "bmem \<Rightarrow> u64 \<Rightarrow> u64 list \<Rightarrow> bool" where
  "entries_at m p [] = True"
| "entries_at m p (e # es) = (e = p \<and> entries_at m (p + ucast (m (p + 1))) es)"

definition entry_cpu :: "bmem \<Rightarrow> u64 \<Rightarrow> (nat \<times> u8) option" where
  "entry_cpu m e = (if m e = MADT_LAPIC \<and> unat (m (e + 3)) < NCPUS then Some (unat (m (e + 3)), m (e + 2)) else None)"

definition entry_bytes :: "bmem \<Rightarrow> u64 \<Rightarrow> nat" where "entry_bytes m e = unat (m (e + 1))"

definition found_cpus :: "bmem \<Rightarrow> u64 list \<Rightarrow> (nat \<times> u8) list" where
  "found_cpus m es = List.map_filter (entry_cpu m) es"

definition with_cpus :: "(nat \<times> u8) list \<Rightarrow> ('d, 'z) apic_scheme \<Rightarrow> ('d, 'z) apic_scheme" where
  "with_cpus xs s = s\<lparr>kst := (kst s)\<lparr>cpu_id := fold (\<lambda>(i, c) f. f(i := c)) xs (cpu_id (kst s))\<rparr>,
     ncpus := ncpus s + of_nat (length xs)\<rparr>"

lemma parse_entry_cpus:
  "madt_parse_entry e s = with_cpus (found_cpus (ram s) [e]) s"
proof -
  have plus: "e + 2 + 1 = e + 3" by simp
  show ?thesis
    by (simp add: madt_parse_entry_def madt_parse_lapic_def with_cpus_def found_cpus_def entry_cpu_def Let_def plus
        map_filter_simps)
qed

lemma with_cpus_append: "with_cpus ys (with_cpus xs s) = with_cpus (xs @ ys) s"
  by (simp add: with_cpus_def)

lemma with_cpus_ram [simp]: "ram (with_cpus xs s) = ram s"
  by (simp add: with_cpus_def)

lemma madt_loop_cpus:
  assumes "entries_at (ram s) p es" "unat i + (\<Sum>e\<leftarrow>es. entry_bytes (ram s) e) = unat len"
    "\<forall>e \<in> set es. 0 < entry_bytes (ram s) e"
  shows "madt_loop len i p s = Some (with_cpus (found_cpus (ram s) es) s)"
  using assms
proof (induction es arbitrary: i p s)
  case Nil
  then have "\<not> i < len" by (simp add: word_less_nat_alt)
  then show ?case by (subst madt_loop.simps) (simp add: with_cpus_def found_cpus_def map_filter_simps)
next
  case (Cons e es)
  let ?n = "ucast (ram s (p + 1)) :: u64"
  have n: "unat ?n = entry_bytes (ram s) e" using Cons.prems(1) by (simp add: entry_bytes_def unat_ucast_8)
  have lt: "unat i + unat ?n \<le> unat len" "0 < unat ?n" using Cons.prems(2,3) n by auto
  then have sum: "unat (i + ?n) = unat i + unat ?n"
    using unat_u64_less [of len] by (subst unat_plus_if') simp
  have less: "i < len" using lt by (simp add: word_less_nat_alt)
  let ?s = "with_cpus (found_cpus (ram s) [e]) s"
  have "madt_loop len (i + ?n) (p + ?n) ?s = Some (with_cpus (found_cpus (ram ?s) es) ?s)"
    by (rule Cons.IH) (use Cons.prems sum n in auto)
  moreover have "e = p" using Cons.prems(1) by simp
  moreover have "found_cpus (ram s) [e] @ found_cpus (ram s) es = found_cpus (ram s) (e # es)"
    by (simp add: found_cpus_def map_filter_def)
  ultimately show ?case
    by (subst madt_loop.simps) (simp add: less parse_entry_cpus with_cpus_append Let_def)
qed

end
