(* ===== verification/Apic_Inv.thy ===== *)
theory Apic_Inv
  imports Apic Sched_Inv
begin

text \<open>
  What the kernel learns from the firmware: which table a search finds, which CPUs the table of the interrupt controllers
  gives, and what time the event timer reports.
\<close>

section \<open>Tables\<close>

text \<open>The tables the root pointer lists, as the search goes through them.\<close>

definition listed_tables :: "bmem \<Rightarrow> u64 \<Rightarrow> u64 list" where
  "listed_tables m rsdp =
     (let xsdt = KERNEL_VMA + xsdt_base m rsdp; rsdt = KERNEL_VMA + ucast (rsdt_base m rsdp)
      in if rsdp_revision m rsdp > 0 \<and> acpi_check m xsdt sig_xsdt
         then listed64 m (xsdt + SIZEOF_ACPI_HDR) (unat (hdr_len m xsdt) div 8)
         else if acpi_check m rsdt sig_rsdt then listed32 m (rsdt + SIZEOF_ACPI_HDR) (unat (hdr_len m rsdt) div 4) else [])"

lemma acpi_find_table_find: "acpi_find_table m rsdp sig = find (\<lambda>h. acpi_check m h sig) (listed_tables m rsdp)"
  by (simp add: acpi_find_table_def listed_tables_def xsdt_find_table_def rsdt_find_table_def xsdt_loop_find rsdt_loop_find
      Let_def)

lemma acpi_find_table_ok:
  assumes "acpi_find_table m rsdp sig = Some h"
  shows "h \<in> set (listed_tables m rsdp) \<and> hdr_signature m h = sig \<and> sum_list (bytes_at m h (unat (hdr_len m h))) = 0"
proof -
  have "acpi_check m h sig \<and> h \<in> set (listed_tables m rsdp)"
    using assms unfolding acpi_find_table_find by (auto simp: find_Some_iff)
  then show ?thesis by (auto simp: acpi_check_def memsum_sum unat_ucast_32 split: if_splits)
qed

section \<open>CPUs\<close>

text \<open>An entry of length zero makes the loop over the entries endless.\<close>

lemma madt_loop_stuck:
  assumes "i < len" "ram s (p + 1) = 0"
  shows "madt_loop len i p s = None"
proof (rule ccontr)
  assume "madt_loop len i p s \<noteq> None"
  then obtain r where "madt_loop len i p s = Some r" by blast
  then have "\<not> (i < len \<and> ram s (p + 1) = 0)"
  proof (rule madt_loop.raw_induct [where P = "\<lambda>len i p s r. \<not> (i < len \<and> ram s (p + 1) = 0)", rotated], goal_cases)
    case (1 loop len i p s r)
    show ?case
    proof
      assume at: "i < len \<and> ram s (p + 1) = 0"
      then have "loop len i p (madt_parse_entry p s) = Some r"
        using 1(2) by (simp add: Let_def parse_entry_cpus)
      from 1(1) [OF this] at show False by (simp add: parse_entry_cpus)
    qed
  qed
  then show False using assms by simp
qed

text \<open>
  C36: at boot, before the local interrupt controller is mapped, \<^verbatim>\<open>madt_init\<close> goes through a table whose entries fill it
  exactly and have a length: it ends, counts the entries for a local controller whose identifier is below the limit, sets the
  processor identifier of each at the index of its controller, later entries winning, marks the CPU at index 0 as the boot
  CPU, whichever CPU runs the code, and takes over the address of the controllers.
\<close>

theorem madt_init_spec:
  assumes "acpi_find_table (ram s) rsdp sig_apic = Some madt" "lapic_base s = None"
    and "entries_at (ram s) (madt + SIZEOF_MADT) es" "44 + (\<Sum>e\<leftarrow>es. entry_bytes (ram s) e) = unat (hdr_len (ram s) madt)"
    and "\<forall>e \<in> set es. 0 < entry_bytes (ram s) e"
  shows "\<exists>s'. madt_init io rsdp s = Some (0, s') \<and> ncpus s' = of_nat (length (found_cpus (ram s) es)) \<and>
    cpu_id (kst s') = fold (\<lambda>(i, c) f. f(i := c)) (found_cpus (ram s) es) (cpu_id (kst s)) \<and>
    cpu_status (kst s') = (cpu_status (kst s))(0 := CPU_STARTED) \<and> boot_cpu s' = Some 0 \<and>
    lapic_addr s' = ucast (get32 (ram s) (madt + 36))"
proof -
  let ?s = "s\<lparr>lapic_addr := ucast (get32 (ram s) (madt + 36)), ncpus := 0\<rparr>"
  let ?len = "ucast (hdr_len (ram s) madt) - SIZEOF_MADT :: u64"
  have "unat ?len = (\<Sum>e\<leftarrow>es. entry_bytes (ram s) e)"
    using assms(4) by (subst unat_sub) (simp_all add: SIZEOF_MADT_def word_le_nat_alt unat_ucast_32)
  then have l: "madt_loop ?len 0 (madt + SIZEOF_MADT) ?s = Some (with_cpus (found_cpus (ram s) es) ?s)"
    using assms(3,5) madt_loop_cpus [of ?s "madt + SIZEOF_MADT" es 0 ?len] by simp
  then show ?thesis
    using assms(1,2) by (auto simp: madt_init_def lapic_cpunum_def with_cpus_def Let_def dev_do_def dev_run_def split: prod.splits)
qed

text \<open>A firmware with a root pointer, a list of one table, and a table of two CPUs.\<close>

definition fw_rsdt :: "u8 list" where
  "fw_rsdt = [0x52, 0x53, 0x44, 0x54, 40, 0, 0, 0, 1, 0x7a, 0, 0, 0, 0, 0, 0, 0, 0, 0, 0, 0, 0, 0, 0, 0, 0, 0, 0, 0, 0, 0, 0, 0, 0, 0, 0,
     0, 0x20, 0, 0]"

definition fw_madt :: "u8 list" where
  "fw_madt = [0x41, 0x50, 0x49, 0x43, 60, 0, 0, 0, 1, 0xb3, 0, 0, 0, 0, 0, 0, 0, 0, 0, 0, 0, 0, 0, 0, 0, 0, 0, 0, 0, 0, 0, 0, 0, 0, 0, 0,
     0, 0, 0xe0, 0xfe, 1, 0, 0, 0, 0, 8, 0, 0, 1, 0, 0, 0, 0, 8, 1, 1, 1, 0, 0, 0]"

definition fw_byte :: "nat \<Rightarrow> u8" where
  "fw_byte k =
     (if k = 0x511 then 0x10
      else if 0x1000 \<le> k \<and> k < 0x1028 then fw_rsdt ! (k - 0x1000)
      else if 0x2000 \<le> k \<and> k < 0x203c then fw_madt ! (k - 0x2000) else 0)"

definition fw_ram :: bmem where "fw_ram a = fw_byte (unat (a - KERNEL_VMA))"

definition fw_io :: "unit bus" where
  "fw_io = \<lparr>pio = \<lparr>in8 = (\<lambda>_ d. (0, d)), in16 = (\<lambda>_ d. (0, d)), in32 = (\<lambda>_ d. (0, d)), out8 = (\<lambda>_ _ d. d),
     out16 = (\<lambda>_ _ d. d), out32 = (\<lambda>_ _ d. d)\<rparr>,
     rd8 = (\<lambda>_ d. (0, d)), rd16 = (\<lambda>_ d. (0, d)), rd32 = (\<lambda>_ d. (0, d)), rd64 = (\<lambda>_ d. (0, d)),
     wr8 = (\<lambda>_ _ d. d), wr16 = (\<lambda>_ _ d. d), wr32 = (\<lambda>_ _ d. d), wr64 = (\<lambda>_ _ d. d)\<rparr>"

definition fw_state :: "unit apic" where
  "fw_state = \<lparr>hw = (), ram = fw_ram, kst = demo_kern, mmio_next = MMIO_BASE, lapic_addr = 0, lapic_base = None,
     hpet_regs = None, hpet_freq = 0, ncpus = 1, boot_cpu = None\<rparr>"

lemma fw_at: "fw_ram (KERNEL_VMA + numeral k) = fw_byte (unat (numeral k :: u64))"
  "fw_ram (KERNEL_VMA + numeral k + of_nat i) = fw_byte (unat (numeral k + of_nat i :: u64))"
  by (simp_all add: fw_ram_def)

lemma get_bytes_4: "get_bytes 4 m a =
    ucast (m a) OR push_bit 8 (ucast (m (a + 1)) OR push_bit 8 (ucast (m (a + 2)) OR push_bit 8 (ucast (m (a + 3)))))"
proof -
  have "4 = Suc (Suc (Suc (Suc 0)))" by simp
  then show ?thesis by (simp only: get_bytes.simps) (simp add: add.assoc)
qed

lemma fw_word: "get32 fw_ram (KERNEL_VMA + numeral k) =
   ucast (fw_byte (unat (numeral k :: u64))) OR push_bit 8 (ucast (fw_byte (unat (numeral (k + num.One) :: u64)))) OR
   push_bit 16 (ucast (fw_byte (unat (numeral (k + num.Bit0 num.One) :: u64)))) OR
   push_bit 24 (ucast (fw_byte (unat (numeral (k + num.Bit1 num.One) :: u64))))"
proof -
  have "(KERNEL_VMA + numeral k) + 1 = KERNEL_VMA + numeral (k + num.One)"
    "(KERNEL_VMA + numeral k) + 2 = KERNEL_VMA + numeral (k + num.Bit0 num.One)"
    "(KERNEL_VMA + numeral k) + 3 = KERNEL_VMA + numeral (k + num.Bit1 num.One)"
    by (simp_all only: add.assoc numeral_plus_numeral numeral_plus_one)
  then show ?thesis unfolding get32_def get_bytes_4
    by (simp only: fw_at) (rule bit_eqI, auto simp: bit_simps)
qed

lemma fw_bytes:
  assumes "\<And>i. i < length bs \<Longrightarrow> fw_byte (k + i) = bs ! i" "n \<le> length bs" "k + length bs < 2 ^ 64"
  shows "bytes_at fw_ram (KERNEL_VMA + of_nat k) n = take n bs"
proof (rule nth_equalityI)
  fix i assume "i < length (bytes_at fw_ram (KERNEL_VMA + of_nat k) n)"
  then have i: "i < n" by (simp add: bytes_at_def)
  have "unat (of_nat k + of_nat i :: u64) = k + i"
    using i assms(2,3) by (simp add: unat_plus_if' unat_of_nat)
  then have "fw_ram (KERNEL_VMA + of_nat k + of_nat i) = fw_byte (k + i)" by (simp add: fw_ram_def)
  then show "bytes_at fw_ram (KERNEL_VMA + of_nat k) n ! i = take n bs ! i"
    using i assms(1,2) by (simp add: bytes_at_def)
qed (use assms(2) in \<open>simp add: bytes_at_def\<close>)

lemma fw_lists:
  "n \<le> 40 \<Longrightarrow> bytes_at fw_ram (KERNEL_VMA + 0x1000) n = take n fw_rsdt"
  "n \<le> 60 \<Longrightarrow> bytes_at fw_ram (KERNEL_VMA + 0x2000) n = take n fw_madt"
  using fw_bytes [of fw_rsdt "0x1000" n] fw_bytes [of fw_madt "0x2000" n]
  by (simp_all add: fw_byte_def) (simp_all add: fw_rsdt_def fw_madt_def)

lemma fw_words:
  "get32 fw_ram (KERNEL_VMA + 0x510) = 0x1000" "get32 fw_ram (KERNEL_VMA + 0x1004) = 40"
  "get32 fw_ram (KERNEL_VMA + 0x1024) = 0x2000" "get32 fw_ram (KERNEL_VMA + 0x2004) = 60"
  by (simp_all add: fw_word fw_byte_def) (simp_all add: fw_rsdt_def fw_madt_def)

lemma fw_checks:
  "acpi_check fw_ram (KERNEL_VMA + 0x1000) sig_rsdt" "acpi_check fw_ram (KERNEL_VMA + 0x2000) sig_apic"
  by (simp_all add: acpi_check_def hdr_signature_def hdr_len_def memsum_sum fw_lists fw_words add.assoc)
    (simp_all add: fw_rsdt_def fw_madt_def sig_rsdt_def sig_apic_def)

lemma fw_table: "acpi_find_table fw_ram (KERNEL_VMA + 0x500) sig_apic = Some (KERNEL_VMA + 0x2000)"
proof -
  have "rsdp_revision fw_ram (KERNEL_VMA + 0x500) = 0" "rsdt_base fw_ram (KERNEL_VMA + 0x500) = 0x1000"
    "hdr_len fw_ram (KERNEL_VMA + 0x1000) = 40"
    by (simp_all add: rsdp_revision_def rsdt_base_def hdr_len_def fw_words add.assoc) (simp add: fw_at fw_byte_def)
  moreover have "rsdt_loop (Suc 9) fw_ram (KERNEL_VMA + 0x1024) sig_apic = Some (KERNEL_VMA + 0x2000)"
    unfolding rsdt_loop.simps using fw_checks(2) by (simp add: fw_words Let_def)
  ultimately show ?thesis
    using fw_checks(1) by (simp add: acpi_find_table_def rsdt_find_table_def SIZEOF_ACPI_HDR_def add.assoc)
qed

lemma fw_entries:
  "entries_at fw_ram (KERNEL_VMA + 0x2000 + SIZEOF_MADT) [KERNEL_VMA + 0x202c, KERNEL_VMA + 0x2034]"
  "entry_bytes fw_ram (KERNEL_VMA + 0x202c) = 8" "entry_bytes fw_ram (KERNEL_VMA + 0x2034) = 8"
  "hdr_len fw_ram (KERNEL_VMA + 0x2000) = 60"
  "found_cpus fw_ram [KERNEL_VMA + 0x202c, KERNEL_VMA + 0x2034] = [(0, 0), (1, 1)]"
  by (simp_all add: SIZEOF_MADT_def entry_bytes_def hdr_len_def fw_words found_cpus_def entry_cpu_def map_filter_def
      add.assoc fw_at fw_byte_def MADT_LAPIC_def NCPUS_def) (simp_all add: fw_madt_def)

theorem madt_init_spec_witness:
  "\<exists>s'. madt_init fw_io (KERNEL_VMA + 0x500) fw_state = Some (0, s') \<and> ncpus s' = 2 \<and> boot_cpu s' = Some 0"
proof -
  have s: "ram fw_state = fw_ram" "lapic_base fw_state = None" by (simp_all add: fw_state_def)
  show ?thesis
    using madt_init_spec [of fw_state "KERNEL_VMA + 0x500" "KERNEL_VMA + 0x2000" "[KERNEL_VMA + 0x202c, KERNEL_VMA + 0x2034]" fw_io]
    unfolding s using fw_table fw_entries by auto
qed

end
