(* ===== verification/PCI.thy ===== *)
theory PCI
  imports Apic
begin

text \<open>
  Access to the configuration space of a PCI function: the first half of \<^verbatim>\<open>kernel/dev/pci.c\<close> and the structures of
  \<^verbatim>\<open>include/pci.h\<close> and \<^verbatim>\<open>include/kernel/dev/pci.h\<close>.  The enumeration, which calls the drivers, is in the theory
  on the drivers.
\<close>

section \<open>Devices and their addresses\<close>

text \<open>
  \<^verbatim>\<open>struct pci_dev\<close> is a union with a table of operations that tells which member is in use: the address for the
  configuration ports, or the pointer to the mapped configuration space.
\<close>

datatype pci_dev = Io_dev u32 | Mmio_dev u64

definition PCI_CONF_ADDR :: u16 where "PCI_CONF_ADDR = 0xcf8"
definition PCI_CONF_DATA :: u16 where "PCI_CONF_DATA = 0xcfc"
definition PCI_ANY_ID :: u16 where "PCI_ANY_ID = 0xffff"

definition PCI_VENDOR_ID :: u64 where "PCI_VENDOR_ID = 0"
definition PCI_DEVICE_ID :: u64 where "PCI_DEVICE_ID = 2"
definition PCI_SUBCLASS :: u64 where "PCI_SUBCLASS = 10"
definition PCI_CLASS :: u64 where "PCI_CLASS = 11"
definition PCI_BAR :: u64 where "PCI_BAR = 16"

text \<open>Assignment to a bit field of a word: its first bit, its width and the value.\<close>

definition set_field :: "nat \<Rightarrow> nat \<Rightarrow> u64 \<Rightarrow> u32 \<Rightarrow> u32" where
  "set_field lo w v x = (x AND NOT (push_bit lo (mask w))) OR push_bit lo (take_bit w (ucast v))"

text \<open>
  \<^verbatim>\<open>pci_addr_io_t\<close> has the offset in the bits 0 to 7, the function from bit 8, the slot from bit 11, the bus from bit 16
  and the enable bit at the top; \<^verbatim>\<open>pci_addr_mmio_t\<close> has an offset of twelve bits below the same fields.
\<close>

definition pci_addr_io :: "u64 \<Rightarrow> u64 \<Rightarrow> u64 \<Rightarrow> u32 \<Rightarrow> u32" where
  "pci_addr_io bus slot func v =
     set_field 31 1 1 (set_field 16 8 bus (set_field 11 5 slot (set_field 8 3 func v)))"

definition pci_addr_mmio :: "u64 \<Rightarrow> u64 \<Rightarrow> u64 \<Rightarrow> u32 \<Rightarrow> u32" where
  "pci_addr_mmio bus slot func v = set_field 20 8 bus (set_field 15 5 slot (set_field 12 3 func v))"

section \<open>Configuration ports\<close>

definition pci_io_read8 :: "'d bus \<Rightarrow> u32 \<Rightarrow> u64 \<Rightarrow> ('d, u8) state" where
  "pci_io_read8 io io_addr offset = do {
     outl (pio io) PCI_CONF_ADDR (io_addr + ucast offset);
     inb (pio io) PCI_CONF_DATA
   }"

definition pci_io_read16 :: "'d bus \<Rightarrow> u32 \<Rightarrow> u64 \<Rightarrow> ('d, u16) state" where
  "pci_io_read16 io io_addr offset = do {
     outl (pio io) PCI_CONF_ADDR (io_addr + ucast (offset AND NOT 0x1));
     inw (pio io) PCI_CONF_DATA
   }"

definition pci_io_read32 :: "'d bus \<Rightarrow> u32 \<Rightarrow> u64 \<Rightarrow> ('d, u32) state" where
  "pci_io_read32 io io_addr offset = do {
     outl (pio io) PCI_CONF_ADDR (io_addr + ucast (offset AND NOT 0x3));
     inl (pio io) PCI_CONF_DATA
   }"

definition pci_io_write8 :: "'d bus \<Rightarrow> u32 \<Rightarrow> u64 \<Rightarrow> u8 \<Rightarrow> ('d, unit) state" where
  "pci_io_write8 io io_addr offset val = do {
     outl (pio io) PCI_CONF_ADDR (io_addr + ucast offset);
     outb (pio io) PCI_CONF_DATA val
   }"

definition pci_io_write16 :: "'d bus \<Rightarrow> u32 \<Rightarrow> u64 \<Rightarrow> u16 \<Rightarrow> ('d, unit) state" where
  "pci_io_write16 io io_addr offset val = do {
     outl (pio io) PCI_CONF_ADDR (io_addr + ucast (offset AND NOT 0x1));
     outw (pio io) PCI_CONF_DATA val
   }"

definition pci_io_write32 :: "'d bus \<Rightarrow> u32 \<Rightarrow> u64 \<Rightarrow> u32 \<Rightarrow> ('d, unit) state" where
  "pci_io_write32 io io_addr offset val = do {
     outl (pio io) PCI_CONF_ADDR (io_addr + ucast (offset AND NOT 0x3));
     outl (pio io) PCI_CONF_DATA val
   }"

section \<open>Mapped configuration space\<close>

definition pci_mmio_read8 :: "'d bus \<Rightarrow> u64 \<Rightarrow> u64 \<Rightarrow> ('d, u8) state" where
  "pci_mmio_read8 io data offset = load8 io (data + offset)"

definition pci_mmio_read16 :: "'d bus \<Rightarrow> u64 \<Rightarrow> u64 \<Rightarrow> ('d, u16) state" where
  "pci_mmio_read16 io data offset = load16 io (data + (offset AND NOT 0x1))"

definition pci_mmio_read32 :: "'d bus \<Rightarrow> u64 \<Rightarrow> u64 \<Rightarrow> ('d, u32) state" where
  "pci_mmio_read32 io data offset = load32 io (data + (offset AND NOT 0x3))"

definition pci_mmio_write8 :: "'d bus \<Rightarrow> u64 \<Rightarrow> u64 \<Rightarrow> u8 \<Rightarrow> ('d, unit) state" where
  "pci_mmio_write8 io data offset val = store8 io (data + offset) val"

definition pci_mmio_write16 :: "'d bus \<Rightarrow> u64 \<Rightarrow> u64 \<Rightarrow> u16 \<Rightarrow> ('d, unit) state" where
  "pci_mmio_write16 io data offset val = store16 io (data + (offset AND NOT 0x1)) val"

definition pci_mmio_write32 :: "'d bus \<Rightarrow> u64 \<Rightarrow> u64 \<Rightarrow> u32 \<Rightarrow> ('d, unit) state" where
  "pci_mmio_write32 io data offset val = store32 io (data + (offset AND NOT 0x3)) val"

section \<open>Access through the operations of a device\<close>

fun pci_read8 :: "'d bus \<Rightarrow> pci_dev \<Rightarrow> u64 \<Rightarrow> ('d, u8) state" where
  "pci_read8 io (Io_dev a) offset = pci_io_read8 io a offset"
| "pci_read8 io (Mmio_dev p) offset = pci_mmio_read8 io p offset"

fun pci_read16 :: "'d bus \<Rightarrow> pci_dev \<Rightarrow> u64 \<Rightarrow> ('d, u16) state" where
  "pci_read16 io (Io_dev a) offset = pci_io_read16 io a offset"
| "pci_read16 io (Mmio_dev p) offset = pci_mmio_read16 io p offset"

fun pci_read32 :: "'d bus \<Rightarrow> pci_dev \<Rightarrow> u64 \<Rightarrow> ('d, u32) state" where
  "pci_read32 io (Io_dev a) offset = pci_io_read32 io a offset"
| "pci_read32 io (Mmio_dev p) offset = pci_mmio_read32 io p offset"

fun pci_write8 :: "'d bus \<Rightarrow> pci_dev \<Rightarrow> u64 \<Rightarrow> u8 \<Rightarrow> ('d, unit) state" where
  "pci_write8 io (Io_dev a) offset val = pci_io_write8 io a offset val"
| "pci_write8 io (Mmio_dev p) offset val = pci_mmio_write8 io p offset val"

fun pci_write16 :: "'d bus \<Rightarrow> pci_dev \<Rightarrow> u64 \<Rightarrow> u16 \<Rightarrow> ('d, unit) state" where
  "pci_write16 io (Io_dev a) offset val = pci_io_write16 io a offset val"
| "pci_write16 io (Mmio_dev p) offset val = pci_mmio_write16 io p offset val"

fun pci_write32 :: "'d bus \<Rightarrow> pci_dev \<Rightarrow> u64 \<Rightarrow> u32 \<Rightarrow> ('d, unit) state" where
  "pci_write32 io (Io_dev a) offset val = pci_io_write32 io a offset val"
| "pci_write32 io (Mmio_dev p) offset val = pci_mmio_write32 io p offset val"

text \<open>
  A base address register is probed for its size by writing ones and reading back which bits stuck; the size is left
  out when the caller passes no pointer for it.
\<close>

definition pci_bar_size :: "'d bus \<Rightarrow> pci_dev \<Rightarrow> u64 \<Rightarrow> u32 \<Rightarrow> ('d, u32) state" where
  "pci_bar_size io dev' offset bar = do {
     pci_write32 io dev' offset 0xffffffff;
     stuck \<leftarrow> pci_read32 io dev' offset;
     pci_write32 io dev' offset bar;
     State_Monad.return ((NOT stuck OR 0xf) + 1)
   }"

definition pci_read_bar :: "'d bus \<Rightarrow> bool \<Rightarrow> pci_dev \<Rightarrow> u64 \<Rightarrow> ('d, u32 \<times> u32 option) state" where
  "pci_read_bar io want_size dev' index = do {
     bar \<leftarrow> pci_read32 io dev' (PCI_BAR + index * 4);
     sz \<leftarrow> (if want_size then do { n \<leftarrow> pci_bar_size io dev' (PCI_BAR + index * 4) bar; State_Monad.return (Some n) }
            else State_Monad.return None);
     State_Monad.return (bar, sz)
   }"

text \<open>The two ways to make a device; \<open>junk\<close> is what the members of the union that are not assigned happen to hold.\<close>

definition SIZEOF_PCI_DEV :: u64 where "SIZEOF_PCI_DEV = 16"

definition alloc_mmio_dev ::
  "(vm \<Rightarrow> vm option) \<Rightarrow> u32 \<Rightarrow> u64 \<Rightarrow> u64 \<Rightarrow> u64 \<Rightarrow> ('d, 'z) drv_scheme
   \<Rightarrow> (((nat \<times> nat) \<times> pci_dev) option \<times> ('d, 'z) drv_scheme) option" where
  "alloc_mmio_dev oom base_addr bus slot func s = do {
     (obj, s) \<leftarrow> alloc_obj SIZEOF_PCI_DEV s;
     case obj of
       None \<Rightarrow> Some (None, s)
     | Some p \<Rightarrow> do {
         (data, s) \<leftarrow> map_mmio oom (ucast (pci_addr_mmio bus slot func base_addr)) PAGE_SIZE s;
         Some (Some (p, Mmio_dev data), s)
       }
   }"

definition alloc_io_dev ::
  "u32 \<Rightarrow> u64 \<Rightarrow> u64 \<Rightarrow> u64 \<Rightarrow> ('d, 'z) drv_scheme \<Rightarrow> (((nat \<times> nat) \<times> pci_dev) option \<times> ('d, 'z) drv_scheme) option" where
  "alloc_io_dev junk bus slot func s = do {
     (obj, s) \<leftarrow> alloc_obj SIZEOF_PCI_DEV s;
     Some (map_option (\<lambda>p. (p, Io_dev (pci_addr_io bus slot func junk))) obj, s)
   }"

end
