(* ===== verification/ATA.thy ===== *)
theory ATA
  imports PCI
begin

text \<open>
  The table of disks of \<^verbatim>\<open>kernel/dev/disk.c\<close> and the driver for disks on the legacy interface, \<^verbatim>\<open>kernel/dev/ata.c\<close>.
  A disk is identified by the heap object of the driver that holds its \<^verbatim>\<open>struct disk\<close>.
\<close>

section \<open>State\<close>

record ata_chan =
  data_port :: u16
  err_port :: u16
  sector_count :: u16
  lba_lo :: u16
  lba_mid :: u16
  lba_hi :: u16
  drive_port :: u16
  cmd_port :: u16
  ctrl_port :: u16

datatype ata_state = ATA_IDLE | ATA_READ | ATA_WRITE

record ata_disk =
  chan :: nat
  drive :: u64
  ata_state :: ata_state
  nsectors :: u64
  sect_size :: u64

datatype ahci_state = AHCI_IDLE | AHCI_READ | AHCI_WRITE

record ahci_disk =
  ahci_port :: u64
  ahci_state :: ahci_state
  ahci_nsectors :: u64
  ahci_sect_size :: u64
  ahci_slot :: int

datatype disk_ops = ata_ops | ahci_ops

type_synonym disk_ptr = "nat \<times> nat"

text \<open>\<^verbatim>\<open>disks\<close> and \<^verbatim>\<open>ndisks\<close>, the channels of the legacy interface and the objects of the two drivers.\<close>

record 'd store = "'d apic" +
  disk_ops_of :: "disk_ptr \<Rightarrow> disk_ops"
  disks :: "nat \<Rightarrow> disk_ptr"
  ndisks :: u64
  channels :: "nat \<Rightarrow> ata_chan"
  ata_disks :: "disk_ptr \<Rightarrow> ata_disk"
  ahci_disks :: "disk_ptr \<Rightarrow> ahci_disk"

definition MAX_DISKS :: u64 where "MAX_DISKS = 32"
definition EAGAIN :: int where "EAGAIN = 1"
definition ATA_STAT_ERR :: u8 where "ATA_STAT_ERR = push_bit 0 1"
definition ATA_STAT_DRQ :: u8 where "ATA_STAT_DRQ = push_bit 3 1"
definition ATA_STAT_DF :: u8 where "ATA_STAT_DF = push_bit 5 1"
definition ATA_STAT_READY :: u8 where "ATA_STAT_READY = push_bit 6 1"
definition ATA_STAT_BUSY :: u8 where "ATA_STAT_BUSY = push_bit 7 1"
definition ATA_CMD_READ :: u8 where "ATA_CMD_READ = 0x20"
definition ATA_CMD_WRITE :: u8 where "ATA_CMD_WRITE = 0x30"
definition ATA_CMD_IDENT_PCKT :: u8 where "ATA_CMD_IDENT_PCKT = 0xa1"
definition ATA_CMD_FLUSH :: u8 where "ATA_CMD_FLUSH = 0xe7"
definition ATA_CMD_IDENT :: u8 where "ATA_CMD_IDENT = 0xec"

definition upd_ata :: "disk_ptr \<Rightarrow> (ata_disk \<Rightarrow> ata_disk) \<Rightarrow> ('d, 'z) store_scheme \<Rightarrow> ('d, 'z) store_scheme" where
  "upd_ata p f s = s\<lparr>ata_disks := (ata_disks s)(p := f (ata_disks s p))\<rparr>"

definition chan_of :: "disk_ptr \<Rightarrow> ('d, 'z) store_scheme \<Rightarrow> ata_chan" where
  "chan_of p s = channels s (chan (ata_disks s p))"

section \<open>Channel\<close>

definition ata_wait_400ns :: "'d bus \<Rightarrow> ata_chan \<Rightarrow> ('d, unit) state" where
  "ata_wait_400ns io c = do {
     inb (pio io) (ctrl_port c);
     inb (pio io) (ctrl_port c);
     inb (pio io) (ctrl_port c);
     inb (pio io) (ctrl_port c);
     State_Monad.return ()
   }"

definition ata_reset :: "'d bus \<Rightarrow> ata_chan \<Rightarrow> ('d, unit) state" where
  "ata_reset io c = do {
     outb (pio io) (ctrl_port c) 4;
     ata_wait_400ns io c;
     outb (pio io) (ctrl_port c) 0
   }"

definition ata_disable_irq :: "'d bus \<Rightarrow> (nat \<Rightarrow> ata_chan) \<Rightarrow> ('d, unit) state" where
  "ata_disable_irq io cs' = do {
     outb (pio io) (ctrl_port (cs' 0)) (push_bit 1 1);
     outb (pio io) (ctrl_port (cs' 1)) (push_bit 1 1)
   }"

definition ready_status :: "u8 \<Rightarrow> bool" where
  "ready_status status = (status AND (ATA_STAT_BUSY OR ATA_STAT_READY) = ATA_STAT_READY)"

definition ata_poll :: "'d bus \<Rightarrow> disk_ptr \<Rightarrow> ('d, 'z) store_scheme \<Rightarrow> bool \<times> ('d, 'z) store_scheme" where
  "ata_poll io p s = (case dev_run (inb (pio io) (cmd_port (chan_of p s))) s of (status, s) \<Rightarrow> (ready_status status, s))"

text \<open>\<^verbatim>\<open>None\<close> as the place for the answer is the null pointer; the answer is the number of sectors and their size.\<close>

definition ata_stat :: "disk_ptr \<Rightarrow> bool \<Rightarrow> ('d, 'z) store_scheme \<Rightarrow> int \<times> (u64 \<times> u64) option" where
  "ata_stat p stat s =
     (if \<not> stat then (-1, None) else (0, Some (nsectors (ata_disks s p), sect_size (ata_disks s p))))"

definition ata_wait_ready ::
  "'d bus \<Rightarrow> ata_chan \<Rightarrow> bool \<Rightarrow> ('d, 'z) drv_scheme \<Rightarrow> (int \<times> ('d, 'z) drv_scheme) option" where
  "ata_wait_ready io c check_err s = do {
     (status, s) \<leftarrow> dev_wait (inb (pio io) (cmd_port c)) (\<lambda>st. \<not> ready_status st) s;
     Some (if check_err \<and> status AND (ATA_STAT_DF OR ATA_STAT_ERR) \<noteq> 0 then -1 else 0, s)
   }"

section \<open>Transfers\<close>

text \<open>The words moved between the data port and a buffer.\<close>

primrec put_words :: "u64 \<Rightarrow> u32 list \<Rightarrow> bmem \<Rightarrow> bmem" where
  "put_words a [] m = m"
| "put_words a (w # ws) m = put_words (a + 4) ws (put32 a w m)"

primrec get_words :: "nat \<Rightarrow> bmem \<Rightarrow> u64 \<Rightarrow> u32 list" where
  "get_words 0 m a = []"
| "get_words (Suc n) m a = get32 m a # get_words n m (a + 4)"

definition ata_select :: "'d bus \<Rightarrow> ata_chan \<Rightarrow> u64 \<Rightarrow> ('d, unit) state" where
  "ata_select io c dr = outb (pio io) (drive_port c) (ucast (0xa0 OR push_bit 4 dr))"

definition ata_issue :: "'d bus \<Rightarrow> ata_chan \<Rightarrow> u64 \<Rightarrow> u64 \<Rightarrow> u64 \<Rightarrow> u8 \<Rightarrow> ('d, unit) state" where
  "ata_issue io c dr nsect addr cmd = do {
     outb (pio io) (sector_count c) (ucast nsect);
     outb (pio io) (lba_lo c) (ucast (addr AND 0xff));
     outb (pio io) (lba_mid c) (ucast (drop_bit 8 addr AND 0xff));
     outb (pio io) (lba_hi c) (ucast (drop_bit 16 addr AND 0xff));
     outb (pio io) (drive_port c) (ucast (0xe0 OR push_bit 4 dr OR (drop_bit 24 addr AND 0xf)));
     outb (pio io) (cmd_port c) cmd
   }"

definition ata_read ::
  "'d bus \<Rightarrow> disk_ptr \<Rightarrow> u64 \<Rightarrow> u64 \<Rightarrow> u64 \<Rightarrow> ('d, 'z) store_scheme \<Rightarrow> (int \<times> ('d, 'z) store_scheme) option" where
  "ata_read io p buf nsect addr s =
     (let c = chan_of p s; dr = drive (ata_disks s p);
          s = dev_do (ata_select io c dr) s
      in if ata_state (ata_disks s p) = ATA_IDLE then do {
           (r, s) \<leftarrow> ata_wait_ready io c False s;
           let s = dev_do (ata_issue io c dr nsect addr ATA_CMD_READ) s;
           Some (- EAGAIN, upd_ata p (\<lambda>d. d\<lparr>ata_state := ATA_READ\<rparr>) s)
         }
         else if ata_state (ata_disks s p) \<noteq> ATA_READ then Some (- EAGAIN, s)
         else case ata_poll io p s of
             (False, s) \<Rightarrow> Some (- EAGAIN, s)
           | (True, s) \<Rightarrow>
               (let n = sect_size (ata_disks s p);
                    (ws, s) = dev_run (insl (pio io) (data_port c) (unat (n div 4))) s
                in Some (sint (nsect * n),
                     upd_ata p (\<lambda>d. d\<lparr>ata_state := ATA_IDLE\<rparr>) (set_ram (put_words buf ws (ram s)) s))))"

definition ata_flush :: "'d bus \<Rightarrow> ata_chan \<Rightarrow> ('d, 'z) store_scheme \<Rightarrow> ('d, 'z) store_scheme option" where
  "ata_flush io c s = do {
     (r, s) \<leftarrow> ata_wait_ready io c False s;
     (r, s) \<leftarrow> ata_wait_ready io c False (dev_do (outb (pio io) (cmd_port c) ATA_CMD_FLUSH) s);
     Some s
   }"

definition ata_write ::
  "'d bus \<Rightarrow> disk_ptr \<Rightarrow> u64 \<Rightarrow> u64 \<Rightarrow> u64 \<Rightarrow> ('d, 'z) store_scheme \<Rightarrow> (int \<times> ('d, 'z) store_scheme) option" where
  "ata_write io p buf nsect addr s =
     (let c = chan_of p s; dr = drive (ata_disks s p);
          s = dev_do (ata_select io c dr) s
      in if ata_state (ata_disks s p) = ATA_IDLE then do {
           (r, s) \<leftarrow> ata_wait_ready io c False s;
           let s = dev_do (ata_issue io c dr nsect addr ATA_CMD_WRITE) s;
           Some (- EAGAIN, upd_ata p (\<lambda>d. d\<lparr>ata_state := ATA_WRITE\<rparr>) s)
         }
         else if ata_state (ata_disks s p) \<noteq> ATA_WRITE then Some (- EAGAIN, s)
         else case ata_poll io p s of
             (False, s) \<Rightarrow> Some (- EAGAIN, s)
           | (True, s) \<Rightarrow> do {
               (r, s) \<leftarrow> ata_wait_ready io c False (dev_do (ata_select io c dr) s);
               let n = sect_size (ata_disks s p);
               let s = dev_do (outsl (pio io) (data_port c) (get_words (unat (nsect * n div 4)) (ram s) buf)) s;
               s \<leftarrow> ata_flush io c (upd_ata p (\<lambda>d. d\<lparr>ata_state := ATA_IDLE\<rparr>) s);
               Some (sint (nsect * n), s)
             })"

section \<open>Finding the disks\<close>

definition ata_identify :: "'d bus \<Rightarrow> ata_chan \<Rightarrow> u64 \<Rightarrow> ('d, u8) state" where
  "ata_identify io c dr = do {
     ata_reset io c;
     ata_wait_400ns io c;
     ata_select io c dr;
     outb (pio io) (sector_count c) 0;
     outb (pio io) (lba_lo c) 0;
     outb (pio io) (lba_mid c) 0;
     outb (pio io) (lba_hi c) 0;
     outb (pio io) (cmd_port c) ATA_CMD_IDENT;
     inb (pio io) (cmd_port c)
   }"

definition ata_signature :: "'d bus \<Rightarrow> ata_chan \<Rightarrow> ('d, u16) state" where
  "ata_signature io c = do {
     lo \<leftarrow> inb (pio io) (lba_lo c);
     hi \<leftarrow> inb (pio io) (lba_hi c);
     State_Monad.return (ucast lo OR push_bit 8 (ucast hi))
   }"

definition ata_drq_err :: "'d bus \<Rightarrow> ata_chan \<Rightarrow> ('d, u8 \<times> u8) state" where
  "ata_drq_err io c = do {
     drq \<leftarrow> inb (pio io) (cmd_port c);
     err \<leftarrow> inb (pio io) (cmd_port c);
     State_Monad.return (drq AND ATA_STAT_DRQ, err AND ATA_STAT_ERR)
   }"

definition SIZEOF_ATA_DISK :: u64 where "SIZEOF_ATA_DISK = 48"

definition add_disk :: "disk_ptr \<Rightarrow> disk_ops \<Rightarrow> ('d, 'z) store_scheme \<Rightarrow> ('d, 'z) store_scheme" where
  "add_disk p ops s = s\<lparr>disk_ops_of := (disk_ops_of s)(p := ops), disks := (disks s)(unat (ndisks s) := p),
     ndisks := ndisks s + 1\<rparr>"

text \<open>The number of sectors is the member \<^verbatim>\<open>max_lba\<close> of the identification, the word at offset 120.\<close>

definition ata_register :: "nat \<Rightarrow> u64 \<Rightarrow> u32 list \<Rightarrow> ('d, 'z) store_scheme \<Rightarrow> ('d, 'z) store_scheme option" where
  "ata_register chan_id dr ident s =
     (if ndisks s \<ge> MAX_DISKS then Some s
      else do {
        (obj, s) \<leftarrow> alloc_obj SIZEOF_ATA_DISK s;
        case obj of
          None \<Rightarrow> Some s
        | Some p \<Rightarrow>
            Some (add_disk p ata_ops (upd_ata p (\<lambda>d. \<lparr>chan = chan_id, drive = dr, ata_state = ATA_IDLE,
              nsectors = ucast (ident ! 30), sect_size = 512\<rparr>) s))
      })"

definition ata_enum_device :: "'d bus \<Rightarrow> nat \<Rightarrow> u64 \<Rightarrow> ('d, 'z) store_scheme \<Rightarrow> ('d, 'z) store_scheme option" where
  "ata_enum_device io chan_id dr s =
     (let c = channels s chan_id; (status, s) = dev_run (ata_identify io c dr) s
      in if status = 0 then Some s
         else let (lba, s) = dev_run (ata_signature io c) s in
           do {
             ((drq, err), s) \<leftarrow> dev_wait (ata_drq_err io c) (\<lambda>(drq, err). drq = 0 \<and> err = 0) s;
             if err \<noteq> 0 \<and> lba \<noteq> 0xeb14 \<and> lba \<noteq> 0x9669 then Some s
             else
               let s = (if err \<noteq> 0 then dev_do (do { outb (pio io) (cmd_port c) ATA_CMD_IDENT_PCKT; ata_wait_400ns io c }) s
                        else s);
                   (ident, s) = dev_run (insl (pio io) (data_port c) 128) s
               in ata_register chan_id dr ident s
           })"

definition ata_enum_devices :: "'d bus \<Rightarrow> ('d, 'z) store_scheme \<Rightarrow> ('d, 'z) store_scheme option" where
  "ata_enum_devices io s = do {
     s \<leftarrow> ata_enum_device io 0 0 s;
     s \<leftarrow> ata_enum_device io 0 1 s;
     s \<leftarrow> ata_enum_device io 1 0 s;
     ata_enum_device io 1 1 s
   }"

definition ata_setup_chan :: "u16 \<Rightarrow> u16 \<Rightarrow> ata_chan" where
  "ata_setup_chan base ctrl = \<lparr>data_port = base, err_port = base + 1, sector_count = base + 2, lba_lo = base + 3,
     lba_mid = base + 4, lba_hi = base + 5, drive_port = base + 6, cmd_port = base + 7, ctrl_port = ctrl\<rparr>"

definition bar_port :: "u32 \<Rightarrow> u32 \<Rightarrow> u16" where
  "bar_port bar legacy = ucast ((bar AND 0xfffffffc) + (if bar = 0 then legacy else 0))"

definition ata_probe :: "'d bus \<Rightarrow> pci_dev \<Rightarrow> ('d, 'z) store_scheme \<Rightarrow> (int \<times> ('d, 'z) store_scheme) option" where
  "ata_probe io dev' s =
     (let ((b0, _), s) = dev_run (pci_read_bar io False dev' 0) s;
          ((b1, _), s) = dev_run (pci_read_bar io False dev' 1) s;
          s = s\<lparr>channels := (channels s)(0 := ata_setup_chan (bar_port b0 0x1f0) (bar_port b1 0x3f6))\<rparr>;
          ((b2, _), s) = dev_run (pci_read_bar io False dev' 2) s;
          ((b3, _), s) = dev_run (pci_read_bar io False dev' 3) s;
          s = s\<lparr>channels := (channels s)(1 := ata_setup_chan (bar_port b2 0x170) (bar_port b3 0x376))\<rparr>;
          s = dev_do (ata_disable_irq io (channels s)) s
      in do { s \<leftarrow> ata_enum_devices io s; Some (0, s) })"

end
