(* ===== verification/AHCI.thy ===== *)
theory AHCI
  imports ATA
begin

text \<open>
  The driver for disks on a host adapter, \<^verbatim>\<open>kernel/dev/ahci.c\<close>.  Its registers are mapped; the lists and tables of commands
  and the buffers are structures in memory, with the layout of \<^verbatim>\<open>include/ahci.h\<close>, that the adapter reads.
\<close>

section \<open>Layout of the structures\<close>

definition HBA_PxCMD_ST :: u32 where "HBA_PxCMD_ST = push_bit 0 1"
definition HBA_PxCMD_FRE :: u32 where "HBA_PxCMD_FRE = push_bit 4 1"
definition HBA_PxCMD_FR :: u32 where "HBA_PxCMD_FR = push_bit 14 1"
definition HBA_PxCMD_CR :: u32 where "HBA_PxCMD_CR = push_bit 15 1"
definition HBA_PxIS_TFES :: u32 where "HBA_PxIS_TFES = push_bit 30 1"
definition HBA_PORT_IPM_ACTIVE :: u8 where "HBA_PORT_IPM_ACTIVE = 1"
definition HBA_PORT_DET_PRESENT :: u8 where "HBA_PORT_DET_PRESENT = 3"
definition SATA_SIG_ATAPI :: u32 where "SATA_SIG_ATAPI = 0xeb140101"
definition SATA_SIG_SEMB :: u32 where "SATA_SIG_SEMB = 0xc33c0101"
definition SATA_SIG_PM :: u32 where "SATA_SIG_PM = 0x96690101"
definition FIS_TYPE_REG_H2D :: u8 where "FIS_TYPE_REG_H2D = 0x27"
definition ATA_CMD_READ_DMA_EX :: u8 where "ATA_CMD_READ_DMA_EX = 0x25"
definition ATA_CMD_WRITE_DMA_EX :: u8 where "ATA_CMD_WRITE_DMA_EX = 0x35"

datatype ahci_type = AHCI_DEV_NULL | AHCI_DEV_SATA | AHCI_DEV_SEMB | AHCI_DEV_PM | AHCI_DEV_SATAPI

text \<open>Offsets of the registers of a port, and of the ports and registers of the adapter.\<close>

definition P_CMD_BASE :: u64 where "P_CMD_BASE = 0"
definition P_FIS_BASE :: u64 where "P_FIS_BASE = 8"
definition P_INT_STAT :: u64 where "P_INT_STAT = 16"
definition P_CMD :: u64 where "P_CMD = 24"
definition P_TASK_FILE_DATA :: u64 where "P_TASK_FILE_DATA = 32"
definition P_SIG :: u64 where "P_SIG = 36"
definition P_SATA_STAT :: u64 where "P_SATA_STAT = 40"
definition P_SATA_ACT :: u64 where "P_SATA_ACT = 52"
definition P_CMD_ISSUE :: u64 where "P_CMD_ISSUE = 56"
definition SIZEOF_HBA_PORT :: u64 where "SIZEOF_HBA_PORT = 128"
definition M_PTS_IMPL :: u64 where "M_PTS_IMPL = 12"
definition M_PORTS :: u64 where "M_PORTS = 0x100"

text \<open>Sizes of a command header, of a command table with one region, and of the command itself.\<close>

definition SIZEOF_CMD_HDR :: u64 where "SIZEOF_CMD_HDR = 32"
definition SIZEOF_CMD_TBL :: u64 where "SIZEOF_CMD_TBL = 144"
definition SIZEOF_PRDT :: u64 where "SIZEOF_PRDT = 16"
definition SIZEOF_FIS :: u64 where "SIZEOF_FIS = 20"
definition TBL_PRDTS :: u64 where "TBL_PRDTS = 128"

definition hdr_prdt_len :: "bmem \<Rightarrow> u64 \<Rightarrow> u16" where "hdr_prdt_len m hdr = get16 m (hdr + 2)"
definition hdr_cmd_base :: "bmem \<Rightarrow> u64 \<Rightarrow> u64" where "hdr_cmd_base m hdr = get64 m (hdr + 8)"
definition prdt_base :: "bmem \<Rightarrow> u64 \<Rightarrow> u64" where "prdt_base m prdt = get64 m prdt"
definition prdt_size :: "bmem \<Rightarrow> u64 \<Rightarrow> u32" where "prdt_size m prdt = take_bit 22 (get32 m (prdt + 12))"

text \<open>
  The flags of a command header: the length of the command and the bits \<^verbatim>\<open>write\<close> and \<^verbatim>\<open>prefetchable\<close> are in the first
  byte, \<^verbatim>\<open>clear_busy\<close> is in the second.
\<close>

definition set_cmd_hdr :: "u64 \<Rightarrow> bool \<Rightarrow> u16 \<Rightarrow> bmem \<Rightarrow> bmem" where
  "set_cmd_hdr hdr wr len m =
     (let m = put8 hdr ((m hdr AND 0x20) OR ucast (SIZEOF_FIS div 4) OR (if wr then 0x40 else 0) OR 0x80) m;
          m = put8 (hdr + 1) (m (hdr + 1) OR 0x04) m
      in put16 (hdr + 2) len m)"

definition set_prdt :: "u64 \<Rightarrow> u64 \<Rightarrow> u64 \<Rightarrow> bmem \<Rightarrow> bmem" where
  "set_prdt prdt base sz m =
     (let m = put64 prdt base m;
          m = put32 (prdt + 12) (set_field 0 22 sz (get32 m (prdt + 12))) m
      in put32 (prdt + 12) (set_field 31 1 0 (get32 m (prdt + 12))) m)"

section \<open>Ports\<close>

definition or_reg :: "'d bus \<Rightarrow> u64 \<Rightarrow> u32 \<Rightarrow> ('d, unit) state" where
  "or_reg io a bits = do { v \<leftarrow> load32 io a; store32 io a (v OR bits) }"

definition clear_reg :: "'d bus \<Rightarrow> u64 \<Rightarrow> u32 \<Rightarrow> ('d, unit) state" where
  "clear_reg io a bits = do { v \<leftarrow> load32 io a; store32 io a (v AND NOT bits) }"

definition start_cmd :: "'d bus \<Rightarrow> u64 \<Rightarrow> ('d, 'z) drv_scheme \<Rightarrow> ('d, 'z) drv_scheme option" where
  "start_cmd io port s = do {
     (v, s) \<leftarrow> dev_wait (load32 io (port + P_CMD)) (\<lambda>v. v AND HBA_PxCMD_CR \<noteq> 0) s;
     Some (dev_do (do { or_reg io (port + P_CMD) HBA_PxCMD_ST; or_reg io (port + P_CMD) HBA_PxCMD_FRE }) s)
   }"

definition stop_cmd :: "'d bus \<Rightarrow> u64 \<Rightarrow> ('d, 'z) drv_scheme \<Rightarrow> ('d, 'z) drv_scheme option" where
  "stop_cmd io port s = do {
     let s = dev_do (do { clear_reg io (port + P_CMD) HBA_PxCMD_ST; clear_reg io (port + P_CMD) HBA_PxCMD_FRE }) s;
     (v, s) \<leftarrow> dev_wait (load32 io (port + P_CMD)) (\<lambda>v. v AND (HBA_PxCMD_FR OR HBA_PxCMD_CR) \<noteq> 0) s;
     Some s
   }"

text \<open>The loop over the 32 commands; the pointer to the header stays on the first one.\<close>

primrec set_cmd_bases :: "nat \<Rightarrow> u64 \<Rightarrow> u64 \<Rightarrow> bmem \<Rightarrow> bmem option" where
  "set_cmd_bases 0 hdr p m = Some m"
| "set_cmd_bases (Suc n) hdr p m = do {
     pa \<leftarrow> PADDR p;
     set_cmd_bases n hdr (p + 256) (put64 (hdr + 8) pa (put16 (hdr + 2) 8 m))
   }"

definition port_rebase :: "'d bus \<Rightarrow> u64 \<Rightarrow> ('d, 'z) drv_scheme \<Rightarrow> ('d, 'z) drv_scheme option" where
  "port_rebase io port s = do {
     (page, s) \<leftarrow> alloc_page (ALLOC_HUGE OR ALLOC_ZERO) s;
     page \<leftarrow> page;
     let p = table_kva page;
     s \<leftarrow> stop_cmd io port (dev_do (store32 io (port + P_INT_STAT) 0) s);
     cmd_pa \<leftarrow> PADDR p;
     let s = dev_do (store64 io (port + P_CMD_BASE) cmd_pa) s;
     fis_pa \<leftarrow> PADDR (p + 1024);
     let s = dev_do (store64 io (port + P_FIS_BASE) fis_pa) s;
     let (base, s) = dev_run (load64 io (port + P_CMD_BASE)) s;
     hdr \<leftarrow> KADDR base (kvm (kst s));
     m \<leftarrow> set_cmd_bases 32 hdr (p + 1280) (ram s);
     start_cmd io port (set_ram m s)
   }"

primrec free_slot :: "nat \<Rightarrow> int \<Rightarrow> u32 \<Rightarrow> int" where
  "free_slot 0 i used = -1"
| "free_slot (Suc n) i used = (if used AND 1 = 0 then i else free_slot n (i + 1) (drop_bit 1 used))"

definition find_cmdslot :: "'d bus \<Rightarrow> u64 \<Rightarrow> ('d, int) state" where
  "find_cmdslot io port = do {
     act \<leftarrow> load32 io (port + P_SATA_ACT);
     issue \<leftarrow> load32 io (port + P_CMD_ISSUE);
     State_Monad.return (free_slot 32 0 (act OR issue))
   }"

text \<open>\<^verbatim>\<open>1 << slot\<close>: the shift instruction uses the five low bits of the slot.\<close>

definition slot_bit :: "int \<Rightarrow> u32" where
  "slot_bit slot = push_bit (nat (slot mod 32)) 1"

definition port_poll :: "'d bus \<Rightarrow> u64 \<Rightarrow> int \<Rightarrow> ('d, bool) state" where
  "port_poll io port slot = do {
     issue \<leftarrow> load32 io (port + P_CMD_ISSUE);
     if issue AND slot_bit slot = 0 then State_Monad.return True
     else do { st \<leftarrow> load32 io (port + P_INT_STAT); State_Monad.return (st AND HBA_PxIS_TFES \<noteq> 0) }
   }"

definition ahci_poll :: "'d bus \<Rightarrow> disk_ptr \<Rightarrow> ('d, 'z) store_scheme \<Rightarrow> bool \<times> ('d, 'z) store_scheme" where
  "ahci_poll io p s = dev_run (port_poll io (ahci_port (ahci_disks s p)) (ahci_slot (ahci_disks s p))) s"

section \<open>Commands\<close>

text \<open>The header of the command in a slot: \<^verbatim>\<open>KADDR(port->cmd_base) + slot\<close>.\<close>

definition cmd_hdr :: "'d bus \<Rightarrow> u64 \<Rightarrow> int \<Rightarrow> ('d, 'z) drv_scheme \<Rightarrow> (u64 \<times> ('d, 'z) drv_scheme) option" where
  "cmd_hdr io port slot s = do {
     let (base, s) = dev_run (load64 io (port + P_CMD_BASE)) s;
     hdr \<leftarrow> KADDR base (kvm (kst s));
     Some (hdr + of_int slot * SIZEOF_CMD_HDR, s)
   }"

definition issue_cmd :: "'d bus \<Rightarrow> u64 \<Rightarrow> int \<Rightarrow> ('d, 'z) drv_scheme \<Rightarrow> ('d, 'z) drv_scheme option" where
  "issue_cmd io port slot s = do {
     (v, s) \<leftarrow> dev_wait (load32 io (port + P_TASK_FILE_DATA)) (\<lambda>v. v AND ucast (ATA_STAT_BUSY OR ATA_STAT_DRQ) \<noteq> 0) s;
     Some (dev_do (store32 io (port + P_CMD_ISSUE) (slot_bit slot)) s)
   }"

definition tfes :: "'d bus \<Rightarrow> u64 \<Rightarrow> ('d, bool) state" where
  "tfes io port = do { st \<leftarrow> load32 io (port + P_INT_STAT); State_Monad.return (st AND HBA_PxIS_TFES \<noteq> 0) }"

definition ident_fis :: "u64 \<Rightarrow> bmem \<Rightarrow> bmem" where
  "ident_fis tbl m =
     (let m = put8 tbl FIS_TYPE_REG_H2D m; m = put8 (tbl + 1) (m (tbl + 1) OR 0x80) m
      in put8 (tbl + 2) ATA_CMD_IDENT m)"

definition ahci_ident ::
  "'d bus \<Rightarrow> disk_ptr \<Rightarrow> u64 \<Rightarrow> ('d, 'z) store_scheme \<Rightarrow> (int \<times> ('d, 'z) store_scheme) option" where
  "ahci_ident io p ident s = do {
     let port = ahci_port (ahci_disks s p);
     let (slot, s) = dev_run (find_cmdslot io port) s;
     if slot < 0 then Some (- ENOMEM, s)
     else do {
       (hdr, s) \<leftarrow> cmd_hdr io port slot s;
       let m = set_cmd_hdr hdr False 1 (ram s);
       tbl \<leftarrow> KADDR (hdr_cmd_base m hdr) (kvm (kst s));
       pa \<leftarrow> PADDR ident;
       let m = ident_fis tbl (set_prdt (tbl + TBL_PRDTS) pa (512 - 1) (memset m tbl 0 SIZEOF_CMD_TBL));
       s \<leftarrow> issue_cmd io port slot (set_ram m s);
       (_, s) \<leftarrow> dev_wait (port_poll io port (ahci_slot (ahci_disks s p))) (\<lambda>ready. \<not> ready) s;
       let (bad, s) = dev_run (tfes io port) s;
       Some (if bad then -1 else 0, s)
     }
   }"

definition ahci_stat :: "disk_ptr \<Rightarrow> bool \<Rightarrow> ('d, 'z) store_scheme \<Rightarrow> int \<times> (u64 \<times> u64) option" where
  "ahci_stat p stat s =
     (if \<not> stat then (-1, None) else (0, Some (ahci_nsectors (ahci_disks s p), ahci_sect_size (ahci_disks s p))))"

section \<open>Transfers\<close>

text \<open>The loop over the regions of 8 kiB; the number of regions is read from the header each time round.\<close>

partial_function (option) fill_prdts ::
  "u64 \<Rightarrow> u64 \<Rightarrow> u64 \<Rightarrow> u64 \<Rightarrow> u64 \<Rightarrow> bmem \<Rightarrow> (u64 \<times> u64 \<times> u64 \<times> bmem) option" where
  "fill_prdts hdr i prdt data left m =
     (if i < ucast (hdr_prdt_len m hdr) - 1 then do {
        pa \<leftarrow> PADDR data;
        fill_prdts hdr (i + 1) (prdt + SIZEOF_PRDT) (data + 8192) (left - 16) (set_prdt prdt pa (8 * 1024 - 1) m)
      }
      else Some (prdt, data, left, m))"

declare fill_prdts.simps [code]

definition rw_fis :: "u64 \<Rightarrow> u8 \<Rightarrow> u64 \<Rightarrow> u64 \<Rightarrow> bmem \<Rightarrow> bmem" where
  "rw_fis tbl cmd nsect addr m =
     (let m = put8 tbl FIS_TYPE_REG_H2D m; m = put8 (tbl + 1) (m (tbl + 1) OR 0x80) m; m = put8 (tbl + 2) cmd m;
          m = put8 (tbl + 4) (ucast (addr AND 0xff)) m;
          m = put8 (tbl + 5) (ucast (drop_bit 8 addr AND 0xff)) m;
          m = put8 (tbl + 6) (ucast (drop_bit 16 addr AND 0xff)) m;
          m = put8 (tbl + 7) (push_bit 6 1) m;
          m = put8 (tbl + 8) (ucast (drop_bit 24 addr AND 0xff)) m;
          m = put8 (tbl + 9) (ucast (drop_bit 32 addr AND 0xff)) m;
          m = put8 (tbl + 10) (ucast (drop_bit 40 addr AND 0xff)) m
      in put16 (tbl + 12) (ucast nsect) m)"

definition setup_transfer ::
  "vm \<Rightarrow> u64 \<Rightarrow> bool \<Rightarrow> u8 \<Rightarrow> u64 \<Rightarrow> u64 \<Rightarrow> u64 \<Rightarrow> u64 \<Rightarrow> bmem \<Rightarrow> bmem option" where
  "setup_transfer v hdr wr cmd ssize buf nsect addr m = do {
     let m = set_cmd_hdr hdr wr (ucast ((nsect - 1) div 16 + 1)) m;
     tbl \<leftarrow> KADDR (hdr_cmd_base m hdr) v;
     let m = memset m tbl 0 SIZEOF_CMD_TBL;
     (prdt, data, left, m) \<leftarrow> fill_prdts hdr 0 (tbl + TBL_PRDTS) buf nsect m;
     pa \<leftarrow> PADDR data;
     Some (rw_fis tbl cmd nsect addr (set_prdt prdt pa (left div ssize - 1) m))
   }"

definition upd_ahci :: "disk_ptr \<Rightarrow> (ahci_disk \<Rightarrow> ahci_disk) \<Rightarrow> ('d, 'z) store_scheme \<Rightarrow> ('d, 'z) store_scheme" where
  "upd_ahci p f s = s\<lparr>ahci_disks := (ahci_disks s)(p := f (ahci_disks s p))\<rparr>"

text \<open>Reading and writing differ in the direction, the command and the state of the disk while it runs.\<close>

definition ahci_transfer ::
  "'d bus \<Rightarrow> bool \<Rightarrow> u8 \<Rightarrow> ahci_state \<Rightarrow> disk_ptr \<Rightarrow> u64 \<Rightarrow> u64 \<Rightarrow> u64 \<Rightarrow> ('d, 'z) store_scheme
   \<Rightarrow> (int \<times> ('d, 'z) store_scheme) option" where
  "ahci_transfer io wr cmd busy p buf nsect addr s =
     (let port = ahci_port (ahci_disks s p)
      in if ahci_state (ahci_disks s p) = AHCI_IDLE then
           let (slot, s) = dev_run (find_cmdslot io port) s; s = upd_ahci p (\<lambda>d. d\<lparr>ahci_slot := slot\<rparr>) s
           in if slot < 0 then Some (- ENOMEM, s)
              else if nsect = 0 then Some (0, s)
              else do {
                (hdr, s) \<leftarrow> cmd_hdr io port slot s;
                m \<leftarrow> setup_transfer (kvm (kst s)) hdr wr cmd (ahci_sect_size (ahci_disks s p)) buf nsect addr (ram s);
                s \<leftarrow> issue_cmd io port slot (set_ram m s);
                Some (- EAGAIN, upd_ahci p (\<lambda>d. d\<lparr>ahci_state := busy\<rparr>) s)
              }
         else if ahci_state (ahci_disks s p) \<noteq> busy then Some (- EAGAIN, s)
         else case ahci_poll io p s of
             (False, s) \<Rightarrow> Some (- EAGAIN, s)
           | (True, s) \<Rightarrow>
               (let s = upd_ahci p (\<lambda>d. d\<lparr>ahci_state := AHCI_IDLE\<rparr>) s; (bad, s) = dev_run (tfes io port) s
                in Some (if bad then 0 else sint (nsect * ahci_sect_size (ahci_disks s p)), s)))"

definition ahci_read ::
  "'d bus \<Rightarrow> disk_ptr \<Rightarrow> u64 \<Rightarrow> u64 \<Rightarrow> u64 \<Rightarrow> ('d, 'z) store_scheme \<Rightarrow> (int \<times> ('d, 'z) store_scheme) option" where
  "ahci_read io p buf nsect addr s = ahci_transfer io False ATA_CMD_READ_DMA_EX AHCI_READ p buf nsect addr s"

definition ahci_write ::
  "'d bus \<Rightarrow> disk_ptr \<Rightarrow> u64 \<Rightarrow> u64 \<Rightarrow> u64 \<Rightarrow> ('d, 'z) store_scheme \<Rightarrow> (int \<times> ('d, 'z) store_scheme) option" where
  "ahci_write io p buf nsect addr s = ahci_transfer io True ATA_CMD_WRITE_DMA_EX AHCI_WRITE p buf nsect addr s"

section \<open>Finding the disks\<close>

definition check_type :: "'d bus \<Rightarrow> u64 \<Rightarrow> ('d, ahci_type) state" where
  "check_type io port = do {
     ssts \<leftarrow> load32 io (port + P_SATA_STAT);
     if (ucast (ssts AND 0x0F) :: u8) \<noteq> HBA_PORT_DET_PRESENT then State_Monad.return AHCI_DEV_NULL
     else if (ucast (drop_bit 8 ssts AND 0x0F) :: u8) \<noteq> HBA_PORT_IPM_ACTIVE then State_Monad.return AHCI_DEV_NULL
     else do {
       sig \<leftarrow> load32 io (port + P_SIG);
       State_Monad.return (if sig = SATA_SIG_ATAPI then AHCI_DEV_SATAPI else if sig = SATA_SIG_SEMB then AHCI_DEV_SEMB
         else if sig = SATA_SIG_PM then AHCI_DEV_PM else AHCI_DEV_SATA)
     }
   }"

definition SIZEOF_AHCI_DISK :: u64 where "SIZEOF_AHCI_DISK = 48"

text \<open>\<^verbatim>\<open>page2kva\<close> of the null page fails an assertion, so running out of pages does not return.\<close>

definition ahci_identify_disk ::
  "'d bus \<Rightarrow> disk_ptr \<Rightarrow> ('d, 'z) store_scheme \<Rightarrow> ('d, 'z) store_scheme option" where
  "ahci_identify_disk io p s = do {
     (page, s) \<leftarrow> alloc_page ALLOC_ZERO s;
     page \<leftarrow> page;
     let ident = table_kva page;
     (r, s) \<leftarrow> ahci_ident io p ident s;
     let s = upd_ahci p (\<lambda>d. d\<lparr>ahci_nsectors := ucast (get32 (ram s) (ident + 120))\<rparr>) s;
     free_page page s
   }"

definition ahci_enum_device ::
  "'d bus \<Rightarrow> u64 \<Rightarrow> u64 \<Rightarrow> nat \<Rightarrow> ('d, 'z) store_scheme \<Rightarrow> ('d, 'z) store_scheme option" where
  "ahci_enum_device io abar port dr s =
     (let (impl, s) = dev_run (load32 io (abar + M_PTS_IMPL)) s
      in if impl AND push_bit dr 1 = 0 then Some s
         else let (dev_type, s) = dev_run (check_type io port) s
           in if dev_type = AHCI_DEV_NULL then Some s
              else do {
                s \<leftarrow> port_rebase io port s;
                if ndisks s \<ge> MAX_DISKS then Some s
                else do {
                  (obj, s) \<leftarrow> alloc_obj SIZEOF_AHCI_DISK s;
                  case obj of
                    None \<Rightarrow> Some s
                  | Some p \<Rightarrow> do {
                      let s = upd_ahci p (\<lambda>d. d\<lparr>ahci_port := port, ahci_state := AHCI_IDLE, ahci_sect_size := 512,
                        ahci_slot := -1\<rparr>) s;
                      s \<leftarrow> ahci_identify_disk io p s;
                      Some (add_disk p ahci_ops s)
                    }
                }
              })"

primrec ahci_enum_ports :: "nat list \<Rightarrow> 'd bus \<Rightarrow> u64 \<Rightarrow> ('d, 'z) store_scheme \<Rightarrow> ('d, 'z) store_scheme option" where
  "ahci_enum_ports [] io abar s = Some s"
| "ahci_enum_ports (i # is) io abar s = do {
     s \<leftarrow> ahci_enum_device io abar (abar + M_PORTS + of_nat i * SIZEOF_HBA_PORT) i s;
     ahci_enum_ports is io abar s
   }"

definition ahci_probe ::
  "'d bus \<Rightarrow> (vm \<Rightarrow> vm option) \<Rightarrow> pci_dev \<Rightarrow> ('d, 'z) store_scheme \<Rightarrow> (int \<times> ('d, 'z) store_scheme) option" where
  "ahci_probe io oom dev' s = do {
     let ((base, sz), s) = dev_run (pci_read_bar io True dev' 5) s;
     (abar, s) \<leftarrow> map_mmio oom (ucast base) (ucast (the sz)) s;
     let s = dev_do (load32 io abar) s;
     s \<leftarrow> ahci_enum_ports [0..<32] io abar s;
     Some (0, s)
   }"

end
