(* ===== verification/Drivers.thy ===== *)
theory Drivers
  imports AHCI
begin

text \<open>
  What calls the drivers: the operations of a disk (\<^verbatim>\<open>kernel/dev/disk.c\<close>), the search for the driver of a PCI function and
  the enumeration of the buses (\<^verbatim>\<open>kernel/dev/pci.c\<close>), and the table of the firmware that says where the configuration
  space is mapped (\<^verbatim>\<open>kernel/acpi/mcfg.c\<close>).
\<close>

section \<open>Disks\<close>

definition disk_poll :: "'d bus \<Rightarrow> disk_ptr \<Rightarrow> ('d, 'z) store_scheme \<Rightarrow> bool \<times> ('d, 'z) store_scheme" where
  "disk_poll io p s = (case disk_ops_of s p of ata_ops \<Rightarrow> ata_poll io p s | ahci_ops \<Rightarrow> ahci_poll io p s)"

definition disk_stat :: "disk_ptr \<Rightarrow> bool \<Rightarrow> ('d, 'z) store_scheme \<Rightarrow> int \<times> (u64 \<times> u64) option" where
  "disk_stat p stat s = (case disk_ops_of s p of ata_ops \<Rightarrow> ata_stat p stat s | ahci_ops \<Rightarrow> ahci_stat p stat s)"

definition disk_read ::
  "'d bus \<Rightarrow> disk_ptr \<Rightarrow> u64 \<Rightarrow> u64 \<Rightarrow> u64 \<Rightarrow> ('d, 'z) store_scheme \<Rightarrow> (int \<times> ('d, 'z) store_scheme) option" where
  "disk_read io p buf nsect addr s =
     (case disk_ops_of s p of
        ata_ops \<Rightarrow> ata_read io p buf nsect addr s
      | ahci_ops \<Rightarrow> ahci_read io p buf nsect addr s)"

definition disk_write ::
  "'d bus \<Rightarrow> disk_ptr \<Rightarrow> u64 \<Rightarrow> u64 \<Rightarrow> u64 \<Rightarrow> ('d, 'z) store_scheme \<Rightarrow> (int \<times> ('d, 'z) store_scheme) option" where
  "disk_write io p buf nsect addr s =
     (case disk_ops_of s p of
        ata_ops \<Rightarrow> ata_write io p buf nsect addr s
      | ahci_ops \<Rightarrow> ahci_write io p buf nsect addr s)"

section \<open>Finding a driver\<close>

record pci_device_id =
  id_vendor :: u16
  id_device :: u16
  id_class :: u8
  id_subclass :: u8

definition PCI_MATCH_CLASS :: "u8 \<Rightarrow> u8 \<Rightarrow> pci_device_id" where
  "PCI_MATCH_CLASS class subclass =
     \<lparr>id_vendor = PCI_ANY_ID, id_device = PCI_ANY_ID, id_class = class, id_subclass = subclass\<rparr>"

datatype pci_driver = ahci_driver | ata_driver

fun compat :: "pci_driver \<Rightarrow> pci_device_id list" where
  "compat ahci_driver = [PCI_MATCH_CLASS 1 6]"
| "compat ata_driver = [PCI_MATCH_CLASS 1 1]"

definition pci_drivers :: "pci_driver list" where "pci_drivers = [ahci_driver, ata_driver]"

text \<open>The loop over the entries of one driver.\<close>

primrec compat_match :: "pci_device_id list \<Rightarrow> u16 \<Rightarrow> u16 \<Rightarrow> u8 \<Rightarrow> u8 \<Rightarrow> bool" where
  "compat_match [] device_id vendor_id class subclass = False"
| "compat_match (c # rest) device_id vendor_id class subclass =
     (if id_device c = device_id \<and> id_vendor c = vendor_id then True
      else if id_device c \<noteq> PCI_ANY_ID \<or> id_vendor c \<noteq> PCI_ANY_ID then
        compat_match rest device_id vendor_id class subclass
      else if id_class c = class \<and> id_subclass c = subclass then True
      else compat_match rest device_id vendor_id class subclass)"

primrec find_driver_in :: "pci_driver list \<Rightarrow> u16 \<Rightarrow> u16 \<Rightarrow> u8 \<Rightarrow> u8 \<Rightarrow> pci_driver option" where
  "find_driver_in [] device_id vendor_id class subclass = None"
| "find_driver_in (d # ds') device_id vendor_id class subclass =
     (if compat_match (compat d) device_id vendor_id class subclass then Some d
      else find_driver_in ds' device_id vendor_id class subclass)"

definition pci_find_driver :: "u16 \<Rightarrow> u16 \<Rightarrow> u8 \<Rightarrow> u8 \<Rightarrow> pci_driver option" where
  "pci_find_driver device_id vendor_id class subclass = find_driver_in pci_drivers device_id vendor_id class subclass"

definition probe ::
  "pci_driver \<Rightarrow> 'd bus \<Rightarrow> (vm \<Rightarrow> vm option) \<Rightarrow> pci_dev \<Rightarrow> ('d, 'z) store_scheme \<Rightarrow> (int \<times> ('d, 'z) store_scheme) option" where
  "probe driver io oom dev' s =
     (case driver of ahci_driver \<Rightarrow> ahci_probe io oom dev' s | ata_driver \<Rightarrow> ata_probe io dev' s)"

section \<open>Enumeration\<close>

definition pci_enum_device ::
  "'d bus \<Rightarrow> (vm \<Rightarrow> vm option) \<Rightarrow> u32 \<Rightarrow> u32 \<Rightarrow> u64 \<Rightarrow> u64 \<Rightarrow> u64 \<Rightarrow> ('d, 'z) store_scheme
   \<Rightarrow> (int \<times> ('d, 'z) store_scheme) option" where
  "pci_enum_device io oom junk base_addr bus slot func s = do {
     (dev', s) \<leftarrow> (if base_addr \<noteq> 0 then alloc_mmio_dev oom base_addr bus slot func s
                    else alloc_io_dev junk bus slot func s);
     case dev' of
       None \<Rightarrow> Some (-1, s)
     | Some (p, d) \<Rightarrow>
         (let (device_id, s) = dev_run (pci_read16 io d PCI_DEVICE_ID) s;
              (vendor_id, s) = dev_run (pci_read16 io d PCI_VENDOR_ID) s
          in if device_id = PCI_ANY_ID \<and> vendor_id = PCI_ANY_ID then do { s \<leftarrow> free_obj p s; Some (-1, s) }
             else
               let (class, s) = dev_run (pci_read8 io d PCI_CLASS) s;
                   (subclass, s) = dev_run (pci_read8 io d PCI_SUBCLASS) s
               in case pci_find_driver device_id vendor_id class subclass of
                    None \<Rightarrow> do { s \<leftarrow> free_obj p s; Some (0, s) }
                  | Some driver \<Rightarrow> do {
                      (r, s) \<leftarrow> probe driver io oom d s;
                      s \<leftarrow> (if r < 0 then free_obj p s else Some s);
                      Some (0, s)
                    })
   }"

text \<open>The three nested loops; the one over the functions of a slot stops at the first that is not there.\<close>

primrec enum_funcs ::
  "nat list \<Rightarrow> 'd bus \<Rightarrow> (vm \<Rightarrow> vm option) \<Rightarrow> u32 \<Rightarrow> u32 \<Rightarrow> u64 \<Rightarrow> u64 \<Rightarrow> ('d, 'z) store_scheme
   \<Rightarrow> ('d, 'z) store_scheme option" where
  "enum_funcs [] io oom junk base bus slot s = Some s"
| "enum_funcs (f # fs) io oom junk base bus slot s = do {
     (r, s) \<leftarrow> pci_enum_device io oom junk base bus slot (of_nat f) s;
     if r \<noteq> 0 then Some s else enum_funcs fs io oom junk base bus slot s
   }"

primrec enum_slots ::
  "nat list \<Rightarrow> 'd bus \<Rightarrow> (vm \<Rightarrow> vm option) \<Rightarrow> u32 \<Rightarrow> u32 \<Rightarrow> u64 \<Rightarrow> ('d, 'z) store_scheme
   \<Rightarrow> ('d, 'z) store_scheme option" where
  "enum_slots [] io oom junk base bus s = Some s"
| "enum_slots (l # ls) io oom junk base bus s = do {
     s \<leftarrow> enum_funcs [0..<8] io oom junk base bus (of_nat l) s;
     enum_slots ls io oom junk base bus s
   }"

primrec enum_buses ::
  "nat list \<Rightarrow> 'd bus \<Rightarrow> (vm \<Rightarrow> vm option) \<Rightarrow> u32 \<Rightarrow> u32 \<Rightarrow> ('d, 'z) store_scheme \<Rightarrow> ('d, 'z) store_scheme option" where
  "enum_buses [] io oom junk base s = Some s"
| "enum_buses (b # bs) io oom junk base s = do {
     s \<leftarrow> enum_slots [0..<32] io oom junk base (of_nat b) s;
     enum_buses bs io oom junk base s
   }"

definition pci_enum_devices ::
  "'d bus \<Rightarrow> (vm \<Rightarrow> vm option) \<Rightarrow> u32 \<Rightarrow> u32 \<Rightarrow> nat \<Rightarrow> nat \<Rightarrow> ('d, 'z) store_scheme \<Rightarrow> ('d, 'z) store_scheme option" where
  "pci_enum_devices io oom junk base_addr bus_start bus_end s =
     enum_buses [bus_start..<bus_end] io oom junk base_addr s"

text \<open>
  The table of the firmware: each entry of 16 bytes has the address of the configuration space, of which the
  enumeration takes the low half, and the first and the last bus.
\<close>

definition sig_mcfg :: "u8 list" where "sig_mcfg = [0x4d, 0x43, 0x46, 0x47]"
definition MCFG_ENTRIES :: u64 where "MCFG_ENTRIES = 44"

primrec mcfg_loop ::
  "nat \<Rightarrow> 'd bus \<Rightarrow> (vm \<Rightarrow> vm option) \<Rightarrow> u32 \<Rightarrow> u64 \<Rightarrow> ('d, 'z) store_scheme \<Rightarrow> ('d, 'z) store_scheme option" where
  "mcfg_loop 0 io oom junk entry s = Some s"
| "mcfg_loop (Suc n) io oom junk entry s = do {
     s \<leftarrow> pci_enum_devices io oom junk (ucast (get64 (ram s) entry)) (unat (ram s (entry + 10))) (unat (ram s (entry + 11))) s;
     mcfg_loop n io oom junk (entry + 16) s
   }"

definition mcfg_init ::
  "'d bus \<Rightarrow> (vm \<Rightarrow> vm option) \<Rightarrow> u32 \<Rightarrow> u64 \<Rightarrow> ('d, 'z) store_scheme \<Rightarrow> (int \<times> ('d, 'z) store_scheme) option" where
  "mcfg_init io oom junk rsdp s =
     (case acpi_find_table (ram s) rsdp sig_mcfg of
        None \<Rightarrow> Some (-1, s)
      | Some mcfg \<Rightarrow> do {
          s \<leftarrow> mcfg_loop (unat ((ucast (hdr_len (ram s) mcfg) - MCFG_ENTRIES) div 16)) io oom junk (mcfg + MCFG_ENTRIES) s;
          Some (0, s)
        })"

definition pci_init ::
  "'d bus \<Rightarrow> (vm \<Rightarrow> vm option) \<Rightarrow> u32 \<Rightarrow> u64 \<Rightarrow> ('d, 'z) store_scheme \<Rightarrow> (int \<times> ('d, 'z) store_scheme) option" where
  "pci_init io oom junk rsdp s = do {
     (r, s) \<leftarrow> mcfg_init io oom junk rsdp s;
     if r = 0 then Some (0, s)
     else do { s \<leftarrow> pci_enum_devices io oom junk 0 0 256 s; Some (0, s) }
   }"

end
