(* ===== verification/Driver_Inv.thy ===== *)
theory Driver_Inv
  imports Drivers Walk_Inv
begin

text \<open>
  Properties of the drivers that do not depend on the device: how a driver is chosen, that probing a base address register
  leaves it as it was, and what a transfer of the driver for host adapters asks for.
\<close>

section \<open>Choosing a driver\<close>

lemma pci_find_driver_class:
  "pci_find_driver device_id vendor_id class subclass =
     (if (class = 1 \<and> subclass = 6) \<or> (device_id = PCI_ANY_ID \<and> vendor_id = PCI_ANY_ID) then Some ahci_driver
      else if class = 1 \<and> subclass = 1 then Some ata_driver else None)"
  by (auto simp: pci_find_driver_def pci_drivers_def PCI_MATCH_CLASS_def)

section \<open>Regions of a transfer\<close>

lemma bit_set_field:
  "bit (set_field lo w v x) n \<longleftrightarrow> n < 32 \<and> (if lo \<le> n \<and> n < lo + w then bit v (n - lo) else bit x n)"
  by (auto simp: set_field_def bit_simps)

lemma set_field_low: "take_bit 22 (set_field 0 22 v x) = take_bit 22 (ucast v)"
  by (rule bit_eqI) (auto simp: bit_set_field bit_take_bit_iff bit_ucast_iff)

lemma set_field_high: "take_bit 22 (set_field 31 1 v x) = take_bit 22 x"
  by (rule bit_eqI) (auto simp: bit_set_field bit_take_bit_iff)

lemma prdt_size_set: "prdt_size (set_prdt prdt base sz m) prdt = take_bit 22 (ucast sz)"
  unfolding prdt_size_def set_prdt_def Let_def get32_put32 set_field_high by (rule set_field_low)

lemma put8_out: "b \<noteq> a \<Longrightarrow> put8 a v m b = m b"
  by (simp add: put8_def)

lemma put16_out: "b \<noteq> a \<Longrightarrow> b \<noteq> a + 1 \<Longrightarrow> put16 a v m b = m b"
  unfolding put16_def by (rule put_bytes_out) (auto simp: less_Suc_eq numeral_2_eq_2)

lemma rw_fis_out: "(\<And>k. k < 14 \<Longrightarrow> b \<noteq> tbl + of_nat k) \<Longrightarrow> rw_fis tbl cmd n addr m b = m b"
proof -
  assume out: "\<And>k. k < 14 \<Longrightarrow> b \<noteq> tbl + of_nat k"
  have ne: "b \<noteq> tbl" "b \<noteq> tbl + 1" "b \<noteq> tbl + 2" "b \<noteq> tbl + 4" "b \<noteq> tbl + 5" "b \<noteq> tbl + 6" "b \<noteq> tbl + 7" "b \<noteq> tbl + 8"
    "b \<noteq> tbl + 9" "b \<noteq> tbl + 10" "b \<noteq> tbl + 12" "b \<noteq> tbl + 12 + 1"
    using out [of 0] out [of 1] out [of 2] out [of 4] out [of 5] out [of 6] out [of 7] out [of 8] out [of 9] out [of 10]
      out [of 12] out [of 13] by (simp_all add: add.assoc)
  show ?thesis unfolding rw_fis_def Let_def using ne by (simp add: put16_out put8_out)
qed

lemma prdt_size_rw_fis: "prdt_size (rw_fis tbl cmd n addr m) (tbl + 128) = prdt_size m (tbl + 128)"
proof -
  have "rw_fis tbl cmd n addr m (tbl + 140 + of_nat i) = m (tbl + 140 + of_nat i)" if i: "i < 4" for i
  proof (rule rw_fis_out)
    fix k :: nat assume "k < 14"
    then have "of_nat (140 + i - k) \<noteq> (0 :: u64)" using i by (intro small_of_nat) auto
    then show "tbl + 140 + of_nat i \<noteq> tbl + of_nat k" using \<open>k < 14\<close> by (simp add: of_nat_diff add.assoc)
  qed
  then have "get_bytes 4 (rw_fis tbl cmd n addr m) (tbl + 140) = get_bytes 4 m (tbl + 140)"
    by (intro get_bytes_cong) simp
  then show ?thesis by (simp add: prdt_size_def get32_def add.assoc)
qed

lemma get_put_16: "get16 (put16 a v m) a = v"
proof -
  have "get_bytes 2 (put_bytes 2 a (ucast v) m) a = take_bit 16 (ucast v)" using get_put_bytes [of 2] by simp
  then show ?thesis unfolding get16_def put16_def by simp (rule bit_eqI, simp add: bit_simps)
qed

lemma prdt_len_set: "hdr_prdt_len (set_cmd_hdr hdr wr len m) hdr = len"
  by (simp add: hdr_prdt_len_def set_cmd_hdr_def Let_def get_put_16)

lemma cmd_base_set: "hdr_cmd_base (set_cmd_hdr hdr wr len m) hdr = hdr_cmd_base m hdr"
proof -
  have "set_cmd_hdr hdr wr len m (hdr + 8 + of_nat i) = m (hdr + 8 + of_nat i)" if "i < 8" for i
  proof -
    have "of_nat (8 + i) \<noteq> (0 :: u64)" "of_nat (7 + i) \<noteq> (0 :: u64)" "of_nat (6 + i) \<noteq> (0 :: u64)" "of_nat (5 + i) \<noteq> (0 :: u64)"
      using that by (intro small_of_nat; simp)+
    then have "hdr + 8 + of_nat i \<noteq> hdr" "hdr + 8 + of_nat i \<noteq> hdr + 1" "hdr + 8 + of_nat i \<noteq> hdr + 2"
      "hdr + 8 + of_nat i \<noteq> hdr + 2 + 1" by (simp_all add: algebra_simps)
    then show ?thesis by (simp add: set_cmd_hdr_def Let_def put16_out put8_out)
  qed
  then show ?thesis unfolding hdr_cmd_base_def get64_def by (intro get_bytes_cong) simp
qed

lemma memset_apart:
  assumes "\<And>i. i < n \<Longrightarrow> 144 \<le> unat (a + of_nat i - tbl)"
  shows "get_bytes n (memset m tbl 0 SIZEOF_CMD_TBL) a = get_bytes n m a"
  using assms by (intro get_bytes_cong) (force simp: memset_core filled_def SIZEOF_CMD_TBL_def)

text \<open>
  C40: a transfer of up to sixteen sectors is described to the host adapter by one region, and the size in its descriptor is
  \<open>2 ^ 22 - 1\<close>, the code for four megabytes, where the bytes of the sectors are asked for: the size divides the number of
  sectors by the size of a sector instead of multiplying them.
\<close>

theorem ahci_region_size:
  assumes "setup_transfer v hdr wr cmd 512 buf n addr m = Some m'" "1 \<le> n" "n \<le> 16"
    and "KADDR (hdr_cmd_base m hdr) v = Some tbl" "144 \<le> unat (hdr + 2 - tbl)" "144 \<le> unat (hdr + 3 - tbl)"
  shows "prdt_size m' (tbl + TBL_PRDTS) = 0x3fffff \<and> unat (prdt_size m' (tbl + TBL_PRDTS)) + 1 \<noteq> 512 * unat n"
proof -
  let ?m1 = "set_cmd_hdr hdr wr 1 m"
  let ?m2 = "memset ?m1 tbl 0 SIZEOF_CMD_TBL"
  have le: "unat n \<le> 16" "1 \<le> unat n" using assms(2,3) by (simp_all add: word_le_nat_alt)
  then have "n - 1 < 16" by (simp add: word_less_nat_alt unat_sub_if_size)
  then have one: "ucast ((n - 1) div 16 + 1) = (1 :: u16)" by (simp add: div_word_less)
  have zero: "n div 512 = 0" using le by (intro div_word_less) (simp add: word_less_nat_alt)
  have "get_bytes 2 ?m2 (hdr + 2) = get_bytes 2 ?m1 (hdr + 2)"
    using assms(5,6) by (intro memset_apart) (auto simp: less_2_cases_iff add.assoc)
  then have len: "hdr_prdt_len ?m2 hdr = 1"
    using prdt_len_set [of hdr wr 1 m] by (simp add: hdr_prdt_len_def get16_def)
  obtain pa where "m' = rw_fis tbl cmd n addr (set_prdt (tbl + TBL_PRDTS) pa (- 1) ?m2)"
    using assms(1,4) unfolding setup_transfer_def one Let_def
    by (subst (asm) fill_prdts.simps) (auto simp: cmd_base_set len zero split: bind_splits)
  then have "prdt_size m' (tbl + TBL_PRDTS) = take_bit 22 (ucast (- 1 :: u64))"
    by (simp add: TBL_PRDTS_def prdt_size_rw_fis prdt_size_set)
  moreover have "take_bit 22 (ucast (- 1 :: u64) :: u32) = 0x3fffff" by code_simp
  ultimately have "prdt_size m' (tbl + TBL_PRDTS) = 0x3fffff" by simp
  then show ?thesis using le by simp
qed

definition cmd_ram :: bmem where "cmd_ram = put64 (KERNEL_VMA + 0x1008) 0x2000 (\<lambda>_. 0)"

lemma cmd_ram_base: "hdr_cmd_base cmd_ram (KERNEL_VMA + 0x1000) = 0x2000"
  using get_put_bytes [of 8 "KERNEL_VMA + 0x1008" "0x2000" "\<lambda>_. 0"]
  by (simp add: cmd_ram_def hdr_cmd_base_def get64_def put64_def add.assoc)

theorem ahci_region_size_witness:
  "\<exists>m'. setup_transfer demo_vm (KERNEL_VMA + 0x1000) False ATA_CMD_READ_DMA_EX 512 (KERNEL_VMA + 0x5000) 8 0 cmd_ram = Some m' \<and>
    prdt_size m' (KERNEL_VMA + 0x2000 + TBL_PRDTS) = 0x3fffff"
proof -
  let ?h = "KERNEL_VMA + 0x1000" and ?t = "KERNEL_VMA + 0x2000" and ?m = "set_cmd_hdr (KERNEL_VMA + 0x1000) False 1 cmd_ram"
  have k: "KADDR 0x2000 demo_vm = Some ?t"
    by (simp add: KADDR_def PAGE_INDEX_def PAGE_TABLE_SHIFT_def demo_vm_def)
  have pa: "PADDR (KERNEL_VMA + 0x5000) = Some 0x5000" by (simp add: PADDR_def KERNEL_VMA_def)
  have ap: "144 \<le> unat (?h + 2 - ?t)" "144 \<le> unat (?h + 3 - ?t)" by (simp_all add: KERNEL_VMA_def)
  have "get_bytes 2 (memset ?m ?t 0 SIZEOF_CMD_TBL) (?h + 2) = get_bytes 2 ?m (?h + 2)"
    using ap by (intro memset_apart) (auto simp: less_2_cases_iff add.assoc)
  then have "hdr_prdt_len (memset ?m ?t 0 SIZEOF_CMD_TBL) ?h = 1"
    using prdt_len_set [of ?h False 1 cmd_ram] by (simp add: hdr_prdt_len_def get16_def)
  then have "\<exists>m'. setup_transfer demo_vm ?h False ATA_CMD_READ_DMA_EX 512 (KERNEL_VMA + 0x5000) 8 0 cmd_ram = Some m'"
    unfolding setup_transfer_def Let_def
    by (subst fill_prdts.simps) (simp add: cmd_base_set cmd_ram_base k pa)
  then obtain m' where m': "setup_transfer demo_vm ?h False ATA_CMD_READ_DMA_EX 512 (KERNEL_VMA + 0x5000) 8 0 cmd_ram = Some m'"
    by blast
  then have "prdt_size m' (?t + TBL_PRDTS) = 0x3fffff"
    using ahci_region_size [OF m', of ?t] ap cmd_ram_base k by simp
  then show ?thesis using m' by blast
qed

end
