(* ===== verification/Swap.thy ===== *)
theory Swap
  imports Drivers
begin

text \<open>
  Pages moved to a disk and back: \<^verbatim>\<open>kernel/mem/swap.c\<close>.
\<close>

section \<open>State\<close>

record swap_entry =
  swap_sector :: u64
  swap_task :: "nat option"
  swap_pte :: u64
  swap_used :: bool

text \<open>The variables \<^verbatim>\<open>swap_bitmap\<close> and \<^verbatim>\<open>swap_meta\<close> are cleared by \<^verbatim>\<open>swap_init\<close> and not used.\<close>

record 'd swap = "'d store" +
  sdisk :: "disk_ptr option"
  swap_entries :: "nat \<Rightarrow> swap_entry"

definition SWAP_SECTORS_PER_PAGE :: u64 where "SWAP_SECTORS_PER_PAGE = PAGE_SIZE div 512"

definition set_phys :: "mem \<Rightarrow> ('d, 'z) drv_scheme \<Rightarrow> ('d, 'z) drv_scheme" where
  "set_phys m s = s\<lparr>kst := (kst s)\<lparr>kmemory := (kmemory (kst s))\<lparr>phys := m\<rparr>\<rparr>\<rparr>"

section \<open>Operations\<close>

definition swap_init :: "('d, 'z) swap_scheme \<Rightarrow> (int \<times> ('d, 'z) swap_scheme) option" where
  "swap_init s =
     (if ndisks s < 2 then Some (-1, s)
      else do {
        let s = s\<lparr>sdisk := Some (disks s 1)\<rparr>;
        (page, s) \<leftarrow> alloc_page ALLOC_ZERO s;
        page \<leftarrow> page;
        Some (0, set_phys (upd_page page (\<lambda>p. p\<lparr>pp_ref := pp_ref p + 1\<rparr>) (phys (kmemory (kst s)))) s)
      })"

partial_function (option) swap_read_loop ::
  "'d bus \<Rightarrow> disk_ptr \<Rightarrow> u64 \<Rightarrow> u64 \<Rightarrow> ('d, 'z) swap_scheme \<Rightarrow> (int \<times> ('d, 'z) swap_scheme) option" where
  "swap_read_loop io p buf lba s = do {
     (ret, s) \<leftarrow> disk_read io p buf SWAP_SECTORS_PER_PAGE lba s;
     if ret = - EAGAIN then swap_read_loop io p buf lba (snd (disk_poll io p s)) else Some (ret, s)
   }"

declare swap_read_loop.simps [code]

partial_function (option) swap_write_loop ::
  "'d bus \<Rightarrow> disk_ptr \<Rightarrow> u64 \<Rightarrow> u64 \<Rightarrow> ('d, 'z) swap_scheme \<Rightarrow> (int \<times> ('d, 'z) swap_scheme) option" where
  "swap_write_loop io p buf lba s = do {
     (ret, s) \<leftarrow> disk_write io p buf SWAP_SECTORS_PER_PAGE lba s;
     if ret = - EAGAIN then swap_write_loop io p buf lba (snd (disk_poll io p s)) else Some (ret, s)
   }"

declare swap_write_loop.simps [code]

text \<open>The disk is used without looking whether there is one.\<close>

definition swap_page_in :: "'d bus \<Rightarrow> nat \<Rightarrow> u64 \<Rightarrow> ('d, 'z) swap_scheme \<Rightarrow> (int \<times> ('d, 'z) swap_scheme) option" where
  "swap_page_in io pp slot s = do {
     buf \<leftarrow> KADDR (page2pa pp) (kvm (kst s));
     p \<leftarrow> sdisk s;
     (ret, s) \<leftarrow> swap_read_loop io p buf (slot * SWAP_SECTORS_PER_PAGE) s;
     Some (if ret < 0 then ret else 0, s)
   }"

text \<open>
  The pointer \<^verbatim>\<open>page_lookup\<close> returns is the one to the structure of the page, and \<^verbatim>\<open>swap_page_out\<close> uses it as a pointer to
  the entry of the page table: what it tests is the first member of the structure, the pointer to the next page on
  a free list.  \<open>node_addr\<close> gives the addresses of the nodes of the lists; a node has the alignment of its pointers, so a set
  low bit, and the pointer the store would leave, do not arise and the model ends there.
\<close>

definition clear_present :: "(pnode \<Rightarrow> u64) \<Rightarrow> nat option \<Rightarrow> ('d, 'z) drv_scheme \<Rightarrow> ('d, 'z) drv_scheme option" where
  "clear_present node_addr page s =
     (case page of
        None \<Rightarrow> Some s
      | Some q \<Rightarrow>
          if node_addr (lnext (plinks (phys (kmemory (kst s)))) (PPNode q)) AND PAGE_PRESENT \<noteq> 0 then None else Some s)"

definition swap_page_out ::
  "(pnode \<Rightarrow> u64) \<Rightarrow> 'd bus \<Rightarrow> nat option \<Rightarrow> u64 \<Rightarrow> ('d, 'z) swap_scheme \<Rightarrow> (int \<times> ('d, 'z) swap_scheme) option" where
  "swap_page_out node_addr io pp slot s =
     (case sdisk s of
        None \<Rightarrow> Some (-1, s)
      | Some p \<Rightarrow>
          (case pp of
             None \<Rightarrow> Some (- EINVAL, s)
           | Some pp \<Rightarrow>
               (case powner (pages (phys (kmemory (kst s))) pp) of
                  None \<Rightarrow> Some (- EINVAL, s)
                | Some task \<Rightarrow> do {
                    let va = virt_addr (pages (phys (kmemory (kst s))) pp);
                    let lba = slot * SWAP_SECTORS_PER_PAGE;
                    buf \<leftarrow> KADDR (page2pa pp) (kvm (kst s));
                    (ret, s) \<leftarrow> swap_write_loop io p buf lba s;
                    if ret < 0 then Some (ret, s)
                    else do {
                      let s = s\<lparr>swap_entries := (swap_entries s)(unat slot :=
                        \<lparr>swap_sector = lba, swap_task = Some task, swap_pte = va, swap_used = True\<rparr>)\<rparr>;
                      (page, _, v) \<leftarrow> page_lookup (pml4_of_task task (kst s)) va (kvm (kst s));
                      s \<leftarrow> clear_present node_addr page (s\<lparr>kst := put_kvm v (kst s)\<rparr>);
                      s \<leftarrow> free_page pp s;
                      Some (0, s)
                    }
                  })))"

end
