(* ===== verification/Swap_Inv.thy ===== *)
theory Swap_Inv
  imports Swap Walk_Inv Sched_Inv Mem_Init_Inv
begin

text \<open>
  What a transfer of the driver for legacy disks moves, and what that means for pages swapped out and in: a read moves one
  sector whatever is asked for, and swapping a page out leaves its entry in the page table as it was.
\<close>

section \<open>Bytes and words in memory\<close>

lemma put_words_out: "(\<And>k. k < 4 * length ws \<Longrightarrow> b \<noteq> a + of_nat k) \<Longrightarrow> put_words a ws m b = m b"
proof (induction ws arbitrary: a m)
  case (Cons w ws)
  have "b \<noteq> a + 4 + of_nat k" if "k < 4 * length ws" for k
    using Cons.prems [of "4 + k"] that by (simp add: add.assoc)
  moreover have "put32 a w m b = m b" using Cons.prems by (intro put32_out) simp
  ultimately show ?case using Cons.IH [of "a + 4" "put32 a w m"] by simp
qed simp

lemma put_words_get:
  assumes "length ws \<le> 1024" "i < length ws"
  shows "get32 (put_words a ws m) (a + 4 * of_nat i) = ws ! i"
  using assms
proof (induction ws arbitrary: a m i)
  case (Cons w ws)
  show ?case
  proof (cases i)
    case 0
    have "put_words (a + 4) ws (put32 a w m) (a + of_nat j) = put32 a w m (a + of_nat j)" if j: "j < 4" for j
    proof (rule put_words_out)
      fix k assume "k < 4 * length ws"
      then have "of_nat (4 + k - j) \<noteq> (0 :: u64)" using j Cons.prems(1) by (intro small_of_nat) auto
      then show "a + of_nat j \<noteq> a + 4 + of_nat k" using j by (simp add: of_nat_diff add.assoc)
    qed
    then have "get_bytes 4 (put_words (a + 4) ws (put32 a w m)) a = get_bytes 4 (put32 a w m) a"
      by (intro get_bytes_cong) simp
    then show ?thesis using 0 get32_put32 [of a w m] by (simp add: get32_def)
  next
    case (Suc j)
    then show ?thesis using Cons.IH [of j "a + 4" "put32 a w m"] Cons.prems by (simp add: algebra_simps)
  qed
qed simp

section \<open>A disk that is always ready\<close>

lemma dev_do_hw: "dev_do m s = s\<lparr>hw := snd (run_state m (hw s))\<rparr>"
  by (simp add: dev_do_def dev_run_def split: prod.split)

lemma dev_run_hw: "dev_run m s = (fst (run_state m (hw s)), s\<lparr>hw := snd (run_state m (hw s))\<rparr>)"
  by (simp add: dev_run_def split: prod.split)

definition always_ready :: "'d bus \<Rightarrow> ata_chan \<Rightarrow> bool" where
  "always_ready io c \<longleftrightarrow> (\<forall>d. ready_status (fst (in8 (pio io) (cmd_port c) d)))"

definition idle_disk :: "'d bus \<Rightarrow> disk_ptr \<Rightarrow> ('d, 'z) store_scheme \<Rightarrow> bool" where
  "idle_disk io p s \<longleftrightarrow> disk_ops_of s p = ata_ops \<and> ata_state (ata_disks s p) = ATA_IDLE \<and>
     sect_size (ata_disks s p) = 512 \<and> always_ready io (chan_of p s)"

lemma wait_ready:
  assumes "always_ready io c"
  shows "\<exists>d. ata_wait_ready io c False s = Some (0, s\<lparr>hw := d\<rparr>)"
proof -
  have "wait_while (inb (pio io) (cmd_port c)) (\<lambda>st. \<not> ready_status st) (hw s) = Some (in8 (pio io) (cmd_port c) (hw s))"
    using assms by (subst wait_while.simps) (auto simp: always_ready_def monad split: prod.split dest: spec [of _ "hw s"])
  then show ?thesis
    by (cases "in8 (pio io) (cmd_port c) (hw s)") (auto simp: ata_wait_ready_def dev_wait_def)
qed

lemma poll_ready: "always_ready io (chan_of p s) \<Longrightarrow> \<exists>d. ata_poll io p s = (True, s\<lparr>hw := d\<rparr>)"
  by (auto simp: ata_poll_def dev_run_hw always_ready_def monad)

lemma chan_of_hw [simp]: "chan_of p (s\<lparr>hw := d\<rparr>) = chan_of p s"
  by (simp add: chan_of_def)

lemma length_insl: "length (fst (run_state (insl io port n) d)) = n"
  by (induction n arbitrary: d) (auto simp: monad split: prod.splits, metis fst_conv)

text \<open>The first call issues the command; the second one, with the disk ready, moves one sector.\<close>

lemma ata_read_issue:
  assumes "idle_disk io p s"
  shows "\<exists>d. ata_read io p buf n addr s = Some (- EAGAIN, upd_ata p (\<lambda>x. x\<lparr>ata_state := ATA_READ\<rparr>) (s\<lparr>hw := d\<rparr>))"
proof -
  let ?c = "chan_of p s" and ?s = "dev_do (ata_select io (chan_of p s) (drive (ata_disks s p))) s"
  obtain d where "ata_wait_ready io ?c False ?s = Some (0, ?s\<lparr>hw := d\<rparr>)"
    using wait_ready [of io ?c ?s] assms by (auto simp: idle_disk_def)
  then show ?thesis using assms by (auto simp: ata_read_def idle_disk_def dev_do_hw Let_def)
qed

lemma ata_read_sector:
  assumes "always_ready io (chan_of p s)" "ata_state (ata_disks s p) = ATA_READ" "sect_size (ata_disks s p) = 512"
  shows "\<exists>d ws. length ws = 128 \<and> ata_read io p buf n addr s =
    Some (sint (n * 512), upd_ata p (\<lambda>x. x\<lparr>ata_state := ATA_IDLE\<rparr>) (s\<lparr>hw := d, ram := put_words buf ws (ram s)\<rparr>))"
proof -
  let ?s = "dev_do (ata_select io (chan_of p s) (drive (ata_disks s p))) s"
  obtain d where d: "ata_poll io p ?s = (True, ?s\<lparr>hw := d\<rparr>)"
    using poll_ready [of io p ?s] assms(1) by (auto simp: dev_do_hw)
  let ?r = "run_state (insl (pio io) (data_port (chan_of p s)) 128) d"
  have "ata_read io p buf n addr s =
    Some (sint (n * 512), upd_ata p (\<lambda>x. x\<lparr>ata_state := ATA_IDLE\<rparr>) (s\<lparr>hw := snd ?r, ram := put_words buf (fst ?r) (ram s)\<rparr>))"
    unfolding ata_read_def Let_def d
    using assms(2,3) by (simp add: dev_do_hw dev_run_hw set_ram_def)
  then show ?thesis using length_insl [of "pio io" _ 128] by blast
qed

lemma swap_read_two:
  assumes "idle_disk io p s"
  shows "\<exists>d ws a. length ws = 128 \<and>
    swap_read_loop io p buf lba s = Some (4096, s\<lparr>hw := d, ram := put_words buf ws (ram s), ata_disks := a\<rparr>)"
proof -
  obtain d where one: "ata_read io p buf SWAP_SECTORS_PER_PAGE lba s =
      Some (- EAGAIN, upd_ata p (\<lambda>x. x\<lparr>ata_state := ATA_READ\<rparr>) (s\<lparr>hw := d\<rparr>))"
    using ata_read_issue [OF assms] by blast
  let ?s1 = "upd_ata p (\<lambda>x. x\<lparr>ata_state := ATA_READ\<rparr>) (s\<lparr>hw := d\<rparr>)"
  have c: "always_ready io (chan_of p ?s1)" "disk_ops_of ?s1 p = ata_ops"
    using assms by (auto simp: idle_disk_def chan_of_def upd_ata_def)
  obtain d1 where poll: "ata_poll io p ?s1 = (True, ?s1\<lparr>hw := d1\<rparr>)" using poll_ready [OF c(1)] by blast
  let ?s2 = "?s1\<lparr>hw := d1\<rparr>"
  have two: "always_ready io (chan_of p ?s2)" "ata_state (ata_disks ?s2 p) = ATA_READ" "sect_size (ata_disks ?s2 p) = 512"
    "disk_ops_of ?s2 p = ata_ops"
    using assms by (simp_all add: idle_disk_def upd_ata_def chan_of_def)
  from ata_read_sector [OF two(1-3)] obtain d2 ws where ws: "length ws = 128"
    "ata_read io p buf SWAP_SECTORS_PER_PAGE lba ?s2 = Some (sint (SWAP_SECTORS_PER_PAGE * 512),
       upd_ata p (\<lambda>x. x\<lparr>ata_state := ATA_IDLE\<rparr>) (?s2\<lparr>hw := d2, ram := put_words buf ws (ram ?s2)\<rparr>))" by blast
  have size: "sint (SWAP_SECTORS_PER_PAGE * 512) = 4096" by (simp add: SWAP_SECTORS_PER_PAGE_def PAGE_SIZE_def)
  have "disk_ops_of s p = ata_ops" using assms by (simp add: idle_disk_def)
  then have "swap_read_loop io p buf lba s = swap_read_loop io p buf lba ?s2"
    using one poll c by (subst swap_read_loop.simps) (simp add: disk_read_def disk_poll_def)
  also have "\<dots> = Some (4096, upd_ata p (\<lambda>x. x\<lparr>ata_state := ATA_IDLE\<rparr>) (?s2\<lparr>hw := d2, ram := put_words buf ws (ram ?s2)\<rparr>))"
    using ws(2) two(4) size by (subst swap_read_loop.simps) (simp add: disk_read_def EAGAIN_def)
  finally show ?thesis using ws(1) by (auto simp: upd_ata_def)
qed

text \<open>
  C39: for a swap disk on the legacy interface that is ready, reading a page back reports success after filling
  the first 512 of its 4096 bytes: the words the disk delivered are at the start of the page, and every other byte of memory,
  the rest of the page included, is as it was before.
\<close>

theorem swap_in_one_sector:
  assumes "idle_disk io p s" "sdisk s = Some p" "pp < npages (phys (kmemory (kst s)))" "pp < 2 ^ 52"
  shows "\<exists>s' ws. swap_page_in io pp slot s = Some (0, s') \<and> length ws = 128 \<and>
    (\<forall>i < 128. get32 (ram s') (table_kva pp + 4 * of_nat i) = ws ! i) \<and>
    (\<forall>b. (\<forall>k < 512. b \<noteq> table_kva pp + of_nat k) \<longrightarrow> ram s' b = ram s b)"
proof -
  have k: "KADDR (page2pa pp) (kvm (kst s)) = Some (table_kva pp)"
    using assms(3) page2pa_index [OF assms(4)] by (simp add: KADDR_def kvm_def table_kva_def)
  obtain d ws a where ws: "length ws = 128" "swap_read_loop io p (table_kva pp) (slot * SWAP_SECTORS_PER_PAGE) s =
      Some (4096, s\<lparr>hw := d, ram := put_words (table_kva pp) ws (ram s), ata_disks := a\<rparr>)"
    using swap_read_two [OF assms(1)] by blast
  have "swap_page_in io pp slot s = Some (0, s\<lparr>hw := d, ram := put_words (table_kva pp) ws (ram s), ata_disks := a\<rparr>)"
    unfolding swap_page_in_def using k ws(2) assms(2) by simp
  moreover have "\<forall>i < 128. get32 (put_words (table_kva pp) ws (ram s)) (table_kva pp + 4 * of_nat i) = ws ! i"
    using ws(1) put_words_get [of ws] by simp
  moreover have "\<forall>b. (\<forall>k < 512. b \<noteq> table_kva pp + of_nat k) \<longrightarrow> put_words (table_kva pp) ws (ram s) b = ram s b"
    using ws(1) put_words_out [of ws] by simp
  ultimately show ?thesis
    using ws(1)
    by (intro exI [of _ "s\<lparr>hw := d, ram := put_words (table_kva pp) ws (ram s), ata_disks := a\<rparr>"] exI [of _ ws]) simp
qed

section \<open>Writing a page out\<close>

lemma ata_write_issue:
  assumes "idle_disk io p s"
  shows "\<exists>d. ata_write io p buf n addr s = Some (- EAGAIN, upd_ata p (\<lambda>x. x\<lparr>ata_state := ATA_WRITE\<rparr>) (s\<lparr>hw := d\<rparr>))"
proof -
  let ?c = "chan_of p s" and ?s = "dev_do (ata_select io (chan_of p s) (drive (ata_disks s p))) s"
  obtain d where "ata_wait_ready io ?c False ?s = Some (0, ?s\<lparr>hw := d\<rparr>)"
    using wait_ready [of io ?c ?s] assms by (auto simp: idle_disk_def)
  then show ?thesis using assms by (auto simp: ata_write_def idle_disk_def dev_do_hw Let_def)
qed

lemma hw_after_ata: "s\<lparr>ata_disks := a, hw := f\<rparr> = s\<lparr>hw := f, ata_disks := a\<rparr>"
  by (cases s) simp

lemma ata_flush_ready: "always_ready io c \<Longrightarrow> \<exists>d. ata_flush io c s = Some (s\<lparr>hw := d\<rparr>)"
proof -
  assume r: "always_ready io c"
  obtain d where d: "ata_wait_ready io c False s = Some (0, s\<lparr>hw := d\<rparr>)" using wait_ready [OF r] by blast
  let ?t = "dev_do (outb (pio io) (cmd_port c) ATA_CMD_FLUSH) (s\<lparr>hw := d\<rparr>)"
  obtain e where "ata_wait_ready io c False ?t = Some (0, ?t\<lparr>hw := e\<rparr>)" using wait_ready [OF r] by blast
  then show ?thesis using d by (auto simp: ata_flush_def dev_do_hw)
qed

lemma ata_write_done:
  assumes "always_ready io (chan_of p s)" "ata_state (ata_disks s p) = ATA_WRITE" "sect_size (ata_disks s p) = 512"
  shows "\<exists>d. ata_write io p buf n addr s =
    Some (sint (n * 512), upd_ata p (\<lambda>x. x\<lparr>ata_state := ATA_IDLE\<rparr>) (s\<lparr>hw := d\<rparr>))"
proof -
  let ?c = "chan_of p s" and ?sel = "ata_select io (chan_of p s) (drive (ata_disks s p))"
  let ?s = "dev_do ?sel s"
  obtain d where d: "ata_poll io p ?s = (True, ?s\<lparr>hw := d\<rparr>)"
    using poll_ready [of io p ?s] assms(1) by (auto simp: dev_do_hw)
  let ?t = "dev_do ?sel (?s\<lparr>hw := d\<rparr>)"
  obtain e where e: "ata_wait_ready io ?c False ?t = Some (0, ?t\<lparr>hw := e\<rparr>)" using wait_ready [OF assms(1)] by blast
  let ?u = "upd_ata p (\<lambda>x. x\<lparr>ata_state := ATA_IDLE\<rparr>)
    (dev_do (outsl (pio io) (data_port ?c) (get_words (unat (n * 512 div 4)) (ram s) buf)) (?t\<lparr>hw := e\<rparr>))"
  obtain f where "ata_flush io ?c ?u = Some (?u\<lparr>hw := f\<rparr>)" using ata_flush_ready [OF assms(1)] by blast
  then show ?thesis
    unfolding ata_write_def Let_def d using assms(2,3) e by (auto simp: dev_do_hw upd_ata_def hw_after_ata)
qed

lemma swap_write_two:
  assumes "idle_disk io p s"
  shows "\<exists>d a. swap_write_loop io p buf lba s = Some (4096, s\<lparr>hw := d, ata_disks := a\<rparr>)"
proof -
  obtain d where one: "ata_write io p buf SWAP_SECTORS_PER_PAGE lba s =
      Some (- EAGAIN, upd_ata p (\<lambda>x. x\<lparr>ata_state := ATA_WRITE\<rparr>) (s\<lparr>hw := d\<rparr>))"
    using ata_write_issue [OF assms] by blast
  let ?s1 = "upd_ata p (\<lambda>x. x\<lparr>ata_state := ATA_WRITE\<rparr>) (s\<lparr>hw := d\<rparr>)"
  have c: "always_ready io (chan_of p ?s1)" "disk_ops_of ?s1 p = ata_ops"
    using assms by (auto simp: idle_disk_def chan_of_def upd_ata_def)
  obtain d1 where poll: "ata_poll io p ?s1 = (True, ?s1\<lparr>hw := d1\<rparr>)" using poll_ready [OF c(1)] by blast
  let ?s2 = "?s1\<lparr>hw := d1\<rparr>"
  have two: "always_ready io (chan_of p ?s2)" "ata_state (ata_disks ?s2 p) = ATA_WRITE" "sect_size (ata_disks ?s2 p) = 512"
    "disk_ops_of ?s2 p = ata_ops"
    using assms by (simp_all add: idle_disk_def upd_ata_def chan_of_def)
  from ata_write_done [OF two(1-3)] obtain d2 where w:
    "ata_write io p buf SWAP_SECTORS_PER_PAGE lba ?s2 =
       Some (sint (SWAP_SECTORS_PER_PAGE * 512), upd_ata p (\<lambda>x. x\<lparr>ata_state := ATA_IDLE\<rparr>) (?s2\<lparr>hw := d2\<rparr>))" by blast
  have size: "sint (SWAP_SECTORS_PER_PAGE * 512) = 4096" by (simp add: SWAP_SECTORS_PER_PAGE_def PAGE_SIZE_def)
  have "disk_ops_of s p = ata_ops" using assms by (simp add: idle_disk_def)
  then have "swap_write_loop io p buf lba s = swap_write_loop io p buf lba ?s2"
    using one poll c by (subst swap_write_loop.simps) (simp add: disk_write_def disk_poll_def)
  also have "\<dots> = Some (4096, upd_ata p (\<lambda>x. x\<lparr>ata_state := ATA_IDLE\<rparr>) (?s2\<lparr>hw := d2\<rparr>))"
    using w two(4) size by (subst swap_write_loop.simps) (simp add: disk_write_def EAGAIN_def)
  finally show ?thesis by (auto simp: upd_ata_def)
qed

text \<open>Giving a page back does not touch what the frames hold.\<close>

lemma buddy_merge_frames: "buddy_merge s p = Some (q, s') \<Longrightarrow> frames s' = frames s \<and> npages s' = npages s"
proof (induction s p rule: buddy_merge.induct)
  case (1 s p)
  from 1(2) show ?case
    by (subst (asm) buddy_merge.simps) (auto simp: Let_def upd_page_def upd_links_def split: if_splits dest!: 1(1) [rotated -1])
qed

lemma page_free_frames: "page_free p s = Some s' \<Longrightarrow> frames s' = frames s \<and> npages s' = npages s"
  by (auto simp: page_free_def lock_buddy_def lock_active_def unlock_buddy_def unlock_active_def Let_def upd_page_def
      upd_links_def split: bind_splits if_splits dest!: buddy_merge_frames)

lemma get_entry_frames: "frames (vmem v) = frames (vmem w) \<Longrightarrow> get_entry e v = get_entry e w"
  by (simp add: get_entry_def)

lemma translate_frames:
  assumes "frames (vmem v) = frames (vmem w)" "npages (vmem v) = npages (vmem w)"
  shows "translate v pml4 x = translate w pml4 x"
proof -
  have eq: "get_entry e v = get_entry e w" "KADDR_table a v = KADDR_table a w" for e a
    using assms by (simp_all add: get_entry_def KADDR_table_def)
  show ?thesis unfolding translate_def translate3_def translate2_def translate1_def Let_def eq ..
qed

lemma kvm_put_kvm [simp]: "kvm (put_kvm v k) = v"
  by (simp add: kvm_def put_kvm_def)

text \<open>
  C38: swapping out a page that a task has mapped, to a legacy disk that is ready, succeeds and gives the page back to
  the allocator, but leaves the mapping: the entry of the page table is found as before and holds what it held, the present
  bit included, so the task goes on reading and writing the page that was given back.  That the nodes of the lists lie at
  even addresses is the alignment of their pointers.
\<close>

theorem swap_out_leaves_mapping:
  assumes "idle_disk io p s" "sdisk s = Some p" "pp < npages (phys (kmemory (kst s)))" "pp < 2 ^ 52"
    and "powner (pages (phys (kmemory (kst s))) pp) = Some task" "virt_addr (pages (phys (kmemory (kst s))) pp) = va"
    and "page_aligned va" "va < USER_LIM"
    and "translate (kvm (kst s)) (pml4_of_task task (kst s)) va = Some (Some e)"
    and "pa2page (PAGE_ADDR (get_entry e (kvm (kst s)))) (kvm (kst s)) = Some pp"
    and "\<forall>n. node_addr n AND PAGE_PRESENT = 0"
    and "page_free pp (phys (kmemory (kst s))) = Some m"
  shows "\<exists>s'. swap_page_out node_addr io (Some pp) slot s = Some (0, s') \<and> phys (kmemory (kst s')) = m \<and>
    translate (kvm (kst s')) (pml4_of_task task (kst s)) va = Some (Some e) \<and>
    get_entry e (kvm (kst s')) = get_entry e (kvm (kst s))"
proof -
  have k: "KADDR (page2pa pp) (kvm (kst s)) = Some (table_kva pp)"
    using assms(3) page2pa_index [OF assms(4)] by (simp add: KADDR_def kvm_def table_kva_def)
  obtain d a where w: "swap_write_loop io p (table_kva pp) (slot * SWAP_SECTORS_PER_PAGE) s =
      Some (4096, s\<lparr>hw := d, ata_disks := a\<rparr>)" using swap_write_two [OF assms(1)] by blast
  have "page_at va (va OR (PAGE_SIZE - 1))" using assms(7,8) by (simp add: page_at_def)
  from page_lookup_page [OF this, of "pml4_of_task task (kst s)" "kvm (kst s)"]
  have l: "page_lookup (pml4_of_task task (kst s)) va (kvm (kst s)) = Some (Some pp, Some e, kvm (kst s))"
    using assms(9,10) by simp
  define k' where "k' = (put_kvm (kvm (kst s)) (kst s))\<lparr>kmemory := (kmemory (put_kvm (kvm (kst s)) (kst s)))\<lparr>phys := m\<rparr>\<rparr>"
  have same: "phys (kmemory (put_kvm (kvm (kst s)) (kst s))) = phys (kmemory (kst s))" by (simp add: put_kvm_def kvm_def)
  have "\<exists>s'. swap_page_out node_addr io (Some pp) slot s = Some (0, s') \<and> kst s' = k'"
    unfolding swap_page_out_def using assms(2,5,6,11,12) k w l
    by (simp add: clear_present_def free_page_def same k'_def)
  then obtain s' where s': "swap_page_out node_addr io (Some pp) slot s = Some (0, s')" "kst s' = k'" by blast
  have fr: "frames m = frames (phys (kmemory (kst s)))" "npages m = npages (phys (kmemory (kst s)))"
    using page_free_frames [OF assms(12)] by simp_all
  have v: "vmem (kvm k') = m" "phys (kmemory k') = m" by (simp_all add: k'_def kvm_def put_kvm_def)
  have "translate (kvm k') q va = translate (kvm (kst s)) q va" for q
    using fr v(1) by (intro translate_frames) (simp_all add: kvm_def)
  moreover have "get_entry e (kvm k') = get_entry e (kvm (kst s))"
    using fr v(1) by (intro get_entry_frames) (simp add: kvm_def)
  ultimately show ?thesis using s' v assms(9) by auto
qed

text \<open>
  A disk that reports ready at every look and delivers zeros, and a task that has the page 5 mapped at address 0.
\<close>

definition ready_io :: "unit bus" where
  "ready_io = \<lparr>pio = \<lparr>in8 = (\<lambda>_ d. (0x40, d)), in16 = (\<lambda>_ d. (0, d)), in32 = (\<lambda>_ d. (0, d)), out8 = (\<lambda>_ _ d. d),
     out16 = (\<lambda>_ _ d. d), out32 = (\<lambda>_ _ d. d)\<rparr>,
     rd8 = (\<lambda>_ d. (0, d)), rd16 = (\<lambda>_ d. (0, d)), rd32 = (\<lambda>_ d. (0, d)), rd64 = (\<lambda>_ d. (0, d)),
     wr8 = (\<lambda>_ _ d. d), wr16 = (\<lambda>_ _ d. d), wr32 = (\<lambda>_ _ d. d), wr64 = (\<lambda>_ _ d. d)\<rparr>"

definition mapped_kern :: kern where
  "mapped_kern = demo_kern\<lparr>regs := live_vm, kmemory := no_heap\<lparr>phys := (vmem live_vm)\<lparr>pages := (\<lambda>i. (pages (vmem live_vm) i)
     \<lparr>virt_addr := 0, powner := Some 1\<rparr>)\<rparr>\<rparr>\<rparr>"

definition swap_state :: "unit swap" where
  "swap_state = \<lparr>hw = (), ram = (\<lambda>_. 9), kst = mapped_kern, mmio_next = MMIO_BASE, lapic_addr = 0, lapic_base = None,
     hpet_regs = None, hpet_freq = 0, ncpus = 1, boot_cpu = None, disk_ops_of = (\<lambda>_. ata_ops), disks = (\<lambda>_. (1, 0)), ndisks = 2,
     channels = (\<lambda>_. ata_setup_chan 0x1f0 0x3f6),
     ata_disks = (\<lambda>_. \<lparr>chan = 0, drive = 1, ata_state = ATA_IDLE, nsectors = 2048, sect_size = 512\<rparr>),
     ahci_disks = (\<lambda>_. \<lparr>ahci_port = 0, ahci_state = AHCI_IDLE, ahci_nsectors = 0, ahci_sect_size = 512, ahci_slot = -1\<rparr>),
     sdisk = Some (1, 0), swap_entries = (\<lambda>_. \<lparr>swap_sector = 0, swap_task = None, swap_pte = 0, swap_used = False\<rparr>)\<rparr>"

lemma swap_state_idle: "idle_disk ready_io (1, 0) swap_state" "sdisk swap_state = Some (1, 0)"
  "5 < npages (phys (kmemory (kst swap_state)))" "(5 :: nat) < 2 ^ 52"
  by (simp_all add: idle_disk_def always_ready_def ready_io_def swap_state_def ready_status_def ATA_STAT_BUSY_def
      ATA_STAT_READY_def mapped_kern_def live_vm_def demo_vm_def)

theorem swap_in_one_sector_witness:
  "\<exists>s'. swap_page_in ready_io 5 3 swap_state = Some (0, s') \<and> ram s' (table_kva 5 + 512) = 9"
proof -
  obtain s' where r: "swap_page_in ready_io 5 3 swap_state = Some (0, s')"
    "\<forall>b. (\<forall>k < 512. b \<noteq> table_kva 5 + of_nat k) \<longrightarrow> ram s' b = ram swap_state b"
    using swap_in_one_sector [OF swap_state_idle, of 3] by blast
  have "table_kva 5 + 512 \<noteq> table_kva 5 + of_nat k" if "k < 512" for k
    using that small_of_nat [of "512 - k"] by (simp add: of_nat_diff)
  then have "ram s' (table_kva 5 + 512) = 9" using r(2) by (simp add: swap_state_def)
  then show ?thesis using r(1) by blast
qed

lemma page_free_alone:
  assumes "locks_idle m" "lnext (plinks m) (ActiveNode p) = ActiveNode p" "pp_order (pages m p) = 0"
    "p XOR 1 < npages m" "pp_ref (pages m (p XOR 1)) > 0"
  shows "\<exists>m'. page_free p m = Some m'"
proof -
  have "idle_lock (buddy_lock m)" "idle_lock (active_pages_lock m)" using assms(1) by (simp_all add: locks_idle_def)
  then show ?thesis
    using assms(2-5)
    by (simp add: page_free_def lock_buddy_def lock_active_def unlock_buddy_def unlock_active_def spin_lock_idle
        spin_unlock_held buddy_merge.simps [of _ p] BUDDY_MAX_ORDER_def BUDDY_2M_PAGE_def Let_def upd_page_def upd_links_def)
qed

lemma mapped_free: "\<exists>m. page_free 5 (phys (kmemory (kst swap_state))) = Some m"
proof -
  have "(5 :: nat) XOR 1 = 4" by code_simp
  then show ?thesis
    by (intro page_free_alone)
      (simp_all add: swap_state_def mapped_kern_def live_vm_def demo_vm_def one_block_def one_block_links_def locks_idle_def
        idle_lock_def)
qed

lemma mapped_vm: "kvm (kst swap_state) = live_vm\<lparr>vmem := phys (kmemory (kst swap_state))\<rparr>"
  "frames (phys (kmemory (kst swap_state))) = frames (vmem demo_vm)"
  "npages (phys (kmemory (kst swap_state))) = npages (vmem demo_vm)"
  by (simp_all add: swap_state_def mapped_kern_def kvm_def live_vm_def)

theorem swap_out_leaves_mapping_witness:
  "\<exists>s'. swap_page_out (\<lambda>_. 0x1000) ready_io (Some 5) 3 swap_state = Some (0, s') \<and>
    translate (kvm (kst s')) 1 0 = Some (Some (Entry 4 0)) \<and> get_entry (Entry 4 0) (kvm (kst s')) = 0x5007"
proof -
  obtain m where m: "page_free 5 (phys (kmemory (kst swap_state))) = Some m" using mapped_free by blast
  have t: "translate (kvm (kst swap_state)) 1 0 = Some (Some (Entry 4 0))"
    using mapped_vm demo_translate translate_frames [of "kvm (kst swap_state)" demo_vm] by simp
  have g: "get_entry (Entry 4 0) (kvm (kst swap_state)) = 0x5007"
    using mapped_vm demo_entry get_entry_frames [of "kvm (kst swap_state)" demo_vm] by simp
  have p: "pa2page (PAGE_ADDR 0x5007) (kvm (kst swap_state)) = Some 5"
    by (simp add: pa2page_def PAGE_INDEX_def PAGE_ADDR_def PAGE_MASK_def PAGE_TABLE_SHIFT_def mapped_vm) (simp add: demo_vm_def)
  have pml4: "pml4_of_task 1 (kst swap_state) = 1"
    by (simp add: pml4_of_task_def swap_state_def mapped_kern_def live_vm_def demo_vm_def)
  have own: "powner (pages (phys (kmemory (kst swap_state))) 5) = Some 1"
    "virt_addr (pages (phys (kmemory (kst swap_state))) 5) = 0" by (simp_all add: swap_state_def mapped_kern_def)
  have z: "page_aligned 0" "0 < USER_LIM" "\<forall>n :: pnode. (\<lambda>_. 0x1000) n AND PAGE_PRESENT = 0"
    by (simp_all add: page_aligned_def PAGE_SIZE_def USER_LIM_def PAGE_PRESENT_def)
  show ?thesis
    using swap_out_leaves_mapping [OF swap_state_idle own z(1,2) _ _ z(3) m, of "Entry 4 0" 3] t g p
    unfolding pml4 by auto
qed

end
