(* ===== verification/Boot_Loader.thy ===== *)
theory Boot_Loader
  imports Prelude "HOL-Library.Monad_Syntax"
begin

text \<open>
  The boot loader, \<^verbatim>\<open>boot/main.c\<close>: it reads the image of the kernel from the disk, sector by sector, into the addresses its
  program headers give, and jumps to its entry.  The loader runs with 32-bit addresses.  A sector is read by the assembly routines
  \<^verbatim>\<open>read_sector32\<close> of \<^verbatim>\<open>boot/compat.S\<close> and \<^verbatim>\<open>read_sector\<close> of \<^verbatim>\<open>boot/boot1.S\<close>, which go back to real mode and call the BIOS.  The BIOS,
  the addresses the linker gives and the contents of the registers of the compiled code are arguments.
\<close>

section \<open>Memory\<close>

type_synonym lmem = "u32 \<Rightarrow> u8"

primrec lget :: "nat \<Rightarrow> lmem \<Rightarrow> u32 \<Rightarrow> u64" where
  "lget 0 m a = 0"
| "lget (Suc n) m a = ucast (m a) OR push_bit 8 (lget n m (a + 1))"

primrec lput :: "nat \<Rightarrow> u32 \<Rightarrow> u64 \<Rightarrow> lmem \<Rightarrow> lmem" where
  "lput 0 a v m = m"
| "lput (Suc n) a v m = lput n (a + 1) (drop_bit 8 v) (m(a := ucast v))"

primrec memcpy_loop :: "nat \<Rightarrow> u32 \<Rightarrow> u32 \<Rightarrow> lmem \<Rightarrow> lmem" where
  "memcpy_loop 0 d s m = m"
| "memcpy_loop (Suc n) d s m = memcpy_loop n (d + 1) (s + 1) (m(d := m s))"

definition boot_memcpy :: "u32 \<Rightarrow> u32 \<Rightarrow> u32 \<Rightarrow> lmem \<Rightarrow> lmem" where
  "boot_memcpy dst src n m = memcpy_loop (unat n) dst src m"

section \<open>Loading\<close>

definition SECTSIZE :: u32 where "SECTSIZE = 512"
definition ELFHDR :: u32 where "ELFHDR = 0x10000"
definition SECT_BUF :: u32 where "SECT_BUF = 0x1000"
definition LD_ELF_MAGIC :: u32 where "LD_ELF_MAGIC = 0x464C457F"
definition SIZEOF_PROGHDR :: u32 where "SIZEOF_PROGHDR = 56"

text \<open>
  The machine below the C code of the loader.  Its state is the memory and a rest of an arbitrary type, which the BIOS changes.
  \<open>int13\<close> is the BIOS call, the interrupt \<^verbatim>\<open>0x13\<close>: it takes \<open>AH\<close>, \<open>DL\<close>, the address \<open>DS:SI\<close> and the stack pointer, and
  returns the carry flag and \<open>AH\<close>; it keeps the other registers.  \<open>regs_at\<close> are the registers when the compiled code calls
  \<^verbatim>\<open>read_sector32\<close>.  The other fields are addresses of the linked loader; the segment registers are zero in real mode.
\<close>

record loader_regs =
  reg_eax :: u32
  reg_ecx :: u32
  reg_edx :: u32
  reg_ebx :: u32
  reg_ebp :: u32
  reg_esi :: u32
  reg_edi :: u32
  reg_esp :: u32

type_synonym 'd machine = "'d \<times> lmem"

record 'd loader =
  int13 :: "u8 \<Rightarrow> u8 \<Rightarrow> u32 \<Rightarrow> u16 \<Rightarrow> 'd machine \<Rightarrow> bool \<times> u8 \<times> 'd machine"
  regs_at :: "'d \<Rightarrow> loader_regs"
  disk_packet :: u16
  boot_drive :: u16
  gdt_at :: u32
  ret_ip :: u16

text \<open>
  \<^verbatim>\<open>read_sector\<close>: there are five attempts, as \<open>CX\<close> starts at six and is decremented first.  \<open>AH\<close> is set once, before the loop: a
  further attempt calls the BIOS with the status of the failed one as the function number.  The result is the carry flag.
\<close>

primrec read_attempts :: "'d loader \<Rightarrow> u8 \<Rightarrow> u16 \<Rightarrow> nat \<Rightarrow> u8 \<Rightarrow> 'd machine \<Rightarrow> bool \<times> 'd machine" where
  "read_attempts e dl sp 0 ah s = (True, s)"
| "read_attempts e dl sp (Suc cx) ah s =
     (case int13 e ah dl (ucast (disk_packet e)) sp s of
        (cf, ah, s) \<Rightarrow> if cf \<or> ah \<noteq> 0 then read_attempts e dl sp cx ah s else (False, s))"

definition read_sector :: "'d loader \<Rightarrow> u16 \<Rightarrow> u32 \<Rightarrow> u32 \<Rightarrow> 'd machine \<Rightarrow> bool \<times> 'd machine" where
  "read_sector e sp edi esi s =
     (case s of (d, m) \<Rightarrow>
      let bp = disk_packet e;
          m = lput 4 (ucast (bp + 4)) (ucast edi) m;
          m = lput 4 (ucast (bp + 8)) (ucast esi) m;
          dl = m (ucast (boot_drive e))
      in read_attempts e dl sp (6 - 1) 0x42 (d, m))"

text \<open>Loading a segment register sets the accessed bit of its descriptor.\<close>

definition load_selector :: "u32 \<Rightarrow> u32 \<Rightarrow> lmem \<Rightarrow> lmem" where
  "load_selector gdt sel m = m(gdt + sel + 5 := m (gdt + sel + 5) OR 1)"

definition GOTO_RMODE :: "u32 \<Rightarrow> lmem \<Rightarrow> lmem" where
  "GOTO_RMODE gdt m = load_selector gdt 0x18 (load_selector gdt 0x20 m)"

definition GOTO_PMODE :: "u32 \<Rightarrow> lmem \<Rightarrow> lmem" where
  "GOTO_PMODE gdt m = load_selector gdt 0x08 (load_selector gdt 0x10 m)"

primrec pushl :: "u32 list \<Rightarrow> u32 \<Rightarrow> lmem \<Rightarrow> lmem" where
  "pushl [] esp m = m"
| "pushl (v # vs) esp m = pushl vs (esp - 4) (lput 4 (esp - 4) (ucast v) m)"

text \<open>
  \<^verbatim>\<open>read_sector32\<close>: \<open>EBP\<close> and then all registers are pushed, nine words, and the call in real mode pushes its 16-bit return
  address.  The carry flag \<^verbatim>\<open>read_sector\<close> returns is dropped.
\<close>

definition read_sector32 :: "'d loader \<Rightarrow> u32 \<Rightarrow> u32 \<Rightarrow> 'd machine \<Rightarrow> 'd machine" where
  "read_sector32 e dst offset s =
     (case s of (d, m) \<Rightarrow>
      let r = regs_at e d;
          m = pushl [reg_ebp r] (reg_esp r) m;
          ebp = reg_esp r - 4;
          m = pushl [reg_eax r, reg_ecx r, reg_edx r, reg_ebx r, ebp, ebp, reg_esi r, reg_edi r] ebp m;
          m = GOTO_RMODE (gdt_at e) m;
          sp = ucast (ebp - 32) - 2 :: u16;
          m = lput 2 (ucast sp) (ucast (ret_ip e)) m
      in case read_sector e sp dst offset (d, m) of (cf, d, m) \<Rightarrow> (d, GOTO_PMODE (gdt_at e) m))"

definition readsect :: "'d loader \<Rightarrow> u32 \<Rightarrow> u32 \<Rightarrow> 'd machine \<Rightarrow> 'd machine" where
  "readsect e dst offset s = (case read_sector32 e SECT_BUF offset s of (d, m) \<Rightarrow> (d, boot_memcpy dst SECT_BUF SECTSIZE m))"

partial_function (option) readseg_loop :: "'d loader \<Rightarrow> u32 \<Rightarrow> u32 \<Rightarrow> u32 \<Rightarrow> 'd machine \<Rightarrow> 'd machine option" where
  "readseg_loop e end_pa pa offset s =
     (if pa < end_pa then readseg_loop e end_pa (pa + SECTSIZE) (offset + 1) (readsect e pa offset s) else Some s)"

declare readseg_loop.simps [code]

text \<open>\<open>stage2_len\<close> is the distance of the symbols \<^verbatim>\<open>stage2\<close> and \<^verbatim>\<open>stage2_end\<close> of the linker.\<close>

definition readseg :: "'d loader \<Rightarrow> u32 \<Rightarrow> u32 \<Rightarrow> u32 \<Rightarrow> u32 \<Rightarrow> 'd machine \<Rightarrow> 'd machine option" where
  "readseg e stage2_len pa len offset s =
     (let end_pa = pa + len;
          pa = pa AND NOT (SECTSIZE - 1);
          offset = offset div SECTSIZE;
          offset = offset + 1;
          offset = offset + (stage2_len + SECTSIZE - 1) div SECTSIZE
      in readseg_loop e end_pa pa offset s)"

partial_function (option) load_segs :: "'d loader \<Rightarrow> u32 \<Rightarrow> u32 \<Rightarrow> u32 \<Rightarrow> 'd machine \<Rightarrow> 'd machine option" where
  "load_segs e stage2_len eph ph s =
     (if ph < eph then do {
        let m = snd s;
        s \<leftarrow> readseg e stage2_len (ucast (lget 8 m (ph + 24))) (ucast (lget 8 m (ph + 40))) (ucast (lget 8 m (ph + 8))) s;
        load_segs e stage2_len eph (ph + SIZEOF_PROGHDR) s
      }
      else Some s)"

declare load_segs.simps [code]

text \<open>The loader leaves by a jump to the entry of the kernel, or stays in a loop when the image is not one.\<close>

datatype 'd boot_end = Enter u32 "'d machine" | Bad_ELF "'d machine"

definition bootmain :: "'d loader \<Rightarrow> u32 \<Rightarrow> u32 \<Rightarrow> 'd machine \<Rightarrow> 'd boot_end option" where
  "bootmain e stage2_len boot_info s = do {
     let s = (fst s, lput 4 (boot_info + 8) (ucast ELFHDR) (snd s));
     s \<leftarrow> readseg e stage2_len ELFHDR (SECTSIZE * 8) 0 s;
     let m = snd s;
     if ucast (lget 4 m ELFHDR) \<noteq> LD_ELF_MAGIC then Some (Bad_ELF s)
     else do {
       let ph = ELFHDR + ucast (lget 8 m (ELFHDR + 32));
       let eph = ph + ucast (lget 2 m (ELFHDR + 56)) * SIZEOF_PROGHDR;
       s \<leftarrow> load_segs e stage2_len eph ph s;
       Some (Enter (ucast (lget 8 (snd s) (ELFHDR + 24))) s)
     }
   }"

section \<open>What is loaded\<close>




subsection \<open>Words in memory\<close>









lemma unat_u16 [simp]: "unat (ucast (p :: u16) :: u32) = unat p"
  using unsigned_less [of p, where 'a = nat] by (simp add: unsigned_ucast_eq take_bit_nat_eq_self)




subsection \<open>A sector\<close>


















subsection \<open>A segment\<close>


















end
