(* ===== verification/Segments.thy ===== *)
theory Segments
  imports Mem_Init Trap
begin

text \<open>
  The descriptor table of the segments and task states, \<^verbatim>\<open>kernel/sched/gdt.c\<close>, over the descriptors of the theory on traps.
\<close>

section \<open>Descriptors\<close>

definition GDT_RW :: u32 where "GDT_RW = push_bit 1 1"
definition GDT_EXEC :: u32 where "GDT_EXEC = push_bit 3 1"
definition GDT_DEFAULT :: u32 where "GDT_DEFAULT = push_bit 4 1"
definition GDT_PRIVL :: "u32 \<Rightarrow> u32" where "GDT_PRIVL x = push_bit 5 (x AND 0x3)"
definition GDT_PRESENT :: u32 where "GDT_PRESENT = push_bit 7 1"
definition GDT_LONG_MODE :: u32 where "GDT_LONG_MODE = push_bit 13 1"
definition GDT_KCODE_FLAGS :: u32 where "GDT_KCODE_FLAGS = GDT_RW OR GDT_EXEC OR GDT_DEFAULT OR GDT_PRESENT"
definition GDT_KDATA_FLAGS :: u32 where "GDT_KDATA_FLAGS = GDT_RW OR GDT_DEFAULT OR GDT_PRESENT"
definition GDT_UCODE_FLAGS :: u32 where "GDT_UCODE_FLAGS = GDT_KCODE_FLAGS OR GDT_PRIVL 3"
definition GDT_UDATA_FLAGS :: u32 where "GDT_UDATA_FLAGS = GDT_KDATA_FLAGS OR GDT_PRIVL 3"
definition GDT_TSS0 :: u16 where "GDT_TSS0 = 0x28"

definition no_entry :: gdt_entry where
  "no_entry = \<lparr>limit_low = 0, base_low = 0, base_middle = 0, gflags = 0, base_high = 0\<rparr>"

text \<open>
  The descriptor of a task state takes two slots of the table; the upper half of its base is the first four bytes of the second
  one, which are the members \<^verbatim>\<open>limit_low\<close> and \<^verbatim>\<open>base_low\<close> there.
\<close>

definition tss_entry_at :: "(nat \<Rightarrow> gdt_entry) \<Rightarrow> nat \<Rightarrow> tss_entry" where
  "tss_entry_at g i =
     \<lparr>tentry = g i, tbase_high = ucast (limit_low (g (Suc i))) OR push_bit 16 (ucast (base_low (g (Suc i))))\<rparr>"

definition put_tss_entry :: "nat \<Rightarrow> u64 \<Rightarrow> (nat \<Rightarrow> gdt_entry) \<Rightarrow> nat \<Rightarrow> gdt_entry" where
  "put_tss_entry i tss g =
     (let e = set_tss_entry tss (tss_entry_at g i)
      in g(i := tentry e,
           Suc i := (g (Suc i))\<lparr>limit_low := ucast (tbase_high e), base_low := ucast (drop_bit 16 (tbase_high e))\<rparr>))"

section \<open>Setting the table up\<close>

text \<open>
  The table, the stack pointers \<^verbatim>\<open>cpu_tss.rsp[0]\<close> of the CPUs and the task register of the CPU that runs; \<^verbatim>\<open>load_gdt\<close> reloads the
  segment registers from the table.
\<close>

record gdt_state =
  gdt_entries :: "nat \<Rightarrow> gdt_entry"
  rsp0 :: "nat \<Rightarrow> u64"
  task_sel :: u16
  code_sel :: u16
  data_sel :: u16

definition initial_gdt :: "nat \<Rightarrow> gdt_entry" where
  "initial_gdt = (\<lambda>_. no_entry)(
     1 := no_entry\<lparr>gflags := ucast (GDT_KCODE_FLAGS OR GDT_LONG_MODE)\<rparr>,
     2 := no_entry\<lparr>gflags := ucast GDT_KDATA_FLAGS\<rparr>,
     4 := no_entry\<lparr>gflags := ucast (GDT_UCODE_FLAGS OR GDT_LONG_MODE)\<rparr>,
     3 := no_entry\<lparr>gflags := ucast GDT_UDATA_FLAGS\<rparr>)"

definition load_gdt :: "u16 \<Rightarrow> u16 \<Rightarrow> gdt_state \<Rightarrow> gdt_state" where
  "load_gdt code data s = s\<lparr>code_sel := code, data_sel := data\<rparr>"

definition load_task_sel :: "u16 \<Rightarrow> gdt_state \<Rightarrow> gdt_state" where
  "load_task_sel sel s = s\<lparr>task_sel := sel\<rparr>"

definition cpu_stack :: "nat option \<Rightarrow> nat \<Rightarrow> u64" where
  "cpu_stack boot_cpu i =
     (if boot_cpu = Some i then KSTACK_TOP else KSTACK_TOP - (of_nat i + 1) * (KSTACK_SIZE + PAGE_SIZE))"

text \<open>\<open>tss_addr\<close> gives the address of the task state of each CPU; \<open>me\<close> is the CPU that runs.\<close>

definition gdt_init :: "(nat \<Rightarrow> u64) \<Rightarrow> nat \<Rightarrow> nat option \<Rightarrow> nat \<Rightarrow> gdt_state \<Rightarrow> gdt_state" where
  "gdt_init tss_addr ncpus boot_cpu me s =
     (let s = s\<lparr>rsp0 := fold (\<lambda>i f. f(i := cpu_stack boot_cpu i)) [0..<ncpus] (rsp0 s)\<rparr>;
          s = s\<lparr>rsp0 := (rsp0 s)(me := KSTACK_TOP)\<rparr>;
          s = s\<lparr>gdt_entries := put_tss_entry (unat GDT_TSS0 div 8) (tss_addr me) (gdt_entries s)\<rparr>;
          s = load_gdt (ucast GDT_KCODE) (ucast GDT_KDATA) s
      in load_task_sel GDT_TSS0 s)"

definition gdt_init_mp :: "(nat \<Rightarrow> u64) \<Rightarrow> nat \<Rightarrow> gdt_state \<Rightarrow> gdt_state" where
  "gdt_init_mp tss_addr i s =
     (let s = s\<lparr>gdt_entries := put_tss_entry (unat GDT_TSS0 div 8 + i * 2) (tss_addr i) (gdt_entries s)\<rparr>;
          s = load_gdt (ucast GDT_KCODE) (ucast GDT_KDATA) s
      in load_task_sel (GDT_TSS0 + of_nat i * 16) s)"

section \<open>What the processor finds in the table\<close>

definition tss_base :: "(nat \<Rightarrow> gdt_entry) \<Rightarrow> nat \<Rightarrow> u64" where
  "tss_base g i =
     (let e = g i
      in ucast (base_low e) OR push_bit 16 (ucast (base_middle e)) OR push_bit 24 (ucast (base_high e)) OR
         push_bit 32 (ucast (tbase_high (tss_entry_at g i))))"

definition selected :: "u16 \<Rightarrow> nat" where "selected sel = unat sel div 8"

lemma and_mask_bits: "x AND 0xFF = take_bit 8 x" "x AND 0xFFFF = take_bit 16 x" "x AND 0xFFFFFFFF = take_bit 32 x" for x :: u64
  by (simp_all add: take_bit_eq_mask mask_eq_exp_minus_1)

lemma tss_base_set: "tss_base (put_tss_entry i a g) i = a"
proof (rule bit_word_eqI)
  fix n
  assume "n < LENGTH(64)"
  then show "bit (tss_base (put_tss_entry i a g) i) n = bit a n"
    unfolding tss_base_def put_tss_entry_def tss_entry_at_def set_tss_entry_def set_gdt_entry_def Let_def
    by (cases "n < 48") (auto simp: and_mask_bits bit_simps)
qed

lemma tss_base_other: "j \<noteq> i \<Longrightarrow> j \<noteq> Suc i \<Longrightarrow> Suc j \<noteq> i \<Longrightarrow> tss_base (put_tss_entry i a g) j = tss_base g j"
  by (simp add: tss_base_def put_tss_entry_def tss_entry_at_def Let_def)

text \<open>The slot the task register of a CPU selects.\<close>

lemma selected_slot: "i < 64 \<Longrightarrow> selected (GDT_TSS0 + of_nat i * 16) = 5 + i * 2"
proof -
  assume i: "i < 64"
  have "unat (of_nat i * 16 :: u16) = i * 16" using i by (simp add: unat_word_ariths unat_of_nat)
  then have "unat (GDT_TSS0 + of_nat i * 16) = 40 + i * 16"
    using i by (subst unat_plus_if') (simp add: GDT_TSS0_def)
  then show ?thesis by (simp add: selected_def)
qed

lemma init_mp_base:
  "tss_base (gdt_entries (gdt_init_mp tss_addr j s)) (5 + i * 2) =
     (if i = j then tss_addr j else tss_base (gdt_entries s) (5 + i * 2))"
proof (cases "i = j")
  case False
  have "5 + i * 2 \<noteq> 5 + j * 2" "5 + i * 2 \<noteq> Suc (5 + j * 2)" "Suc (5 + i * 2) \<noteq> 5 + j * 2" using False by presburger+
  then show ?thesis
    using False tss_base_other [of "5 + i * 2" "5 + j * 2"]
    by (simp add: gdt_init_mp_def load_gdt_def load_task_sel_def GDT_TSS0_def Let_def)
qed (simp add: gdt_init_mp_def load_gdt_def load_task_sel_def GDT_TSS0_def Let_def tss_base_set)

lemma init_base: "tss_base (gdt_entries (gdt_init tss_addr n b 0 s)) 5 = tss_addr 0"
  by (simp add: gdt_init_def load_gdt_def load_task_sel_def GDT_TSS0_def Let_def tss_base_set)

text \<open>
  Once the boot CPU, number 0, and any of the other CPUs have set up their descriptors, in whatever order, the task
  register of each of them selects a descriptor with the address of its own task state: the parts of the address that are
  spread over the descriptor give it back, and no CPU overwrites the descriptor of another.
\<close>

theorem gdt_own_tss:
  assumes "i = 0 \<or> i \<in> set others" "i < 64" "0 \<notin> set others"
  shows "tss_base (gdt_entries (fold (gdt_init_mp tss_addr) others (gdt_init tss_addr n b 0 s)))
    (selected (GDT_TSS0 + of_nat i * 16)) = tss_addr i"
proof -
  have later: "tss_base (gdt_entries (fold (gdt_init_mp tss_addr) js t)) (5 + k * 2) =
      (if k \<in> set js then tss_addr k else tss_base (gdt_entries t) (5 + k * 2))" for js k t
    by (induction js arbitrary: t) (auto simp: init_mp_base)
  show ?thesis
    using assms init_base [of tss_addr n b s] later [of others "gdt_init tss_addr n b 0 s" i]
    by (auto simp: selected_slot)
qed

theorem gdt_own_tss_witness:
  "tss_base (gdt_entries (fold (gdt_init_mp (\<lambda>i. 0xFFFF800000200000 + of_nat i * 0x1000)) [2, 1]
     (gdt_init (\<lambda>i. 0xFFFF800000200000 + of_nat i * 0x1000) 1 (Some 0) 0
       \<lparr>gdt_entries = initial_gdt, rsp0 = (\<lambda>_. 0), task_sel = 0, code_sel = 0, data_sel = 0\<rparr>)))
     (selected (GDT_TSS0 + of_nat 2 * 16)) = 0xFFFF800000202000"
  by (subst gdt_own_tss) simp_all

end
