(* ===== verification/Firmware_Files.thy ===== *)
theory Firmware_Files
  imports Device VMA_Paging
begin

text \<open>
  How the kernel finds the program to run: the files the emulator passes, \<^verbatim>\<open>kernel/fwcfg.c\<close>, and the symbols of the kernel
  image, \<^verbatim>\<open>kernel/symbols.c\<close>.  The addresses of the array \<^verbatim>\<open>fwcfg_files\<close> and of the sections of the image are those the linker
  chose, and arguments.
\<close>

section \<open>Files\<close>

record 'd fwcfg = "'d drv" +
  fwcfg_file_count :: u32

definition FW_CFG_PORT_SEL :: u16 where "FW_CFG_PORT_SEL = 0x510"
definition FW_CFG_PORT_DATA :: u16 where "FW_CFG_PORT_DATA = 0x511"
definition FW_CFG_SIGNATURE :: u16 where "FW_CFG_SIGNATURE = 0"
definition FW_CFG_FILE_DIR :: u16 where "FW_CFG_FILE_DIR = 0x19"
definition FW_CFG_MAX_FILES :: u32 where "FW_CFG_MAX_FILES = 64"
definition SIZEOF_FWCFG_FILE :: u64 where "SIZEOF_FWCFG_FILE = 64"

text \<open>The members of \<^verbatim>\<open>struct fwcfg_file\<close> in memory.\<close>

definition file_size :: "bmem \<Rightarrow> u64 \<Rightarrow> u32" where "file_size m f = get32 m f"
definition file_selector :: "bmem \<Rightarrow> u64 \<Rightarrow> u16" where "file_selector m f = get16 m (f + 4)"
definition file_name :: "u64 \<Rightarrow> u64" where "file_name f = f + 8"

primrec store_list :: "u64 \<Rightarrow> u8 list \<Rightarrow> bmem \<Rightarrow> bmem" where
  "store_list a [] m = m"
| "store_list a (x # xs) m = store_list (a + 1) xs (m(a := x))"

text \<open>None of the four characters \<^verbatim>\<open>QEMU\<close> is null, so \<^verbatim>\<open>strncmp\<close> gives 0 exactly for these bytes.\<close>

definition has_fwcfg :: "'d bus \<Rightarrow> ('d, bool) state" where
  "has_fwcfg io = do {
     outw (pio io) FW_CFG_PORT_SEL FW_CFG_SIGNATURE;
     result \<leftarrow> insb (pio io) FW_CFG_PORT_DATA 4;
     State_Monad.return (result = [0x51, 0x45, 0x4d, 0x55])
   }"

definition read_be32 :: "'d bus \<Rightarrow> u32 \<Rightarrow> ('d, u32) state" where
  "read_be32 io x = do {
     b0 \<leftarrow> inb (pio io) FW_CFG_PORT_DATA;
     b1 \<leftarrow> inb (pio io) FW_CFG_PORT_DATA;
     b2 \<leftarrow> inb (pio io) FW_CFG_PORT_DATA;
     b3 \<leftarrow> inb (pio io) FW_CFG_PORT_DATA;
     State_Monad.return (x OR push_bit 24 (ucast b0) OR push_bit 16 (ucast b1) OR push_bit 8 (ucast b2) OR ucast b3)
   }"

definition read_metadata :: "'d bus \<Rightarrow> u32 \<Rightarrow> u16 \<Rightarrow> ('d, u32 \<times> u16 \<times> u8 list) state" where
  "read_metadata io sz sel = do {
     sz \<leftarrow> read_be32 io sz;
     hi \<leftarrow> inb (pio io) FW_CFG_PORT_DATA;
     lo \<leftarrow> inb (pio io) FW_CFG_PORT_DATA;
     inb (pio io) FW_CFG_PORT_DATA;
     inb (pio io) FW_CFG_PORT_DATA;
     name \<leftarrow> insb (pio io) FW_CFG_PORT_DATA 56;
     State_Monad.return (sz, sel OR push_bit 8 (ucast hi) OR ucast lo, name)
   }"

definition fwcfg_entry :: "'d bus \<Rightarrow> u64 \<Rightarrow> ('d, 'z) fwcfg_scheme \<Rightarrow> ('d, 'z) fwcfg_scheme" where
  "fwcfg_entry io f s =
     (let ((sz, sel, name), s) = dev_run (read_metadata io (file_size (ram s) f) (file_selector (ram s) f)) s
      in set_ram (store_list (file_name f) name (put16 (f + 4) sel (put32 f sz (ram s)))) s)"

primrec fwcfg_entries :: "'d bus \<Rightarrow> nat \<Rightarrow> u64 \<Rightarrow> ('d, 'z) fwcfg_scheme \<Rightarrow> ('d, 'z) fwcfg_scheme" where
  "fwcfg_entries io 0 f s = s"
| "fwcfg_entries io (Suc n) f s = fwcfg_entries io n (f + SIZEOF_FWCFG_FILE) (fwcfg_entry io f s)"

definition fwcfg_init :: "'d bus \<Rightarrow> u64 \<Rightarrow> ('d, 'z) fwcfg_scheme \<Rightarrow> (int \<times> ('d, 'z) fwcfg_scheme) option" where
  "fwcfg_init io fwcfg_files s =
     (let (present, s) = dev_run (has_fwcfg io) s
      in if \<not> present then None
         else let (n, s) = dev_run (do { outw (pio io) FW_CFG_PORT_SEL FW_CFG_FILE_DIR; read_be32 io 0 }) s
              in if \<not> n < FW_CFG_MAX_FILES then None
                 else Some (sint n, fwcfg_entries io (unat n) fwcfg_files (s\<lparr>fwcfg_file_count := n\<rparr>)))"

text \<open>The loop of \<^verbatim>\<open>fwcfg_find_file\<close> with the files that are left and the index of the next one.\<close>

primrec find_file_loop :: "bmem \<Rightarrow> u64 \<Rightarrow> u64 \<Rightarrow> nat \<Rightarrow> nat \<Rightarrow> nat option" where
  "find_file_loop m name f 0 i = None"
| "find_file_loop m name f (Suc n) i =
     (if strncmp m name (file_name f) 56 = 0 then Some i
      else find_file_loop m name (f + SIZEOF_FWCFG_FILE) n (Suc i))"

definition fwcfg_find_file :: "u64 \<Rightarrow> u64 \<Rightarrow> ('d, 'z) fwcfg_scheme \<Rightarrow> int" where
  "fwcfg_find_file fwcfg_files name s =
     (case find_file_loop (ram s) name fwcfg_files (unat (fwcfg_file_count s)) 0 of None \<Rightarrow> - EINVAL | Some i \<Rightarrow> int i)"

definition fwcfg_read_file ::
  "'d bus \<Rightarrow> u32 \<Rightarrow> u16 \<Rightarrow> u64 \<Rightarrow> ('d, 'z) fwcfg_scheme \<Rightarrow> int \<times> ('d, 'z) fwcfg_scheme" where
  "fwcfg_read_file io sz sel buf s =
     (let (xs, s) = dev_run (do { outw (pio io) FW_CFG_PORT_SEL sel; insb (pio io) FW_CFG_PORT_DATA (unat sz) }) s
      in (sint sz, set_ram (store_list buf xs (ram s)) s))"

definition fwcfg_read ::
  "'d bus \<Rightarrow> u64 \<Rightarrow> u64 \<Rightarrow> u64 \<Rightarrow> int \<Rightarrow> ('d, 'z) fwcfg_scheme \<Rightarrow> int \<times> ('d, 'z) fwcfg_scheme" where
  "fwcfg_read io fwcfg_files name buf n s =
     (let i = fwcfg_find_file fwcfg_files name s
      in if i < 0 then (i, s)
         else let f = fwcfg_files + SIZEOF_FWCFG_FILE * of_int i
              in if file_size (ram s) f > of_int n then (- ENOMEM, s)
                 else fwcfg_read_file io (file_size (ram s) f) (file_selector (ram s) f) buf s)"

text \<open>
  The address of an object of the heap that \<^verbatim>\<open>kmalloc\<close> returned for a size: the data follow the header of the object.  A null
  pointer is not looked for; writing through it has no result.
\<close>

definition obj_kva :: "u64 \<Rightarrow> nat \<times> nat \<Rightarrow> kmem \<Rightarrow> u64" where
  "obj_kva sz p k =
     table_kva (fst p) + SIZEOF_SLAB_OBJ +
     of_nat (snd p) * obj_size (slabs k (SlabId (cpu (phys k)) (unat (ROUNDUP sz SLAB_ALIGN div SLAB_ALIGN - 1))))"

definition fwcfg_read_alloc ::
  "'d bus \<Rightarrow> u64 \<Rightarrow> u64 \<Rightarrow> ('d, 'z) fwcfg_scheme \<Rightarrow> (int \<times> (nat \<times> nat) option \<times> ('d, 'z) fwcfg_scheme) option" where
  "fwcfg_read_alloc io fwcfg_files name s =
     (let i = fwcfg_find_file fwcfg_files name s
      in if i < 0 then Some (i, None, s)
         else do {
           let f = fwcfg_files + SIZEOF_FWCFG_FILE * of_int i;
           let sz = file_size (ram s) f;
           let sel = file_selector (ram s) f;
           (p, s) \<leftarrow> alloc_obj (ucast sz) s;
           buf \<leftarrow> (case p of
               None \<Rightarrow> if sz = 0 then Some 0 else None
             | Some p \<Rightarrow> Some (obj_kva (ucast sz) p (kmemory (kst s))));
           let (r, s) = fwcfg_read_file io sz sel buf s;
           Some (r, p, s)
         })"

section \<open>Symbols\<close>

record symbols =
  symbols_found :: bool
  symbol_table :: u64
  string_table :: u64

definition ELF_DYN_NULL :: u64 where "ELF_DYN_NULL = 0"
definition ELF_DYN_STRTAB :: u64 where "ELF_DYN_STRTAB = 5"
definition ELF_DYN_SYMTAB :: u64 where "ELF_DYN_SYMTAB = 6"
definition SIZEOF_ELF_SYM :: u64 where "SIZEOF_ELF_SYM = 24"

definition dyn_entry :: "bmem \<Rightarrow> u64 \<Rightarrow> symbols \<Rightarrow> symbols" where
  "dyn_entry m dyn s =
     (let tag = get64 m dyn;
          s = (if tag = ELF_DYN_SYMTAB then s\<lparr>symbol_table := get64 m (dyn + 8)\<rparr> else s)
      in if tag = ELF_DYN_STRTAB then s\<lparr>string_table := get64 m (dyn + 8)\<rparr> else s)"

partial_function (option) dyn_loop :: "bmem \<Rightarrow> u64 \<Rightarrow> symbols \<Rightarrow> symbols option" where
  "dyn_loop m dyn s = (if get64 m dyn \<noteq> ELF_DYN_NULL then dyn_loop m (dyn + 16) (dyn_entry m dyn s) else Some s)"

declare dyn_loop.simps [code]

definition find_symbol_table :: "bmem \<Rightarrow> u64 \<Rightarrow> symbols \<Rightarrow> symbols option" where
  "find_symbol_table m sdynamic s =
     (if symbols_found s then Some s
      else do {
        s \<leftarrow> dyn_loop m sdynamic s;
        if symbol_table s \<noteq> 0 \<and> string_table s \<noteq> 0 then Some (s\<lparr>symbols_found := True\<rparr>) else None
      })"

partial_function (option) find_symbol_loop :: "bmem \<Rightarrow> u64 \<Rightarrow> u64 \<Rightarrow> u64 \<Rightarrow> u64 \<Rightarrow> u64 option" where
  "find_symbol_loop m strings edynsym name symbol =
     (if symbol < edynsym then do {
        r \<leftarrow> strcmp m name (strings + ucast (get32 m symbol));
        if r = 0 then Some (get64 m (symbol + 8)) else find_symbol_loop m strings edynsym name (symbol + SIZEOF_ELF_SYM)
      }
      else Some 0)"

declare find_symbol_loop.simps [code]

definition find_symbol :: "bmem \<Rightarrow> u64 \<Rightarrow> u64 \<Rightarrow> u64 \<Rightarrow> symbols \<Rightarrow> (u64 \<times> symbols) option" where
  "find_symbol m sdynamic edynsym name s = do {
     s \<leftarrow> find_symbol_table m sdynamic s;
     v \<leftarrow> find_symbol_loop m (string_table s) edynsym name (symbol_table s);
     Some (v, s)
   }"

section \<open>What is found\<close>

lemma find_mapped: "List.find P (map f xs) = map_option f (List.find (\<lambda>x. P (f x)) xs)"
  by (induction xs) simp_all

text \<open>The value of the first symbol of a name, in a table of \<open>n\<close> symbols with the names \<open>ns\<close>.\<close>

lemma find_symbol_loop_first:
  assumes "cstring m name xs"
  shows "\<forall>i < length ns. cstring m (strings + ucast (get32 m (symbol + 24 * of_nat i))) (ns ! i) \<Longrightarrow>
    unat symbol + 24 * length ns < 2 ^ 64 \<Longrightarrow> unat edynsym = unat symbol + 24 * length ns \<Longrightarrow>
    find_symbol_loop m strings edynsym name symbol =
      Some (case List.find (\<lambda>i. ns ! i = xs) [0..<length ns] of None \<Rightarrow> 0 | Some i \<Rightarrow> get64 m (symbol + 24 * of_nat i + 8))"
proof (induction ns arbitrary: symbol)
  case Nil
  then show ?case by (subst find_symbol_loop.simps) (simp add: word_less_nat_alt)
next
  case (Cons n ns)
  have less: "symbol < edynsym" using Cons.prems(3) by (simp add: word_less_nat_alt)
  have "cstring m (strings + ucast (get32 m symbol)) n" using Cons.prems(1) [rule_format, of 0] by simp
  then obtain r where r: "strcmp m name (strings + ucast (get32 m symbol)) = Some r" "r = 0 \<longleftrightarrow> xs = n"
    using strcmp_core [OF assms] by blast
  have up: "unat (symbol + 24) = unat symbol + 24" using Cons.prems(2) by (simp add: unat_plus_if')
  have shift: "List.find (\<lambda>i. (n # ns) ! i = xs) [Suc 0..<Suc (length ns)] =
      map_option Suc (List.find (\<lambda>i. ns ! i = xs) [0..<length ns])"
    unfolding map_Suc_upt [symmetric] by (simp add: find_mapped)
  have "\<forall>i < length ns. cstring m (strings + ucast (get32 m (symbol + 24 + 24 * of_nat i))) (ns ! i)"
  proof (intro allI impI)
    fix i assume "i < length ns"
    then show "cstring m (strings + ucast (get32 m (symbol + 24 + 24 * of_nat i))) (ns ! i)"
      using Cons.prems(1) [rule_format, of "Suc i"] by (simp add: algebra_simps)
  qed
  then have ih: "find_symbol_loop m strings edynsym name (symbol + 24) =
      Some (case List.find (\<lambda>i. ns ! i = xs) [0..<length ns] of None \<Rightarrow> 0 | Some i \<Rightarrow> get64 m (symbol + 24 + 24 * of_nat i + 8))"
    using Cons.prems(2,3) up by (intro Cons.IH) simp_all
  show ?case
  proof (cases "xs = n")
    case True
    then show ?thesis using less r
      by (subst find_symbol_loop.simps) (simp add: upt_conv_Cons del: upt_Suc)
  next
    case False
    then show ?thesis using less r ih shift
      by (subst find_symbol_loop.simps)
        (simp add: SIZEOF_ELF_SYM_def upt_conv_Cons algebra_simps del: upt_Suc split: option.splits)
  qed
qed

text \<open>\<^verbatim>\<open>fwcfg_find_file\<close> gives the first file of a name.\<close>

lemma find_file_loop_first:
  "find_file_loop m name f n i =
     map_option (\<lambda>k. i + k) (List.find (\<lambda>k. strncmp m name (file_name (f + SIZEOF_FWCFG_FILE * of_nat k)) 56 = 0) [0..<n])"
proof (induction n arbitrary: f i)
  case (Suc n)
  have "List.find (\<lambda>k. strncmp m name (file_name (f + SIZEOF_FWCFG_FILE * of_nat k)) 56 = 0) [Suc 0..<Suc n] =
      map_option Suc (List.find (\<lambda>k. strncmp m name (file_name (f + SIZEOF_FWCFG_FILE + SIZEOF_FWCFG_FILE * of_nat k)) 56 = 0) [0..<n])"
    unfolding map_Suc_upt [symmetric] by (simp add: find_mapped algebra_simps)
  then show ?case using Suc.IH
    by (simp add: upt_conv_Cons option.map_comp comp_def del: upt_Suc)
qed simp

text \<open>Reading a file leaves its bytes, in order, in the buffer and changes no other memory.\<close>

lemma store_list_at:
  "length xs \<le> 2 ^ 64 \<Longrightarrow> store_list a xs m b = (if unat (b - a) < length xs then xs ! unat (b - a) else m b)"
proof (induction xs arbitrary: a m)
  case (Cons x xs)
  show ?case
  proof (cases "b = a")
    case True
    have "unat (a - (a + 1)) = 2 ^ 64 - 1" by (simp add: unsigned_minus_1_eq_mask mask_eq_exp_minus_1)
    then show ?thesis using Cons True by simp
  next
    case False
    then have "b - a \<noteq> 0" "0 < unat (b - a)" by (simp_all add: unat_gt_0)
    moreover have "b - (a + 1) = b - a - 1" by simp
    ultimately have "unat (b - a) = Suc (unat (b - (a + 1)))"
      using unat_minus_one [of "b - a"] by (simp only:) simp
    then show ?thesis using Cons False by simp
  qed
qed simp

lemma length_insb: "length (fst (run_state (insb io p n) d)) = n"
proof (induction n arbitrary: d)
  case (Suc n)
  obtain x d1 where 1: "run_state (inb io p) d = (x, d1)" by (cases "run_state (inb io p) d") auto
  obtain xs d2 where 2: "run_state (insb io p n) d1 = (xs, d2)" by (cases "run_state (insb io p n) d1") auto
  show ?case using Suc.IH [of d1] 1 2 by (simp add: monad)
qed (simp add: monad)

lemma fwcfg_read_file_bytes:
  "\<exists>xs d. length xs = unat sz \<and> fwcfg_read_file io sz sel buf s = (sint sz, s\<lparr>hw := d, ram := store_list buf xs (ram s)\<rparr>) \<and>
    (\<forall>b. store_list buf xs (ram s) b = (if unat (b - buf) < unat sz then xs ! unat (b - buf) else ram s b))"
proof -
  obtain xs d where r: "run_state (do { outw (pio io) FW_CFG_PORT_SEL sel; insb (pio io) FW_CFG_PORT_DATA (unat sz) }) (hw s) = (xs, d)"
    by (cases "run_state (do { outw (pio io) FW_CFG_PORT_SEL sel; insb (pio io) FW_CFG_PORT_DATA (unat sz) }) (hw s)") auto
  then have len: "length xs = unat sz"
    using length_insb [of "pio io" FW_CFG_PORT_DATA "unat sz" "out16 (pio io) FW_CFG_PORT_SEL sel (hw s)"] by (simp add: monad)
  have "unat sz < 2 ^ 32" using unsigned_less [of sz, where 'a = nat] by simp
  then have "length xs \<le> 2 ^ 64" using len by simp
  then show ?thesis
    using r len store_list_at [of xs buf "ram s"]
    by (intro exI [of _ xs] exI [of _ d]) (simp add: fwcfg_read_file_def dev_run_def set_ram_def)
qed

end
