(* ===== verification/Spec2Isabelle.thy ===== *)
theory Spec2Isabelle
  imports Spinlock_Conc User_Mem Walk_Inv VMA_Check Format Sched_Inv Mem_Init_Inv Console_Inv Clock
    Apic_Inv Driver_Inv Swap_Inv Boot_Loader Segments Firmware_Files
begin

text \<open>
  A verification development for the OpenLSD kernel, an x86-64 teaching operating system in C.

  \<^bold>\<open>The program.\<close>  The boot loader reads the kernel from the disk.  The kernel sets up its descriptors, console, page
  allocator, page tables, heap, interrupt controllers and timers, loads a user program as a task and enters the scheduler.  From
  then on it is entered by system calls and interrupts, which work on the areas and page tables of the current task and on the
  queues of the scheduler.  Spinlocks protect what CPUs share; intrusive lists and red-black trees link the objects.

  \<^bold>\<open>Parts, theories and correspondence.\<close>  Definitions have the names of the C functions.  A theory with the suffix \<open>_Inv\<close> has
  the lemmas on the definitions of the theory it is named after.  Paths are relative to the sources.

  \<^item> \<open>Prelude\<close>: integer types, the rounding macros of \<^verbatim>\<open>include/types.h\<close>, the page constants of
    \<^verbatim>\<open>include/x86-64/paging.h\<close>, and shared lemmas on words, lists and options.
  \<^item> \<open>Linked_List\<close>: \<^verbatim>\<open>include/list.h\<close>, \<^verbatim>\<open>lib/list.c\<close>.  A heap of links; \<open>dlist\<close> reads a list as a sequence.
  \<^item> \<open>Spinlock\<close>, \<open>Spinlock_Conc\<close>: \<^verbatim>\<open>kernel/spinlock.c\<close>.  One call, and an interleaving of any number of CPUs as a step
    relation: mutual exclusion, no deadlock among ranked locks, and which order of releases is accepted.
  \<^item> \<open>Buddy\<close>, \<open>Buddy_Inv\<close>, \<open>Page_Alloc\<close>, \<open>Page_Ref\<close>: \<^verbatim>\<open>kernel/mem/buddy.c\<close>.  The state is the array of page descriptors,
    the free lists, the counters and the lock.  The operations refine a set of free frames (locale \<open>block_allocator\<close>);
    releasing all blocks in any order restores that set.
  \<^item> \<open>Slab\<close>, \<open>Object_Heap\<close>: \<^verbatim>\<open>kernel/mem/slab.c\<close>, \<^verbatim>\<open>kernel/mem/kmem.c\<close>.  \<open>kmalloc\<close> returns distinct, disjoint objects
    (locale \<open>object_heap\<close>, the contract used by the areas).
  \<^item> \<open>Page_Walk\<close>, \<open>Walk_Inv\<close>, \<open>Page_Table\<close>, \<open>Page_Table_Inv\<close>, \<open>User_Mem\<close>: \<^verbatim>\<open>walk.c\<close>, \<^verbatim>\<open>tlb.c\<close>, \<^verbatim>\<open>ptbl.c\<close>,
    \<^verbatim>\<open>lookup.c\<close>, \<^verbatim>\<open>insert.c\<close>, \<^verbatim>\<open>remove.c\<close>, \<^verbatim>\<open>protect.c\<close>, \<^verbatim>\<open>populate.c\<close>, \<^verbatim>\<open>map.c\<close>, \<^verbatim>\<open>user.c\<close> of \<^verbatim>\<open>kernel/mem\<close>.  The walker
    takes a record of callbacks.  Lookup agrees with the translation of the processor; insertion maps the page and counts the
    reference; the check of user memory accepts exactly accessible ranges.
  \<^item> \<open>RB_Tree\<close>, \<open>RB_Tree_Inv\<close>, \<open>RB_Tree_Remove\<close>: \<^verbatim>\<open>lib/rbtree.c\<close>.  The pointer operations are related to trees as values.
  \<^item> \<open>VMA\<close>, \<open>VMA_Inv\<close>, \<open>VMA_Paging\<close>, \<open>VMA_Check\<close>: \<^verbatim>\<open>kernel/vma\<close>.  Tree and list both hold the areas of a task, ordered and
    disjoint.
  \<^item> \<open>CString\<close>, \<open>Format\<close>: \<^verbatim>\<open>lib/string.c\<close>, \<^verbatim>\<open>lib/printfmt.c\<close>, \<^verbatim>\<open>lib/printf.c\<close> over a memory of bytes.  The locale
    \<open>put_inv\<close> carries an invariant of the character sink through all of \<open>vprintfmt\<close>; it is interpreted for the buffer of
    \<open>vsnprintf\<close>, for the user library and for the console.
  \<^item> \<open>Task\<close>, \<open>Sched\<close>, \<open>Trap\<close>, \<open>Sched_Inv\<close>: \<^verbatim>\<open>kernel/sched\<close>.  The record \<open>kern\<close> is the state of the kernel.  A call that
    switches to a task returns \<open>Inr\<close>, one that returns to its caller \<open>Inl\<close>.
  \<^item> \<open>Segments\<close>: \<^verbatim>\<open>kernel/sched/gdt.c\<close>.
  \<^item> \<open>Mem_Init\<close>, \<open>Mem_Init_Inv\<close>: \<^verbatim>\<open>kernel/mem/boot.c\<close>, \<^verbatim>\<open>kernel/mem/init.c\<close>, and migration and growth of the descriptors.
  \<^item> \<open>Port_IO\<close>, \<open>Clock\<close>, \<open>Console\<close>, \<open>Console_Inv\<close>: port instructions, \<^verbatim>\<open>kernel/pic.c\<close>, \<^verbatim>\<open>kernel/rtc.c\<close>, \<^verbatim>\<open>lib/time.c\<close>,
    \<^verbatim>\<open>kernel/console.c\<close>, \<^verbatim>\<open>kernel/printf.c\<close>, \<^verbatim>\<open>lib/readline.c\<close>.
  \<^item> \<open>Device\<close>, \<open>ACPI\<close>, \<open>Apic\<close>, \<open>Apic_Inv\<close>: registers in memory, and \<^verbatim>\<open>kernel/acpi\<close>: tables of the firmware, local interrupt
    controller, list of processors, event timer.
  \<^item> \<open>PCI\<close>, \<open>ATA\<close>, \<open>AHCI\<close>, \<open>Drivers\<close>, \<open>Driver_Inv\<close>: \<^verbatim>\<open>kernel/dev\<close> and \<^verbatim>\<open>kernel/acpi/mcfg.c\<close>.  The state grows by record
    extension: \<open>drv\<close>, \<open>apic\<close>, \<open>store\<close>, \<open>swap\<close>.
  \<^item> \<open>Swap\<close>, \<open>Swap_Inv\<close>: \<^verbatim>\<open>kernel/mem/swap.c\<close> over the disks.
  \<^item> \<open>Firmware_Files\<close>: \<^verbatim>\<open>kernel/fwcfg.c\<close>, \<^verbatim>\<open>kernel/symbols.c\<close>.  The first file or symbol of a name is found, and a file is read
    in order.
  \<^item> \<open>Boot_Loader\<close>: \<^verbatim>\<open>boot/main.c\<close>.  A segment of the image ends up at its address.

  \<^bold>\<open>Conventions.\<close>  An operation that may not return gives an option; \<open>None\<close> is a panic, a failed assertion, an access through a
  null or unmapped pointer, or an endless loop.  C integers are words of their width, or \<open>int\<close> and \<open>nat\<close> where the code stays in
  range.  Objects of the heap are named by their page and their index in it.  Bytes that drivers and strings use are a function from
  addresses to bytes; the entries of page tables are a separate part of the memory.  Devices, the assembly that reads sectors and the
  symbols of the linker are arguments of the definitions; what a theorem needs of them is a hypothesis, and its witness has an
  instance.  Devices do not write to memory by themselves.

  \<^bold>\<open>Loops.\<close>  A loop over a fixed range is primitive recursion, or recursion with a termination proof.  A loop whose end depends on
  data or on a device is \<open>partial_function (option)\<close>, without a bound on its rounds; the theorems state that it returns, under the condition that
  makes it return.  No definition runs on fuel.

  \<^bold>\<open>Not modelled.\<close>  Assembly (\<^verbatim>\<open>boot/*.S\<close>, \<^verbatim>\<open>kernel/*.S\<close>, \<^verbatim>\<open>lib/*.S\<close>), which has no C semantics; \<^verbatim>\<open>kernel/main.c\<close>, a
  sequence of calls of what is modelled; \<^verbatim>\<open>kernel/mp.c\<close>, which waits for another CPU and switches stacks in inline assembly;
  \<^verbatim>\<open>kernel/monitor.c\<close>, \<^verbatim>\<open>kernel/mem/dump.c\<close>, \<^verbatim>\<open>kernel/vma/show.c\<close> and the routines \<^verbatim>\<open>*_dump_tables\<close> and \<^verbatim>\<open>show_*\<close>, which print; the stubs of the user library around
  the system call instruction; user programs and tests.
\<close>

end
